(* ===== verification/Prelude.thy ===== *)
theory Prelude
  imports
    Main
    "HOL-Library.Word"
    "HOL-Library.AList"
    "HOL-Library.Char_ord"
    "HOL-Library.List_Lexorder"
begin

text \<open>
  Shared vocabulary of the development: the Rust standard-library operations the core crate
  \<open>lfs_core\<close> relies on, as executable functions, and the generic lemmas about them.

  A Rust \<open>str\<close> is modelled as its UTF-8 bytes, a \<^typ>\<open>string\<close> (a list of 8-bit
  characters), so lengths and indices are the byte lengths and byte indices the source uses.
  A \<open>Vec<u8>\<close> that is not text is a list of \<^typ>\<open>8 word\<close>.  A \<open>HashMap\<close>
  is an association list with distinct keys, accessed only through \<open>hget\<close>,
  \<open>hput\<close> and \<open>hdel\<close>; nothing depends on the order of its entries.
\<close>

named_theorems rust_str \<open>facts about the string operations of the Rust standard library\<close>
named_theorems rust_map \<open>facts about hash maps\<close>
named_theorems rust_bytes \<open>facts about fixed-width byte encodings\<close>

type_synonym byte = "8 word"
type_synonym bytes = "byte list"

section \<open>Strings\<close>

text \<open>\<open>str::strip_prefix\<close>, \<open>str::strip_suffix\<close>, \<open>starts_with\<close> and \<open>ends_with\<close>.\<close>

fun strip_prefix :: "'a list \<Rightarrow> 'a list \<Rightarrow> 'a list option" where
  "strip_prefix [] s = Some s"
| "strip_prefix (p # ps) [] = None"
| "strip_prefix (p # ps) (c # s) = (if p = c then strip_prefix ps s else None)"

definition starts_with :: "'a list \<Rightarrow> 'a list \<Rightarrow> bool" where
  "starts_with p s \<longleftrightarrow> strip_prefix p s \<noteq> None"

definition strip_suffix :: "'a list \<Rightarrow> 'a list \<Rightarrow> 'a list option" where
  "strip_suffix p s = map_option rev (strip_prefix (rev p) (rev s))"

definition ends_with :: "'a list \<Rightarrow> 'a list \<Rightarrow> bool" where
  "ends_with p s \<longleftrightarrow> strip_suffix p s \<noteq> None"

lemma strip_prefix_eq_Some [simp, rust_str]: "strip_prefix p s = Some r \<longleftrightarrow> s = p @ r"
  by (induction p s rule: strip_prefix.induct) auto

lemma strip_prefix_eq_None [rust_str]: "strip_prefix p s = None \<longleftrightarrow> (\<forall>r. s \<noteq> p @ r)"
  by (metis not_None_eq strip_prefix_eq_Some)

lemma starts_with_iff [rust_str]: "starts_with p s \<longleftrightarrow> (\<exists>r. s = p @ r)"
  by (auto simp: starts_with_def strip_prefix_eq_None)

lemma starts_with_append [simp]: "starts_with p (p @ s)"
  by (auto simp: starts_with_iff)

lemma strip_prefix_append [simp]: "strip_prefix p (p @ s) = Some s"
  by simp

lemma strip_suffix_eq_Some [simp, rust_str]: "strip_suffix p s = Some r \<longleftrightarrow> s = r @ p"
  by (auto simp: strip_suffix_def) (metis rev_append rev_rev_ident)

lemma ends_with_iff [rust_str]: "ends_with p s \<longleftrightarrow> (\<exists>r. s = r @ p)"
  by (metis ends_with_def not_None_eq strip_suffix_eq_Some)

lemma ends_with_append [simp]: "ends_with p (s @ p)"
  by (auto simp: ends_with_iff)

text \<open>\<open>str::find\<close> and \<open>str::rfind\<close> with a byte predicate.\<close>

fun find_idx :: "('a \<Rightarrow> bool) \<Rightarrow> 'a list \<Rightarrow> nat option" where
  "find_idx P [] = None"
| "find_idx P (c # s) = (if P c then Some 0 else map_option Suc (find_idx P s))"

fun rfind_idx :: "('a \<Rightarrow> bool) \<Rightarrow> 'a list \<Rightarrow> nat option" where
  "rfind_idx P [] = None"
| "rfind_idx P (c # s) =
     (case rfind_idx P s of Some i \<Rightarrow> Some (Suc i) | None \<Rightarrow> if P c then Some 0 else None)"

lemma find_idx_None [simp, rust_str]: "find_idx P s = None \<longleftrightarrow> (\<forall>c \<in> set s. \<not> P c)"
  by (induction s) auto

lemma find_idx_Some [rust_str]:
  "find_idx P s = Some i \<longleftrightarrow> i < length s \<and> P (s ! i) \<and> (\<forall>j < i. \<not> P (s ! j))"
proof (induction s arbitrary: i)
  case (Cons c s)
  show ?case
    by (cases i) (auto simp: Cons.IH less_Suc_eq_0_disj nth_Cons' gr0_conv_Suc)
qed simp

lemma find_idx_append [simp]:
  "\<forall>c \<in> set s. \<not> P c \<Longrightarrow> P d \<Longrightarrow> find_idx P (s @ d # t) = Some (length s)"
  by (induction s) auto

lemma rfind_idx_None [simp, rust_str]: "rfind_idx P s = None \<longleftrightarrow> (\<forall>c \<in> set s. \<not> P c)"
  by (induction s) (auto split: option.splits)

lemma rfind_idx_append [simp]:
  "\<forall>c \<in> set t. \<not> P c \<Longrightarrow> P d \<Longrightarrow> rfind_idx P (s @ d # t) = Some (length s)"
proof (induction s)
  case Nil
  then have "rfind_idx P t = None" by simp
  with Nil show ?case by (simp del: rfind_idx_None)
qed simp

lemma rfind_idx_Some [rust_str]:
  "rfind_idx P s = Some i \<longleftrightarrow>
     (\<exists>a d b. s = a @ d # b \<and> length a = i \<and> P d \<and> (\<forall>c \<in> set b. \<not> P c))"
proof
  assume "rfind_idx P s = Some i"
  then show "\<exists>a d b. s = a @ d # b \<and> length a = i \<and> P d \<and> (\<forall>c \<in> set b. \<not> P c)"
  proof (induction s arbitrary: i)
    case (Cons c s)
    show ?case
    proof (cases "rfind_idx P s")
      case None
      with Cons.prems have "i = 0" "P c" "\<forall>x \<in> set s. \<not> P x" by (auto split: if_splits)
      then show ?thesis by (intro exI [of _ "[]"]) auto
    next
      case (Some j)
      with Cons obtain a d b where "s = a @ d # b" "length a = j" "P d" "\<forall>c \<in> set b. \<not> P c"
        by blast
      with Some Cons.prems show ?thesis by (intro exI [of _ "c # a"]) auto
    qed
  qed simp
qed auto

text \<open>\<open>str::split(c)\<close>: always at least one piece.  \<open>slice.join(sep)\<close>.\<close>

fun split_on :: "'a \<Rightarrow> 'a list \<Rightarrow> 'a list list" where
  "split_on d [] = [[]]"
| "split_on d (c # s) =
     (if c = d then [] # split_on d s
      else (case split_on d s of [] \<Rightarrow> [[c]] | p # ps \<Rightarrow> (c # p) # ps))"

fun join :: "'a list \<Rightarrow> 'a list list \<Rightarrow> 'a list" where
  "join sep [] = []"
| "join sep [x] = x"
| "join sep (x # y # ys) = x @ sep @ join sep (y # ys)"

lemma split_on_nonempty [simp]: "split_on d s \<noteq> []"
  by (induction s) (auto split: list.splits)

lemma split_on_pieces [rust_str]: "p \<in> set (split_on d s) \<Longrightarrow> d \<notin> set p"
  by (induction s arbitrary: p) (auto split: if_splits list.splits)

lemma join_split_on [simp, rust_str]: "join [d] (split_on d s) = s"
proof (induction s)
  case (Cons c s)
  then obtain p ps where "split_on d s = p # ps" by (meson neq_Nil_conv split_on_nonempty)
  with Cons show ?case by (cases ps) auto
qed simp

lemma split_on_noop [simp]: "d \<notin> set s \<Longrightarrow> split_on d s = [s]"
  by (induction s) auto

lemma split_on_append [simp]: "d \<notin> set p \<Longrightarrow> split_on d (p @ d # s) = p # split_on d s"
  by (induction p) auto

lemma split_on_join [rust_str]:
  "xs \<noteq> [] \<Longrightarrow> \<forall>x \<in> set xs. d \<notin> set x \<Longrightarrow> split_on d (join [d] xs) = xs"
  by (induction "[d]" xs rule: join.induct) auto

text \<open>\<open>str::split_once(c)\<close> and \<open>str::rsplit_once(c)\<close>.\<close>

definition split_once :: "'a \<Rightarrow> 'a list \<Rightarrow> ('a list \<times> 'a list) option" where
  "split_once d s = map_option (\<lambda>i. (take i s, drop (Suc i) s)) (find_idx ((=) d) s)"

definition rsplit_once :: "'a \<Rightarrow> 'a list \<Rightarrow> ('a list \<times> 'a list) option" where
  "rsplit_once d s = map_option (\<lambda>i. (take i s, drop (Suc i) s)) (rfind_idx ((=) d) s)"

lemma split_once_append [simp]: "d \<notin> set h \<Longrightarrow> split_once d (h @ d # t) = Some (h, t)"
  by (subgoal_tac "\<forall>c \<in> set h. \<not> d = c") (auto simp: split_once_def)

lemma rsplit_once_append [simp]: "d \<notin> set t \<Longrightarrow> rsplit_once d (h @ d # t) = Some (h, t)"
  by (subgoal_tac "\<forall>c \<in> set t. \<not> d = c") (auto simp: rsplit_once_def)

text \<open>\<open>str::replace(pat, rep)\<close>: one left-to-right pass over non-overlapping matches.\<close>

function replace_all :: "'a list \<Rightarrow> 'a list \<Rightarrow> 'a list \<Rightarrow> 'a list" where
  "replace_all pat rep s =
     (if pat = [] then s
      else (case s of [] \<Rightarrow> []
            | c # s' \<Rightarrow>
                (case strip_prefix pat s of
                   Some r \<Rightarrow> rep @ replace_all pat rep r
                 | None \<Rightarrow> c # replace_all pat rep s')))"
  by pat_completeness auto
termination
  by (relation "measure (\<lambda>(p, r, s). length s)") auto

declare replace_all.simps [simp del]

lemma replace_all_Nil [simp]: "replace_all pat rep [] = []"
  by (simp add: replace_all.simps)

lemma replace_all_absent [rust_str]:
  "(\<And>a b. s \<noteq> a @ pat @ b) \<Longrightarrow> replace_all pat rep s = s"
proof (induction s)
  case (Cons c s)
  have "\<And>a b. s \<noteq> a @ pat @ b"
    using Cons.prems by (metis append_Cons)
  moreover have "strip_prefix pat (c # s) = None"
    using Cons.prems [of "[]"] by (simp add: strip_prefix_eq_None)
  ultimately show ?case using Cons.IH by (simp add: replace_all.simps [of pat rep "c # s"])
qed simp

text \<open>\<open>str::lines\<close>: pieces ended by \<open>\\n\<close> or \<open>\\r\\n\<close>; no last empty piece.\<close>

definition chop_cr :: "string \<Rightarrow> string" where
  "chop_cr l = (case strip_suffix [CHR 0x0D] l of Some r \<Rightarrow> r | None \<Rightarrow> l)"

definition str_lines :: "string \<Rightarrow> string list" where
  "str_lines s =
     (let ps = split_on (CHR 0x0A) s
      in map chop_cr (butlast ps) @ (if last ps = [] then [] else [last ps]))"

text \<open>Text given line by line.\<close>

definition unlines :: "string list \<Rightarrow> string" where
  "unlines ls = concat (map (\<lambda>l. l @ [CHR 0x0A]) ls)"

definition line_ok :: "string \<Rightarrow> bool" where
  "line_ok l \<longleftrightarrow> CHR 0x0A \<notin> set l \<and> CHR 0x0D \<notin> set l"

lemma unlines_simps [simp]:
  "unlines [] = []" "unlines (l # ls) = l @ CHR 0x0A # unlines ls" "unlines (ls @ ms) = unlines ls @ unlines ms"
  by (simp_all add: unlines_def)

lemma chop_cr_noop: "CHR 0x0D \<notin> set l \<Longrightarrow> chop_cr l = l"
  by (auto simp: chop_cr_def split: option.splits)

lemma str_lines_line: "line_ok l \<Longrightarrow> str_lines (l @ CHR 0x0A # s) = l # str_lines s"
  by (simp add: str_lines_def Let_def line_ok_def chop_cr_noop)

lemma str_lines_unlines: "\<forall>l \<in> set ls. line_ok l \<Longrightarrow> str_lines (unlines ls @ s) = ls @ str_lines s"
  by (induction ls) (simp_all add: str_lines_line)

lemma str_lines_newline: "str_lines (CHR 0x0A # s) = [] # str_lines s"
  using str_lines_unlines [of "[[]]" s] by (simp add: line_ok_def)

text \<open>Replacing one byte by another byte (\<open>str::replace\<close> with one-byte arguments).\<close>

definition replace_char :: "'a \<Rightarrow> 'a \<Rightarrow> 'a list \<Rightarrow> 'a list" where
  "replace_char c d s = map (\<lambda>x. if x = c then d else x) s"

lemma length_replace_char [simp]: "length (replace_char c d s) = length s"
  by (simp add: replace_char_def)

lemma replace_char_absent [simp]: "c \<notin> set s \<Longrightarrow> replace_char c d s = s"
  by (induction s) (auto simp: replace_char_def)

section \<open>White space\<close>

text \<open>
  The UTF-8 encodings of the code points with the Unicode property \<open>White_Space\<close>, which is
  what \<open>char::is_whitespace\<close>, \<open>str::trim\<close> and \<open>str::split_whitespace\<close> test.  No such
  encoding is a proper part of another character of a well-formed string, so matching on bytes
  finds exactly the white-space characters.
\<close>

definition ws_chars :: "string list" where
  "ws_chars =
     [[CHR 0x09], [CHR 0x0A], [CHR 0x0B], [CHR 0x0C], [CHR 0x0D], [CHR 0x20],
      [CHR 0xC2, CHR 0x85], [CHR 0xC2, CHR 0xA0], [CHR 0xE1, CHR 0x9A, CHR 0x80],
      [CHR 0xE2, CHR 0x80, CHR 0x80], [CHR 0xE2, CHR 0x80, CHR 0x81],
      [CHR 0xE2, CHR 0x80, CHR 0x82], [CHR 0xE2, CHR 0x80, CHR 0x83],
      [CHR 0xE2, CHR 0x80, CHR 0x84], [CHR 0xE2, CHR 0x80, CHR 0x85],
      [CHR 0xE2, CHR 0x80, CHR 0x86], [CHR 0xE2, CHR 0x80, CHR 0x87],
      [CHR 0xE2, CHR 0x80, CHR 0x88], [CHR 0xE2, CHR 0x80, CHR 0x89],
      [CHR 0xE2, CHR 0x80, CHR 0x8A], [CHR 0xE2, CHR 0x80, CHR 0xA8],
      [CHR 0xE2, CHR 0x80, CHR 0xA9], [CHR 0xE2, CHR 0x80, CHR 0xAF],
      [CHR 0xE2, CHR 0x81, CHR 0x9F], [CHR 0xE3, CHR 0x80, CHR 0x80]]"

text \<open>What is left after the white-space character a string starts or ends with.\<close>

fun strip_any :: "'a list list \<Rightarrow> 'a list \<Rightarrow> 'a list option" where
  "strip_any [] s = None"
| "strip_any (p # ps) s = (case strip_prefix p s of Some r \<Rightarrow> Some r | None \<Rightarrow> strip_any ps s)"

definition strip_ws :: "string \<Rightarrow> string option" where
  "strip_ws s = strip_any ws_chars s"

definition strip_ws_end :: "string \<Rightarrow> string option" where
  "strip_ws_end s = map_option rev (strip_any (map rev ws_chars) (rev s))"

lemma strip_any_Some: "strip_any ps s = Some r \<Longrightarrow> \<exists>p \<in> set ps. s = p @ r"
  by (induction ps) (auto split: option.splits)

lemma strip_any_None: "strip_any ps s = None \<longleftrightarrow> (\<forall>p \<in> set ps. \<not> starts_with p s)"
  by (induction ps) (auto simp: starts_with_def split: option.splits)

lemma ws_chars_nonempty: "p \<in> set ws_chars \<Longrightarrow> p \<noteq> []"
  by (auto simp: ws_chars_def)

lemma strip_ws_shorter: "strip_ws s = Some r \<Longrightarrow> length r < length s"
  by (auto simp: strip_ws_def dest!: strip_any_Some dest: ws_chars_nonempty)

lemma strip_ws_end_shorter: "strip_ws_end s = Some r \<Longrightarrow> length r < length s"
proof -
  assume "strip_ws_end s = Some r"
  then obtain q where "strip_any (map rev ws_chars) (rev s) = Some q" and r: "r = rev q"
    by (auto simp: strip_ws_end_def)
  then obtain p where "p \<in> set ws_chars" "rev s = rev p @ q"
    using strip_any_Some by fastforce
  then have "length s = length p + length q" "p \<noteq> []"
    by (metis length_append length_rev, simp add: ws_chars_nonempty)
  with r show ?thesis by simp
qed

function trim_start :: "string \<Rightarrow> string" where
  "trim_start s = (case strip_ws s of Some r \<Rightarrow> trim_start r | None \<Rightarrow> s)"
  by pat_completeness auto
termination
  by (relation "measure length") (auto dest: strip_ws_shorter)

function trim_end :: "string \<Rightarrow> string" where
  "trim_end s = (case strip_ws_end s of Some r \<Rightarrow> trim_end r | None \<Rightarrow> s)"
  by pat_completeness auto
termination
  by (relation "measure length") (auto dest: strip_ws_end_shorter)

declare trim_start.simps [simp del] trim_end.simps [simp del]

definition trim :: "string \<Rightarrow> string" where
  "trim s = trim_end (trim_start s)"

lemma strip_ws_trim_start: "strip_ws (trim_start s) = None"
proof (induction s rule: trim_start.induct)
  case (1 s)
  then show ?case by (cases "strip_ws s") (simp_all add: trim_start.simps [of s])
qed

lemma trim_start_noop: "strip_ws s = None \<Longrightarrow> trim_start s = s"
  by (simp add: trim_start.simps)

lemma trim_start_idem [simp]: "trim_start (trim_start s) = trim_start s"
  by (rule trim_start_noop) (rule strip_ws_trim_start)

lemma trim_start_suffix: "\<exists>p. s = p @ trim_start s"
proof (induction s rule: trim_start.induct)
  case (1 s)
  show ?case
  proof (cases "strip_ws s")
    case None
    then show ?thesis by (simp add: trim_start.simps [of s])
  next
    case (Some r)
    then obtain p q where "s = p @ r" "r = q @ trim_start r"
      using "1" strip_any_Some unfolding strip_ws_def by metis
    with Some show ?thesis by (metis append.assoc option.simps(5) trim_start.simps)
  qed
qed

lemma strip_ws_trim_end: "strip_ws_end (trim_end s) = None"
proof (induction s rule: trim_end.induct)
  case (1 s)
  then show ?case by (cases "strip_ws_end s") (simp_all add: trim_end.simps [of s])
qed

lemma trim_end_noop: "strip_ws_end s = None \<Longrightarrow> trim_end s = s"
  by (simp add: trim_end.simps)

lemma trim_end_prefix: "\<exists>p. s = trim_end s @ p"
proof (induction s rule: trim_end.induct)
  case (1 s)
  show ?case
  proof (cases "strip_ws_end s")
    case None
    then show ?thesis by (simp add: trim_end.simps [of s])
  next
    case (Some r)
    then obtain q where q: "strip_any (map rev ws_chars) (rev s) = Some q" "r = rev q"
      by (auto simp: strip_ws_end_def)
    then obtain p where "rev s = p @ q" using strip_any_Some by metis
    then have "s = r @ rev p" using q by (metis rev_append rev_rev_ident)
    moreover obtain p' where "r = trim_end r @ p'" using "1" Some by blast
    ultimately show ?thesis using Some by (metis append.assoc option.simps(5) trim_end.simps)
  qed
qed

lemma strip_ws_prefix_None:
  assumes "strip_ws (a @ b) = None" and "a \<noteq> []"
  shows "\<forall>p \<in> set ws_chars. \<not> starts_with p a"
proof
  fix p assume "p \<in> set ws_chars"
  with assms(1) have "\<not> starts_with p (a @ b)" by (simp add: strip_ws_def strip_any_None)
  then show "\<not> starts_with p a" by (auto simp: starts_with_iff)
qed

lemma trim_idem [simp, rust_str]: "trim (trim s) = trim s"
proof -
  obtain p where p: "trim_start s = trim_end (trim_start s) @ p" using trim_end_prefix by blast
  have "strip_ws (trim_end (trim_start s)) = None"
  proof (cases "trim_end (trim_start s) = []")
    case True
    then show ?thesis by (simp add: strip_ws_def strip_any_None starts_with_iff ws_chars_def)
  next
    case False
    have "strip_ws (trim_end (trim_start s) @ p) = None" using p strip_ws_trim_start by metis
    then show ?thesis
      using strip_ws_prefix_None False by (simp add: strip_ws_def strip_any_None)
  qed
  then show ?thesis unfolding trim_def by (simp add: trim_start_noop trim_end_noop strip_ws_trim_end)
qed

lemma trim_infix: "\<exists>a b. s = a @ trim s @ b"
  unfolding trim_def by (metis trim_end_prefix trim_start_suffix)

lemma set_trim_subset [rust_str]: "set (trim s) \<subseteq> set s"
  by (metis Un_iff set_append subsetI trim_infix)

lemma length_trim_le [rust_str]: "length (trim s) \<le> length s"
  using trim_infix [of s] by (metis add_leD2 length_append le_add1 trans_le_add2 order_refl)

text \<open>A string none of whose bytes begins or ends a white-space character is its own trim.\<close>

definition ws_lead :: "char \<Rightarrow> bool" where
  "ws_lead c \<longleftrightarrow> c \<in> set (map hd ws_chars)"

definition ws_tail :: "char \<Rightarrow> bool" where
  "ws_tail c \<longleftrightarrow> c \<in> set (map last ws_chars)"

lemma strip_ws_lead: "s \<noteq> [] \<Longrightarrow> \<not> ws_lead (hd s) \<Longrightarrow> strip_ws s = None"
  by (auto simp: strip_ws_def strip_any_None starts_with_iff ws_lead_def)
     (metis hd_append2 image_eqI ws_chars_nonempty)

lemma strip_ws_Nil [simp]: "strip_ws [] = None"
  by (auto simp: strip_ws_def strip_any_None starts_with_iff ws_chars_def)

lemma strip_ws_end_Nil [simp]: "strip_ws_end [] = None"
  by (auto simp: strip_ws_end_def strip_any_None starts_with_iff ws_chars_def)

lemma strip_ws_end_tail: "s \<noteq> [] \<Longrightarrow> \<not> ws_tail (last s) \<Longrightarrow> strip_ws_end s = None"
proof -
  assume s: "s \<noteq> []" "\<not> ws_tail (last s)"
  have "\<not> starts_with (rev p) (rev s)" if "p \<in> set ws_chars" for p
  proof
    assume "starts_with (rev p) (rev s)"
    then obtain r where "rev s = rev p @ r" by (auto simp: starts_with_iff)
    then have "s = rev r @ p" by (metis rev_append rev_rev_ident)
    moreover have "p \<noteq> []" using that by (rule ws_chars_nonempty)
    ultimately have "last s = last p" by simp
    with that s(2) show False by (auto simp: ws_tail_def)
  qed
  then show ?thesis by (auto simp: strip_ws_end_def strip_any_None)
qed

lemma trim_noop [rust_str]:
  "(s \<noteq> [] \<Longrightarrow> \<not> ws_lead (hd s) \<and> \<not> ws_tail (last s)) \<Longrightarrow> trim s = s"
  unfolding trim_def
  by (cases "s = []") (auto simp: trim_start_noop trim_end_noop strip_ws_lead strip_ws_end_tail)

text \<open>\<open>str::find(char::is_whitespace)\<close> and \<open>str::split_whitespace\<close>.\<close>

fun find_ws :: "string \<Rightarrow> nat option" where
  "find_ws [] = None"
| "find_ws (c # s) = (if strip_ws (c # s) \<noteq> None then Some 0 else map_option Suc (find_ws s))"

function split_ws :: "string \<Rightarrow> string \<Rightarrow> string list" where
  "split_ws acc s =
     (case strip_ws s of
        Some r \<Rightarrow> (if acc = [] then split_ws [] r else rev acc # split_ws [] r)
      | None \<Rightarrow> (case s of [] \<Rightarrow> if acc = [] then [] else [rev acc]
                 | c # s' \<Rightarrow> split_ws (c # acc) s'))"
  by pat_completeness auto
termination
  by (relation "measure (\<lambda>(acc, s). length s)") (auto dest: strip_ws_shorter)

declare split_ws.simps [simp del]

definition split_whitespace :: "string \<Rightarrow> string list" where
  "split_whitespace s = split_ws [] s"

text \<open>A run of bytes none of which begins a white-space character.\<close>

definition no_ws :: "string \<Rightarrow> bool" where
  "no_ws s \<longleftrightarrow> (\<forall>c \<in> set s. \<not> ws_lead c)"

lemma no_ws_Cons [simp]: "no_ws (c # s) \<longleftrightarrow> \<not> ws_lead c \<and> no_ws s"
  by (auto simp: no_ws_def)

lemma no_ws_append [simp]: "no_ws (a @ b) \<longleftrightarrow> no_ws a \<and> no_ws b"
  by (auto simp: no_ws_def)

lemma no_ws_Nil [simp]: "no_ws []"
  by (simp add: no_ws_def)

lemma find_ws_append [simp]: "no_ws t \<Longrightarrow> strip_ws s \<noteq> None \<Longrightarrow> find_ws (t @ s) = Some (length t)"
proof (induction t)
  case Nil
  then show ?case by (cases s) auto
next
  case (Cons c t)
  then have "strip_ws ((c # t) @ s) = None" by (intro strip_ws_lead) auto
  with Cons show ?case by auto
qed

lemma split_ws_token: "no_ws t \<Longrightarrow> split_ws acc (t @ s) = split_ws (rev t @ acc) s"
proof (induction t arbitrary: acc)
  case (Cons c t)
  then have "strip_ws (c # t @ s) = None" by (intro strip_ws_lead) auto
  with Cons show ?case by (subst split_ws.simps) simp
qed simp

lemma strip_ws_space [simp]: "strip_ws (CHR 0x20 # s) = Some s"
  by (simp add: strip_ws_def ws_chars_def)

lemma split_ws_end [simp]: "split_ws acc [] = (if acc = [] then [] else [rev acc])"
  by (simp add: split_ws.simps)

lemma split_ws_space [simp]:
  "split_ws acc (CHR 0x20 # s) = (if acc = [] then split_ws [] s else rev acc # split_ws [] s)"
  by (simp add: split_ws.simps [of acc "CHR 0x20 # s"])

lemma split_whitespace_words [rust_str]:
  "no_ws t \<Longrightarrow> t \<noteq> [] \<Longrightarrow> split_whitespace (t @ CHR 0x20 # s) = t # split_whitespace s"
  "no_ws t \<Longrightarrow> t \<noteq> [] \<Longrightarrow> split_whitespace t = [t]"
  using split_ws_token [of t "[]" "CHR 0x20 # s"] split_ws_token [of t "[]" "[]"]
  by (simp_all add: split_whitespace_def)

text \<open>Printable ASCII other than the blank: never part of a white-space character.\<close>

definition graphic :: "char \<Rightarrow> bool" where
  "graphic c \<longleftrightarrow> 33 \<le> (of_char c :: nat) \<and> (of_char c :: nat) \<le> 126"

lemma graphic_not_ws [simp]: "graphic c \<Longrightarrow> \<not> ws_lead c" "graphic c \<Longrightarrow> \<not> ws_tail c"
  by (auto simp: graphic_def ws_lead_def ws_tail_def ws_chars_def)

lemma graphic_not_blank [simp]: "\<not> graphic (CHR 0x20)" "\<not> graphic (CHR 0x0A)"
  by (simp_all add: graphic_def)

lemma no_ws_graphic: "list_all graphic s \<Longrightarrow> no_ws s"
  by (auto simp: no_ws_def list_all_iff)

lemma trim_graphic_ends [simp]: "s \<noteq> [] \<Longrightarrow> graphic (hd s) \<Longrightarrow> graphic (last s) \<Longrightarrow> trim s = s"
  by (rule trim_noop) simp

section \<open>ASCII case and decimal numerals\<close>

definition is_ascii_digit :: "char \<Rightarrow> bool" where
  "is_ascii_digit c \<longleftrightarrow> 48 \<le> (of_char c :: nat) \<and> (of_char c :: nat) \<le> 57"

definition is_ascii_upper :: "char \<Rightarrow> bool" where
  "is_ascii_upper c \<longleftrightarrow> 65 \<le> (of_char c :: nat) \<and> (of_char c :: nat) \<le> 90"

definition is_ascii_lower :: "char \<Rightarrow> bool" where
  "is_ascii_lower c \<longleftrightarrow> 97 \<le> (of_char c :: nat) \<and> (of_char c :: nat) \<le> 122"

definition is_ascii_alpha :: "char \<Rightarrow> bool" where
  "is_ascii_alpha c \<longleftrightarrow> is_ascii_upper c \<or> is_ascii_lower c"

definition to_ascii_lower :: "char \<Rightarrow> char" where
  "to_ascii_lower c = (if is_ascii_upper c then char_of ((of_char c :: nat) + 32) else c)"

definition to_ascii_upper :: "char \<Rightarrow> char" where
  "to_ascii_upper c = (if is_ascii_lower c then char_of ((of_char c :: nat) - 32) else c)"

text \<open>The digits of a number, as \<open>format!("{n}")\<close> prints them, and zero padding.\<close>

definition digit :: "nat \<Rightarrow> char" where
  "digit n = char_of (48 + n)"

fun dec :: "nat \<Rightarrow> string" where
  "dec n = (if n < 10 then [digit n] else dec (n div 10) @ [digit (n mod 10)])"

declare dec.simps [simp del]

definition pad0 :: "nat \<Rightarrow> string \<Rightarrow> string" where
  "pad0 w s = replicate (w - length s) (CHR 0x30) @ s"

text \<open>Decimal digits to a number; \<open>None\<close> on an empty string or another byte.\<close>

definition digits_val :: "string \<Rightarrow> nat" where
  "digits_val s = fold (\<lambda>c n. 10 * n + (of_char c - 48)) s 0"

definition parse_digits :: "string \<Rightarrow> nat option" where
  "parse_digits s = (if s \<noteq> [] \<and> list_all is_ascii_digit s then Some (digits_val s) else None)"

text \<open>
  \<open>str::parse::<uN>()\<close> with largest value \<open>hi\<close>: an optional \<open>+\<close>, then digits.
  \<open>str::parse::<iN>()\<close> with smallest and largest values: an optional \<open>+\<close> or \<open>-\<close>.
\<close>

definition parse_unsigned :: "nat \<Rightarrow> string \<Rightarrow> nat option" where
  "parse_unsigned hi s =
     (case parse_digits (case s of c # r \<Rightarrow> if c = CHR ''+'' then r else s | [] \<Rightarrow> s) of
        Some n \<Rightarrow> if n \<le> hi then Some n else None
      | None \<Rightarrow> None)"

definition parse_signed :: "int \<Rightarrow> int \<Rightarrow> string \<Rightarrow> int option" where
  "parse_signed lo hi s =
     (case (case s of c # r \<Rightarrow>
              (if c = CHR ''-'' then map_option (\<lambda>n. - int n) (parse_digits r)
               else map_option int (parse_digits (if c = CHR ''+'' then r else s)))
            | [] \<Rightarrow> None) of
        Some n \<Rightarrow> if lo \<le> n \<and> n \<le> hi then Some n else None
      | None \<Rightarrow> None)"

lemma of_char_digit [simp]: "n < 10 \<Longrightarrow> of_char (digit n) = 48 + n"
  by (simp add: digit_def of_char_of)

lemma is_ascii_digit_digit [simp]: "n < 10 \<Longrightarrow> is_ascii_digit (digit n)"
  by (simp add: is_ascii_digit_def)

lemma dec_nonempty [simp]: "dec n \<noteq> []"
  by (subst dec.simps) simp

lemma dec_digits: "list_all is_ascii_digit (dec n)"
proof (induction n rule: dec.induct)
  case (1 n)
  then show ?case by (cases "n < 10") (simp_all add: dec.simps [of n])
qed

lemma digits_val_snoc [simp]: "digits_val (s @ [c]) = 10 * digits_val s + (of_char c - 48)"
  by (simp add: digits_val_def)

lemma digits_val_dec [simp]: "digits_val (dec n) = n"
proof (induction n rule: dec.induct)
  case (1 n)
  show ?case
  proof (cases "n < 10")
    case True
    then show ?thesis by (simp add: dec.simps [of n] digits_val_def)
  next
    case False
    with "1" show ?thesis by (simp add: dec.simps [of n])
  qed
qed

lemma digits_val_zeros [simp]: "digits_val (replicate k (CHR 0x30) @ s) = digits_val s"
  by (induction k) (simp_all add: digits_val_def)

lemma parse_digits_dec [simp, rust_str]: "parse_digits (dec n) = Some n"
  by (simp add: parse_digits_def dec_digits)

lemma parse_digits_pad0 [simp, rust_str]: "parse_digits (pad0 w (dec n)) = Some n"
  by (simp add: parse_digits_def dec_digits pad0_def list_all_append)
     (simp add: list_all_iff is_ascii_digit_def)

lemma is_ascii_digit_not [simp]:
  "\<not> is_ascii_digit (CHR ''+'')" "\<not> is_ascii_digit (CHR ''-'')"
  "\<not> is_ascii_digit (CHR '':'')" "\<not> is_ascii_digit (CHR '']'')"
  by (simp_all add: is_ascii_digit_def)

lemma digit_graphic: "is_ascii_digit c \<Longrightarrow> graphic c"
  by (simp add: is_ascii_digit_def graphic_def)

lemma dec_graphic [simp]: "list_all graphic (dec n)"
  using dec_digits [of n] by (auto simp: list_all_iff digit_graphic)

lemma digits_not_member:
  "list_all is_ascii_digit s \<Longrightarrow> \<not> is_ascii_digit c \<Longrightarrow> c \<notin> set s"
  by (auto simp: list_all_iff)

lemma parse_unsigned_digits:
  "list_all is_ascii_digit s \<Longrightarrow> s \<noteq> [] \<Longrightarrow>
     parse_unsigned hi s = (if digits_val s \<le> hi then Some (digits_val s) else None)"
  by (cases s) (auto simp: parse_unsigned_def parse_digits_def)

lemma parse_signed_digits:
  "list_all is_ascii_digit s \<Longrightarrow> s \<noteq> [] \<Longrightarrow>
     parse_signed lo hi s =
       (if lo \<le> int (digits_val s) \<and> int (digits_val s) \<le> hi then Some (int (digits_val s)) else None)"
  by (cases s) (auto simp: parse_signed_def parse_digits_def)

lemma parse_unsigned_dec [simp]: "parse_unsigned hi (dec n) = (if n \<le> hi then Some n else None)"
  by (simp add: parse_unsigned_digits dec_digits)

lemma parse_signed_dec [simp]:
  "parse_signed lo hi (dec n) = (if lo \<le> int n \<and> int n \<le> hi then Some (int n) else None)"
  by (simp add: parse_signed_digits dec_digits)

lemma parse_unsigned_le: "parse_unsigned hi s = Some n \<Longrightarrow> n \<le> hi"
  by (auto simp: parse_unsigned_def split: option.splits if_splits)

section \<open>Fixed-width integers as bytes\<close>

text \<open>
  \<open>to_be_bytes\<close> and \<open>to_le_bytes\<close> of a \<open>k\<close>-byte unsigned integer (a larger number keeps its
  low bytes, as an \<open>as\<close> cast does), and the readers back.
\<close>

primrec be_bytes :: "nat \<Rightarrow> nat \<Rightarrow> bytes" where
  "be_bytes 0 v = []"
| "be_bytes (Suc k) v = be_bytes k (v div 256) @ [of_nat v]"

definition be_val :: "bytes \<Rightarrow> nat" where
  "be_val bs = fold (\<lambda>b n. 256 * n + unat b) bs 0"

definition le_bytes :: "nat \<Rightarrow> nat \<Rightarrow> bytes" where
  "le_bytes k v = rev (be_bytes k v)"

definition le_val :: "bytes \<Rightarrow> nat" where
  "le_val bs = be_val (rev bs)"

lemma length_be_bytes [simp, rust_bytes]: "length (be_bytes k v) = k"
  by (induction k arbitrary: v) auto

lemma length_le_bytes [simp, rust_bytes]: "length (le_bytes k v) = k"
  by (simp add: le_bytes_def)

lemma be_val_snoc [simp]: "be_val (bs @ [b]) = 256 * be_val bs + unat b"
  by (simp add: be_val_def)

lemma be_val_Nil [simp]: "be_val [] = 0"
  by (simp add: be_val_def)

lemma be_val_be_bytes [simp, rust_bytes]: "be_val (be_bytes k v) = v mod 256 ^ k"
proof (induction k arbitrary: v)
  case (Suc k)
  have "unat (of_nat v :: byte) = v mod 256" by (simp add: unat_of_nat)
  then show ?case by (simp add: Suc mod_mult2_eq)
qed simp

lemma le_val_le_bytes [simp, rust_bytes]: "le_val (le_bytes k v) = v mod 256 ^ k"
  by (simp add: le_val_def le_bytes_def)

lemma unat_byte_less: "unat (b :: byte) < 256"
  using unsigned_less [of b] by simp

lemma be_val_less: "be_val bs < 256 ^ length bs"
proof (induction bs rule: rev_induct)
  case (snoc b bs)
  have "unat b < 256" by (rule unat_byte_less)
  with snoc show ?case by simp
qed simp

lemma be_bytes_be_val [simp, rust_bytes]: "be_bytes (length bs) (be_val bs) = bs"
proof (induction bs rule: rev_induct)
  case (snoc b bs)
  have u: "unat b < 256" by (rule unat_byte_less)
  have "(256 * be_val bs + unat b) div 256 = be_val bs" using u by simp
  moreover have "(of_nat (256 * be_val bs + unat b) :: byte) = b"
    by (rule word_unat_eq_iff [THEN iffD2]) (use u in \<open>simp add: unat_of_nat del: of_nat_add of_nat_mult\<close>)
  ultimately show ?case using snoc by (simp del: of_nat_add of_nat_mult)
qed simp

lemma be_val_Cons [simp]: "be_val (b # bs) = unat b * 256 ^ length bs + be_val bs"
  by (induction bs rule: rev_induct) (simp_all add: be_val_def algebra_simps)

text \<open>The bytes of a string.\<close>

definition str_bytes :: "string \<Rightarrow> bytes" where
  "str_bytes s = map of_char s"

lemma length_str_bytes [simp]: "length (str_bytes s) = length s"
  by (simp add: str_bytes_def)

definition bytes_str :: "bytes \<Rightarrow> string" where
  "bytes_str bs = map (\<lambda>b. char_of (unat b)) bs"

lemma length_bytes_str [simp]: "length (bytes_str bs) = length bs"
  by (simp add: bytes_str_def)

lemma bytes_str_str_bytes [simp, rust_bytes]: "bytes_str (str_bytes s) = s"
proof -
  have "unat (of_char c :: byte) = of_char c" for c
    by (simp add: of_nat_of_char [where ?'a = byte, symmetric] unat_of_nat)
  then show ?thesis by (simp add: bytes_str_def str_bytes_def comp_def)
qed

lemma str_bytes_bytes_str [simp, rust_bytes]: "str_bytes (bytes_str bs) = bs"
proof -
  have "(of_char (char_of (unat b)) :: byte) = b" for b :: byte
    using unat_byte_less [of b] by (simp add: of_nat_of_char [where ?'a = byte, symmetric])
  then show ?thesis by (simp add: bytes_str_def str_bytes_def comp_def)
qed

text \<open>
  \<open>str::from_utf8\<close>: the well-formed byte sequences of the Unicode standard (table 3-7).
\<close>

definition in_range :: "nat \<Rightarrow> nat \<Rightarrow> byte \<Rightarrow> bool" where
  "in_range lo hi b \<longleftrightarrow> lo \<le> unat b \<and> unat b \<le> hi"

definition utf8_second :: "byte \<Rightarrow> byte \<Rightarrow> bool" where
  "utf8_second a b \<longleftrightarrow>
     (if unat a = 0xE0 then in_range 0xA0 0xBF b
      else if unat a = 0xED then in_range 0x80 0x9F b
      else if unat a = 0xF0 then in_range 0x90 0xBF b
      else if unat a = 0xF4 then in_range 0x80 0x8F b
      else in_range 0x80 0xBF b)"

fun utf8_ok :: "bytes \<Rightarrow> bool" where
  "utf8_ok [] \<longleftrightarrow> True"
| "utf8_ok (a # r) \<longleftrightarrow>
     (if unat a < 0x80 then utf8_ok r
      else if in_range 0xC2 0xDF a then
        (case r of b # r' \<Rightarrow> utf8_second a b \<and> utf8_ok r' | _ \<Rightarrow> False)
      else if in_range 0xE0 0xEF a then
        (case r of b # c # r' \<Rightarrow> utf8_second a b \<and> in_range 0x80 0xBF c \<and> utf8_ok r' | _ \<Rightarrow> False)
      else if in_range 0xF0 0xF4 a then
        (case r of b # c # d # r' \<Rightarrow>
           utf8_second a b \<and> in_range 0x80 0xBF c \<and> in_range 0x80 0xBF d \<and> utf8_ok r'
         | _ \<Rightarrow> False)
      else False)"

definition from_utf8 :: "bytes \<Rightarrow> string option" where
  "from_utf8 bs = (if utf8_ok bs then Some (bytes_str bs) else None)"

lemma utf8_ok_ascii: "list_all (\<lambda>b. unat b < 128) bs \<Longrightarrow> utf8_ok bs"
  by (induction bs) auto

section \<open>Hash maps and sorted lists\<close>

type_synonym ('k, 'v) hmap = "('k \<times> 'v) list"

definition hempty :: "('k, 'v) hmap" where
  "hempty = []"

definition hget :: "('k, 'v) hmap \<Rightarrow> 'k \<Rightarrow> 'v option" where
  "hget m k = map_of m k"

definition hput :: "'k \<Rightarrow> 'v \<Rightarrow> ('k, 'v) hmap \<Rightarrow> ('k, 'v) hmap" where
  "hput k v m = AList.update k v m"

definition hdel :: "'k \<Rightarrow> ('k, 'v) hmap \<Rightarrow> ('k, 'v) hmap" where
  "hdel k m = AList.delete k m"

definition hkeys :: "('k, 'v) hmap \<Rightarrow> 'k list" where
  "hkeys m = map fst m"

definition hinv :: "('k, 'v) hmap \<Rightarrow> bool" where
  "hinv m \<longleftrightarrow> distinct (hkeys m)"

lemma hget_hempty [simp, rust_map]: "hget hempty k = None"
  by (simp add: hget_def hempty_def)

lemma hget_hput [simp, rust_map]: "hget (hput k v m) l = (if l = k then Some v else hget m l)"
  by (simp add: hget_def hput_def update_conv')

lemma hget_hdel [simp, rust_map]: "hget (hdel k m) l = (if l = k then None else hget m l)"
  by (simp add: hget_def hdel_def delete_conv')

lemma set_hkeys [simp, rust_map]: "k \<in> set (hkeys m) \<longleftrightarrow> hget m k \<noteq> None"
  by (simp add: hget_def hkeys_def map_of_eq_None_iff)

lemma hinv_hempty [simp]: "hinv hempty"
  by (simp add: hinv_def hempty_def hkeys_def)

lemma hinv_hput [simp]: "hinv m \<Longrightarrow> hinv (hput k v m)"
  by (simp add: hinv_def hput_def hkeys_def distinct_update)

lemma hinv_hdel [simp]: "hinv m \<Longrightarrow> hinv (hdel k m)"
  by (simp add: hinv_def hdel_def hkeys_def distinct_delete)

lemma hput_hput_same [simp]: "hput k v (hput k w m) = hput k v m"
  by (simp add: hput_def)

text \<open>\<open>Vec::sort\<close> followed by \<open>Vec::dedup\<close>.\<close>

definition sort_dedup :: "'a::linorder list \<Rightarrow> 'a list" where
  "sort_dedup xs = remdups_adj (sort xs)"

lemma set_sort_dedup [simp]: "set (sort_dedup xs) = set xs"
  by (simp add: sort_dedup_def)

lemma sorted_sort_dedup [simp]: "sorted (sort_dedup xs)"
  by (simp add: sort_dedup_def)

lemma distinct_remdups_adj_sorted: "sorted xs \<Longrightarrow> distinct (remdups_adj xs)"
  by (induction xs rule: remdups_adj.induct) auto

lemma distinct_sort_dedup [simp]: "distinct (sort_dedup xs)"
  by (simp add: sort_dedup_def distinct_remdups_adj_sorted)

end
