(* ===== verification/Interfaces.thy ===== *)
theory Interfaces
  imports Prelude
begin

text \<open>
  The contracts the components rely on, stated once as locales: a keyed store (what the code
  asks of a \<open>HashMap\<close>), a registry that applies commands to the entry of an id, a state
  machine with an invariant, a reversible codec and a reader of fixed-size records.  Each is
  interpreted on the definitions of the component that provides it.
\<close>

section \<open>Keyed stores\<close>

locale keyed_store =
  fixes empty :: 'm
    and get :: "'m \<Rightarrow> 'k \<Rightarrow> 'v option"
    and put :: "'k \<Rightarrow> 'v \<Rightarrow> 'm \<Rightarrow> 'm"
    and del :: "'k \<Rightarrow> 'm \<Rightarrow> 'm"
    and ok :: "'m \<Rightarrow> bool"
  assumes get_empty: "get empty k = None"
    and get_put: "get (put k v m) l = (if l = k then Some v else get m l)"
    and get_del: "get (del k m) l = (if l = k then None else get m l)"
    and ok_empty: "ok empty"
    and ok_put: "ok m \<Longrightarrow> ok (put k v m)"
    and ok_del: "ok m \<Longrightarrow> ok (del k m)"
begin

lemma get_put_other: "l \<noteq> k \<Longrightarrow> get (put k v m) l = get m l"
  by (simp add: get_put)

lemma get_puts:
  "get (fold (\<lambda>(k, v). put k v) kvs m) l =
     (case map_of (rev kvs) l of Some v \<Rightarrow> Some v | None \<Rightarrow> get m l)"
  by (induction kvs arbitrary: m)
     (auto simp: get_put map_add_def split: option.splits dest: map_of_SomeD)

lemma get_dels: "get (fold del ks m) l = (if l \<in> set ks then None else get m l)"
  by (induction ks arbitrary: m) (auto simp: get_del)

lemma ok_puts: "ok m \<Longrightarrow> ok (fold (\<lambda>(k, v). put k v) kvs m)"
  by (induction kvs arbitrary: m) (auto simp: ok_put)

lemma ok_dels: "ok m \<Longrightarrow> ok (fold del ks m)"
  by (induction ks arbitrary: m) (auto simp: ok_del)

end

interpretation hash: keyed_store hempty hget hput hdel hinv
  by unfold_locales auto

section \<open>Registries\<close>

text \<open>
  A registry of independent entries: \<open>act k c r\<close> looks up the entry of id \<open>k\<close>, creating the
  default one (\<open>entry(k).or_default()\<close>), and applies the command \<open>c\<close> to it.  Commands for
  different ids may interleave in any way: the entry of an id only depends on its own commands.
\<close>

locale entry_registry =
  fixes look :: "'m \<Rightarrow> 'k \<Rightarrow> 'v option"
    and act :: "'k \<Rightarrow> 'c \<Rightarrow> 'm \<Rightarrow> 'm"
    and step :: "'c \<Rightarrow> 'v \<Rightarrow> 'v"
    and fresh :: 'v
  assumes look_act:
    "look (act k c m) l =
       (if l = k then Some (step c (case look m k of Some v \<Rightarrow> v | None \<Rightarrow> fresh)) else look m l)"
begin

lemma look_run_absent:
  "l \<notin> fst ` set cs \<Longrightarrow> look (fold (\<lambda>(k, c). act k c) cs m) l = look m l"
  by (induction cs arbitrary: m) (auto simp: look_act)

lemma look_run:
  assumes "l \<in> fst ` set cs"
  shows "look (fold (\<lambda>(k, c). act k c) cs m) l =
    Some (fold step (map snd (filter (\<lambda>p. fst p = l) cs))
      (case look m l of Some v \<Rightarrow> v | None \<Rightarrow> fresh))"
  using assms
proof (induction cs arbitrary: m)
  case (Cons p cs)
  obtain k c where p: "p = (k, c)" by (cases p)
  show ?case
  proof (cases "l \<in> fst ` set cs")
    case True
    with Cons.IH [of "act k c m"] p show ?thesis by (auto simp: look_act)
  next
    case False
    with Cons.prems p have "l = k" "filter (\<lambda>p. fst p = l) cs = []"
      by (auto simp: filter_empty_conv)
    with False p show ?thesis by (simp add: look_run_absent look_act)
  qed
qed simp

end

section \<open>State machines with an invariant\<close>

locale step_invariant =
  fixes step :: "'e \<Rightarrow> 's \<Rightarrow> 's"
    and inv :: "'s \<Rightarrow> bool"
  assumes inv_step: "inv s \<Longrightarrow> inv (step e s)"
begin

lemma inv_run: "inv s \<Longrightarrow> inv (fold step es s)"
  by (induction es arbitrary: s) (auto simp: inv_step)

lemma inv_prefix: "inv s \<Longrightarrow> inv (fold step (take n es) s)"
  by (rule inv_run)

end

section \<open>Codecs\<close>

text \<open>A reader that undoes a writer on the values a predicate admits.\<close>

locale codec =
  fixes enc :: "'a \<Rightarrow> 'b"
    and dec :: "'b \<Rightarrow> 'a option"
    and valid :: "'a \<Rightarrow> bool"
  assumes dec_enc: "valid a \<Longrightarrow> dec (enc a) = Some a"
begin

lemma enc_inj: "valid a \<Longrightarrow> valid b \<Longrightarrow> enc a = enc b \<Longrightarrow> a = b"
  by (metis dec_enc option.inject)

end

text \<open>
  Records of a fixed number of bytes, and a reader of a stream of them that ignores a last,
  incomplete record (what an interrupted append leaves behind).
\<close>

locale fixed_records = codec enc dec valid
  for enc :: "'a \<Rightarrow> 'b list" and dec :: "'b list \<Rightarrow> 'a option" and valid :: "'a \<Rightarrow> bool" +
  fixes size :: nat
    and read :: "'b list \<Rightarrow> 'a list"
  assumes size_pos: "0 < size"
    and length_enc: "length (enc a) = size"
    and read_short: "length bs < size \<Longrightarrow> read bs = []"
    and read_record: "length r = size \<Longrightarrow> dec r = Some a \<Longrightarrow> read (r @ bs) = a # read bs"
begin

lemma read_stream:
  "list_all valid as \<Longrightarrow> length rest < size \<Longrightarrow> read (concat (map enc as) @ rest) = as"
  by (induction as) (auto simp: read_short read_record length_enc dec_enc)

lemma read_append:
  "list_all valid as \<Longrightarrow> valid a \<Longrightarrow>
     read (concat (map enc as) @ enc a) = as @ [a]"
  using read_stream [of "as @ [a]" "[]"] size_pos by simp

lemma read_cut:
  assumes "list_all valid as" and "n < length (concat (map enc as))"
  shows "read (take n (concat (map enc as))) = take (n div size) as"
  using assms
proof (induction as arbitrary: n)
  case (Cons a as)
  show ?case
  proof (cases "n < size")
    case True
    then show ?thesis by (simp add: length_enc read_short)
  next
    case False
    then have n: "n div size = Suc ((n - size) div size)"
      using size_pos by (simp add: le_div_geq)
    have "take n (concat (map enc (a # as))) = enc a @ take (n - size) (concat (map enc as))"
      using False by (simp add: length_enc)
    moreover have "n - size < length (concat (map enc as))"
      using Cons.prems False by (simp add: length_enc)
    ultimately show ?thesis
      using Cons n by (simp add: read_record [OF length_enc dec_enc])
  qed
qed simp

end

end
