(* ===== verification/Tier_Machine.thy ===== *)
theory Tier_Machine
  imports Interfaces
begin

text \<open>
  The lock state machine of the security subsystem, \<open>security/tier_machine.rs\<close>: the states and
  events, the transition table, the \<open>Machine\<close> with its active tier, and the state-change
  events it publishes.  Publishing on the bus is modelled by the list of published wire names,
  oldest first.
\<close>

section \<open>Definitions\<close>

datatype SecurityTier = Plaintext | Keychain | Hardware | Paranoid

datatype TierState = Locked | Unlocking | Unlocked | Wiping

definition wire_name :: "TierState \<Rightarrow> string" where
  "wire_name s = (case s of Locked \<Rightarrow> ''locked'' | Unlocking \<Rightarrow> ''unlocking''
                  | Unlocked \<Rightarrow> ''unlocked'' | Wiping \<Rightarrow> ''wiping'')"

datatype UnlockFailureReason =
    WrongSecret
  | PluginUnavailable (code: string)
  | UserCancelled
  | Corruption (detail: string)

datatype TierEvent =
    UnlockRequested
  | UnlockSucceeded
  | UnlockFailed (reason: UnlockFailureReason)
  | LockRequested
  | Wiped

fun next_state :: "TierState \<Rightarrow> TierEvent \<Rightarrow> TierState option" where
  "next_state Locked UnlockRequested = Some Unlocking"
| "next_state Locked Wiped = Some Wiping"
| "next_state Unlocking UnlockSucceeded = Some Unlocked"
| "next_state Unlocking (UnlockFailed _) = Some Locked"
| "next_state Unlocking LockRequested = Some Locked"
| "next_state Unlocked LockRequested = Some Locked"
| "next_state Unlocked Wiped = Some Wiping"
| "next_state Wiping _ = None"
| "next_state _ _ = None"

record Machine =
  m_state :: TierState
  m_tier :: SecurityTier

definition machine_new :: "SecurityTier \<Rightarrow> Machine" where
  "machine_new t = \<lparr> m_state = Locked, m_tier = t \<rparr>"

text \<open>An operation returns its result, the machine after it and the wire names it published.\<close>

definition dispatch :: "TierEvent \<Rightarrow> Machine \<Rightarrow> TierState option \<times> Machine \<times> string list" where
  "dispatch ev m =
     (case next_state (m_state m) ev of
        None \<Rightarrow> (None, m, [])
      | Some next \<Rightarrow> (Some next, m\<lparr> m_state := next \<rparr>, [wire_name next]))"

definition set_tier :: "SecurityTier \<Rightarrow> Machine \<Rightarrow> Machine" where
  "set_tier t m = m\<lparr> m_tier := t \<rparr>"

definition instance_dispatch ::
  "SecurityTier \<Rightarrow> TierEvent \<Rightarrow> Machine \<Rightarrow> TierState option \<times> Machine \<times> string list" where
  "instance_dispatch t ev m = dispatch ev (set_tier t m)"

definition try_advance :: "Machine \<Rightarrow> TierState option \<times> Machine \<times> string list" where
  "try_advance m =
     (if m_state m \<noteq> Unlocking then (None, m, [])
      else (case m_tier m of
              Plaintext \<Rightarrow> dispatch UnlockSucceeded m
            | _ \<Rightarrow> (None, m, [])))"

text \<open>The calls other components make, in the order the machine's mutex serialises them.\<close>

datatype tier_call =
    Dispatch TierEvent
  | InstanceDispatch SecurityTier TierEvent
  | SetTier SecurityTier
  | TryAdvance

type_synonym tier_world = "Machine \<times> string list"

fun tier_step :: "tier_call \<Rightarrow> tier_world \<Rightarrow> tier_world" where
  "tier_step (Dispatch ev) (m, log) = (let (r, m', out) = dispatch ev m in (m', log @ out))"
| "tier_step (InstanceDispatch t ev) (m, log) =
     (let (r, m', out) = instance_dispatch t ev m in (m', log @ out))"
| "tier_step (SetTier t) (m, log) = (set_tier t m, log)"
| "tier_step TryAdvance (m, log) = (let (r, m', out) = try_advance m in (m', log @ out))"

definition tier_run :: "tier_call list \<Rightarrow> SecurityTier \<Rightarrow> tier_world" where
  "tier_run calls t = fold tier_step calls (machine_new t, [])"

section \<open>The lock graph\<close>

text \<open>The moves between lock states a user is meant to see.\<close>

inductive tier_edge :: "TierState \<Rightarrow> TierState \<Rightarrow> bool" where
  ask: "tier_edge Locked Unlocking"
| accept: "tier_edge Unlocking Unlocked"
| refuse: "tier_edge Unlocking Locked"
| lock: "tier_edge Unlocked Locked"
| wipe_locked: "tier_edge Locked Wiping"
| wipe_unlocked: "tier_edge Unlocked Wiping"

inductive_cases tier_edge_into_Unlocked: "tier_edge s Unlocked"
inductive_simps tier_edge_from_Wiping: "tier_edge Wiping s"

lemma next_state_edge: "next_state s ev = Some s' \<Longrightarrow> tier_edge s s'"
  by (cases s; cases ev) (auto intro: tier_edge.intros)

lemma next_state_Unlocked: "next_state s ev = Some Unlocked \<longleftrightarrow> s = Unlocking \<and> ev = UnlockSucceeded"
  by (cases s; cases ev) auto

lemma wire_name_eq [simp]: "wire_name a = wire_name b \<longleftrightarrow> a = b"
  by (cases a; cases b) (auto simp: wire_name_def)

text \<open>The published names are those of a walk in the graph from \<^const>\<open>Locked\<close> to the current state.\<close>

definition tier_log_ok :: "tier_world \<Rightarrow> bool" where
  "tier_log_ok w \<longleftrightarrow>
     (\<exists>ss. snd w = map wire_name ss \<and> successively tier_edge (Locked # ss) \<and>
           m_state (fst w) = last (Locked # ss))"

lemma tier_log_ok_new: "tier_log_ok (machine_new t, [])"
  by (auto simp: tier_log_ok_def machine_new_def)

lemma tier_log_ok_set_tier: "tier_log_ok (m, log) \<Longrightarrow> tier_log_ok (set_tier t m, log)"
  by (auto simp: tier_log_ok_def set_tier_def)

lemma tier_log_ok_dispatch:
  assumes "tier_log_ok (m, log)"
  shows "tier_log_ok (fst (snd (dispatch ev m)), log @ snd (snd (dispatch ev m)))"
proof (cases "next_state (m_state m) ev")
  case None
  with assms show ?thesis by (simp add: dispatch_def)
next
  case (Some s)
  from assms obtain ss where ss: "log = map wire_name ss" "successively tier_edge (Locked # ss)"
      "m_state m = last (Locked # ss)"
    by (auto simp: tier_log_ok_def)
  have "successively tier_edge ((Locked # ss) @ [s])"
    using ss next_state_edge [OF Some] by (subst successively_append_iff) auto
  with ss Some show ?thesis
    by (auto simp: tier_log_ok_def dispatch_def intro!: exI [of _ "ss @ [s]"])
qed

lemma tier_log_ok_call: "tier_log_ok w \<Longrightarrow> tier_log_ok (tier_step c w)"
proof -
  assume ok: "tier_log_ok w"
  obtain m log where w: "w = (m, log)" by (cases w)
  show ?thesis
  proof (cases c)
    case (Dispatch ev)
    then show ?thesis using tier_log_ok_dispatch [of m log ev] ok w
      by (simp add: split_beta)
  next
    case (InstanceDispatch t ev)
    then show ?thesis using tier_log_ok_dispatch [of "set_tier t m" log ev] tier_log_ok_set_tier ok w
      by (simp add: instance_dispatch_def split_beta)
  next
    case (SetTier t)
    then show ?thesis using tier_log_ok_set_tier ok w by simp
  next
    case TryAdvance
    then show ?thesis using tier_log_ok_dispatch [of m log UnlockSucceeded] ok w
      by (simp add: try_advance_def split_beta split: SecurityTier.splits)
  qed
qed

interpretation tier: step_invariant tier_step tier_log_ok
  by unfold_locales (rule tier_log_ok_call)

section \<open>Nobody is let in without an accepted secret\<close>

definition call_accepts :: "tier_call \<Rightarrow> bool" where
  "call_accepts c \<longleftrightarrow>
     (case c of Dispatch ev \<Rightarrow> ev = UnlockSucceeded | InstanceDispatch t ev \<Rightarrow> ev = UnlockSucceeded
      | _ \<Rightarrow> False)"

definition call_plaintext :: "tier_call \<Rightarrow> bool" where
  "call_plaintext c \<longleftrightarrow>
     (case c of SetTier t \<Rightarrow> t = Plaintext | InstanceDispatch t ev \<Rightarrow> t = Plaintext | _ \<Rightarrow> False)"

lemma closed_step:
  assumes "m_state m \<noteq> Unlocked" "m_tier m \<noteq> Plaintext" "wire_name Unlocked \<notin> set log"
    and "\<not> call_accepts c" "\<not> call_plaintext c" "tier_step c (m, log) = (m', log')"
  shows "m_state m' \<noteq> Unlocked \<and> m_tier m' \<noteq> Plaintext \<and> wire_name Unlocked \<notin> set log'"
proof (cases c)
  case (Dispatch ev)
  with assms show ?thesis
    by (auto simp: dispatch_def call_accepts_def next_state_Unlocked
        split: option.splits)
next
  case (InstanceDispatch t ev)
  with assms show ?thesis
    by (auto simp: instance_dispatch_def set_tier_def dispatch_def call_accepts_def
        call_plaintext_def next_state_Unlocked split: option.splits)
next
  case (SetTier t)
  with assms show ?thesis by (auto simp: set_tier_def call_plaintext_def)
next
  case TryAdvance
  with assms show ?thesis by (auto simp: try_advance_def split: if_splits SecurityTier.splits)
qed

lemma closed_run:
  assumes "m_state m \<noteq> Unlocked" "m_tier m \<noteq> Plaintext" "wire_name Unlocked \<notin> set log"
    and "\<forall>c \<in> set calls. \<not> call_accepts c \<and> \<not> call_plaintext c"
    and "fold tier_step calls (m, log) = (m', log')"
  shows "m_state m' \<noteq> Unlocked \<and> wire_name Unlocked \<notin> set log'"
  using assms
proof (induction calls arbitrary: m log)
  case (Cons c calls)
  obtain m1 log1 where 1: "tier_step c (m, log) = (m1, log1)" by (cases "tier_step c (m, log)")
  with closed_step [of m log c m1 log1] Cons.prems
  have "m_state m1 \<noteq> Unlocked" "m_tier m1 \<noteq> Plaintext" "wire_name Unlocked \<notin> set log1" by auto
  with Cons "1" show ?case by auto
qed auto

section \<open>Wiping is final\<close>

lemma wiping_call: "m_state (fst w) = Wiping \<Longrightarrow>
    m_state (fst (tier_step c w)) = Wiping \<and> snd (tier_step c w) = snd w"
  by (cases w; cases c)
     (auto simp: dispatch_def instance_dispatch_def set_tier_def try_advance_def)

interpretation wiping: step_invariant tier_step "\<lambda>w. m_state (fst w) = Wiping \<and> snd w = log" for log
  using wiping_call by unfold_locales auto

section \<open>Properties\<close>

text \<open>
  C28. Whatever sequence of calls the rest of the program makes on a fresh machine, the wire names
  published on the bus are, in order, the names of a walk from \<open>Locked\<close> in the intended lock
  graph, and the walk ends in the machine's current state: subscribers that only follow the events
  know the state.
\<close>

theorem tier_events_follow_state:
  "tier_log_ok (tier_run calls t)"
  unfolding tier_run_def by (rule tier.inv_run) (rule tier_log_ok_new)

text \<open>
  C1. A machine that starts on a tier other than \<open>Plaintext\<close> and is never switched to it cannot
  be unlocked, and never announces that it is, unless somebody dispatches \<open>UnlockSucceeded\<close>:
  no mixture of requests, failures, locks, tier switches and self-advances opens it.
\<close>

theorem no_unlock_without_success:
  assumes "t \<noteq> Plaintext"
    and "\<forall>c \<in> set calls. \<not> call_accepts c \<and> \<not> call_plaintext c"
  shows "m_state (fst (tier_run calls t)) \<noteq> Unlocked \<and>
         wire_name Unlocked \<notin> set (snd (tier_run calls t))"
  using closed_run [of "machine_new t" "[]" calls "fst (tier_run calls t)" "snd (tier_run calls t)"] assms
  by (simp add: machine_new_def tier_run_def)

theorem no_unlock_without_success_witness:
  "m_state (fst (tier_run [Dispatch UnlockRequested, TryAdvance, SetTier Paranoid,
      Dispatch (UnlockFailed UserCancelled), Dispatch UnlockRequested] Keychain)) \<noteq> Unlocked"
  using no_unlock_without_success [of Keychain "[Dispatch UnlockRequested, TryAdvance, SetTier Paranoid,
      Dispatch (UnlockFailed UserCancelled), Dispatch UnlockRequested]"]
  by (simp add: call_accepts_def call_plaintext_def)

text \<open>
  Wiping is final: once the machine is wiping, no further sequence of calls changes its state or
  publishes another event.
\<close>

theorem wiping_is_terminal:
  assumes "m_state m = Wiping"
  shows "m_state (fst (fold tier_step calls (m, log))) = Wiping \<and>
         snd (fold tier_step calls (m, log)) = log"
  using wiping.inv_run [of "(m, log)" log calls] assms by simp

theorem wiping_is_terminal_witness:
  "snd (fold tier_step [Dispatch UnlockRequested, InstanceDispatch Plaintext LockRequested, TryAdvance]
     (\<lparr> m_state = Wiping, m_tier = Hardware \<rparr>, [''wiping''])) = [''wiping'']"
  by (rule wiping_is_terminal [THEN conjunct2]) simp

end
