(* ===== verification/External.thy ===== *)
theory External
  imports Prelude
begin

text \<open>
  The third-party code the core crate calls and that is not part of the repository: the
  \<open>serde_json\<close> parser and printer, the \<open>base64\<close> codec and the primitives behind
  \<open>crypto.rs\<close>.  They are parameters: records of functions that the definitions using them
  take as an argument.  What the components rely on is stated by named predicates below, and the
  reference instances at the end satisfy them.
\<close>

section \<open>JSON\<close>

text \<open>\<open>serde_json::Value\<close>; a number that is not an integer keeps its text.\<close>

datatype json =
    JNull
  | JBool bool
  | JInt int
  | JFloat string
  | JStr string
  | JArr "json list"
  | JObj "(string \<times> json) list"

record json_lib =
  json_parse :: "string \<Rightarrow> json option"
  json_print :: "json \<Rightarrow> string"

definition as_object :: "json \<Rightarrow> (string \<times> json) list option" where
  "as_object v = (case v of JObj m \<Rightarrow> Some m | _ \<Rightarrow> None)"

definition as_str :: "json \<Rightarrow> string option" where
  "as_str v = (case v of JStr s \<Rightarrow> Some s | _ \<Rightarrow> None)"

definition as_bool :: "json \<Rightarrow> bool option" where
  "as_bool v = (case v of JBool b \<Rightarrow> Some b | _ \<Rightarrow> None)"

definition as_i64 :: "json \<Rightarrow> int option" where
  "as_i64 v = (case v of JInt i \<Rightarrow> if - (2 ^ 63) \<le> i \<and> i < 2 ^ 63 then Some i else None | _ \<Rightarrow> None)"

definition as_u64 :: "json \<Rightarrow> int option" where
  "as_u64 v = (case v of JInt i \<Rightarrow> if 0 \<le> i \<and> i < 2 ^ 64 then Some i else None | _ \<Rightarrow> None)"

text \<open>\<open>obj.get(key).and_then(f)\<close>.\<close>

definition field :: "(json \<Rightarrow> 'a option) \<Rightarrow> string \<Rightarrow> (string \<times> json) list \<Rightarrow> 'a option" where
  "field f k m = Option.bind (map_of m k) f"

text \<open>\<open>serde_json::from_slice\<close>: bytes that are not UTF-8 are an error.\<close>

definition json_parse_bytes :: "json_lib \<Rightarrow> bytes \<Rightarrow> json option" where
  "json_parse_bytes J bs = Option.bind (from_utf8 bs) (json_parse J)"

text \<open>What is relied on: a printed value is valid UTF-8 and parses back.\<close>

definition json_ok :: "json_lib \<Rightarrow> json \<Rightarrow> bool" where
  "json_ok J v \<longleftrightarrow> utf8_ok (str_bytes (json_print J v)) \<and> json_parse J (json_print J v) = Some v"

lemma json_parse_bytes_print [simp]:
  "json_ok J v \<Longrightarrow> json_parse_bytes J (str_bytes (json_print J v)) = Some v"
  by (simp add: json_parse_bytes_def json_ok_def from_utf8_def)

lemmas json_access = as_object_def as_str_def as_bool_def as_i64_def as_u64_def field_def

section \<open>Base64\<close>

record b64_lib =
  b64_encode :: "bytes \<Rightarrow> string"
  b64_decode :: "string \<Rightarrow> bytes option"

definition b64_ok :: "b64_lib \<Rightarrow> bool" where
  "b64_ok B \<longleftrightarrow> (\<forall>bs. b64_decode B (b64_encode B bs) = Some bs)"

lemma b64_decode_encode [simp]: "b64_ok B \<Longrightarrow> b64_decode B (b64_encode B bs) = Some bs"
  by (simp add: b64_ok_def)

section \<open>Cryptographic primitives\<close>

record crypto_lib =
  hmac_sha256 :: "bytes \<Rightarrow> bytes \<Rightarrow> bytes"
  hkdf_sha256 :: "bytes \<Rightarrow> bytes \<Rightarrow> bytes \<Rightarrow> nat \<Rightarrow> bytes"

text \<open>
  AES-GCM with the tag appended: \<open>aead_seal key nonce plaintext aad\<close> and its inverse.  What is
  relied on: a sealed text is 16 bytes longer and opens to the plaintext under the same key,
  nonce and additional data.
\<close>

record aead_lib =
  aead_seal :: "bytes \<Rightarrow> bytes \<Rightarrow> bytes \<Rightarrow> bytes \<Rightarrow> bytes option"
  aead_open :: "bytes \<Rightarrow> bytes \<Rightarrow> bytes \<Rightarrow> bytes \<Rightarrow> bytes option"

definition aead_ok :: "aead_lib \<Rightarrow> bool" where
  "aead_ok A \<longleftrightarrow> (\<forall>k n p a c. aead_seal A k n p a = Some c \<longrightarrow>
     aead_open A k n c a = Some p \<and> length c = length p + 16)"

lemma aead_okD:
  "aead_ok A \<Longrightarrow> aead_seal A k n p a = Some c \<Longrightarrow> aead_open A k n c a = Some p \<and> length c = length p + 16"
  by (simp add: aead_ok_def)

text \<open>\<open>crypto::constant_time_eq\<close>: the length test and the comparison of the bytes.\<close>

definition constant_time_eq :: "bytes \<Rightarrow> bytes \<Rightarrow> bool" where
  "constant_time_eq a b =
     (if length a \<noteq> length b then False else list_all2 (=) a b)"

lemma constant_time_eq_iff [simp]: "constant_time_eq a b \<longleftrightarrow> a = b"
  by (auto simp: constant_time_eq_def list.rel_eq)

section \<open>Reference instances\<close>

text \<open>
  Concrete functions for which the predicates hold.  \<open>json_table vs\<close> prints the values of a list
  as their positions and parses the positions back; \<open>b64_ref\<close> writes each byte as the character
  with its code; \<open>crypto_ref\<close> concatenates.
\<close>

definition json_table :: "json list \<Rightarrow> json_lib" where
  "json_table vs =
     \<lparr> json_parse = (\<lambda>s. Option.bind (parse_digits s) (\<lambda>i. if i < length vs then Some (vs ! i) else None)),
       json_print = (\<lambda>v. case find_idx ((=) v) vs of Some i \<Rightarrow> dec i | None \<Rightarrow> ''null'') \<rparr>"

definition b64_ref :: b64_lib where
  "b64_ref = \<lparr> b64_encode = bytes_str, b64_decode = (\<lambda>s. Some (str_bytes s)) \<rparr>"

definition crypto_ref :: crypto_lib where
  "crypto_ref = \<lparr> hmac_sha256 = (\<lambda>k m. k @ m), hkdf_sha256 = (\<lambda>k s i n. k @ s @ i) \<rparr>"

text \<open>A stand-in that appends key, nonce and data, cut or filled to 16 bytes, as the tag.\<close>

definition tag_ref :: "bytes \<Rightarrow> bytes \<Rightarrow> bytes \<Rightarrow> bytes" where
  "tag_ref k n a = take 16 (k @ n @ a @ replicate 16 0)"

definition aead_ref :: aead_lib where
  "aead_ref =
     \<lparr> aead_seal = (\<lambda>k n p a. Some (p @ tag_ref k n a)),
       aead_open = (\<lambda>k n c a. if length c \<ge> 16 \<and> drop (length c - 16) c = tag_ref k n a
                              then Some (take (length c - 16) c) else None) \<rparr>"

lemma length_tag_ref [simp]: "length (tag_ref k n a) = 16"
  by (simp add: tag_ref_def)

lemma aead_ref_ok [simp]: "aead_ok aead_ref"
  by (simp add: aead_ok_def aead_ref_def)

lemma utf8_ok_digits: "list_all is_ascii_digit s \<Longrightarrow> utf8_ok (str_bytes s)"
proof (rule utf8_ok_ascii)
  have "unat (of_char c :: byte) = of_char c" for c
    by (simp add: of_nat_of_char [where ?'a = byte, symmetric] unat_of_nat)
  then show "list_all is_ascii_digit s \<Longrightarrow> list_all (\<lambda>b. unat b < 128) (str_bytes s)"
    by (auto simp: list_all_iff str_bytes_def is_ascii_digit_def)
qed

lemma json_table_ok [simp]: "v \<in> set vs \<Longrightarrow> json_ok (json_table vs) v"
proof -
  assume "v \<in> set vs"
  then obtain i where i: "find_idx ((=) v) vs = Some i" by fastforce
  then have "i < length vs" "vs ! i = v" by (auto simp: find_idx_Some)
  with i show ?thesis by (simp add: json_ok_def json_table_def utf8_ok_digits dec_digits)
qed

lemma b64_ref_ok [simp]: "b64_ok b64_ref"
  by (simp add: b64_ok_def b64_ref_def)

end
