(* ===== verification/Security_Config.thy ===== *)
theory Security_Config
  imports Tier_Machine External
begin

text \<open>
  The security configuration of \<open>security/mod.rs\<close> (tiers, modifier bag, JSON form, the mapping of
  a wizard choice) and the threat table of \<open>threat_eval.rs\<close> the user interface shows for it.
\<close>

section \<open>Tiers and modifiers\<close>

definition tier_is_paranoid :: "SecurityTier \<Rightarrow> bool" where
  "tier_is_paranoid t \<longleftrightarrow> (case t of Paranoid \<Rightarrow> True | _ \<Rightarrow> False)"

definition has_keychain :: "SecurityTier \<Rightarrow> bool" where
  "has_keychain t \<longleftrightarrow> (case t of Keychain \<Rightarrow> True | Hardware \<Rightarrow> True | _ \<Rightarrow> False)"

definition has_hardware_vault :: "SecurityTier \<Rightarrow> bool" where
  "has_hardware_vault t \<longleftrightarrow> (case t of Hardware \<Rightarrow> True | _ \<Rightarrow> False)"

definition tier_wire_name :: "SecurityTier \<Rightarrow> string" where
  "tier_wire_name t = (case t of Plaintext \<Rightarrow> ''plaintext'' | Keychain \<Rightarrow> ''keychain''
                       | Hardware \<Rightarrow> ''hardware'' | Paranoid \<Rightarrow> ''paranoid'')"

definition from_wire_name :: "string \<Rightarrow> SecurityTier option" where
  "from_wire_name name =
     (if name = ''plaintext'' then Some Plaintext
      else if name = ''keychain'' then Some Keychain
      else if name = ''hardware'' then Some Hardware
      else if name = ''paranoid'' then Some Paranoid
      else None)"

record SecurityTierModifiers =
  mod_password :: bool
  mod_biometric :: bool

definition is_valid_for_tier :: "SecurityTierModifiers \<Rightarrow> SecurityTier \<Rightarrow> bool" where
  "is_valid_for_tier m t =
     (if mod_biometric m \<and> \<not> mod_password m then False
      else if t = Hardware \<and> \<not> mod_password m then False
      else True)"

definition to_json_map :: "SecurityTierModifiers \<Rightarrow> (string \<times> json) list" where
  "to_json_map m = [(''biometric'', JBool (mod_biometric m)), (''password'', JBool (mod_password m))]"

definition from_json_map :: "(string \<times> json) list \<Rightarrow> SecurityTierModifiers" where
  "from_json_map j =
     \<lparr> mod_password = (case field as_bool ''password'' j of Some b \<Rightarrow> b | None \<Rightarrow> False),
       mod_biometric = (case field as_bool ''biometric'' j of Some b \<Rightarrow> b | None \<Rightarrow> False) \<rparr>"

record SecurityConfig =
  cfg_tier :: SecurityTier
  cfg_modifiers :: SecurityTierModifiers

definition config_defaults :: SecurityConfig where
  "config_defaults = \<lparr> cfg_tier = Plaintext,
     cfg_modifiers = \<lparr> mod_password = False, mod_biometric = False \<rparr> \<rparr>"

definition uses_keychain :: "SecurityConfig \<Rightarrow> bool" where
  "uses_keychain c \<longleftrightarrow> (case cfg_tier c of Keychain \<Rightarrow> True | _ \<Rightarrow> False)"

definition uses_hardware_vault :: "SecurityConfig \<Rightarrow> bool" where
  "uses_hardware_vault c \<longleftrightarrow> (case cfg_tier c of Hardware \<Rightarrow> True | _ \<Rightarrow> False)"

definition has_user_secret :: "SecurityConfig \<Rightarrow> bool" where
  "has_user_secret c \<longleftrightarrow>
     (case cfg_tier c of Paranoid \<Rightarrow> True | Hardware \<Rightarrow> True
      | Keychain \<Rightarrow> mod_password (cfg_modifiers c) | Plaintext \<Rightarrow> False)"

definition to_json_value :: "SecurityConfig \<Rightarrow> json" where
  "to_json_value c =
     JObj [(''tier'', JStr (tier_wire_name (cfg_tier c))),
           (''modifiers'', JObj (to_json_map (cfg_modifiers c)))]"

definition from_json_value :: "json \<Rightarrow> SecurityConfig" where
  "from_json_value v =
     (case as_object v of
        None \<Rightarrow> config_defaults
      | Some obj \<Rightarrow>
          \<lparr> cfg_tier = (case Option.bind (field as_str ''tier'' obj) from_wire_name of
                          Some t \<Rightarrow> t | None \<Rightarrow> cfg_tier config_defaults),
            cfg_modifiers = (case field as_object ''modifiers'' obj of
                          Some j \<Rightarrow> from_json_map j | None \<Rightarrow> cfg_modifiers config_defaults) \<rparr>)"

section \<open>The setup wizard\<close>

datatype WizardTier = WPlaintext | WKeychain | WHardware | WParanoid

record MappedSetupChoice =
  ch_tier :: SecurityTier
  ch_modifiers :: SecurityTierModifiers
  ch_master_password :: "string option"
  ch_short_password :: "string option"
  ch_pin :: "string option"

definition map_wizard_choice ::
  "WizardTier \<Rightarrow> bool \<Rightarrow> bool \<Rightarrow> string option \<Rightarrow> MappedSetupChoice" where
  "map_wizard_choice chosen password biometric typed_secret =
     (let effective_password = (case chosen of WHardware \<Rightarrow> True | _ \<Rightarrow> password);
          modifiers = \<lparr> mod_password = effective_password, mod_biometric = biometric \<rparr>
      in case chosen of
           WPlaintext \<Rightarrow> \<lparr> ch_tier = Plaintext, ch_modifiers = modifiers, ch_master_password = None,
                          ch_short_password = None, ch_pin = None \<rparr>
         | WKeychain \<Rightarrow>
             (if password
              then \<lparr> ch_tier = Keychain, ch_modifiers = modifiers, ch_master_password = None,
                     ch_short_password = typed_secret, ch_pin = None \<rparr>
              else \<lparr> ch_tier = Keychain, ch_modifiers = modifiers, ch_master_password = None,
                     ch_short_password = None, ch_pin = None \<rparr>)
         | WHardware \<Rightarrow> \<lparr> ch_tier = Hardware, ch_modifiers = modifiers, ch_master_password = typed_secret,
                         ch_short_password = None, ch_pin = None \<rparr>
         | WParanoid \<Rightarrow> \<lparr> ch_tier = Paranoid, ch_modifiers = modifiers, ch_master_password = typed_secret,
                         ch_short_password = None, ch_pin = None \<rparr>)"

section \<open>The threat table\<close>

datatype ThreatTier = TPlaintext | TKeychain | THardware | TParanoid

record ThreatModel =
  tm_tier :: ThreatTier
  tm_password :: bool
  tm_biometric :: bool

datatype SecurityThreat =
    ColdDiskTheft | KeyringFileTheft | OfflineBruteForce | BystanderUnlockedMachine
  | LiveRamForensicsLocked | OsKernelOrKeychainBreach

datatype ThreatStatus = Protects | DoesNotProtect

definition yes :: "bool \<Rightarrow> ThreatStatus" where
  "yes b = (if b then Protects else DoesNotProtect)"

definition evaluate :: "ThreatModel \<Rightarrow> (SecurityThreat \<times> ThreatStatus) list" where
  "evaluate m =
     (let has_secret = (tm_tier m = TParanoid \<or>
            (tm_password m \<and> (tm_tier m = TKeychain \<or> tm_tier m = THardware)))
      in [(ColdDiskTheft, yes (tm_tier m \<noteq> TPlaintext)),
          (KeyringFileTheft, yes (tm_tier m = THardware \<or> tm_tier m = TParanoid \<or>
             (tm_tier m = TKeychain \<and> tm_password m))),
          (OfflineBruteForce, yes has_secret),
          (BystanderUnlockedMachine, yes has_secret),
          (LiveRamForensicsLocked, yes (tm_tier m = TParanoid \<or> (tm_tier m = THardware \<and> tm_password m))),
          (OsKernelOrKeychainBreach, yes (tm_tier m = TParanoid \<or> (tm_tier m = THardware \<and> tm_password m)))])"

section \<open>Lemmas\<close>

lemma from_wire_name_wire [simp]: "from_wire_name (tier_wire_name t) = Some t"
  by (cases t) (auto simp: from_wire_name_def tier_wire_name_def)

lemma from_json_map_to [simp]: "from_json_map (to_json_map m) = m"
  by (cases m) (simp add: from_json_map_def to_json_map_def json_access)

lemma from_to_json_value: "from_json_value (to_json_value c) = c"
  by (cases c) (simp add: from_json_value_def to_json_value_def json_access)

interpretation config: codec to_json_value "\<lambda>v. Some (from_json_value v)" "\<lambda>c. True"
  by unfold_locales (simp add: from_to_json_value)

text \<open>The threat model of a configuration, and of a wizard choice.\<close>

definition threat_tier :: "SecurityTier \<Rightarrow> ThreatTier" where
  "threat_tier t = (case t of Plaintext \<Rightarrow> TPlaintext | Keychain \<Rightarrow> TKeychain
                    | Hardware \<Rightarrow> THardware | Paranoid \<Rightarrow> TParanoid)"

definition threat_model :: "SecurityConfig \<Rightarrow> ThreatModel" where
  "threat_model c = \<lparr> tm_tier = threat_tier (cfg_tier c), tm_password = mod_password (cfg_modifiers c),
                      tm_biometric = mod_biometric (cfg_modifiers c) \<rparr>"

definition protects :: "ThreatModel \<Rightarrow> SecurityThreat \<Rightarrow> bool" where
  "protects m t \<longleftrightarrow> map_of (evaluate m) t = Some Protects"

lemma yes_iff [simp]: "yes b = Protects \<longleftrightarrow> b"
  by (simp add: yes_def)

lemma protects_simps [simp]:
  "protects m ColdDiskTheft \<longleftrightarrow> tm_tier m \<noteq> TPlaintext"
  "protects m KeyringFileTheft \<longleftrightarrow> tm_tier m = THardware \<or> tm_tier m = TParanoid \<or>
     (tm_tier m = TKeychain \<and> tm_password m)"
  "protects m OfflineBruteForce \<longleftrightarrow> tm_tier m = TParanoid \<or>
     (tm_password m \<and> (tm_tier m = TKeychain \<or> tm_tier m = THardware))"
  "protects m BystanderUnlockedMachine \<longleftrightarrow> tm_tier m = TParanoid \<or>
     (tm_password m \<and> (tm_tier m = TKeychain \<or> tm_tier m = THardware))"
  "protects m LiveRamForensicsLocked \<longleftrightarrow> tm_tier m = TParanoid \<or> (tm_tier m = THardware \<and> tm_password m)"
  "protects m OsKernelOrKeychainBreach \<longleftrightarrow> tm_tier m = TParanoid \<or> (tm_tier m = THardware \<and> tm_password m)"
  by (simp_all add: protects_def evaluate_def Let_def)

definition tier_rank :: "ThreatTier \<Rightarrow> nat" where
  "tier_rank t = (case t of TPlaintext \<Rightarrow> 0 | TKeychain \<Rightarrow> 1 | THardware \<Rightarrow> 2 | TParanoid \<Rightarrow> 3)"

section \<open>Properties\<close>

text \<open>
  The threat table is monotone: a higher tier and an added password only ever add protection,
  and no threat a weaker choice protects from is open under a stronger one.
\<close>

theorem threat_monotone:
  assumes "tier_rank (tm_tier a) \<le> tier_rank (tm_tier b)" and "tm_password a \<longrightarrow> tm_password b"
    and "protects a threat"
  shows "protects b threat"
  using assms by (cases threat; cases "tm_tier a"; cases "tm_tier b") (auto simp: tier_rank_def)

theorem threat_monotone_witness:
  "protects \<lparr> tm_tier = THardware, tm_password = True, tm_biometric = False \<rparr> OfflineBruteForce"
  using threat_monotone [of "\<lparr> tm_tier = TKeychain, tm_password = True, tm_biometric = True \<rparr>"
      "\<lparr> tm_tier = THardware, tm_password = True, tm_biometric = False \<rparr>" OfflineBruteForce]
  by (simp add: tier_rank_def)

text \<open>
  What the wizard hands to the tier change is consistent: for a choice without the
  biometric-without-password combination the stored bag is valid for the tier, survives the JSON
  round trip, the typed secret lands in exactly one slot if and only if the configuration asks
  for a user secret, and that in turn is what the threat table promises for offline guessing.
\<close>

theorem wizard_choice_consistent:
  assumes "biometric \<longrightarrow> password"
    and "ch = map_wizard_choice chosen password biometric (Some secret)"
    and "cfg = \<lparr> cfg_tier = ch_tier ch, cfg_modifiers = ch_modifiers ch \<rparr>"
  shows "is_valid_for_tier (ch_modifiers ch) (ch_tier ch) \<and>
    from_json_value (to_json_value cfg) = cfg \<and>
    (has_user_secret cfg \<longleftrightarrow>
       (ch_master_password ch = Some secret \<and> ch_short_password ch = None) \<or>
       (ch_master_password ch = None \<and> ch_short_password ch = Some secret)) \<and>
    (has_user_secret cfg \<longleftrightarrow> protects (threat_model cfg) OfflineBruteForce)"
  using assms
  by (cases chosen; cases password)
     (simp_all add: map_wizard_choice_def Let_def is_valid_for_tier_def from_to_json_value
        has_user_secret_def threat_model_def threat_tier_def)

theorem wizard_choice_consistent_witness:
  "is_valid_for_tier (ch_modifiers (map_wizard_choice WKeychain True True (Some ''pw''))) Keychain"
  using wizard_choice_consistent [of True True "map_wizard_choice WKeychain True True (Some ''pw'')"
      WKeychain "''pw''"] by (simp add: map_wizard_choice_def Let_def)

end
