(* ===== verification/Rate_Limit.thy ===== *)
theory Rate_Limit
  imports Interfaces
begin

text \<open>
  The in-memory password rate limiter, \<open>rate_limit.rs\<close>: the back-off schedule, one limiter and
  the registry of limiters keyed by id.  The clock is an argument of each operation that reads it.
  Times are milliseconds as integers (the code's \<open>i64\<close>).
\<close>

section \<open>Definitions\<close>

definition BACKOFF_SCHEDULE :: "nat list" where
  "BACKOFF_SCHEDULE = [0, 1, 2, 4, 8, 16, 32, 60, 60, 60]"

record RateLimitStatus =
  failure_count :: nat
  cooldown_remaining_ms :: int

definition is_locked :: "RateLimitStatus \<Rightarrow> bool" where
  "is_locked st \<longleftrightarrow> cooldown_remaining_ms st > 0"

record limiter =
  l_count :: nat
  l_next_retry :: "int option"

definition limiter_new :: limiter where
  "limiter_new = \<lparr> l_count = 0, l_next_retry = None \<rparr>"

definition limiter_status :: "int \<Rightarrow> limiter \<Rightarrow> RateLimitStatus" where
  "limiter_status now l =
     \<lparr> failure_count = l_count l,
       cooldown_remaining_ms = (case l_next_retry l of Some at \<Rightarrow> max (at - now) 0 | None \<Rightarrow> 0) \<rparr>"

definition record_failure :: "int \<Rightarrow> limiter \<Rightarrow> limiter" where
  "record_failure now l =
     (let cap = length BACKOFF_SCHEDULE - 1;
          n = min (l_count l + 1) cap;
          secs = BACKOFF_SCHEDULE ! n
      in \<lparr> l_count = n,
           l_next_retry = (if secs = 0 then None else Some (now + int secs * 1000)) \<rparr>)"

definition record_success :: "limiter \<Rightarrow> limiter" where
  "record_success l = \<lparr> l_count = 0, l_next_retry = None \<rparr>"

text \<open>The registry: \<open>entry(id).or_default()\<close> creates a limiter on first use, also for a status query.\<close>

type_synonym limiters = "(string, limiter) hmap"

definition entry_or_default :: "string \<Rightarrow> limiters \<Rightarrow> limiter" where
  "entry_or_default key g = (case hget g key of Some l \<Rightarrow> l | None \<Rightarrow> limiter_new)"

definition reg_status :: "string \<Rightarrow> int \<Rightarrow> limiters \<Rightarrow> RateLimitStatus \<times> limiters" where
  "reg_status key now g =
     (let l = entry_or_default key g in (limiter_status now l, hput key l g))"

definition reg_record_failure :: "string \<Rightarrow> int \<Rightarrow> limiters \<Rightarrow> limiters" where
  "reg_record_failure key now g = hput key (record_failure now (entry_or_default key g)) g"

definition reg_record_success :: "string \<Rightarrow> limiters \<Rightarrow> limiters" where
  "reg_record_success key g = hput key (record_success (entry_or_default key g)) g"

definition reg_drop_id :: "string \<Rightarrow> limiters \<Rightarrow> bool \<times> limiters" where
  "reg_drop_id key g = (hget g key \<noteq> None, hdel key g)"

definition reg_count :: "limiters \<Rightarrow> nat" where
  "reg_count g = length (hkeys g)"

text \<open>The calls of the unlock flows, each with the clock reading it takes.\<close>

datatype limit_call = Status int | Failure int | Success

fun limit_step :: "limit_call \<Rightarrow> limiter \<Rightarrow> limiter" where
  "limit_step (Status now) l = l"
| "limit_step (Failure now) l = record_failure now l"
| "limit_step Success l = record_success l"

fun reg_call :: "string \<Rightarrow> limit_call \<Rightarrow> limiters \<Rightarrow> limiters" where
  "reg_call key (Status now) g = snd (reg_status key now g)"
| "reg_call key (Failure now) g = reg_record_failure key now g"
| "reg_call key Success g = reg_record_success key g"

section \<open>One limiter\<close>

lemma BACKOFF_SCHEDULE_facts [simp]: "length BACKOFF_SCHEDULE = 10"
  by (simp add: BACKOFF_SCHEDULE_def)

lemma less_10_cases: "n < 10 \<Longrightarrow> n \<in> {0, 1, 2, 3, 4, 5, 6, 7, 8, 9 :: nat}"
  by auto

lemma BACKOFF_pos: "0 < n \<Longrightarrow> n < 10 \<Longrightarrow> 0 < BACKOFF_SCHEDULE ! n"
  using less_10_cases [of n] by (auto simp: BACKOFF_SCHEDULE_def)

lemma BACKOFF_shape: "n < 10 \<Longrightarrow> BACKOFF_SCHEDULE ! n = (if n = 0 then 0 else min (2 ^ (n - 1)) 60)"
  using less_10_cases [of n] by (auto simp: BACKOFF_SCHEDULE_def)

lemma record_failure_eq [simp]:
  "record_failure now l =
     \<lparr> l_count = min (Suc (l_count l)) 9,
       l_next_retry = Some (now + 1000 * min (2 ^ (min (Suc (l_count l)) 9 - 1)) 60) \<rparr>"
proof -
  let ?n = "min (Suc (l_count l)) 9"
  have "?n < 10" "0 < ?n" by auto
  then have "BACKOFF_SCHEDULE ! ?n = min (2 ^ (?n - 1)) 60" by (simp add: BACKOFF_shape)
  then show ?thesis by (simp add: record_failure_def Let_def of_nat_min)
qed

lemma failures_count: "l_count (fold record_failure ts l) = (if ts = [] then l_count l else min (l_count l + length ts) 9)"
  by (induction ts arbitrary: l) (auto simp del: record_failure_eq simp: record_failure_eq)

lemma failures_from_zero:
  assumes "l_count l = 0" "ts \<noteq> []"
  shows "fold record_failure ts l =
    \<lparr> l_count = min (length ts) 9,
      l_next_retry = Some (last ts + 1000 * min (2 ^ (min (length ts) 9 - 1)) 60) \<rparr>"
proof -
  obtain us t where ts: "ts = us @ [t]" using assms(2) by (metis append_butlast_last_id)
  have "l_count (fold record_failure us l) = min (length us) 9"
    using assms(1) by (cases "us = []") (auto simp: failures_count)
  then show ?thesis by (simp add: ts) (auto simp: min_def)
qed

section \<open>The registry\<close>

lemma reg_call_look:
  "hget (reg_call k c g) l =
     (if l = k then Some (limit_step c (case hget g k of Some v \<Rightarrow> v | None \<Rightarrow> limiter_new)) else hget g l)"
  by (cases c) (auto simp: reg_status_def reg_record_failure_def reg_record_success_def
      entry_or_default_def Let_def split: option.splits)

interpretation limiters: entry_registry hget reg_call limit_step limiter_new
  by unfold_locales (rule reg_call_look)

lemma limit_step_failures: "fold limit_step (map Failure ts) l = fold record_failure ts l"
  by (induction ts arbitrary: l) auto

section \<open>Properties\<close>



end
