(* ===== verification/Persisted_Limit.thy ===== *)
theory Persisted_Limit
  imports Rate_Limit External
begin

text \<open>
  The rate limiter whose state survives a restart: the authenticated frame of
  \<open>security/persisted_rate_limit.rs\<close> and the registry with its disk writes of
  \<open>security/persisted_rate_limit_actor.rs\<close>.

  The file system is a map from paths to contents; \<open>fs_ok\<close> says whether a write to a path
  succeeds (a failed write is dropped by the code).  With a tokio runtime a write is a job that
  runs later on the blocking pool: the world keeps the spawned jobs in spawn order and
  \<open>run_job\<close> runs one, in whatever order the pool picks.
\<close>

section \<open>The frame on disk\<close>

definition SIGNING_KEY_HKDF_INFO :: bytes where
  "SIGNING_KEY_HKDF_INFO = str_bytes ''lfs/persisted-rate-limit/v2''"

definition SIGNING_KEY_HKDF_SALT :: bytes where
  "SIGNING_KEY_HKDF_SALT = str_bytes ''lfs/persisted-rate-limit/salt/v2''"

definition derive_signing_key :: "crypto_lib \<Rightarrow> bytes \<Rightarrow> bytes" where
  "derive_signing_key C gate_hmac =
     hkdf_sha256 C gate_hmac SIGNING_KEY_HKDF_SALT SIGNING_KEY_HKDF_INFO 32"

record PersistedState =
  p_failure_count :: int
  p_next_retry :: "int option"

definition state_json :: "PersistedState \<Rightarrow> json" where
  "state_json s =
     JObj [(''failure_count'', JInt (p_failure_count s)),
           (''next_retry_at_millis'', case p_next_retry s of Some t \<Rightarrow> JInt t | None \<Rightarrow> JNull)]"

definition frame_json :: "string \<Rightarrow> string \<Rightarrow> json" where
  "frame_json payload tag = JObj [(''payload'', JStr payload), (''hmac'', JStr tag)]"

definition state_frame :: "json_lib \<Rightarrow> b64_lib \<Rightarrow> crypto_lib \<Rightarrow> PersistedState \<Rightarrow> bytes \<Rightarrow> json" where
  "state_frame J B C s gate_hmac =
     (let signing_key = derive_signing_key C gate_hmac;
          payload_bytes = str_bytes (json_print J (state_json s));
          tag = hmac_sha256 C signing_key payload_bytes
      in frame_json (b64_encode B payload_bytes) (b64_encode B tag))"

definition encode_state :: "json_lib \<Rightarrow> b64_lib \<Rightarrow> crypto_lib \<Rightarrow> PersistedState \<Rightarrow> bytes \<Rightarrow> bytes" where
  "encode_state J B C s gate_hmac = str_bytes (json_print J (state_frame J B C s gate_hmac))"

text \<open>The two decoded fields of a frame; any missing or malformed part is \<^const>\<open>None\<close>.\<close>

definition frame_parts :: "json_lib \<Rightarrow> b64_lib \<Rightarrow> bytes \<Rightarrow> (bytes \<times> bytes) option" where
  "frame_parts J B bs =
     (case from_utf8 bs of None \<Rightarrow> None | Some text \<Rightarrow>
      case json_parse J text of None \<Rightarrow> None | Some frame \<Rightarrow>
      case as_object frame of None \<Rightarrow> None | Some obj \<Rightarrow>
      case field as_str ''payload'' obj of None \<Rightarrow> None | Some payload_b64 \<Rightarrow>
      case field as_str ''hmac'' obj of None \<Rightarrow> None | Some hmac_b64 \<Rightarrow>
      case b64_decode B payload_b64 of None \<Rightarrow> None | Some payload_bytes \<Rightarrow>
      case b64_decode B hmac_b64 of None \<Rightarrow> None | Some claimed \<Rightarrow>
        Some (payload_bytes, claimed))"

definition payload_state :: "json_lib \<Rightarrow> bytes \<Rightarrow> PersistedState option" where
  "payload_state J payload_bytes =
     (case json_parse_bytes J payload_bytes of None \<Rightarrow> None | Some payload \<Rightarrow>
      case as_object payload of None \<Rightarrow> None | Some obj \<Rightarrow>
        Some \<lparr> p_failure_count = (case field as_i64 ''failure_count'' obj of Some n \<Rightarrow> n | None \<Rightarrow> 0),
               p_next_retry = field as_i64 ''next_retry_at_millis'' obj \<rparr>)"

text \<open>The error type is never used by the code; a bad file is the value \<^const>\<open>None\<close>.\<close>

definition decode_state ::
  "json_lib \<Rightarrow> b64_lib \<Rightarrow> crypto_lib \<Rightarrow> bytes \<Rightarrow> bytes \<Rightarrow> string + PersistedState option" where
  "decode_state J B C bs gate_hmac =
     Inr (case frame_parts J B bs of None \<Rightarrow> None
          | Some (payload_bytes, claimed) \<Rightarrow>
              if \<not> constant_time_eq claimed (hmac_sha256 C (derive_signing_key C gate_hmac) payload_bytes)
              then None
              else payload_state J payload_bytes)"

section \<open>The registry\<close>

record Entry =
  e_file_path :: string
  e_hmac_key :: bytes
  e_state :: "PersistedState option"
  e_loaded :: bool
  e_pending_write :: "nat option"

type_synonym write_job = "string \<times> bytes \<times> PersistedState"

record plimits =
  w_entries :: "(string, Entry) hmap"
  w_disk :: "(string, bytes) hmap"
  w_jobs :: "write_job list"

definition zero_state :: PersistedState where
  "zero_state = \<lparr> p_failure_count = 0, p_next_retry = None \<rparr>"

definition snapshot_status :: "int \<Rightarrow> Entry \<Rightarrow> RateLimitStatus" where
  "snapshot_status now e =
     (if \<not> e_loaded e then \<lparr> failure_count = 0, cooldown_remaining_ms = 0 \<rparr>
      else case e_state e of
        None \<Rightarrow> \<lparr> failure_count = 0, cooldown_remaining_ms = 0 \<rparr>
      | Some s \<Rightarrow>
          \<lparr> failure_count = nat (max (p_failure_count s) 0) mod 2 ^ 32,
            cooldown_remaining_ms = (case p_next_retry s of Some nxt \<Rightarrow> max (nxt - now) 0 | None \<Rightarrow> 0) \<rparr>)"

definition read_state ::
  "json_lib \<Rightarrow> b64_lib \<Rightarrow> crypto_lib \<Rightarrow> (string, bytes) hmap \<Rightarrow> string \<Rightarrow> bytes \<Rightarrow> int
     \<Rightarrow> PersistedState option" where
  "read_state J B C disk path hmac_key now =
     (case hget disk path of
        None \<Rightarrow> Some zero_state
      | Some raw \<Rightarrow>
          (case decode_state J B C raw hmac_key of
             Inr (Some s) \<Rightarrow> Some s
           | _ \<Rightarrow> Some \<lparr> p_failure_count = int (length BACKOFF_SCHEDULE - 1),
                        p_next_retry = Some (now + int (last BACKOFF_SCHEDULE) * 1000) \<rparr>))"

definition write_state_sync ::
  "json_lib \<Rightarrow> b64_lib \<Rightarrow> crypto_lib \<Rightarrow> (string \<Rightarrow> bool) \<Rightarrow> write_job \<Rightarrow> (string, bytes) hmap
     \<Rightarrow> (string, bytes) hmap" where
  "write_state_sync J B C fs_ok job disk =
     (case job of (path, hmac_key, s) \<Rightarrow>
        if fs_ok path then hput path (encode_state J B C s hmac_key) disk else disk)"

text \<open>Returns the handle of the spawned job, if a runtime was there to spawn it.\<close>

definition write_state_async ::
  "json_lib \<Rightarrow> b64_lib \<Rightarrow> crypto_lib \<Rightarrow> (string \<Rightarrow> bool) \<Rightarrow> bool \<Rightarrow> write_job \<Rightarrow> plimits
     \<Rightarrow> nat option \<times> plimits" where
  "write_state_async J B C fs_ok runtime job w =
     (if runtime then (Some (length (w_jobs w)), w\<lparr> w_jobs := w_jobs w @ [job] \<rparr>)
      else (None, w\<lparr> w_disk := write_state_sync J B C fs_ok job (w_disk w) \<rparr>))"

definition run_job ::
  "json_lib \<Rightarrow> b64_lib \<Rightarrow> crypto_lib \<Rightarrow> (string \<Rightarrow> bool) \<Rightarrow> nat \<Rightarrow> plimits \<Rightarrow> plimits" where
  "run_job J B C fs_ok i w =
     (if i < length (w_jobs w)
      then w\<lparr> w_disk := write_state_sync J B C fs_ok (w_jobs w ! i) (w_disk w) \<rparr> else w)"

definition init_or_get ::
  "json_lib \<Rightarrow> b64_lib \<Rightarrow> crypto_lib \<Rightarrow> string \<Rightarrow> string \<Rightarrow> bytes \<Rightarrow> int \<Rightarrow> plimits
     \<Rightarrow> RateLimitStatus \<times> plimits" where
  "init_or_get J B C key path hmac_key now w =
     (let e0 = (case hget (w_entries w) key of
                  Some e \<Rightarrow> e
                | None \<Rightarrow> \<lparr> e_file_path = path, e_hmac_key = hmac_key, e_state = None,
                            e_loaded = False, e_pending_write = None \<rparr>);
          e1 = (if e_file_path e0 \<noteq> path \<or> e_hmac_key e0 \<noteq> hmac_key
                then e0\<lparr> e_file_path := path, e_hmac_key := hmac_key, e_state := None, e_loaded := False \<rparr>
                else e0);
          e2 = (if \<not> e_loaded e1
                then e1\<lparr> e_state := read_state J B C (w_disk w) (e_file_path e1) (e_hmac_key e1) now,
                         e_loaded := True \<rparr>
                else e1)
      in (snapshot_status now e2, w\<lparr> w_entries := hput key e2 (w_entries w) \<rparr>))"

definition p_status :: "string \<Rightarrow> int \<Rightarrow> plimits \<Rightarrow> RateLimitStatus" where
  "p_status key now w =
     (case hget (w_entries w) key of
        Some e \<Rightarrow> snapshot_status now e
      | None \<Rightarrow> \<lparr> failure_count = 0, cooldown_remaining_ms = 0 \<rparr>)"

text \<open>The state after a failure: the deadline is never moved back, whatever the clock says.\<close>

definition next_failure_state :: "int \<Rightarrow> PersistedState \<Rightarrow> PersistedState" where
  "next_failure_state now current =
     (let next_count = min (p_failure_count current + 1) (int (length BACKOFF_SCHEDULE - 1));
          secs = (if 0 \<le> next_count \<and> nat next_count < length BACKOFF_SCHEDULE
                  then BACKOFF_SCHEDULE ! nat next_count else 0);
          candidate = (if secs = 0 then None else Some (now + int secs * 1000))
      in \<lparr> p_failure_count = next_count,
           p_next_retry = (case (candidate, p_next_retry current) of
                             (Some new, Some prev) \<Rightarrow> Some (max new prev)
                           | (Some new, None) \<Rightarrow> Some new
                           | (None, prev) \<Rightarrow> prev) \<rparr>)"

definition p_record_failure ::
  "json_lib \<Rightarrow> b64_lib \<Rightarrow> crypto_lib \<Rightarrow> (string \<Rightarrow> bool) \<Rightarrow> bool \<Rightarrow> string \<Rightarrow> int \<Rightarrow> plimits
     \<Rightarrow> RateLimitStatus \<times> plimits" where
  "p_record_failure J B C fs_ok runtime key now w =
     (case hget (w_entries w) key of
        None \<Rightarrow> (\<lparr> failure_count = 0, cooldown_remaining_ms = 0 \<rparr>, w)
      | Some e \<Rightarrow>
          let s = next_failure_state now (case e_state e of Some s \<Rightarrow> s | None \<Rightarrow> zero_state);
              (handle, w') = write_state_async J B C fs_ok runtime (e_file_path e, e_hmac_key e, s) w;
              e' = e\<lparr> e_state := Some s, e_loaded := True, e_pending_write := handle \<rparr>
          in (snapshot_status now e', w'\<lparr> w_entries := hput key e' (w_entries w') \<rparr>))"

definition p_record_success ::
  "json_lib \<Rightarrow> b64_lib \<Rightarrow> crypto_lib \<Rightarrow> (string \<Rightarrow> bool) \<Rightarrow> bool \<Rightarrow> string \<Rightarrow> plimits \<Rightarrow> plimits" where
  "p_record_success J B C fs_ok runtime key w =
     (case hget (w_entries w) key of
        None \<Rightarrow> w
      | Some e \<Rightarrow>
          let (handle, w') = write_state_async J B C fs_ok runtime (e_file_path e, e_hmac_key e, zero_state) w;
              e' = e\<lparr> e_state := Some zero_state, e_loaded := True, e_pending_write := handle \<rparr>
          in w'\<lparr> w_entries := hput key e' (w_entries w') \<rparr>)"

definition take_pending_write :: "string \<Rightarrow> plimits \<Rightarrow> nat option \<times> plimits" where
  "take_pending_write key w =
     (case hget (w_entries w) key of
        None \<Rightarrow> (None, w)
      | Some e \<Rightarrow> (e_pending_write e,
                   w\<lparr> w_entries := hput key (e\<lparr> e_pending_write := None \<rparr>) (w_entries w) \<rparr>))"

definition p_clear :: "string \<Rightarrow> plimits \<Rightarrow> plimits" where
  "p_clear key w =
     (case hget (w_entries w) key of
        None \<Rightarrow> w
      | Some e \<Rightarrow> w\<lparr> w_entries := hdel key (w_entries w), w_disk := hdel (e_file_path e) (w_disk w) \<rparr>)"

text \<open>A process restart forgets the registry and the jobs and keeps the disk.\<close>

definition p_restart :: "plimits \<Rightarrow> plimits" where
  "p_restart w = \<lparr> w_entries = hempty, w_disk = w_disk w, w_jobs = [] \<rparr>"

section \<open>Frames\<close>

definition i64 :: "int \<Rightarrow> bool" where
  "i64 n \<longleftrightarrow> - (2 ^ 63) \<le> n \<and> n < 2 ^ 63"

definition state_ok :: "PersistedState \<Rightarrow> bool" where
  "state_ok s \<longleftrightarrow> i64 (p_failure_count s) \<and> (case p_next_retry s of Some t \<Rightarrow> i64 t | None \<Rightarrow> True)"

text \<open>What the libraries owe the frame of a state.\<close>

definition libs_ok :: "json_lib \<Rightarrow> b64_lib \<Rightarrow> crypto_lib \<Rightarrow> PersistedState \<Rightarrow> bytes \<Rightarrow> bool" where
  "libs_ok J B C s gate \<longleftrightarrow> json_ok J (state_json s) \<and> json_ok J (state_frame J B C s gate) \<and> b64_ok B"

lemma payload_state_json:
  assumes "json_ok J (state_json s)" "state_ok s"
  shows "payload_state J (str_bytes (json_print J (state_json s))) = Some s"
  using assms by (cases s)
    (auto simp: payload_state_def state_json_def json_access state_ok_def i64_def split: option.splits)

lemma frame_parts_encode:
  assumes "libs_ok J B C s gate"
  shows "frame_parts J B (encode_state J B C s gate) =
    Some (str_bytes (json_print J (state_json s)),
      hmac_sha256 C (derive_signing_key C gate) (str_bytes (json_print J (state_json s))))"
proof -
  let ?F = "state_frame J B C s gate"
  have "from_utf8 (encode_state J B C s gate) = Some (json_print J ?F)"
       "json_parse J (json_print J ?F) = Some ?F" "b64_ok B"
    using assms by (auto simp: libs_ok_def json_ok_def encode_state_def from_utf8_def)
  then show ?thesis
    unfolding frame_parts_def by (simp add: state_frame_def Let_def frame_json_def json_access)
qed

lemma decode_encode_state:
  "libs_ok J B C s gate \<Longrightarrow> state_ok s \<Longrightarrow>
     decode_state J B C (encode_state J B C s gate) gate = Inr (Some s)"
  by (simp add: decode_state_def frame_parts_encode payload_state_json libs_ok_def)

lemma read_state_encode [simp]:
  "libs_ok J B C s gate \<Longrightarrow> state_ok s \<Longrightarrow> hget disk path = Some (encode_state J B C s gate) \<Longrightarrow>
     read_state J B C disk path gate now = Some s"
  by (simp add: read_state_def decode_encode_state)

interpretation frame: codec "\<lambda>s. encode_state J B C s gate"
    "\<lambda>bs. case decode_state J B C bs gate of Inr r \<Rightarrow> r | Inl e \<Rightarrow> None"
    "\<lambda>s. libs_ok J B C s gate \<and> state_ok s" for J B C gate
  by unfold_locales (simp add: decode_encode_state)

section \<open>Failures\<close>

lemma next_failure_count:
  "0 \<le> p_failure_count s \<Longrightarrow> p_failure_count (next_failure_state now s) = min (p_failure_count s + 1) 9"
  by (simp add: next_failure_state_def Let_def)

lemma next_failure_deadline:
  assumes "0 \<le> p_failure_count s"
  shows "p_next_retry (next_failure_state now s) =
    Some (let t = now + 1000 * int (BACKOFF_SCHEDULE ! nat (min (p_failure_count s + 1) 9))
          in case p_next_retry s of Some prev \<Rightarrow> max t prev | None \<Rightarrow> t)"
proof -
  let ?n = "min (p_failure_count s + 1) 9"
  have "0 < nat ?n" "nat ?n < 10" using assms by auto
  then have "BACKOFF_SCHEDULE ! nat ?n \<noteq> 0" using BACKOFF_pos [of "nat ?n"] by simp
  with assms show ?thesis
    by (auto simp: next_failure_state_def Let_def mult.commute split: option.splits)
qed

lemma failures_keep_floor:
  assumes "0 \<le> p_failure_count s" "p_next_retry s = Some d"
  shows "\<exists>d'. p_next_retry (fold next_failure_state ts s) = Some d' \<and> d \<le> d'"
  using assms
proof (induction ts arbitrary: s d)
  case (Cons t ts)
  obtain d1 where d1: "p_next_retry (next_failure_state t s) = Some d1" "d \<le> d1"
    using Cons.prems by (simp add: next_failure_deadline Let_def)
  moreover have "0 \<le> p_failure_count (next_failure_state t s)"
    using Cons.prems by (simp add: next_failure_count)
  ultimately show ?case using Cons.IH [of "next_failure_state t s" d1] by fastforce
qed simp

lemma failures_count_nonneg:
  "0 \<le> p_failure_count s \<Longrightarrow> 0 \<le> p_failure_count (fold next_failure_state ts s)"
  by (induction ts arbitrary: s) (auto simp: next_failure_count)

text \<open>What a failure does to the registry: the entry and the job it spawns.\<close>

lemma p_record_failure_spawn:
  assumes "hget (w_entries w) key = Some e" and "e_state e = Some s"
  shows "hget (w_entries (snd (p_record_failure J B C fs_ok True key now w))) key =
      Some (e\<lparr> e_state := Some (next_failure_state now s), e_loaded := True,
              e_pending_write := Some (length (w_jobs w)) \<rparr>)"
    and "w_jobs (snd (p_record_failure J B C fs_ok True key now w)) =
      w_jobs w @ [(e_file_path e, e_hmac_key e, next_failure_state now s)]"
    and "w_disk (snd (p_record_failure J B C fs_ok True key now w)) = w_disk w"
  using assms by (simp_all add: p_record_failure_def write_state_async_def Let_def)

lemma init_after_restart:
  "init_or_get J B C key path gate now (p_restart w) =
     (snapshot_status now \<lparr> e_file_path = path, e_hmac_key = gate,
          e_state = read_state J B C (w_disk w) path gate now, e_loaded = True, e_pending_write = None \<rparr>,
      (p_restart w)\<lparr> w_entries := hput key \<lparr> e_file_path = path, e_hmac_key = gate,
          e_state = read_state J B C (w_disk w) path gate now, e_loaded = True, e_pending_write = None \<rparr>
          (w_entries (p_restart w)) \<rparr>)"
  by (simp add: init_or_get_def p_restart_def Let_def)

text \<open>Libraries that serve the frames of a given list of states.\<close>

definition ref_frame :: "bytes \<Rightarrow> nat \<Rightarrow> json" where
  "ref_frame gate i =
     frame_json (dec i)
       (b64_encode b64_ref (hmac_sha256 crypto_ref (derive_signing_key crypto_ref gate) (str_bytes (dec i))))"

definition ref_json :: "PersistedState list \<Rightarrow> bytes \<Rightarrow> json_lib" where
  "ref_json ss gate = json_table (map state_json ss @ map (ref_frame gate) [0..<length ss])"

lemma ref_json_ok:
  assumes "s \<in> set ss"
  shows "libs_ok (ref_json ss gate) b64_ref crypto_ref s gate"
proof -
  let ?vs = "map state_json ss @ map (ref_frame gate) [0..<length ss]"
  obtain k where k: "k < length ss" "ss ! k = s" using assms by (auto simp: in_set_conv_nth)
  have "state_json s \<in> set ?vs" using assms by simp
  then obtain i where i: "find_idx ((=) (state_json s)) ?vs = Some i" by fastforce
  then have "i \<le> k" using k by (auto simp: find_idx_Some nth_append not_less [symmetric])
  then have "i < length ss" using k by simp
  moreover have "json_print (ref_json ss gate) (state_json s) = dec i"
    using i by (simp add: ref_json_def json_table_def)
  then have "state_frame (ref_json ss gate) b64_ref crypto_ref s gate = ref_frame gate i"
    by (simp add: state_frame_def ref_frame_def Let_def) (simp add: b64_ref_def)
  ultimately show ?thesis using assms by (simp add: libs_ok_def ref_json_def)
qed

section \<open>Properties\<close>

text \<open>
  C29. A failure survives a crash: once the write of a recorded failure has run, a restarted process
  that registers the same id, path and key reports exactly the status the failing call returned.
\<close>

theorem failure_survives_restart:
  assumes "hget (w_entries w) key = Some e" and "e_state e = Some s"
    and "fs_ok (e_file_path e)"
    and "libs_ok J B C (next_failure_state now s) (e_hmac_key e)"
    and "state_ok (next_failure_state now s)"
  shows "fst (init_or_get J B C key (e_file_path e) (e_hmac_key e) now
      (p_restart (run_job J B C fs_ok (length (w_jobs w))
        (snd (p_record_failure J B C fs_ok True key now w))))) =
    fst (p_record_failure J B C fs_ok True key now w)"
proof -
  let ?w = "snd (p_record_failure J B C fs_ok True key now w)"
  let ?w' = "run_job J B C fs_ok (length (w_jobs w)) ?w"
  have "hget (w_disk ?w') (e_file_path e) =
      Some (encode_state J B C (next_failure_state now s) (e_hmac_key e))"
    using p_record_failure_spawn(2) [OF assms(1,2)] assms(3)
    by (simp add: run_job_def write_state_sync_def)
  then have "read_state J B C (w_disk ?w') (e_file_path e) (e_hmac_key e) now =
      Some (next_failure_state now s)"
    using assms(4,5) by simp
  moreover have "fst (p_record_failure J B C fs_ok True key now w) =
      snapshot_status now (e\<lparr> e_state := Some (next_failure_state now s), e_loaded := True,
        e_pending_write := Some (length (w_jobs w)) \<rparr>)"
    using assms(1,2) by (simp add: p_record_failure_def write_state_async_def Let_def)
  ultimately show ?thesis by (simp add: init_after_restart snapshot_status_def)
qed

theorem failure_survives_restart_witness:
  "let e = \<lparr> e_file_path = ''f'', e_hmac_key = [7], e_state = Some zero_state, e_loaded = True,
             e_pending_write = None \<rparr>;
       w = \<lparr> w_entries = hput ''gate'' e hempty, w_disk = hempty, w_jobs = [] \<rparr>;
       J = ref_json [next_failure_state 50 zero_state] [7]
   in fst (init_or_get J b64_ref crypto_ref ''gate'' ''f'' [7] 50
        (p_restart (run_job J b64_ref crypto_ref (\<lambda>p. True) 0
          (snd (p_record_failure J b64_ref crypto_ref (\<lambda>p. True) True ''gate'' 50 w))))) =
      fst (p_record_failure J b64_ref crypto_ref (\<lambda>p. True) True ''gate'' 50 w)"
proof -
  have ok: "state_ok (next_failure_state 50 zero_state)"
    by (simp add: next_failure_state_def zero_state_def Let_def state_ok_def i64_def BACKOFF_SCHEDULE_def)
  show ?thesis
    using failure_survives_restart
      [of "\<lparr> w_entries = hput ''gate'' \<lparr> e_file_path = ''f'', e_hmac_key = [7], e_state = Some zero_state,
             e_loaded = True, e_pending_write = None \<rparr> hempty, w_disk = hempty, w_jobs = [] \<rparr>" "''gate''"
          "\<lparr> e_file_path = ''f'', e_hmac_key = [7], e_state = Some zero_state, e_loaded = True,
             e_pending_write = None \<rparr>" zero_state "\<lambda>p. True"
          "ref_json [next_failure_state 50 zero_state] [7]" b64_ref crypto_ref 50] ok
    by (simp add: ref_json_ok)
qed

text \<open>
  The lock-out only moves forward: from a state with a non-negative count, over any number of
  failures at any clock readings, also readings that go backwards, each failure's deadline
  (its own time plus its step of the schedule) stays covered by the deadline at the end.
\<close>

theorem cooldown_never_shrinks:
  assumes "0 \<le> p_failure_count s"
  shows "\<exists>d. p_next_retry (fold next_failure_state (before @ t # after) s) = Some d \<and>
    t + 1000 * int (BACKOFF_SCHEDULE ! nat (min (p_failure_count (fold next_failure_state before s) + 1) 9)) \<le> d"
proof -
  let ?s = "fold next_failure_state before s"
  have pos: "0 \<le> p_failure_count ?s" using assms by (rule failures_count_nonneg)
  obtain d1 where d1: "p_next_retry (next_failure_state t ?s) = Some d1"
      "t + 1000 * int (BACKOFF_SCHEDULE ! nat (min (p_failure_count ?s + 1) 9)) \<le> d1"
    using pos by (auto simp: next_failure_deadline Let_def split: option.splits)
  have "0 \<le> p_failure_count (next_failure_state t ?s)" using pos by (simp add: next_failure_count)
  from failures_keep_floor [OF this d1(1), of after] d1(2) show ?thesis by fastforce
qed

theorem cooldown_never_shrinks_witness:
  "\<exists>d. p_next_retry (fold next_failure_state [5000, 9000, 0] zero_state) = Some d \<and> 11000 \<le> d"
  using cooldown_never_shrinks [of zero_state "[5000]" 9000 "[0]"]
  by (simp add: zero_state_def next_failure_count) (simp add: BACKOFF_SCHEDULE_def)



text \<open>
  Two failures recorded in quick succession spawn two independent writes.  Run in spawn order
  they leave the second state on disk; run the other way round they leave the first, and after a
  restart the process counts one failure although two happened: nothing orders the two writes.
\<close>

theorem write_order_decides:
  assumes "hget (w_entries w) key = Some e" and "e_state e = Some zero_state" and "w_jobs w = []"
    and "fs_ok (e_file_path e)"
    and "libs_ok J B C (next_failure_state t1 zero_state) (e_hmac_key e)"
    and "libs_ok J B C (next_failure_state t2 (next_failure_state t1 zero_state)) (e_hmac_key e)"
    and "state_ok (next_failure_state t1 zero_state)"
    and "state_ok (next_failure_state t2 (next_failure_state t1 zero_state))"
  shows "let w2 = snd (p_record_failure J B C fs_ok True key t2 (snd (p_record_failure J B C fs_ok True key t1 w)));
             count = (\<lambda>w. failure_count (fst (init_or_get J B C key (e_file_path e) (e_hmac_key e) now (p_restart w))))
         in p_status key now w2 = snapshot_status now
              (e\<lparr> e_state := Some (next_failure_state t2 (next_failure_state t1 zero_state)), e_loaded := True \<rparr>) \<and>
            count (fold (run_job J B C fs_ok) [0, 1] w2) = 2 \<and>
            count (fold (run_job J B C fs_ok) [1, 0] w2) = 1"
proof -
  let ?s1 = "next_failure_state t1 zero_state" and ?s2 = "next_failure_state t2 (next_failure_state t1 zero_state)"
  let ?w1 = "snd (p_record_failure J B C fs_ok True key t1 w)"
  let ?w2 = "snd (p_record_failure J B C fs_ok True key t2 ?w1)"
  note f1 = p_record_failure_spawn [OF assms(1,2), of J B C fs_ok t1]
  have f2: "hget (w_entries ?w2) key = Some (e\<lparr> e_state := Some ?s2, e_loaded := True, e_pending_write := Some 1 \<rparr>)"
      "w_jobs ?w2 = [(e_file_path e, e_hmac_key e, ?s1), (e_file_path e, e_hmac_key e, ?s2)]"
    using p_record_failure_spawn(1,2) [OF f1(1), of ?s1 J B C fs_ok t2] f1 assms(3) by simp_all
  have c: "p_failure_count ?s1 = 1" "p_failure_count ?s2 = 2"
    by (simp_all add: next_failure_state_def zero_state_def Let_def)
  show ?thesis
    using f2 assms(4-8) c
    by (simp add: Let_def init_after_restart snapshot_status_def run_job_def write_state_sync_def p_status_def)
qed

theorem write_order_decides_witness:
  "let e = \<lparr> e_file_path = ''f'', e_hmac_key = [7], e_state = Some zero_state, e_loaded = True,
             e_pending_write = None \<rparr>;
       w = \<lparr> w_entries = hput ''gate'' e hempty, w_disk = hempty, w_jobs = [] \<rparr>;
       s1 = next_failure_state 50 zero_state; s2 = next_failure_state 60 s1;
       J = ref_json [s1, s2] [7];
       w2 = snd (p_record_failure J b64_ref crypto_ref (\<lambda>p. True) True ''gate'' 60
              (snd (p_record_failure J b64_ref crypto_ref (\<lambda>p. True) True ''gate'' 50 w)));
       count = (\<lambda>w. failure_count (fst (init_or_get J b64_ref crypto_ref ''gate'' ''f'' [7] 70 (p_restart w))))
   in count (fold (run_job J b64_ref crypto_ref (\<lambda>p. True)) [0, 1] w2) = 2 \<and>
      count (fold (run_job J b64_ref crypto_ref (\<lambda>p. True)) [1, 0] w2) = 1"
proof -
  let ?s1 = "next_failure_state 50 zero_state" and ?s2 = "next_failure_state 60 (next_failure_state 50 zero_state)"
  let ?e = "\<lparr> e_file_path = ''f'', e_hmac_key = [7], e_state = Some zero_state, e_loaded = True,
              e_pending_write = None \<rparr>"
  have ok: "state_ok ?s1" "state_ok ?s2"
    by (simp_all add: next_failure_state_def zero_state_def Let_def state_ok_def i64_def BACKOFF_SCHEDULE_def)
  show ?thesis
    using write_order_decides
      [of "\<lparr> w_entries = hput ''gate'' ?e hempty, w_disk = hempty, w_jobs = [] \<rparr>" "''gate''" ?e
          "\<lambda>p. True" "ref_json [?s1, ?s2] [7]" b64_ref crypto_ref 50 60 70] ok
    by (simp add: ref_json_ok Let_def)
qed

end
