(* ===== verification/Secret_Store.thy ===== *)
theory Secret_Store
  imports Interfaces
begin

text \<open>
  The in-memory secret store, \<open>secrets.rs\<close>.  Every stored buffer has a heap address; the model
  keeps the addresses that are page-locked, so that the pairing of \<open>lock_memory\<close> and
  \<open>unlock_memory\<close> is visible.  Whether the operating system grants a lock is a parameter
  \<open>grant\<close> on addresses.
\<close>

section \<open>Definitions\<close>

record buffer =
  b_addr :: nat
  b_bytes :: bytes

record SecretStore =
  s_inner :: "(string, buffer) hmap"
  s_pinned :: "nat list"
  s_heap :: nat

definition ACTIVE_DBKEY_SECRET_ID :: string where
  "ACTIVE_DBKEY_SECRET_ID = ''app.dbkey.active''"

definition page_lock :: "(nat \<Rightarrow> bool) \<Rightarrow> buffer \<Rightarrow> nat list \<Rightarrow> nat list" where
  "page_lock grant b pins = (if b_bytes b \<noteq> [] \<and> grant (b_addr b) then b_addr b # pins else pins)"

definition page_unlock :: "buffer \<Rightarrow> nat list \<Rightarrow> nat list" where
  "page_unlock b pins = (if b_bytes b \<noteq> [] then remove1 (b_addr b) pins else pins)"

definition store_new :: SecretStore where
  "store_new = \<lparr> s_inner = hempty, s_pinned = [], s_heap = 0 \<rparr>"

definition unpin_old :: "buffer option \<Rightarrow> nat list \<Rightarrow> nat list" where
  "unpin_old old pins = (case old of Some b \<Rightarrow> page_unlock b pins | None \<Rightarrow> pins)"

text \<open>\<open>bytes.to_vec()\<close> allocates a fresh buffer.\<close>

definition secret_put :: "(nat \<Rightarrow> bool) \<Rightarrow> string \<Rightarrow> bytes \<Rightarrow> SecretStore \<Rightarrow> SecretStore" where
  "secret_put grant key bs st =
     (let z = \<lparr> b_addr = s_heap st, b_bytes = bs \<rparr>;
          pins = page_lock grant z (s_pinned st)
      in \<lparr> s_inner = hput key z (s_inner st),
           s_pinned = unpin_old (hget (s_inner st) key) pins,
           s_heap = Suc (s_heap st) \<rparr>)"

definition secret_has :: "string \<Rightarrow> SecretStore \<Rightarrow> bool" where
  "secret_has key st \<longleftrightarrow> hget (s_inner st) key \<noteq> None"

definition secret_get :: "string \<Rightarrow> SecretStore \<Rightarrow> bytes option" where
  "secret_get key st = map_option b_bytes (hget (s_inner st) key)"

definition secret_drop_id :: "string \<Rightarrow> SecretStore \<Rightarrow> SecretStore" where
  "secret_drop_id key st =
     st\<lparr> s_inner := hdel key (s_inner st),
         s_pinned := unpin_old (hget (s_inner st) key) (s_pinned st) \<rparr>"

definition secret_take :: "string \<Rightarrow> SecretStore \<Rightarrow> bytes option \<times> SecretStore" where
  "secret_take key st =
     (let removed = hget (s_inner st) key
      in (map_option b_bytes removed,
          st\<lparr> s_inner := hdel key (s_inner st), s_pinned := unpin_old removed (s_pinned st) \<rparr>))"

definition secret_clear :: "SecretStore \<Rightarrow> SecretStore" where
  "secret_clear st =
     st\<lparr> s_inner := hempty, s_pinned := fold page_unlock (map snd (s_inner st)) (s_pinned st) \<rparr>"

definition secret_rename :: "string \<Rightarrow> string \<Rightarrow> SecretStore \<Rightarrow> bool \<times> SecretStore" where
  "secret_rename frm to st =
     (if frm = to then (secret_has frm st, st)
      else case hget (s_inner st) frm of
        None \<Rightarrow> (False, st)
      | Some buf \<Rightarrow>
          (let g = hdel frm (s_inner st)
           in (True, st\<lparr> s_inner := hput to buf g,
                         s_pinned := unpin_old (hget g to) (s_pinned st) \<rparr>)))"

definition secret_ids :: "SecretStore \<Rightarrow> string list" where
  "secret_ids st = hkeys (s_inner st)"

datatype secret_call =
    SPut string bytes | SDrop string | STake string | SClear | SRename string string

fun secret_step :: "(nat \<Rightarrow> bool) \<Rightarrow> secret_call \<Rightarrow> SecretStore \<Rightarrow> SecretStore" where
  "secret_step grant (SPut key bs) st = secret_put grant key bs st"
| "secret_step grant (SDrop key) st = secret_drop_id key st"
| "secret_step grant (STake key) st = snd (secret_take key st)"
| "secret_step grant SClear st = secret_clear st"
| "secret_step grant (SRename a b) st = snd (secret_rename a b st)"

section \<open>The pin balance\<close>

text \<open>
  The pinned addresses are exactly those of the stored non-empty buffers the system granted, each
  pinned once, and no two ids share a buffer.
\<close>

definition wants_pin :: "(nat \<Rightarrow> bool) \<Rightarrow> buffer \<Rightarrow> bool" where
  "wants_pin grant b \<longleftrightarrow> b_bytes b \<noteq> [] \<and> grant (b_addr b)"

definition pins_match :: "(nat \<Rightarrow> bool) \<Rightarrow> (string, buffer) hmap \<Rightarrow> nat list \<Rightarrow> bool" where
  "pins_match grant g pins \<longleftrightarrow> distinct pins \<and>
     (\<forall>a. a \<in> set pins \<longleftrightarrow> (\<exists>k b. hget g k = Some b \<and> b_addr b = a \<and> wants_pin grant b))"

definition unshared :: "nat \<Rightarrow> (string, buffer) hmap \<Rightarrow> bool" where
  "unshared heap g \<longleftrightarrow>
     (\<forall>k b. hget g k = Some b \<longrightarrow> b_addr b < heap) \<and>
     (\<forall>k l b c. hget g k = Some b \<longrightarrow> hget g l = Some c \<longrightarrow> b_addr b = b_addr c \<longrightarrow> k = l)"

definition pin_inv :: "(nat \<Rightarrow> bool) \<Rightarrow> SecretStore \<Rightarrow> bool" where
  "pin_inv grant st \<longleftrightarrow>
     hinv (s_inner st) \<and> unshared (s_heap st) (s_inner st) \<and> pins_match grant (s_inner st) (s_pinned st)"

lemma pin_inv_new: "pin_inv grant store_new"
  by (simp add: pin_inv_def store_new_def unshared_def pins_match_def)

lemma unpin_old_None [simp]: "unpin_old None pins = pins"
  by (simp add: unpin_old_def)

lemma set_unpin_old:
  "distinct pins \<Longrightarrow>
     set (unpin_old (Some b) pins) = (if b_bytes b \<noteq> [] then set pins - {b_addr b} else set pins)"
  by (simp add: unpin_old_def page_unlock_def)

lemma distinct_unpin_old: "distinct pins \<Longrightarrow> distinct (unpin_old old pins)"
  by (cases old) (simp_all add: unpin_old_def page_unlock_def distinct_remove1)

lemma unshared_hdel: "unshared n g \<Longrightarrow> unshared n (hdel k g)"
  by (auto simp: unshared_def split: if_splits)

lemma unshared_hput:
  assumes "unshared n g" "n \<le> n'" "b_addr b < n'" "\<And>l c. hget g l = Some c \<Longrightarrow> l \<noteq> k \<Longrightarrow> b_addr c \<noteq> b_addr b"
  shows "unshared n' (hput k b g)"
proof -
  have "b_addr c < n'" if "hget g l = Some c" for l c
    using assms(1,2) that by (auto simp: unshared_def intro: less_le_trans)
  moreover have "l = l'" if "hget g l = Some c" "hget g l' = Some c'" "b_addr c = b_addr c'" for l l' c c'
    using assms(1) that by (auto simp: unshared_def)
  ultimately show ?thesis using assms(3,4) unfolding unshared_def by (auto split: if_splits) metis+
qed

text \<open>Removing an entry and unpinning its buffer keeps the balance.\<close>

lemma pins_match_hdel:
  assumes m: "pins_match grant g pins" and u: "unshared n g"
  shows "pins_match grant (hdel key g) (unpin_old (hget g key) pins)"
proof (cases "hget g key")
  case None
  then have "hget (hdel key g) = hget g" by auto
  with m None show ?thesis by (simp add: pins_match_def)
next
  case (Some b)
  have d: "distinct pins" using m by (simp add: pins_match_def)
  have "a \<in> set (unpin_old (Some b) pins) \<longleftrightarrow>
      (\<exists>k c. hget (hdel key g) k = Some c \<and> b_addr c = a \<and> wants_pin grant c)" (is "?l \<longleftrightarrow> ?r") for a
  proof
    assume ?l
    then have "a \<in> set pins" and na: "b_bytes b \<noteq> [] \<longrightarrow> a \<noteq> b_addr b"
      using set_unpin_old [OF d, of b] by (auto split: if_splits)
    then obtain k c where kc: "hget g k = Some c" "b_addr c = a" "wants_pin grant c"
      using m by (auto simp: pins_match_def)
    with na Some have "k \<noteq> key" by (auto simp: wants_pin_def)
    with kc show ?r by (intro exI [of _ k] exI [of _ c]) simp
  next
    assume ?r
    then obtain k c where kc: "k \<noteq> key" "hget g k = Some c" "b_addr c = a" "wants_pin grant c"
      by (auto split: if_splits)
    then have "a \<in> set pins" using m by (auto simp: pins_match_def)
    moreover have "a \<noteq> b_addr b" using u kc Some by (auto simp: unshared_def)
    ultimately show ?l using set_unpin_old [OF d, of b] by auto
  qed
  with d Some show ?thesis by (simp add: pins_match_def distinct_unpin_old)
qed

lemma pins_match_fresh:
  assumes "pins_match grant g pins" "\<And>l c. hget g l = Some c \<Longrightarrow> b_addr c \<noteq> b_addr b" "hget g k = None"
  shows "pins_match grant (hput k b g) (page_lock grant b pins)"
proof -
  have d: "distinct pins" and p: "a \<in> set pins \<longleftrightarrow> (\<exists>k b. hget g k = Some b \<and> b_addr b = a \<and> wants_pin grant b)" for a
    using assms(1) by (auto simp: pins_match_def)
  have "b_addr b \<notin> set pins" using p assms(2) by auto
  moreover have "a \<in> set (page_lock grant b pins) \<longleftrightarrow>
      (\<exists>l c. hget (hput k b g) l = Some c \<and> b_addr c = a \<and> wants_pin grant c)" (is "?l \<longleftrightarrow> ?r") for a
  proof
    assume ?l
    then consider "a = b_addr b" "wants_pin grant b" | l c where "hget g l = Some c" "b_addr c = a" "wants_pin grant c"
      using p by (auto simp: page_lock_def wants_pin_def split: if_splits)
    then show ?r
    proof cases
      case 1
      then show ?thesis by (intro exI [of _ k] exI [of _ b]) simp
    next
      case 2
      then show ?thesis using assms(3) by (intro exI [of _ l] exI [of _ c]) auto
    qed
  next
    assume ?r
    then show ?l using p by (auto simp: page_lock_def wants_pin_def split: if_splits)
  qed
  ultimately show ?thesis using d by (auto simp: pins_match_def page_lock_def)
qed

text \<open>Moving a buffer to a free id touches no pin.\<close>

lemma pins_match_move:
  assumes "pins_match grant g pins" "hget g frm = Some b" "hget g to = None" "frm \<noteq> to"
  shows "pins_match grant (hput to b (hdel frm g)) pins"
proof -
  have "(\<exists>k c. hget (hput to b (hdel frm g)) k = Some c \<and> b_addr c = a \<and> wants_pin grant c) \<longleftrightarrow>
      (\<exists>k c. hget g k = Some c \<and> b_addr c = a \<and> wants_pin grant c)" (is "?l \<longleftrightarrow> ?r") for a
  proof
    assume ?l
    then show ?r using assms(2) by (auto split: if_splits)
  next
    assume ?r
    then obtain k c where kc: "hget g k = Some c" "b_addr c = a" "wants_pin grant c" by blast
    show ?l
    proof (cases "k = frm")
      case True
      with kc assms(2) show ?thesis by (intro exI [of _ to] exI [of _ c]) auto
    next
      case False
      with kc assms(3) show ?thesis by (intro exI [of _ k] exI [of _ c]) auto
    qed
  qed
  with assms(1) show ?thesis by (simp add: pins_match_def)
qed

lemma pins_match_cong: "hget g = hget g' \<Longrightarrow> pins_match grant g pins = pins_match grant g' pins"
  by (simp add: pins_match_def)

lemma unpin_page_lock:
  "b_addr b \<noteq> b_addr z \<Longrightarrow>
     unpin_old (Some b) (page_lock grant z pins) = page_lock grant z (unpin_old (Some b) pins)"
  by (auto simp: unpin_old_def page_unlock_def page_lock_def)

section \<open>Every operation keeps the balance\<close>

lemma pin_inv_put:
  assumes inv: "pin_inv grant st"
  shows "pin_inv grant (secret_put grant key bs st)"
proof -
  let ?g = "s_inner st" and ?z = "\<lparr> b_addr = s_heap st, b_bytes = bs \<rparr>"
  have below: "b_addr c < s_heap st" if "hget ?g l = Some c" for l c
    using inv that by (auto simp: pin_inv_def unshared_def)
  have "pins_match grant (hput key ?z (hdel key ?g)) (page_lock grant ?z (unpin_old (hget ?g key) (s_pinned st)))"
  proof (rule pins_match_fresh)
    show "pins_match grant (hdel key ?g) (unpin_old (hget ?g key) (s_pinned st))"
      using inv by (auto simp: pin_inv_def intro: pins_match_hdel)
  qed (use below in \<open>fastforce split: if_splits\<close>)+
  moreover have "hget (hput key ?z (hdel key ?g)) = hget (hput key ?z ?g)" by auto
  moreover have "unpin_old (hget ?g key) (page_lock grant ?z (s_pinned st)) =
      page_lock grant ?z (unpin_old (hget ?g key) (s_pinned st))"
    using below [of key] by (cases "hget ?g key") (auto intro!: unpin_page_lock)
  ultimately have "pins_match grant (hput key ?z ?g) (unpin_old (hget ?g key) (page_lock grant ?z (s_pinned st)))"
    using pins_match_cong by metis
  moreover have "unshared (Suc (s_heap st)) (hput key ?z ?g)"
    using inv by (intro unshared_hput [of "s_heap st"]) (auto simp: pin_inv_def dest: below)
  ultimately show ?thesis using inv by (simp add: pin_inv_def secret_put_def Let_def)
qed

lemma pin_inv_drop: "pin_inv grant st \<Longrightarrow> pin_inv grant (secret_drop_id key st)"
  by (auto simp: pin_inv_def secret_drop_id_def unshared_hdel intro: pins_match_hdel)

lemma pin_inv_take: "pin_inv grant st \<Longrightarrow> pin_inv grant (snd (secret_take key st))"
  by (auto simp: pin_inv_def secret_take_def Let_def unshared_hdel intro: pins_match_hdel)

lemma pin_inv_rename:
  assumes inv: "pin_inv grant st"
  shows "pin_inv grant (snd (secret_rename frm to st))"
proof (cases "frm = to \<or> hget (s_inner st) frm = None")
  case True
  with inv show ?thesis by (auto simp: secret_rename_def)
next
  case False
  let ?g = "s_inner st"
  from False obtain b where b: "hget ?g frm = Some b" and ne: "frm \<noteq> to" by auto
  have "pins_match grant (hdel to ?g) (unpin_old (hget ?g to) (s_pinned st))"
    using inv by (auto simp: pin_inv_def intro: pins_match_hdel)
  then have "pins_match grant (hput to b (hdel frm (hdel to ?g))) (unpin_old (hget ?g to) (s_pinned st))"
    using b ne by (intro pins_match_move) auto
  moreover have "hget (hput to b (hdel frm (hdel to ?g))) = hget (hput to b (hdel frm ?g))" by auto
  ultimately have "pins_match grant (hput to b (hdel frm ?g)) (unpin_old (hget ?g to) (s_pinned st))"
    using pins_match_cong by metis
  moreover have u: "unshared (s_heap st) ?g" using inv by (simp add: pin_inv_def)
  have "unshared (s_heap st) (hput to b (hdel frm ?g))"
  proof (rule unshared_hput)
    show "unshared (s_heap st) (hdel frm ?g)" using u by (rule unshared_hdel)
    show "b_addr b < s_heap st" using u b by (auto simp: unshared_def)
    show "b_addr c \<noteq> b_addr b" if "hget (hdel frm ?g) l = Some c" "l \<noteq> to" for l c
      using u b that unfolding unshared_def by (auto split: if_splits)
  qed simp
  ultimately show ?thesis using inv b ne by (simp add: pin_inv_def secret_rename_def Let_def)
qed

lemma hdel_head: "hinv ((k, b) # g) \<Longrightarrow> hdel k ((k, b) # g) = g \<and> hinv g"
  by (force simp: hinv_def hkeys_def hdel_def AList.delete_eq filter_id_conv)

lemma unpin_all:
  "hinv g \<Longrightarrow> unshared n g \<Longrightarrow> pins_match grant g pins \<Longrightarrow> fold page_unlock (map snd g) pins = []"
proof (induction g arbitrary: pins)
  case Nil
  then show ?case by (simp add: pins_match_def hget_def)
next
  case (Cons p g)
  obtain k b where p: "p = (k, b)" by (cases p)
  have h: "hdel k (p # g) = g" "hinv g" using Cons.prems(1) hdel_head [of k b g] p by auto
  have "hget (p # g) k = Some b" by (simp add: p hget_def)
  then have "pins_match grant g (page_unlock b pins)"
    using pins_match_hdel [OF Cons.prems(3,2), of k] h by (simp add: unpin_old_def)
  moreover have "unshared n g" using unshared_hdel [OF Cons.prems(2), of k] h by simp
  ultimately show ?case using Cons.IH h p by simp
qed

lemma secret_clear_empties:
  "pin_inv grant st \<Longrightarrow> s_inner (secret_clear st) = hempty \<and> s_pinned (secret_clear st) = []"
  by (auto simp: secret_clear_def pin_inv_def intro: unpin_all)

lemma pin_inv_clear: "pin_inv grant st \<Longrightarrow> pin_inv grant (secret_clear st)"
  using secret_clear_empties [of grant st] by (simp add: pin_inv_def unshared_def pins_match_def)

interpretation secrets: step_invariant "secret_step grant" "pin_inv grant" for grant
proof unfold_locales
  show "pin_inv grant (secret_step grant c st)" if "pin_inv grant st" for c st
    using that by (cases c) (simp_all add: pin_inv_put pin_inv_drop pin_inv_take pin_inv_clear pin_inv_rename)
qed

section \<open>Properties\<close>

text \<open>
  Page locks balance: after any sequence of puts, drops, takes, renames and clears the locked
  addresses are exactly those of the non-empty buffers now stored that the system agreed to lock,
  each once, and ids never share a buffer.  In particular no lock outlives its buffer, and a clear
  leaves nothing stored and nothing locked.
\<close>

theorem page_locks_balance:
  "pin_inv grant (fold (secret_step grant) calls store_new) \<and>
   s_inner (secret_clear (fold (secret_step grant) calls store_new)) = hempty \<and>
   s_pinned (secret_clear (fold (secret_step grant) calls store_new)) = []"
  using secrets.inv_run [OF pin_inv_new, of grant calls] secret_clear_empties by blast

text \<open>
  Renaming promotes a secret atomically: if the source exists, the target afterwards holds the
  source's bytes, the source is gone and every other id is untouched;
  if it does not exist, nothing changes and the call says so.
\<close>

theorem rename_moves:
  assumes "frm \<noteq> to"
  shows "secret_rename frm to st = (False, st) \<and> secret_get frm st = None \<or>
    fst (secret_rename frm to st) \<and>
    secret_get to (snd (secret_rename frm to st)) = secret_get frm st \<and> secret_get frm st \<noteq> None \<and>
    secret_get frm (snd (secret_rename frm to st)) = None \<and>
    (\<forall>k. k \<noteq> frm \<and> k \<noteq> to \<longrightarrow> secret_get k (snd (secret_rename frm to st)) = secret_get k st)"
  using assms by (cases "hget (s_inner st) frm") (auto simp: secret_rename_def secret_get_def Let_def)

theorem rename_moves_witness:
  "secret_get ''b'' (snd (secret_rename ''a'' ''b'' (secret_put (\<lambda>a. True) ''a'' [1, 2] store_new))) = Some [1, 2]"
  using rename_moves [of "''a''" "''b''" "secret_put (\<lambda>a. True) ''a'' [1, 2] store_new"]
  by (auto simp: secret_get_def secret_put_def store_new_def Let_def)

end
