(* ===== verification/Autolock.thy ===== *)
theory Autolock
  imports Secret_Store
begin

text \<open>
  The auto-lock machine, \<open>autolock.rs\<close>, with the side effect \<open>app.rs\<close> registers for it: a lock
  clears the secret store and closes the database.

  A handler that locks sets the flag inside its critical section and calls \<open>fire_lock\<close> after
  releasing the mutex, and the ticker decides and commits in two critical sections.  Both gaps
  are kept: \<open>Fire\<close> and \<open>TickCommit\<close> are steps of their own, so that runs interleave them with
  every other call.  \<open>owed\<close> counts the \<open>fire_lock\<close> calls that are still to run.
\<close>

section \<open>Definitions\<close>

datatype LifecycleState = Foreground | Background

datatype lock_event = AutoLockLocked | AutoLockUnlocked | AutoLockTimeoutChanged int

record State =
  last_activity_ms :: int
  lock_after_ms :: int
  lifecycle :: LifecycleState
  locked :: bool

definition autolock_new :: "int \<Rightarrow> State" where
  "autolock_new now = \<lparr> last_activity_ms = now, lock_after_ms = 0, lifecycle = Foreground, locked = False \<rparr>"

definition on_pointer_activity :: "int \<Rightarrow> State \<Rightarrow> State" where
  "on_pointer_activity now s = s\<lparr> last_activity_ms := now \<rparr>"

text \<open>The boolean of the next three says that the handler goes on to call \<open>fire_lock\<close>.\<close>

definition on_lifecycle_change :: "LifecycleState \<Rightarrow> int \<Rightarrow> State \<Rightarrow> bool \<times> State" where
  "on_lifecycle_change st now s =
     (let was = lifecycle s;
          s1 = s\<lparr> lifecycle := st \<rparr>
      in if st = Background \<and> lock_after_ms s1 > 0 \<and> \<not> locked s1
         then (True, s1\<lparr> locked := True \<rparr>)
         else if st \<noteq> was then (False, s1\<lparr> last_activity_ms := now \<rparr>)
         else (False, s1))"

definition request_lock :: "State \<Rightarrow> bool \<times> State" where
  "request_lock s = (if locked s then (False, s) else (True, s\<lparr> locked := True \<rparr>))"

definition tick_commit :: "State \<Rightarrow> bool \<times> State" where
  "tick_commit s = (if locked s then (False, s) else (True, s\<lparr> locked := True \<rparr>))"

definition set_timeout_minutes :: "int \<Rightarrow> int \<Rightarrow> State \<Rightarrow> State \<times> lock_event list" where
  "set_timeout_minutes minutes now s =
     (s\<lparr> lock_after_ms := max minutes 0 * 60000, last_activity_ms := now \<rparr>,
      [AutoLockTimeoutChanged (max minutes 0)])"

definition unlock :: "int \<Rightarrow> State \<Rightarrow> State \<times> lock_event list" where
  "unlock now s =
     (if \<not> locked s then (s, [])
      else (s\<lparr> locked := False, last_activity_ms := now \<rparr>, [AutoLockUnlocked]))"

definition should_lock :: "int \<Rightarrow> State \<Rightarrow> bool" where
  "should_lock now s \<longleftrightarrow>
     \<not> locked s \<and> lock_after_ms s > 0 \<and> now - last_activity_ms s \<ge> lock_after_ms s"

text \<open>The application state the lock action works on, and the action \<open>app::init\<close> registers.\<close>

record AppState =
  app_secrets :: SecretStore
  app_db_open :: bool

definition db_close :: "AppState \<Rightarrow> AppState" where
  "db_close app = app\<lparr> app_db_open := False \<rparr>"

definition lock_action :: "AppState \<Rightarrow> AppState" where
  "lock_action app = db_close (app\<lparr> app_secrets := secret_clear (app_secrets app) \<rparr>)"

definition fire_lock :: "('app \<Rightarrow> 'app) option \<Rightarrow> 'app \<Rightarrow> 'app \<times> lock_event list" where
  "fire_lock action app = ((case action of Some f \<Rightarrow> f app | None \<Rightarrow> app), [AutoLockLocked])"

record lock_world =
  lw_state :: State
  lw_app :: AppState
  lw_bus :: "lock_event list"
  lw_owed :: nat
  lw_due :: bool

datatype lock_call =
    PointerActivity int
  | LifecycleChange LifecycleState int
  | SetTimeout int int
  | RequestLock
  | Unlock int
  | TickCheck int
  | TickCommit
  | Fire
  | AppWork "AppState \<Rightarrow> AppState"

definition owe :: "bool \<times> State \<Rightarrow> lock_world \<Rightarrow> lock_world" where
  "owe r w = w\<lparr> lw_state := snd r, lw_owed := (if fst r then Suc (lw_owed w) else lw_owed w) \<rparr>"

text \<open>\<open>AppWork\<close> stands for what the rest of the program does to the application state meanwhile.\<close>

fun lock_step :: "lock_call \<Rightarrow> lock_world \<Rightarrow> lock_world" where
  "lock_step (PointerActivity now) w = w\<lparr> lw_state := on_pointer_activity now (lw_state w) \<rparr>"
| "lock_step (LifecycleChange st now) w = owe (on_lifecycle_change st now (lw_state w)) w"
| "lock_step (SetTimeout minutes now) w =
     w\<lparr> lw_state := fst (set_timeout_minutes minutes now (lw_state w)),
        lw_bus := lw_bus w @ snd (set_timeout_minutes minutes now (lw_state w)) \<rparr>"
| "lock_step RequestLock w = owe (request_lock (lw_state w)) w"
| "lock_step (Unlock now) w =
     w\<lparr> lw_state := fst (unlock now (lw_state w)), lw_bus := lw_bus w @ snd (unlock now (lw_state w)) \<rparr>"
| "lock_step (TickCheck now) w = w\<lparr> lw_due := should_lock now (lw_state w) \<rparr>"
| "lock_step TickCommit w =
     (if lw_due w then (owe (tick_commit (lw_state w)) w)\<lparr> lw_due := False \<rparr> else w)"
| "lock_step Fire w =
     (if lw_owed w = 0 then w
      else w\<lparr> lw_owed := lw_owed w - 1, lw_app := fst (fire_lock (Some lock_action) (lw_app w)),
              lw_bus := lw_bus w @ snd (fire_lock (Some lock_action) (lw_app w)) \<rparr>)"
| "lock_step (AppWork f) w = w\<lparr> lw_app := f (lw_app w) \<rparr>"

definition lock_world_new :: "int \<Rightarrow> AppState \<Rightarrow> lock_world" where
  "lock_world_new now app =
     \<lparr> lw_state = autolock_new now, lw_app = app, lw_bus = [], lw_owed = 0, lw_due = False \<rparr>"

section \<open>Locks and unlocks balance\<close>

definition lock_balance :: "lock_world \<Rightarrow> bool" where
  "lock_balance w \<longleftrightarrow>
     count_list (lw_bus w) AutoLockLocked + lw_owed w =
     count_list (lw_bus w) AutoLockUnlocked + (if locked (lw_state w) then 1 else 0)"

lemmas lock_defs = owe_def on_lifecycle_change_def request_lock_def tick_commit_def unlock_def
  set_timeout_minutes_def on_pointer_activity_def fire_lock_def Let_def

lemma lock_balance_step: "lock_balance w \<Longrightarrow> lock_balance (lock_step c w)"
  by (cases c) (auto simp: lock_balance_def lock_defs)

interpretation autolock: step_invariant lock_step lock_balance
  by unfold_locales (rule lock_balance_step)

text \<open>Without a timeout and without a request nothing locks.\<close>

definition never_locked :: "lock_world \<Rightarrow> bool" where
  "never_locked w \<longleftrightarrow>
     lock_after_ms (lw_state w) = 0 \<and> \<not> locked (lw_state w) \<and> lw_owed w = 0 \<and> \<not> lw_due w \<and>
     AutoLockLocked \<notin> set (lw_bus w)"

definition harmless :: "lock_call \<Rightarrow> bool" where
  "harmless c \<longleftrightarrow> (case c of RequestLock \<Rightarrow> False | SetTimeout m now \<Rightarrow> m \<le> 0 | _ \<Rightarrow> True)"

lemma never_locked_step: "never_locked w \<Longrightarrow> harmless c \<Longrightarrow> never_locked (lock_step c w)"
  by (cases c) (auto simp: never_locked_def harmless_def lock_defs should_lock_def max_def)

lemma never_locked_run:
  "never_locked w \<Longrightarrow> \<forall>c \<in> set cs. harmless c \<Longrightarrow> never_locked (fold lock_step cs w)"
  by (induction cs arbitrary: w) (auto simp: never_locked_step)

section \<open>Properties\<close>

text \<open>
  Under every interleaving of activity, lifecycle changes, timeout changes, lock requests,
  unlocks, ticker phases, lock actions and other work, the published lock events and the ones still
  owed exceed the unlock events by one exactly while the machine is locked: no lock or unlock is
  lost or reported twice.
\<close>

theorem lock_events_balance:
  "lock_balance (fold lock_step calls (lock_world_new now app))"
  by (rule autolock.inv_run) (simp add: lock_balance_def lock_world_new_def autolock_new_def)

text \<open>
  Leaving the app or staying idle locks and wipes: with a positive timeout, in an unlocked
  machine, both moving to the background and a ticker round at or after the deadline, each followed
  by the lock action, end locked with the database closed, the store empty, no page locked, and a
  lock event published last; before the deadline a ticker round changes nothing.
\<close>

theorem idle_or_background_locks:
  assumes "lock_after_ms (lw_state w) > 0" "\<not> locked (lw_state w)" "pin_inv grant (app_secrets (lw_app w))"
    and "lw_owed w = 0"
    and "calls = (if bg then [LifecycleChange Background now, Fire] else [TickCheck now, TickCommit, Fire])"
  shows "if bg \<or> last_activity_ms (lw_state w) + lock_after_ms (lw_state w) \<le> now
    then (let w' = fold lock_step calls w
          in locked (lw_state w') \<and> \<not> app_db_open (lw_app w') \<and>
             s_inner (app_secrets (lw_app w')) = hempty \<and> s_pinned (app_secrets (lw_app w')) = [] \<and>
             lw_bus w' = lw_bus w @ [AutoLockLocked])
    else fold lock_step calls w = w\<lparr> lw_due := False \<rparr>"
  using assms secret_clear_empties [OF assms(3)]
  by (auto simp: lock_defs should_lock_def lock_action_def db_close_def)

theorem idle_or_background_locks_witness:
  "let w = (lock_world_new 0 \<lparr> app_secrets = store_new, app_db_open = True \<rparr>)
             \<lparr> lw_state := \<lparr> last_activity_ms = 0, lock_after_ms = 60000, lifecycle = Foreground, locked = False \<rparr> \<rparr>
   in \<not> app_db_open (lw_app (fold lock_step [TickCheck 60000, TickCommit, Fire] w))"
  using idle_or_background_locks [of "(lock_world_new 0 \<lparr> app_secrets = store_new, app_db_open = True \<rparr>)
      \<lparr> lw_state := \<lparr> last_activity_ms = 0, lock_after_ms = 60000, lifecycle = Foreground, locked = False \<rparr> \<rparr>"
      "\<lambda>a. True" "[TickCheck 60000, TickCommit, Fire]" False 60000]
    pin_inv_new [of "\<lambda>a. True"]
  by (simp add: lock_world_new_def Let_def del: lock_step.simps fold_simps)

text \<open>
  With the timeout off nobody is locked out: as long as no lock is requested and no positive
  timeout is set, no run of any length locks the machine or publishes a lock event.
\<close>

theorem timeout_off_never_locks:
  assumes "\<forall>c \<in> set calls. harmless c"
  shows "never_locked (fold lock_step calls (lock_world_new now app))"
  using assms by (intro never_locked_run) (simp_all add: never_locked_def lock_world_new_def autolock_new_def)

theorem timeout_off_never_locks_witness:
  "never_locked (fold lock_step [SetTimeout (- 1) 0, LifecycleChange Background 5, TickCheck 99999, TickCommit]
     (lock_world_new 0 \<lparr> app_secrets = store_new, app_db_open = True \<rparr>))"
  by (rule timeout_off_never_locks) (simp add: harmless_def)

end
