(* ===== verification/Keychain_Gate.thy ===== *)
theory Keychain_Gate
  imports Interfaces External
begin

text \<open>
  The password gate of the keychain tier, \<open>security/keychain_password_gate.rs\<close>: the comparison
  HMAC and the JSON envelope on disk, with every error of the decoder as a value.
\<close>

section \<open>Definitions\<close>

definition compute_gate_hmac :: "crypto_lib \<Rightarrow> bytes \<Rightarrow> bytes \<Rightarrow> bytes \<Rightarrow> bytes" where
  "compute_gate_hmac C pepper salt password = hmac_sha256 C pepper (salt @ password)"

definition DISK_BLOB_VERSION :: nat where
  "DISK_BLOB_VERSION = 1"

definition encode_disk_blob :: "b64_lib \<Rightarrow> bytes \<Rightarrow> bytes \<Rightarrow> string" where
  "encode_disk_blob B salt hmac =
     ''{'' @ [CHR 0x22] @ ''v'' @ [CHR 0x22] @ '':'' @ dec DISK_BLOB_VERSION @
     '','' @ [CHR 0x22] @ ''salt'' @ [CHR 0x22] @ '':'' @ [CHR 0x22] @ b64_encode B salt @ [CHR 0x22] @
     '','' @ [CHR 0x22] @ ''hmac'' @ [CHR 0x22] @ '':'' @ [CHR 0x22] @ b64_encode B hmac @ [CHR 0x22] @ ''}''"

record DiskBlob =
  blob_salt :: bytes
  blob_hmac :: bytes

datatype blob_error =
    ParseJson | NotAnObject | UnsupportedVersion int | MissingSalt | MissingHmac
  | SaltDecode | HmacDecode | EmptySaltOrHmac

definition decode_disk_blob :: "json_lib \<Rightarrow> b64_lib \<Rightarrow> string \<Rightarrow> blob_error + DiskBlob" where
  "decode_disk_blob J B blob =
     (case json_parse J blob of None \<Rightarrow> Inl ParseJson | Some v \<Rightarrow>
      case as_object v of None \<Rightarrow> Inl NotAnObject | Some obj \<Rightarrow>
      case (case field as_u64 ''v'' obj of
              Some v \<Rightarrow> if v \<noteq> int DISK_BLOB_VERSION then Some v else None
            | None \<Rightarrow> None) of Some v \<Rightarrow> Inl (UnsupportedVersion v) | None \<Rightarrow>
      case field as_str ''salt'' obj of None \<Rightarrow> Inl MissingSalt | Some salt_b64 \<Rightarrow>
      case field as_str ''hmac'' obj of None \<Rightarrow> Inl MissingHmac | Some hmac_b64 \<Rightarrow>
      case b64_decode B salt_b64 of None \<Rightarrow> Inl SaltDecode | Some salt \<Rightarrow>
      case b64_decode B hmac_b64 of None \<Rightarrow> Inl HmacDecode | Some hmac \<Rightarrow>
        if salt = [] \<or> hmac = [] then Inl EmptySaltOrHmac
        else Inr \<lparr> blob_salt = salt, blob_hmac = hmac \<rparr>)"

section \<open>Properties\<close>

text \<open>The value the hand-written envelope denotes.\<close>

definition blob_json :: "b64_lib \<Rightarrow> bytes \<Rightarrow> bytes \<Rightarrow> json" where
  "blob_json B salt hmac =
     JObj [(''v'', JInt 1), (''salt'', JStr (b64_encode B salt)), (''hmac'', JStr (b64_encode B hmac))]"

lemma decode_blob_json:
  "json_parse J text = Some (blob_json B salt hmac) \<Longrightarrow> b64_ok B \<Longrightarrow>
     decode_disk_blob J B text =
       (if salt = [] \<or> hmac = [] then Inl EmptySaltOrHmac else Inr \<lparr> blob_salt = salt, blob_hmac = hmac \<rparr>)"
  by (simp add: decode_disk_blob_def blob_json_def json_access DISK_BLOB_VERSION_def)

text \<open>
  The gate accepts the password it was set with: with a parser that reads the envelope as the
  JSON object it spells, what was written for a non-empty salt and tag is read back, and the stored
  tag equals the one recomputed from the stored salt and the same pepper and password.
\<close>

theorem gate_round_trip:
  assumes "b64_ok B" and "salt \<noteq> []" and "hmac_sha256 C pepper (salt @ password) \<noteq> []"
    and "text = encode_disk_blob B salt (compute_gate_hmac C pepper salt password)"
    and "json_parse J text = Some (blob_json B salt (compute_gate_hmac C pepper salt password))"
  shows "\<exists>blob. decode_disk_blob J B text = Inr blob \<and>
    constant_time_eq (blob_hmac blob) (compute_gate_hmac C pepper (blob_salt blob) password)"
  using decode_blob_json [OF assms(5,1)] assms(2,3) by (simp add: compute_gate_hmac_def)

theorem gate_round_trip_witness:
  "let salt = [1, 2]; text = encode_disk_blob b64_ref salt (compute_gate_hmac crypto_ref [9] salt [5]);
       J = \<lparr> json_parse = (\<lambda>s. if s = text then Some (blob_json b64_ref salt
                (compute_gate_hmac crypto_ref [9] salt [5])) else None), json_print = (\<lambda>v. text) \<rparr>
   in \<exists>blob. decode_disk_blob J b64_ref text = Inr blob"
  using gate_round_trip [of b64_ref "[1, 2]" crypto_ref "[9]" "[5]"
      "encode_disk_blob b64_ref [1, 2] (compute_gate_hmac crypto_ref [9] [1, 2] [5])"
      "\<lparr> json_parse = (\<lambda>s. if s = encode_disk_blob b64_ref [1, 2] (compute_gate_hmac crypto_ref [9] [1, 2] [5])
            then Some (blob_json b64_ref [1, 2] (compute_gate_hmac crypto_ref [9] [1, 2] [5])) else None),
         json_print = (\<lambda>v. encode_disk_blob b64_ref [1, 2] (compute_gate_hmac crypto_ref [9] [1, 2] [5])) \<rparr>"]
  by (auto simp: Let_def crypto_ref_def)

text \<open>
  The version check only sees unsigned integers: an envelope whose version is missing, a string,
  negative or fractional is read like a legacy one, while every unsigned version other than 1 is
  refused with an error that names it.
\<close>

theorem gate_version_check:
  assumes "json_parse J blob = Some (JObj obj)"
  shows "(\<exists>v. decode_disk_blob J B blob = Inl (UnsupportedVersion v)) \<longleftrightarrow>
    (\<exists>v. map_of obj ''v'' = Some (JInt v) \<and> 0 \<le> v \<and> v < 2 ^ 64 \<and> v \<noteq> 1)"
proof -
  have r: "(case as_object (JObj obj) of None \<Rightarrow> x | Some m \<Rightarrow> f m) = f obj" for x :: "blob_error + DiskBlob" and f
    by (simp add: as_object_def)
  have a: "decode_disk_blob J B blob \<noteq> Inl (UnsupportedVersion v)"
    if "(case field as_u64 ''v'' obj of Some v \<Rightarrow> if v \<noteq> int DISK_BLOB_VERSION then Some v else None | None \<Rightarrow> None) = None" for v
    unfolding decode_disk_blob_def assms option.case r that by (simp split: option.splits)
  have b: "decode_disk_blob J B blob = Inl (UnsupportedVersion v)"
    if "(case field as_u64 ''v'' obj of Some v \<Rightarrow> if v \<noteq> int DISK_BLOB_VERSION then Some v else None | None \<Rightarrow> None) = Some v" for v
    unfolding decode_disk_blob_def assms option.case r that by simp
  have "(\<exists>v. decode_disk_blob J B blob = Inl (UnsupportedVersion v)) \<longleftrightarrow>
      (\<exists>v. field as_u64 ''v'' obj = Some v \<and> v \<noteq> 1)"
  proof (cases "\<exists>u. field as_u64 ''v'' obj = Some u \<and> u \<noteq> 1")
    case True
    then obtain u where "field as_u64 ''v'' obj = Some u" "u \<noteq> 1" by blast
    then show ?thesis using b [of u] by (simp add: DISK_BLOB_VERSION_def)
  next
    case False
    then show ?thesis using a by (cases "field as_u64 ''v'' obj") (simp_all add: DISK_BLOB_VERSION_def)
  qed
  also have "\<dots> \<longleftrightarrow> (\<exists>v. map_of obj ''v'' = Some (JInt v) \<and> 0 \<le> v \<and> v < 2 ^ 64 \<and> v \<noteq> 1)"
    by (cases "map_of obj ''v''") (auto simp: field_def as_u64_def split: json.splits)
  finally show ?thesis .
qed

theorem gate_version_check_witness:
  "\<not> (\<exists>v. decode_disk_blob (json_table [JObj [(''v'', JStr ''2'')]]) b64_ref ''0'' = Inl (UnsupportedVersion v))"
proof -
  have "json_parse (json_table [JObj [(''v'', JStr ''2'')]]) ''0'' = Some (JObj [(''v'', JStr ''2'')])"
    by (simp add: json_table_def parse_digits_def digits_val_def is_ascii_digit_def)
  from gate_version_check [OF this] show ?thesis by simp
qed

end
