(* ===== verification/Folder_Path.thy ===== *)
theory Folder_Path
  imports Interfaces
begin

text \<open>
  Folder paths of \<open>folder_path.rs\<close>: the walk up the parent chain with its orphan and cycle
  guards, the reverse lookup, the derived path sets and the cascade of a rename.  The
  \<open>BTreeMap\<close> of rows is the list of its entries in key order.
\<close>

section \<open>Definitions\<close>

record FolderRow =
  row_id :: string
  row_name :: string
  row_parent_id :: "string option"
  row_collapsed :: bool

type_synonym folders = "(string \<times> FolderRow) list"

datatype walk_end = AtRoot | Orphaned | Cycle

text \<open>The loop: how it ended and the names pushed so far.\<close>

function folder_walk :: "folders \<Rightarrow> string list \<Rightarrow> string list \<Rightarrow> string option \<Rightarrow> walk_end \<times> string list" where
  "folder_walk F visited parts current =
     (case current of
        None \<Rightarrow> (AtRoot, parts)
      | Some i \<Rightarrow>
          if i \<in> set visited then (Cycle, parts)
          else (case map_of F i of
                  Some row \<Rightarrow> folder_walk F (i # visited) (parts @ [row_name row]) (row_parent_id row)
                | None \<Rightarrow> (Orphaned, parts)))"
  by pat_completeness auto
termination
proof (relation "measure (\<lambda>(F, visited, parts, current). card (fst ` set F - set visited))", goal_cases)
  case (2 F visited parts current i row)
  have "i \<in> fst ` set F" using 2 by (force dest: map_of_SomeD)
  then have "fst ` set F - set (i # visited) \<subset> fst ` set F - set visited" using 2 by auto
  then show ?case by (simp only: in_measure split_conv) (rule psubset_card_mono, simp_all)
qed simp

declare folder_walk.simps [simp del]

definition build_folder_path :: "string \<Rightarrow> folders \<Rightarrow> string" where
  "build_folder_path fid F =
     (if fid = [] then []
      else case folder_walk F [] [] (Some fid) of
        (AtRoot, parts) \<Rightarrow> join ''/'' (rev parts)
      | (Orphaned, parts) \<Rightarrow> ''(orphaned)/'' @ join ''/'' (rev parts)
      | (Cycle, parts) \<Rightarrow> ''(cycle)/'' @ join ''/'' (rev parts))"

definition find_folder_id_by_path :: "string \<Rightarrow> folders \<Rightarrow> string option" where
  "find_folder_id_by_path path F =
     (if path = [] then None
      else map_option fst (List.find (\<lambda>(i, row). build_folder_path i F = path) F))"

definition all_folder_paths :: "folders \<Rightarrow> string list" where
  "all_folder_paths F = sort_dedup (map (\<lambda>i. build_folder_path i F) (map fst F))"

definition derive_empty_folders :: "folders \<Rightarrow> string set \<Rightarrow> string list" where
  "derive_empty_folders F used =
     sort_dedup (filter (\<lambda>p. p \<noteq> []) (map (\<lambda>row. build_folder_path (row_id row) F)
       (filter (\<lambda>row. row_id row \<notin> used) (map snd F))))"

definition derive_collapsed_folders :: "folders \<Rightarrow> string list" where
  "derive_collapsed_folders F =
     sort_dedup (filter (\<lambda>p. p \<noteq> []) (map (\<lambda>row. build_folder_path (row_id row) F)
       (filter row_collapsed (map snd F))))"

definition rename_path :: "string \<Rightarrow> string \<Rightarrow> string \<Rightarrow> string" where
  "rename_path old_path new_path p =
     (if p = old_path then new_path
      else case strip_prefix (old_path @ ''/'') p of
             Some suffix \<Rightarrow> new_path @ ''/'' @ suffix
           | None \<Rightarrow> p)"

definition rename_paths_cascade :: "string list \<Rightarrow> string \<Rightarrow> string \<Rightarrow> string list" where
  "rename_paths_cascade paths old_path new_path =
     (if old_path = [] \<or> new_path = [] \<or> old_path = new_path then sort_dedup paths
      else sort_dedup (map (rename_path old_path new_path) paths))"

section \<open>Parent chains\<close>

text \<open>
  The chain of rows above an id: it ends at a row without parent or at an id without row.  An id
  on a cycle, or below one, has no chain.
\<close>

inductive folder_chain :: "folders \<Rightarrow> string option \<Rightarrow> (string \<times> string) list \<Rightarrow> walk_end \<Rightarrow> bool" for F where
  root: "folder_chain F None [] AtRoot"
| orphan: "map_of F i = None \<Longrightarrow> folder_chain F (Some i) [] Orphaned"
| up: "map_of F i = Some row \<Longrightarrow> folder_chain F (row_parent_id row) c e \<Longrightarrow>
       folder_chain F (Some i) ((i, row_name row) # c) e"

inductive_cases folder_chain_None: "folder_chain F None c e"
inductive_cases folder_chain_Some: "folder_chain F (Some i) c e"

lemma folder_chain_unique: "folder_chain F x c e \<Longrightarrow> folder_chain F x c' e' \<Longrightarrow> c = c' \<and> e = e'"
proof (induction arbitrary: c' e' rule: folder_chain.induct)
  case root
  then show ?case by (auto elim: folder_chain_None)
next
  case (orphan i)
  from orphan(2) show ?case by (rule folder_chain_Some) (use orphan(1) in auto)
next
  case (up i row c e)
  from up.prems obtain c'' where "c' = (i, row_name row) # c''" "folder_chain F (row_parent_id row) c'' e'"
    by (rule folder_chain_Some) (use up.hyps(1) in auto)
  with up.IH show ?case by simp
qed

lemma folder_chain_tail:
  "folder_chain F x c e \<Longrightarrow> i \<in> fst ` set c \<Longrightarrow> \<exists>c'. folder_chain F (Some i) c' e \<and> length c' \<le> length c"
proof (induction rule: folder_chain.induct)
  case (up j row c e)
  show ?case
  proof (cases "i = j")
    case True
    with up show ?thesis
      by (intro exI [of _ "(j, row_name row) # c"]) (auto intro: folder_chain.up)
  next
    case False
    with up show ?thesis by fastforce
  qed
qed auto

lemma folder_chain_distinct:
  assumes "map_of F i = Some row" "folder_chain F (row_parent_id row) c e"
  shows "i \<notin> fst ` set c"
proof
  assume "i \<in> fst ` set c"
  then obtain c' where "folder_chain F (Some i) c' e" "length c' \<le> length c"
    using folder_chain_tail assms(2) by blast
  moreover have "folder_chain F (Some i) ((i, row_name row) # c) e"
    using assms by (rule folder_chain.up)
  ultimately have "c' = (i, row_name row) # c" using folder_chain_unique by blast
  with \<open>length c' \<le> length c\<close> show False by simp
qed

text \<open>The loop follows the chain, if there is one.\<close>

lemma folder_walk_chain:
  "folder_chain F x c e \<Longrightarrow> set visited \<inter> fst ` set c = {} \<Longrightarrow> \<forall>v \<in> set visited. map_of F v \<noteq> None \<Longrightarrow>
     folder_walk F visited parts x = (e, parts @ map snd c)"
proof (induction arbitrary: visited parts rule: folder_chain.induct)
  case (up i row c e)
  have "i \<notin> fst ` set c" using up.hyps by (rule folder_chain_distinct)
  then have "set (i # visited) \<inter> fst ` set c = {}" using up.prems by auto
  then have "folder_walk F (i # visited) (parts @ [row_name row]) (row_parent_id row) =
      (e, (parts @ [row_name row]) @ map snd c)"
    using up.prems up.hyps(1) by (intro up.IH) auto
  then show ?case using up.prems up.hyps(1) by (simp add: folder_walk.simps [of F visited parts "Some i"])
qed (auto simp: folder_walk.simps)

text \<open>If the loop does not report a cycle, there is a chain.\<close>

lemma folder_walk_sound:
  "fst (folder_walk F visited parts x) \<noteq> Cycle \<Longrightarrow> \<exists>c e. folder_chain F x c e"
proof (induction F visited parts x rule: folder_walk.induct)
  case (1 F visited parts x)
  show ?case
  proof (cases x)
    case None
    then show ?thesis by (auto intro: folder_chain.root)
  next
    case (Some i)
    then have nv: "i \<notin> set visited" using "1.prems" by (auto simp: folder_walk.simps [of F visited parts "Some i"])
    show ?thesis
    proof (cases "map_of F i")
      case None
      with Some show ?thesis by (auto intro: folder_chain.orphan)
    next
      case row: (Some row)
      have "fst (folder_walk F (i # visited) (parts @ [row_name row]) (row_parent_id row)) \<noteq> Cycle"
        using "1.prems" Some nv row by (simp add: folder_walk.simps [of F visited parts "Some i"])
      from "1.IH" [OF Some nv row this] Some row show ?thesis by (auto intro: folder_chain.up)
    qed
  qed
qed

lemma rename_path_inverse:
  assumes "old \<noteq> new" "p \<noteq> new" "\<not> starts_with (new @ ''/'') p"
  shows "rename_path new old (rename_path old new p) = p"
proof (cases "p = old")
  case True
  then show ?thesis by (simp add: rename_path_def)
next
  case False
  show ?thesis
  proof (cases "strip_prefix (old @ ''/'') p")
    case None
    moreover have "strip_prefix (new @ ''/'') p = None" using assms(3) by (simp add: starts_with_def del: not_None_eq)
    ultimately show ?thesis using False assms by (simp add: rename_path_def)
  next
    case (Some suffix)
    then have "strip_prefix (new @ ''/'') (new @ ''/'' @ suffix) = Some suffix" by simp
    with Some False show ?thesis by (simp add: rename_path_def del: strip_prefix_eq_Some) simp
  qed
qed

lemma sort_dedup_unique: "set xs = set ys \<Longrightarrow> sort_dedup xs = sort_dedup ys"
  by (rule sorted_distinct_set_unique) simp_all

section \<open>Properties\<close>

text \<open>
  The path of a folder is total and says what the parent chain is: with a chain that reaches a
  root row it is the names from the root down joined by slashes; if the chain reaches an id with no
  row it is marked orphaned and keeps the names found; and exactly if there is no chain, because the
  parents run in a circle, it is marked as a cycle.  The walk ends on every table.
\<close>

theorem folder_path_classifies:
  assumes "fid \<noteq> []"
  shows "(\<forall>c. folder_chain F (Some fid) c AtRoot \<longrightarrow>
            build_folder_path fid F = join ''/'' (rev (map snd c))) \<and>
         (\<forall>c. folder_chain F (Some fid) c Orphaned \<longrightarrow>
            build_folder_path fid F = ''(orphaned)/'' @ join ''/'' (rev (map snd c))) \<and>
         ((\<nexists>c e. folder_chain F (Some fid) c e) \<longrightarrow>
            starts_with ''(cycle)/'' (build_folder_path fid F))"
proof -
  have walk: "folder_walk F [] [] (Some fid) = (e, map snd c)" if "folder_chain F (Some fid) c e" for c e
    using folder_walk_chain [OF that, of "[]" "[]"] by simp
  have "fst (folder_walk F [] [] (Some fid)) = Cycle" if "\<nexists>c e. folder_chain F (Some fid) c e"
    using folder_walk_sound that by blast
  with walk assms show ?thesis
    by (auto simp: build_folder_path_def starts_with_iff split: prod.splits)
qed

theorem folder_path_classifies_witness:
  "build_folder_path ''2'' [(''1'', \<lparr> row_id = ''1'', row_name = ''Prod'', row_parent_id = None, row_collapsed = False \<rparr>),
     (''2'', \<lparr> row_id = ''2'', row_name = ''EU'', row_parent_id = Some ''1'', row_collapsed = False \<rparr>)] = ''Prod/EU''"
proof -
  let ?F = "[(''1'', \<lparr> row_id = ''1'', row_name = ''Prod'', row_parent_id = None, row_collapsed = False \<rparr>),
     (''2'', \<lparr> row_id = ''2'', row_name = ''EU'', row_parent_id = Some ''1'', row_collapsed = False \<rparr>)]"
  have 1: "folder_chain ?F (Some ''1'') [(''1'', ''Prod'')] AtRoot"
    using folder_chain.up [of ?F "''1''" "\<lparr> row_id = ''1'', row_name = ''Prod'', row_parent_id = None,
        row_collapsed = False \<rparr>" "[]" AtRoot] folder_chain.root by simp
  have 2: "folder_chain ?F (Some ''2'') [(''2'', ''EU''), (''1'', ''Prod'')] AtRoot"
    using folder_chain.up [of ?F "''2''" "\<lparr> row_id = ''2'', row_name = ''EU'', row_parent_id = Some ''1'',
        row_collapsed = False \<rparr>" "[(''1'', ''Prod'')]" AtRoot] 1 by simp
  show ?thesis using folder_path_classifies [of "''2''" ?F] 2 by auto
qed

text \<open>
  The reverse lookup agrees with the paths: a returned id is a row of the table whose path is the
  one asked for, and no result means that the path is empty or no row has it.
\<close>

theorem find_folder_sound_complete:
  "case find_folder_id_by_path path F of
     Some i \<Rightarrow> i \<in> fst ` set F \<and> build_folder_path i F = path
   | None \<Rightarrow> path \<notin> set (all_folder_paths F) - {[]}"
proof (cases "path = []")
  case False
  show ?thesis
  proof (cases "List.find (\<lambda>(i, row). build_folder_path i F = path) F")
    case None
    then have "path \<notin> set (all_folder_paths F)" by (auto simp: all_folder_paths_def find_None_iff)
    with None show ?thesis by (simp add: find_folder_id_by_path_def)
  next
    case (Some p)
    then have "p \<in> set F" "build_folder_path (fst p) F = path"
      by (auto simp: find_Some_iff split_beta)
    with False Some show ?thesis by (simp add: find_folder_id_by_path_def)
  qed
qed (simp add: find_folder_id_by_path_def)

text \<open>
  A rename cascade can be undone: if no path of the set is the new path or lies below it,
  renaming old to new and back yields the original set, sorted and without duplicates.
\<close>

theorem rename_cascade_inverse:
  assumes "old \<noteq> []" "new \<noteq> []"
    and "\<forall>p \<in> set paths. p \<noteq> new \<and> \<not> starts_with (new @ ''/'') p"
  shows "rename_paths_cascade (rename_paths_cascade paths old new) new old = sort_dedup paths"
proof (cases "old = new")
  case True
  then show ?thesis by (auto simp: rename_paths_cascade_def intro: sort_dedup_unique)
next
  case False
  have "rename_path new old ` rename_path old new ` set paths = set paths"
    using assms(3) False rename_path_inverse by (force simp: image_image)
  then show ?thesis
    using False assms(1,2) by (auto simp: rename_paths_cascade_def intro!: sort_dedup_unique)
qed

theorem rename_cascade_inverse_witness:
  "rename_paths_cascade (rename_paths_cascade [''a/x'', ''a'', ''ab''] ''a'' ''c'') ''c'' ''a'' =
     sort_dedup [''a/x'', ''a'', ''ab'']"
  by (rule rename_cascade_inverse) (auto simp: starts_with_iff)

end
