(* ===== verification/Session_Tree.thy ===== *)
theory Session_Tree
  imports Interfaces "HOL-Library.Multiset" "HOL-Library.Product_Lexorder"
begin

text \<open>
  The sidebar tree of \<open>session_tree.rs\<close>: folders are created along a path, sessions appended to
  the deepest folder, then every level is sorted and the counts are filled in.  Unicode lower-casing
  is the parameter \<open>lower\<close>.  The mutable handle \<open>ensure_folder_path\<close> returns is modelled by
  passing the update that the caller applies through it.
\<close>

section \<open>Definitions\<close>

record TreeSession =
  ts_id :: string
  ts_label :: string
  ts_folder :: string
  ts_display_name :: string

datatype TreeNode = TreeNode (name: string) (full_path: string) (session_id: "string option")
  (session_count: nat) (children: "TreeNode list")

definition is_folder :: "TreeNode \<Rightarrow> bool" where
  "is_folder n \<longleftrightarrow> session_id n = None"

definition set_children :: "TreeNode list \<Rightarrow> TreeNode \<Rightarrow> TreeNode" where
  "set_children cs n = TreeNode (name n) (full_path n) (session_id n) (session_count n) cs"

fun ensure_parts :: "string list \<Rightarrow> string \<Rightarrow> (TreeNode list \<Rightarrow> TreeNode list) \<Rightarrow> TreeNode list \<Rightarrow> TreeNode list" where
  "ensure_parts [] current_path f current = f current"
| "ensure_parts (part # parts) current_path f current =
     (let path = (if current_path \<noteq> [] then current_path @ ''/'' else current_path) @ part
      in case find_idx (\<lambda>n. is_folder n \<and> name n = part) current of
           Some i \<Rightarrow> current[i := set_children (ensure_parts parts path f (children (current ! i))) (current ! i)]
         | None \<Rightarrow> current @ [TreeNode part path None 0 (ensure_parts parts path f [])])"

definition ensure_folder_path :: "string \<Rightarrow> (TreeNode list \<Rightarrow> TreeNode list) \<Rightarrow> TreeNode list \<Rightarrow> TreeNode list" where
  "ensure_folder_path folder_path f root = ensure_parts (split_on (CHR ''/'') folder_path) [] f root"

definition insert_session :: "TreeSession \<Rightarrow> TreeNode list \<Rightarrow> TreeNode list" where
  "insert_session s root =
     (let nm = (if ts_label s = [] then ts_display_name s else ts_label s)
      in if ts_folder s = []
         then root @ [TreeNode nm (ts_label s) (Some (ts_id s)) 0 []]
         else ensure_folder_path (ts_folder s)
                (\<lambda>parent. parent @ [TreeNode nm (ts_folder s @ ''/'' @ ts_label s) (Some (ts_id s)) 0 []]) root)"

primrec count_sessions :: "TreeNode \<Rightarrow> nat" where
  "count_sessions (TreeNode nm path sid n cs) =
     (if sid \<noteq> None then 1 else sum_list (map count_sessions cs))"

definition node_key :: "(string \<Rightarrow> string) \<Rightarrow> TreeNode \<Rightarrow> bool \<times> string" where
  "node_key lower n = (\<not> is_folder n, lower (name n))"

text \<open>\<open>sort_by\<close> is a stable sort; folders come first, then the lower-cased names decide.\<close>

function sort_node :: "(string \<Rightarrow> string) \<Rightarrow> TreeNode \<Rightarrow> TreeNode" where
  "sort_node lower (TreeNode nm path sid n cs) =
     (if sid = None
      then let cs' = map (sort_node lower) (sort_key (node_key lower) cs)
           in TreeNode nm path sid (count_sessions (TreeNode nm path sid n cs')) cs'
      else TreeNode nm path sid n cs)"
  by pat_completeness auto
termination
proof (relation "measure (\<lambda>(lower, n). size n)", goal_cases)
  case (2 lower nm path sid n cs x)
  then have "x \<in> set cs" by simp
  then have "size x \<le> size_list size cs" by (simp add: size_list_estimation')
  then show ?case by simp
qed simp

definition sort_tree :: "(string \<Rightarrow> string) \<Rightarrow> TreeNode list \<Rightarrow> TreeNode list" where
  "sort_tree lower nodes = map (sort_node lower) (sort_key (node_key lower) nodes)"

definition build :: "(string \<Rightarrow> string) \<Rightarrow> TreeSession list \<Rightarrow> string list \<Rightarrow> TreeNode list" where
  "build lower sessions empty_folders =
     sort_tree lower (fold insert_session sessions
       (fold (\<lambda>p root. ensure_folder_path p (\<lambda>cs. cs) root) empty_folders []))"

section \<open>Where the sessions are\<close>

text \<open>The session leaves of a forest, each with the folder names above it.\<close>

primrec placed :: "TreeNode \<Rightarrow> (string list \<times> string) list" where
  "placed (TreeNode nm path sid n cs) =
     (case sid of Some i \<Rightarrow> [([], i)]
      | None \<Rightarrow> map (\<lambda>(p, i). (nm # p, i)) (concat (map placed cs)))"

definition placements :: "TreeNode list \<Rightarrow> (string list \<times> string) multiset" where
  "placements nodes = (\<Sum>n \<leftarrow> nodes. mset (placed n))"

lemma placements_simps [simp]:
  "placements [] = {#}" "placements (n # ns) = mset (placed n) + placements ns"
  "placements (as @ bs) = placements as + placements bs"
  by (simp_all add: placements_def)

lemma placements_folder:
  "session_id n = None \<Longrightarrow>
     mset (placed n) = image_mset (\<lambda>(p, i). (name n # p, i)) (placements (children n))"
proof (cases n)
  case (TreeNode nm path sid k cs)
  have "mset (concat (map placed cs)) = placements cs"
    by (induction cs) simp_all
  then show "session_id n = None \<Longrightarrow> ?thesis" using TreeNode by (simp add: mset_map [symmetric] del: mset_map)
     (metis mset_map)
qed

lemma placements_update:
  "i < length ns \<Longrightarrow> placements (ns[i := n]) + mset (placed (ns ! i)) = placements ns + mset (placed n)"
  by (induction ns arbitrary: i) (auto simp: nth_Cons' gr0_conv_Suc ac_simps split: nat.splits)

lemma set_children_simps [simp]:
  "name (set_children cs n) = name n" "session_id (set_children cs n) = session_id n"
  "children (set_children cs n) = cs"
  by (simp_all add: set_children_def)

lemma ensure_parts_placements:
  assumes "\<And>ns. placements (f ns) = placements ns + A"
  shows "placements (ensure_parts parts path f ns) = placements ns + image_mset (\<lambda>(p, i). (parts @ p, i)) A"
proof (induction parts arbitrary: path ns)
  case Nil
  then show ?case by (simp add: assms)
next
  case (Cons part parts)
  define path' where "path' = (if path \<noteq> [] then path @ ''/'' else path) @ part"
  have new: "image_mset (\<lambda>(p, i). (part # p, i)) (image_mset (\<lambda>(p, i). (parts @ p, i)) A) =
      image_mset (\<lambda>(p, i). ((part # parts) @ p, i)) A"
    by (simp add: image_mset.compositionality comp_def case_prod_unfold)
  show ?case
  proof (cases "find_idx (\<lambda>n. is_folder n \<and> name n = part) ns")
    case None
    have "mset (placed (TreeNode part path' None 0 (ensure_parts parts path' f []))) =
        image_mset (\<lambda>(p, i). ((part # parts) @ p, i)) A"
      using placements_folder [of "TreeNode part path' None 0 (ensure_parts parts path' f [])"] Cons new by simp
    with None show ?thesis by (simp add: path'_def [symmetric] Let_def del: placed.simps find_idx_None)
  next
    case (Some i)
    let ?n = "ns ! i" and ?X = "ensure_parts parts path' f (children (ns ! i))"
    have i: "i < length ns" "session_id ?n = None" "name ?n = part"
      using Some by (auto simp: find_idx_Some is_folder_def)
    have "mset (placed (set_children ?X ?n)) = mset (placed ?n) + image_mset (\<lambda>(p, i). ((part # parts) @ p, i)) A"
      using placements_folder [of "set_children ?X ?n"] placements_folder [OF i(2)] i new Cons by simp
    with placements_update [OF i(1), of "set_children ?X ?n"]
    have "placements (ns[i := set_children ?X ?n]) + mset (placed ?n) =
        (placements ns + image_mset (\<lambda>(p, i). ((part # parts) @ p, i)) A) + mset (placed ?n)"
      by (simp only: ac_simps)
    then have "placements (ns[i := set_children ?X ?n]) = placements ns + image_mset (\<lambda>(p, i). ((part # parts) @ p, i)) A"
      by (rule add_right_imp_eq)
    with Some show ?thesis by (simp add: path'_def [symmetric] Let_def)
  qed
qed

lemma insert_session_placements:
  "placements (insert_session s ns) =
     placements ns + {# (if ts_folder s = [] then [] else split_on (CHR ''/'') (ts_folder s), ts_id s) #}"
  using ensure_parts_placements [of "\<lambda>parent. parent @ [TreeNode nm (ts_folder s @ ''/'' @ ts_label s) (Some (ts_id s)) 0 []]"
      "{# ([], ts_id s) #}" for nm]
  by (simp add: insert_session_def ensure_folder_path_def Let_def)

lemma fold_insert_placements:
  "placements (fold insert_session ss ns) = placements ns +
     mset (map (\<lambda>s. (if ts_folder s = [] then [] else split_on (CHR ''/'') (ts_folder s), ts_id s)) ss)"
  by (induction ss arbitrary: ns) (simp_all add: insert_session_placements)

lemma fold_ensure_placements:
  "placements (fold (\<lambda>p root. ensure_folder_path p (\<lambda>cs. cs) root) ps ns) = placements ns"
  by (induction ps arbitrary: ns) (simp_all add: ensure_folder_path_def ensure_parts_placements [of _ "{#}"])

section \<open>Sorting keeps every leaf and fills in the counts\<close>

lemma sort_node_simps [simp]:
  "name (sort_node lower n) = name n" "session_id (sort_node lower n) = session_id n"
  by (cases n; simp add: Let_def)+

lemma node_key_sort_node [simp]: "node_key lower (sort_node lower n) = node_key lower n"
  by (simp add: node_key_def is_folder_def)

lemma placements_eq_mset: "placements ns = (\<Sum>n \<in># mset ns. mset (placed n))"
  by (induction ns) simp_all

lemma placements_sort_key [simp]: "placements (sort_key k ns) = placements ns"
  by (simp add: placements_eq_mset)

lemma placements_map_cong:
  "(\<And>n. n \<in> set ns \<Longrightarrow> mset (placed (f n)) = mset (placed n)) \<Longrightarrow> placements (map f ns) = placements ns"
  by (induction ns) simp_all

lemma placed_sort_node: "mset (placed (sort_node lower n)) = mset (placed n)"
proof (induction lower n rule: sort_node.induct)
  case (1 lower nm path sid n cs)
  show ?case
  proof (cases sid)
    case None
    have "placements (map (sort_node lower) (sort_key (node_key lower) cs)) = placements cs"
      using "1" None by (subst placements_map_cong) auto
    then show ?thesis
      using None placements_folder [of "sort_node lower (TreeNode nm path sid n cs)"]
        placements_folder [of "TreeNode nm path sid n cs"]
      by (simp add: Let_def del: placed.simps)
  qed simp
qed

lemma placements_sort_tree: "placements (sort_tree lower ns) = placements ns"
  by (simp add: sort_tree_def placements_map_cong placed_sort_node)

lemma count_sessions_placed: "count_sessions n = length (placed n)"
proof (induction n)
  case (TreeNode nm path sid k cs)
  have "sum_list (map count_sessions cs) = sum_list (map (\<lambda>c. length (placed c)) cs)"
    using TreeNode by (metis (mono_tags, lifting) map_eq_conv)
  then show ?case by (cases sid) (simp_all add: length_concat comp_def)
qed

text \<open>Sorted at every level, and every folder's count is the number of sessions below it.\<close>

primrec node_ok :: "(string \<Rightarrow> string) \<Rightarrow> TreeNode \<Rightarrow> bool" where
  "node_ok lower (TreeNode nm path sid n cs) \<longleftrightarrow>
     sid \<noteq> None \<or>
     n = size (placements cs) \<and> sorted (map (node_key lower) cs) \<and> list_all (node_ok lower) cs"

lemma size_placements: "size (placements ns) = sum_list (map (\<lambda>n. length (placed n)) ns)"
  by (induction ns) simp_all

lemma sorted_keys_sort_node: "sorted (map (node_key lower) (map (sort_node lower) (sort_key (node_key lower) ns)))"
proof -
  have "map (node_key lower) (map (sort_node lower) (sort_key (node_key lower) ns)) =
      map (node_key lower) (sort_key (node_key lower) ns)" by (simp add: comp_def)
  then show ?thesis by (simp only: sorted_sort_key)
qed

lemma node_ok_sort_node: "node_ok lower (sort_node lower n)"
proof (induction lower n rule: sort_node.induct)
  case (1 lower nm path sid n cs)
  show ?case
  proof (cases sid)
    case None
    let ?cs = "map (sort_node lower) (sort_key (node_key lower) cs)"
    have "list_all (node_ok lower) ?cs" using "1" None by (simp add: list_all_iff)
    moreover have "count_sessions (TreeNode nm path None n ?cs) = size (placements ?cs)"
      by (simp add: size_placements comp_def count_sessions_placed length_concat)
    ultimately show ?thesis using None sorted_keys_sort_node
      by (simp add: Let_def del: count_sessions.simps map_map)
  qed simp
qed

section \<open>Folders are never duplicated\<close>

primrec uniq_node :: "TreeNode \<Rightarrow> bool" where
  "uniq_node (TreeNode nm path sid n cs) \<longleftrightarrow>
     distinct (map name (filter is_folder cs)) \<and> list_all uniq_node cs"

definition uniq :: "TreeNode list \<Rightarrow> bool" where
  "uniq ns \<longleftrightarrow> distinct (map name (filter is_folder ns)) \<and> list_all uniq_node ns"

lemma uniq_node_iff: "uniq_node n \<longleftrightarrow> uniq (children n)"
  by (cases n) (simp add: uniq_def)

lemma folder_names_update:
  "i < length ns \<Longrightarrow> name n = name (ns ! i) \<Longrightarrow> is_folder n = is_folder (ns ! i) \<Longrightarrow>
     map name (filter is_folder (ns[i := n])) = map name (filter is_folder ns)"
  by (induction ns arbitrary: i) (auto simp: nth_Cons' gr0_conv_Suc split: nat.splits)

lemma uniq_ensure_parts:
  assumes "\<And>ns. uniq ns \<Longrightarrow> uniq (f ns)"
  shows "uniq ns \<Longrightarrow> uniq (ensure_parts parts path f ns)"
proof (induction parts arbitrary: path ns)
  case Nil
  then show ?case by (simp add: assms)
next
  case (Cons part parts)
  define path' where "path' = (if path \<noteq> [] then path @ ''/'' else path) @ part"
  show ?case
  proof (cases "find_idx (\<lambda>n. is_folder n \<and> name n = part) ns")
    case None
    then have "part \<notin> name ` set (filter is_folder ns)" by auto
    moreover have "uniq (ensure_parts parts path' f [])" by (rule Cons.IH) (simp add: uniq_def)
    ultimately have "uniq (ns @ [TreeNode part path' None 0 (ensure_parts parts path' f [])])"
      using Cons.prems by (simp add: uniq_def is_folder_def)
    with None show ?thesis by (simp add: path'_def [symmetric] Let_def del: find_idx_None)
  next
    case (Some i)
    let ?n = "ns ! i" and ?X = "ensure_parts parts path' f (children (ns ! i))"
    have i: "i < length ns" using Some by (simp add: find_idx_Some)
    have "uniq_node ?n" using Cons.prems i by (simp add: uniq_def list_all_length)
    then have "uniq (children ?n)" by (simp add: uniq_node_iff)
    then have "uniq_node (set_children ?X ?n)" using Cons.IH by (simp add: uniq_node_iff)
    then have "list_all uniq_node (ns[i := set_children ?X ?n])"
      using Cons.prems set_update_subset_insert [of ns i "set_children ?X ?n"]
      by (auto simp: uniq_def list_all_iff)
    moreover have "map name (filter is_folder (ns[i := set_children ?X ?n])) = map name (filter is_folder ns)"
      using i by (intro folder_names_update) (simp_all add: is_folder_def)
    ultimately show ?thesis using Cons.prems Some by (simp add: uniq_def path'_def [symmetric] Let_def)
  qed
qed

lemma uniq_snoc_leaf: "uniq ns \<Longrightarrow> session_id n \<noteq> None \<Longrightarrow> children n = [] \<Longrightarrow> uniq (ns @ [n])"
  by (auto simp: uniq_def is_folder_def uniq_node_iff)

lemma uniq_insert_session: "uniq ns \<Longrightarrow> uniq (insert_session s ns)"
  by (auto simp: insert_session_def ensure_folder_path_def Let_def intro!: uniq_ensure_parts uniq_snoc_leaf)

lemma uniq_before_sort:
  "uniq (fold insert_session ss (fold (\<lambda>p root. ensure_folder_path p (\<lambda>cs. cs) root) ps []))"
proof -
  have "uniq ns \<Longrightarrow> uniq (fold (\<lambda>p root. ensure_folder_path p (\<lambda>cs. cs) root) ps ns)" for ns
    by (induction ps arbitrary: ns) (simp_all add: ensure_folder_path_def uniq_ensure_parts)
  moreover have "uniq ns \<Longrightarrow> uniq (fold insert_session ss ns)" for ns
    by (induction ss arbitrary: ns) (simp_all add: uniq_insert_session)
  ultimately show ?thesis by (simp add: uniq_def)
qed

lemma uniq_sorted:
  assumes "distinct (map name (filter is_folder ns))" "\<And>n. n \<in> set ns \<Longrightarrow> uniq_node (f n)"
    "\<And>n. name (f n) = name n" "\<And>n. session_id (f n) = session_id n"
  shows "uniq (map f (sort_key k ns))"
proof -
  have sel: "is_folder (f n) = is_folder n" for n by (simp add: is_folder_def assms(4))
  have "map name (filter is_folder (map f (sort_key k ns))) = map name (filter is_folder (sort_key k ns))"
    using assms(3) sel by (simp add: filter_map comp_def)
  moreover have "mset (map name (filter is_folder (sort_key k ns))) = mset (map name (filter is_folder ns))"
    by simp
  ultimately have "distinct (map name (filter is_folder (map f (sort_key k ns))))"
    using assms(1) by (metis mset_eq_imp_distinct_iff)
  then show ?thesis using assms(2) by (simp add: uniq_def list_all_iff)
qed

lemma uniq_sort_node: "uniq_node n \<Longrightarrow> uniq_node (sort_node lower n)"
proof (induction lower n rule: sort_node.induct)
  case (1 lower nm path sid n cs)
  show ?case
  proof (cases sid)
    case None
    have "uniq (map (sort_node lower) (sort_key (node_key lower) cs))"
      using "1" None by (intro uniq_sorted) (auto simp: list_all_iff)
    with None show ?thesis by (simp add: Let_def uniq_def del: map_map)
  qed (use "1" in simp)
qed

section \<open>Properties\<close>

text \<open>
  The sidebar shows every session exactly once, in its folder: the leaves of the built forest
  with the folder names above them are, as a multiset, the sessions with the segments of their
  folder path (none for a session without folder), whatever the order of the input, the empty
  folders and the collation.
\<close>

theorem tree_places_sessions:
  "placements (build lower sessions empty_folders) =
     mset (map (\<lambda>s. (if ts_folder s = [] then [] else split_on (CHR ''/'') (ts_folder s), ts_id s)) sessions)"
  by (simp add: build_def placements_sort_tree fold_insert_placements fold_ensure_placements)

text \<open>
  The forest is in display form: at every level folders precede sessions and names ascend in the
  lower-cased order, each folder's count is the number of sessions in its subtree, and no level has
  two folders of the same name.
\<close>

theorem tree_display_form:
  "sorted (map (node_key lower) (build lower sessions empty_folders)) \<and>
   list_all (node_ok lower) (build lower sessions empty_folders) \<and>
   uniq (build lower sessions empty_folders)"
proof -
  let ?ns = "fold insert_session sessions (fold (\<lambda>p root. ensure_folder_path p (\<lambda>cs. cs) root) empty_folders [])"
  have "uniq (map (sort_node lower) (sort_key (node_key lower) ?ns))"
    using uniq_before_sort [of sessions empty_folders]
    by (intro uniq_sorted) (auto simp: uniq_def list_all_iff uniq_sort_node)
  then show ?thesis
    using sorted_keys_sort_node by (simp add: build_def sort_tree_def list_all_iff node_ok_sort_node del: map_map)
qed

end
