(* ===== verification/Session_History.thy ===== *)
theory Session_History
  imports Interfaces
begin

text \<open>
  The undo/redo registry of \<open>session_history.rs\<close>: handles are 64-bit counters that wrap, each
  handle owns an undo and a redo stack (last element on top).
\<close>

section \<open>Definitions\<close>

type_synonym HandleId = "64 word"

definition MAX_STACK :: nat where
  "MAX_STACK = 50"

record Snapshot =
  description :: string
  blob :: bytes

record History =
  undo_stack :: "Snapshot list"
  redo_stack :: "Snapshot list"

record histories =
  h_registry :: "(HandleId, History) hmap"
  h_next :: HandleId

definition histories_new :: histories where
  "histories_new = \<lparr> h_registry = hempty, h_next = 1 \<rparr>"

definition next_id :: "histories \<Rightarrow> HandleId \<times> histories" where
  "next_id w = (h_next w, w\<lparr> h_next := h_next w + 1 \<rparr>)"

definition history_create :: "histories \<Rightarrow> HandleId \<times> histories" where
  "history_create w =
     (let (i, w') = next_id w
      in (i, w'\<lparr> h_registry := hput i \<lparr> undo_stack = [], redo_stack = [] \<rparr> (h_registry w') \<rparr>))"

definition drop_handle :: "HandleId \<Rightarrow> histories \<Rightarrow> histories" where
  "drop_handle i w = w\<lparr> h_registry := hdel i (h_registry w) \<rparr>"

definition push_state :: "Snapshot \<Rightarrow> History \<Rightarrow> History" where
  "push_state s h =
     (let u = undo_stack h @ [s]
      in \<lparr> undo_stack = (if length u > MAX_STACK then drop 1 u else u), redo_stack = [] \<rparr>)"

definition push_undo :: "HandleId \<Rightarrow> string \<Rightarrow> bytes \<Rightarrow> histories \<Rightarrow> histories" where
  "push_undo i d b w =
     (case hget (h_registry w) i of
        None \<Rightarrow> w
      | Some h \<Rightarrow> w\<lparr> h_registry := hput i (push_state \<lparr> description = d, blob = b \<rparr> h) (h_registry w) \<rparr>)"

definition undo_state :: "Snapshot \<Rightarrow> History \<Rightarrow> (Snapshot \<times> History) option" where
  "undo_state cur h =
     (if undo_stack h = [] then None
      else Some (last (undo_stack h),
                 h\<lparr> undo_stack := butlast (undo_stack h), redo_stack := redo_stack h @ [cur] \<rparr>))"

definition redo_state :: "Snapshot \<Rightarrow> History \<Rightarrow> (Snapshot \<times> History) option" where
  "redo_state cur h =
     (if redo_stack h = [] then None
      else Some (last (redo_stack h),
                 h\<lparr> redo_stack := butlast (redo_stack h), undo_stack := undo_stack h @ [cur] \<rparr>))"

definition on_history :: "HandleId \<Rightarrow> (History \<Rightarrow> (Snapshot \<times> History) option) \<Rightarrow> histories \<Rightarrow> Snapshot option \<times> histories" where
  "on_history i f w =
     (case hget (h_registry w) i of
        None \<Rightarrow> (None, w)
      | Some h \<Rightarrow> (case f h of
                     None \<Rightarrow> (None, w)
                   | Some (s, h') \<Rightarrow> (Some s, w\<lparr> h_registry := hput i h' (h_registry w) \<rparr>)))"

definition undo :: "HandleId \<Rightarrow> string \<Rightarrow> bytes \<Rightarrow> histories \<Rightarrow> Snapshot option \<times> histories" where
  "undo i d b w = on_history i (undo_state \<lparr> description = d, blob = b \<rparr>) w"

definition redo :: "HandleId \<Rightarrow> string \<Rightarrow> bytes \<Rightarrow> histories \<Rightarrow> Snapshot option \<times> histories" where
  "redo i d b w = on_history i (redo_state \<lparr> description = d, blob = b \<rparr>) w"

definition history_clear :: "HandleId \<Rightarrow> histories \<Rightarrow> histories" where
  "history_clear i w =
     (case hget (h_registry w) i of
        None \<Rightarrow> w
      | Some h \<Rightarrow> w\<lparr> h_registry := hput i \<lparr> undo_stack = [], redo_stack = [] \<rparr> (h_registry w) \<rparr>)"

definition can_undo :: "HandleId \<Rightarrow> histories \<Rightarrow> bool" where
  "can_undo i w = (case hget (h_registry w) i of Some h \<Rightarrow> undo_stack h \<noteq> [] | None \<Rightarrow> False)"

definition can_redo :: "HandleId \<Rightarrow> histories \<Rightarrow> bool" where
  "can_redo i w = (case hget (h_registry w) i of Some h \<Rightarrow> redo_stack h \<noteq> [] | None \<Rightarrow> False)"

definition undo_description :: "HandleId \<Rightarrow> histories \<Rightarrow> string option" where
  "undo_description i w =
     (case hget (h_registry w) i of
        Some h \<Rightarrow> (if undo_stack h = [] then None else Some (description (last (undo_stack h))))
      | None \<Rightarrow> None)"

definition redo_description :: "HandleId \<Rightarrow> histories \<Rightarrow> string option" where
  "redo_description i w =
     (case hget (h_registry w) i of
        Some h \<Rightarrow> (if redo_stack h = [] then None else Some (description (last (redo_stack h))))
      | None \<Rightarrow> None)"

datatype history_call =
    Create | DropHandle HandleId | PushUndo HandleId string bytes | Undo HandleId string bytes
  | Redo HandleId string bytes | ClearHistory HandleId

fun history_step :: "history_call \<Rightarrow> histories \<Rightarrow> histories" where
  "history_step Create w = snd (history_create w)"
| "history_step (DropHandle i) w = drop_handle i w"
| "history_step (PushUndo i d b) w = push_undo i d b w"
| "history_step (Undo i d b) w = snd (undo i d b w)"
| "history_step (Redo i d b) w = snd (redo i d b w)"
| "history_step (ClearHistory i) w = history_clear i w"

section \<open>Bounded stacks\<close>

definition bounded :: "History \<Rightarrow> bool" where
  "bounded h \<longleftrightarrow> length (undo_stack h) + length (redo_stack h) \<le> MAX_STACK"

definition histories_ok :: "histories \<Rightarrow> bool" where
  "histories_ok w \<longleftrightarrow> (\<forall>i h. hget (h_registry w) i = Some h \<longrightarrow> bounded h)"

lemma bounded_push: "bounded h \<Longrightarrow> bounded (push_state s h)"
  by (auto simp: bounded_def push_state_def Let_def MAX_STACK_def)

lemma bounded_undo: "bounded h \<Longrightarrow> undo_state s h = Some (t, h') \<Longrightarrow> bounded h'"
  by (cases "undo_stack h" rule: rev_cases) (auto simp: bounded_def undo_state_def)

lemma bounded_redo: "bounded h \<Longrightarrow> redo_state s h = Some (t, h') \<Longrightarrow> bounded h'"
  by (cases "redo_stack h" rule: rev_cases) (auto simp: bounded_def redo_state_def)

lemma on_history_ok:
  assumes "histories_ok w" "\<And>h s h'. bounded h \<Longrightarrow> f h = Some (s, h') \<Longrightarrow> bounded h'"
  shows "histories_ok (snd (on_history i f w))"
  using assms(1) by (auto simp: histories_ok_def on_history_def intro: assms(2) split: option.splits)

lemma histories_ok_step: "histories_ok w \<Longrightarrow> histories_ok (history_step c w)"
proof (cases c)
  case (PushUndo i d b)
  then show "histories_ok w \<Longrightarrow> ?thesis"
    by (auto simp: histories_ok_def push_undo_def bounded_push split: option.splits)
qed (auto simp: undo_def redo_def intro!: on_history_ok elim: bounded_undo bounded_redo,
     auto simp: histories_ok_def history_create_def next_id_def drop_handle_def history_clear_def
       bounded_def split: option.splits if_splits)

interpretation history: step_invariant history_step histories_ok
  by unfold_locales (rule histories_ok_step)

section \<open>Fresh handles\<close>

definition creates :: "history_call list \<Rightarrow> nat" where
  "creates cs = length (filter (\<lambda>c. c = Create) cs)"

definition handles_below :: "nat \<Rightarrow> histories \<Rightarrow> bool" where
  "handles_below n w \<longleftrightarrow> h_next w = of_nat n \<and>
     (\<forall>i. hget (h_registry w) i \<noteq> None \<longrightarrow> (\<exists>k. 1 \<le> k \<and> k < n \<and> i = of_nat k))"

lemma history_step_keys:
  "c \<noteq> Create \<Longrightarrow> h_next (history_step c w) = h_next w \<and>
     (hget (h_registry (history_step c w)) i \<noteq> None \<longrightarrow> hget (h_registry w) i \<noteq> None)"
  by (cases c) (auto simp: drop_handle_def push_undo_def undo_def redo_def on_history_def
      history_clear_def split: option.splits)

lemma history_create_simps [simp]:
  "fst (history_create w) = h_next w" "h_next (snd (history_create w)) = h_next w + 1"
  "h_registry (snd (history_create w)) = hput (h_next w) \<lparr> undo_stack = [], redo_stack = [] \<rparr> (h_registry w)"
  by (simp_all add: history_create_def next_id_def)

lemma handles_below_step:
  assumes "handles_below n w" "1 \<le> n"
  shows "handles_below (if c = Create then Suc n else n) (history_step c w)"
proof (cases "c = Create")
  case True
  have "\<exists>k. 1 \<le> k \<and> k < Suc n \<and> i = of_nat k" if "hget (h_registry (history_step Create w)) i \<noteq> None" for i
  proof (cases "i = h_next w")
    case True
    then show ?thesis using assms by (intro exI [of _ n]) (simp add: handles_below_def)
  next
    case False
    with that assms obtain k where "1 \<le> k" "k < n" "i = of_nat k" by (auto simp: handles_below_def)
    then show ?thesis by (intro exI [of _ k]) simp
  qed
  then show ?thesis using True assms by (simp add: handles_below_def)
next
  case False
  then show ?thesis using assms history_step_keys [OF False] by (simp add: handles_below_def)
qed

lemma handles_below_run:
  "handles_below n w \<Longrightarrow> 1 \<le> n \<Longrightarrow> handles_below (n + creates cs) (fold history_step cs w)"
proof (induction cs arbitrary: n w)
  case (Cons c cs)
  have "handles_below (if c = Create then Suc n else n) (history_step c w)"
    using Cons.prems by (rule handles_below_step)
  from Cons.IH [OF this] Cons.prems show ?case by (auto simp: creates_def split: if_splits)
qed (simp add: creates_def)

section \<open>Going back and forth\<close>

lemma undo_redo_state:
  "undo_state cur h = Some (s, h') \<Longrightarrow> redo_state s h' = Some (cur, h)"
  by (auto simp: undo_state_def redo_state_def split: if_splits)

section \<open>Properties\<close>

text \<open>
  Memory stays bounded: whatever sequence of calls is made, for every live handle the undo and
  the redo stack together never hold more than 50 snapshots.
\<close>

theorem history_bounded:
  "hget (h_registry (fold history_step calls histories_new)) i = Some h \<Longrightarrow>
     length (undo_stack h) + length (redo_stack h) \<le> 50"
  using history.inv_run [of histories_new calls]
  by (auto simp: histories_ok_def histories_new_def bounded_def MAX_STACK_def)

theorem history_bounded_witness:
  "length (undo_stack \<lparr> undo_stack = [\<lparr> description = ''d'', blob = [] \<rparr>], redo_stack = [] \<rparr>) +
   length (redo_stack \<lparr> undo_stack = [\<lparr> description = ''d'', blob = [] \<rparr>], redo_stack = [] \<rparr>) \<le> 50"
  by (rule history_bounded [of "[Create, PushUndo 1 ''d'' []]" 1])
     (simp add: histories_new_def history_create_def next_id_def push_undo_def push_state_def MAX_STACK_def)

text \<open>
  Undo and redo are inverse: an undo that yields a snapshot, followed by a redo that hands that
  snapshot back as the current state, yields the state the undo was called with and restores both
  stacks of the handle, without touching any other handle.
\<close>

theorem redo_reverts_undo:
  assumes "undo i d b w = (Some s, w')"
  shows "fst (redo i (description s) (blob s) w') = Some \<lparr> description = d, blob = b \<rparr> \<and>
    hget (h_registry (snd (redo i (description s) (blob s) w'))) = hget (h_registry w)"
proof -
  obtain h h' where h: "hget (h_registry w) i = Some h"
      "undo_state \<lparr> description = d, blob = b \<rparr> h = Some (s, h')"
      "w' = w\<lparr> h_registry := hput i h' (h_registry w) \<rparr>"
    using assms by (auto simp: undo_def on_history_def split: option.splits)
  have "redo_state s h' = Some (\<lparr> description = d, blob = b \<rparr>, h)" using h(2) by (rule undo_redo_state)
  then have "redo_state \<lparr> description = description s, blob = blob s \<rparr> h' =
      Some (\<lparr> description = d, blob = b \<rparr>, h)" by (cases s) simp
  with h show ?thesis by (auto simp: redo_def on_history_def)
qed

theorem redo_reverts_undo_witness:
  "let w = push_undo 1 ''old'' [7] (snd (history_create histories_new))
   in fst (redo 1 ''old'' [7] (snd (undo 1 ''now'' [8] w))) = Some \<lparr> description = ''now'', blob = [8] \<rparr>"
proof -
  let ?w = "push_undo 1 ''old'' [7] (snd (history_create histories_new))"
  have "undo 1 ''now'' [8] ?w = (Some \<lparr> description = ''old'', blob = [7] \<rparr>, snd (undo 1 ''now'' [8] ?w))"
    by (simp add: histories_new_def push_undo_def push_state_def MAX_STACK_def undo_def on_history_def undo_state_def)
  from redo_reverts_undo [OF this] show ?thesis by simp
qed

text \<open>
  Handles stay unique until the counter wraps: after any calls with fewer than \<open>2^64 - 1\<close>
  creations, the next handle is not the zero handle and no live history has it, so creating one
  never replaces another.
\<close>

theorem create_never_clobbers:
  assumes "creates calls < 2 ^ 64 - 1"
  shows "fst (history_create (fold history_step calls histories_new)) \<noteq> 0 \<and>
    hget (h_registry (fold history_step calls histories_new)) (fst (history_create (fold history_step calls histories_new))) = None"
proof -
  let ?w = "fold history_step calls histories_new"
  have below: "handles_below (1 + creates calls) ?w"
    by (rule handles_below_run) (simp_all add: handles_below_def histories_new_def)
  have inj: "(of_nat a :: 64 word) = of_nat b \<longleftrightarrow> a = b" if "a < 2 ^ 64" "b < 2 ^ 64" for a b
    using that by (simp add: word_of_nat_eq_iff take_bit_nat_eq_self)
  have "(of_nat (1 + creates calls) :: 64 word) \<noteq> of_nat 0"
    using assms inj [of "1 + creates calls" 0] by simp
  moreover have "(of_nat (1 + creates calls) :: 64 word) \<noteq> of_nat k" if "k < 1 + creates calls" for k
    using that assms inj [of "1 + creates calls" k] by simp
  ultimately show ?thesis using below by (fastforce simp: handles_below_def)
qed

theorem create_never_clobbers_witness:
  "fst (history_create (fold history_step [Create, DropHandle 1, Create] histories_new)) \<noteq> 0"
  using create_never_clobbers [of "[Create, DropHandle 1, Create]"] by (simp add: creates_def)

end
