(* ===== verification/Ssh_Wire.thy ===== *)
theory Ssh_Wire
  imports Interfaces
begin

text \<open>
  The SSH wire encoders of \<open>ssh/wire.rs\<close>: strings, multiple-precision integers, the
  conversion of ECDSA signatures from DER and from the raw concatenation, public-key blobs and the
  user-authentication signature field.  A \<open>usize\<close> here never exceeds 32 bits plus an index into
  a buffer, so natural numbers are exact.
\<close>

unbundle bit_operations_syntax

section \<open>Definitions\<close>

datatype wire_error =
    RawLength nat | Ed25519SigLength nat | P256Point nat | P384Point nat | Ed25519KeyLength nat
  | SequenceTag | SequenceLength | TrailingBytes | TruncatedLength | LengthEncoding
  | IntegerTag | TruncatedInteger

definition DER_MAX_LENGTH_BYTES :: nat where
  "DER_MAX_LENGTH_BYTES = 4"

definition high :: "byte \<Rightarrow> bool" where
  "high b \<longleftrightarrow> b AND 0x80 \<noteq> 0"

definition push_ssh_string :: "bytes \<Rightarrow> bytes \<Rightarrow> bytes" where
  "push_ssh_string buf payload = buf @ be_bytes 4 (length payload) @ payload"

text \<open>The loop that drops leading zero bytes as long as the sign bit of the next one is clear.\<close>

fun strip_zeros :: "bytes \<Rightarrow> bytes" where
  "strip_zeros (a # b # r) = (if a = 0 \<and> \<not> high b then strip_zeros (b # r) else a # b # r)"
| "strip_zeros bs = bs"

definition push_ssh_mpint :: "bytes \<Rightarrow> bytes \<Rightarrow> bytes" where
  "push_ssh_mpint buf magnitude =
     (let trimmed = strip_zeros magnitude;
          needs_pad = (trimmed \<noteq> [] \<and> high (hd trimmed));
          len = (if trimmed = [] then 0 else length trimmed + (if needs_pad then 1 else 0))
      in buf @ be_bytes 4 len @ (if needs_pad then [0] else []) @ trimmed)"

definition byte_at :: "bytes \<Rightarrow> nat \<Rightarrow> byte" where
  "byte_at buf i = buf ! i"

text \<open>The big-endian length of \<open>n\<close> bytes; \<open>(len << 8) | b\<close> is \<open>256 * len + b\<close> for a byte \<open>b\<close>.\<close>

fun read_long :: "bytes \<Rightarrow> nat \<Rightarrow> nat \<Rightarrow> nat \<Rightarrow> nat \<times> nat" where
  "read_long buf idx 0 len = (len, idx)"
| "read_long buf idx (Suc n) len = read_long buf (idx + 1) n (256 * len + unat (byte_at buf idx))"

definition read_der_length :: "bytes \<Rightarrow> nat \<Rightarrow> wire_error + nat \<times> nat" where
  "read_der_length buf idx =
     (if idx \<ge> length buf then Inl TruncatedLength
      else let first = byte_at buf idx; idx = idx + 1
           in if \<not> high first then Inr (unat first, idx)
              else let nbytes = unat (first AND 0x7F)
                   in if nbytes = 0 \<or> nbytes > DER_MAX_LENGTH_BYTES \<or> idx + nbytes > length buf
                      then Inl LengthEncoding
                      else Inr (read_long buf idx nbytes 0))"

definition read_der_integer :: "bytes \<Rightarrow> nat \<Rightarrow> wire_error + bytes \<times> nat" where
  "read_der_integer buf idx =
     (if idx \<ge> length buf \<or> byte_at buf idx \<noteq> 0x02 then Inl IntegerTag
      else case read_der_length buf (idx + 1) of
        Inl e \<Rightarrow> Inl e
      | Inr (len, idx) \<Rightarrow>
          if idx + len > length buf \<or> len = 0 then Inl TruncatedInteger
          else let bs = strip_zeros (take len (drop idx buf))
               in Inr (if bs \<noteq> [] \<and> high (hd bs) then 0 # bs else bs, idx + len))"

definition parse_ecdsa_der :: "bytes \<Rightarrow> wire_error + bytes \<times> bytes" where
  "parse_ecdsa_der der =
     (if length der < 2 \<or> byte_at der 0 \<noteq> 0x30 then Inl SequenceTag
      else case read_der_length der 1 of Inl e \<Rightarrow> Inl e | Inr (seq_len, idx) \<Rightarrow>
        if idx + seq_len \<noteq> length der then Inl SequenceLength
        else case read_der_integer der idx of Inl e \<Rightarrow> Inl e | Inr (r, idx) \<Rightarrow>
          case read_der_integer der idx of Inl e \<Rightarrow> Inl e | Inr (s, idx) \<Rightarrow>
            if idx \<noteq> length der then Inl TrailingBytes else Inr (r, s))"

definition ecdsa_der_to_ssh_mpint :: "bytes \<Rightarrow> wire_error + bytes" where
  "ecdsa_der_to_ssh_mpint der =
     (case parse_ecdsa_der der of
        Inl e \<Rightarrow> Inl e
      | Inr (r, s) \<Rightarrow> Inr (push_ssh_string (push_ssh_string [] r) s))"

definition ecdsa_raw_concat_to_ssh_mpint :: "bytes \<Rightarrow> wire_error + bytes" where
  "ecdsa_raw_concat_to_ssh_mpint rs =
     (if length rs mod 2 \<noteq> 0 \<or> rs = [] then Inl (RawLength (length rs))
      else let half = length rs div 2
           in Inr (push_ssh_mpint (push_ssh_mpint [] (take half rs)) (drop half rs)))"

definition rsa_pkcs1_v15_sig_body :: "bytes \<Rightarrow> bytes" where
  "rsa_pkcs1_v15_sig_body sig = sig"

definition ed25519_sig_body :: "bytes \<Rightarrow> wire_error + bytes" where
  "ed25519_sig_body sig = (if length sig \<noteq> 64 then Inl (Ed25519SigLength (length sig)) else Inr sig)"

definition encode_userauth_signature_field :: "string \<Rightarrow> bytes \<Rightarrow> bytes" where
  "encode_userauth_signature_field wire_alg sig_body =
     (let inner_len = length wire_alg + length sig_body + 8
      in push_ssh_string (push_ssh_string (be_bytes 4 inner_len) (str_bytes wire_alg)) sig_body)"

definition encode_public_ecdsa_p256 :: "bytes \<Rightarrow> wire_error + bytes" where
  "encode_public_ecdsa_p256 pt =
     (if length pt \<noteq> 65 \<or> byte_at pt 0 \<noteq> 0x04 then Inl (P256Point (length pt))
      else Inr (push_ssh_string (push_ssh_string (push_ssh_string []
             (str_bytes ''ecdsa-sha2-nistp256'')) (str_bytes ''nistp256'')) pt))"

definition encode_public_ecdsa_p384 :: "bytes \<Rightarrow> wire_error + bytes" where
  "encode_public_ecdsa_p384 pt =
     (if length pt \<noteq> 97 \<or> byte_at pt 0 \<noteq> 0x04 then Inl (P384Point (length pt))
      else Inr (push_ssh_string (push_ssh_string (push_ssh_string []
             (str_bytes ''ecdsa-sha2-nistp384'')) (str_bytes ''nistp384'')) pt))"

definition encode_public_ed25519 :: "bytes \<Rightarrow> wire_error + bytes" where
  "encode_public_ed25519 raw =
     (if length raw \<noteq> 32 then Inl (Ed25519KeyLength (length raw))
      else Inr (push_ssh_string (push_ssh_string [] (str_bytes ''ssh-ed25519'')) raw))"

definition encode_public_rsa :: "bytes \<Rightarrow> bytes \<Rightarrow> bytes" where
  "encode_public_rsa modulus exponent =
     push_ssh_mpint (push_ssh_mpint (push_ssh_string [] (str_bytes ''ssh-rsa'')) exponent) modulus"

section \<open>Reading SSH strings\<close>

text \<open>What a peer does with a string field (RFC 4251, section 5): payload and rest.\<close>

definition read_ssh_string :: "bytes \<Rightarrow> (bytes \<times> bytes) option" where
  "read_ssh_string bs =
     (let n = be_val (take 4 bs)
      in if length bs < 4 \<or> length bs < 4 + n then None
         else Some (take n (drop 4 bs), drop (4 + n) bs))"

definition ssh_field :: "bytes \<Rightarrow> bytes" where
  "ssh_field payload = be_bytes 4 (length payload) @ payload"

lemma read_ssh_field [simp]:
  "length payload < 2 ^ 32 \<Longrightarrow> read_ssh_string (ssh_field payload @ rest) = Some (payload, rest)"
  by (simp add: read_ssh_string_def ssh_field_def Let_def)

lemma push_ssh_string_eq: "push_ssh_string buf payload = buf @ ssh_field payload"
  by (simp add: push_ssh_string_def ssh_field_def)

section \<open>Integers\<close>

text \<open>The content bytes of a non-negative integer as both encoders emit them.\<close>

definition canon :: "bytes \<Rightarrow> bytes" where
  "canon m = (let t = strip_zeros m in if t \<noteq> [] \<and> high (hd t) then 0 # t else t)"

text \<open>No sign bit and no superfluous zero byte in front.\<close>

definition minimal :: "bytes \<Rightarrow> bool" where
  "minimal bs \<longleftrightarrow> (case bs of [] \<Rightarrow> True | [a] \<Rightarrow> \<not> high a | a # b # r \<Rightarrow> \<not> high a \<and> (a = 0 \<longrightarrow> high b))"

lemma not_high_0 [simp]: "\<not> high 0"
  by (simp add: high_def)

lemma push_ssh_mpint_eq: "push_ssh_mpint buf m = buf @ ssh_field (canon m)"
  by (auto simp: push_ssh_mpint_def canon_def ssh_field_def Let_def)

lemma strip_zeros_val: "be_val (strip_zeros m) = be_val m"
  by (induction m rule: strip_zeros.induct) auto

lemma canon_val: "be_val (canon m) = be_val m"
  by (simp add: canon_def Let_def strip_zeros_val)

lemma strip_zeros_shape:
  "case strip_zeros m of a # b # r \<Rightarrow> a = 0 \<longrightarrow> high b | _ \<Rightarrow> True"
  by (induction m rule: strip_zeros.induct) auto

lemma canon_minimal: "minimal (canon m)"
  using strip_zeros_shape [of m] by (auto simp: canon_def minimal_def Let_def split: list.splits)

lemma strip_zeros_length: "length (strip_zeros m) \<le> length m"
  by (induction m rule: strip_zeros.induct) auto

lemma strip_zeros_eq_Nil [simp]: "strip_zeros m = [] \<longleftrightarrow> m = []"
  by (induction m rule: strip_zeros.induct) auto

lemma canon_length: "length (canon m) \<le> Suc (length m)"
  using strip_zeros_length [of m] by (auto simp: canon_def Let_def)

lemma canon_Nil [simp]: "canon m = [] \<longleftrightarrow> m = []"
  by (auto simp: canon_def Let_def)

lemma strip_zeros_noop: "minimal bs \<Longrightarrow> strip_zeros bs = bs"
  by (cases bs rule: strip_zeros.cases) (auto simp: minimal_def)

lemma canon_noop: "minimal bs \<Longrightarrow> canon bs = bs"
  by (auto simp: canon_def strip_zeros_noop minimal_def Let_def split: list.splits)

section \<open>DER\<close>

lemma high_iff: "high b \<longleftrightarrow> 128 \<le> unat b"
proof -
  have bit80: "bit (0x80 :: byte) n \<longleftrightarrow> n = 7" for n
  proof (cases "n < 8")
    case True
    then have "n \<in> {0, 1, 2, 3, 4, 5, 6, 7}" by auto
    then show ?thesis by auto
  next
    case False
    then show ?thesis using bit_imp_le_length [of "0x80 :: byte" n] by auto
  qed
  have "b AND 0x80 \<noteq> 0 \<longleftrightarrow> bit b 7"
  proof
    have and80: "bit (b AND 0x80) n \<longleftrightarrow> bit b n \<and> n = 7" for n
      by (simp only: bit_and_iff bit80)
    have "b AND 0x80 = 0" if "\<not> bit b 7"
      by (rule bit_word_eqI) (use that in \<open>simp only: and80 bit_0_eq, blast\<close>)
    then show "b AND 0x80 \<noteq> 0 \<Longrightarrow> bit b 7" by blast
    have "bit (b AND 0x80) 7" if "bit b 7"
      using that by (simp only: and80)
    then show "bit b 7 \<Longrightarrow> b AND 0x80 \<noteq> 0" by auto
  qed
  also have "\<dots> \<longleftrightarrow> odd (unat b div 128)"
    using bit_unsigned_iff [where ?'a = nat, of b 7] by (simp add: bit_iff_odd)
  also have "\<dots> \<longleftrightarrow> 128 \<le> unat b"
  proof (cases "unat b < 128")
    case False
    then have "unat b div 128 = 1" using unat_byte_less [of b] by (intro div_nat_eqI) auto
    with False show ?thesis by simp
  qed simp
  finally show ?thesis by (simp add: high_def)
qed

text \<open>The strict encoding of a signature: definite lengths below 256, minimal integers.\<close>

definition der_len :: "nat \<Rightarrow> bytes" where
  "der_len n = (if n < 128 then [of_nat n] else [0x81, of_nat n])"

definition der_int :: "bytes \<Rightarrow> bytes" where
  "der_int m = 0x02 # der_len (length (canon m)) @ canon m"

definition der_sig :: "bytes \<Rightarrow> bytes \<Rightarrow> bytes" where
  "der_sig r s = 0x30 # der_len (length (der_int r @ der_int s)) @ der_int r @ der_int s"

lemma byte_at_append [simp]: "byte_at (pre @ b # post) (length pre) = b"
  by (simp add: byte_at_def)

lemma read_der_length_der_len:
  assumes "n < 256" "length pre = i"
  shows "read_der_length (pre @ der_len n @ post) i = Inr (n, i + length (der_len n))"
proof (cases "n < 128")
  case True
  then have "unat (of_nat n :: byte) = n" by (simp add: unat_of_nat)
  with True assms show ?thesis
    using byte_at_append [of pre "of_nat n" post] by (simp add: read_der_length_def der_len_def Let_def high_iff)
next
  case False
  have h: "high 0x81" "unat ((0x81 :: byte) AND 0x7F) = 1" by (simp_all add: high_def)
  have "unat (of_nat n :: byte) = n" using assms by (simp add: unat_of_nat)
  moreover have "byte_at (pre @ 0x81 # of_nat n # post) (Suc i) = of_nat n"
    using byte_at_append [of "pre @ [0x81]" "of_nat n" post] assms(2) by simp
  ultimately show ?thesis
    using False assms h byte_at_append [of pre "0x81" "of_nat n # post"]
    by (simp add: read_der_length_def der_len_def Let_def DER_MAX_LENGTH_BYTES_def)
qed

lemma hd_minimal: "minimal bs \<Longrightarrow> bs \<noteq> [] \<Longrightarrow> \<not> high (hd bs)"
  by (auto simp: minimal_def split: list.splits)

lemma read_der_integer_der_int:
  assumes "m \<noteq> []" "length (canon m) < 256" "length pre = i"
  shows "read_der_integer (pre @ der_int m @ post) i = Inr (canon m, i + length (der_int m))"
proof -
  let ?buf = "pre @ der_int m @ post"
  have tag: "byte_at ?buf i = 0x02" "i < length ?buf"
    using assms(3) byte_at_append [of pre "0x02" "der_len (length (canon m)) @ canon m @ post"]
    by (simp_all add: der_int_def)
  have len: "read_der_length ?buf (i + 1) = Inr (length (canon m), i + 1 + length (der_len (length (canon m))))"
    using read_der_length_der_len [OF assms(2), of "pre @ [0x02]" "i + 1" "canon m @ post"] assms(3)
    by (simp add: der_int_def)
  have "drop (Suc (i + length (der_len (length (canon m))))) ?buf = canon m @ post"
    using assms(3) by (simp add: der_int_def)
  moreover have "strip_zeros (canon m) = canon m" "\<not> high (hd (canon m))"
    using assms(1) canon_minimal strip_zeros_noop hd_minimal by auto
  ultimately show ?thesis
    using tag len assms by (simp add: read_der_integer_def Let_def) (simp add: der_int_def)
qed

lemma parse_der_sig:
  assumes "r \<noteq> []" "s \<noteq> []" "length r \<le> 100" "length s \<le> 100"
  shows "parse_ecdsa_der (der_sig r s) = Inr (canon r, canon s)"
proof -
  let ?body = "der_int r @ der_int s" and ?der = "der_sig r s"
  have c: "length (canon r) \<le> 101" "length (canon s) \<le> 101"
    using canon_length [of r] canon_length [of s] assms by auto
  then have i: "length (der_int r) \<le> 103" "length (der_int s) \<le> 103"
    by (simp_all add: der_int_def der_len_def)
  let ?i = "Suc (length (der_len (length ?body)))"
  have len: "read_der_length ?der 1 = Inr (length ?body, ?i)"
    using read_der_length_der_len [of "length ?body" "[0x30]" 1 ?body] i by (simp add: der_sig_def)
  have r: "read_der_integer ?der ?i = Inr (canon r, ?i + length (der_int r))"
    using read_der_integer_der_int [of r "0x30 # der_len (length ?body)" ?i "der_int s"] assms c
    by (simp add: der_sig_def)
  have s: "read_der_integer ?der (?i + length (der_int r)) = Inr (canon s, length ?der)"
    using read_der_integer_der_int [of s "0x30 # der_len (length ?body) @ der_int r" "?i + length (der_int r)" "[]"]
      assms c by (simp add: der_sig_def)
  have "length ?der = ?i + length ?body" "2 \<le> length ?der" "byte_at ?der 0 = 0x30"
    by (simp_all add: der_sig_def byte_at_def) (simp add: der_int_def der_len_def)
  moreover have "der_int r \<noteq> []" by (simp add: der_int_def)
  ultimately show ?thesis using len r s by (simp add: parse_ecdsa_der_def)
qed

section \<open>Properties\<close>

text \<open>
  Integers on the wire are right and canonical: an encoded magnitude is one string field from
  which a peer reads bytes with the same value, with the sign bit clear and no superfluous leading
  zero byte.
\<close>

theorem mpint_canonical:
  assumes "length m < 2 ^ 32 - 1"
  shows "\<exists>b. read_ssh_string (push_ssh_mpint [] m @ rest) = Some (b, rest) \<and>
    be_val b = be_val m \<and> minimal b"
proof -
  have "length (canon m) < 2 ^ 32" using assms canon_length [of m] by simp
  then show ?thesis
    by (intro exI [of _ "canon m"]) (simp add: push_ssh_mpint_eq canon_val canon_minimal)
qed

theorem mpint_canonical_witness:
  "\<exists>b. read_ssh_string (push_ssh_mpint [] [0, 0, 200] @ [7]) = Some (b, [7]) \<and> be_val b = 200 \<and> minimal b"
  using mpint_canonical [of "[0, 0, 200]" "[7]"] by simp

text \<open>
  C38. The two signature sources agree: for components of equal width, the strict DER encoding of a
  signature and the raw concatenation convert to the same SSH signature body, so a key gives the
  same bytes whichever backend signs.
\<close>

theorem der_and_raw_agree:
  assumes "r \<noteq> []" and "length s = length r" and "length r \<le> 100"
  shows "ecdsa_der_to_ssh_mpint (der_sig r s) = ecdsa_raw_concat_to_ssh_mpint (r @ s)"
proof -
  have "s \<noteq> []" using assms by auto
  moreover have "(length r + length s) div 2 = length r" "even (length r + length s)" using assms(2) by auto
  ultimately show ?thesis
    using assms parse_der_sig [of r s]
    by (simp add: ecdsa_der_to_ssh_mpint_def ecdsa_raw_concat_to_ssh_mpint_def Let_def
        push_ssh_string_eq push_ssh_mpint_eq)
qed

theorem der_and_raw_agree_witness:
  "ecdsa_der_to_ssh_mpint (der_sig [0, 200] [0, 0]) = ecdsa_raw_concat_to_ssh_mpint [0, 200, 0, 0]"
  using der_and_raw_agree [of "[0, 200]" "[0, 0]"] by simp

text \<open>
  The signature field is one outer string around the algorithm name and the body: a peer that
  reads the field and then its two inner strings gets back exactly what was put in, and nothing is
  left over.
\<close>

theorem signature_field_round_trip:
  assumes "length alg + length body + 8 < 2 ^ 32"
  shows "\<exists>inner. read_ssh_string (encode_userauth_signature_field alg body @ rest) = Some (inner, rest) \<and>
    (\<exists>tl. read_ssh_string inner = Some (str_bytes alg, tl) \<and> read_ssh_string tl = Some (body, []))"
proof -
  let ?inner = "ssh_field (str_bytes alg) @ ssh_field body"
  have "length ?inner = length alg + length body + 8" by (simp add: ssh_field_def)
  then have "encode_userauth_signature_field alg body = ssh_field ?inner"
    by (simp add: encode_userauth_signature_field_def Let_def push_ssh_string_eq)
       (simp add: ssh_field_def ac_simps)
  moreover have "read_ssh_string (ssh_field ?inner @ rest) = Some (?inner, rest)"
    using assms \<open>length ?inner = _\<close> by (intro read_ssh_field) simp
  moreover have "read_ssh_string ?inner = Some (str_bytes alg, ssh_field body)"
    using assms by simp
  moreover have "read_ssh_string (ssh_field body) = Some (body, [])"
    using assms read_ssh_field [of body "[]"] by simp
  ultimately show ?thesis by (intro exI [of _ ?inner]) simp
qed

theorem signature_field_round_trip_witness:
  "\<exists>inner. read_ssh_string (encode_userauth_signature_field ''ssh-ed25519'' [1, 2, 3]) = Some (inner, [])"
  using signature_field_round_trip [of "''ssh-ed25519''" "[1, 2, 3]" "[]"] by auto

end
