(* ===== verification/Known_Hosts_Parser.thy ===== *)
theory Known_Hosts_Parser
  imports Interfaces External
begin

text \<open>
  The line parser of \<open>known_hosts_parser.rs\<close>, for the program's own export format and the
  OpenSSH format.  Log output is not modelled.
\<close>

section \<open>Definitions\<close>

record ParsedHostEntry =
  pe_host_port :: string
  pe_key_type :: string
  pe_key_base64 :: string

definition is_valid_standard_base64 :: "b64_lib \<Rightarrow> string \<Rightarrow> bool" where
  "is_valid_standard_base64 B s \<longleftrightarrow> b64_decode B s \<noteq> None"

definition format_canonical :: "string \<Rightarrow> nat \<Rightarrow> string" where
  "format_canonical host port =
     (if CHR '':'' \<in> set host then ''['' @ host @ '']:'' @ dec port else host @ '':'' @ dec port)"

definition u32_port :: "string \<Rightarrow> nat option" where
  "u32_port s = (case parse_unsigned (2 ^ 32 - 1) s of
                   Some p \<Rightarrow> if 1 \<le> p \<and> p \<le> 65535 then Some p else None
                 | None \<Rightarrow> None)"

definition normalise_host_spec :: "string \<Rightarrow> string option" where
  "normalise_host_spec spec =
     (let s = trim spec
      in if s = [] then None
         else case strip_prefix ''['' s of
           Some rest \<Rightarrow>
             (case find_idx ((=) (CHR '']'')) rest of
                None \<Rightarrow> None
              | Some close \<Rightarrow>
                  (let host = take close rest; tail = drop (close + 1) rest
                   in if host = [] then None
                      else if tail = [] then Some (format_canonical host 22)
                      else case strip_prefix '':'' tail of
                        None \<Rightarrow> None
                      | Some port_str \<Rightarrow> map_option (format_canonical host) (u32_port port_str)))
         | None \<Rightarrow>
             (let colon_count = count_list s (CHR '':'')
              in if colon_count > 1 then None
                 else if colon_count = 1
                 then (case split_once (CHR '':'') s of
                         None \<Rightarrow> None
                       | Some (host, port_str) \<Rightarrow>
                           (case u32_port port_str of
                              Some port \<Rightarrow> if host = [] then None else Some (format_canonical host port)
                            | None \<Rightarrow> None))
                 else Some (format_canonical s 22)))"

definition parse_line :: "b64_lib \<Rightarrow> string \<Rightarrow> ParsedHostEntry list" where
  "parse_line B line =
     (let trimmed = trim line
      in if trimmed = [] \<or> starts_with ''#'' trimmed then []
         else case dropWhile (starts_with ''@'') (split_whitespace trimmed) of
           host_spec # key_type # key_base64 # _ \<Rightarrow>
             (if starts_with ''|1|'' host_spec then []
              else if key_base64 = [] then []
              else if \<not> is_valid_standard_base64 B key_base64 then []
              else concat (map (\<lambda>spec. case normalise_host_spec spec of
                     Some host_port \<Rightarrow> [\<lparr> pe_host_port = host_port, pe_key_type = key_type,
                                         pe_key_base64 = key_base64 \<rparr>]
                   | None \<Rightarrow> []) (split_on (CHR '','') host_spec)))
         | _ \<Rightarrow> [])"

definition is_hashed_hosts_line :: "string \<Rightarrow> bool" where
  "is_hashed_hosts_line line =
     (let trimmed = trim line
      in if trimmed = [] \<or> starts_with ''#'' trimmed then False
         else case find_ws trimmed of
           Some first_ws \<Rightarrow> starts_with ''|1|'' (take first_ws trimmed)
         | None \<Rightarrow> False)"

section \<open>Plain words\<close>

text \<open>A non-empty word of printable ASCII.\<close>

definition word_ok :: "string \<Rightarrow> bool" where
  "word_ok s \<longleftrightarrow> s \<noteq> [] \<and> list_all graphic s"

lemma word_ok_simps [simp]:
  "word_ok s \<Longrightarrow> s \<noteq> []" "word_ok s \<Longrightarrow> no_ws s" "word_ok s \<Longrightarrow> graphic (hd s)" "word_ok s \<Longrightarrow> graphic (last s)"
  "word_ok s \<Longrightarrow> trim s = s" "word_ok (dec n)"
  using dec_graphic [of n] by (auto simp: word_ok_def list_all_iff no_ws_def)

lemma word_ok_append: "word_ok s \<Longrightarrow> list_all graphic t \<Longrightarrow> word_ok (s @ t)"
  by (simp add: word_ok_def)

lemma word_ok_not_newline: "word_ok s \<Longrightarrow> CHR 0x0A \<notin> set s"
  by (auto simp: word_ok_def list_all_iff)

lemma three_words:
  assumes "word_ok a" "word_ok b" "word_ok c"
  shows "split_whitespace (a @ '' '' @ b @ '' '' @ c) = [a, b, c]"
    and "trim (a @ '' '' @ b @ '' '' @ c) = a @ '' '' @ b @ '' '' @ c"
proof -
  show "split_whitespace (a @ '' '' @ b @ '' '' @ c) = [a, b, c]"
    using assms by (simp add: split_whitespace_words)
  have "hd (a @ '' '' @ b @ '' '' @ c) = hd a" "last (a @ '' '' @ b @ '' '' @ c) = last c"
    using assms by simp_all
  then show "trim (a @ '' '' @ b @ '' '' @ c) = a @ '' '' @ b @ '' '' @ c"
    using assms by (intro trim_graphic_ends) auto
qed

lemma dec_no_colon [simp]: "CHR '':'' \<notin> set (dec n)" "CHR '']'' \<notin> set (dec n)"
  using digits_not_member [OF dec_digits] by auto

lemma dec_no_comma [simp]: "CHR '','' \<notin> set (dec n)"
  using digits_not_member [OF dec_digits, of "CHR '',''"] by (simp add: is_ascii_digit_def)

lemma u32_port_dec [simp]: "u32_port (dec p) = (if 1 \<le> p \<and> p \<le> 65535 then Some p else None)"
  by (simp add: u32_port_def)

lemma u32_port_range: "u32_port s = Some p \<Longrightarrow> 1 \<le> p \<and> p \<le> 65535"
  by (auto simp: u32_port_def split: option.splits if_splits)

lemma starts_with_single: "starts_with [c] s \<longleftrightarrow> s \<noteq> [] \<and> hd s = c"
  by (cases s) (auto simp: starts_with_iff)

lemma strip_prefix_single_None: "s \<noteq> [] \<Longrightarrow> hd s \<noteq> c \<Longrightarrow> strip_prefix [c] s = None"
  by (cases s) auto

lemma count_list_0: "c \<notin> set s \<Longrightarrow> count_list s c = 0"
  by (induction s) auto

text \<open>The host and port of a line of the export format.\<close>

lemma normalise_plain:
  assumes "word_ok h" "hd h \<noteq> CHR ''[''"
  shows "normalise_host_spec (h @ '':'' @ dec p) =
    (if CHR '':'' \<in> set h \<or> \<not> (1 \<le> p \<and> p \<le> 65535) then None else Some (format_canonical h p))"
proof -
  let ?s = "h @ '':'' @ dec p"
  have "word_ok ?s" using assms by (intro word_ok_append) (auto simp: graphic_def)
  then have t: "trim ?s = ?s" by simp
  have n: "strip_prefix ''['' ?s = None" using assms by (intro strip_prefix_single_None) auto
  have c: "count_list ?s (CHR '':'') = Suc (count_list h (CHR '':''))" by (simp add: count_list_0)
  show ?thesis
  proof (cases "CHR '':'' \<in> set h")
    case True
    then have "0 < count_list h (CHR '':'')" by (meson count_list_0_iff gr0I)
    with True t n c show ?thesis by (simp add: normalise_host_spec_def Let_def)
  next
    case False
    then show ?thesis using t n c assms by (simp add: normalise_host_spec_def Let_def count_list_0)
  qed
qed

lemma parse_export_line:
  assumes "word_ok h" "hd h \<notin> {CHR ''['', CHR ''#'', CHR ''@'', CHR ''|''}" "CHR '','' \<notin> set h"
    and "word_ok t" "word_ok k" "is_valid_standard_base64 B k"
  shows "parse_line B (h @ '':'' @ dec p @ '' '' @ t @ '' '' @ k) =
    (if CHR '':'' \<in> set h \<or> \<not> (1 \<le> p \<and> p \<le> 65535) then []
     else [\<lparr> pe_host_port = format_canonical h p, pe_key_type = t, pe_key_base64 = k \<rparr>])"
proof -
  let ?a = "h @ '':'' @ dec p"
  have a: "word_ok ?a" using assms by (intro word_ok_append) (auto simp: graphic_def)
  note w = three_words [OF a assms(4,5)]
  have hd: "hd ?a = hd h" using assms by simp
  have first: "\<not> starts_with ''@'' ?a" "\<not> starts_with ''#'' (?a @ '' '' @ t @ '' '' @ k)" "\<not> starts_with ''|1|'' ?a"
    using assms(1,2) by (cases h; auto simp: starts_with_iff)+
  have comma: "split_on (CHR '','') ?a = [?a]" using assms(3) by (intro split_on_noop) auto
  have "parse_line B (?a @ '' '' @ t @ '' '' @ k) =
      (case normalise_host_spec ?a of Some hp \<Rightarrow> [\<lparr> pe_host_port = hp, pe_key_type = t, pe_key_base64 = k \<rparr>] | None \<Rightarrow> [])"
    unfolding parse_line_def Let_def w using first assms(5,6) comma by simp
  then show ?thesis using normalise_plain [OF assms(1)] assms(2) by simp
qed

end
