(* ===== verification/Known_Hosts.thy ===== *)
theory Known_Hosts
  imports Known_Hosts_Parser "HOL-Library.Product_Lexorder" "HOL-Library.Multiset"
begin

text \<open>
  The host-key store: the table of \<open>db/known_hosts.rs\<close> with the meaning of its SQL statements,
  import, export, the host check and the prompt registry of \<open>known_hosts.rs\<close>.  The table is the
  list of its rows, \<open>(host, port)\<close> is unique, and statements do not fail.
\<close>

section \<open>The table\<close>

record KnownHostRow =
  kh_id :: int
  kh_host :: string
  kh_port :: int
  kh_key_type :: string
  kh_key_base64 :: string
  kh_added_at_ms :: int

record kh_table =
  kh_rows :: "KnownHostRow list"
  kh_seq :: int

definition row_key :: "KnownHostRow \<Rightarrow> string \<times> int" where
  "row_key r = (kh_host r, kh_port r)"

definition list_all_rows :: "kh_table \<Rightarrow> KnownHostRow list" where
  "list_all_rows db = sort_key row_key (kh_rows db)"

definition get_by_host_port :: "kh_table \<Rightarrow> string \<Rightarrow> int \<Rightarrow> KnownHostRow option" where
  "get_by_host_port db host port = List.find (\<lambda>r. kh_host r = host \<and> kh_port r = port) (kh_rows db)"

definition upsert_by_host_port ::
  "string \<Rightarrow> int \<Rightarrow> string \<Rightarrow> string \<Rightarrow> int \<Rightarrow> kh_table \<Rightarrow> int \<times> kh_table" where
  "upsert_by_host_port host port key_type key_base64 added_at db =
     (case get_by_host_port db host port of
        Some old \<Rightarrow>
          (kh_id old, db\<lparr> kh_rows := map (\<lambda>r. if kh_host r = host \<and> kh_port r = port
             then r\<lparr> kh_key_type := key_type, kh_key_base64 := key_base64, kh_added_at_ms := added_at \<rparr>
             else r) (kh_rows db) \<rparr>)
      | None \<Rightarrow>
          (kh_seq db + 1,
           db\<lparr> kh_seq := kh_seq db + 1,
               kh_rows := kh_rows db @ [\<lparr> kh_id = kh_seq db + 1, kh_host = host, kh_port = port,
                 kh_key_type = key_type, kh_key_base64 = key_base64, kh_added_at_ms = added_at \<rparr>] \<rparr>))"

definition delete_by_host_port :: "string \<Rightarrow> int \<Rightarrow> kh_table \<Rightarrow> nat \<times> kh_table" where
  "delete_by_host_port host port db =
     (length (filter (\<lambda>r. kh_host r = host \<and> kh_port r = port) (kh_rows db)),
      db\<lparr> kh_rows := filter (\<lambda>r. \<not> (kh_host r = host \<and> kh_port r = port)) (kh_rows db) \<rparr>)"

definition clear_all :: "kh_table \<Rightarrow> nat \<times> kh_table" where
  "clear_all db = (length (kh_rows db), db\<lparr> kh_rows := [] \<rparr>)"

section \<open>Import and export\<close>

record ImportSummary =
  added :: nat
  skipped_existing :: nat
  skipped_hashed :: nat

definition split_host_port :: "string \<Rightarrow> (string \<times> int) option" where
  "split_host_port spec =
     (case (case strip_prefix ''['' spec of
              Some rest \<Rightarrow>
                (case find_idx ((=) (CHR '']'')) rest of
                   None \<Rightarrow> None
                 | Some close \<Rightarrow>
                     (case strip_prefix '':'' (drop (close + 1) rest) of
                        Some port_str \<Rightarrow> Some (take close rest, port_str)
                      | None \<Rightarrow> None))
            | None \<Rightarrow> rsplit_once (CHR '':'') spec) of
        None \<Rightarrow> None
      | Some (host_part, port_str) \<Rightarrow>
          if host_part = [] then None
          else (case parse_signed (- (2 ^ 63)) (2 ^ 63 - 1) port_str of
                  Some port \<Rightarrow> if 1 \<le> port \<and> port \<le> 65535 then Some (host_part, port) else None
                | None \<Rightarrow> None))"

definition import_entry ::
  "int \<Rightarrow> ParsedHostEntry \<Rightarrow> ImportSummary \<times> kh_table \<Rightarrow> ImportSummary \<times> kh_table" where
  "import_entry now entry st =
     (case st of (summary, db) \<Rightarrow>
        case split_host_port (pe_host_port entry) of
          None \<Rightarrow> (summary, db)
        | Some (host, port) \<Rightarrow>
            if get_by_host_port db host port \<noteq> None
            then (summary\<lparr> skipped_existing := skipped_existing summary + 1 \<rparr>, db)
            else (summary\<lparr> added := added summary + 1 \<rparr>,
                  snd (upsert_by_host_port host port (pe_key_type entry) (pe_key_base64 entry) now db)))"

definition import_line ::
  "b64_lib \<Rightarrow> int \<Rightarrow> string \<Rightarrow> ImportSummary \<times> kh_table \<Rightarrow> ImportSummary \<times> kh_table" where
  "import_line B now raw_line st =
     (let entries = parse_line B raw_line
      in if entries = []
         then (if is_hashed_hosts_line raw_line
               then ((fst st)\<lparr> skipped_hashed := skipped_hashed (fst st) + 1 \<rparr>, snd st) else st)
         else fold (import_entry now) entries st)"

text \<open>The last component says whether \<open>KnownHostsChanged\<close> is published.\<close>

definition import_from_string ::
  "b64_lib \<Rightarrow> string \<Rightarrow> int \<Rightarrow> kh_table \<Rightarrow> ImportSummary \<times> kh_table \<times> bool" where
  "import_from_string B content now db =
     (let (summary, db') = fold (import_line B now) (split_on (CHR 0x0A) content)
            (\<lparr> added = 0, skipped_existing = 0, skipped_hashed = 0 \<rparr>, db)
      in (summary, db', added summary > 0))"

definition show_int :: "int \<Rightarrow> string" where
  "show_int i = (if i < 0 then ''-'' @ dec (nat (- i)) else dec (nat i))"

definition export_line :: "KnownHostRow \<Rightarrow> string" where
  "export_line r = kh_host r @ '':'' @ show_int (kh_port r) @ '' '' @ kh_key_type r @ '' '' @ kh_key_base64 r"

definition export_to_string :: "kh_table \<Rightarrow> string" where
  "export_to_string db =
     concat (map (\<lambda>r. export_line r @ [CHR 0x0A]) (sort_key row_key (list_all_rows db)))"

section \<open>The host check\<close>

datatype HostCheckMismatch = Unknown | Changed (stored_key_b64: string)

datatype HostCheckResult = Accepted | Mismatch HostCheckMismatch

datatype KnownHostPromptKind = NewHost | KeyChanged

definition check_host :: "kh_table \<Rightarrow> string \<Rightarrow> int \<Rightarrow> string \<Rightarrow> string \<Rightarrow> HostCheckResult" where
  "check_host db host port key_type key_base64 =
     (case get_by_host_port db host port of
        None \<Rightarrow> Mismatch Unknown
      | Some r \<Rightarrow> if kh_key_type r = key_type \<and> kh_key_base64 r = key_base64 then Accepted
                  else Mismatch (Changed (kh_key_base64 r)))"

definition prompt_kind_for :: "HostCheckMismatch \<Rightarrow> KnownHostPromptKind" where
  "prompt_kind_for m = (case m of Unknown \<Rightarrow> NewHost | Changed k \<Rightarrow> KeyChanged)"

section \<open>Prompts\<close>

text \<open>
  A oneshot channel per registered prompt: open, answered, or closed because the sender was dropped.
  \<open>gone\<close> lists the channels whose receiver was dropped, to which a send fails.
\<close>

datatype oneshot = Open | Answered bool | Closed

record PromptRegistry =
  pr_inner :: "(string, nat) hmap"
  pr_chans :: "oneshot list"
  pr_gone :: "nat list"

definition close_chan :: "nat option \<Rightarrow> oneshot list \<Rightarrow> oneshot list" where
  "close_chan tx chans = (case tx of Some c \<Rightarrow> chans[c := Closed] | None \<Rightarrow> chans)"

definition prompt_register :: "string \<Rightarrow> PromptRegistry \<Rightarrow> nat \<times> PromptRegistry" where
  "prompt_register prompt_id w =
     (let c = length (pr_chans w)
      in (c, w\<lparr> pr_inner := hput prompt_id c (pr_inner w),
                pr_chans := close_chan (hget (pr_inner w) prompt_id) (pr_chans w) @ [Open] \<rparr>))"

definition prompt_resolve :: "string \<Rightarrow> bool \<Rightarrow> PromptRegistry \<Rightarrow> bool \<times> PromptRegistry" where
  "prompt_resolve prompt_id accepted w =
     (case hget (pr_inner w) prompt_id of
        None \<Rightarrow> (False, w)
      | Some c \<Rightarrow> (c \<notin> set (pr_gone w),
                   w\<lparr> pr_inner := hdel prompt_id (pr_inner w),
                      pr_chans := (pr_chans w)[c := Answered accepted] \<rparr>))"

definition prompt_cancel :: "string \<Rightarrow> PromptRegistry \<Rightarrow> PromptRegistry" where
  "prompt_cancel prompt_id w =
     w\<lparr> pr_inner := hdel prompt_id (pr_inner w),
        pr_chans := close_chan (hget (pr_inner w) prompt_id) (pr_chans w) \<rparr>"

definition pending_count :: "PromptRegistry \<Rightarrow> nat" where
  "pending_count w = length (hkeys (pr_inner w))"

section \<open>The table is a keyed store\<close>

definition kh_empty :: kh_table where
  "kh_empty = \<lparr> kh_rows = [], kh_seq = 0 \<rparr>"

definition kh_get :: "kh_table \<Rightarrow> string \<times> int \<Rightarrow> (string \<times> string \<times> int) option" where
  "kh_get db k = map_option (\<lambda>r. (kh_key_type r, kh_key_base64 r, kh_added_at_ms r))
     (get_by_host_port db (fst k) (snd k))"

definition kh_put :: "string \<times> int \<Rightarrow> string \<times> string \<times> int \<Rightarrow> kh_table \<Rightarrow> kh_table" where
  "kh_put k v db = snd (upsert_by_host_port (fst k) (snd k) (fst v) (fst (snd v)) (snd (snd v)) db)"

definition kh_del :: "string \<times> int \<Rightarrow> kh_table \<Rightarrow> kh_table" where
  "kh_del k db = snd (delete_by_host_port (fst k) (snd k) db)"

definition kh_unique :: "kh_table \<Rightarrow> bool" where
  "kh_unique db \<longleftrightarrow> distinct (map row_key (kh_rows db))"

lemma find_append: "List.find P (xs @ ys) = (case List.find P xs of Some x \<Rightarrow> Some x | None \<Rightarrow> List.find P ys)"
  by (induction xs) auto

lemma find_map_same: "(\<And>x. P (f x) = P x) \<Longrightarrow> List.find P (map f xs) = map_option f (List.find P xs)"
  by (induction xs) auto

lemma find_filter_other: "(\<And>x. P x \<Longrightarrow> Q x) \<Longrightarrow> List.find P (filter Q xs) = List.find P xs"
  by (induction xs) auto

lemma kh_get_empty: "kh_get kh_empty k = None"
  by (simp add: kh_get_def kh_empty_def get_by_host_port_def)

lemma kh_get_put: "kh_get (kh_put k v db) l = (if l = k then Some v else kh_get db l)"
proof -
  obtain h p where k: "k = (h, p)" by (cases k)
  obtain h' p' where l: "l = (h', p')" by (cases l)
  obtain t b a where v: "v = (t, b, a)" by (cases v)
  show ?thesis
  proof (cases "get_by_host_port db h p")
    case None
    then show ?thesis
      by (auto simp: kh_get_def kh_put_def upsert_by_host_port_def get_by_host_port_def find_append k l v
          split: option.splits)
  next
    case (Some old)
    let ?upd = "\<lambda>r. if kh_host r = h \<and> kh_port r = p then r\<lparr> kh_key_type := t, kh_key_base64 := b, kh_added_at_ms := a \<rparr> else r"
    have "List.find (\<lambda>r. kh_host r = h' \<and> kh_port r = p') (map ?upd (kh_rows db)) =
        map_option ?upd (List.find (\<lambda>r. kh_host r = h' \<and> kh_port r = p') (kh_rows db))"
      by (rule find_map_same) auto
    then have get: "get_by_host_port (kh_put k v db) h' p' = map_option ?upd (get_by_host_port db h' p')"
      using Some by (simp add: kh_put_def upsert_by_host_port_def get_by_host_port_def k v)
    show ?thesis
    proof (cases "l = k")
      case True
      moreover have "kh_host old = h" "kh_port old = p"
        using Some by (auto simp: get_by_host_port_def find_Some_iff)
      ultimately show ?thesis using get Some k l v by (simp add: kh_get_def)
    next
      case False
      have "?upd r = r" if "get_by_host_port db h' p' = Some r" for r
        using that False k l by (auto simp: get_by_host_port_def find_Some_iff)
      with get False k l show ?thesis by (cases "get_by_host_port db h' p'") (auto simp: kh_get_def)
    qed
  qed
qed

lemma kh_get_del: "kh_get (kh_del k db) l = (if l = k then None else kh_get db l)"
proof -
  obtain h p where k: "k = (h, p)" by (cases k)
  obtain h' p' where l: "l = (h', p')" by (cases l)
  show ?thesis
  proof (cases "l = k")
    case True
    then show ?thesis by (auto simp: kh_get_def kh_del_def delete_by_host_port_def get_by_host_port_def k l find_None_iff)
  next
    case False
    have "List.find (\<lambda>r. kh_host r = h' \<and> kh_port r = p') (filter (\<lambda>r. \<not> (kh_host r = h \<and> kh_port r = p)) (kh_rows db)) =
        List.find (\<lambda>r. kh_host r = h' \<and> kh_port r = p') (kh_rows db)"
      by (rule find_filter_other) (use False k l in auto)
    with False show ?thesis using k l by (auto simp: kh_get_def kh_del_def delete_by_host_port_def get_by_host_port_def)
  qed
qed

lemma kh_unique_put: "kh_unique db \<Longrightarrow> kh_unique (kh_put k v db)"
proof (cases "get_by_host_port db (fst k) (snd k)")
  case None
  then have "k \<notin> row_key ` set (kh_rows db)"
    by (auto simp: get_by_host_port_def find_None_iff row_key_def)
  then show "kh_unique db \<Longrightarrow> ?thesis"
    using None by (auto simp: kh_unique_def kh_put_def upsert_by_host_port_def row_key_def)
next
  case (Some old)
  have "map row_key (map (\<lambda>r. if kh_host r = fst k \<and> kh_port r = snd k
      then r\<lparr> kh_key_type := fst v, kh_key_base64 := fst (snd v), kh_added_at_ms := snd (snd v) \<rparr> else r)
      (kh_rows db)) = map row_key (kh_rows db)"
    by (auto simp: row_key_def)
  then show "kh_unique db \<Longrightarrow> ?thesis"
    using Some by (simp add: kh_unique_def kh_put_def upsert_by_host_port_def del: map_map map_eq_conv)
qed

lemma kh_unique_del: "kh_unique db \<Longrightarrow> kh_unique (kh_del k db)"
  by (simp add: kh_unique_def kh_del_def delete_by_host_port_def distinct_map_filter)

interpretation kh: keyed_store kh_empty kh_get kh_put kh_del kh_unique
  by unfold_locales (simp_all add: kh_get_empty kh_get_put kh_get_del kh_unique_put kh_unique_del,
      simp add: kh_unique_def kh_empty_def)

section \<open>Import is additive\<close>

definition kh_keeps :: "kh_table \<Rightarrow> kh_table \<Rightarrow> bool" where
  "kh_keeps db db' \<longleftrightarrow> (\<forall>k v. kh_get db k = Some v \<longrightarrow> kh_get db' k = Some v)"

definition import_rel :: "ImportSummary \<times> kh_table \<Rightarrow> ImportSummary \<times> kh_table \<Rightarrow> bool" where
  "import_rel st st' \<longleftrightarrow> kh_keeps (snd st) (snd st') \<and> (kh_unique (snd st) \<longrightarrow> kh_unique (snd st')) \<and>
     length (kh_rows (snd st')) + added (fst st) = length (kh_rows (snd st)) + added (fst st')"

lemma import_rel_refl: "import_rel st st"
  by (simp add: import_rel_def kh_keeps_def)

lemma import_rel_trans: "import_rel a b \<Longrightarrow> import_rel b c \<Longrightarrow> import_rel a c"
  by (auto simp: import_rel_def kh_keeps_def)

lemma import_rel_fold: "(\<And>x st. import_rel st (f x st)) \<Longrightarrow> import_rel st (fold f xs st)"
proof (induction xs arbitrary: st)
  case (Cons x xs)
  then show ?case using import_rel_trans [of st "f x st" "fold f xs (f x st)"] by simp
qed (simp add: import_rel_refl)

lemma kh_get_None: "kh_get db (h, p) = None \<longleftrightarrow> get_by_host_port db h p = None"
  by (simp add: kh_get_def)

lemma import_entry_put:
  assumes "split_host_port (pe_host_port e) = Some k" "kh_get db k = None"
  shows "import_entry now e (s, db) =
    (s\<lparr> added := added s + 1 \<rparr>, kh_put k (pe_key_type e, pe_key_base64 e, now) db)"
  using assms by (cases k) (simp add: import_entry_def kh_get_None kh_put_def)

lemma import_rel_entry: "import_rel st (import_entry now e st)"
proof -
  obtain s db where st: "st = (s, db)" by (cases st)
  show ?thesis
  proof (cases "split_host_port (pe_host_port e)")
    case None
    then show ?thesis by (simp add: import_entry_def import_rel_refl st)
  next
    case (Some k)
    show ?thesis
    proof (cases "kh_get db k")
      case None
      have "length (kh_rows (kh_put k (pe_key_type e, pe_key_base64 e, now) db)) = Suc (length (kh_rows db))"
        using None by (cases k) (simp add: kh_put_def upsert_by_host_port_def kh_get_None)
      moreover have "kh_keeps db (kh_put k (pe_key_type e, pe_key_base64 e, now) db)"
        using None by (auto simp: kh_keeps_def kh_get_put)
      ultimately show ?thesis
        using import_entry_put [OF Some None] by (simp add: st import_rel_def kh_unique_put)
    next
      case (Some v)
      with \<open>split_host_port _ = _\<close> have "snd (import_entry now e st) = db" "added (fst (import_entry now e st)) = added s"
        by (cases k; auto simp: import_entry_def st kh_get_def)+
      then show ?thesis by (simp add: import_rel_def kh_keeps_def st)
    qed
  qed
qed

lemma import_rel_line: "import_rel st (import_line B now l st)"
  by (auto simp: import_line_def Let_def import_rel_refl intro: import_rel_fold import_rel_entry)
     (simp add: import_rel_def kh_keeps_def)

section \<open>Export and import back\<close>

text \<open>
  Rows as the program stores them: printable host without comma that does not look like a marker,
  a port in range, a printable key type and a key body that is valid base64.
\<close>

definition row_plain :: "b64_lib \<Rightarrow> KnownHostRow \<Rightarrow> bool" where
  "row_plain B r \<longleftrightarrow> word_ok (kh_host r) \<and> hd (kh_host r) \<notin> {CHR ''['', CHR ''#'', CHR ''@'', CHR ''|''} \<and>
     CHR '','' \<notin> set (kh_host r) \<and> 1 \<le> kh_port r \<and> kh_port r \<le> 65535 \<and>
     word_ok (kh_key_type r) \<and> word_ok (kh_key_base64 r) \<and> is_valid_standard_base64 B (kh_key_base64 r)"

definition row_val :: "int \<Rightarrow> KnownHostRow \<Rightarrow> string \<times> string \<times> int" where
  "row_val now r = (kh_key_type r, kh_key_base64 r, now)"

lemma split_format:
  assumes "h \<noteq> []" "hd h \<noteq> CHR ''[''" "CHR '']'' \<notin> set h \<or> CHR '':'' \<notin> set h" "1 \<le> p" "p \<le> 65535"
  shows "split_host_port (format_canonical h p) = Some (h, int p)"
proof (cases "CHR '':'' \<in> set h")
  case True
  then have "\<forall>c \<in> set h. \<not> CHR '']'' = c" using assms(3) by auto
  then have "find_idx ((=) (CHR '']'')) (h @ '']:'' @ dec p) = Some (length h)" by simp
  with True assms show ?thesis by (simp add: split_host_port_def format_canonical_def)
next
  case False
  have "strip_prefix ''['' (h @ '':'' @ dec p) = None"
    using assms by (intro strip_prefix_single_None) auto
  with False assms show ?thesis
    using rsplit_once_append [of "CHR '':''" "dec p" h] by (simp add: split_host_port_def format_canonical_def)
qed

lemma show_int_nat: "0 \<le> p \<Longrightarrow> show_int p = dec (nat p)"
  by (simp add: show_int_def)

lemma import_export_line:
  assumes "row_plain B r" "kh_get db (row_key r) = None"
  shows "snd (import_line B now (export_line r) (s, db)) =
    (if CHR '':'' \<in> set (kh_host r) then db else kh_put (row_key r) (row_val now r) db)"
proof -
  have p: "show_int (kh_port r) = dec (nat (kh_port r))" "1 \<le> nat (kh_port r)" "nat (kh_port r) \<le> 65535"
    using assms(1) by (auto simp: row_plain_def show_int_nat)
  have parse: "parse_line B (export_line r) = (if CHR '':'' \<in> set (kh_host r) then []
      else [\<lparr> pe_host_port = format_canonical (kh_host r) (nat (kh_port r)), pe_key_type = kh_key_type r,
              pe_key_base64 = kh_key_base64 r \<rparr>])"
    using parse_export_line [of "kh_host r" "kh_key_type r" "kh_key_base64 r" B "nat (kh_port r)"] assms(1) p
    by (simp add: row_plain_def export_line_def)
  show ?thesis
  proof (cases "CHR '':'' \<in> set (kh_host r)")
    case True
    then show ?thesis using parse by (simp add: import_line_def)
  next
    case False
    have "kh_host r \<noteq> []" using assms(1) by (auto simp: row_plain_def)
    then have "split_host_port (format_canonical (kh_host r) (nat (kh_port r))) = Some (row_key r)"
      using split_format [of "kh_host r" "nat (kh_port r)"] False assms(1) p
      by (simp add: row_plain_def row_key_def)
    then show ?thesis
      using False parse assms(2) by (simp add: import_line_def import_entry_put row_val_def)
  qed
qed

lemma import_export_lines:
  assumes "\<forall>r \<in> set rs. row_plain B r \<and> kh_get db (row_key r) = None" "distinct (map row_key rs)"
  shows "snd (fold (import_line B now) (map export_line rs) (s, db)) =
    fold (\<lambda>(k, v). kh_put k v) (map (\<lambda>r. (row_key r, row_val now r)) (filter (\<lambda>r. CHR '':'' \<notin> set (kh_host r)) rs)) db"
  using assms
proof (induction rs arbitrary: s db)
  case (Cons r rs)
  let ?st = "import_line B now (export_line r) (s, db)"
  have db: "snd ?st = (if CHR '':'' \<in> set (kh_host r) then db else kh_put (row_key r) (row_val now r) db)"
    using Cons.prems by (intro import_export_line) auto
  then have "\<forall>q \<in> set rs. row_plain B q \<and> kh_get (snd ?st) (row_key q) = None"
    using Cons.prems by (auto simp: kh_get_put) (metis image_eqI)
  then have "snd (fold (import_line B now) (map export_line rs) (fst ?st, snd ?st)) =
      fold (\<lambda>(k, v). kh_put k v) (map (\<lambda>r. (row_key r, row_val now r)) (filter (\<lambda>r. CHR '':'' \<notin> set (kh_host r)) rs)) (snd ?st)"
    using Cons.prems by (intro Cons.IH) auto
  then have "snd (fold (import_line B now) (map export_line rs) ?st) =
      fold (\<lambda>(k, v). kh_put k v) (map (\<lambda>r. (row_key r, row_val now r)) (filter (\<lambda>r. CHR '':'' \<notin> set (kh_host r)) rs)) (snd ?st)"
    by (simp only: prod.collapse)
  then show ?case using db by (cases "CHR '':'' \<in> set (kh_host r)") simp_all
qed simp

lemma split_on_lines:
  "\<forall>l \<in> set ls. d \<notin> set l \<Longrightarrow> split_on d (concat (map (\<lambda>l. l @ [d]) ls)) = ls @ [[]]"
  by (induction ls) auto

lemma export_line_no_newline: "row_plain B r \<Longrightarrow> CHR 0x0A \<notin> set (export_line r)"
  using word_ok_not_newline [of "dec (nat (kh_port r))"]
  by (auto simp: row_plain_def export_line_def show_int_nat dest: word_ok_not_newline)

lemma import_blank_line: "import_line B now [] st = st"
proof -
  have "trim [] = []" using length_trim_le [of "[]"] by simp
  then show ?thesis by (simp add: import_line_def parse_line_def is_hashed_hosts_line_def)
qed

text \<open>All entries of one line carry the same key; each is looked up afterwards.\<close>

lemma import_entries_get:
  assumes "\<forall>e \<in> set es. pe_key_type e = t \<and> pe_key_base64 e = b" "e \<in> set es"
    and "split_host_port (pe_host_port e) = Some k" "kh_get db k = None"
  shows "kh_get (snd (fold (import_entry now) es (s, db))) k = Some (t, b, now)"
  using assms
proof (induction es arbitrary: s db)
  case (Cons x xs)
  let ?st = "import_entry now x (s, db)"
  have x: "pe_key_type x = t" "pe_key_base64 x = b" using Cons.prems by auto
  show ?case
  proof (cases "split_host_port (pe_host_port x) = Some k")
    case True
    then have "kh_get (snd ?st) k = Some (t, b, now)"
      using import_entry_put [of x k db now s] Cons.prems x by (simp add: kh_get_put)
    moreover have "import_rel ?st (fold (import_entry now) xs ?st)"
      by (rule import_rel_fold) (rule import_rel_entry)
    ultimately have "kh_get (snd (fold (import_entry now) xs ?st)) k = Some (t, b, now)"
      unfolding import_rel_def kh_keeps_def by blast
    then show ?thesis by simp
  next
    case False
    have "kh_get (snd ?st) k = None"
    proof (cases "split_host_port (pe_host_port x)")
      case None
      then show ?thesis using Cons.prems by (simp add: import_entry_def)
    next
      case l: (Some l)
      show ?thesis
      proof (cases "kh_get db l")
        case None
        then show ?thesis using import_entry_put [OF l, of db now s] False l Cons.prems by (simp add: kh_get_put)
      next
        case (Some v)
        with l show ?thesis
          using Cons.prems by (cases l) (auto simp: import_entry_def kh_get_def)
      qed
    qed
    moreover have "e \<in> set xs" using False Cons.prems by auto
    ultimately have "kh_get (snd (fold (import_entry now) xs (fst ?st, snd ?st))) k = Some (t, b, now)"
      using Cons.prems by (intro Cons.IH) auto
    then show ?thesis by simp
  qed
qed simp

lemma parse_line_key: "\<exists>t k. \<forall>e \<in> set (parse_line B l). pe_key_type e = t \<and> pe_key_base64 e = k"
proof -
  define ws where "ws = dropWhile (starts_with ''@'') (split_whitespace (trim l))"
  consider "length ws < 3" | h t k r where "ws = h # t # k # r"
    by (cases ws rule: remdups_adj.cases; cases "tl (tl ws)") auto
  then show ?thesis
  proof cases
    case 1
    then have "parse_line B l = []"
      by (auto simp: parse_line_def Let_def ws_def [symmetric] split: list.splits)
    then show ?thesis by simp
  next
    case 2
    then show ?thesis
      by (intro exI [of _ t] exI [of _ k])
         (auto simp: parse_line_def Let_def ws_def [symmetric] split: if_splits option.splits)
  qed
qed

lemma import_one_line_accepts:
  assumes "CHR 0x0A \<notin> set l" "e \<in> set (parse_line B l)" "split_host_port (pe_host_port e) = Some (h, p)"
    and "get_by_host_port db h p = None"
  shows "check_host (fst (snd (import_from_string B l now db))) h p (pe_key_type e) (pe_key_base64 e) = Accepted"
proof -
  let ?s = "\<lparr> added = 0, skipped_existing = 0, skipped_hashed = 0 \<rparr>"
  have "parse_line B l \<noteq> []" using assms(2) by auto
  then have "import_line B now l (?s, db) = fold (import_entry now) (parse_line B l) (?s, db)"
    by (simp add: import_line_def Let_def)
  moreover have "kh_get (snd (fold (import_entry now) (parse_line B l) (?s, db))) (h, p) =
      Some (pe_key_type e, pe_key_base64 e, now)"
  proof -
    obtain t k where "\<forall>e \<in> set (parse_line B l). pe_key_type e = t \<and> pe_key_base64 e = k"
      using parse_line_key by blast
    then show ?thesis
      using import_entries_get [of "parse_line B l" t k e "(h, p)" db now ?s] assms by (simp add: kh_get_None)
  qed
  ultimately have "kh_get (fst (snd (import_from_string B l now db))) (h, p) = Some (pe_key_type e, pe_key_base64 e, now)"
    using assms(1) by (simp add: import_from_string_def split_beta)
  then show ?thesis by (auto simp: kh_get_def check_host_def)
qed

text \<open>What the parser accepts as a host, the store can split.\<close>

lemma normalise_splits:
  assumes "normalise_host_spec spec = Some hp" "\<not> starts_with ''[['' (trim spec)"
  shows "\<exists>h p. hp = format_canonical h p \<and> split_host_port hp = Some (h, int p) \<and> 1 \<le> p \<and> p \<le> 65535"
proof (cases "strip_prefix ''['' (trim spec)")
  case None
  let ?s = "trim spec"
  have s: "?s \<noteq> []" "hd ?s \<noteq> CHR ''[''"
    using assms(1) None by (auto simp: normalise_host_spec_def Let_def) (cases ?s; auto)
  show ?thesis
  proof (cases "CHR '':'' \<in> set ?s")
    case False
    then have "hp = format_canonical ?s 22"
      using assms(1) None s by (simp add: normalise_host_spec_def Let_def count_list_0)
    then show ?thesis using split_format [of ?s 22] s False by (intro exI [of _ ?s] exI [of _ 22]) simp
  next
    case True
    then have "0 < count_list ?s (CHR '':'')" by (meson count_list_0_iff gr0I)
    then obtain h ps p where h: "split_once (CHR '':'') ?s = Some (h, ps)" "u32_port ps = Some p" "h \<noteq> []"
        "hp = format_canonical h p"
      using assms(1) None s by (auto simp: normalise_host_spec_def Let_def split: if_splits option.splits)
    then obtain i where i: "find_idx ((=) (CHR '':'')) ?s = Some i" "h = take i ?s" by (auto simp: split_once_def)
    then have nocolon: "CHR '':'' \<notin> set h" by (auto simp: find_idx_Some in_set_conv_nth)
    have "hd h = hd ?s" using h(3) i(2) by (cases i; cases ?s) auto
    then show ?thesis
      using split_format [of h p] nocolon h s u32_port_range [OF h(2)] by (intro exI [of _ h] exI [of _ p]) simp
  qed
next
  case (Some rest)
  then obtain close where c: "find_idx ((=) (CHR '']'')) rest = Some close" "take close rest \<noteq> []"
    using assms(1) by (auto simp: normalise_host_spec_def Let_def split: if_splits option.splits)
  let ?h = "take close rest"
  have nb: "CHR '']'' \<notin> set ?h" using c by (auto simp: find_idx_Some in_set_conv_nth)
  have "hd ?h \<noteq> CHR ''[''" using Some assms(2) c(2) by (cases rest; cases close) (auto simp: starts_with_iff)
  then have split: "split_host_port (format_canonical ?h p) = Some (?h, int p)" if "1 \<le> p" "p \<le> 65535" for p
    using split_format [of ?h p] nb c that by simp
  obtain p where p: "hp = format_canonical ?h p" "1 \<le> p" "p \<le> 65535"
    using assms(1) Some c by (auto simp: normalise_host_spec_def Let_def dest: u32_port_range split: if_splits option.splits)
  then show ?thesis using split [OF p(2,3)] by (intro exI [of _ ?h] exI [of _ p]) simp
qed

section \<open>Properties\<close>

text \<open>
  Import is additive: whatever text is imported, every entry of the table before is still there
  with the same key, \<open>(host, port)\<close> stays unique, the reported number of added entries is the
  growth of the table, and the change event is published exactly if it grew.
\<close>

theorem import_additive:
  assumes "kh_unique db" and "import_from_string B content now db = (summary, db', event)"
  shows "(\<forall>h p r. get_by_host_port db h p = Some r \<longrightarrow>
            (\<exists>r'. get_by_host_port db' h p = Some r' \<and> kh_key_type r' = kh_key_type r \<and>
                  kh_key_base64 r' = kh_key_base64 r)) \<and>
         kh_unique db' \<and> length (kh_rows db') = length (kh_rows db) + added summary \<and>
         (event \<longleftrightarrow> length (kh_rows db') > length (kh_rows db))"
proof -
  let ?st = "(\<lparr> added = 0, skipped_existing = 0, skipped_hashed = 0 \<rparr>, db)"
  have "import_rel ?st (fold (import_line B now) (split_on (CHR 0x0A) content) ?st)"
    by (rule import_rel_fold) (rule import_rel_line)
  then have rel: "import_rel ?st (summary, db')" and ev: "event \<longleftrightarrow> added summary > 0"
    using assms(2) by (auto simp: import_from_string_def split: prod.splits)
  have "\<exists>r'. get_by_host_port db' h p = Some r' \<and> kh_key_type r' = kh_key_type r \<and> kh_key_base64 r' = kh_key_base64 r"
    if "get_by_host_port db h p = Some r" for h p r
  proof -
    have "kh_get db (h, p) = Some (kh_key_type r, kh_key_base64 r, kh_added_at_ms r)"
      using that by (simp add: kh_get_def)
    then have "kh_get db' (h, p) = Some (kh_key_type r, kh_key_base64 r, kh_added_at_ms r)"
      using rel by (simp add: import_rel_def kh_keeps_def)
    then show ?thesis by (auto simp: kh_get_def)
  qed
  with rel ev assms(1) show ?thesis by (auto simp: import_rel_def)
qed

theorem import_additive_witness:
  "let r = import_from_string b64_ref ''a:22 t k'' 9 kh_empty in length (kh_rows (fst (snd r))) = added (fst r)"
  using import_additive [of kh_empty b64_ref "''a:22 t k''" 9
      "fst (import_from_string b64_ref ''a:22 t k'' 9 kh_empty)"
      "fst (snd (import_from_string b64_ref ''a:22 t k'' 9 kh_empty))"
      "snd (snd (import_from_string b64_ref ''a:22 t k'' 9 kh_empty))"]
  by (simp add: Let_def kh_unique_def kh_empty_def)

text \<open>
  Exporting the table and importing the text into an empty one gives back every entry whose host
  has no colon, and loses every entry whose host has one: the exporter writes an IPv6 host without
  brackets and the importer drops such a line.
\<close>

theorem export_import:
  assumes "kh_unique db" and "\<forall>r \<in> set (kh_rows db). row_plain B r"
  shows "kh_get (fst (snd (import_from_string B (export_to_string db) now kh_empty))) (h, p) =
    (if CHR '':'' \<in> set h then None
     else map_option (row_val now) (get_by_host_port db h p))"
proof -
  let ?rs = "sort_key row_key (list_all_rows db)" and ?ok = "\<lambda>r. CHR '':'' \<notin> set (kh_host r)"
  let ?kvs = "map (\<lambda>r. (row_key r, row_val now r)) (filter ?ok ?rs)"
  have set: "set ?rs = set (kh_rows db)" and "mset ?rs = mset (kh_rows db)" by (simp_all add: list_all_rows_def)
  then have d: "distinct (map row_key ?rs)"
    using assms(1) unfolding kh_unique_def by (metis mset_eq_imp_distinct_iff mset_map)
  have lines: "split_on (CHR 0x0A) (export_to_string db) = map export_line ?rs @ [[]]"
    using split_on_lines [of "map export_line ?rs" "CHR 0x0A"] assms(2) export_line_no_newline set
    by (auto simp: export_to_string_def comp_def)
  have "fst (snd (import_from_string B (export_to_string db) now kh_empty)) = fold (\<lambda>(k, v). kh_put k v) ?kvs kh_empty"
    using import_export_lines [OF _ d, of B kh_empty now] assms(2) set lines
    by (simp add: import_from_string_def import_blank_line split_beta kh_get_empty)
  then have "kh_get (fst (snd (import_from_string B (export_to_string db) now kh_empty))) (h, p) = map_of (rev ?kvs) (h, p)"
    by (simp add: kh.get_puts kh_get_empty split: option.splits)
  also have "\<dots> = map_of ?kvs (h, p)"
  proof -
    have "distinct (map fst ?kvs)" using d by (simp add: comp_def distinct_map_filter)
    then show ?thesis using map_of_inject_set [of "rev ?kvs" ?kvs] by (simp add: rev_map [symmetric])
  qed
  also have "\<dots> = (if CHR '':'' \<in> set h then None else map_option (row_val now) (get_by_host_port db h p))"
  proof (cases "map_of ?kvs (h, p)")
    case None
    then have "\<forall>r \<in> set (kh_rows db). ?ok r \<longrightarrow> row_key r \<noteq> (h, p)" using set by (force simp: map_of_eq_None_iff)
    then have "CHR '':'' \<notin> set h \<Longrightarrow> get_by_host_port db h p = None"
      by (auto simp: get_by_host_port_def find_None_iff row_key_def)
    with None show ?thesis by auto
  next
    case (Some v)
    then obtain r where r: "r \<in> set (kh_rows db)" "?ok r" "row_key r = (h, p)" "v = row_val now r"
      using set by (auto dest!: map_of_SomeD)
    moreover have "get_by_host_port db h p = Some r"
    proof -
      obtain r' where r': "get_by_host_port db h p = Some r'"
        using r by (cases "get_by_host_port db h p") (auto simp: get_by_host_port_def find_None_iff row_key_def)
      then have "r' \<in> set (kh_rows db)" "row_key r' = (h, p)"
        by (auto simp: get_by_host_port_def find_Some_iff row_key_def)
      with r assms(1) have "r' = r" by (auto simp: kh_unique_def distinct_map inj_on_def)
      with r' show ?thesis by simp
    qed
    ultimately show ?thesis using Some by (auto simp: row_key_def)
  qed
  finally show ?thesis .
qed

theorem export_import_witness:
  "let db = \<lparr> kh_rows = [\<lparr> kh_id = 1, kh_host = ''::1'', kh_port = 22, kh_key_type = ''t'', kh_key_base64 = ''k'', kh_added_at_ms = 0 \<rparr>],
              kh_seq = 1 \<rparr>
   in kh_get (fst (snd (import_from_string b64_ref (export_to_string db) 5 kh_empty))) (''::1'', 22) = None"
  using export_import [of "\<lparr> kh_rows = [\<lparr> kh_id = 1, kh_host = ''::1'', kh_port = 22, kh_key_type = ''t'',
      kh_key_base64 = ''k'', kh_added_at_ms = 0 \<rparr>], kh_seq = 1 \<rparr>" b64_ref 5 "''::1''" 22]
  by (simp add: kh_unique_def row_plain_def word_ok_def graphic_def is_valid_standard_base64_def b64_ref_def)

text \<open>
  C37. An imported key is the one a later connection is checked against: after importing one line into
  a table without that host, the check of every host on the line, looked up by bare name and port
  as the connection does (IPv6 brackets removed), accepts exactly the key of the line, including when
  the line carries a marker.
\<close>

theorem imported_host_accepted:
  assumes "CHR 0x0A \<notin> set l" and "e \<in> set (parse_line B l)"
    and "split_host_port (pe_host_port e) = Some (h, p)" and "get_by_host_port db h p = None"
  shows "check_host (fst (snd (import_from_string B l now db))) h p key_type key = Accepted \<longleftrightarrow>
    key_type = pe_key_type e \<and> key = pe_key_base64 e"
  using import_one_line_accepts [OF assms, of now]
  by (auto simp: check_host_def split: option.splits if_splits)

theorem imported_host_accepted_witness:
  "check_host (fst (snd (import_from_string b64_ref ''a:22 t k'' 5 kh_empty))) ''a'' 22 ''t'' ''k'' = Accepted"
proof -
  have d: "dec 22 = ''22''" by code_simp
  have p: "parse_line b64_ref (''a:22 t k'') = [\<lparr> pe_host_port = ''a:22'', pe_key_type = ''t'', pe_key_base64 = ''k'' \<rparr>]"
    using parse_export_line [of "''a''" "''t''" "''k''" b64_ref 22]
    by (simp add: word_ok_def graphic_def is_valid_standard_base64_def b64_ref_def d format_canonical_def)
  have "split_host_port ''a:22'' = Some (''a'', 22)"
    using split_format [of "''a''" 22] by (simp add: format_canonical_def d)
  then show ?thesis
    using imported_host_accepted [of "''a:22 t k''" "\<lparr> pe_host_port = ''a:22'', pe_key_type = ''t'', pe_key_base64 = ''k'' \<rparr>"
        b64_ref "''a''" 22 kh_empty 5 "''t''" "''k''"] p
    by (simp add: get_by_host_port_def kh_empty_def)
qed

text \<open>
  A revoked key becomes a trusted one: importing a line marked \<open>@revoked\<close> stores its key, and
  the host check then accepts it.
\<close>

theorem revoked_key_is_trusted:
  assumes "word_ok h" "hd h \<notin> {CHR ''['', CHR ''#'', CHR ''@'', CHR ''|''}" "CHR '','' \<notin> set h" "CHR '':'' \<notin> set h"
    and "1 \<le> p" "p \<le> 65535" "word_ok t" "word_ok k" "is_valid_standard_base64 B k"
  shows "check_host (fst (snd (import_from_string B
      (''@revoked '' @ h @ '':'' @ dec p @ '' '' @ t @ '' '' @ k) now kh_empty))) h (int p) t k = Accepted"
proof -
  let ?a = "h @ '':'' @ dec p" and ?e = "\<lparr> pe_host_port = format_canonical h p, pe_key_type = t, pe_key_base64 = k \<rparr>"
  let ?l = "?a @ '' '' @ t @ '' '' @ k"
  have a: "word_ok ?a" using assms by (intro word_ok_append) (auto simp: graphic_def)
  note w = three_words [OF a assms(7,8)]
  have parse: "parse_line B ?l = [?e]" using parse_export_line [OF assms(1,2,3,7,8,9), of p] assms(4-6) by simp
  have sw: "split_whitespace (''@revoked '' @ ?l) = ''@revoked'' # split_whitespace ?l"
    using split_whitespace_words(1) [of "''@revoked''" ?l] by (simp add: no_ws_graphic graphic_def)
  have tr: "trim (''@revoked '' @ ?l) = ''@revoked '' @ ?l"
  proof (rule trim_graphic_ends)
    show "graphic (hd (''@revoked '' @ ?l))" by (simp add: graphic_def)
    show "graphic (last (''@revoked '' @ ?l))" using assms(8) by simp
  qed simp
  have "\<not> starts_with ''#'' ?l" using assms(1,2) by (cases h) (auto simp: starts_with_iff)
  then have "parse_line B (''@revoked '' @ ?l) = parse_line B ?l"
    using a w unfolding parse_line_def Let_def sw tr by (simp add: starts_with_iff)
  moreover have "CHR 0x0A \<notin> set (''@revoked '' @ ?l)"
    using word_ok_not_newline [OF assms(1)] word_ok_not_newline [OF assms(7)] word_ok_not_newline [OF assms(8)]
      word_ok_not_newline [of "dec p"] by simp
  moreover have "split_host_port (format_canonical h p) = Some (h, int p)"
    using assms by (intro split_format) auto
  ultimately show ?thesis
    using import_one_line_accepts [of "''@revoked '' @ ?l" ?e B h "int p" kh_empty now] parse
    by (simp add: get_by_host_port_def kh_empty_def)
qed

theorem revoked_key_is_trusted_witness:
  "check_host (fst (snd (import_from_string b64_ref
      (''@revoked '' @ ''a'' @ '':'' @ dec 22 @ '' '' @ ''t'' @ '' '' @ ''k'') 5 kh_empty))) ''a'' 22 ''t'' ''k'' = Accepted"
  using revoked_key_is_trusted [of "''a''" 22 "''t''" "''k''" b64_ref 5]
  by (simp add: word_ok_def graphic_def is_valid_standard_base64_def b64_ref_def)

end
