(* ===== verification/Recorder_Text.thy ===== *)
theory Recorder_Text
  imports Interfaces
begin

text \<open>
  The text of an asciinema record, \<open>recorder/mod.rs\<close>: the lossy decoding of terminal bytes, the
  JSON escaping with its treatment of bidirectional controls, and the header and event lines.
  Text is kept as its UTF-8 bytes.  \<open>json_escape\<close> iterates over characters in the source; every
  character it treats specially is recognisable from its bytes, and the bytes of the others are
  copied, so the model works on the bytes.
\<close>

section \<open>Definitions\<close>

text \<open>\<open>String::from_utf8_lossy\<close>: each maximal invalid prefix becomes one U+FFFD.\<close>

definition replacement :: bytes where
  "replacement = [0xEF, 0xBF, 0xBD]"

abbreviation cont :: "byte \<Rightarrow> bool" where
  "cont \<equiv> in_range 0x80 0xBF"

fun utf8_lossy :: "bytes \<Rightarrow> bytes" where
  "utf8_lossy [] = []"
| "utf8_lossy (a # r) =
     (if unat a < 0x80 then a # utf8_lossy r
      else if in_range 0xC2 0xDF a then
        (case r of b # r' \<Rightarrow> if utf8_second a b then a # b # utf8_lossy r' else replacement @ utf8_lossy r
         | [] \<Rightarrow> replacement)
      else if in_range 0xE0 0xEF a then
        (case r of b # r1 \<Rightarrow>
           if \<not> utf8_second a b then replacement @ utf8_lossy r
           else (case r1 of c # r' \<Rightarrow> if cont c then a # b # c # utf8_lossy r' else replacement @ utf8_lossy r1
                 | [] \<Rightarrow> replacement)
         | [] \<Rightarrow> replacement)
      else if in_range 0xF0 0xF4 a then
        (case r of b # r1 \<Rightarrow>
           if \<not> utf8_second a b then replacement @ utf8_lossy r
           else (case r1 of c # r2 \<Rightarrow>
                   if \<not> cont c then replacement @ utf8_lossy r1
                   else (case r2 of d # r' \<Rightarrow>
                           if cont d then a # b # c # d # utf8_lossy r' else replacement @ utf8_lossy r2
                         | [] \<Rightarrow> replacement)
                 | [] \<Rightarrow> replacement)
         | [] \<Rightarrow> replacement)
      else replacement @ utf8_lossy r)"

declare utf8_lossy.simps(2) [simp del]

definition hex_digit :: "nat \<Rightarrow> byte" where
  "hex_digit n = of_nat (if n < 10 then 48 + n else 87 + n)"

text \<open>\<open>\uXXXX\<close> of a code point below 0x10000.\<close>

definition unicode_escape :: "nat \<Rightarrow> bytes" where
  "unicode_escape cp =
     [0x5C, 0x75, hex_digit (cp div 4096 mod 16), hex_digit (cp div 256 mod 16),
      hex_digit (cp div 16 mod 16), hex_digit (cp mod 16)]"

text \<open>The code point of a bidirectional control at the front: U+202A to U+202E, U+2066 to U+2069.\<close>

fun bidi_control :: "bytes \<Rightarrow> (nat \<times> bytes) option" where
  "bidi_control (a # b # c # r) =
     (if a = 0xE2 \<and> b = 0x80 \<and> in_range 0xAA 0xAE c then Some (0x2000 + (unat c - 0x80), r)
      else if a = 0xE2 \<and> b = 0x81 \<and> in_range 0xA6 0xA9 c then Some (0x2040 + (unat c - 0x80), r)
      else None)"
| "bidi_control _ = None"

definition escape_byte :: "byte \<Rightarrow> bytes" where
  "escape_byte a =
     (if a = 0x22 then [0x5C, 0x22]
      else if a = 0x5C then [0x5C, 0x5C]
      else if a = 0x0A then [0x5C, 0x6E]
      else if a = 0x0D then [0x5C, 0x72]
      else if a = 0x09 then [0x5C, 0x74]
      else if a = 0x08 then [0x5C, 0x62]
      else if a = 0x0C then [0x5C, 0x66]
      else if unat a < 0x20 then unicode_escape (unat a)
      else [a])"

lemma bidi_control_shorter: "bidi_control s = Some (cp, r) \<Longrightarrow> length r < length s"
  by (cases s rule: bidi_control.cases) (auto split: if_splits)

function json_escape :: "bytes \<Rightarrow> bytes" where
  "json_escape [] = []"
| "json_escape (a # r) =
     (case bidi_control (a # r) of
        Some (cp, r') \<Rightarrow> unicode_escape cp @ json_escape r'
      | None \<Rightarrow> escape_byte a @ json_escape r)"
  by pat_completeness auto
termination
  by (relation "measure length") (auto dest: bidi_control_shorter)

datatype RecordDirection = Output | Input

definition kind_char :: "RecordDirection \<Rightarrow> string" where
  "kind_char kind = (case kind of Output \<Rightarrow> ''o'' | Input \<Rightarrow> ''i'')"

text \<open>
  \<open>delta\<close> is the text \<open>format_delta\<close> prints for the elapsed seconds, a decimal number.
\<close>

definition event_line :: "string \<Rightarrow> RecordDirection \<Rightarrow> bytes \<Rightarrow> bytes" where
  "event_line delta kind bs =
     str_bytes (''['' @ delta @ '','' @ [CHR 0x22] @ kind_char kind @ [CHR 0x22] @ '','' @ [CHR 0x22]) @
     json_escape (utf8_lossy bs) @ str_bytes ([CHR 0x22] @ '']'' @ [CHR 0x0A])"

definition quoted :: "string \<Rightarrow> string" where
  "quoted s = [CHR 0x22] @ s @ [CHR 0x22]"

definition header_line :: "nat \<Rightarrow> nat \<Rightarrow> nat \<Rightarrow> bytes \<Rightarrow> bytes" where
  "header_line width height timestamp_secs shell_label =
     str_bytes (''{'' @ quoted ''version'' @ '':2,'' @ quoted ''width'' @ '':'' @ dec width @ '','' @
       quoted ''height'' @ '':'' @ dec height @ '','' @ quoted ''timestamp'' @ '':'' @ dec timestamp_secs @ '','' @
       quoted ''env'' @ '':{'' @ quoted ''TERM'' @ '':'' @ quoted ''xterm-256color'' @ '','' @
       quoted ''SHELL'' @ '':'' @ [CHR 0x22]) @
     json_escape shell_label @ str_bytes ([CHR 0x22] @ ''}}'' @ [CHR 0x0A])"

section \<open>Decoded text is well-formed\<close>

lemma utf8_ok_replacement [simp]: "utf8_ok (replacement @ s) = utf8_ok s" "utf8_ok replacement"
  by (simp_all add: replacement_def in_range_def utf8_second_def)

lemma utf8_lead_cases:
  fixes a :: byte
  obtains (one) "unat a < 0x80"
    | (two) "\<not> unat a < 0x80" "in_range 0xC2 0xDF a"
    | (three) "\<not> unat a < 0x80" "\<not> in_range 0xC2 0xDF a" "in_range 0xE0 0xEF a"
    | (four) "\<not> unat a < 0x80" "\<not> in_range 0xC2 0xDF a" "\<not> in_range 0xE0 0xEF a" "in_range 0xF0 0xF4 a"
    | (bad) "\<not> unat a < 0x80" "\<not> in_range 0xC2 0xDF a" "\<not> in_range 0xE0 0xEF a" "\<not> in_range 0xF0 0xF4 a"
  by blast

lemma utf8_ok_lossy: "utf8_ok (utf8_lossy bs)"
proof (induction "length bs" arbitrary: bs rule: less_induct)
  case less
  show ?case
  proof (cases bs)
    case (Cons a r)
    have IH: "utf8_ok (utf8_lossy s)" if "length s \<le> length r" for s
      using less that Cons by simp
    show ?thesis
      unfolding Cons
    proof (cases a rule: utf8_lead_cases)
      case two
      then show "utf8_ok (utf8_lossy (a # r))" by (cases r) (simp_all add: IH utf8_lossy.simps(2) [of a])
    next
      case three
      then show "utf8_ok (utf8_lossy (a # r))"
        by (cases r; cases "tl r") (simp_all add: IH utf8_lossy.simps(2) [of a])
    next
      case four
      then show "utf8_ok (utf8_lossy (a # r))"
        by (cases r; cases "tl r"; cases "tl (tl r)") (simp_all add: IH utf8_lossy.simps(2) [of a])
    qed (simp_all add: IH utf8_lossy.simps(2) [of a])
  qed simp
qed

lemma utf8_lossy_id: "utf8_ok bs \<Longrightarrow> utf8_lossy bs = bs"
proof (induction "length bs" arbitrary: bs rule: less_induct)
  case less
  show ?case
  proof (cases bs)
    case (Cons a r)
    have IH: "utf8_lossy s = s" if "length s \<le> length r" "utf8_ok s" for s
      using less that Cons by simp
    show ?thesis
      using less.prems unfolding Cons
    proof (cases a rule: utf8_lead_cases)
      case two
      then show "utf8_lossy (a # r) = a # r" using less.prems Cons by (cases r) (simp_all add: IH utf8_lossy.simps(2) [of a])
    next
      case three
      then show "utf8_lossy (a # r) = a # r"
        using less.prems Cons by (cases r; cases "tl r") (simp_all add: IH utf8_lossy.simps(2) [of a])
    next
      case four
      then show "utf8_lossy (a # r) = a # r"
        using less.prems Cons by (cases r; cases "tl r"; cases "tl (tl r)") (simp_all add: IH utf8_lossy.simps(2) [of a])
    qed (simp_all add: IH utf8_lossy.simps(2) [of a])
  qed simp
qed

section \<open>An escaped record is one line\<close>

text \<open>A JSON string body as RFC 8259 reads it back, for the escapes below U+10000.\<close>

definition hex_val :: "byte \<Rightarrow> nat option" where
  "hex_val b =
     (if in_range 48 57 b then Some (unat b - 48)
      else if in_range 97 102 b then Some (unat b - 87)
      else if in_range 65 70 b then Some (unat b - 55) else None)"

definition utf8_encode :: "nat \<Rightarrow> bytes" where
  "utf8_encode cp =
     (if cp < 0x80 then [of_nat cp]
      else if cp < 0x800 then [of_nat (0xC0 + cp div 64), of_nat (0x80 + cp mod 64)]
      else [of_nat (0xE0 + cp div 4096), of_nat (0x80 + cp div 64 mod 64), of_nat (0x80 + cp mod 64)])"

definition simple_escape :: "byte \<Rightarrow> byte option" where
  "simple_escape b =
     map_of [(0x22, 0x22), (0x5C, 0x5C), (0x2F, 0x2F), (0x6E, 0x0A), (0x72, 0x0D), (0x74, 0x09), (0x62, 0x08), (0x66, 0x0C)] b"

fun json_unescape :: "bytes \<Rightarrow> bytes option" where
  "json_unescape [] = Some []"
| "json_unescape (a # r) =
     (if a \<noteq> 0x5C then (if a = 0x22 \<or> unat a < 0x20 then None else map_option ((#) a) (json_unescape r))
      else (case r of
              b # r1 \<Rightarrow>
                (if b = 0x75
                 then (case r1 of
                         h1 # h2 # h3 # h4 # r' \<Rightarrow>
                           (case (hex_val h1, hex_val h2, hex_val h3, hex_val h4) of
                              (Some d1, Some d2, Some d3, Some d4) \<Rightarrow>
                                map_option ((@) (utf8_encode (((d1 * 16 + d2) * 16 + d3) * 16 + d4))) (json_unescape r')
                            | _ \<Rightarrow> None)
                       | _ \<Rightarrow> None)
                 else (case simple_escape b of Some c \<Rightarrow> map_option ((#) c) (json_unescape r1) | None \<Rightarrow> None))
            | [] \<Rightarrow> None))"

lemma hex_val_digit: "n < 16 \<Longrightarrow> hex_val (hex_digit n) = Some n"
  by (auto simp: hex_val_def hex_digit_def in_range_def unat_of_nat)

lemma unescape_digits:
  assumes "d1 < 16" "d2 < 16" "d3 < 16" "d4 < 16"
  shows "json_unescape (0x5C # 0x75 # hex_digit d1 # hex_digit d2 # hex_digit d3 # hex_digit d4 # s) =
    map_option ((@) (utf8_encode (((d1 * 16 + d2) * 16 + d3) * 16 + d4))) (json_unescape s)"
  using assms by (subst json_unescape.simps) (simp add: hex_val_digit del: json_unescape.simps)

lemma hex_digits: "cp < 65536 \<Longrightarrow>
  ((cp div 4096 mod 16 * 16 + cp div 256 mod 16) * 16 + cp div 16 mod 16) * 16 + cp mod 16 = (cp :: nat)"
proof -
  assume cp: "cp < 65536"
  define q1 q2 q3 where "q1 = cp div 16" and "q2 = q1 div 16" and "q3 = q2 div 16"
  have e: "cp div 256 = q2" "cp div 4096 = q3" by (simp_all add: q1_def q2_def q3_def div_mult2_eq [symmetric])
  have "cp div 4096 < 16" using cp by linarith
  then have m: "q3 mod 16 = q3" using e by simp
  have d: "q1 * 16 + cp mod 16 = cp" "q2 * 16 + q1 mod 16 = q1" "q3 * 16 + q2 mod 16 = q2"
    by (simp_all add: q1_def q2_def q3_def)
  show ?thesis unfolding e q1_def [symmetric] m d ..
qed

lemma unescape_unicode:
  assumes "cp < 65536"
  shows "json_unescape (unicode_escape cp @ s) = map_option ((@) (utf8_encode cp)) (json_unescape s)"
  using unescape_digits [of "cp div 4096 mod 16" "cp div 256 mod 16" "cp div 16 mod 16" "cp mod 16" s]
  unfolding hex_digits [OF assms] unicode_escape_def by (simp del: json_unescape.simps)

lemma bidi_control_encode:
  assumes "bidi_control s = Some (cp, r)"
  shows "s = utf8_encode cp @ r \<and> cp < 65536"
proof -
  obtain a b c t where s: "s = a # b # c # t" using assms by (cases s rule: bidi_control.cases) auto
  have eq: "utf8_encode (0x2000 + k) = [0xE2, 0x80, of_nat (0x80 + k)]"
    "utf8_encode (0x2040 + k) = [0xE2, 0x81, of_nat (0x80 + k)]" if "k < 64" for k
  proof -
    have "(0x2000 + k) mod 64 = k" "(0x2040 + k) mod 64 = k"
      using that mod_mult_self1 [of k 128 64] mod_mult_self1 [of k 129 64] by (simp_all add: add.commute)
    moreover have "(0x2000 + k) div 4096 = 2" "(0x2000 + k) div 64 = 128"
      "(0x2040 + k) div 4096 = 2" "(0x2040 + k) div 64 = 129"
      using that by (linarith, linarith, linarith, linarith)
    ultimately show "utf8_encode (0x2000 + k) = [0xE2, 0x80, of_nat (0x80 + k)]"
      "utf8_encode (0x2040 + k) = [0xE2, 0x81, of_nat (0x80 + k)]"
      by (simp_all add: utf8_encode_def)
  qed
  show ?thesis
  proof (cases "a = 0xE2 \<and> b = 0x80 \<and> in_range 0xAA 0xAE c")
    case True
    then have "unat c - 0x80 < 64" "0x80 + (unat c - 0x80) = unat c" by (auto simp: in_range_def)
    with True assms s eq(1) [of "unat c - 0x80"] show ?thesis by auto
  next
    case False
    then have "a = 0xE2 \<and> b = 0x81 \<and> in_range 0xA6 0xA9 c" using assms s by (auto split: if_splits)
    moreover from this have "unat c - 0x80 < 64" "0x80 + (unat c - 0x80) = unat c" by (auto simp: in_range_def)
    ultimately show ?thesis using False assms s eq(2) [of "unat c - 0x80"] by auto
  qed
qed

lemma unescape_byte:
  "json_unescape (escape_byte a @ s) = map_option ((#) a) (json_unescape s)"
proof (cases "a \<in> {0x22, 0x5C, 0x0A, 0x0D, 0x09, 0x08, 0x0C}")
  case True
  then show ?thesis by (auto simp: escape_byte_def simple_escape_def)
next
  case False
  show ?thesis
  proof (cases "unat a < 0x20")
    case True
    have "utf8_encode (unat a) = [a]" "(@) [a] = (#) a" using True by (simp_all add: utf8_encode_def fun_eq_iff)
    with True False unescape_unicode [of "unat a" s] show ?thesis
      by (simp add: escape_byte_def del: json_unescape.simps)
  next
    case large: False
    with False show ?thesis by (simp add: escape_byte_def)
  qed
qed

text \<open>
  Escaping is faithful: read back as a JSON string, an escaped text is the text, whatever control
  characters, quotes, backslashes and bidirectional controls it holds.
\<close>

theorem json_escape_round_trip: "json_unescape (json_escape s) = Some s"
proof (induction s rule: json_escape.induct)
  case (2 a r)
  show ?case
  proof (cases "bidi_control (a # r)")
    case None
    with 2(1) show ?thesis by (simp add: unescape_byte del: json_unescape.simps)
  next
    case (Some p)
    obtain cp r' where p: "p = (cp, r')" by (cases p)
    with Some have e: "utf8_encode cp @ r' = a # r" "cp < 65536"
      using bidi_control_encode [of "a # r" cp r'] by simp_all
    have "json_escape (a # r) = unicode_escape cp @ json_escape r'" using Some p by simp
    with 2(2) [OF Some p [symmetric]] e show ?thesis
      by (simp only: unescape_unicode option.map)
  qed
qed simp

text \<open>No byte of an escaped text is a control byte, so a record has its line break at its end only.\<close>

lemma unicode_escape_printable: "\<forall>b \<in> set (unicode_escape cp). 0x20 \<le> unat b"
proof -
  have "0x20 \<le> unat (hex_digit n)" if "n < 16" for n
    using that by (auto simp: hex_digit_def unat_of_nat)
  then show ?thesis by (simp add: unicode_escape_def)
qed

lemma escape_printable: "\<forall>b \<in> set (json_escape s). 0x20 \<le> unat b"
proof (induction s rule: json_escape.induct)
  case (2 a r)
  have "\<forall>b \<in> set (escape_byte a). 0x20 \<le> unat b"
    using unicode_escape_printable [of "unat a"] by (simp add: escape_byte_def)
  with 2 unicode_escape_printable show ?case by (auto split: option.split)
qed simp

lemma utf8_ok_append: "utf8_ok x \<Longrightarrow> utf8_ok (x @ y) = utf8_ok y"
proof (induction "length x" arbitrary: x rule: less_induct)
  case less
  show ?case
  proof (cases x)
    case (Cons a r)
    have IH: "utf8_ok (s @ y) = utf8_ok y" if "length s \<le> length r" "utf8_ok s" for s
      using less that Cons by simp
    show ?thesis
      unfolding Cons
    proof (cases a rule: utf8_lead_cases)
      case two
      then show "utf8_ok ((a # r) @ y) = utf8_ok y" using less.prems Cons by (cases r) (simp_all add: IH)
    next
      case three
      then show "utf8_ok ((a # r) @ y) = utf8_ok y"
        using less.prems Cons by (cases r; cases "tl r") (simp_all add: IH)
    next
      case four
      then show "utf8_ok ((a # r) @ y) = utf8_ok y"
        using less.prems Cons by (cases r; cases "tl r"; cases "tl (tl r)") (simp_all add: IH)
    qed (use less.prems Cons in \<open>simp_all add: IH\<close>)
  qed simp
qed

lemma escape_byte_high: "0x80 \<le> unat a \<Longrightarrow> escape_byte a = [a]"
  by (auto simp: escape_byte_def)

lemma bidi_control_other: "a \<noteq> 0xE2 \<Longrightarrow> bidi_control (a # r) = None"
  by (cases "a # r" rule: bidi_control.cases) auto

lemma json_escape_cont: "cont a \<Longrightarrow> json_escape (a # r) = a # json_escape r"
  by (subgoal_tac "a \<noteq> 0xE2") (auto simp: escape_byte_high bidi_control_other in_range_def)

lemma utf8_second_cont: "utf8_second a b \<Longrightarrow> cont b"
  by (auto simp: utf8_second_def in_range_def split: if_splits)

lemma utf8_ok_ascii_append: "list_all (\<lambda>b. unat b < 128) x \<Longrightarrow> utf8_ok (x @ y) = utf8_ok y"
  by (simp add: utf8_ok_append utf8_ok_ascii)

lemma escape_ascii: "unat a < 128 \<Longrightarrow> list_all (\<lambda>b. unat b < 128) (escape_byte a)"
  "list_all (\<lambda>b. unat b < 128) (unicode_escape cp)"
proof -
  have d: "unat (hex_digit n) < 128" if "n < 16" for n
    using that by (auto simp: hex_digit_def unat_of_nat)
  show u: "list_all (\<lambda>b. unat b < 128) (unicode_escape cp)" for cp
    by (simp add: unicode_escape_def d)
  show "unat a < 128 \<Longrightarrow> list_all (\<lambda>b. unat b < 128) (escape_byte a)"
    using u [of "unat a"] by (simp add: escape_byte_def)
qed

lemma utf8_ok_escape: "utf8_ok s \<Longrightarrow> utf8_ok (json_escape s)"
proof (induction "length s" arbitrary: s rule: less_induct)
  case less
  show ?case
  proof (cases s)
    case (Cons a r)
    have IH: "utf8_ok (json_escape t)" if "length t \<le> length r" "utf8_ok t" for t
      using less that Cons by simp
    show ?thesis
    proof (cases "bidi_control (a # r)")
      case (Some p)
      obtain cp t where p: "p = (cp, t)" by (cases p)
      obtain b c where r: "r = b # c # t" "a = 0xE2" using Some p
        by (cases "a # r" rule: bidi_control.cases) (auto split: if_splits)
      have "utf8_ok t" using less.prems Cons r by (simp add: in_range_def)
      then show ?thesis
        using Cons Some p r IH [of t] by (simp add: utf8_ok_ascii_append escape_ascii)
    next
      case None
      then have e: "json_escape (a # r) = escape_byte a @ json_escape r" by simp
      show ?thesis
      proof (cases a rule: utf8_lead_cases)
        case one
        then show ?thesis using less.prems Cons e IH [of r] by (simp add: utf8_ok_ascii_append escape_ascii)
      next
        case two
        then obtain b t where "r = b # t" "utf8_second a b" "utf8_ok t"
          using less.prems Cons by (cases r) auto
        then show ?thesis using Cons e two IH [of t] utf8_second_cont [of a b]
          by (simp add: escape_byte_high json_escape_cont del: json_escape.simps)
      next
        case three
        then obtain b c t where "r = b # c # t" "utf8_second a b" "cont c" "utf8_ok t"
          using less.prems Cons by (cases r; cases "tl r") auto
        then show ?thesis using Cons e three IH [of t] utf8_second_cont [of a b]
          by (simp add: escape_byte_high json_escape_cont del: json_escape.simps)
      next
        case four
        then obtain b c d t where "r = b # c # d # t" "utf8_second a b" "cont c" "cont d" "utf8_ok t"
          using less.prems Cons by (cases r; cases "tl r"; cases "tl (tl r)") auto
        then show ?thesis using Cons e four IH [of t] utf8_second_cont [of a b]
          by (simp add: escape_byte_high json_escape_cont del: json_escape.simps)
      next
        case bad
        then show ?thesis using less.prems Cons by simp
      qed
    qed
  qed simp
qed

section \<open>Records are lines\<close>

definition ascii_text :: "string \<Rightarrow> bool" where
  "ascii_text s \<longleftrightarrow> list_all (\<lambda>b. 0x20 \<le> unat b \<and> unat b < 128) (str_bytes s)"

lemma ascii_text_append [simp]: "ascii_text (s @ t) \<longleftrightarrow> ascii_text s \<and> ascii_text t"
  by (simp add: ascii_text_def str_bytes_def)

text \<open>A record: a body without control bytes, and one line break at the end.\<close>

definition record_text :: "bytes \<Rightarrow> bool" where
  "record_text line \<longleftrightarrow> (\<exists>body. line = body @ [0x0A] \<and> body \<noteq> [] \<and> utf8_ok body \<and> (\<forall>b \<in> set body. 0x20 \<le> unat b))"

lemma record_textI:
  assumes "ascii_text pre" "pre \<noteq> []" "ascii_text post" "utf8_ok s"
  shows "record_text (str_bytes pre @ json_escape s @ str_bytes (post @ [CHR 0x0A]))"
proof -
  have "str_bytes (post @ [CHR 0x0A]) = str_bytes post @ [0x0A]" by (simp add: str_bytes_def)
  moreover have "utf8_ok (str_bytes pre @ json_escape s @ str_bytes post)"
    using assms by (simp add: ascii_text_def list_all_iff utf8_ok_ascii_append utf8_ok_append utf8_ok_escape utf8_ok_ascii)
  moreover have "str_bytes pre @ json_escape s @ str_bytes post \<noteq> []" using assms(2) by (simp add: str_bytes_def)
  moreover have "\<forall>b \<in> set (str_bytes pre @ json_escape s @ str_bytes post). 0x20 \<le> unat b"
    using assms escape_printable [of s] by (auto simp: ascii_text_def list_all_iff)
  ultimately show ?thesis unfolding record_text_def
    by (intro exI [of _ "str_bytes pre @ json_escape s @ str_bytes post"]) simp
qed

lemma ascii_text_digits: "ascii_text (dec n)"
proof -
  have "unat (of_char c :: byte) = of_char c" for c
    by (simp add: of_nat_of_char [where ?'a = byte, symmetric] unat_of_nat)
  then show ?thesis
    using dec_digits [of n] by (auto simp: ascii_text_def list_all_iff str_bytes_def is_ascii_digit_def)
qed

lemma ascii_text_consts [simp]: "ascii_text [CHR 0x22]" "ascii_text (kind_char kind)"
  by (cases kind; simp add: ascii_text_def str_bytes_def kind_char_def)+

lemma event_line_record:
  assumes "ascii_text delta"
  shows "record_text (event_line delta kind bs)"
proof -
  let ?pre = "''['' @ delta @ '','' @ [CHR 0x22] @ kind_char kind @ [CHR 0x22] @ '','' @ [CHR 0x22]"
  have "ascii_text ''[''" "ascii_text '',''" "ascii_text '']''"
    by (simp_all add: ascii_text_def str_bytes_def)
  with assms have "record_text (str_bytes ?pre @ json_escape (utf8_lossy bs) @
      str_bytes (([CHR 0x22] @ '']'') @ [CHR 0x0A]))"
    by (intro record_textI) (simp_all only: ascii_text_append ascii_text_consts utf8_ok_lossy, simp_all)
  then show ?thesis by (simp add: event_line_def)
qed

lemma header_line_record:
  assumes "utf8_ok shell"
  shows "record_text (header_line width height secs shell)"
proof -
  let ?pre = "(''{'' @ quoted ''version'' @ '':2,'' @ quoted ''width'' @ '':'') @ dec width @ ('','' @
       quoted ''height'' @ '':'') @ dec height @ ('','' @ quoted ''timestamp'' @ '':'') @ dec secs @ ('','' @
       quoted ''env'' @ '':{'' @ quoted ''TERM'' @ '':'' @ quoted ''xterm-256color'' @ '','' @
       quoted ''SHELL'' @ '':'' @ [CHR 0x22])"
  have "ascii_text ?pre"
    by (simp only: ascii_text_append ascii_text_digits simp_thms)
       (simp add: ascii_text_def str_bytes_def quoted_def)
  moreover have "ascii_text ([CHR 0x22] @ ''}}'')" by (simp add: ascii_text_def str_bytes_def)
  ultimately have "record_text (str_bytes ?pre @ json_escape shell @ str_bytes (([CHR 0x22] @ ''}}'') @ [CHR 0x0A]))"
    using assms by (intro record_textI) simp_all
  then show ?thesis by (simp add: header_line_def)
qed

end
