(* ===== verification/Recorder_Index.thy ===== *)
theory Recorder_Index
  imports Interfaces External
begin

text \<open>
  The seek index written beside a session recording, \<open>recorder/index_sidecar.rs\<close>: the 12-byte
  entries, the writer in plaintext and encrypted mode, the reader that stops at the first bad or
  incomplete block, and the search.  A file is its bytes; a crash leaves a prefix of them.
\<close>

section \<open>Definitions\<close>

definition LFI_MAGIC :: bytes where
  "LFI_MAGIC = [0x4C, 0x46, 0x49, 0x31]"

definition LFI_VERSION :: byte where
  "LFI_VERSION = 0x01"

definition ENTRY_PLAINTEXT_LEN :: nat where
  "ENTRY_PLAINTEXT_LEN = 12"

definition NONCE_LEN :: nat where
  "NONCE_LEN = 12"

definition sidecar_path :: "string \<Rightarrow> string" where
  "sidecar_path recording_path = recording_path @ ''.idx''"

record IndexEntry =
  offset :: "64 word"
  timestamp_ms :: "32 word"

definition encode_entry :: "IndexEntry \<Rightarrow> bytes" where
  "encode_entry e = le_bytes 8 (unat (offset e)) @ le_bytes 4 (unat (timestamp_ms e))"

definition decode_entry :: "bytes \<Rightarrow> IndexEntry" where
  "decode_entry bs = \<lparr> offset = of_nat (le_val (take 8 bs)), timestamp_ms = of_nat (le_val (drop 8 bs)) \<rparr>"

datatype recorder_error = OpenError | WriteError | CipherError | BlockLength nat | ShortBlock | PlaintextSize

record IndexWriter =
  iw_file :: bytes
  iw_key :: "bytes option"
  iw_next_seq :: nat

text \<open>\<open>io_ok\<close> says whether the directory, open, permission and write calls succeed.\<close>

definition index_create :: "bool \<Rightarrow> bytes option \<Rightarrow> recorder_error + IndexWriter" where
  "index_create io_ok key =
     (if \<not> io_ok then Inl OpenError
      else Inr \<lparr> iw_file = LFI_MAGIC @ [LFI_VERSION], iw_key = key, iw_next_seq = 0 \<rparr>)"

definition build_encrypted_block ::
  "aead_lib \<Rightarrow> bytes \<Rightarrow> bytes \<Rightarrow> bytes \<Rightarrow> nat \<Rightarrow> recorder_error + bytes" where
  "build_encrypted_block A nonce plaintext key seq =
     (case aead_seal A key nonce plaintext (le_bytes 8 seq) of
        None \<Rightarrow> Inl CipherError
      | Some ct \<Rightarrow> Inr (le_bytes 4 ENTRY_PLAINTEXT_LEN @ nonce @ ct))"

definition index_append ::
  "aead_lib \<Rightarrow> bool \<Rightarrow> bytes \<Rightarrow> IndexEntry \<Rightarrow> IndexWriter \<Rightarrow> recorder_error + IndexWriter" where
  "index_append A io_ok nonce entry w =
     (case (case iw_key w of
              None \<Rightarrow> Inr (encode_entry entry)
            | Some key \<Rightarrow> build_encrypted_block A nonce (encode_entry entry) key (iw_next_seq w)) of
        Inl e \<Rightarrow> Inl e
      | Inr block \<Rightarrow>
          if \<not> io_ok then Inl WriteError
          else Inr (w\<lparr> iw_file := iw_file w @ block,
                       iw_next_seq := min (iw_next_seq w + 1) (2 ^ 64 - 1) \<rparr>))"

text \<open>\<open>Ok(None)\<close> at the end of the file, else the entry and the bytes after the block.\<close>

definition read_encrypted_block ::
  "aead_lib \<Rightarrow> bytes \<Rightarrow> nat \<Rightarrow> bytes \<Rightarrow> recorder_error + (IndexEntry \<times> bytes) option" where
  "read_encrypted_block A key seq bs =
     (if length bs < 4 then Inr None
      else let pt_len = le_val (take 4 bs); r1 = drop 4 bs
      in if pt_len \<noteq> ENTRY_PLAINTEXT_LEN then Inl (BlockLength pt_len)
      else if length r1 < NONCE_LEN then Inl ShortBlock
      else let nonce = take NONCE_LEN r1; r2 = drop NONCE_LEN r1
      in if length r2 < pt_len + 16 then Inl ShortBlock
      else case aead_open A key nonce (take (pt_len + 16) r2) (le_bytes 8 seq) of
        None \<Rightarrow> Inl CipherError
      | Some pt \<Rightarrow> if length pt \<noteq> ENTRY_PLAINTEXT_LEN then Inl PlaintextSize
                   else Inr (Some (decode_entry pt, drop (pt_len + 16) r2)))"

function read_plain :: "bytes \<Rightarrow> IndexEntry list" where
  "read_plain bs =
     (if length bs < ENTRY_PLAINTEXT_LEN then []
      else decode_entry (take ENTRY_PLAINTEXT_LEN bs) # read_plain (drop ENTRY_PLAINTEXT_LEN bs))"
  by pat_completeness auto
termination
  by (relation "measure length") (auto simp: ENTRY_PLAINTEXT_LEN_def)

lemma read_encrypted_block_shorter:
  "read_encrypted_block A key seq bs = Inr (Some (e, rest)) \<Longrightarrow> length rest < length bs"
  by (auto simp: read_encrypted_block_def Let_def ENTRY_PLAINTEXT_LEN_def split: if_splits option.splits)

function read_blocks :: "aead_lib \<Rightarrow> bytes \<Rightarrow> nat \<Rightarrow> bytes \<Rightarrow> IndexEntry list" where
  "read_blocks A key seq bs =
     (case read_encrypted_block A key seq bs of
        Inr (Some (e, rest)) \<Rightarrow> e # read_blocks A key (min (seq + 1) (2 ^ 64 - 1)) rest
      | Inr None \<Rightarrow> []
      | Inl err \<Rightarrow> [])"
  by pat_completeness auto
termination
  by (relation "measure (\<lambda>(A, key, seq, bs). length bs)") (auto dest: read_encrypted_block_shorter)

declare read_plain.simps [simp del] read_blocks.simps [simp del]

datatype file_state = Missing | Unreadable | Content bytes

definition read_all :: "aead_lib \<Rightarrow> file_state \<Rightarrow> bytes option \<Rightarrow> recorder_error + IndexEntry list" where
  "read_all A file key =
     (case file of
        Missing \<Rightarrow> Inr []
      | Unreadable \<Rightarrow> Inl OpenError
      | Content bs \<Rightarrow>
          if length bs < 5 then Inr []
          else if take 4 bs \<noteq> LFI_MAGIC \<or> bs ! 4 \<noteq> LFI_VERSION then Inr []
          else Inr (case key of
                      Some k \<Rightarrow> read_blocks A k 0 (drop 5 bs)
                    | None \<Rightarrow> read_plain (drop 5 bs)))"

text \<open>\<open>slice::partition_point\<close> on a slice whose matching elements come first.\<close>

definition partition_point :: "('a \<Rightarrow> bool) \<Rightarrow> 'a list \<Rightarrow> nat" where
  "partition_point P xs = length (takeWhile P xs)"

definition search :: "IndexEntry list \<Rightarrow> nat \<Rightarrow> IndexEntry option" where
  "search entries target_ms =
     (if entries = [] then None
      else let idx = partition_point (\<lambda>e. unat (timestamp_ms e) \<le> target_ms) entries
           in if idx = 0 then None else Some (entries ! (idx - 1)))"

record SeekHit =
  hit_offset :: "64 word"
  hit_entry_index :: nat
  hit_timestamp_ms :: "32 word"

text \<open>\<open>fs\<close> gives the state of the file at a path.\<close>

definition seek ::
  "aead_lib \<Rightarrow> (string \<Rightarrow> file_state) \<Rightarrow> string \<Rightarrow> nat \<Rightarrow> bool \<Rightarrow> bytes option \<Rightarrow> recorder_error + SeekHit option" where
  "seek A fs recording_path target_ms encrypted key =
     (let idx_path = sidecar_path recording_path
      in if encrypted \<and> key = None then Inr None
         else case read_all A (fs idx_path) (if encrypted then key else None) of
           Inl e \<Rightarrow> Inl e
         | Inr entries \<Rightarrow>
             if entries = [] then Inr None
             else let idx = partition_point (\<lambda>e. unat (timestamp_ms e) \<le> target_ms) entries
                  in if idx = 0 then Inr None
                     else let entry = entries ! (idx - 1)
                          in Inr (Some \<lparr> hit_offset = offset entry, hit_entry_index = idx - 1,
                                         hit_timestamp_ms = timestamp_ms entry \<rparr>))"

section \<open>Entries\<close>

lemma length_encode_entry [simp]: "length (encode_entry e) = 12"
  by (simp add: encode_entry_def)

lemma decode_encode_entry [simp]: "decode_entry (encode_entry e) = e"
proof -
  have "unat (offset e) mod 256 ^ 8 = unat (offset e)" "unat (timestamp_ms e) mod 256 ^ 4 = unat (timestamp_ms e)"
    using unsigned_less [where ?'a = nat, of "offset e"] unsigned_less [where ?'a = nat, of "timestamp_ms e"]
    by simp_all
  then show ?thesis by (simp add: decode_entry_def encode_entry_def)
qed

interpretation entries: fixed_records encode_entry "\<lambda>bs. Some (decode_entry bs)" "\<lambda>e. True" ENTRY_PLAINTEXT_LEN read_plain
  by unfold_locales (auto simp: ENTRY_PLAINTEXT_LEN_def read_plain.simps)

section \<open>What a crash leaves readable\<close>

text \<open>The writer over a whole recording; each append draws a nonce.\<close>

fun append_all :: "aead_lib \<Rightarrow> (bytes \<times> IndexEntry) list \<Rightarrow> IndexWriter \<Rightarrow> recorder_error + IndexWriter" where
  "append_all A [] w = Inr w"
| "append_all A ((nonce, e) # xs) w =
     (case index_append A True nonce e w of Inl err \<Rightarrow> Inl err | Inr w' \<Rightarrow> append_all A xs w')"

lemma append_all_plain:
  "iw_key w = None \<Longrightarrow> append_all A xs w = Inr w' \<Longrightarrow>
     iw_file w' = iw_file w @ concat (map encode_entry (map snd xs))"
  by (induction A xs w rule: append_all.induct) (auto simp: index_append_def)

lemma block_read:
  assumes "aead_ok A" "length nonce = 12" "build_encrypted_block A nonce (encode_entry e) key seq = Inr b"
  shows "length b = 44" "read_encrypted_block A key seq (b @ rest) = Inr (Some (e, rest))"
proof -
  obtain ct where ct: "aead_seal A key nonce (encode_entry e) (le_bytes 8 seq) = Some ct"
      "b = le_bytes 4 12 @ nonce @ ct"
    using assms(3) by (auto simp: build_encrypted_block_def ENTRY_PLAINTEXT_LEN_def split: option.splits)
  note o = aead_okD [OF assms(1) ct(1)]
  then show "length b = 44" using ct assms(2) by simp
  show "read_encrypted_block A key seq (b @ rest) = Inr (Some (e, rest))"
    using o ct assms(2) by (simp add: read_encrypted_block_def Let_def ENTRY_PLAINTEXT_LEN_def NONCE_LEN_def)
qed

lemma read_blocks_short: "length bs < 44 \<Longrightarrow> read_blocks A key seq bs = []"
proof -
  assume "length bs < 44"
  then have "read_encrypted_block A key seq bs \<noteq> Inr (Some p)" for p
    by (auto simp: read_encrypted_block_def Let_def ENTRY_PLAINTEXT_LEN_def NONCE_LEN_def
        split: if_splits option.splits)
  then show ?thesis by (subst read_blocks.simps) (simp split: sum.splits option.splits)
qed

lemma append_all_encrypted:
  assumes "aead_ok A" "iw_key w = Some key" "append_all A xs w = Inr w'" "\<forall>x \<in> set xs. length (fst x) = 12"
  shows "\<exists>B. iw_file w' = iw_file w @ B \<and>
    (\<forall>n. read_blocks A key (iw_next_seq w) (take n B) = take (n div 44) (map snd xs))"
  using assms(2-)
proof (induction xs arbitrary: w)
  case Nil
  then show ?case by (simp add: read_blocks_short)
next
  case (Cons x xs)
  obtain nonce e where x: "x = (nonce, e)" by (cases x)
  obtain b where b: "build_encrypted_block A nonce (encode_entry e) key (iw_next_seq w) = Inr b"
    using Cons.prems x by (auto simp: index_append_def split: sum.splits)
  define w1 where "w1 = w\<lparr> iw_file := iw_file w @ b, iw_next_seq := min (iw_next_seq w + 1) (2 ^ 64 - 1) \<rparr>"
  have "append_all A xs w1 = Inr w'" using Cons.prems x b by (simp add: index_append_def w1_def)
  then obtain B where B: "iw_file w' = iw_file w1 @ B"
      "\<And>n. read_blocks A key (iw_next_seq w1) (take n B) = take (n div 44) (map snd xs)"
    using Cons.IH [of w1] Cons.prems by (auto simp: w1_def)
  note r = block_read [OF assms(1) _ b]
  have len: "length nonce = 12" using Cons.prems x by simp
  have "read_blocks A key (iw_next_seq w) (take n (b @ B)) = take (n div 44) (e # map snd xs)" for n
  proof (cases "n < 44")
    case True
    then show ?thesis using r(1) [OF len] by (simp add: read_blocks_short)
  next
    case False
    then have "n div 44 = Suc ((n - 44) div 44)" by (simp add: le_div_geq)
    moreover have "take n (b @ B) = b @ take (n - 44) B" using False r(1) [OF len] by simp
    ultimately show ?thesis
      using B(2) [of "n - 44"] r(2) [OF len, of "take (n - 44) B"]
      by (simp add: read_blocks.simps [of A key "iw_next_seq w" "b @ take (n - 44) B"] w1_def)
  qed
  then show ?case using B(1) x by (intro exI [of _ "b @ B"]) (simp add: w1_def)
qed

lemma read_plain_cut: "read_plain (take n (concat (map encode_entry es))) = take (n div 12) es"
proof (cases "n < length (concat (map encode_entry es))")
  case True
  then show ?thesis using entries.read_cut [of es n] by (simp add: ENTRY_PLAINTEXT_LEN_def list_all_iff)
next
  case False
  have l: "length (concat (map encode_entry es)) = 12 * length es" by (induction es) auto
  then have "length es \<le> n div 12" using False by simp
  moreover have "read_plain (concat (map encode_entry es)) = es"
    using entries.read_stream [of es "[]"] by (simp add: ENTRY_PLAINTEXT_LEN_def list_all_iff)
  ultimately show ?thesis using False by simp
qed

lemma read_all_header: "read_all A (Content (LFI_MAGIC @ LFI_VERSION # bs)) key =
    Inr (case key of Some k \<Rightarrow> read_blocks A k 0 bs | None \<Rightarrow> read_plain bs)"
proof -
  have "length (LFI_MAGIC @ [LFI_VERSION]) = 5" by (simp add: LFI_MAGIC_def)
  then have "drop 5 (LFI_MAGIC @ LFI_VERSION # bs) = bs"
    by (metis append_Cons append_Nil append_assoc append_eq_conv_conj)
  moreover have "take 4 (LFI_MAGIC @ LFI_VERSION # bs) = LFI_MAGIC" "(LFI_MAGIC @ LFI_VERSION # bs) ! 4 = LFI_VERSION"
    by (simp_all add: LFI_MAGIC_def)
  moreover have "\<not> length (LFI_MAGIC @ LFI_VERSION # bs) < 5" by (simp add: LFI_MAGIC_def)
  ultimately show ?thesis
    by (simp only: read_all_def file_state.case if_False simp_thms)
qed

lemma read_after_crash:
  assumes "aead_ok A" "index_create True key = Inr w0" "append_all A xs w0 = Inr w"
    and "\<forall>x \<in> set xs. length (fst x) = 12"
  shows "read_all A (Content (take n (iw_file w))) key =
    Inr (take ((n - 5) div (if key = None then 12 else 44)) (map snd xs))"
proof -
  have w0: "w0 = \<lparr> iw_file = LFI_MAGIC @ [LFI_VERSION], iw_key = key, iw_next_seq = 0 \<rparr>"
    using assms(2) by (simp add: index_create_def)
  obtain B where B: "iw_file w = LFI_MAGIC @ LFI_VERSION # B"
      "(case key of Some k \<Rightarrow> read_blocks A k 0 (take m B) | None \<Rightarrow> read_plain (take m B)) =
         take (m div (if key = None then 12 else 44)) (map snd xs)" for m
  proof (cases key)
    case None
    have "iw_file w = LFI_MAGIC @ LFI_VERSION # concat (map encode_entry (map snd xs))"
      using append_all_plain [OF _ assms(3)] w0 None by simp
    then show ?thesis
      by (rule that [of "concat (map encode_entry (map snd xs))"]) (simp only: None read_plain_cut option.case simp_thms if_True)
  next
    case (Some k)
    then show ?thesis using append_all_encrypted [OF assms(1) _ assms(3,4), of k] w0 that by fastforce
  qed
  show ?thesis
  proof (cases "n < 5")
    case True
    then have "length (take n (iw_file w)) < 5" by simp
    with True show ?thesis by (simp only: read_all_def file_state.case if_True) simp
  next
    case False
    then have "take n (iw_file w) = LFI_MAGIC @ LFI_VERSION # take (n - 5) B"
    proof -
      have "iw_file w = (LFI_MAGIC @ [LFI_VERSION]) @ B" "length (LFI_MAGIC @ [LFI_VERSION]) = 5"
        using B(1) by (simp_all add: LFI_MAGIC_def)
      with False show ?thesis by (simp only: take_append) simp
    qed
    then show ?thesis using B(2) [of "n - 5"] by (simp add: read_all_header)
  qed
qed

section \<open>Seeking\<close>

lemma partition_point_sorted:
  assumes "sorted (map f xs)"
  shows "i < partition_point (\<lambda>x. f x \<le> t) xs \<longleftrightarrow> i < length xs \<and> f (xs ! i) \<le> (t :: nat)"
proof
  let ?P = "\<lambda>x. f x \<le> t"
  assume i: "i < partition_point ?P xs"
  then have "i < length xs" using length_takeWhile_le [of ?P xs] by (simp add: partition_point_def)
  moreover have "?P (takeWhile ?P xs ! i)"
    using i nth_mem [of i "takeWhile ?P xs"] set_takeWhileD [of "takeWhile ?P xs ! i" ?P xs]
    by (simp add: partition_point_def)
  then have "?P (xs ! i)" using i by (simp add: partition_point_def takeWhile_nth)
  ultimately show "i < length xs \<and> f (xs ! i) \<le> t" by simp
next
  let ?P = "\<lambda>x. f x \<le> t"
  assume i: "i < length xs \<and> f (xs ! i) \<le> t"
  show "i < partition_point ?P xs"
  proof (rule ccontr)
    assume "\<not> ?thesis"
    then have k: "length (takeWhile ?P xs) \<le> i" by (simp add: partition_point_def)
    then have "\<not> ?P (xs ! length (takeWhile ?P xs))" using i by (intro nth_length_takeWhile) simp
    moreover have "f (xs ! length (takeWhile ?P xs)) \<le> f (xs ! i)"
      using assms k i by (simp add: sorted_iff_nth_mono)
    ultimately show False using i by simp
  qed
qed

section \<open>Properties\<close>

text \<open>
  The index survives a crash at any byte and still seeks right: write entries with
  non-decreasing timestamps, in plaintext or encrypted, cut the file after any number of bytes, and
  a seek answers with the last entry among the completely written ones that is not after the
  target, or with nothing if there is none.
\<close>

theorem seek_after_crash:
  assumes "aead_ok A" and "index_create True key = Inr w0" and "append_all A xs w0 = Inr w"
    and "\<forall>x \<in> set xs. length (fst x) = 12" and "sorted (map (\<lambda>x. unat (timestamp_ms (snd x))) xs)"
    and "fs (sidecar_path path) = Content (take n (iw_file w))"
    and "kept = take ((n - 5) div (if key = None then 12 else 44)) (map snd xs)"
  shows "case seek A fs path target (key \<noteq> None) key of
      Inr (Some hit) \<Rightarrow>
        (\<exists>i < length kept. hit = \<lparr> hit_offset = offset (kept ! i), hit_entry_index = i,
             hit_timestamp_ms = timestamp_ms (kept ! i) \<rparr> \<and>
           unat (timestamp_ms (kept ! i)) \<le> target \<and>
           (\<forall>j < length kept. i < j \<longrightarrow> target < unat (timestamp_ms (kept ! j))))
    | Inr None \<Rightarrow> (\<forall>e \<in> set kept. target < unat (timestamp_ms e))
    | Inl err \<Rightarrow> False"
proof -
  let ?ts = "\<lambda>e. unat (timestamp_ms e)"
  let ?idx = "partition_point (\<lambda>e. ?ts e \<le> target) kept"
  have read: "read_all A (fs (sidecar_path path)) key = Inr kept"
    using read_after_crash [OF assms(1-4), of n] assms(6,7) by simp
  have "sorted (map ?ts kept)"
    using assms(5,7) by (simp add: take_map [symmetric] comp_def sorted_wrt_take)
  note pp = partition_point_sorted [OF this, where t = target]
  have seek: "seek A fs path target (key \<noteq> None) key =
      (if kept = [] \<or> ?idx = 0 then Inr None
       else Inr (Some \<lparr> hit_offset = offset (kept ! (?idx - 1)), hit_entry_index = ?idx - 1,
              hit_timestamp_ms = timestamp_ms (kept ! (?idx - 1)) \<rparr>))"
    using read by (cases key) (simp_all add: seek_def Let_def)
  show ?thesis
  proof (cases "?idx = 0")
    case True
    then have "\<forall>e \<in> set kept. target < ?ts e"
      using pp by (metis in_set_conv_nth less_nat_zero_code not_le)
    then show ?thesis using seek True by simp
  next
    case False
    let ?i = "?idx - 1"
    have "?i < length kept \<and> ?ts (kept ! ?i) \<le> target" using pp [of ?i] False by simp
    moreover have "target < ?ts (kept ! j)" if "j < length kept" "?i < j" for j
    proof -
      have "\<not> j < ?idx" using that(2) False by linarith
      with pp [of j] that(1) show ?thesis by simp
    qed
    ultimately show ?thesis using seek False by auto
  qed
qed

theorem seek_after_crash_witness:
  "let e1 = \<lparr> offset = 5, timestamp_ms = 10 \<rparr>; e2 = \<lparr> offset = 90, timestamp_ms = 20 \<rparr>;
       w = LFI_MAGIC @ [LFI_VERSION] @ encode_entry e1 @ encode_entry e2
   in (case seek aead_ref (\<lambda>p. Content (take 20 w)) ''r'' 25 False None of
         Inr (Some hit) \<Rightarrow> hit = \<lparr> hit_offset = 5, hit_entry_index = 0, hit_timestamp_ms = 10 \<rparr>
       | Inr None \<Rightarrow> False | Inl err \<Rightarrow> False)"
proof -
  let ?e1 = "\<lparr> offset = 5, timestamp_ms = 10 \<rparr>" and ?e2 = "\<lparr> offset = 90, timestamp_ms = 20 \<rparr>"
  let ?n = "replicate 12 0" and ?init = "\<lparr> iw_file = LFI_MAGIC @ [LFI_VERSION], iw_key = None, iw_next_seq = 0 \<rparr>"
  let ?w = "\<lparr> iw_file = LFI_MAGIC @ [LFI_VERSION] @ encode_entry ?e1 @ encode_entry ?e2, iw_key = None, iw_next_seq = Suc (Suc 0) \<rparr>"
  have w: "append_all aead_ref [(?n, ?e1), (?n, ?e2)] ?init = Inr ?w"
    by (simp add: index_append_def)
  have "case seek aead_ref (\<lambda>p. Content (take 20 (iw_file ?w))) ''r'' 25 ((None :: bytes option) \<noteq> None) None of
      Inr (Some hit) \<Rightarrow> (\<exists>i < length [?e1]. hit = \<lparr> hit_offset = offset ([?e1] ! i), hit_entry_index = i,
          hit_timestamp_ms = timestamp_ms ([?e1] ! i) \<rparr> \<and> unat (timestamp_ms ([?e1] ! i)) \<le> 25 \<and>
          (\<forall>j < length [?e1]. i < j \<longrightarrow> 25 < unat (timestamp_ms ([?e1] ! j))))
    | Inr None \<Rightarrow> (\<forall>e \<in> set [?e1]. 25 < unat (timestamp_ms e)) | Inl err \<Rightarrow> False"
    by (rule seek_after_crash [OF aead_ref_ok _ w, where n = 20]) (simp_all add: index_create_def take_Cons')
  then show ?thesis by (simp add: Let_def split: sum.splits option.splits)
qed

end
