(* ===== verification/Core_Error.thy ===== *)
theory Core_Error
  imports Prelude
begin

text \<open>
  The error type of the core crate, \<open>error.rs\<close>: one constructor per variant and the text that
  \<open>thiserror\<close> derives for \<open>Display\<close>, which is what reaches logs, progress rows and the
  bridge.
\<close>

section \<open>Definitions\<close>

datatype Error =
    EConnect string | EHandshake string | EAuthFailed string | EAuth string | EKeyParse string
  | EPassphraseRequired | EPassphraseIncorrect | EHostKeyRejected
  | EIo string | EDb string | ESftp string | ESessionUnavailable string | ERecorder string
  | EArchive string | ETransport string | EVault string | EUpdate string | EWebDav string
  | ES3 string | EPlatform string | ECrypto string | EFido2 string | EPkcs11 string
  | EEnclave string | EHello string | ETpm string | EKeystore string
  | ETimeout | ECancelled
  | EArchiveFutureVersion int int
  | EUnsupported string

text \<open>\<open>Display\<close> of a signed integer.\<close>

definition display_int :: "int \<Rightarrow> string" where
  "display_int i = (if i < 0 then CHR ''-'' # dec (nat (- i)) else dec (nat i))"

fun error_to_string :: "Error \<Rightarrow> string" where
  "error_to_string (EConnect m) = ''connect failed: '' @ m"
| "error_to_string (EHandshake m) = ''ssh handshake failed: '' @ m"
| "error_to_string (EAuthFailed m) = ''authentication failed: '' @ m"
| "error_to_string (EAuth m) = ''auth error: '' @ m"
| "error_to_string (EKeyParse m) = ''key parse failed: '' @ m"
| "error_to_string EPassphraseRequired = ''passphrase required''"
| "error_to_string EPassphraseIncorrect = ''passphrase incorrect''"
| "error_to_string EHostKeyRejected = ''host key rejected''"
| "error_to_string (EIo m) = ''io: '' @ m"
| "error_to_string (EDb m) = ''db: '' @ m"
| "error_to_string (ESftp m) = ''sftp: '' @ m"
| "error_to_string (ESessionUnavailable m) = ''session unavailable: '' @ m"
| "error_to_string (ERecorder m) = ''recorder: '' @ m"
| "error_to_string (EArchive m) = ''archive: '' @ m"
| "error_to_string (ETransport m) = ''transport: '' @ m"
| "error_to_string (EVault m) = ''vault: '' @ m"
| "error_to_string (EUpdate m) = ''update: '' @ m"
| "error_to_string (EWebDav m) = ''webdav: '' @ m"
| "error_to_string (ES3 m) = ''s3: '' @ m"
| "error_to_string (EPlatform m) = ''platform: '' @ m"
| "error_to_string (ECrypto m) = ''crypto: '' @ m"
| "error_to_string (EFido2 m) = ''fido2: '' @ m"
| "error_to_string (EPkcs11 m) = ''pkcs11: '' @ m"
| "error_to_string (EEnclave m) = ''enclave: '' @ m"
| "error_to_string (EHello m) = ''hello: '' @ m"
| "error_to_string (ETpm m) = ''tpm-ssh: '' @ m"
| "error_to_string (EKeystore m) = ''keystore: '' @ m"
| "error_to_string ETimeout = ''timeout''"
| "error_to_string ECancelled = ''cancelled''"
| "error_to_string (EArchiveFutureVersion found supported) =
     ''unsupported_archive_version: found='' @ display_int found @ '', supported='' @ display_int supported"
| "error_to_string (EUnsupported m) = ''unsupported: '' @ m"

section \<open>Properties\<close>

lemma error_to_string_nonempty: "error_to_string e \<noteq> []"
  by (cases e) auto

end
