(* ===== verification/Recorder_File.thy ===== *)
theory Recorder_File
  imports Recorder_Text Recorder_Index Core_Error
begin

text \<open>
  Session recordings on disk: the writer of \<open>recorder/mod.rs\<close> (registry of recordings, wrapped
  header, one frame per record, rotation, closing) and the decoder of \<open>recorder/reader.rs\<close>.  The
  file system is a map from paths to contents; files are opened in append mode, so a handle is the
  path.  A failing write leaves a prefix of its bytes.  Random keys and nonces, the clock and the
  outcome of each system call are arguments; AES-GCM is a parameter.  The storage-cap sweep that
  \<open>register_with_io\<close> and \<open>close_with_io\<close> run is the function \<open>sweep\<close>.
\<close>

section \<open>Format\<close>

definition LFR_MAGIC :: bytes where
  "LFR_MAGIC = [0x4C, 0x46, 0x52, 0x31]"

definition LFR_VERSION :: byte where
  "LFR_VERSION = 1"

definition LFR_HEADER_LEN :: nat where
  "LFR_HEADER_LEN = 4 + 1 + NONCE_LEN + 32 + 16"

definition KEYWRAP_AAD :: bytes where
  "KEYWRAP_AAD = str_bytes ''letsflutssh-recording-keywrap-v1''"

definition MAX_FRAME_PLAINTEXT_BYTES :: nat where
  "MAX_FRAME_PLAINTEXT_BYTES = 16 * 1024 * 1024"

definition MAX_FILE_BYTES :: nat where
  "MAX_FILE_BYTES = 100 * 1024 * 1024"

definition u64_max :: nat where
  "u64_max = 2 ^ 64 - 1"

definition sat_add :: "nat \<Rightarrow> nat \<Rightarrow> nat" where
  "sat_add a b = min (a + b) u64_max"

definition build_lfsr_header :: "aead_lib \<Rightarrow> bytes \<Rightarrow> bytes \<Rightarrow> bytes \<Rightarrow> Error + bytes" where
  "build_lfsr_header A wrap_nonce db_key recording_key =
     (case aead_seal A db_key wrap_nonce recording_key KEYWRAP_AAD of
        None \<Rightarrow> Inl (ECrypto ''aes-gcm encrypt-raw'')
      | Some wrapped \<Rightarrow> Inr (LFR_MAGIC @ [LFR_VERSION] @ wrap_nonce @ wrapped))"

definition unwrap_lfsr_header :: "aead_lib \<Rightarrow> bytes \<Rightarrow> bytes \<Rightarrow> Error + bytes" where
  "unwrap_lfsr_header A header db_key =
     (if length header < LFR_HEADER_LEN then Inl (ERecorder ''lfsr header truncated'')
      else if take 4 header \<noteq> LFR_MAGIC then Inl (ERecorder ''lfsr header bad magic'')
      else if header ! 4 \<noteq> LFR_VERSION then Inl (ERecorder ''lfsr header unsupported version'')
      else let wrap_nonce = take NONCE_LEN (drop 5 header);
               wrapped = drop (5 + NONCE_LEN) (take LFR_HEADER_LEN header)
           in case aead_open A db_key wrap_nonce wrapped KEYWRAP_AAD of
                None \<Rightarrow> Inl (ECrypto ''aes-gcm decrypt-raw'')
              | Some plain \<Rightarrow>
                  if length plain \<noteq> 32 then Inl (ERecorder ''wrapped recording key wrong length'')
                  else Inr plain)"

definition build_frame :: "aead_lib \<Rightarrow> bytes \<Rightarrow> bytes \<Rightarrow> bytes option \<Rightarrow> nat \<Rightarrow> Error + bytes" where
  "build_frame A nonce plaintext key frame_index =
     (case key of
        None \<Rightarrow> Inr plaintext
      | Some k \<Rightarrow>
          (case aead_seal A k nonce plaintext (le_bytes 8 frame_index) of
             None \<Rightarrow> Inl (ECrypto ''aes-gcm encrypt-raw'')
           | Some ct \<Rightarrow>
               if 2 ^ 32 \<le> length plaintext then Inl (EIo ''recorder plaintext exceeds u32 frame length'')
               else Inr (le_bytes 4 (length plaintext) @ nonce @ ct)))"

section \<open>The registry of recordings\<close>

record RecorderActor =
  ra_id :: string
  ra_session_id :: string
  ra_path :: string
  ra_bytes_written :: nat
  ra_encrypted :: bool
  ra_started_at :: "nat option"
  ra_file :: "string option"
  ra_key :: "bytes option"
  ra_db_key :: "bytes option"
  ra_frame_index :: nat
  ra_index :: "IndexWriter option"

record RecorderSnapshot =
  rs_id :: string
  rs_session_id :: string
  rs_path :: string
  rs_bytes_written :: nat
  rs_encrypted :: bool

datatype rec_event =
    RecorderStarted string string
  | RecorderStopped string
  | RecorderBytesWritten string nat

record rec_world =
  rw_by_id :: "(string, RecorderActor) hmap"
  rw_fs :: "(string, bytes) hmap"
  rw_bus :: "rec_event list"

definition recorder_new :: "string \<Rightarrow> string \<Rightarrow> string \<Rightarrow> bool \<Rightarrow> RecorderActor" where
  "recorder_new rid session_id path encrypted =
     \<lparr> ra_id = rid, ra_session_id = session_id, ra_path = path, ra_bytes_written = 0,
       ra_encrypted = encrypted, ra_started_at = None, ra_file = None, ra_key = None,
       ra_db_key = None, ra_frame_index = 0, ra_index = None \<rparr>"

definition recorder_snapshot :: "RecorderActor \<Rightarrow> RecorderSnapshot" where
  "recorder_snapshot a =
     \<lparr> rs_id = ra_id a, rs_session_id = ra_session_id a, rs_path = ra_path a,
       rs_bytes_written = ra_bytes_written a, rs_encrypted = ra_encrypted a \<rparr>"

definition rec_publish :: "rec_event \<Rightarrow> rec_world \<Rightarrow> rec_world" where
  "rec_publish ev w = w\<lparr> rw_bus := rw_bus w @ [ev] \<rparr>"

definition recorder_register ::
  "string \<Rightarrow> string \<Rightarrow> string \<Rightarrow> bool \<Rightarrow> rec_world \<Rightarrow> RecorderSnapshot \<times> rec_world" where
  "recorder_register rid session_id path encrypted w =
     (let a = recorder_new rid session_id path encrypted
      in (recorder_snapshot a,
          rec_publish (RecorderStarted rid path) (w\<lparr> rw_by_id := hput rid a (rw_by_id w) \<rparr>)))"

definition recorder_close :: "string \<Rightarrow> rec_world \<Rightarrow> rec_world" where
  "recorder_close rid w =
     (case hget (rw_by_id w) rid of
        None \<Rightarrow> w
      | Some a \<Rightarrow> rec_publish (RecorderStopped rid) (w\<lparr> rw_by_id := hdel rid (rw_by_id w) \<rparr>))"

definition recorder_lookup :: "string \<Rightarrow> rec_world \<Rightarrow> RecorderSnapshot option" where
  "recorder_lookup rid w = map_option recorder_snapshot (hget (rw_by_id w) rid)"

definition recorder_count :: "rec_world \<Rightarrow> nat" where
  "recorder_count w = length (rw_by_id w)"

definition active_paths :: "rec_world \<Rightarrow> string list" where
  "active_paths w = map (\<lambda>p. ra_path (snd p)) (rw_by_id w)"

definition record_chunk :: "string \<Rightarrow> nat \<Rightarrow> rec_world \<Rightarrow> rec_world" where
  "record_chunk rid n w =
     (case hget (rw_by_id w) rid of
        None \<Rightarrow> w
      | Some a \<Rightarrow>
          (let total = sat_add (ra_bytes_written a) n
           in rec_publish (RecorderBytesWritten rid total)
                (w\<lparr> rw_by_id := hput rid (a\<lparr> ra_bytes_written := total \<rparr>) (rw_by_id w) \<rparr>)))"

text \<open>
  What the operating system answers during a call: whether directories, opening and permissions
  succeed, how much of a write lands before an error (\<open>None\<close> for all of it), whether the sidecar
  can be created or appended to.
\<close>

record rec_io =
  io_mkdir :: bool
  io_open :: bool
  io_harden :: bool
  io_write :: "nat option"
  io_index :: bool

definition io_good :: rec_io where
  "io_good = \<lparr> io_mkdir = True, io_open = True, io_harden = True, io_write = None, io_index = True \<rparr>"

definition fs_get :: "(string, bytes) hmap \<Rightarrow> string \<Rightarrow> bytes" where
  "fs_get fs path = (case hget fs path of Some bs \<Rightarrow> bs | None \<Rightarrow> [])"

definition fs_append :: "string \<Rightarrow> bytes \<Rightarrow> (string, bytes) hmap \<Rightarrow> (string, bytes) hmap" where
  "fs_append path bs fs = hput path (fs_get fs path @ bs) fs"

text \<open>\<open>write_all\<close>: the file system afterwards and whether it succeeded.\<close>

definition write_all :: "rec_io \<Rightarrow> string \<Rightarrow> bytes \<Rightarrow> (string, bytes) hmap \<Rightarrow> bool \<times> (string, bytes) hmap" where
  "write_all io path bs fs =
     (case io_write io of
        None \<Rightarrow> (True, fs_append path bs fs)
      | Some n \<Rightarrow> (False, fs_append path (take n bs) fs))"

text \<open>The directory, open and permission calls in front of a new file.\<close>

definition open_recording :: "rec_io \<Rightarrow> string \<Rightarrow> (string, bytes) hmap \<Rightarrow> Error + (string, bytes) hmap" where
  "open_recording io path fs =
     (if \<not> io_mkdir io then Inl (ERecorder ''mkdir'')
      else if \<not> io_open io then Inl (ERecorder ''open'')
      else if \<not> io_harden io then Inl (ERecorder ''harden'')
      else Inr (fs_append path [] fs))"

definition INDEX_HKDF_INFO :: bytes where
  "INDEX_HKDF_INFO = str_bytes ''letsflutssh-recording-idx-v1''"

definition derive_index_key :: "crypto_lib \<Rightarrow> bytes option \<Rightarrow> bytes option" where
  "derive_index_key C recorder_key =
     map_option (\<lambda>rk. hkdf_sha256 C rk [] INDEX_HKDF_INFO 32) recorder_key"

text \<open>The sidecar is truncated and gets its magic and version.\<close>

definition open_index_writer ::
  "rec_io \<Rightarrow> string \<Rightarrow> bytes option \<Rightarrow> (string, bytes) hmap \<Rightarrow> Error + IndexWriter \<times> (string, bytes) hmap" where
  "open_index_writer io path key fs =
     (case index_create (io_index io) key of
        Inl e \<Rightarrow> Inl (ERecorder ''sidecar'')
      | Inr iw \<Rightarrow> Inr (iw, hput (sidecar_path path) (iw_file iw) fs))"

text \<open>
  The main file both \<open>register_with_io\<close> and \<open>rotate_to\<close> start: opened, hardened and, when
  there is a database key, given the header with the wrapped recording key.  The result holds the
  file system, and the recording key and the bytes written so far, or the error.
\<close>

definition start_main ::
  "aead_lib \<Rightarrow> rec_io \<Rightarrow> bytes \<Rightarrow> bytes \<Rightarrow> string \<Rightarrow> bytes option \<Rightarrow> (string, bytes) hmap \<Rightarrow>
   (string, bytes) hmap \<times> (Error + bytes option \<times> nat)" where
  "start_main A io rk nonce path db_key fs =
     (case open_recording io path fs of
        Inl e \<Rightarrow> (fs, Inl e)
      | Inr fs1 \<Rightarrow>
          (case db_key of
             None \<Rightarrow> (fs1, Inr (None, 0))
           | Some dk \<Rightarrow>
               (case build_lfsr_header A nonce dk rk of
                  Inl e \<Rightarrow> (fs1, Inl e)
                | Inr header \<Rightarrow>
                    (case write_all io path header fs1 of
                       (False, fs2) \<Rightarrow> (fs2, Inl (ERecorder ''header write''))
                     | (True, fs2) \<Rightarrow> (fs2, Inr (Some rk, length header))))))"

type_synonym sweep = "string \<Rightarrow> string list \<Rightarrow> (string, bytes) hmap \<Rightarrow> (string, bytes) hmap"

definition register_with_io ::
  "aead_lib \<Rightarrow> crypto_lib \<Rightarrow> sweep \<Rightarrow> rec_io \<Rightarrow> bytes \<Rightarrow> bytes \<Rightarrow> nat \<Rightarrow> string \<Rightarrow> string \<Rightarrow> string \<Rightarrow>
   bytes option \<Rightarrow> rec_world \<Rightarrow> (Error + RecorderSnapshot) \<times> rec_world" where
  "register_with_io A C sweep io rk nonce now rid session_id path db_key w =
     (case start_main A io rk nonce path db_key (rw_fs w) of
        (fs1, Inl e) \<Rightarrow> (Inl e, w\<lparr> rw_fs := fs1 \<rparr>)
      | (fs1, Inr (key, written)) \<Rightarrow>
          (case open_index_writer io path (derive_index_key C key) fs1 of
             Inl e \<Rightarrow> (Inl e, w\<lparr> rw_fs := fs1 \<rparr>)
           | Inr (iw, fs2) \<Rightarrow>
               (let a = \<lparr> ra_id = rid, ra_session_id = session_id, ra_path = path,
                          ra_bytes_written = written, ra_encrypted = (db_key \<noteq> None),
                          ra_started_at = Some now, ra_file = Some path, ra_key = key,
                          ra_db_key = db_key, ra_frame_index = 0, ra_index = Some iw \<rparr>;
                    by = hput rid a (rw_by_id w)
                in (Inr (recorder_snapshot a),
                    rec_publish (RecorderStarted rid path)
                      (w\<lparr> rw_by_id := by,
                          rw_fs := sweep path (map (\<lambda>p. ra_path (snd p)) by) fs2 \<rparr>)))))"

text \<open>
  \<open>record_frame_at\<close> claims the frame index before it encrypts and writes; it returns the offset the
  frame starts at and the running total.
\<close>

definition record_frame_at ::
  "aead_lib \<Rightarrow> rec_io \<Rightarrow> bytes \<Rightarrow> string \<Rightarrow> bytes \<Rightarrow> rec_world \<Rightarrow> (Error + nat \<times> nat) \<times> rec_world" where
  "record_frame_at A io nonce rid plaintext w =
     (case hget (rw_by_id w) rid of
        None \<Rightarrow> (Inl (ERecorder (rid @ '' not registered'')), w)
      | Some a \<Rightarrow>
          (case ra_file a of
             None \<Rightarrow> (Inl (ERecorder (''recorder '' @ rid @ '' has no file handle (counter-only registration)'')), w)
           | Some path \<Rightarrow>
               (let a1 = a\<lparr> ra_frame_index := sat_add (ra_frame_index a) 1 \<rparr>;
                    w1 = w\<lparr> rw_by_id := hput rid a1 (rw_by_id w) \<rparr>
                in case build_frame A nonce plaintext (ra_key a) (ra_frame_index a) of
                     Inl e \<Rightarrow> (Inl e, w1)
                   | Inr frame \<Rightarrow>
                       (case write_all io path frame (rw_fs w) of
                          (False, fs) \<Rightarrow> (Inl (ERecorder ''frame write''), w1\<lparr> rw_fs := fs \<rparr>)
                        | (True, fs) \<Rightarrow>
                            (let total = sat_add (ra_bytes_written a) (length frame);
                                 a2 = a1\<lparr> ra_bytes_written := total \<rparr>
                             in (Inr (ra_bytes_written a, total),
                                 rec_publish (RecorderBytesWritten rid total)
                                   (w\<lparr> rw_by_id := hput rid a2 (rw_by_id w), rw_fs := fs \<rparr>)))))))"

definition record_frame ::
  "aead_lib \<Rightarrow> rec_io \<Rightarrow> bytes \<Rightarrow> string \<Rightarrow> bytes \<Rightarrow> rec_world \<Rightarrow> (Error + nat) \<times> rec_world" where
  "record_frame A io nonce rid plaintext w =
     (let (r, w') = record_frame_at A io nonce rid plaintext w in (map_sum id snd r, w'))"

definition record_header ::
  "aead_lib \<Rightarrow> rec_io \<Rightarrow> bytes \<Rightarrow> string \<Rightarrow> nat \<Rightarrow> nat \<Rightarrow> bytes \<Rightarrow> rec_world \<Rightarrow> (Error + nat) \<times> rec_world" where
  "record_header A io nonce rid width height shell_label w =
     (case hget (rw_by_id w) rid of
        None \<Rightarrow> (Inl (ERecorder (rid @ '' not registered'')), w)
      | Some a \<Rightarrow>
          (case ra_started_at a of
             None \<Rightarrow> (Inl (ERecorder (rid @ '' has no started_at anchor'')), w)
           | Some started \<Rightarrow> record_frame A io nonce rid (header_line width height started shell_label) w))"

text \<open>
  The clock reading of an event: the text \<open>format_delta\<close> prints for the seconds since the start and
  the milliseconds the sidecar gets, both computed in \<open>f64\<close> by the source.
\<close>

record clock =
  ck_text :: string
  ck_ms :: "32 word"

definition record_event ::
  "aead_lib \<Rightarrow> rec_io \<Rightarrow> bytes \<Rightarrow> bytes \<Rightarrow> clock \<Rightarrow> string \<Rightarrow> RecordDirection \<Rightarrow> bytes \<Rightarrow> rec_world \<Rightarrow>
   (Error + nat) \<times> rec_world" where
  "record_event A io nonce idx_nonce ck rid kind bs w =
     (if bs = [] then
        (Inr (case hget (rw_by_id w) rid of Some a \<Rightarrow> ra_bytes_written a | None \<Rightarrow> 0), w)
      else case hget (rw_by_id w) rid of
        None \<Rightarrow> (Inl (ERecorder (rid @ '' not registered'')), w)
      | Some a \<Rightarrow>
          (case ra_started_at a of
             None \<Rightarrow> (Inl (ERecorder (rid @ '' has no started_at anchor'')), w)
           | Some started \<Rightarrow>
               (case record_frame_at A io nonce rid (event_line (ck_text ck) kind bs) w of
                  (Inl e, w1) \<Rightarrow> (Inl e, w1)
                | (Inr (off, new_total), w1) \<Rightarrow>
                    (case (hget (rw_by_id w1) rid, ra_index a) of
                       (Some a1, Some iw) \<Rightarrow>
                         (case index_append A (io_index io) idx_nonce
                                 \<lparr> offset = of_nat off, timestamp_ms = ck_ms ck \<rparr> iw of
                            Inl _ \<Rightarrow> (Inr new_total, w1)
                          | Inr iw' \<Rightarrow>
                              (Inr new_total,
                               w1\<lparr> rw_by_id := hput rid (a1\<lparr> ra_index := Some iw' \<rparr>) (rw_by_id w1),
                                   rw_fs := hput (sidecar_path (ra_path a)) (iw_file iw') (rw_fs w1) \<rparr>))
                     | _ \<Rightarrow> (Inr new_total, w1)))))"

definition rotate_to ::
  "aead_lib \<Rightarrow> crypto_lib \<Rightarrow> rec_io \<Rightarrow> bytes \<Rightarrow> bytes \<Rightarrow> string \<Rightarrow> string \<Rightarrow> rec_world \<Rightarrow>
   (Error + RecorderSnapshot) \<times> rec_world" where
  "rotate_to A C io rk nonce rid new_path w =
     (case hget (rw_by_id w) rid of
        None \<Rightarrow> (Inl (ERecorder (rid @ '' not registered'')), w)
      | Some a \<Rightarrow>
          (if ra_file a = None
           then (Inl (ERecorder (''recorder '' @ rid @ '' has no file handle (counter-only registration)'')), w)
           else
             (let a0 = a\<lparr> ra_file := None, ra_index := None \<rparr>;
                  put = (\<lambda>a' fs. w\<lparr> rw_by_id := hput rid a' (rw_by_id w), rw_fs := fs \<rparr>)
              in case start_main A io rk nonce new_path (ra_db_key a) (rw_fs w) of
                   (fs1, Inl e) \<Rightarrow> (Inl e, put a0 fs1)
                 | (fs1, Inr (key, written)) \<Rightarrow>
                     (let a1 = a0\<lparr> ra_file := Some new_path, ra_path := new_path,
                                   ra_bytes_written := written, ra_frame_index := 0, ra_key := key \<rparr>
                      in case open_index_writer io new_path (derive_index_key C key) fs1 of
                           Inl e \<Rightarrow> (Inl e, put a1 fs1)
                         | Inr (iw, fs2) \<Rightarrow>
                             (let a2 = a1\<lparr> ra_index := Some iw \<rparr>
                              in (Inr (recorder_snapshot a2),
                                  rec_publish (RecorderStarted rid new_path) (put a2 fs2)))))))"

definition close_with_io :: "sweep \<Rightarrow> string \<Rightarrow> rec_world \<Rightarrow> rec_world" where
  "close_with_io sweep rid w =
     (case hget (rw_by_id w) rid of
        None \<Rightarrow> w
      | Some a \<Rightarrow>
          (let by = hdel rid (rw_by_id w)
           in rec_publish (RecorderStopped rid)
                (w\<lparr> rw_by_id := by, rw_fs := sweep (ra_path a) (map (\<lambda>p. ra_path (snd p)) by) (rw_fs w) \<rparr>)))"

section \<open>Playback\<close>

datatype ReaderError =
    RIo | RBadMagic | RUnsupportedVersion byte | RTruncatedHeader | RTruncatedFrame
  | RFrameTooLarge nat | RCrypto string | RNonUtf8Frame

record LfsrFrameIter =
  li_rest :: bytes
  li_key :: bytes
  li_frame_index :: nat
  li_finished :: bool

definition open_lfsr_iter_at ::
  "aead_lib \<Rightarrow> bytes option \<Rightarrow> bytes \<Rightarrow> (nat \<times> nat) option \<Rightarrow> ReaderError + LfsrFrameIter" where
  "open_lfsr_iter_at A file db_key start =
     (case file of
        None \<Rightarrow> Inl RIo
      | Some bs \<Rightarrow>
          if length bs < LFR_HEADER_LEN then Inl RTruncatedHeader
          else let header = take LFR_HEADER_LEN bs
          in if take 4 header \<noteq> LFR_MAGIC then Inl RBadMagic
          else if header ! 4 \<noteq> LFR_VERSION then Inl (RUnsupportedVersion (header ! 4))
          else case unwrap_lfsr_header A header db_key of
            Inl e \<Rightarrow> Inl (RCrypto (error_to_string e))
          | Inr key \<Rightarrow>
              (case start of
                 None \<Rightarrow> Inr \<lparr> li_rest = drop LFR_HEADER_LEN bs, li_key = key, li_frame_index = 0, li_finished = False \<rparr>
               | Some (off, fi) \<Rightarrow> Inr \<lparr> li_rest = drop off bs, li_key = key, li_frame_index = fi, li_finished = False \<rparr>))"

text \<open>\<open>trim_end_matches\<close> of the line break.\<close>

definition trim_newlines :: "bytes \<Rightarrow> bytes" where
  "trim_newlines bs = rev (dropWhile (\<lambda>b. b = 0x0A) (rev bs))"

definition lfsr_next ::
  "aead_lib \<Rightarrow> LfsrFrameIter \<Rightarrow> (ReaderError + bytes) option \<times> LfsrFrameIter" where
  "lfsr_next A it =
     (let stop = it\<lparr> li_finished := True \<rparr>; bs = li_rest it
      in if li_finished it then (None, it)
         else if length bs < 4 then (None, stop)
         else let pt_len = le_val (take 4 bs); r1 = drop 4 bs
         in if MAX_FRAME_PLAINTEXT_BYTES < pt_len then (Some (Inl (RFrameTooLarge pt_len)), stop)
         else if length r1 < NONCE_LEN then (Some (Inl RTruncatedFrame), stop)
         else let nonce = take NONCE_LEN r1; r2 = drop NONCE_LEN r1
         in if length r2 < pt_len + 16 then (Some (Inl RTruncatedFrame), stop)
         else case aead_open A (li_key it) nonce (take (pt_len + 16) r2) (le_bytes 8 (li_frame_index it)) of
           None \<Rightarrow> (Some (Inl (RCrypto ''aes-gcm decrypt-raw'')), stop)
         | Some pt \<Rightarrow>
             if \<not> utf8_ok pt then (Some (Inl RNonUtf8Frame), stop)
             else (Some (Inr (trim_newlines pt)),
                   it\<lparr> li_rest := drop (pt_len + 16) r2, li_frame_index := sat_add (li_frame_index it) 1 \<rparr>))"

text \<open>Iterating to the end: the records, and at last the error the iteration stops with, if any.\<close>

lemma lfsr_next_shorter:
  "lfsr_next A it = (Some (Inr line), it') \<Longrightarrow> length (li_rest it') < length (li_rest it)"
  by (auto simp: lfsr_next_def Let_def split: if_splits option.splits)

function lfsr_play :: "aead_lib \<Rightarrow> LfsrFrameIter \<Rightarrow> (ReaderError + bytes) list" where
  "lfsr_play A it =
     (case lfsr_next A it of
        (None, _) \<Rightarrow> []
      | (Some (Inl e), _) \<Rightarrow> [Inl e]
      | (Some (Inr line), it') \<Rightarrow> Inr line # lfsr_play A it')"
  by pat_completeness auto
termination
  by (relation "measure (\<lambda>(A, it). length (li_rest it))") (auto dest: lfsr_next_shorter [OF sym])

declare lfsr_play.simps [simp del]

definition open_lfsr_iter :: "aead_lib \<Rightarrow> bytes option \<Rightarrow> bytes \<Rightarrow> ReaderError + LfsrFrameIter" where
  "open_lfsr_iter A file db_key = open_lfsr_iter_at A file db_key None"

definition MAX_CAST_LINE_BYTES :: nat where
  "MAX_CAST_LINE_BYTES = MAX_FRAME_PLAINTEXT_BYTES"

definition trim_line_end :: "bytes \<Rightarrow> bytes" where
  "trim_line_end bs = rev (dropWhile (\<lambda>b. b = 0x0A \<or> b = 0x0D) (rev bs))"

text \<open>\<open>take(limit).read_until\<close>: the bytes up to and including the first line break within the limit.\<close>

definition read_line :: "nat \<Rightarrow> bytes \<Rightarrow> bytes \<times> bytes" where
  "read_line limit bs =
     (let n = length (takeWhile (\<lambda>b. b \<noteq> 0x0A) (take limit bs));
          m = (if n < length (take limit bs) then Suc n else n)
      in (take m bs, drop m bs))"

lemma read_line_shorter:
  assumes "read_line (Suc k) bs = (buf, rest)" and "bs \<noteq> []"
  shows "length rest < length bs"
proof -
  have "0 < length bs" "take (Suc k) bs \<noteq> []" using assms(2) by auto
  then show ?thesis using assms(1) by (auto simp: read_line_def Let_def intro!: diff_less split: if_splits)
qed

function cast_play :: "bytes \<Rightarrow> (ReaderError + bytes) list" where
  "cast_play bs =
     (if bs = [] then []
      else case read_line (Suc MAX_CAST_LINE_BYTES) bs of
        (buf, rest) \<Rightarrow>
          if MAX_CAST_LINE_BYTES < length buf then [Inl (RFrameTooLarge (MAX_FRAME_PLAINTEXT_BYTES + 1))]
          else if trim_line_end buf = [] then cast_play rest
          else (if utf8_ok (trim_line_end buf) then Inr (trim_line_end buf) else Inl RNonUtf8Frame) #
            cast_play rest)"
  by pat_completeness auto
termination
  by (relation "measure length") (auto dest: read_line_shorter [OF sym])

declare cast_play.simps [simp del]

definition open_cast_iter_at :: "bytes option \<Rightarrow> nat option \<Rightarrow> ReaderError + bytes" where
  "open_cast_iter_at file start =
     (case file of
        None \<Rightarrow> Inl RIo
      | Some bs \<Rightarrow> Inr (case start of Some off \<Rightarrow> drop off bs | None \<Rightarrow> bs))"

text \<open>\<open>open_for_playback_at\<close>, driven to the end.  \<open>lfsr\<close> tells whether the extension is \<open>lfsr\<close>.\<close>

definition playback ::
  "aead_lib \<Rightarrow> bool \<Rightarrow> bytes option \<Rightarrow> bytes \<Rightarrow> nat option \<Rightarrow> nat \<Rightarrow> ReaderError + (ReaderError + bytes) list" where
  "playback A lfsr file db_key start_offset start_frame_index =
     (if lfsr
      then map_sum id (lfsr_play A)
             (open_lfsr_iter_at A file db_key (map_option (\<lambda>o'. (o', start_frame_index)) start_offset))
      else map_sum id cast_play (open_cast_iter_at file start_offset))"

section \<open>A frame sequence plays back\<close>

text \<open>
  \<open>frames A k pts fl\<close>: the byte strings \<open>fl\<close> are frames of the plaintexts \<open>pts\<close>, each
  sealed with its position.
\<close>

definition frames :: "aead_lib \<Rightarrow> bytes \<Rightarrow> bytes list \<Rightarrow> bytes list \<Rightarrow> bool" where
  "frames A k pts fl \<longleftrightarrow> length fl = length pts \<and>
     (\<forall>j < length pts. \<exists>nonce. length nonce = NONCE_LEN \<and>
        build_frame A nonce (pts ! j) (Some k) j = Inr (fl ! j))"

definition plays :: "bytes \<Rightarrow> bool" where
  "plays pt \<longleftrightarrow> utf8_ok pt \<and> length pt \<le> MAX_FRAME_PLAINTEXT_BYTES"

abbreviation iter_at :: "bytes \<Rightarrow> bytes \<Rightarrow> nat \<Rightarrow> LfsrFrameIter" where
  "iter_at bs k i \<equiv> \<lparr> li_rest = bs, li_key = k, li_frame_index = i, li_finished = False \<rparr>"

lemma frame_shape:
  assumes "aead_ok A" and "build_frame A nonce pt (Some k) i = Inr frame"
  obtains ct where "frame = le_bytes 4 (length pt) @ nonce @ ct" "length ct = length pt + 16"
    "aead_seal A k nonce pt (le_bytes 8 i) = Some ct" "aead_open A k nonce ct (le_bytes 8 i) = Some pt"
    "length pt < 2 ^ 32"
  using assms by (auto simp: build_frame_def split: option.splits if_splits dest: aead_okD)

lemma frame_length:
  assumes "aead_ok A" "length nonce = NONCE_LEN" "build_frame A nonce pt (Some k) i = Inr frame"
  shows "length frame = length pt + 32"
  using assms(2) by (rule_tac frame_shape [OF assms(1,3)]) (simp add: NONCE_LEN_def)

text \<open>What the decoder does with a frame in front of it, under any frame index.\<close>

lemma lfsr_next_frame:
  assumes "frame = le_bytes 4 (length pt) @ nonce @ ct" "length nonce = NONCE_LEN"
    "length ct = length pt + 16" "length pt \<le> MAX_FRAME_PLAINTEXT_BYTES"
  shows "lfsr_next A (iter_at (frame @ rest) k i) =
    (case aead_open A k nonce ct (le_bytes 8 i) of
       None \<Rightarrow> (Some (Inl (RCrypto ''aes-gcm decrypt-raw'')), (iter_at (frame @ rest) k i)\<lparr> li_finished := True \<rparr>)
     | Some q \<Rightarrow>
         if \<not> utf8_ok q then (Some (Inl RNonUtf8Frame), (iter_at (frame @ rest) k i)\<lparr> li_finished := True \<rparr>)
         else (Some (Inr (trim_newlines q)), iter_at rest k (sat_add i 1)))"
proof -
  have "length pt < 256 ^ 4" using assms(4) by (simp add: MAX_FRAME_PLAINTEXT_BYTES_def)
  then have "le_val (le_bytes 4 (length pt)) = length pt" by simp
  then show ?thesis
    using assms by (simp add: lfsr_next_def Let_def NONCE_LEN_def not_less split: option.split)
qed

lemma lfsr_next_good:
  assumes "aead_ok A" "length nonce = NONCE_LEN" "build_frame A nonce pt (Some k) i = Inr frame" "plays pt"
  shows "lfsr_next A (iter_at (frame @ rest) k i) = (Some (Inr (trim_newlines pt)), iter_at rest k (sat_add i 1))"
proof -
  obtain ct where ct: "frame = le_bytes 4 (length pt) @ nonce @ ct" "length ct = length pt + 16"
    "aead_open A k nonce ct (le_bytes 8 i) = Some pt"
    using frame_shape [OF assms(1,3)] by metis
  then show ?thesis
    using lfsr_next_frame [OF ct(1) assms(2) ct(2), of A rest k i] assms(4) by (simp add: plays_def)
qed

lemma frames_drop_Cons:
  assumes "frames A k pts fl" and "j < length pts"
  obtains nonce where "length nonce = NONCE_LEN" "build_frame A nonce (pts ! j) (Some k) j = Inr (fl ! j)"
    "drop j pts = pts ! j # drop (Suc j) pts" "drop j fl = fl ! j # drop (Suc j) fl"
  using assms by (auto simp: frames_def Cons_nth_drop_Suc)

lemma lfsr_play_frames_append:
  assumes "aead_ok A" "frames A k pts fl" "\<forall>pt \<in> set pts. plays pt" "length pts \<le> u64_max" "j \<le> length pts"
  shows "lfsr_play A (iter_at (concat (drop j fl) @ tail) k j) =
    map (\<lambda>pt. Inr (trim_newlines pt)) (drop j pts) @ lfsr_play A (iter_at tail k (length pts))"
  using assms(5)
proof (induction "length pts - j" arbitrary: j)
  case 0
  then have "drop j pts = []" "drop j fl = []" "j = length pts" using assms(2) by (auto simp: frames_def)
  then show ?case by simp
next
  case (Suc n)
  then have j: "j < length pts" by simp
  then obtain nonce where n: "length nonce = NONCE_LEN" "build_frame A nonce (pts ! j) (Some k) j = Inr (fl ! j)"
    and d: "drop j pts = pts ! j # drop (Suc j) pts" "drop j fl = fl ! j # drop (Suc j) fl"
    using frames_drop_Cons [OF assms(2)] by metis
  have "sat_add j 1 = Suc j" using j assms(4) by (simp add: sat_add_def)
  moreover have "lfsr_next A (iter_at (fl ! j @ concat (drop (Suc j) fl) @ tail) k j) =
      (Some (Inr (trim_newlines (pts ! j))), iter_at (concat (drop (Suc j) fl) @ tail) k (sat_add j 1))"
    using lfsr_next_good [OF assms(1) n, of "concat (drop (Suc j) fl) @ tail"] assms(3) j by simp
  moreover have "lfsr_play A (iter_at (concat (drop (Suc j) fl) @ tail) k (Suc j)) =
      map (\<lambda>pt. Inr (trim_newlines pt)) (drop (Suc j) pts) @ lfsr_play A (iter_at tail k (length pts))"
    using Suc j by simp
  ultimately show ?case
    unfolding d by (simp add: lfsr_play.simps [of A "iter_at (fl ! j @ concat (drop (Suc j) fl) @ tail) k j"])
qed

lemma lfsr_play_Nil: "lfsr_play A (iter_at [] k i) = []"
  by (simp add: lfsr_play.simps lfsr_next_def Let_def)

lemma lfsr_play_frames:
  assumes "aead_ok A" "frames A k pts fl" "\<forall>pt \<in> set pts. plays pt" "length pts \<le> u64_max" "j \<le> length pts"
  shows "lfsr_play A (iter_at (concat (drop j fl)) k j) = map (\<lambda>pt. Inr (trim_newlines pt)) (drop j pts)"
  using lfsr_play_frames_append [OF assms, of "[]"] by (simp add: lfsr_play_Nil)

text \<open>A truncated tail: fewer bytes than a whole frame end the iteration, with or without an error.\<close>

lemma lfsr_play_short:
  assumes "aead_ok A" "length nonce = NONCE_LEN" "build_frame A nonce pt (Some k) i = Inr frame"
    "length pt \<le> MAX_FRAME_PLAINTEXT_BYTES" "n < length frame"
  shows "lfsr_play A (iter_at (take n frame) k i) = (if n < 4 then [] else [Inl RTruncatedFrame])"
proof -
  obtain ct where ct: "frame = le_bytes 4 (length pt) @ nonce @ ct" "length ct = length pt + 16"
    using frame_shape [OF assms(1,3)] by metis
  have v: "le_val (le_bytes 4 (length pt)) = length pt"
    using assms(4) by (simp add: MAX_FRAME_PLAINTEXT_BYTES_def)
  define bs where "bs = take n frame"
  have len: "length bs = n" "n < length pt + 32"
    using assms(2,5) ct by (simp_all add: bs_def NONCE_LEN_def)
  have four: "take 4 bs = le_bytes 4 (length pt)" if "\<not> n < 4"
    using that by (simp add: bs_def ct(1) min_def)
  have "lfsr_next A (iter_at bs k i) =
      (if n < 4 then None else Some (Inl RTruncatedFrame), (iter_at bs k i)\<lparr> li_finished := True \<rparr>)"
    using len four v assms(4) by (auto simp: lfsr_next_def Let_def NONCE_LEN_def)
  then show ?thesis unfolding bs_def [symmetric] by (simp add: lfsr_play.simps [of A "iter_at bs k i"])
qed

end
