(* ===== verification/Recorder_Queue.thy ===== *)
theory Recorder_Queue
  imports Recorder_File
begin

text \<open>
  The write queue of \<open>recorder/queue.rs\<close>: per recording two byte buffers that coalesce terminal
  chunks, a deadline task that flushes them, a bounded mailbox and a worker that hands the entries to
  the registry of \<open>Recorder_File\<close>.  A call of the queue and a deadline task are lists of the
  atomic actions they still perform: one locked section or one await.  A scheduler picks who acts
  next.  Buffers, mailbox and worker of one \<open>spawn\<close> are a slot; handles point to slots, since
  senders and buffers outlive the row that created them.  The history \<open>q_trace\<close> records what the
  buffers accepted and what the worker handed to the registry.  Registry operations of the model do
  not panic, so the \<open>JoinError\<close> branch of \<open>resolve_blocking_result\<close> does not arise.
\<close>

section \<open>State\<close>

definition FLUSH_THRESHOLD_BYTES :: nat where
  "FLUSH_THRESHOLD_BYTES = 8 * 1024"

definition QUEUE_CAPACITY :: nat where
  "QUEUE_CAPACITY = 1024"

datatype QueueEntry =
    QHeader nat nat bytes
  | QEvent RecordDirection bytes
  | QRotate string
  | QClose

record EventBuffers =
  eb_output :: bytes
  eb_input :: bytes
  eb_flush_task :: "nat option"

definition buffers_new :: EventBuffers where
  "buffers_new = \<lparr> eb_output = [], eb_input = [], eb_flush_task = None \<rparr>"

definition drained :: "EventBuffers \<Rightarrow> (RecordDirection \<times> bytes) list" where
  "drained b = (if eb_output b \<noteq> [] then [(Output, eb_output b)] else []) @
               (if eb_input b \<noteq> [] then [(Input, eb_input b)] else [])"

text \<open>\<open>drain\<close>: the deadline task to abort, the drained chunks and the empty buffers.\<close>

definition drain :: "EventBuffers \<Rightarrow> nat option \<times> (RecordDirection \<times> bytes) list \<times> EventBuffers" where
  "drain b = (eb_flush_task b, drained b, buffers_new)"

definition extend_buf :: "RecordDirection \<Rightarrow> bytes \<Rightarrow> EventBuffers \<Rightarrow> EventBuffers" where
  "extend_buf k bs b =
     (case k of Output \<Rightarrow> b\<lparr> eb_output := eb_output b @ bs \<rparr> | Input \<Rightarrow> b\<lparr> eb_input := eb_input b @ bs \<rparr>)"

definition buf_of :: "RecordDirection \<Rightarrow> EventBuffers \<Rightarrow> bytes" where
  "buf_of k b = (case k of Output \<Rightarrow> eb_output b | Input \<Rightarrow> eb_input b)"

datatype qact =
    Append nat RecordDirection bytes
  | DrainFor nat QueueEntry
  | Sleep
  | FlushDrain nat
  | Send nat QueueEntry

record qtask =
  t_id :: string
  t_acts :: "qact list"
  t_aborted :: bool
  t_result :: "(Error + unit) option"

record slot =
  sl_id :: string
  sl_bufs :: EventBuffers
  sl_mailbox :: "QueueEntry list"
  sl_open :: bool
  sl_killed :: bool
  sl_rotate :: bool

datatype queue_event =
    RecorderRotateRequested string nat
  | RecorderWriteFailed string string string

text \<open>What the outside contributes to one entry the worker handles.\<close>

record wenv =
  we_stop :: bool
  we_io :: rec_io
  we_rk :: bytes
  we_nonce :: bytes
  we_idx_nonce :: bytes
  we_ck :: clock

datatype trace_item =
    Accepted nat RecordDirection bytes
  | Handled nat QueueEntry wenv

record qworld =
  q_workers :: "(string, nat) hmap"
  q_slots :: "slot list"
  q_tasks :: "qtask list"
  q_events :: "queue_event list"
  q_rec :: rec_world
  q_trace :: "trace_item list"

definition queue_new :: "rec_world \<Rightarrow> qworld" where
  "queue_new rw = \<lparr> q_workers = hempty, q_slots = [], q_tasks = [], q_events = [], q_rec = rw, q_trace = [] \<rparr>"

definition upd_slot :: "nat \<Rightarrow> (slot \<Rightarrow> slot) \<Rightarrow> qworld \<Rightarrow> qworld" where
  "upd_slot h f w = w\<lparr> q_slots := (q_slots w)[h := f (q_slots w ! h)] \<rparr>"

definition upd_task :: "nat \<Rightarrow> (qtask \<Rightarrow> qtask) \<Rightarrow> qworld \<Rightarrow> qworld" where
  "upd_task i f w = w\<lparr> q_tasks := (q_tasks w)[i := f (q_tasks w ! i)] \<rparr>"

text \<open>Going on with the remaining actions; a call that has none left has returned \<open>Ok\<close>.\<close>

definition go_on :: "nat \<Rightarrow> qact list \<Rightarrow> qworld \<Rightarrow> qworld" where
  "go_on i acts = upd_task i (\<lambda>t. t\<lparr> t_acts := acts, t_result := (if acts = [] then Some (Inr ()) else None) \<rparr>)"

section \<open>Calls\<close>

text \<open>
  Removing a handle drops it: \<open>Drop\<close> aborts the worker.  \<open>spawn\<close> drops the handle it
  displaces.
\<close>

definition kill_worker :: "string \<Rightarrow> qworld \<Rightarrow> qworld" where
  "kill_worker rid w =
     (case hget (q_workers w) rid of None \<Rightarrow> w | Some h \<Rightarrow> upd_slot h (\<lambda>s. s\<lparr> sl_killed := True \<rparr>) w)"

definition drop_worker :: "string \<Rightarrow> qworld \<Rightarrow> qworld" where
  "drop_worker rid w = (kill_worker rid w)\<lparr> q_workers := hdel rid (q_workers w) \<rparr>"

definition worker_count :: "qworld \<Rightarrow> nat" where
  "worker_count w = length (q_workers w)"

definition queue_spawn :: "string \<Rightarrow> qworld \<Rightarrow> qworld" where
  "queue_spawn rid w =
     (kill_worker rid w)\<lparr> q_workers := hput rid (length (q_slots w)) (q_workers w),
        q_slots := q_slots (kill_worker rid w) @
          [\<lparr> sl_id = rid, sl_bufs = buffers_new, sl_mailbox = [], sl_open = True, sl_killed = False, sl_rotate = False \<rparr>] \<rparr>"

definition start_call :: "string \<Rightarrow> qact list \<Rightarrow> (Error + unit) option \<Rightarrow> qworld \<Rightarrow> qworld" where
  "start_call rid acts r w =
     w\<lparr> q_tasks := q_tasks w @ [\<lparr> t_id = rid, t_acts = acts, t_aborted = False, t_result = r \<rparr>] \<rparr>"

definition with_slot :: "string \<Rightarrow> (nat \<Rightarrow> qact list) \<Rightarrow> qworld \<Rightarrow> qworld" where
  "with_slot rid f w =
     (case hget (q_workers w) rid of
        None \<Rightarrow> start_call rid [] (Some (Inl (ERecorder (''queue '' @ rid @ '' not spawned'')))) w
      | Some h \<Rightarrow> start_call rid (f h) None w)"

definition enqueue :: "string \<Rightarrow> QueueEntry \<Rightarrow> qworld \<Rightarrow> qworld" where
  "enqueue rid entry = with_slot rid (\<lambda>h. [Send h entry])"

definition enqueue_event_chunk :: "string \<Rightarrow> RecordDirection \<Rightarrow> bytes \<Rightarrow> qworld \<Rightarrow> qworld" where
  "enqueue_event_chunk rid kind bs w =
     (if bs = [] then start_call rid [] (Some (Inr ())) w else with_slot rid (\<lambda>h. [Append h kind bs]) w)"

definition enqueue_blocking :: "string \<Rightarrow> QueueEntry \<Rightarrow> qworld \<Rightarrow> qworld" where
  "enqueue_blocking rid entry = with_slot rid (\<lambda>h. [DrainFor h entry])"

section \<open>Actions\<close>

definition sends :: "nat \<Rightarrow> (RecordDirection \<times> bytes) list \<Rightarrow> qact list" where
  "sends h items = map (\<lambda>(k, bs). Send h (QEvent k bs)) items"

text \<open>Aborting a task takes effect where it awaits: at once while it sleeps, otherwise when it blocks.\<close>

definition cancel :: "qtask \<Rightarrow> qtask" where
  "cancel t =
     (case t_acts t of Sleep # _ \<Rightarrow> t\<lparr> t_acts := [], t_aborted := True \<rparr> | _ \<Rightarrow> t\<lparr> t_aborted := True \<rparr>)"

definition abort_task :: "nat option \<Rightarrow> qworld \<Rightarrow> qworld" where
  "abort_task t w = (case t of None \<Rightarrow> w | Some j \<Rightarrow> upd_task j cancel w)"

definition put_bufs :: "nat \<Rightarrow> EventBuffers \<Rightarrow> qworld \<Rightarrow> qworld" where
  "put_bufs h b = upd_slot h (\<lambda>s. s\<lparr> sl_bufs := b \<rparr>)"

text \<open>The locked section that drains: abort the armed task, continue with the sends.\<close>

definition drain_slot :: "nat \<Rightarrow> nat \<Rightarrow> EventBuffers \<Rightarrow> qact list \<Rightarrow> qworld \<Rightarrow> qworld" where
  "drain_slot i h b rest w =
     (let (old, items, b') = drain b in go_on i (sends h items @ rest) (abort_task old (put_bufs h b' w)))"

definition spawn_deadline_flush :: "string \<Rightarrow> nat \<Rightarrow> qworld \<Rightarrow> qworld" where
  "spawn_deadline_flush rid h = start_call rid [Sleep, FlushDrain h] None"

fun q_exec :: "nat \<Rightarrow> qact \<Rightarrow> qact list \<Rightarrow> qworld \<Rightarrow> qworld" where
  "q_exec i (Append h kind bs) rest w =
     (let b = extend_buf kind bs (sl_bufs (q_slots w ! h)); w0 = w\<lparr> q_trace := q_trace w @ [Accepted h kind bs] \<rparr>
      in if FLUSH_THRESHOLD_BYTES \<le> length (buf_of kind b) then drain_slot i h b rest w0
         else if eb_flush_task b = None then
           go_on i rest (put_bufs h (b\<lparr> eb_flush_task := Some (length (q_tasks w)) \<rparr>)
             (spawn_deadline_flush (t_id (q_tasks w ! i)) h w0))
         else go_on i rest (put_bufs h b w0))"
| "q_exec i (DrainFor h entry) rest w = drain_slot i h (sl_bufs (q_slots w ! h)) (Send h entry # rest) w"
| "q_exec i Sleep rest w = go_on i rest w"
| "q_exec i (FlushDrain h) rest w = drain_slot i h ((sl_bufs (q_slots w ! h))\<lparr> eb_flush_task := None \<rparr>) rest w"
| "q_exec i (Send h entry) rest w =
     (let s = q_slots w ! h; t = q_tasks w ! i
      in if \<not> sl_open s then
           upd_task i (\<lambda>t. t\<lparr> t_acts := [], t_result := Some (Inl (ERecorder (''queue '' @ t_id t @ '' closed''))) \<rparr>) w
         else if QUEUE_CAPACITY \<le> length (sl_mailbox s) then
           (if t_aborted t then upd_task i (\<lambda>t. t\<lparr> t_acts := [] \<rparr>) w else w)
         else go_on i rest (upd_slot h (\<lambda>s. s\<lparr> sl_mailbox := sl_mailbox s @ [entry] \<rparr>) w))"

definition run_qtask :: "nat \<Rightarrow> qworld \<Rightarrow> qworld" where
  "run_qtask i w =
     (if length (q_tasks w) \<le> i then w
      else case t_acts (q_tasks w ! i) of [] \<Rightarrow> w | a # rest \<Rightarrow> q_exec i a rest w)"

section \<open>The worker\<close>

definition q_publish :: "queue_event \<Rightarrow> qworld \<Rightarrow> qworld" where
  "q_publish ev w = w\<lparr> q_events := q_events w @ [ev] \<rparr>"

definition resolve_blocking_result :: "string \<Rightarrow> string \<Rightarrow> Error + 'a \<Rightarrow> qworld \<Rightarrow> 'a option \<times> qworld" where
  "resolve_blocking_result rid kind r w =
     (case r of
        Inr v \<Rightarrow> (Some v, w)
      | Inl e \<Rightarrow> (None, q_publish (RecorderWriteFailed rid kind (error_to_string e)) w))"

definition handle_header :: "aead_lib \<Rightarrow> wenv \<Rightarrow> string \<Rightarrow> nat \<Rightarrow> nat \<Rightarrow> bytes \<Rightarrow> qworld \<Rightarrow> qworld" where
  "handle_header A e rid width height shell w =
     (let (r, rw) = record_header A (we_io e) (we_nonce e) rid width height shell (q_rec w)
      in snd (resolve_blocking_result rid ''header'' r (w\<lparr> q_rec := rw \<rparr>)))"

definition handle_event :: "aead_lib \<Rightarrow> wenv \<Rightarrow> nat \<Rightarrow> string \<Rightarrow> RecordDirection \<Rightarrow> bytes \<Rightarrow> qworld \<Rightarrow> qworld" where
  "handle_event A e h rid kind bs w =
     (let (r, rw) = record_event A (we_io e) (we_nonce e) (we_idx_nonce e) (we_ck e) rid kind bs (q_rec w);
          (total_after, w1) = resolve_blocking_result rid ''event'' r (w\<lparr> q_rec := rw \<rparr>)
      in if sl_rotate (q_slots w ! h) then w1
         else case total_after of
           None \<Rightarrow> w1
         | Some tot \<Rightarrow>
             if MAX_FILE_BYTES < tot
             then q_publish (RecorderRotateRequested rid tot) (upd_slot h (\<lambda>s. s\<lparr> sl_rotate := True \<rparr>) w1)
             else w1)"

definition handle_rotate :: "aead_lib \<Rightarrow> crypto_lib \<Rightarrow> wenv \<Rightarrow> nat \<Rightarrow> string \<Rightarrow> string \<Rightarrow> qworld \<Rightarrow> qworld" where
  "handle_rotate A C e h rid new_path w =
     (let (r, rw) = rotate_to A C (we_io e) (we_rk e) (we_nonce e) rid new_path (q_rec w)
      in upd_slot h (\<lambda>s. s\<lparr> sl_rotate := False \<rparr>) (snd (resolve_blocking_result rid ''rotate'' r (w\<lparr> q_rec := rw \<rparr>))))"

definition handle_close :: "sweep \<Rightarrow> string \<Rightarrow> qworld \<Rightarrow> qworld" where
  "handle_close sweep rid w = w\<lparr> q_rec := close_with_io sweep rid (q_rec w) \<rparr>"

definition drop_receiver :: "nat \<Rightarrow> qworld \<Rightarrow> qworld" where
  "drop_receiver h = upd_slot h (\<lambda>s. s\<lparr> sl_open := False, sl_mailbox := [] \<rparr>)"

fun act_slot :: "qact \<Rightarrow> nat option" where
  "act_slot (Append h _ _) = Some h"
| "act_slot (DrainFor h _) = Some h"
| "act_slot Sleep = None"
| "act_slot (FlushDrain h) = Some h"
| "act_slot (Send h _) = Some h"

definition has_sender :: "nat \<Rightarrow> qworld \<Rightarrow> bool" where
  "has_sender h w \<longleftrightarrow> h \<in> snd ` set (q_workers w) \<or> (\<exists>t \<in> set (q_tasks w). \<exists>a \<in> set (t_acts t). act_slot a = Some h)"

definition handle_entry :: "aead_lib \<Rightarrow> crypto_lib \<Rightarrow> sweep \<Rightarrow> wenv \<Rightarrow> nat \<Rightarrow> string \<Rightarrow> QueueEntry \<Rightarrow> qworld \<Rightarrow> qworld" where
  "handle_entry A C sweep e h rid entry w =
     (case entry of
        QHeader width height shell \<Rightarrow> handle_header A e rid width height shell w
      | QEvent kind bs \<Rightarrow> handle_event A e h rid kind bs w
      | QRotate new_path \<Rightarrow> handle_rotate A C e h rid new_path w
      | QClose \<Rightarrow> drop_receiver h (drop_worker rid (handle_close sweep rid w)))"

text \<open>
  One turn of \<open>worker_loop\<close>: an aborted worker goes away where it awaits; a mailbox that is empty
  for good ends the loop with a close.
\<close>

definition worker_turn :: "aead_lib \<Rightarrow> crypto_lib \<Rightarrow> sweep \<Rightarrow> wenv \<Rightarrow> nat \<Rightarrow> qworld \<Rightarrow> qworld" where
  "worker_turn A C sweep e h w =
     (if length (q_slots w) \<le> h \<or> \<not> sl_open (q_slots w ! h) then w
      else let s = q_slots w ! h
      in if sl_killed s \<and> we_stop e then drop_receiver h w
         else case sl_mailbox s of
           [] \<Rightarrow> if has_sender h w then w else drop_receiver h (handle_close sweep (sl_id s) w)
         | entry # rest \<Rightarrow>
             handle_entry A C sweep e h (sl_id s) entry
               (upd_slot h (\<lambda>s. s\<lparr> sl_mailbox := rest \<rparr>) (w\<lparr> q_trace := q_trace w @ [Handled h entry e] \<rparr>)))"

datatype queue_call =
    Spawn string
  | Enqueue string QueueEntry
  | EnqueueChunk string RecordDirection bytes
  | EnqueueBlocking string QueueEntry
  | DropWorker string
  | RunTask nat
  | Work nat wenv

fun queue_step :: "aead_lib \<Rightarrow> crypto_lib \<Rightarrow> sweep \<Rightarrow> queue_call \<Rightarrow> qworld \<Rightarrow> qworld" where
  "queue_step A C sweep (Spawn rid) w = queue_spawn rid w"
| "queue_step A C sweep (Enqueue rid entry) w = enqueue rid entry w"
| "queue_step A C sweep (EnqueueChunk rid k bs) w = enqueue_event_chunk rid k bs w"
| "queue_step A C sweep (EnqueueBlocking rid entry) w = enqueue_blocking rid entry w"
| "queue_step A C sweep (DropWorker rid) w = drop_worker rid w"
| "queue_step A C sweep (RunTask i) w = run_qtask i w"
| "queue_step A C sweep (Work h e) w = worker_turn A C sweep e h w"

definition queue_run :: "aead_lib \<Rightarrow> crypto_lib \<Rightarrow> sweep \<Rightarrow> queue_call list \<Rightarrow> qworld \<Rightarrow> qworld" where
  "queue_run A C sweep = fold (queue_step A C sweep)"

section \<open>Effects of the steps\<close>

lemma upd_slot_fields [simp]:
  "q_workers (upd_slot h f w) = q_workers w" "q_tasks (upd_slot h f w) = q_tasks w"
  "q_events (upd_slot h f w) = q_events w" "q_rec (upd_slot h f w) = q_rec w" "q_trace (upd_slot h f w) = q_trace w"
  "q_slots (upd_slot h f w) = (q_slots w)[h := f (q_slots w ! h)]"
  by (simp_all add: upd_slot_def)

lemma upd_task_fields [simp]:
  "q_workers (upd_task i g w) = q_workers w" "q_slots (upd_task i g w) = q_slots w"
  "q_events (upd_task i g w) = q_events w" "q_rec (upd_task i g w) = q_rec w" "q_trace (upd_task i g w) = q_trace w"
  "q_tasks (upd_task i g w) = (q_tasks w)[i := g (q_tasks w ! i)]"
  by (simp_all add: upd_task_def)

lemma go_on_fields [simp]:
  "q_workers (go_on i acts w) = q_workers w" "q_slots (go_on i acts w) = q_slots w"
  "q_rec (go_on i acts w) = q_rec w" "q_trace (go_on i acts w) = q_trace w"
  "length (q_tasks (go_on i acts w)) = length (q_tasks w)"
  by (simp_all add: go_on_def)

lemma put_bufs_fields [simp]:
  "q_workers (put_bufs h b w) = q_workers w" "q_tasks (put_bufs h b w) = q_tasks w" "q_rec (put_bufs h b w) = q_rec w"
  "q_trace (put_bufs h b w) = q_trace w" "q_slots (put_bufs h b w) = (q_slots w)[h := (q_slots w ! h)\<lparr> sl_bufs := b \<rparr>]"
  by (simp_all add: put_bufs_def)

lemma abort_task_fields [simp]:
  "q_workers (abort_task t w) = q_workers w" "q_slots (abort_task t w) = q_slots w" "q_rec (abort_task t w) = q_rec w"
  "q_trace (abort_task t w) = q_trace w" "length (q_tasks (abort_task t w)) = length (q_tasks w)"
  by (simp_all add: abort_task_def split: option.split)

lemma start_call_fields [simp]:
  "q_workers (start_call rid acts r w) = q_workers w" "q_slots (start_call rid acts r w) = q_slots w"
  "q_rec (start_call rid acts r w) = q_rec w" "q_trace (start_call rid acts r w) = q_trace w"
  "q_tasks (start_call rid acts r w) = q_tasks w @ [\<lparr> t_id = rid, t_acts = acts, t_aborted = False, t_result = r \<rparr>]"
  by (simp_all add: start_call_def)

lemma go_on_acts:
  "j < length (q_tasks w) \<Longrightarrow> t_acts (q_tasks (go_on i acts w) ! j) = (if j = i then acts else t_acts (q_tasks w ! j)) \<and>
    t_aborted (q_tasks (go_on i acts w) ! j) = t_aborted (q_tasks w ! j)"
  by (simp add: go_on_def nth_list_update)

lemma cancel_fields:
  "t_acts (cancel t) = (if take 1 (t_acts t) = [Sleep] then [] else t_acts t)" "t_aborted (cancel t) = True"
  by (simp_all add: cancel_def split: list.split qact.split)

lemma abort_task_acts:
  "j < length (q_tasks w) \<Longrightarrow>
    t_acts (q_tasks (abort_task t w) ! j) =
      (if t = Some j \<and> take 1 (t_acts (q_tasks w ! j)) = [Sleep] then [] else t_acts (q_tasks w ! j)) \<and>
    t_aborted (q_tasks (abort_task t w) ! j) = (t = Some j \<or> t_aborted (q_tasks w ! j))"
  by (cases t; cases "t = Some j") (auto simp: abort_task_def cancel_fields)

lemma drain_slot_fields [simp]:
  "q_workers (drain_slot i h b rest w) = q_workers w" "q_rec (drain_slot i h b rest w) = q_rec w"
  "q_trace (drain_slot i h b rest w) = q_trace w" "length (q_tasks (drain_slot i h b rest w)) = length (q_tasks w)"
  "q_slots (drain_slot i h b rest w) = (q_slots w)[h := (q_slots w ! h)\<lparr> sl_bufs := buffers_new \<rparr>]"
  by (simp_all add: drain_slot_def drain_def)

lemma drain_slot_acts:
  "j < length (q_tasks w) \<Longrightarrow>
    t_acts (q_tasks (drain_slot i h b rest w) ! j) =
      (if j = i then sends h (drained b) @ rest
       else if eb_flush_task b = Some j \<and> take 1 (t_acts (q_tasks w ! j)) = [Sleep] then []
       else t_acts (q_tasks w ! j)) \<and>
    t_aborted (q_tasks (drain_slot i h b rest w) ! j) = (eb_flush_task b = Some j \<or> t_aborted (q_tasks w ! j))"
  by (simp add: drain_slot_def drain_def go_on_acts abort_task_acts)

section \<open>Every buffered byte has a flush coming\<close>

definition flush_ok :: "qtask list \<Rightarrow> nat \<Rightarrow> EventBuffers \<Rightarrow> bool" where
  "flush_ok ts h b \<longleftrightarrow>
     (drained b \<noteq> [] \<longrightarrow> eb_flush_task b \<noteq> None) \<and>
     (\<forall>t. eb_flush_task b = Some t \<longrightarrow> t < length ts \<and> \<not> t_aborted (ts ! t) \<and>
        t_acts (ts ! t) \<in> {[Sleep, FlushDrain h], [FlushDrain h]})"

text \<open>The shapes a task can have: a call or a deadline task before its drain, or the sends after it.\<close>

fun acts_ok :: "qact list \<Rightarrow> bool" where
  "acts_ok [] = True"
| "acts_ok (Append _ _ _ # as) = (as = [])"
| "acts_ok (DrainFor _ _ # as) = (as = [])"
| "acts_ok (Sleep # as) = (\<exists>h. as = [FlushDrain h])"
| "acts_ok (FlushDrain _ # as) = (as = [])"
| "acts_ok (Send h _ # as) = (\<forall>a \<in> set as. \<exists>e. a = Send h e)"

definition wq_inv :: "qworld \<Rightarrow> bool" where
  "wq_inv w \<longleftrightarrow>
     (\<forall>h < length (q_slots w). flush_ok (q_tasks w) h (sl_bufs (q_slots w ! h))) \<and>
     (\<forall>t \<in> set (q_tasks w). acts_ok (t_acts t) \<and> (\<forall>a \<in> set (t_acts t). \<forall>h. act_slot a = Some h \<longrightarrow> h < length (q_slots w))) \<and>
     (\<forall>h \<in> snd ` set (q_workers w). h < length (q_slots w))"

lemma flush_ok_new [simp]: "flush_ok ts h buffers_new"
  by (simp add: flush_ok_def buffers_new_def drained_def)

lemma flush_ok_tasks:
  assumes "flush_ok ts h b" "length ts \<le> length ts'"
    and "\<And>t. eb_flush_task b = Some t \<Longrightarrow> t < length ts \<Longrightarrow> t_acts (ts ! t) \<in> {[Sleep, FlushDrain h], [FlushDrain h]} \<Longrightarrow>
      \<not> t_aborted (ts ! t) \<Longrightarrow> t_acts (ts' ! t) \<in> {[Sleep, FlushDrain h], [FlushDrain h]} \<and> \<not> t_aborted (ts' ! t)"
  shows "flush_ok ts' h b"
  using assms unfolding flush_ok_def by (meson order_less_le_trans)

lemma sends_ok: "a \<in> set (sends h items) \<Longrightarrow> \<exists>e. a = Send h e"
  by (auto simp: sends_def)

lemma acts_ok_sends: "\<forall>a \<in> set as. \<exists>e. a = Send h e \<Longrightarrow> acts_ok as"
  by (cases as) auto

text \<open>One task acts: the buffers of its slot change, tasks only change where the other slots do not look.\<close>

lemma wq_inv_drain:
  assumes inv: "wq_inv w" and i: "i < length (q_tasks w)" and h: "h < length (q_slots w)"
    and acts: "\<forall>a \<in> set rest. \<exists>e. a = Send h e"
    and old: "\<And>t. eb_flush_task b = Some t \<Longrightarrow> t \<noteq> i \<and> eb_flush_task (sl_bufs (q_slots w ! h)) = Some t"
    and mine: "\<And>g. g < length (q_slots w) \<Longrightarrow> g \<noteq> h \<Longrightarrow> eb_flush_task (sl_bufs (q_slots w ! g)) \<noteq> Some i"
  shows "wq_inv (drain_slot i h b rest w)"
proof -
  let ?w = "drain_slot i h b rest w"
  have f: "\<And>g. g < length (q_slots w) \<Longrightarrow> flush_ok (q_tasks w) g (sl_bufs (q_slots w ! g))"
    and t: "\<And>t. t \<in> set (q_tasks w) \<Longrightarrow> acts_ok (t_acts t) \<and> (\<forall>a \<in> set (t_acts t). \<forall>h. act_slot a = Some h \<longrightarrow> h < length (q_slots w))"
    and wk: "\<forall>h \<in> snd ` set (q_workers w). h < length (q_slots w)"
    using inv by (auto simp: wq_inv_def)
  have "flush_ok (q_tasks ?w) g (sl_bufs (q_slots ?w ! g))" if g: "g < length (q_slots w)" for g
  proof (cases "g = h")
    case True
    with g show ?thesis by simp
  next
    case False
    have "flush_ok (q_tasks ?w) g (sl_bufs (q_slots w ! g))"
    proof (rule flush_ok_tasks [OF f [OF g]])
      fix j assume j: "eb_flush_task (sl_bufs (q_slots w ! g)) = Some j" "j < length (q_tasks w)"
        "t_acts (q_tasks w ! j) \<in> {[Sleep, FlushDrain g], [FlushDrain g]}" "\<not> t_aborted (q_tasks w ! j)"
      have "eb_flush_task b \<noteq> Some j"
        using old [of j] f [OF h] j(3) False by (auto simp: flush_ok_def)
      then show "t_acts (q_tasks ?w ! j) \<in> {[Sleep, FlushDrain g], [FlushDrain g]} \<and> \<not> t_aborted (q_tasks ?w ! j)"
        using mine [OF g False] j by (auto simp: drain_slot_acts)
    qed simp
    then show ?thesis using False by simp
  qed
  moreover have "acts_ok (t_acts u) \<and> (\<forall>a \<in> set (t_acts u). \<forall>h. act_slot a = Some h \<longrightarrow> h < length (q_slots w))"
    if u: "u \<in> set (q_tasks ?w)" for u
  proof -
    obtain j where j: "j < length (q_tasks w)" "u = q_tasks ?w ! j" using u by (auto simp: in_set_conv_nth)
    have "\<forall>a \<in> set (sends h (drained b) @ rest). \<exists>e. a = Send h e" using acts sends_ok by auto
    then have i_ok: "acts_ok (sends h (drained b) @ rest)"
        "\<forall>a \<in> set (sends h (drained b) @ rest). \<forall>g. act_slot a = Some g \<longrightarrow> g < length (q_slots w)"
      using acts_ok_sends h by (blast, fastforce)
    have "t_acts u \<in> {sends h (drained b) @ rest, [], t_acts (q_tasks w ! j)}"
      using j drain_slot_acts [of j w i h b rest] by auto
    then show ?thesis using i_ok t [OF nth_mem [OF j(1)]] by auto
  qed
  ultimately show ?thesis using wk by (auto simp: wq_inv_def)
qed

lemma wq_inv_cong:
  "q_slots w' = q_slots w \<Longrightarrow> q_tasks w' = q_tasks w \<Longrightarrow> q_workers w' = q_workers w \<Longrightarrow> wq_inv w' = wq_inv w"
  by (simp add: wq_inv_def)

lemma wq_inv_upd_slot:
  assumes "wq_inv w" "sl_bufs (f (q_slots w ! h)) = sl_bufs (q_slots w ! h)"
  shows "wq_inv (upd_slot h f w)"
proof -
  have "sl_bufs ((q_slots w)[h := f (q_slots w ! h)] ! g) = sl_bufs (q_slots w ! g)" for g
    using assms(2) by (cases "g = h"; cases "h < length (q_slots w)") (auto simp: list_update_beyond)
  then show ?thesis using assms(1) by (simp add: wq_inv_def)
qed

lemma wq_inv_upd_task:
  assumes inv: "wq_inv w" and i: "i < length (q_tasks w)"
    and acts: "acts_ok (t_acts (f (q_tasks w ! i)))" "set (t_acts (f (q_tasks w ! i))) \<subseteq> set (t_acts (q_tasks w ! i))"
    and fl: "\<And>g. g < length (q_slots w) \<Longrightarrow> eb_flush_task (sl_bufs (q_slots w ! g)) = Some i \<Longrightarrow>
      t_acts (f (q_tasks w ! i)) \<in> {[Sleep, FlushDrain g], [FlushDrain g]} \<and> \<not> t_aborted (f (q_tasks w ! i))"
  shows "wq_inv (upd_task i f w)"
proof -
  have "flush_ok ((q_tasks w)[i := f (q_tasks w ! i)]) g (sl_bufs (q_slots w ! g))" if g: "g < length (q_slots w)" for g
  proof (rule flush_ok_tasks)
    show "flush_ok (q_tasks w) g (sl_bufs (q_slots w ! g))" using inv g by (simp add: wq_inv_def)
    show "t_acts ((q_tasks w)[i := f (q_tasks w ! i)] ! t) \<in> {[Sleep, FlushDrain g], [FlushDrain g]} \<and>
        \<not> t_aborted ((q_tasks w)[i := f (q_tasks w ! i)] ! t)"
      if "eb_flush_task (sl_bufs (q_slots w ! g)) = Some t" "t < length (q_tasks w)"
        "t_acts (q_tasks w ! t) \<in> {[Sleep, FlushDrain g], [FlushDrain g]}" "\<not> t_aborted (q_tasks w ! t)" for t
      using that fl [OF g] by (cases "t = i") simp_all
  qed simp
  moreover have "q_tasks w ! i \<in> set (q_tasks w)" using i by simp
  then have "\<forall>a \<in> set (t_acts (f (q_tasks w ! i))). \<forall>h. act_slot a = Some h \<longrightarrow> h < length (q_slots w)"
    using inv acts(2) unfolding wq_inv_def by blast
  ultimately show ?thesis
    using inv acts(1) set_update_subset_insert [of "q_tasks w" i "f (q_tasks w ! i)"] unfolding wq_inv_def
    by (auto dest!: subsetD)
qed

lemma wq_inv_start:
  assumes "wq_inv w" "acts_ok acts" "\<And>a h. a \<in> set acts \<Longrightarrow> act_slot a = Some h \<Longrightarrow> h < length (q_slots w)"
  shows "wq_inv (start_call rid acts r w)"
proof -
  have "flush_ok (q_tasks (start_call rid acts r w)) g (sl_bufs (q_slots w ! g))" if "g < length (q_slots w)" for g
  proof (rule flush_ok_tasks)
    show "flush_ok (q_tasks w) g (sl_bufs (q_slots w ! g))" using assms(1) that by (simp add: wq_inv_def)
  qed (simp_all add: nth_append)
  then show ?thesis using assms by (auto simp: wq_inv_def)
qed

lemma wq_inv_put_bufs:
  assumes "wq_inv w" "h < length (q_slots w) \<Longrightarrow> flush_ok (q_tasks w) h b"
  shows "wq_inv (put_bufs h b w)"
proof -
  have "flush_ok (q_tasks w) g (sl_bufs (q_slots (put_bufs h b w) ! g))" if "g < length (q_slots w)" for g
    using assms that by (cases "g = h") (auto simp: wq_inv_def)
  then show ?thesis using assms(1) by (simp add: wq_inv_def)
qed

lemma wq_inv_go_on:
  assumes "wq_inv w" "i < length (q_tasks w)" "acts_ok acts" "set acts \<subseteq> set (t_acts (q_tasks w ! i))"
    and "\<And>g. g < length (q_slots w) \<Longrightarrow> eb_flush_task (sl_bufs (q_slots w ! g)) = Some i \<Longrightarrow>
      acts \<in> {[Sleep, FlushDrain g], [FlushDrain g]}"
  shows "wq_inv (go_on i acts w)"
proof -
  have "\<not> t_aborted (q_tasks w ! i)" if "g < length (q_slots w)" "eb_flush_task (sl_bufs (q_slots w ! g)) = Some i" for g
    using assms(1) that by (auto simp: wq_inv_def flush_ok_def)
  then show ?thesis
    using assms unfolding go_on_def by (intro wq_inv_upd_task) auto
qed

lemma flush_task_extend [simp]: "eb_flush_task (extend_buf k bs b) = eb_flush_task b"
  by (simp add: extend_buf_def split: RecordDirection.split)

lemma not_flush:
  assumes "wq_inv w" "g < length (q_slots w)" "eb_flush_task (sl_bufs (q_slots w ! g)) = Some i"
  shows "t_acts (q_tasks w ! i) \<in> {[Sleep, FlushDrain g], [FlushDrain g]}"
  using assms by (auto simp: wq_inv_def flush_ok_def)

lemma wq_inv_append:
  assumes inv: "wq_inv w" and i: "i < length (q_tasks w)" and t: "t_acts (q_tasks w ! i) = [Append h kind bs]"
  shows "wq_inv (q_exec i (Append h kind bs) [] w)"
proof -
  have h: "h < length (q_slots w)" using inv i t by (fastforce simp: wq_inv_def dest: nth_mem)
  define b where "b = extend_buf kind bs (sl_bufs (q_slots w ! h))"
  define w0 where "w0 = w\<lparr> q_trace := q_trace w @ [Accepted h kind bs] \<rparr>"
  have w0: "wq_inv w0" "q_slots w0 = q_slots w" "q_tasks w0 = q_tasks w"
    using inv wq_inv_cong [of w0 w] by (simp_all add: w0_def)
  have nf: "g < length (q_slots w) \<Longrightarrow> eb_flush_task (sl_bufs (q_slots w ! g)) \<noteq> Some i" for g
    using not_flush [OF inv, of g i] t by auto
  consider "FLUSH_THRESHOLD_BYTES \<le> length (buf_of kind b)"
    | "\<not> FLUSH_THRESHOLD_BYTES \<le> length (buf_of kind b)" "eb_flush_task b = None"
    | t' where "\<not> FLUSH_THRESHOLD_BYTES \<le> length (buf_of kind b)" "eb_flush_task b = Some t'"
    by blast
  then show ?thesis
  proof cases
    case 1
    moreover have "wq_inv (drain_slot i h b [] w0)"
      using nf h i by (intro wq_inv_drain [OF w0(1)]) (auto simp: w0 b_def)
    ultimately show ?thesis by (simp add: b_def [symmetric] w0_def [symmetric])
  next
    case 2
    let ?n = "length (q_tasks w)"
    define w1 where "w1 = spawn_deadline_flush (t_id (q_tasks w ! i)) h w0"
    have w1: "wq_inv w1" "q_slots w1 = q_slots w"
      "q_tasks w1 = q_tasks w @ [\<lparr> t_id = t_id (q_tasks w ! i), t_acts = [Sleep, FlushDrain h], t_aborted = False, t_result = None \<rparr>]"
      unfolding w1_def spawn_deadline_flush_def using w0 h by (auto intro!: wq_inv_start)
    have "wq_inv (put_bufs h (b\<lparr> eb_flush_task := Some ?n \<rparr>) w1)"
      by (rule wq_inv_put_bufs [OF w1(1)]) (simp add: flush_ok_def w1)
    then have "wq_inv (go_on i [] (put_bufs h (b\<lparr> eb_flush_task := Some ?n \<rparr>) w1))"
      by (rule wq_inv_go_on) (use i nf h in \<open>auto simp: w1 nth_list_update split: if_splits\<close>)
    with 2 show ?thesis by (simp add: b_def [symmetric] w0_def [symmetric] w1_def)
  next
    case 3
    have "flush_ok (q_tasks w) h (sl_bufs (q_slots w ! h))" using inv h by (simp add: wq_inv_def)
    then have "flush_ok (q_tasks w) h b" using 3(2) by (auto simp: flush_ok_def b_def)
    then have "wq_inv (put_bufs h b w0)" using w0 by (intro wq_inv_put_bufs) auto
    then have "wq_inv (go_on i [] (put_bufs h b w0))"
      by (rule wq_inv_go_on) (use i nf h in \<open>auto simp: w0 b_def nth_list_update split: if_splits\<close>)
    with 3 show ?thesis by (simp add: b_def [symmetric] w0_def [symmetric])
  qed
qed

lemma wq_inv_exec:
  assumes inv: "wq_inv w" and i: "i < length (q_tasks w)" and t: "t_acts (q_tasks w ! i) = a # rest"
  shows "wq_inv (q_exec i a rest w)"
proof -
  have ok: "acts_ok (a # rest)" and sl: "\<And>c h. c \<in> set (a # rest) \<Longrightarrow> act_slot c = Some h \<Longrightarrow> h < length (q_slots w)"
    using inv nth_mem [OF i] t by (fastforce simp: wq_inv_def)+
  have nf: "take 1 (a # rest) = [Sleep] \<or> (\<exists>g. a = FlushDrain g) \<or>
      (\<forall>g < length (q_slots w). eb_flush_task (sl_bufs (q_slots w ! g)) \<noteq> Some i)"
    using not_flush [OF inv, of _ i] t by auto
  show ?thesis
  proof (cases a)
    case (Append h kind bs)
    then show ?thesis using wq_inv_append [OF inv i] t ok by simp
  next
    case (DrainFor h entry)
    then show ?thesis
      using nf ok sl by (auto intro!: wq_inv_drain [OF inv i])
  next
    case Sleep
    then obtain h where h: "rest = [FlushDrain h]" using ok by auto
    have "eb_flush_task (sl_bufs (q_slots w ! g)) = Some i \<Longrightarrow> g < length (q_slots w) \<Longrightarrow> g = h" for g
      using not_flush [OF inv, of g i] t h by auto
    then show ?thesis using Sleep h t by (auto intro!: wq_inv_go_on [OF inv i])
  next
    case (FlushDrain h)
    have "eb_flush_task (sl_bufs (q_slots w ! g)) = Some i \<Longrightarrow> g < length (q_slots w) \<Longrightarrow> g = h" for g
      using not_flush [OF inv, of g i] t FlushDrain by auto
    then show ?thesis
      using FlushDrain ok sl by (auto intro!: wq_inv_drain [OF inv i])
  next
    case (Send h e)
    have nf: "\<And>g. g < length (q_slots w) \<Longrightarrow> eb_flush_task (sl_bufs (q_slots w ! g)) \<noteq> Some i" using nf Send by auto
    let ?w = "upd_slot h (\<lambda>s. s\<lparr> sl_mailbox := sl_mailbox s @ [e] \<rparr>) w"
    have w: "wq_inv ?w" by (rule wq_inv_upd_slot [OF inv]) simp
    have "sl_bufs (q_slots ?w ! g) = sl_bufs (q_slots w ! g)" for g
      by (cases "g = h"; cases "h < length (q_slots w)") (auto simp: list_update_beyond)
    then have "wq_inv (go_on i rest ?w)"
      using nf i t Send ok acts_ok_sends [of rest] by (intro wq_inv_go_on [OF w]) auto
    then show ?thesis
      using Send inv nf i by (auto simp: Let_def intro!: wq_inv_upd_task)
  qed
qed

lemma wq_inv_run_qtask: "wq_inv w \<Longrightarrow> wq_inv (run_qtask i w)"
  by (auto simp: run_qtask_def intro: wq_inv_exec split: list.split)

lemma wq_inv_workers:
  "wq_inv w \<Longrightarrow> \<forall>h \<in> snd ` set ws. h < length (q_slots w) \<Longrightarrow> wq_inv (w\<lparr> q_workers := ws \<rparr>)"
  by (simp add: wq_inv_def)

lemma wq_inv_kill: "wq_inv w \<Longrightarrow> wq_inv (kill_worker rid w)"
  by (auto simp: kill_worker_def intro!: wq_inv_upd_slot split: option.split)

lemma set_hdel: "set (hdel k m) \<subseteq> set m"
  by (auto simp: hdel_def AList.delete_eq)

lemma set_hput: "set (hput k v m) \<subseteq> insert (k, v) (set m)"
  unfolding hput_def by (induction m) auto

lemma wq_inv_drop: "wq_inv w \<Longrightarrow> wq_inv (drop_worker rid w)"
  unfolding drop_worker_def
  using set_hdel [of rid "q_workers w"]
  by (intro wq_inv_workers wq_inv_kill) (auto simp: wq_inv_def kill_worker_def split: option.split)

lemma wq_inv_with_slot:
  assumes "wq_inv w" "\<And>h. acts_ok (f h)" "\<And>h a g. a \<in> set (f h) \<Longrightarrow> act_slot a = Some g \<Longrightarrow> g = h"
  shows "wq_inv (with_slot rid f w)"
proof (cases "hget (q_workers w) rid")
  case (Some h)
  then have "h \<in> snd ` set (q_workers w)" by (force simp: hget_def dest: map_of_SomeD)
  then have "h < length (q_slots w)" using assms(1) by (auto simp: wq_inv_def)
  with Some assms show ?thesis by (auto simp: with_slot_def intro!: wq_inv_start)
qed (use assms(1) in \<open>auto simp: with_slot_def intro!: wq_inv_start\<close>)

lemma wq_inv_spawn: "wq_inv w \<Longrightarrow> wq_inv (queue_spawn rid w)"
proof -
  assume "wq_inv w"
  then have k: "wq_inv (kill_worker rid w)" by (rule wq_inv_kill)
  have f: "q_tasks (kill_worker rid w) = q_tasks w" "length (q_slots (kill_worker rid w)) = length (q_slots w)"
      "q_workers (kill_worker rid w) = q_workers w"
    by (simp_all add: kill_worker_def split: option.split)
  show ?thesis
    using k f set_hput [of rid "length (q_slots w)" "q_workers w"] unfolding wq_inv_def queue_spawn_def
    by (auto simp: nth_append less_Suc_eq split: if_splits)
qed

lemma wq_inv_same:
  assumes "wq_inv w" "q_tasks w' = q_tasks w" "map sl_bufs (q_slots w') = map sl_bufs (q_slots w)"
    "set (q_workers w') \<subseteq> set (q_workers w)"
  shows "wq_inv w'"
proof -
  have l: "length (q_slots w') = length (q_slots w)" using assms(3) by (metis length_map)
  moreover have "sl_bufs (q_slots w' ! h) = sl_bufs (q_slots w ! h)" if "h < length (q_slots w)" for h
    using assms(3) that l by (metis nth_map)
  moreover have "\<forall>h \<in> snd ` set (q_workers w'). h < length (q_slots w)"
    using assms(1,4) unfolding wq_inv_def by blast
  ultimately show ?thesis using assms(1,2) unfolding wq_inv_def by auto
qed

lemma bufs_update [simp]:
  "sl_bufs s = sl_bufs (ss ! h) \<Longrightarrow> map sl_bufs (ss[h := s]) = map sl_bufs ss"
  by (metis list_update_id map_update)

lemma handle_entry_same:
  "q_tasks (handle_entry A C sweep e h rid entry w) = q_tasks w"
  "map sl_bufs (q_slots (handle_entry A C sweep e h rid entry w)) = map sl_bufs (q_slots w)"
  "set (q_workers (handle_entry A C sweep e h rid entry w)) \<subseteq> set (q_workers w)"
  using set_hdel [of rid "q_workers w"]
  by (auto simp: handle_entry_def handle_header_def handle_event_def handle_rotate_def handle_close_def drop_receiver_def
      drop_worker_def kill_worker_def resolve_blocking_result_def q_publish_def Let_def
      split: QueueEntry.split prod.split sum.split option.split)

lemma worker_turn_same:
  "q_tasks (worker_turn A C sweep e h w) = q_tasks w"
  "map sl_bufs (q_slots (worker_turn A C sweep e h w)) = map sl_bufs (q_slots w)"
  "set (q_workers (worker_turn A C sweep e h w)) \<subseteq> set (q_workers w)"
  by (auto simp: worker_turn_def Let_def drop_receiver_def handle_close_def handle_entry_same
      dest: subsetD [OF handle_entry_same(3)] split: list.split)

lemma wq_inv_worker: "wq_inv w \<Longrightarrow> wq_inv (worker_turn A C sweep e h w)"
  by (erule wq_inv_same) (rule worker_turn_same)+

lemma wq_inv_step: "wq_inv w \<Longrightarrow> wq_inv (queue_step A C sweep c w)"
  by (cases c) (auto simp: enqueue_def enqueue_event_chunk_def enqueue_blocking_def
      intro!: wq_inv_spawn wq_inv_with_slot wq_inv_start wq_inv_drop wq_inv_run_qtask wq_inv_worker)

lemma wq_inv_new: "wq_inv (queue_new rw)"
  by (simp add: wq_inv_def queue_new_def hempty_def)

interpretation rq: step_invariant "queue_step A C sweep" wq_inv for A C sweep
  by unfold_locales (rule wq_inv_step)

lemma queue_reachable: "wq_inv (queue_run A C sweep cs (queue_new rw))"
  unfolding queue_run_def by (rule rq.inv_run [OF wq_inv_new])

lemma run_flush_drain:
  assumes "t < length (q_tasks w)" "h < length (q_slots w)" "t_acts (q_tasks w ! t) = [FlushDrain h]"
  shows "sl_bufs (q_slots (run_qtask t w) ! h) = buffers_new \<and>
    t_acts (q_tasks (run_qtask t w) ! t) = sends h (drained (sl_bufs (q_slots w ! h)))"
  using assms by (simp add: run_qtask_def drain_slot_acts drained_def)

text \<open>
  No byte is stuck in a buffer: in every reachable state, however calls, timers, workers, closes and
  respawns interleaved, a slot with buffered bytes has a deadline task that is alive, and two turns of
  that task move everything buffered into its sends.
\<close>

theorem deadline_flush_armed:
  assumes "w = queue_run A C sweep cs (queue_new rw)" and "h < length (q_slots w)"
    and "b = sl_bufs (q_slots w ! h)" and "eb_output b \<noteq> [] \<or> eb_input b \<noteq> []"
  shows "\<exists>t n. n \<le> 2 \<and> \<not> t_aborted (q_tasks w ! t) \<and>
    sl_bufs (q_slots ((run_qtask t ^^ n) w) ! h) = buffers_new \<and>
    t_acts (q_tasks ((run_qtask t ^^ n) w) ! t) = sends h (drained b)"
proof -
  have "flush_ok (q_tasks w) h b"
    using queue_reachable [of A C sweep cs rw] assms(1-3) by (simp add: wq_inv_def)
  moreover have "drained b \<noteq> []" using assms(4) by (auto simp: drained_def)
  ultimately obtain t where t: "t < length (q_tasks w)" "\<not> t_aborted (q_tasks w ! t)"
      "t_acts (q_tasks w ! t) = [Sleep, FlushDrain h] \<or> t_acts (q_tasks w ! t) = [FlushDrain h]"
    by (auto simp: flush_ok_def)
  from t(3) show ?thesis
  proof
    assume "t_acts (q_tasks w ! t) = [FlushDrain h]"
    with run_flush_drain [OF t(1) assms(2)] t(2) assms(3) show ?thesis
      by (intro exI [of _ t] exI [of _ 1]) simp
  next
    assume s: "t_acts (q_tasks w ! t) = [Sleep, FlushDrain h]"
    define w1 where "w1 = run_qtask t w"
    have "w1 = go_on t [FlushDrain h] w" using s t(1) by (simp add: w1_def run_qtask_def)
    then have w1: "length (q_tasks w1) = length (q_tasks w)" "q_slots w1 = q_slots w"
        "t_acts (q_tasks w1 ! t) = [FlushDrain h]"
      using t(1) by (simp_all add: go_on_acts)
    have "(run_qtask t ^^ 2) w = run_qtask t w1" by (simp add: numeral_2_eq_2 w1_def)
    with run_flush_drain [of t w1 h] w1 t assms(2,3) show ?thesis
      by (intro exI [of _ t] exI [of _ 2]) simp
  qed
qed

text \<open>An input chunk that has been appended.\<close>

definition demo_chunk_run :: "queue_call list" where
  "demo_chunk_run = [Spawn ''r'', EnqueueChunk ''r'' Input [0x71], RunTask 0]"

theorem deadline_flush_armed_witness:
  "\<exists>w t n. w = queue_run aead_ref crypto_ref (\<lambda>_ _ fs. fs) demo_chunk_run
      (queue_new \<lparr> rw_by_id = hempty, rw_fs = hempty, rw_bus = [] \<rparr>) \<and> n \<le> (2::nat) \<and>
    \<not> t_aborted (q_tasks w ! t) \<and> sl_bufs (q_slots ((run_qtask t ^^ n) w) ! 0) = buffers_new \<and>
    t_acts (q_tasks ((run_qtask t ^^ n) w) ! t) = [Send 0 (QEvent Input [0x71])]"
proof -
  let ?w = "queue_run aead_ref crypto_ref (\<lambda>_ _ fs. fs) demo_chunk_run
      (queue_new \<lparr> rw_by_id = hempty, rw_fs = hempty, rw_bus = [] \<rparr>)"
  have f: "length (q_slots ?w) = 1" "eb_output (sl_bufs (q_slots ?w ! 0)) = []"
      "eb_input (sl_bufs (q_slots ?w ! 0)) = [0x71]"
    by code_simp+
  then have "sends 0 (drained (sl_bufs (q_slots ?w ! 0))) = [Send 0 (QEvent Input [0x71])]"
    by (simp add: sends_def drained_def)
  with deadline_flush_armed [OF refl, of 0 aead_ref crypto_ref "\<lambda>_ _ fs. fs" demo_chunk_run
      "\<lparr> rw_by_id = hempty, rw_fs = hempty, rw_bus = [] \<rparr>", OF _ refl] f
  show ?thesis by fastforce
qed

text \<open>
  A close can overtake a deadline flush.  The timer drains under the lock but sends after releasing it,
  so a close issued in between finds the buffers empty and its entry reaches the mailbox first; the
  worker seals the recording and the late chunk, which had been accepted, is never written.
\<close>

theorem close_overtakes_flush:
  "let w = queue_run aead_ref crypto_ref (\<lambda>_ _ fs. fs)
      [Spawn ''r'', EnqueueChunk ''r'' Output [0x61], RunTask 0, RunTask 1, RunTask 1,
       EnqueueBlocking ''r'' QClose, RunTask 2, RunTask 2, Work 0 e, RunTask 1]
      (queue_new \<lparr> rw_by_id = hempty, rw_fs = hempty, rw_bus = [] \<rparr>)
   in q_trace w = [Accepted 0 Output [0x61], Handled 0 QClose e] \<and>
      map t_acts (q_tasks w) = [[], [], []] \<and> map t_result (q_tasks w) = map Some [Inr (), Inl (ERecorder ''queue r closed''), Inr ()] \<and>
      map sl_mailbox (q_slots w) = [[]] \<and> map sl_bufs (q_slots w) = [buffers_new] \<and> worker_count w = 0"
  by code_simp

end
