(* ===== verification/Recorder_Playback.thy ===== *)
theory Recorder_Playback
  imports Recorder_File
begin

text \<open>
  What a recording plays back: writer and reader composed.  The AEAD is relied on to open what it
  sealed (\<open>aead_ok\<close>), to seal any text under a 12-byte nonce (\<open>aead_total\<close>) and, where a
  theorem is about a failure, to reject a sealed text under another counter (\<open>aead_binds\<close>); the
  storage-cap sweep is relied on to keep the files of active recordings.
\<close>

section \<open>Recording a session\<close>

datatype rec_call =
    CallHeader nat nat bytes bytes
  | CallEvent clock RecordDirection bytes bytes bytes

definition rec_do :: "aead_lib \<Rightarrow> string \<Rightarrow> rec_call \<Rightarrow> rec_world \<Rightarrow> (Error + nat) \<times> rec_world" where
  "rec_do A rid c w =
     (case c of
        CallHeader width height shell nonce \<Rightarrow> record_header A io_good nonce rid width height shell w
      | CallEvent ck kind bs nonce idx_nonce \<Rightarrow> record_event A io_good nonce idx_nonce ck rid kind bs w)"

fun record_all :: "aead_lib \<Rightarrow> string \<Rightarrow> rec_call list \<Rightarrow> rec_world \<Rightarrow> Error + rec_world" where
  "record_all A rid [] w = Inr w"
| "record_all A rid (c # cs) w =
     (case rec_do A rid c w of (Inl e, _) \<Rightarrow> Inl e | (Inr _, w') \<Rightarrow> record_all A rid cs w')"

definition line_of :: "nat \<Rightarrow> rec_call \<Rightarrow> bytes" where
  "line_of started c =
     (case c of
        CallHeader width height shell nonce \<Rightarrow> header_line width height started shell
      | CallEvent ck kind bs nonce idx_nonce \<Rightarrow> event_line (ck_text ck) kind bs)"

text \<open>What the callers guarantee: UTF-8 labels, 12-byte nonces, a printed number as the delta.\<close>

definition call_ok :: "nat \<Rightarrow> rec_call \<Rightarrow> bool" where
  "call_ok started c \<longleftrightarrow> length (line_of started c) \<le> MAX_FRAME_PLAINTEXT_BYTES \<and>
     (case c of
        CallHeader width height shell nonce \<Rightarrow> utf8_ok shell \<and> length nonce = NONCE_LEN
      | CallEvent ck kind bs nonce idx_nonce \<Rightarrow>
          ascii_text (ck_text ck) \<and> bs \<noteq> [] \<and> length nonce = NONCE_LEN \<and> length idx_nonce = NONCE_LEN)"

definition aead_total :: "aead_lib \<Rightarrow> bool" where
  "aead_total A \<longleftrightarrow> (\<forall>k n p a. length n = NONCE_LEN \<longrightarrow> aead_seal A k n p a \<noteq> None)"

lemma aead_totalD: "aead_total A \<Longrightarrow> length n = NONCE_LEN \<Longrightarrow> \<exists>c. aead_seal A k n p a = Some c"
  by (simp add: aead_total_def)

definition aead_binds :: "aead_lib \<Rightarrow> bool" where
  "aead_binds A \<longleftrightarrow> (\<forall>k n p c i j. aead_seal A k n p (le_bytes 8 i) = Some c \<longrightarrow> i < 2 ^ 64 \<longrightarrow> j < 2 ^ 64 \<longrightarrow>
     i \<noteq> j \<longrightarrow> aead_open A k n c (le_bytes 8 j) = None)"

definition sweep_ok :: "sweep \<Rightarrow> bool" where
  "sweep_ok sweep \<longleftrightarrow> (\<forall>path act fs p. p \<in> set act \<longrightarrow>
     hget (sweep path act fs) p = hget fs p \<and>
     hget (sweep path act fs) (sidecar_path p) = hget fs (sidecar_path p))"

section \<open>The writer's invariant\<close>

definition file_inv ::
  "aead_lib \<Rightarrow> bytes \<Rightarrow> bytes \<Rightarrow> nat \<Rightarrow> IndexWriter \<Rightarrow> string \<Rightarrow> string \<Rightarrow>
   bytes list \<Rightarrow> bytes list \<Rightarrow> (bytes \<times> IndexEntry) list \<Rightarrow> rec_world \<Rightarrow> bool" where
  "file_inv A rk hdr started iw0 rid path pts fl xs w \<longleftrightarrow>
     (\<exists>a iw. hget (rw_by_id w) rid = Some a \<and> ra_file a = Some path \<and> ra_path a = path \<and>
        ra_key a = Some rk \<and> ra_started_at a = Some started \<and> ra_frame_index a = length pts \<and>
        ra_bytes_written a = length (hdr @ concat fl) \<and> ra_index a = Some iw \<and>
        append_all A xs iw0 = Inr iw \<and> hget (rw_fs w) (sidecar_path path) = Some (iw_file iw)) \<and>
     hget (rw_fs w) path = Some (hdr @ concat fl) \<and> frames A rk pts fl"

lemma sidecar_path_neq [simp]: "sidecar_path path \<noteq> path" "path \<noteq> sidecar_path path"
  by (simp_all add: sidecar_path_def)

lemma frames_snoc:
  assumes "frames A k pts fl" "length nonce = NONCE_LEN" "build_frame A nonce pt (Some k) (length pts) = Inr frame"
  shows "frames A k (pts @ [pt]) (fl @ [frame])"
  using assms by (auto simp: frames_def nth_append less_Suc_eq)

lemma build_frame_total:
  assumes "aead_total A" "length nonce = NONCE_LEN" "length pt < 2 ^ 32"
  obtains frame where "build_frame A nonce pt (Some k) i = Inr frame"
proof -
  obtain ct where "aead_seal A k nonce pt (le_bytes 8 i) = Some ct"
    using aead_totalD [OF assms(1,2)] by blast
  then show ?thesis using assms(3) that by (simp add: build_frame_def)
qed

lemma append_all_snoc:
  "append_all A (xs @ [(n, e)]) w =
     (case append_all A xs w of Inl err \<Rightarrow> Inl err | Inr w' \<Rightarrow> index_append A True n e w')"
  by (induction A xs w rule: append_all.induct) (auto split: sum.split)

lemma record_frame_inv:
  assumes A: "aead_ok A" "aead_total A"
    and inv: "file_inv A rk hdr started iw0 rid path pts fl xs w"
    and nonce: "length nonce = NONCE_LEN" and len: "length pt < 2 ^ 32"
    and room: "length (hdr @ concat fl) + length pt + 32 \<le> u64_max" "length pts < u64_max"
  obtains frame w' tot where
    "record_frame_at A io_good nonce rid pt w = (Inr (length (hdr @ concat fl), tot), w')"
    "file_inv A rk hdr started iw0 rid path (pts @ [pt]) (fl @ [frame]) xs w'"
    "length frame = length pt + 32"
    "map_option ra_index (hget (rw_by_id w') rid) = map_option ra_index (hget (rw_by_id w) rid)"
proof -
  obtain a iw where a: "hget (rw_by_id w) rid = Some a" "ra_file a = Some path" "ra_path a = path"
    "ra_key a = Some rk" "ra_started_at a = Some started" "ra_frame_index a = length pts"
    "ra_bytes_written a = length (hdr @ concat fl)" "ra_index a = Some iw"
    and iw: "append_all A xs iw0 = Inr iw" "hget (rw_fs w) (sidecar_path path) = Some (iw_file iw)"
    and fcont: "hget (rw_fs w) path = Some (hdr @ concat fl)" "frames A rk pts fl"
    using inv by (auto simp: file_inv_def)
  obtain frame where frame: "build_frame A nonce pt (Some rk) (length pts) = Inr frame"
    using build_frame_total [OF A(2) nonce len] by blast
  have flen: "length frame = length pt + 32" by (rule frame_length [OF A(1) nonce frame])
  define a2 where "a2 = a\<lparr> ra_frame_index := length pts + 1, ra_bytes_written := length (hdr @ concat fl) + length frame \<rparr>"
  define w' where "w' = rec_publish (RecorderBytesWritten rid (length (hdr @ concat fl) + length frame))
      (w\<lparr> rw_by_id := hput rid a2 (rw_by_id w), rw_fs := fs_append path frame (rw_fs w) \<rparr>)"
  have sat: "sat_add (length pts) 1 = length pts + 1"
    "sat_add (length (hdr @ concat fl)) (length frame) = length (hdr @ concat fl) + length frame"
    using room flen by (simp_all add: sat_add_def)
  have rec: "record_frame_at A io_good nonce rid pt w =
      (Inr (length (hdr @ concat fl), length (hdr @ concat fl) + length frame), w')"
    using a frame sat
    by (simp add: record_frame_at_def Let_def write_all_def io_good_def w'_def a2_def)
  have "file_inv A rk hdr started iw0 rid path (pts @ [pt]) (fl @ [frame]) xs w'"
    unfolding file_inv_def w'_def rec_publish_def
    using a iw fcont frames_snoc [OF fcont(2) nonce frame]
    by (auto simp: a2_def fs_append_def fs_get_def)
  then show ?thesis
    using rec flen by (intro that [of "length (hdr @ concat fl) + length frame" w' frame])
      (simp_all add: w'_def rec_publish_def a a2_def)
qed

text \<open>The lines of the calls, and the sidecar entries: one per event, none for a header.\<close>

definition entry_for :: "rec_call \<Rightarrow> nat \<Rightarrow> (bytes \<times> IndexEntry) list" where
  "entry_for c off =
     (case c of
        CallHeader _ _ _ _ \<Rightarrow> []
      | CallEvent ck _ _ _ idx_nonce \<Rightarrow> [(idx_nonce, \<lparr> offset = of_nat off, timestamp_ms = ck_ms ck \<rparr>)])"

definition room_for :: "nat \<Rightarrow> nat \<Rightarrow> rec_call list \<Rightarrow> bool" where
  "room_for started n cs \<longleftrightarrow> n + sum_list (map (\<lambda>c. length (line_of started c) + 32) cs) \<le> u64_max"

lemma index_append_fails_not:
  assumes "aead_total A" "length n = NONCE_LEN"
  shows "\<exists>iw'. index_append A True n e iw = Inr iw'"
proof (cases "iw_key iw")
  case None
  then show ?thesis by (simp add: index_append_def)
next
  case (Some k)
  obtain ct where "aead_seal A k n (encode_entry e) (le_bytes 8 (iw_next_seq iw)) = Some ct"
    using aead_totalD [OF assms] by blast
  with Some show ?thesis by (simp add: index_append_def build_encrypted_block_def)
qed

lemma rec_do_inv:
  assumes A: "aead_ok A" "aead_total A"
    and inv: "file_inv A rk hdr started iw0 rid path pts fl xs w"
    and ok: "call_ok started c"
    and room: "length (hdr @ concat fl) + length (line_of started c) + 32 \<le> u64_max" "length pts < u64_max"
  obtains frame w' tot where "rec_do A rid c w = (Inr tot, w')"
    "file_inv A rk hdr started iw0 rid path (pts @ [line_of started c]) (fl @ [frame])
       (xs @ entry_for c (length (hdr @ concat fl))) w'"
    "length frame = length (line_of started c) + 32"
proof -
  obtain a where a: "hget (rw_by_id w) rid = Some a" "ra_started_at a = Some started" "ra_path a = path"
    using inv by (auto simp: file_inv_def)
  have len: "length (line_of started c) < 2 ^ 32"
    using ok by (simp add: call_ok_def MAX_FRAME_PLAINTEXT_BYTES_def)
  show ?thesis
  proof (cases c)
    case (CallHeader width height shell nonce)
    have nonce: "length nonce = NONCE_LEN" using ok CallHeader by (simp add: call_ok_def)
    obtain frame w' tot where "record_frame_at A io_good nonce rid (line_of started c) w =
        (Inr (length (hdr @ concat fl), tot), w')"
      "file_inv A rk hdr started iw0 rid path (pts @ [line_of started c]) (fl @ [frame]) xs w'"
      "length frame = length (line_of started c) + 32"
      by (rule record_frame_inv [OF A inv nonce len room])
    then show ?thesis
      using a CallHeader
      by (intro that [of tot w' frame])
         (simp_all add: rec_do_def record_header_def record_frame_def line_of_def entry_for_def)
  next
    case (CallEvent ck kind bs nonce idx_nonce)
    have nonce: "length nonce = NONCE_LEN" "length idx_nonce = NONCE_LEN" "bs \<noteq> []"
      using ok CallEvent by (simp_all add: call_ok_def)
    obtain frame w1 tot where r: "record_frame_at A io_good nonce rid (line_of started c) w =
        (Inr (length (hdr @ concat fl), tot), w1)"
      and inv1: "file_inv A rk hdr started iw0 rid path (pts @ [line_of started c]) (fl @ [frame]) xs w1"
      and flen: "length frame = length (line_of started c) + 32"
      and idx: "map_option ra_index (hget (rw_by_id w1) rid) = map_option ra_index (hget (rw_by_id w) rid)"
      by (rule record_frame_inv [OF A inv nonce(1) len room])
    obtain a1 iw where a1: "hget (rw_by_id w1) rid = Some a1" "ra_index a1 = Some iw" "append_all A xs iw0 = Inr iw"
      using inv1 by (auto simp: file_inv_def)
    have ai: "ra_index a = Some iw" using idx a a1 by simp
    let ?e = "\<lparr> offset = of_nat (length (hdr @ concat fl)), timestamp_ms = ck_ms ck \<rparr>"
    obtain iw' where iw': "index_append A True idx_nonce ?e iw = Inr iw'"
      using index_append_fails_not [OF A(2) nonce(2)] by blast
    define w' where "w' = w1\<lparr> rw_by_id := hput rid (a1\<lparr> ra_index := Some iw' \<rparr>) (rw_by_id w1),
        rw_fs := hput (sidecar_path path) (iw_file iw') (rw_fs w1) \<rparr>"
    have "rec_do A rid c w = (Inr tot, w')"
      using r a a1 ai iw' nonce(3) CallEvent
      by (simp add: rec_do_def record_event_def line_of_def w'_def io_good_def)
    moreover have "append_all A (xs @ [(idx_nonce, ?e)]) iw0 = Inr iw'"
      using a1(3) iw' by (simp add: append_all_snoc)
    with inv1 a1 have "file_inv A rk hdr started iw0 rid path (pts @ [line_of started c]) (fl @ [frame])
        (xs @ entry_for c (length (hdr @ concat fl))) w'"
      using CallEvent by (auto simp: file_inv_def w'_def entry_for_def)
    ultimately show ?thesis using flen by (rule that)
  qed
qed

fun entries_for :: "nat \<Rightarrow> rec_call list \<Rightarrow> bytes list \<Rightarrow> (bytes \<times> IndexEntry) list" where
  "entries_for n (c # cs) (f # fs) = entry_for c n @ entries_for (n + length f) cs fs"
| "entries_for n _ _ = []"

lemma record_all_inv:
  assumes A: "aead_ok A" "aead_total A"
    and inv: "file_inv A rk hdr started iw0 rid path pts fl xs w"
    and ok: "\<forall>c \<in> set cs. call_ok started c"
    and room: "room_for started (length (hdr @ concat fl)) cs" "length pts + length cs \<le> u64_max"
  shows "\<exists>w' fl'. record_all A rid cs w = Inr w' \<and> length fl' = length cs \<and>
    file_inv A rk hdr started iw0 rid path (pts @ map (line_of started) cs) (fl @ fl')
      (xs @ entries_for (length (hdr @ concat fl)) cs fl') w'"
  using inv ok room
proof (induction cs arbitrary: pts fl xs w)
  case Nil
  then show ?case by (auto intro!: exI [of _ "[]"])
next
  case (Cons c cs)
  have c: "call_ok started c" "length (hdr @ concat fl) + length (line_of started c) + 32 \<le> u64_max"
    "length pts < u64_max"
    using Cons.prems by (simp_all add: room_for_def)
  obtain frame w1 tot where step: "rec_do A rid c w = (Inr tot, w1)"
    and inv1: "file_inv A rk hdr started iw0 rid path (pts @ [line_of started c]) (fl @ [frame])
       (xs @ entry_for c (length (hdr @ concat fl))) w1"
    and flen: "length frame = length (line_of started c) + 32"
    by (rule rec_do_inv [OF A Cons.prems(1) c])
  have "room_for started (length (hdr @ concat (fl @ [frame]))) cs"
    using Cons.prems(3) flen by (simp add: room_for_def add.assoc)
  with Cons.IH [OF inv1] Cons.prems obtain w' fl' where rest: "record_all A rid cs w1 = Inr w'" "length fl' = length cs"
    "file_inv A rk hdr started iw0 rid path ((pts @ [line_of started c]) @ map (line_of started) cs)
       ((fl @ [frame]) @ fl') ((xs @ entry_for c (length (hdr @ concat fl))) @
         entries_for (length (hdr @ concat (fl @ [frame]))) cs fl') w'"
    by auto
  then show ?case
    using step by (intro exI [of _ w'] exI [of _ "frame # fl'"]) (simp add: add.assoc)
qed

section \<open>Opening what was written\<close>

lemma header_shape:
  assumes "aead_ok A" "length nonce = NONCE_LEN" "length rk = 32" "build_lfsr_header A nonce dk rk = Inr hdr"
  shows "length hdr = LFR_HEADER_LEN" "unwrap_lfsr_header A hdr dk = Inr rk"
    "take 4 hdr = LFR_MAGIC" "hdr ! 4 = LFR_VERSION"
proof -
  obtain ct where seal: "aead_seal A dk nonce rk KEYWRAP_AAD = Some ct"
    and hdr: "hdr = LFR_MAGIC @ [LFR_VERSION] @ nonce @ ct"
    using assms(4) by (auto simp: build_lfsr_header_def split: option.splits)
  from aead_okD [OF assms(1) seal] have ct: "aead_open A dk nonce ct KEYWRAP_AAD = Some rk" "length ct = 48"
    using assms(3) by auto
  have m: "length LFR_MAGIC = 4" by (simp add: LFR_MAGIC_def)
  show len: "length hdr = LFR_HEADER_LEN"
    using hdr m ct assms(2) by (simp add: LFR_HEADER_LEN_def NONCE_LEN_def)
  show four: "take 4 hdr = LFR_MAGIC" "hdr ! 4 = LFR_VERSION"
    using hdr m by (simp_all add: nth_append)
  have "take NONCE_LEN (drop 5 hdr) = nonce" "drop (5 + NONCE_LEN) (take LFR_HEADER_LEN hdr) = ct"
    using hdr m ct assms(2) len by (simp_all add: NONCE_LEN_def)
  then show "unwrap_lfsr_header A hdr dk = Inr rk"
    using ct assms(3) len four by (simp add: unwrap_lfsr_header_def Let_def)
qed

lemma open_written:
  assumes "aead_ok A" "length nonce = NONCE_LEN" "length rk = 32" "build_lfsr_header A nonce dk rk = Inr hdr"
  shows "open_lfsr_iter_at A (Some (hdr @ bs)) dk None = Inr (iter_at bs rk 0)"
    and "open_lfsr_iter_at A (Some (hdr @ bs)) dk (Some (length hdr + n, fi)) = Inr (iter_at (drop n bs) rk fi)"
  using header_shape [OF assms] by (simp_all add: open_lfsr_iter_at_def Let_def)

lemma record_text_butlast:
  assumes "record_text line"
  shows "utf8_ok line" "trim_newlines line = butlast line"
proof -
  obtain body where body: "line = body @ [0x0A]" "body \<noteq> []" "utf8_ok body" "\<forall>b \<in> set body. 0x20 \<le> unat b"
    using assms by (auto simp: record_text_def)
  then show "utf8_ok line" by (simp add: utf8_ok_append)
  have "last body \<noteq> 0x0A" using body last_in_set by force
  then have "dropWhile (\<lambda>b. b = 0x0A) (rev body) = rev body"
    using body(2) by (cases "rev body") (auto simp: last_rev [symmetric, of "rev body", simplified] hd_rev [symmetric])
  then show "trim_newlines line = butlast line" using body(1) by (simp add: trim_newlines_def)
qed

lemma call_ok_plays:
  assumes "call_ok started c"
  shows "plays (line_of started c)" "trim_newlines (line_of started c) = butlast (line_of started c)"
proof -
  have "record_text (line_of started c)"
    using assms by (auto simp: call_ok_def line_of_def event_line_record header_line_record split: rec_call.splits)
  then show "plays (line_of started c)" "trim_newlines (line_of started c) = butlast (line_of started c)"
    using assms record_text_butlast by (simp_all add: plays_def call_ok_def)
qed

lemma register_inv:
  assumes A: "aead_total A" and nonce: "length nonce = NONCE_LEN" and sweep: "sweep_ok sweep"
    and fresh: "hget (rw_fs w0) path = None"
  obtains w1 snap hdr iw0 where
    "register_with_io A C sweep io_good rk nonce now rid sid path (Some dk) w0 = (Inr snap, w1)"
    "build_lfsr_header A nonce dk rk = Inr hdr"
    "index_create True (derive_index_key C (Some rk)) = Inr iw0"
    "file_inv A rk hdr now iw0 rid path [] [] [] w1"
proof -
  obtain hdr where hdr: "build_lfsr_header A nonce dk rk = Inr hdr"
    using aead_totalD [OF A nonce, of dk rk KEYWRAP_AAD] by (auto simp: build_lfsr_header_def)
  obtain iw0 where iw0: "index_create True (derive_index_key C (Some rk)) = Inr iw0"
    by (simp add: index_create_def)
  define a where "a = \<lparr> ra_id = rid, ra_session_id = sid, ra_path = path, ra_bytes_written = length hdr,
     ra_encrypted = True, ra_started_at = Some now, ra_file = Some path, ra_key = Some rk, ra_db_key = Some dk,
     ra_frame_index = 0, ra_index = Some iw0 \<rparr>"
  define fs2 where "fs2 = hput (sidecar_path path) (iw_file iw0) (fs_append path hdr (fs_append path [] (rw_fs w0)))"
  define w1 where "w1 = rec_publish (RecorderStarted rid path) (w0\<lparr> rw_by_id := hput rid a (rw_by_id w0),
     rw_fs := sweep path (map (\<lambda>p. ra_path (snd p)) (hput rid a (rw_by_id w0))) fs2 \<rparr>)"
  have reg: "register_with_io A C sweep io_good rk nonce now rid sid path (Some dk) w0 = (Inr (recorder_snapshot a), w1)"
    using hdr iw0
    by (simp add: register_with_io_def start_main_def open_recording_def io_good_def write_all_def
        open_index_writer_def a_def w1_def fs2_def Let_def)
  have "(rid, a) \<in> set (hput rid a (rw_by_id w0))"
    using map_of_SomeD [of "hput rid a (rw_by_id w0)" rid a] hget_hput [of rid a "rw_by_id w0" rid]
    by (simp add: hget_def)
  then have "path \<in> set (map (\<lambda>p. ra_path (snd p)) (hput rid a (rw_by_id w0)))"
    by (force simp: a_def)
  then have "file_inv A rk hdr now iw0 rid path [] [] [] w1"
    using sweep fresh
    by (auto simp: file_inv_def w1_def rec_publish_def sweep_ok_def a_def frames_def fs2_def fs_append_def fs_get_def)
  with reg hdr iw0 show ?thesis by (rule that)
qed

section \<open>Recordings play back\<close>

definition record_session ::
  "aead_lib \<Rightarrow> crypto_lib \<Rightarrow> sweep \<Rightarrow> bytes \<Rightarrow> bytes \<Rightarrow> nat \<Rightarrow> string \<Rightarrow> string \<Rightarrow> string \<Rightarrow> bytes \<Rightarrow>
   rec_call list \<Rightarrow> rec_world \<Rightarrow> Error + rec_world" where
  "record_session A C sweep rk nonce now rid sid path dk cs w0 =
     (case register_with_io A C sweep io_good rk nonce now rid sid path (Some dk) w0 of
        (Inl e, _) \<Rightarrow> Inl e
      | (Inr _, w1) \<Rightarrow> record_all A rid cs w1)"

text \<open>The side conditions of a recording: the libraries, the fresh file, and the callers' guarantees.\<close>

definition session_ok ::
  "aead_lib \<Rightarrow> sweep \<Rightarrow> bytes \<Rightarrow> bytes \<Rightarrow> nat \<Rightarrow> string \<Rightarrow> rec_call list \<Rightarrow> rec_world \<Rightarrow> bool" where
  "session_ok A sweep rk nonce now path cs w0 \<longleftrightarrow>
     aead_ok A \<and> aead_total A \<and> sweep_ok sweep \<and> length rk = 32 \<and> length nonce = NONCE_LEN \<and>
     hget (rw_fs w0) path = None \<and> (\<forall>c \<in> set cs. call_ok now c) \<and> room_for now LFR_HEADER_LEN cs"

lemma room_count: "room_for started n cs \<Longrightarrow> length cs < u64_max \<or> cs = []"
proof (induction cs arbitrary: n)
  case (Cons c cs)
  then have "room_for started (n + length (line_of started c) + 32) cs" by (simp add: room_for_def add.assoc)
  moreover have "32 * length ds \<le> sum_list (map (\<lambda>c. length (line_of started c) + 32) ds)" for ds
    by (induction ds) auto
  from this [of "c # cs"] Cons.prems have "32 * length (c # cs) \<le> u64_max" by (simp add: room_for_def)
  then show ?case by (simp add: u64_max_def)
qed simp

lemma session_inv:
  assumes "session_ok A sweep rk nonce now path cs w0"
  obtains w hdr iw0 fl where "record_session A C sweep rk nonce now rid sid path dk cs w0 = Inr w"
    "build_lfsr_header A nonce dk rk = Inr hdr" "length hdr = LFR_HEADER_LEN"
    "index_create True (derive_index_key C (Some rk)) = Inr iw0" "length fl = length cs"
    "file_inv A rk hdr now iw0 rid path (map (line_of now) cs) fl (entries_for LFR_HEADER_LEN cs fl) w"
    "length cs \<le> u64_max" "\<forall>pt \<in> set (map (line_of now) cs). plays pt"
proof -
  have A: "aead_ok A" "aead_total A" and s: "sweep_ok sweep" and k: "length rk = 32" "length nonce = NONCE_LEN"
    and fresh: "hget (rw_fs w0) path = None" and ok: "\<forall>c \<in> set cs. call_ok now c"
    and room: "room_for now LFR_HEADER_LEN cs"
    using assms by (auto simp: session_ok_def)
  obtain w1 snap hdr iw0 where reg: "register_with_io A C sweep io_good rk nonce now rid sid path (Some dk) w0 = (Inr snap, w1)"
    and hdr: "build_lfsr_header A nonce dk rk = Inr hdr"
    and iw: "index_create True (derive_index_key C (Some rk)) = Inr iw0"
    and inv: "file_inv A rk hdr now iw0 rid path [] [] [] w1"
    by (rule register_inv [OF A(2) k(2) s fresh])
  have len: "length hdr = LFR_HEADER_LEN" by (rule header_shape [OF A(1) k(2,1) hdr])
  have cnt: "length cs \<le> u64_max" using room_count [OF room] by auto
  have "room_for now (length (hdr @ concat [])) cs" using room len by simp
  from record_all_inv [OF A inv ok this] cnt obtain w fl where
    "record_all A rid cs w1 = Inr w" "length fl = length cs"
    "file_inv A rk hdr now iw0 rid path (map (line_of now) cs) fl (entries_for LFR_HEADER_LEN cs fl) w"
    using len by auto
  moreover have "\<forall>pt \<in> set (map (line_of now) cs). plays pt" using ok call_ok_plays by auto
  ultimately show ?thesis
    using that reg hdr iw len cnt by (auto simp: record_session_def)
qed

lemma trimmed_lines:
  "\<forall>c \<in> set cs. call_ok now c \<Longrightarrow> map trim_newlines (map (line_of now) cs) = map (\<lambda>c. butlast (line_of now c)) cs"
  using call_ok_plays(2) by auto

lemma file_inv_plays:
  assumes "session_ok A sweep rk nonce now path cs w0" "build_lfsr_header A nonce dk rk = Inr hdr"
    and inv: "file_inv A rk hdr now iw0 rid path (map (line_of now) cs) fl xs w"
    and "length cs \<le> u64_max" "\<forall>pt \<in> set (map (line_of now) cs). plays pt"
  shows "playback A True (hget (rw_fs w) path) dk None 0 = Inr (map (\<lambda>c. Inr (butlast (line_of now c))) cs)"
proof -
  have A: "aead_ok A" "length nonce = NONCE_LEN" "length rk = 32" "\<forall>c \<in> set cs. call_ok now c"
    using assms(1) by (auto simp: session_ok_def)
  have f: "hget (rw_fs w) path = Some (hdr @ concat fl)" "frames A rk (map (line_of now) cs) fl"
    using inv by (auto simp: file_inv_def)
  from lfsr_play_frames [OF A(1) f(2) assms(5), of 0] assms(4)
  have "lfsr_play A (iter_at (concat fl) rk 0) = map (\<lambda>pt. Inr (trim_newlines pt)) (map (line_of now) cs)"
    by simp
  then have "lfsr_play A (iter_at (concat fl) rk 0) = map Inr (map trim_newlines (map (line_of now) cs))"
    by (simp add: comp_def)
  then show ?thesis
    using f(1) open_written(1) [OF A(1-3) assms(2)] trimmed_lines [OF A(4)] by (auto simp: playback_def comp_def)
qed

text \<open>
  C18. An encrypted recording plays back: whatever header and events are recorded into a fresh file,
  with whatever bytes the terminal sent, recording succeeds and playing the file under the same
  database key yields exactly the recorded lines, in order, without their line breaks.
\<close>

theorem recording_plays_back:
  assumes "session_ok A sweep rk nonce now path cs w0"
  shows "\<exists>w. record_session A C sweep rk nonce now rid sid path dk cs w0 = Inr w \<and>
    playback A True (hget (rw_fs w) path) dk None 0 = Inr (map (\<lambda>c. Inr (butlast (line_of now c))) cs)"
  by (rule session_inv [OF assms, where C = C and rid = rid and sid = sid and dk = dk])
     (use file_inv_plays [OF assms] in blast)

subsection \<open>Seeking\<close>

definition is_event :: "rec_call \<Rightarrow> bool" where
  "is_event c = (case c of CallEvent _ _ _ _ _ \<Rightarrow> True | _ \<Rightarrow> False)"

lemma entries_events:
  assumes "\<forall>c \<in> set evs. is_event c \<and> call_ok now c" "length fs = length evs"
  shows "length (entries_for n evs fs) = length evs \<and>
    (\<forall>k < length evs. offset (snd (entries_for n evs fs ! k)) = of_nat (n + length (concat (take k fs)))) \<and>
    (\<forall>x \<in> set (entries_for n evs fs). length (fst x) = 12)"
  using assms
proof (induction evs arbitrary: n fs)
  case (Cons c evs)
  obtain f fs' where f: "fs = f # fs'" using Cons.prems by (cases fs) auto
  obtain ck kd bs n1 n2 where c: "c = CallEvent ck kd bs n1 n2" "length n2 = 12"
    using Cons.prems by (cases c) (auto simp: is_event_def call_ok_def NONCE_LEN_def)
  have "length fs' = length evs" "\<forall>c \<in> set evs. is_event c \<and> call_ok now c" using Cons.prems f by auto
  with Cons.IH [of fs' "n + length f"] f c show ?case
    by (auto simp: entry_for_def nth_Cons add.assoc split: nat.split)
qed simp

definition fs_view :: "rec_world \<Rightarrow> string \<Rightarrow> file_state" where
  "fs_view w p = (case hget (rw_fs w) p of None \<Rightarrow> Missing | Some bs \<Rightarrow> Content bs)"

lemma drop_concat_take: "drop (length (concat (take j fl))) (concat fl) = concat (drop j fl)"
  by (metis append_eq_conv_conj append_take_drop_id concat_append)

lemma sidecar_entries:
  assumes "aead_ok A" "file_inv A rk hdr now iw0 rid path pts fl xs w"
    and "index_create True (Some ik) = Inr iw0" "\<forall>x \<in> set xs. length (fst x) = 12"
  shows "read_all A (fs_view w (sidecar_path path)) (Some ik) = Inr (map snd xs)"
proof -
  obtain iw where iw: "append_all A xs iw0 = Inr iw" "hget (rw_fs w) (sidecar_path path) = Some (iw_file iw)"
    using assms(2) by (auto simp: file_inv_def)
  define n where "n = length (iw_file iw) + 5 + 44 * length xs"
  have "read_all A (Content (take n (iw_file iw))) (Some ik) = Inr (take ((n - 5) div 44) (map snd xs))"
    using read_after_crash [OF assms(1,3) iw(1) assms(4), of n] by simp
  moreover have "length xs \<le> (n - 5) div 44" by (simp add: n_def)
  ultimately show ?thesis using iw(2) by (simp add: fs_view_def n_def)
qed

lemma seek_hit:
  assumes "seek A fs path t True (Some ik) = Inr (Some hit)" "read_all A (fs (sidecar_path path)) (Some ik) = Inr es"
  shows "hit_entry_index hit < length es \<and> hit_offset hit = offset (es ! hit_entry_index hit)"
proof -
  let ?n = "partition_point (\<lambda>e. unat (timestamp_ms e) \<le> t) es"
  have "?n \<noteq> 0" "hit_entry_index hit = ?n - 1" "hit_offset hit = offset (es ! (?n - 1))"
    using assms by (auto simp: seek_def Let_def split: if_splits)
  moreover have "?n \<le> length es" by (simp add: partition_point_def length_takeWhile_le)
  ultimately show ?thesis by simp
qed

lemma room_file:
  assumes "aead_ok A" "frames A rk (map (line_of now) cs) fl" "room_for now n cs"
  shows "n + length (concat (take j fl)) \<le> u64_max"
proof -
  have "length (concat fl) = sum_list (map length fl)" by (simp add: length_concat)
  also have "\<dots> = sum_list (map (\<lambda>c. length (line_of now c) + 32) cs)"
  proof (rule arg_cong [where f = sum_list], rule nth_equalityI)
    show "length (map length fl) = length (map (\<lambda>c. length (line_of now c) + 32) cs)"
      using assms(2) by (simp add: frames_def)
    fix i assume "i < length (map length fl)"
    then show "map length fl ! i = map (\<lambda>c. length (line_of now c) + 32) cs ! i"
      using assms(2) frame_length [OF assms(1)] by (fastforce simp: frames_def)
  qed
  finally have "n + length (concat fl) \<le> u64_max" using assms(3) by (simp add: room_for_def)
  moreover have "length (concat (take j fl)) \<le> length (concat fl)"
    by (metis append_take_drop_id concat_append length_append le_add1)
  ultimately show ?thesis by linarith
qed

text \<open>A session that starts with its header line: the k-th sidecar entry points at frame k + 1.\<close>

lemma event_session:
  assumes "session_ok A sweep rk nonce now path (CallHeader wd ht sh n0 # evs) w0" and "\<forall>c \<in> set evs. is_event c"
  obtains w hdr fl ik es where
    "record_session A C sweep rk nonce now rid sid path dk (CallHeader wd ht sh n0 # evs) w0 = Inr w"
    "build_lfsr_header A nonce dk rk = Inr hdr" "length fl = Suc (length evs)"
    "hget (rw_fs w) path = Some (hdr @ concat fl)"
    "frames A rk (map (line_of now) (CallHeader wd ht sh n0 # evs)) fl"
    "length evs < u64_max" "\<forall>pt \<in> set (map (line_of now) (CallHeader wd ht sh n0 # evs)). plays pt"
    "derive_index_key C (Some rk) = Some ik"
    "read_all A (fs_view w (sidecar_path path)) (Some ik) = Inr es" "length es = length evs"
    "\<forall>k < length evs. unat (offset (es ! k)) = length hdr + length (concat (take (Suc k) fl))"
proof -
  let ?cs = "CallHeader wd ht sh n0 # evs"
  obtain w hdr iw0 fl where r: "record_session A C sweep rk nonce now rid sid path dk ?cs w0 = Inr w"
    and s: "build_lfsr_header A nonce dk rk = Inr hdr" "length hdr = LFR_HEADER_LEN"
    "index_create True (derive_index_key C (Some rk)) = Inr iw0" "length fl = length ?cs"
    and inv: "file_inv A rk hdr now iw0 rid path (map (line_of now) ?cs) fl (entries_for LFR_HEADER_LEN ?cs fl) w"
    and cnt: "length ?cs \<le> u64_max" and plays: "\<forall>pt \<in> set (map (line_of now) ?cs). plays pt"
    by (rule session_inv [OF assms(1), where C = C and rid = rid and sid = sid and dk = dk])
  have A: "aead_ok A" "\<forall>c \<in> set ?cs. call_ok now c" "room_for now LFR_HEADER_LEN ?cs"
    using assms(1) by (auto simp: session_ok_def)
  have fr: "frames A rk (map (line_of now) ?cs) fl" and fl: "hget (rw_fs w) path = Some (hdr @ concat fl)"
    using inv by (auto simp: file_inv_def)
  obtain f fs where f: "fl = f # fs" "length fs = length evs" using s(4) by (cases fl) auto
  let ?xs = "entries_for (LFR_HEADER_LEN + length f) evs fs"
  have xs: "entries_for LFR_HEADER_LEN ?cs fl = ?xs" by (simp add: f entry_for_def)
  have ev: "length ?xs = length evs"
    "\<And>k. k < length evs \<Longrightarrow> offset (snd (?xs ! k)) = of_nat (LFR_HEADER_LEN + length f + length (concat (take k fs)))"
    "\<forall>x \<in> set ?xs. length (fst x) = 12"
    using entries_events [of evs now fs "LFR_HEADER_LEN + length f"] assms(2) A(2) f(2) by auto
  obtain ik where ik: "derive_index_key C (Some rk) = Some ik" by (simp add: derive_index_key_def)
  have "read_all A (fs_view w (sidecar_path path)) (Some ik) = Inr (map snd ?xs)"
    using sidecar_entries [OF A(1), of rk hdr now iw0 rid path _ fl ?xs w ik] inv s(3) ik ev(3) xs by simp
  moreover have "unat (offset (map snd ?xs ! k)) = length hdr + length (concat (take (Suc k) fl))" if "k < length evs" for k
  proof -
    define m where "m = LFR_HEADER_LEN + length (concat (take (Suc k) fl))"
    have "m \<le> u64_max" unfolding m_def by (rule room_file [OF A(1) fr A(3)])
    then have "unat (of_nat m :: 64 word) = m" by (simp add: unat_of_nat u64_max_def)
    moreover have "offset (map snd ?xs ! k) = of_nat m" using that ev f unfolding m_def by (simp add: add.assoc)
    ultimately show ?thesis using s(2) by (simp add: m_def)
  qed
  ultimately show thesis using that [OF r s(1) _ fl fr _ plays ik, of "map snd ?xs"] s(4) cnt ev(1) by simp
qed

lemma wrong_counter:
  assumes "aead_ok A" "aead_binds A" "length n = NONCE_LEN" "build_frame A n pt (Some k) i = Inr frame"
    and "length pt \<le> MAX_FRAME_PLAINTEXT_BYTES" "i \<noteq> j" "i < 2 ^ 64" "j < 2 ^ 64"
  shows "lfsr_play A (iter_at (frame @ tail) k j) = [Inl (RCrypto ''aes-gcm decrypt-raw'')]"
proof -
  obtain ct where ct: "frame = le_bytes 4 (length pt) @ n @ ct" "length ct = length pt + 16"
    "aead_seal A k n pt (le_bytes 8 i) = Some ct"
    by (rule frame_shape [OF assms(1,4)])
  have "aead_open A k n ct (le_bytes 8 j) = None"
    using assms(2,6-8) ct(3) unfolding aead_binds_def by blast
  then show ?thesis
    using lfsr_next_frame [OF ct(1) assms(3) ct(2) assms(5), of A tail k j] by (simp add: lfsr_play.simps)
qed

text \<open>
  Seeking into an encrypted recording fails.  The header line is the frame with counter 0 but has
  no sidecar entry, so the k-th entry belongs to the frame with counter k + 1; playback resumes
  with the entry's position as the counter, and the first frame is rejected.  With the counter one
  higher, everything from the entry on would play.
\<close>

theorem encrypted_seek_is_off_by_one:
  assumes "session_ok A sweep rk nonce now path (CallHeader wd ht sh n0 # evs) w0" and "aead_binds A"
    and "\<forall>c \<in> set evs. is_event c"
    and "record_session A C sweep rk nonce now rid sid path dk (CallHeader wd ht sh n0 # evs) w0 = Inr w"
    and "seek A (fs_view w) path t True (derive_index_key C (Some rk)) = Inr (Some hit)"
  shows "playback A True (hget (rw_fs w) path) dk (Some (unat (hit_offset hit))) (hit_entry_index hit) =
      Inr [Inl (RCrypto ''aes-gcm decrypt-raw'')] \<and>
    playback A True (hget (rw_fs w) path) dk (Some (unat (hit_offset hit))) (hit_entry_index hit + 1) =
      Inr (map (\<lambda>c. Inr (butlast (line_of now c))) (drop (hit_entry_index hit) evs))"
proof -
  let ?cs = "CallHeader wd ht sh n0 # evs" and ?k = "hit_entry_index hit"
  obtain w' hdr fl ik es where "record_session A C sweep rk nonce now rid sid path dk ?cs w0 = Inr w'"
    and s: "build_lfsr_header A nonce dk rk = Inr hdr" "length fl = Suc (length evs)"
    and fl: "hget (rw_fs w') path = Some (hdr @ concat fl)" and fr: "frames A rk (map (line_of now) ?cs) fl"
    and cnt: "length evs < u64_max" and plays: "\<forall>pt \<in> set (map (line_of now) ?cs). plays pt"
    and ik: "derive_index_key C (Some rk) = Some ik"
    and es: "read_all A (fs_view w' (sidecar_path path)) (Some ik) = Inr es" "length es = length evs"
      "\<forall>k < length evs. unat (offset (es ! k)) = length hdr + length (concat (take (Suc k) fl))"
    by (rule event_session [OF assms(1,3), where C = C and rid = rid and sid = sid and dk = dk])
  with assms(4) have [simp]: "w' = w" by simp
  have A: "aead_ok A" "length nonce = NONCE_LEN" "length rk = 32" "\<forall>c \<in> set ?cs. call_ok now c"
    using assms(1) by (auto simp: session_ok_def)
  have k: "?k < length evs" and off: "unat (hit_offset hit) = length hdr + length (concat (take (Suc ?k) fl))"
    using seek_hit [OF assms(5) [unfolded ik]] es by auto
  note op = open_written(2) [OF A(1-3) s(1), of "concat fl" "length (concat (take (Suc ?k) fl))", unfolded drop_concat_take]
  obtain n where n: "length n = NONCE_LEN" "build_frame A n (map (line_of now) ?cs ! Suc ?k) (Some rk) (Suc ?k) = Inr (fl ! Suc ?k)"
    and d: "drop (Suc ?k) fl = fl ! Suc ?k # drop (Suc (Suc ?k)) fl"
    by (rule frames_drop_Cons [OF fr, of "Suc ?k"]) (use k in auto)
  have len: "length (map (line_of now) ?cs ! Suc ?k) \<le> MAX_FRAME_PLAINTEXT_BYTES"
    using plays k by (auto simp: plays_def)
  have "lfsr_play A (iter_at (fl ! Suc ?k @ concat (drop (Suc (Suc ?k)) fl)) rk ?k) = [Inl (RCrypto ''aes-gcm decrypt-raw'')]"
    by (rule wrong_counter [OF A(1) assms(2) n len]) (use k cnt in \<open>auto simp: u64_max_def\<close>)
  then have "playback A True (hget (rw_fs w) path) dk (Some (unat (hit_offset hit))) ?k = Inr [Inl (RCrypto ''aes-gcm decrypt-raw'')]"
    using fl by (simp add: playback_def off op d)
  moreover have "lfsr_play A (iter_at (concat (drop (Suc ?k) fl)) rk (Suc ?k)) = map (\<lambda>pt. Inr (trim_newlines pt)) (drop (Suc ?k) (map (line_of now) ?cs))"
    by (rule lfsr_play_frames [OF A(1) fr plays]) (use cnt k in auto)
  moreover have "map (\<lambda>pt. Inr (trim_newlines pt)) (drop (Suc ?k) (map (line_of now) ?cs)) =
      map (\<lambda>c. Inr (butlast (line_of now c))) (drop ?k evs)"
    using call_ok_plays(2) A(4) by (auto simp: drop_map dest: in_set_dropD)
  ultimately show ?thesis
    using fl by (simp add: playback_def off op comp_def)
qed

subsection \<open>Failed writes and crashes\<close>

text \<open>
  A frame that could not be written loses the rest of the file: its counter has been claimed, so
  the next frame is sealed with a counter one above its position, and playback stops there with a
  decryption error although every byte on disk is intact.
\<close>

theorem failed_write_breaks_playback:
  assumes "session_ok A sweep rk nonce now path cs w0" and "aead_binds A"
    and "record_session A C sweep rk nonce now rid sid path dk cs w0 = Inr w"
    and "record_frame_at A (io_good\<lparr> io_write := Some 0 \<rparr>) n1 rid pt1 w = (Inl e, w1)"
    and "record_frame_at A io_good n2 rid pt2 w1 = (Inr r, w2)"
    and "length n2 = NONCE_LEN" "length pt2 \<le> MAX_FRAME_PLAINTEXT_BYTES" "e = ERecorder ''frame write''"
    and "length cs + 1 < 2 ^ 64"
  shows "playback A True (hget (rw_fs w2) path) dk None 0 =
    Inr (map (\<lambda>c. Inr (butlast (line_of now c))) cs @ [Inl (RCrypto ''aes-gcm decrypt-raw'')])"
proof -
  obtain w' hdr iw0 fl where "record_session A C sweep rk nonce now rid sid path dk cs w0 = Inr w'"
    and s: "build_lfsr_header A nonce dk rk = Inr hdr" "length fl = length cs"
    and inv: "file_inv A rk hdr now iw0 rid path (map (line_of now) cs) fl (entries_for LFR_HEADER_LEN cs fl) w'"
    and cnt: "length cs \<le> u64_max" and plays: "\<forall>pt \<in> set (map (line_of now) cs). plays pt"
    by (rule session_inv [OF assms(1), where C = C and rid = rid and sid = sid and dk = dk])
  with assms(3) have [simp]: "w' = w" by simp
  have A: "aead_ok A" "length nonce = NONCE_LEN" "length rk = 32" "\<forall>c \<in> set cs. call_ok now c"
    using assms(1) by (auto simp: session_ok_def)
  obtain a where a: "hget (rw_by_id w) rid = Some a" "ra_file a = Some path" "ra_key a = Some rk"
      "ra_frame_index a = length cs"
    and fl: "hget (rw_fs w) path = Some (hdr @ concat fl)" and fr: "frames A rk (map (line_of now) cs) fl"
    using inv by (auto simp: file_inv_def)
  have sat: "sat_add (length cs) 1 = Suc (length cs)" using assms(9) by (simp add: sat_add_def u64_max_def)
  have w1: "hget (rw_by_id w1) rid = Some (a\<lparr> ra_frame_index := Suc (length cs) \<rparr>)"
      "hget (rw_fs w1) path = Some (hdr @ concat fl)"
    using assms(4,8) a fl sat
    by (auto simp: record_frame_at_def Let_def write_all_def io_good_def fs_append_def fs_get_def split: sum.splits)
  obtain frame where frame: "build_frame A n2 pt2 (Some rk) (Suc (length cs)) = Inr frame"
      "hget (rw_fs w2) path = Some (hdr @ concat fl @ frame)"
    using assms(5) a w1
    by (auto simp: record_frame_at_def Let_def write_all_def io_good_def fs_append_def fs_get_def rec_publish_def
        split: sum.splits)
  have tail: "lfsr_play A (iter_at frame rk (length cs)) = [Inl (RCrypto ''aes-gcm decrypt-raw'')]"
    using wrong_counter [OF A(1) assms(2,6) frame(1) assms(7), of "length cs" "[]"] assms(9) by simp
  have "lfsr_play A (iter_at (concat fl @ frame) rk 0) =
      map (\<lambda>pt. Inr (trim_newlines pt)) (map (line_of now) cs) @ lfsr_play A (iter_at frame rk (length cs))"
    using lfsr_play_frames_append [OF A(1) fr plays, of 0 frame] cnt by simp
  moreover have "map (\<lambda>pt. Inr (trim_newlines pt)) (map (line_of now) cs) = map Inr (map trim_newlines (map (line_of now) cs))"
    by (simp add: comp_def)
  ultimately show ?thesis
    using open_written(1) [OF A(1-3) s(1), of "concat fl @ frame"] frame(2) tail trimmed_lines [OF A(4)]
    by (simp add: playback_def comp_def)
qed

lemma cut_frames:
  assumes "n < length (concat fl)"
  shows "\<exists>j m. j < length fl \<and> m < length (fl ! j) \<and> take n (concat fl) = concat (take j fl) @ take m (fl ! j)"
  using assms
proof (induction fl arbitrary: n)
  case (Cons f fl)
  show ?case
  proof (cases "n < length f")
    case True
    then show ?thesis by (intro exI [of _ 0] exI [of _ n]) simp
  next
    case False
    then have "n - length f < length (concat fl)" using Cons.prems by simp
    from Cons.IH [OF this] obtain j m where
      "j < length fl" "m < length (fl ! j)" "take (n - length f) (concat fl) = concat (take j fl) @ take m (fl ! j)"
      by blast
    with False show ?thesis by (intro exI [of _ "Suc j"] exI [of _ m]) simp
  qed
qed simp

lemma frames_take: "frames A k pts fl \<Longrightarrow> frames A k (take j pts) (take j fl)"
  by (auto simp: frames_def)


section \<open>Instances\<close>

text \<open>An AEAD stand-in whose tag starts with the counter it is bound to.\<close>

definition tag_ctr :: "bytes \<Rightarrow> bytes \<Rightarrow> bytes" where
  "tag_ctr k a = take 16 (a @ k @ replicate 16 0)"

definition aead_ctr :: aead_lib where
  "aead_ctr =
     \<lparr> aead_seal = (\<lambda>k n p a. Some (p @ tag_ctr k a)),
       aead_open = (\<lambda>k n c a. if 16 \<le> length c \<and> drop (length c - 16) c = tag_ctr k a
                              then Some (take (length c - 16) c) else None) \<rparr>"

lemma length_tag_ctr [simp]: "length (tag_ctr k a) = 16"
  by (simp add: tag_ctr_def)

lemma aead_ctr_ok: "aead_ok aead_ctr" "aead_total aead_ctr"
  by (simp_all add: aead_ok_def aead_total_def aead_ctr_def)

lemma tag_ctr_inj: "tag_ctr k (le_bytes 8 i) = tag_ctr k (le_bytes 8 j) \<Longrightarrow> i < 2 ^ 64 \<Longrightarrow> j < 2 ^ 64 \<Longrightarrow> i = j"
proof -
  assume t: "tag_ctr k (le_bytes 8 i) = tag_ctr k (le_bytes 8 j)" and b: "i < 2 ^ 64" "j < 2 ^ 64"
  have "take 8 (tag_ctr k (le_bytes 8 x)) = le_bytes 8 x" for x by (simp add: tag_ctr_def)
  with t have "le_val (le_bytes 8 i) = le_val (le_bytes 8 j)" by metis
  with b show "i = j" by simp
qed

lemma aead_ctr_binds: "aead_binds aead_ctr"
  using tag_ctr_inj by (auto simp: aead_binds_def aead_ctr_def)

definition demo_events :: "rec_call list" where
  "demo_events =
     [CallEvent \<lparr> ck_text = ''0.5'', ck_ms = 500 \<rparr> Output [0x6C, 0x73, 0x0A] (replicate 12 2) (replicate 12 3),
      CallEvent \<lparr> ck_text = ''1'', ck_ms = 1000 \<rparr> Input [0x71] (replicate 12 4) (replicate 12 5)]"

definition demo_calls :: "rec_call list" where
  "demo_calls = CallHeader 80 24 (str_bytes ''sh'') (replicate 12 1) # demo_events"

definition rec_world_new :: rec_world where
  "rec_world_new = \<lparr> rw_by_id = hempty, rw_fs = hempty, rw_bus = [] \<rparr>"

abbreviation demo_key :: bytes where
  "demo_key \<equiv> replicate 32 7"

lemma demo_lines: "map (\<lambda>c. length (line_of 5 c)) demo_calls = [96, 17, 12]"
  by code_simp

lemma demo_session_ok: "session_ok aead_ctr (\<lambda>_ _ fs. fs) demo_key (replicate 12 0) 5 ''r.lfsr'' demo_calls rec_world_new"
proof -
  have "\<forall>c \<in> set demo_calls. length (line_of 5 c) \<le> MAX_FRAME_PLAINTEXT_BYTES"
    "room_for 5 LFR_HEADER_LEN demo_calls"
    using demo_lines
    by (simp_all add: demo_calls_def demo_events_def room_for_def MAX_FRAME_PLAINTEXT_BYTES_def u64_max_def LFR_HEADER_LEN_def
      NONCE_LEN_def)
  moreover have "utf8_ok (str_bytes ''sh'')" "ascii_text ''0.5''" "ascii_text ''1''" by code_simp+
  ultimately show ?thesis
    by (simp add: session_ok_def aead_ctr_ok sweep_ok_def rec_world_new_def NONCE_LEN_def call_ok_def demo_calls_def
        demo_events_def)
qed

theorem recording_plays_back_witness:
  "\<exists>w. record_session aead_ctr crypto_ref (\<lambda>_ _ fs. fs) demo_key (replicate 12 0) 5 ''r'' ''s'' ''r.lfsr'' demo_key
      demo_calls rec_world_new = Inr w \<and>
    playback aead_ctr True (hget (rw_fs w) ''r.lfsr'') demo_key None 0 =
      Inr (map (\<lambda>c. Inr (butlast (line_of 5 c))) demo_calls)"
  by (rule recording_plays_back [OF demo_session_ok])

abbreviation demo_record :: "Error + rec_world" where
  "demo_record \<equiv> record_session aead_ctr crypto_ref (\<lambda>_ _ fs. fs) demo_key (replicate 12 0) 5 ''r'' ''s'' ''r.lfsr''
     demo_key demo_calls rec_world_new"

lemma demo_recorded:
  obtains w bs where "demo_record = Inr w" "hget (rw_fs w) ''r.lfsr'' = Some bs"
  by (rule session_inv [OF demo_session_ok, where C = crypto_ref and rid = "''r''" and sid = "''s''" and dk = demo_key])
     (auto simp: file_inv_def)


lemma unat_timestamp: "unat (timestamp_ms e) < 2 ^ 32"
  using unsigned_less [of "timestamp_ms e"] by simp

lemma seek_late:
  assumes "read_all A (fs (sidecar_path path)) (Some ik) = Inr es" "es \<noteq> []"
  shows "\<exists>hit. seek A fs path (2 ^ 32) True (Some ik) = Inr (Some hit)"
proof -
  let ?n = "partition_point (\<lambda>e. unat (timestamp_ms e) \<le> 2 ^ 32) es"
  have "takeWhile (\<lambda>e. unat (timestamp_ms e) \<le> 2 ^ 32) es = es"
    unfolding takeWhile_eq_all_conv using unat_timestamp less_imp_le by blast
  then have "?n = length es" by (simp only: partition_point_def)
  then have "?n \<noteq> 0" using assms(2) by simp
  then show ?thesis unfolding seek_def Let_def using assms by simp
qed

theorem encrypted_seek_is_off_by_one_witness:
  "\<exists>w hit. demo_record = Inr w \<and>
    seek aead_ctr (fs_view w) ''r.lfsr'' (2 ^ 32) True (derive_index_key crypto_ref (Some demo_key)) = Inr (Some hit) \<and>
    playback aead_ctr True (hget (rw_fs w) ''r.lfsr'') demo_key (Some (unat (hit_offset hit))) (hit_entry_index hit) =
      Inr [Inl (RCrypto ''aes-gcm decrypt-raw'')]"
proof -
  have ev: "\<forall>c \<in> set demo_events. is_event c" by (simp add: demo_events_def is_event_def)
  note ok = demo_session_ok [unfolded demo_calls_def]
  obtain w ik es where r: "demo_record = Inr w" "derive_index_key crypto_ref (Some demo_key) = Some ik"
      "read_all aead_ctr (fs_view w (sidecar_path ''r.lfsr'')) (Some ik) = Inr es" "length es = length demo_events"
    by (rule event_session [OF ok ev, where C = crypto_ref and rid = "''r''" and sid = "''s''" and dk = demo_key,
          folded demo_calls_def])
  then have "es \<noteq> []" by (auto simp: demo_events_def)
  from seek_late [where fs = "fs_view w", OF r(3) this] obtain hit where
    hit: "seek aead_ctr (fs_view w) ''r.lfsr'' (2 ^ 32) True (derive_index_key crypto_ref (Some demo_key)) = Inr (Some hit)"
    using r(2) by auto
  from encrypted_seek_is_off_by_one [OF ok aead_ctr_binds ev r(1) [unfolded demo_calls_def] hit] r(1) hit
  show ?thesis by blast
qed

end
