(* ===== verification/Recorder_Stream.thy ===== *)
theory Recorder_Stream
  imports Recorder_Queue Recorder_Playback
begin

text \<open>
  What the queue does to the byte streams, and the recorder from end to end: when no two tasks send
  to one mailbox at a time, the bytes the worker handed on, those in the mailbox, those a task is
  sending and those buffered are, in this order, exactly the bytes accepted, per direction; and what
  the worker handed on is what the file plays back.
\<close>

section \<open>The streams\<close>

definition entry_bytes :: "RecordDirection \<Rightarrow> QueueEntry \<Rightarrow> bytes" where
  "entry_bytes d entry = (case entry of QEvent k bs \<Rightarrow> if k = d then bs else [] | _ \<Rightarrow> [])"

definition act_bytes :: "nat \<Rightarrow> RecordDirection \<Rightarrow> qact \<Rightarrow> bytes" where
  "act_bytes h d a = (case a of Send g entry \<Rightarrow> if g = h then entry_bytes d entry else [] | _ \<Rightarrow> [])"

definition acts_bytes :: "nat \<Rightarrow> RecordDirection \<Rightarrow> qact list \<Rightarrow> bytes" where
  "acts_bytes h d as = concat (map (act_bytes h d) as)"

definition flight :: "nat \<Rightarrow> RecordDirection \<Rightarrow> qtask list \<Rightarrow> bytes" where
  "flight h d ts = concat (map (\<lambda>t. acts_bytes h d (t_acts t)) ts)"

definition mail :: "RecordDirection \<Rightarrow> slot \<Rightarrow> bytes" where
  "mail d s = concat (map (entry_bytes d) (sl_mailbox s))"

definition accepted :: "nat \<Rightarrow> RecordDirection \<Rightarrow> trace_item list \<Rightarrow> bytes" where
  "accepted h d tr = concat (map (\<lambda>x. case x of Accepted g k bs \<Rightarrow> if g = h \<and> k = d then bs else [] | _ \<Rightarrow> []) tr)"

definition handled :: "nat \<Rightarrow> RecordDirection \<Rightarrow> trace_item list \<Rightarrow> bytes" where
  "handled h d tr = concat (map (\<lambda>x. case x of Handled g entry _ \<Rightarrow> if g = h then entry_bytes d entry else [] | _ \<Rightarrow> []) tr)"

definition alive :: "nat \<Rightarrow> qworld \<Rightarrow> bool" where
  "alive h w \<longleftrightarrow> h < length (q_slots w) \<and> sl_open (q_slots w ! h) \<and> \<not> sl_killed (q_slots w ! h)"

definition sender :: "nat \<Rightarrow> qtask \<Rightarrow> bool" where
  "sender h t \<longleftrightarrow> (\<exists>a \<in> set (t_acts t). case a of Send g _ \<Rightarrow> g = h | _ \<Rightarrow> False)"

definition is_qevent :: "QueueEntry \<Rightarrow> bool" where
  "is_qevent entry = (case entry of QEvent _ _ \<Rightarrow> True | _ \<Rightarrow> False)"

text \<open>
  A calm step: a task that drains does so while nobody else is sending to that mailbox, an aborted
  timer does not come back, and terminal bytes go through the buffers, as the bridge's callers do.
\<close>

definition idle :: "nat \<Rightarrow> qworld \<Rightarrow> bool" where
  "idle h w \<longleftrightarrow> (\<forall>t \<in> set (q_tasks w). \<not> sender h t)"

definition drains :: "qact \<Rightarrow> qworld \<Rightarrow> nat option" where
  "drains a w =
     (case a of
        Append h k bs \<Rightarrow>
          if FLUSH_THRESHOLD_BYTES \<le> length (buf_of k (sl_bufs (q_slots w ! h))) + length bs then Some h else None
      | DrainFor h _ \<Rightarrow> Some h
      | FlushDrain h \<Rightarrow> Some h
      | _ \<Rightarrow> None)"

fun calm :: "queue_call \<Rightarrow> qworld \<Rightarrow> bool" where
  "calm (RunTask i) w =
     (i < length (q_tasks w) \<longrightarrow> \<not> t_aborted (q_tasks w ! i) \<and>
        (case t_acts (q_tasks w ! i) of
           [] \<Rightarrow> True
         | a # _ \<Rightarrow> (case drains a w of None \<Rightarrow> True | Some h \<Rightarrow> idle h w)))"
| "calm (Enqueue rid entry) w =
     (\<not> is_qevent entry \<and> (case hget (q_workers w) rid of None \<Rightarrow> True | Some h \<Rightarrow> idle h w))"
| "calm (EnqueueBlocking rid entry) w = (\<not> is_qevent entry)"
| "calm _ w = True"

fun calm_run :: "aead_lib \<Rightarrow> crypto_lib \<Rightarrow> sweep \<Rightarrow> queue_call list \<Rightarrow> qworld \<Rightarrow> bool" where
  "calm_run A C sweep [] w = True"
| "calm_run A C sweep (c # cs) w = (calm c w \<and> calm_run A C sweep cs (queue_step A C sweep c w))"

section \<open>Invariant\<close>

definition item_slot :: "trace_item \<Rightarrow> nat" where
  "item_slot x = (case x of Accepted h _ _ \<Rightarrow> h | Handled h _ _ \<Rightarrow> h)"

definition stream_inv :: "nat \<Rightarrow> qworld \<Rightarrow> bool" where
  "stream_inv h w \<longleftrightarrow> wq_inv w \<and>
     (\<forall>i < length (q_tasks w). \<forall>j < length (q_tasks w). sender h (q_tasks w ! i) \<longrightarrow> sender h (q_tasks w ! j) \<longrightarrow> i = j) \<and>
     (\<forall>t \<in> set (q_tasks w). \<forall>g entry. DrainFor g entry \<in> set (t_acts t) \<longrightarrow> \<not> is_qevent entry) \<and>
     (\<forall>x \<in> set (q_trace w). item_slot x < length (q_slots w)) \<and>
     (alive h w \<longrightarrow> (\<forall>d. handled h d (q_trace w) @ mail d (q_slots w ! h) @ flight h d (q_tasks w) @
        buf_of d (sl_bufs (q_slots w ! h)) = accepted h d (q_trace w)))"

lemma acts_bytes_simps [simp]:
  "acts_bytes h d [] = []" "acts_bytes h d (a # as) = act_bytes h d a @ acts_bytes h d as"
  "acts_bytes h d (as @ bs) = acts_bytes h d as @ acts_bytes h d bs"
  by (simp_all add: acts_bytes_def)

lemma act_bytes_simps [simp]:
  "act_bytes h d (Append g k bs) = []" "act_bytes h d (DrainFor g e) = []" "act_bytes h d Sleep = []"
  "act_bytes h d (FlushDrain g) = []" "act_bytes h d (Send g e) = (if g = h then entry_bytes d e else [])"
  by (simp_all add: act_bytes_def)

lemma trace_simps [simp]:
  "accepted h d (tr @ [Accepted g k bs]) = accepted h d tr @ (if g = h \<and> k = d then bs else [])"
  "accepted h d (tr @ [Handled g en e]) = accepted h d tr"
  "handled h d (tr @ [Accepted g k bs]) = handled h d tr"
  "handled h d (tr @ [Handled g en e]) = handled h d tr @ (if g = h then entry_bytes d en else [])"
  by (simp_all add: accepted_def handled_def)

lemma quiet_entry [simp]: "\<not> is_qevent e \<Longrightarrow> entry_bytes d e = []"
  by (simp add: entry_bytes_def is_qevent_def split: QueueEntry.splits)

lemma no_sender_bytes: "\<not> sender h t \<Longrightarrow> acts_bytes h d (t_acts t) = []"
  by (force simp: sender_def acts_bytes_def act_bytes_def split: qact.splits)

lemma flight_sole:
  assumes "i < length ts" "\<And>j. j < length ts \<Longrightarrow> j \<noteq> i \<Longrightarrow> \<not> sender h (ts ! j)"
  shows "flight h d ts = acts_bytes h d (t_acts (ts ! i))"
proof -
  have "flight h d (take i ts) = []" "flight h d (drop (Suc i) ts) = []"
    using assms by (auto simp: flight_def in_set_conv_nth intro!: no_sender_bytes)
  moreover have "flight h d ts = flight h d (take i ts) @ acts_bytes h d (t_acts (ts ! i)) @ flight h d (drop (Suc i) ts)"
    by (subst id_take_nth_drop [OF assms(1)]) (simp add: flight_def)
  ultimately show ?thesis by simp
qed

lemma flight_idle: "\<forall>t \<in> set ts. \<not> sender h t \<Longrightarrow> flight h d ts = []"
  by (auto simp: flight_def intro: no_sender_bytes)

lemma flight_cong:
  assumes "length ts' = length ts" "\<And>j. j < length ts \<Longrightarrow> acts_bytes h d (t_acts (ts' ! j)) = acts_bytes h d (t_acts (ts ! j))"
  shows "flight h d ts' = flight h d ts"
proof -
  have "map (\<lambda>t. acts_bytes h d (t_acts t)) ts' = map (\<lambda>t. acts_bytes h d (t_acts t)) ts"
    by (rule nth_equalityI) (use assms in auto)
  then show ?thesis by (simp add: flight_def)
qed

lemma drained_bytes: "acts_bytes h d (sends g (drained b)) = (if g = h then buf_of d b else [])"
  by (cases d) (simp_all add: sends_def drained_def buf_of_def entry_bytes_def)

lemma sender_drainD:
  assumes "sender h (q_tasks (drain_slot i g b rest w) ! j)" "j < length (q_tasks w)" "\<forall>a \<in> set rest. \<exists>e. a = Send g e"
  shows "j = i \<and> g = h \<or> j \<noteq> i \<and> sender h (q_tasks w ! j)"
  using assms by (auto simp: sender_def drain_slot_acts sends_def split: if_splits)

lemma sleep_bytes: "acts_ok as \<Longrightarrow> take 1 as = [Sleep] \<Longrightarrow> acts_bytes h d as = []"
  by (cases as) auto

text \<open>A drain moves the buffered bytes into the sends of the draining task.\<close>

lemma stream_drain:
  assumes inv: "wq_inv (drain_slot i g b rest w)"
    and i: "i < length (q_tasks w)" "\<not> sender h (q_tasks w ! i)" and g: "g < length (q_slots w)"
    and rest: "\<forall>a \<in> set rest. \<exists>e. a = Send g e \<and> \<not> is_qevent e"
    and ok: "\<And>t. t \<in> set (q_tasks w) \<Longrightarrow> acts_ok (t_acts t)"
    and calm: "g = h \<Longrightarrow> idle h w"
    and one: "\<And>i j. i < length (q_tasks w) \<Longrightarrow> j < length (q_tasks w) \<Longrightarrow>
      sender h (q_tasks w ! i) \<Longrightarrow> sender h (q_tasks w ! j) \<Longrightarrow> i = j"
    and dr: "\<And>t g e. t \<in> set (q_tasks w) \<Longrightarrow> DrainFor g e \<in> set (t_acts t) \<Longrightarrow> \<not> is_qevent e"
    and tr: "\<forall>x \<in> set (q_trace w). item_slot x < length (q_slots w)"
    and st: "\<And>d. alive h w \<Longrightarrow> handled h d (q_trace w) @ mail d (q_slots w ! h) @ flight h d (q_tasks w) @
        buf_of d (if g = h then b else sl_bufs (q_slots w ! h)) = accepted h d (q_trace w)"
  shows "stream_inv h (drain_slot i g b rest w)"
proof -
  let ?w = "drain_slot i g b rest w"
  have sd: "sender h (q_tasks ?w ! j) \<Longrightarrow> j < length (q_tasks w) \<Longrightarrow> j = i \<and> g = h \<or> j \<noteq> i \<and> sender h (q_tasks w ! j)" for j
    by (rule sender_drainD) (use rest in auto)
  have "j = k" if "j < length (q_tasks w)" "k < length (q_tasks w)" "sender h (q_tasks ?w ! j)" "sender h (q_tasks ?w ! k)" for j k
    using sd [OF that(3,1)] sd [OF that(4,2)] that(1,2) one calm i by (auto simp: idle_def)
  moreover have "\<not> is_qevent e" if t: "t \<in> set (q_tasks ?w)" "DrainFor f e \<in> set (t_acts t)" for t f e
  proof -
    obtain j where j: "j < length (q_tasks w)" "t = q_tasks ?w ! j" using t(1) by (auto simp: in_set_conv_nth)
    have "DrainFor f e \<notin> set (sends g (drained b) @ rest)" using rest by (auto simp: sends_def)
    then have "DrainFor f e \<in> set (t_acts (q_tasks w ! j))"
      using t(2) j drain_slot_acts [of j w i g b rest] by (auto split: if_splits)
    then show ?thesis using dr nth_mem [OF j(1)] by blast
  qed
  moreover have "handled h d (q_trace w) @ mail d (q_slots ?w ! h) @ flight h d (q_tasks ?w) @
      buf_of d (sl_bufs (q_slots ?w ! h)) = accepted h d (q_trace w)" if a: "alive h ?w" for d
  proof -
    have al: "alive h w" using a by (cases "h = g") (auto simp: alive_def)
    have q: "acts_bytes h d rest = []" using rest by (auto simp: acts_bytes_def)
    show ?thesis
    proof (cases "g = h")
      case True
      have "flight h d (q_tasks w) = []" using calm [OF True] by (auto simp: idle_def intro: flight_idle)
      moreover have "\<not> sender h (q_tasks ?w ! j)" if "j < length (q_tasks w)" "j \<noteq> i" for j
        using sd [of j] that calm [OF True] by (auto simp: idle_def)
      then have "flight h d (q_tasks ?w) = buf_of d b"
        using i(1) True q by (subst flight_sole [of i]) (simp_all add: drain_slot_acts drained_bytes)
      moreover have "mail d (q_slots ?w ! h) = mail d (q_slots w ! h)" "buf_of d (sl_bufs (q_slots ?w ! h)) = []"
        using True g by (simp_all add: mail_def buf_of_def buffers_new_def split: RecordDirection.split)
      ultimately show ?thesis using st [OF al, of d] True by simp
    next
      case False
      have "acts_bytes h d (t_acts (q_tasks ?w ! j)) = acts_bytes h d (t_acts (q_tasks w ! j))" if "j < length (q_tasks w)" for j
      proof (cases "j = i")
        case True
        then show ?thesis using that False q no_sender_bytes [OF i(2)] by (simp add: drain_slot_acts drained_bytes)
      next
        case ji: False
        show ?thesis
        proof (cases "eb_flush_task b = Some j \<and> take 1 (t_acts (q_tasks w ! j)) = [Sleep]")
          case True
          then have "acts_bytes h d (t_acts (q_tasks w ! j)) = []" using sleep_bytes ok nth_mem [OF that] by blast
          then show ?thesis using True that ji by (simp add: drain_slot_acts)
        qed (use that ji in \<open>auto simp: drain_slot_acts\<close>)
      qed
      then have "flight h d (q_tasks ?w) = flight h d (q_tasks w)" by (intro flight_cong) simp_all
      then show ?thesis using st [OF al, of d] False g by (simp add: nth_list_update)
    qed
  qed
  ultimately show ?thesis using inv tr by (simp add: stream_inv_def)
qed

text \<open>Steps that leave slot \<open>h\<close> and the bytes in flight alone.\<close>

lemma stream_same:
  assumes "stream_inv h w" "wq_inv w'" "\<And>d. flight h d (q_tasks w') = flight h d (q_tasks w)"
    and "\<And>i j. i < length (q_tasks w') \<Longrightarrow> j < length (q_tasks w') \<Longrightarrow>
      sender h (q_tasks w' ! i) \<Longrightarrow> sender h (q_tasks w' ! j) \<Longrightarrow> i = j"
    and "\<And>t g e. t \<in> set (q_tasks w') \<Longrightarrow> DrainFor g e \<in> set (t_acts t) \<Longrightarrow> \<not> is_qevent e"
    and "q_trace w' = q_trace w" "length (q_slots w) \<le> length (q_slots w')"
    and "alive h w' \<Longrightarrow> alive h w \<and>
      sl_mailbox (q_slots w' ! h) = sl_mailbox (q_slots w ! h) \<and> sl_bufs (q_slots w' ! h) = sl_bufs (q_slots w ! h)"
  shows "stream_inv h w'"
  using assms unfolding stream_inv_def mail_def by (simp add: order_less_le_trans) (metis order_less_le_trans)

lemma stream_invD:
  assumes "stream_inv h w"
  shows "wq_inv w"
    and "\<And>i j. i < length (q_tasks w) \<Longrightarrow> j < length (q_tasks w) \<Longrightarrow>
      sender h (q_tasks w ! i) \<Longrightarrow> sender h (q_tasks w ! j) \<Longrightarrow> i = j"
    and "\<And>t g e. t \<in> set (q_tasks w) \<Longrightarrow> DrainFor g e \<in> set (t_acts t) \<Longrightarrow> \<not> is_qevent e"
    and "\<forall>x \<in> set (q_trace w). item_slot x < length (q_slots w)"
    and "\<And>d. alive h w \<Longrightarrow> handled h d (q_trace w) @ mail d (q_slots w ! h) @ flight h d (q_tasks w) @
        buf_of d (sl_bufs (q_slots w ! h)) = accepted h d (q_trace w)"
  using assms unfolding stream_inv_def by blast+

lemma wq_inv_acts: "wq_inv w \<Longrightarrow> t \<in> set (q_tasks w) \<Longrightarrow> acts_ok (t_acts t)"
  by (simp add: wq_inv_def)

lemma buf_of_extend: "buf_of d (extend_buf k bs b) = buf_of d b @ (if k = d then bs else [])"
  by (cases k; cases d) (simp_all add: buf_of_def extend_buf_def)

lemma buf_of_flush [simp]: "buf_of d (b\<lparr> eb_flush_task := t \<rparr>) = buf_of d b"
  by (cases d) (simp_all add: buf_of_def)

lemma calm_head: "calm (RunTask i) w \<Longrightarrow> i < length (q_tasks w) \<Longrightarrow> t_acts (q_tasks w ! i) = a # rest \<Longrightarrow> drains a w = Some h \<Longrightarrow> idle h w"
  by simp

text \<open>A task that goes on with acts that send nothing to \<open>h\<close>.\<close>

lemma go_on_flight:
  assumes "i < length (q_tasks w)" "acts_bytes h d acts = acts_bytes h d (t_acts (q_tasks w ! i))"
  shows "flight h d (q_tasks (go_on i acts w)) = flight h d (q_tasks w)"
  by (rule flight_cong) (use assms in \<open>auto simp: go_on_acts\<close>)

lemma go_on_sender:
  assumes "i < length (q_tasks w)" "j < length (q_tasks w)" "set acts \<subseteq> set (t_acts (q_tasks w ! i))"
    "sender h (q_tasks (go_on i acts w) ! j)"
  shows "sender h (q_tasks w ! j)"
  using assms by (auto simp: sender_def go_on_acts split: if_splits)

lemma drain_acts:
  assumes "\<And>t g e. t \<in> set ts \<Longrightarrow> DrainFor g e \<in> set (t_acts t) \<Longrightarrow> \<not> is_qevent e"
    and "length ts' = length ts" "\<And>j. j < length ts \<Longrightarrow> set (t_acts (ts' ! j)) \<subseteq> set (t_acts (ts ! j))"
    and "t \<in> set ts'" "DrainFor g e \<in> set (t_acts t)"
  shows "\<not> is_qevent e"
  using assms by (metis in_set_conv_nth subset_iff)

text \<open>A call that returns, perhaps after arming a timer.\<close>

lemma finish_tasks:
  assumes "i < length ts" "ts' = (ts @ ex)[i := t']" "t_acts t' = []" "\<not> sender h (ts ! i)"
    "\<forall>x \<in> set ex. t_acts x = [Sleep, FlushDrain g]"
  shows "flight h d ts' = flight h d ts"
    and "\<And>j. j < length ts' \<Longrightarrow> sender h (ts' ! j) \<Longrightarrow> j < length ts \<and> sender h (ts ! j)"
    and "\<And>t f e. t \<in> set ts' \<Longrightarrow> DrainFor f e \<in> set (t_acts t) \<Longrightarrow> t \<in> set ts"
proof -
  have ts': "ts' = ts[i := t'] @ ex" using assms(1,2) by (simp add: list_update_append)
  have "flight h d ex = []" using assms(5) by (auto simp: flight_def)
  moreover have "flight h d (ts[i := t']) = flight h d ts"
  proof (rule flight_cong)
    show "acts_bytes h d (t_acts (ts[i := t'] ! j)) = acts_bytes h d (t_acts (ts ! j))" if "j < length ts" for j
      using that assms(3) no_sender_bytes [OF assms(4)] by (cases "j = i") simp_all
  qed simp
  ultimately show "flight h d ts' = flight h d ts" by (simp add: ts' flight_def)
  fix j assume j: "j < length ts'" "sender h (ts' ! j)"
  have "\<not> sender h x" if "x \<in> set ex" for x using assms(5) that by (simp add: sender_def)
  then have "j < length ts" using j by (cases "j < length ts") (simp_all add: ts' nth_append)
  then show "j < length ts \<and> sender h (ts ! j)"
    using j assms(3) by (cases "j = i") (simp_all add: ts' nth_append sender_def)
next
  fix t f e assume "t \<in> set ts'" "DrainFor f e \<in> set (t_acts t)"
  then show "t \<in> set ts"
    using assms set_update_subset_insert [of ts i t'] by (auto simp: list_update_append)
qed

lemma stream_exec_append:
  assumes inv: "stream_inv h w" and i: "i < length (q_tasks w)" and t: "t_acts (q_tasks w ! i) = [Append g k bs]"
    and calm: "calm (RunTask i) w"
  shows "stream_inv h (q_exec i (Append g k bs) [] w)"
proof -
  note D = stream_invD [OF inv]
  have g: "g < length (q_slots w)" using D(1) nth_mem [OF i] t by (fastforce simp: wq_inv_def)
  have q: "wq_inv (q_exec i (Append g k bs) [] w)" by (rule wq_inv_exec [OF D(1) i t])
  define b where "b = extend_buf k bs (sl_bufs (q_slots w ! g))"
  define w0 where "w0 = w\<lparr> q_trace := q_trace w @ [Accepted g k bs] \<rparr>"
  have w0: "q_slots w0 = q_slots w" "q_tasks w0 = q_tasks w" "q_trace w0 = q_trace w @ [Accepted g k bs]"
      "alive h w0 = alive h w"
    by (simp_all add: w0_def alive_def)
  have len: "length (buf_of k b) = length (buf_of k (sl_bufs (q_slots w ! g))) + length bs"
    by (simp add: b_def buf_of_extend)
  have ns: "\<not> sender h (q_tasks w ! i)" by (simp add: sender_def t)
  have st: "handled h d (q_trace w0) @ mail d (q_slots w0 ! h) @ flight h d (q_tasks w0) @
      buf_of d (if g = h then b else sl_bufs (q_slots w0 ! h)) = accepted h d (q_trace w0)" if "alive h w0" for d
    using D(5) [of d] that by (simp add: w0 b_def buf_of_extend flip: append_assoc)
  have tr: "\<forall>x \<in> set (q_trace w0). item_slot x < length (q_slots w0)"
    using D(4) g by (simp add: w0 item_slot_def)
  show ?thesis
  proof (cases "FLUSH_THRESHOLD_BYTES \<le> length (buf_of k b)")
    case True
    then have id: "g = h \<Longrightarrow> idle h w0" using calm i t len by (simp add: drains_def idle_def w0)
    have e: "q_exec i (Append g k bs) [] w = drain_slot i g b [] w0"
      using True by (simp add: b_def [symmetric] w0_def [symmetric])
    show ?thesis
      unfolding e by (rule stream_drain) (use q e i ns g id tr st D(2,3) wq_inv_acts [OF D(1)] in \<open>auto simp: w0\<close>)
  next
    case False
    define ex where "ex = (if eb_flush_task b = None
      then [\<lparr> t_id = t_id (q_tasks w ! i), t_acts = [Sleep, FlushDrain g], t_aborted = False, t_result = None \<rparr>] else [])"
    define b' where "b' = (if eb_flush_task b = None then b\<lparr> eb_flush_task := Some (length (q_tasks w)) \<rparr> else b)"
    define w' where "w' = q_exec i (Append g k bs) [] w"
    have f: "q_trace w' = q_trace w0" "q_slots w' = (q_slots w)[g := (q_slots w ! g)\<lparr> sl_bufs := b' \<rparr>]"
        "q_tasks w' = (q_tasks w @ ex)[i := (q_tasks w ! i)\<lparr> t_acts := [], t_result := Some (Inr ()) \<rparr>]"
      unfolding w'_def using False i
      by (simp_all add: b_def [symmetric] w0_def [symmetric] b'_def ex_def w0 go_on_def spawn_deadline_flush_def Let_def
          nth_append)
    have exs: "\<forall>x \<in> set ex. t_acts x = [Sleep, FlushDrain g]" by (simp add: ex_def)
    note T = finish_tasks [OF i f(3) _ ns exs, simplified]
    have "alive h w' = alive h w0" by (cases "g = h") (auto simp: alive_def f(2) w0(1))
    moreover have "mail d (q_slots w' ! h) = mail d (q_slots w ! h)"
        "buf_of d (sl_bufs (q_slots w' ! h)) = buf_of d (if g = h then b else sl_bufs (q_slots w ! h))" for d
      using g by (cases "g = h"; simp add: f(2) mail_def b'_def)+
    ultimately have "alive h w' \<Longrightarrow> handled h d (q_trace w') @ mail d (q_slots w' ! h) @ flight h d (q_tasks w') @
        buf_of d (sl_bufs (q_slots w' ! h)) = accepted h d (q_trace w')" for d
      using st [of d] T(1) [of d] by (simp only: f(1) w0)
    moreover have "\<And>i j. i < length (q_tasks w') \<Longrightarrow> j < length (q_tasks w') \<Longrightarrow>
        sender h (q_tasks w' ! i) \<Longrightarrow> sender h (q_tasks w' ! j) \<Longrightarrow> i = j"
      using T(2) D(2) by blast
    moreover have "\<And>t f e. t \<in> set (q_tasks w') \<Longrightarrow> DrainFor f e \<in> set (t_acts t) \<Longrightarrow> \<not> is_qevent e"
      using T(3) D(3) by blast
    moreover have "length (q_slots w') = length (q_slots w)" by (simp add: f(2))
    ultimately show ?thesis
      unfolding w'_def [symmetric] using q [folded w'_def] tr [folded f(1)] w0(1) unfolding stream_inv_def by metis
  qed
qed

lemma stream_exec_drain:
  assumes inv: "stream_inv h w" and i: "i < length (q_tasks w)" and t: "t_acts (q_tasks w ! i) = [a]"
    and calm: "calm (RunTask i) w" and a: "a = DrainFor g e \<or> a = FlushDrain g"
  shows "stream_inv h (q_exec i a [] w)"
proof -
  note D = stream_invD [OF inv]
  have g: "g < length (q_slots w)" using D(1) nth_mem [OF i] t a by (fastforce simp: wq_inv_def)
  have q: "wq_inv (q_exec i a [] w)" by (rule wq_inv_exec [OF D(1) i t])
  have ns: "\<not> sender h (q_tasks w ! i)" using a by (auto simp: sender_def t)
  have id: "g = h \<Longrightarrow> idle h w" using calm_head [OF calm i t, of g] a by (auto simp: drains_def)
  define b where "b = (case a of FlushDrain g \<Rightarrow> (sl_bufs (q_slots w ! g))\<lparr> eb_flush_task := None \<rparr> | _ \<Rightarrow> sl_bufs (q_slots w ! g))"
  define rest where "rest = (case a of DrainFor g e \<Rightarrow> [Send g e] | _ \<Rightarrow> [])"
  have e: "q_exec i a [] w = drain_slot i g b rest w" using a by (auto simp: b_def rest_def)
  have "\<not> is_qevent e" if "a = DrainFor g e" using D(3) [OF nth_mem [OF i]] t that by simp
  then have r: "\<forall>c \<in> set rest. \<exists>e. c = Send g e \<and> \<not> is_qevent e" using a by (auto simp: rest_def)
  have "handled h d (q_trace w) @ mail d (q_slots w ! h) @ flight h d (q_tasks w) @
      buf_of d (if g = h then b else sl_bufs (q_slots w ! h)) = accepted h d (q_trace w)" if "alive h w" for d
    using D(5) [OF that, of d] a by (auto simp: b_def)
  then show ?thesis
    unfolding e by (intro stream_drain) (use q e i ns g id r D(2-4) wq_inv_acts [OF D(1)] in auto)
qed

lemma stream_exec_send:
  assumes inv: "stream_inv h w" and i: "i < length (q_tasks w)" and t: "t_acts (q_tasks w ! i) = Send g e # rest"
    and calm: "calm (RunTask i) w"
  shows "stream_inv h (q_exec i (Send g e) rest w)"
proof -
  note D = stream_invD [OF inv]
  have q: "wq_inv (q_exec i (Send g e) rest w)" by (rule wq_inv_exec [OF D(1) i t])
  have rest: "\<forall>a \<in> set rest. \<exists>e. a = Send g e" using wq_inv_acts [OF D(1) nth_mem [OF i]] t by simp
  consider "\<not> sl_open (q_slots w ! g)" | "sl_open (q_slots w ! g)" "QUEUE_CAPACITY \<le> length (sl_mailbox (q_slots w ! g))"
    | "sl_open (q_slots w ! g)" "\<not> QUEUE_CAPACITY \<le> length (sl_mailbox (q_slots w ! g))"
    by blast
  then show ?thesis
  proof cases
    case 1
    define w' where "w' = q_exec i (Send g e) rest w"
    have f: "q_trace w' = q_trace w" "q_slots w' = q_slots w" "length (q_tasks w') = length (q_tasks w)"
        "\<And>j. j < length (q_tasks w) \<Longrightarrow> t_acts (q_tasks w' ! j) = (if j = i then [] else t_acts (q_tasks w ! j))"
      unfolding w'_def using 1 i by (simp_all add: Let_def nth_list_update)
    have sd: "sender h (q_tasks w ! j)" if "sender h (q_tasks w' ! j)" "j < length (q_tasks w)" for j
      using that f(4) [OF that(2)] by (auto simp: sender_def split: if_splits)
    have al: "alive h w' = alive h w" by (simp add: alive_def f(2))
    have "flight h d (q_tasks w') = flight h d (q_tasks w)" if "alive h w" for d
    proof (rule flight_cong)
      have "g \<noteq> h" using 1 that by (auto simp: alive_def)
      then have "acts_bytes h d (t_acts (q_tasks w ! i)) = []" using t rest by (auto simp: acts_bytes_def)
      then show "acts_bytes h d (t_acts (q_tasks w' ! j)) = acts_bytes h d (t_acts (q_tasks w ! j))" if "j < length (q_tasks w)" for j
        using f(4) [OF that] by simp
    qed (rule f(3))
    then have "alive h w \<Longrightarrow> handled h d (q_trace w) @ mail d (q_slots w ! h) @ flight h d (q_tasks w') @
        buf_of d (sl_bufs (q_slots w ! h)) = accepted h d (q_trace w)" for d
      using D(5) by simp
    moreover have "\<not> is_qevent e'" if "u \<in> set (q_tasks w')" "DrainFor g' e' \<in> set (t_acts u)" for u g' e'
      by (rule drain_acts [OF D(3) f(3) _ that]) (use f(4) in auto)
    ultimately show ?thesis
      unfolding w'_def [symmetric] stream_inv_def f(1-3) al
      using q [folded w'_def] D(2,4) sd by metis
  next
    case 2
    then show ?thesis using inv calm i by (simp add: Let_def)
  next
    case 3
    define w' where "w' = q_exec i (Send g e) rest w"
    have f: "q_trace w' = q_trace w" "q_slots w' = (q_slots w)[g := (q_slots w ! g)\<lparr> sl_mailbox := sl_mailbox (q_slots w ! g) @ [e] \<rparr>]"
        "length (q_tasks w') = length (q_tasks w)"
        "\<And>j. j < length (q_tasks w) \<Longrightarrow> t_acts (q_tasks w' ! j) = (if j = i then rest else t_acts (q_tasks w ! j))"
      unfolding w'_def using 3 i by (simp_all add: go_on_acts Let_def)
    have g: "g < length (q_slots w)" using D(1) nth_mem [OF i] t by (fastforce simp: wq_inv_def)
    have sd: "sender h (q_tasks w ! j)" if "sender h (q_tasks w' ! j)" "j < length (q_tasks w)" for j
      using that f(4) [OF that(2)] t by (auto simp: sender_def split: if_splits)
    have al: "alive h w' = alive h w" by (cases "g = h") (auto simp: alive_def f(2))
    have bf: "sl_bufs (q_slots w' ! h) = sl_bufs (q_slots w ! h)" using g by (cases "g = h") (simp_all add: f(2))
    have "mail d (q_slots w' ! h) @ flight h d (q_tasks w') = mail d (q_slots w ! h) @ flight h d (q_tasks w)" for d
    proof (cases "g = h")
      case True
      have si: "sender h (q_tasks w ! i)" using t True by (simp add: sender_def)
      have "\<not> sender h (q_tasks w ! j)" "\<not> sender h (q_tasks w' ! j)" if "j < length (q_tasks w)" "j \<noteq> i" for j
        using D(2) [OF that(1) i] si sd [of j] that by auto
      then have "flight h d (q_tasks w) = entry_bytes d e @ acts_bytes h d rest" "flight h d (q_tasks w') = acts_bytes h d rest"
        using i f(3,4) t True by (simp_all add: flight_sole [of i])
      then show ?thesis using True g by (simp add: f(2) mail_def)
    next
      case False
      have "flight h d (q_tasks w') = flight h d (q_tasks w)"
        by (rule flight_cong) (use f(3,4) t False in auto)
      then show ?thesis using False by (simp add: f(2))
    qed
    then have "alive h w \<Longrightarrow> handled h d (q_trace w) @ mail d (q_slots w' ! h) @ flight h d (q_tasks w') @
        buf_of d (sl_bufs (q_slots w' ! h)) = accepted h d (q_trace w)" for d
      using D(5) [of d] bf by (metis append_assoc)
    moreover have "length (q_slots w') = length (q_slots w)" by (simp add: f(2))
    moreover have "\<not> is_qevent e'" if "u \<in> set (q_tasks w')" "DrainFor g' e' \<in> set (t_acts u)" for u g' e'
      by (rule drain_acts [OF D(3) f(3) _ that]) (use f(4) t in auto)
    ultimately show ?thesis
      unfolding w'_def [symmetric] stream_inv_def f(1,3) al
      using q [folded w'_def] D(2,4) sd by metis
  qed
qed

lemma stream_run_qtask:
  assumes inv: "stream_inv h w" and calm: "calm (RunTask i) w"
  shows "stream_inv h (run_qtask i w)"
proof (cases "i < length (q_tasks w)")
  case i: True
  note D = stream_invD [OF inv]
  have ok: "acts_ok (t_acts (q_tasks w ! i))" by (rule wq_inv_acts [OF D(1) nth_mem [OF i]])
  show ?thesis
  proof (cases "t_acts (q_tasks w ! i)")
    case Nil
    then show ?thesis using inv by (simp add: run_qtask_def)
  next
    case (Cons a rest)
    have e: "run_qtask i w = q_exec i a rest w" using i Cons by (simp add: run_qtask_def)
    show ?thesis
    proof (cases a)
      case Sleep
      then obtain g where g: "rest = [FlushDrain g]" using ok Cons by auto
      define w' where "w' = go_on i rest w"
      have sd: "sender h (q_tasks w ! j)" if "sender h (q_tasks w' ! j)" "j < length (q_tasks w')" for j
        using go_on_sender [OF i, of j rest h] that Cons by (auto simp: w'_def)
      have "wq_inv w'" using wq_inv_exec [OF D(1) i Cons] Sleep by (simp add: w'_def)
      moreover have "\<not> is_qevent e'" if "u \<in> set (q_tasks w')" "DrainFor g' e' \<in> set (t_acts u)" for u g' e'
        by (rule drain_acts [OF D(3) _ _ that]) (use Cons in \<open>auto simp: w'_def go_on_acts split: if_splits\<close>)
      moreover have "flight h d (q_tasks w') = flight h d (q_tasks w)" for d
        using i Cons Sleep g by (simp add: w'_def go_on_flight)
      ultimately have "stream_inv h w'"
        using D(2) sd by (intro stream_same [OF inv]) (auto simp: w'_def alive_def)
      then show ?thesis using e Sleep by (simp add: w'_def)
    next
      case (DrainFor g en)
      then show ?thesis using e ok Cons stream_exec_drain [OF inv i _ calm, of a g en] by auto
    next
      case (FlushDrain g)
      then show ?thesis using e ok Cons stream_exec_drain [OF inv i _ calm, of a g] by auto
    qed (use e ok Cons stream_exec_append [OF inv i _ calm] stream_exec_send [OF inv i _ calm] in auto)
  qed
qed (use inv in \<open>simp add: run_qtask_def\<close>)

lemma sender_iff: "sender h t \<longleftrightarrow> (\<exists>e. Send h e \<in> set (t_acts t))"
proof
  assume "sender h t"
  then obtain a where "a \<in> set (t_acts t)" "case a of Send g _ \<Rightarrow> g = h | _ \<Rightarrow> False" by (auto simp: sender_def)
  then show "\<exists>e. Send h e \<in> set (t_acts t)" by - (cases a; auto)
next
  assume "\<exists>e. Send h e \<in> set (t_acts t)"
  then obtain e where "Send h e \<in> set (t_acts t)" by blast
  then show "sender h t" unfolding sender_def by (intro bexI [of _ "Send h e"]) simp_all
qed

lemma stream_start:
  assumes inv: "stream_inv h w" and q: "wq_inv (start_call rid acts r w)"
    and b: "\<And>d. acts_bytes h d acts = []" and dr: "\<And>g e. DrainFor g e \<in> set acts \<Longrightarrow> \<not> is_qevent e"
    and s: "idle h w \<or> \<not> (\<exists>e. Send h e \<in> set acts)"
  shows "stream_inv h (start_call rid acts r w)"
proof -
  note D = stream_invD [OF inv]
  let ?t = "\<lparr> t_id = rid, t_acts = acts, t_aborted = False, t_result = r \<rparr>"
  have "idle h w \<or> \<not> sender h ?t" using s by (simp add: sender_iff)
  then have "i = j" if "i < length (q_tasks w @ [?t])" "j < length (q_tasks w @ [?t])"
      "sender h ((q_tasks w @ [?t]) ! i)" "sender h ((q_tasks w @ [?t]) ! j)" for i j
    using that D(2) [of i j] by (auto simp: nth_append less_Suc_eq idle_def split: if_splits)
  then show ?thesis
    using D(3) dr b by (intro stream_same [OF inv q]) (auto simp: flight_def alive_def)
qed

lemma stream_with_slot:
  assumes inv: "stream_inv h w" and q: "wq_inv (with_slot rid f w)"
    and b: "\<And>g d. acts_bytes h d (f g) = []" and dr: "\<And>g g' e. DrainFor g' e \<in> set (f g) \<Longrightarrow> \<not> is_qevent e"
    and s: "\<And>g. hget (q_workers w) rid = Some g \<Longrightarrow> idle h w \<or> \<not> (\<exists>e. Send h e \<in> set (f g))"
  shows "stream_inv h (with_slot rid f w)"
  using q unfolding with_slot_def
  by (cases "hget (q_workers w) rid") (auto intro!: stream_start [OF inv] simp: b dest: dr s)

text \<open>Steps that only touch slots, other than the buffers and mailbox of a live \<open>h\<close>.\<close>

lemma stream_slots:
  assumes "stream_inv h w" "wq_inv w'" "q_tasks w' = q_tasks w" "q_trace w' = q_trace w"
    "length (q_slots w) \<le> length (q_slots w')"
    "alive h w' \<Longrightarrow> alive h w \<and> sl_mailbox (q_slots w' ! h) = sl_mailbox (q_slots w ! h) \<and>
      sl_bufs (q_slots w' ! h) = sl_bufs (q_slots w ! h)"
  shows "stream_inv h w'"
  using assms(3-6) stream_invD(2,3) [OF assms(1)] by (intro stream_same [OF assms(1,2)]) auto

lemma slot_update_nth:
  "h < length ss \<Longrightarrow> ss[g := s] ! h = (if g = h then s else ss ! h)"
  by (simp add: nth_list_update)

lemma kill_slots:
  "length (q_slots (kill_worker rid w)) = length (q_slots w)" "q_tasks (kill_worker rid w) = q_tasks w"
  "q_trace (kill_worker rid w) = q_trace w" "q_workers (kill_worker rid w) = q_workers w"
  by (simp_all add: kill_worker_def split: option.split)

lemma kill_slot:
  "alive h (kill_worker rid w) \<Longrightarrow> alive h w \<and> q_slots (kill_worker rid w) ! h = q_slots w ! h"
  by (auto simp: kill_worker_def alive_def slot_update_nth split: option.splits if_splits)

lemma stream_kill: "stream_inv h w \<Longrightarrow> stream_inv h (kill_worker rid w)"
  using kill_slot [of h rid w] wq_inv_kill [OF stream_invD(1), of h w rid]
  by (rule_tac stream_slots) (auto simp: kill_slots)

lemma stream_drop: "stream_inv h w \<Longrightarrow> stream_inv h (drop_worker rid w)"
  using kill_slot [of h rid w] wq_inv_drop [OF stream_invD(1), of h w rid]
  by (rule_tac stream_slots) (auto simp: drop_worker_def kill_slots alive_def)

lemma stream_spawn:
  assumes inv: "stream_inv h w"
  shows "stream_inv h (queue_spawn rid w)"
proof -
  let ?w = "queue_spawn rid w" and ?k = "kill_worker rid w"
  note D = stream_invD [OF inv]
  have q: "wq_inv ?w" by (rule wq_inv_spawn [OF D(1)])
  have f: "q_tasks ?w = q_tasks w" "q_trace ?w = q_trace w" "length (q_slots ?w) = Suc (length (q_slots w))"
    by (simp_all add: queue_spawn_def kill_slots)
  show ?thesis
  proof (cases "h = length (q_slots w)")
    case False
    then have "alive h ?w \<Longrightarrow> alive h ?k \<and> q_slots ?w ! h = q_slots ?k ! h"
      by (auto simp: alive_def queue_spawn_def nth_append kill_slots less_Suc_eq)
    then show ?thesis using kill_slot [of h rid w] f by (intro stream_slots [OF inv q]) auto
  next
    case True
    have s: "q_slots ?w ! h = \<lparr> sl_id = rid, sl_bufs = buffers_new, sl_mailbox = [], sl_open = True, sl_killed = False, sl_rotate = False \<rparr>"
      using True by (simp add: queue_spawn_def nth_append kill_slots)
    have "Send h e \<notin> set (t_acts t)" if "t \<in> set (q_tasks w)" for t e
      using D(1) that True by (fastforce simp: wq_inv_def)
    then have fl: "flight h d (q_tasks w) = []" for d by (auto intro!: flight_idle simp: sender_iff)
    have "handled h d (q_trace w) = []" "accepted h d (q_trace w) = []" for d
      using D(4) True by (auto simp: handled_def accepted_def item_slot_def split: trace_item.splits)
    then have "handled h d (q_trace w) @ mail d (q_slots ?w ! h) @ flight h d (q_tasks w) @
        buf_of d (sl_bufs (q_slots ?w ! h)) = accepted h d (q_trace w)" for d
      by (simp add: s fl mail_def buf_of_def buffers_new_def split: RecordDirection.split)
    then show ?thesis
      using q D(2-4) unfolding stream_inv_def f(1,2) by (auto simp: f(3) less_Suc_eq)
  qed
qed

lemma handle_entry_slot:
  assumes "alive h (handle_entry A C sweep e g rid entry w)"
  shows "alive h w \<and> sl_mailbox (q_slots (handle_entry A C sweep e g rid entry w) ! h) = sl_mailbox (q_slots w ! h) \<and>
    sl_bufs (q_slots (handle_entry A C sweep e g rid entry w) ! h) = sl_bufs (q_slots w ! h)"
proof (cases entry)
  case QClose
  have dr: "alive h (drop_receiver g v) \<Longrightarrow> alive h v \<and> q_slots (drop_receiver g v) ! h = q_slots v ! h" for v
    by (auto simp: drop_receiver_def alive_def slot_update_nth split: if_splits)
  have "q_slots (drop_worker rid v) = q_slots (kill_worker rid v)" for v by (simp add: drop_worker_def)
  then have dw: "alive h (drop_worker rid v) \<Longrightarrow> alive h v \<and> q_slots (drop_worker rid v) ! h = q_slots v ! h" for v
    using kill_slot [of h rid v] unfolding alive_def [of h "drop_worker rid v"] alive_def [of h "kill_worker rid v"] by metis
  have eq: "handle_entry A C sweep e g rid entry w = drop_receiver g (drop_worker rid (handle_close sweep rid w))"
    using QClose by (simp add: handle_entry_def)
  note a = dr [OF assms [unfolded eq]]
  then have "alive h (handle_close sweep rid w) \<and>
      q_slots (handle_entry A C sweep e g rid entry w) ! h = q_slots (handle_close sweep rid w) ! h"
    using dw [OF a [THEN conjunct1]] by (simp add: eq)
  then show ?thesis by (simp add: handle_close_def alive_def)
qed (use assms in \<open>auto simp: handle_entry_def handle_header_def handle_event_def handle_rotate_def
       resolve_blocking_result_def q_publish_def Let_def alive_def slot_update_nth
       split: prod.splits sum.splits option.splits if_splits\<close>)

lemma handle_entry_trace: "q_trace (handle_entry A C sweep e g rid entry w) = q_trace w"
  by (auto simp: handle_entry_def handle_header_def handle_event_def handle_rotate_def handle_close_def drop_receiver_def
      drop_worker_def kill_slots resolve_blocking_result_def q_publish_def Let_def
      split: QueueEntry.split prod.split sum.split option.split)

lemma stream_worker:
  assumes inv: "stream_inv h w"
  shows "stream_inv h (worker_turn A C sweep e g w)"
proof -
  note D = stream_invD [OF inv]
  let ?w = "worker_turn A C sweep e g w"
  have q: "wq_inv ?w" by (rule wq_inv_worker [OF D(1)])
  have t: "q_tasks ?w = q_tasks w" "length (q_slots ?w) = length (q_slots w)"
    using worker_turn_same(1) worker_turn_same(2) [THEN arg_cong [where f = length]] by simp_all
  show ?thesis
  proof (cases "g < length (q_slots w) \<and> sl_open (q_slots w ! g) \<and> \<not> (sl_killed (q_slots w ! g) \<and> we_stop e) \<and>
      sl_mailbox (q_slots w ! g) \<noteq> []")
    case False
    then have "q_trace ?w = q_trace w \<and> (alive h ?w \<longrightarrow> alive h w \<and> q_slots ?w ! h = q_slots w ! h)"
      by (auto simp: worker_turn_def Let_def drop_receiver_def handle_close_def alive_def slot_update_nth
          split: list.splits if_splits)
    then show ?thesis using t by (intro stream_slots [OF inv q]) auto
  next
    case True
    then obtain en rest where m: "sl_mailbox (q_slots w ! g) = en # rest" by (cases "sl_mailbox (q_slots w ! g)") auto
    define v where "v = upd_slot g (\<lambda>s. s\<lparr> sl_mailbox := rest \<rparr>) (w\<lparr> q_trace := q_trace w @ [Handled g en e] \<rparr>)"
    have e: "?w = handle_entry A C sweep e g (sl_id (q_slots w ! g)) en v" using True m by (auto simp: worker_turn_def v_def)
    have tr: "q_trace ?w = q_trace w @ [Handled g en e]" unfolding e by (simp add: handle_entry_trace v_def)
    have st: "handled h d (q_trace ?w) @ mail d (q_slots ?w ! h) @ flight h d (q_tasks ?w) @
        buf_of d (sl_bufs (q_slots ?w ! h)) = accepted h d (q_trace ?w)" if "alive h ?w" for d
    proof -
      have v: "alive h v" "sl_mailbox (q_slots ?w ! h) = sl_mailbox (q_slots v ! h)" "sl_bufs (q_slots ?w ! h) = sl_bufs (q_slots v ! h)"
        using handle_entry_slot [OF that [unfolded e]] by (simp_all add: e)
      have h: "h < length (q_slots w)" using v(1) by (simp add: alive_def v_def)
      have al: "alive h w" using v(1) h by (auto simp: alive_def v_def slot_update_nth split: if_splits)
      have "entry_bytes d en @ mail d (q_slots ?w ! h) = mail d (q_slots w ! h)" if "g = h"
        using v(2) m h that by (simp add: mail_def v_def)
      moreover have "mail d (q_slots ?w ! h) = mail d (q_slots w ! h)" if "g \<noteq> h"
        using v(2) h that by (simp add: mail_def v_def)
      moreover have "sl_bufs (q_slots ?w ! h) = sl_bufs (q_slots w ! h)"
        using v(3) h by (simp add: v_def slot_update_nth)
      moreover have "handled h d (q_trace ?w) = handled h d (q_trace w) @ (if g = h then entry_bytes d en else [])"
          "accepted h d (q_trace ?w) = accepted h d (q_trace w)"
        by (simp_all add: tr)
      ultimately show ?thesis
        using D(5) [OF al, of d] unfolding t(1) by (cases "g = h") (simp_all, metis append_assoc)
    qed
    then show ?thesis
      using q D(2-4) True unfolding stream_inv_def tr t by (auto simp: item_slot_def)
  qed
qed

lemma stream_step:
  assumes inv: "stream_inv h w" and calm: "calm c w"
  shows "stream_inv h (queue_step A C sweep c w)"
proof -
  have q: "wq_inv (queue_step A C sweep c w)" by (rule wq_inv_step [OF stream_invD(1) [OF inv]])
  show ?thesis
  proof (cases c)
    case (Enqueue rid en)
    have "idle h w \<or> g \<noteq> h" if "hget (q_workers w) rid = Some g" for g
      using calm Enqueue that by auto
    then show ?thesis
      using Enqueue q calm by (auto simp: enqueue_def intro!: stream_with_slot [OF inv])
  next
    case (EnqueueChunk rid k bs)
    then show ?thesis
      using q by (auto simp: enqueue_event_chunk_def intro!: stream_with_slot [OF inv] stream_start [OF inv])
  next
    case (EnqueueBlocking rid en)
    then show ?thesis
      using q calm by (auto simp: enqueue_blocking_def intro!: stream_with_slot [OF inv])
  qed (use inv calm in \<open>auto intro: stream_spawn stream_drop stream_run_qtask stream_worker simp del: calm.simps\<close>)
qed

lemma stream_run: "stream_inv h w \<Longrightarrow> calm_run A C sweep cs w \<Longrightarrow> stream_inv h (queue_run A C sweep cs w)"
  unfolding queue_run_def by (induction cs arbitrary: w) (auto intro: stream_step simp del: calm.simps)

lemma stream_new: "stream_inv h (queue_new rw)"
  using wq_inv_new [of rw] by (simp add: stream_inv_def queue_new_def alive_def)

text \<open>
  C27. The queue neither loses, nor duplicates, nor reorders: after any calm run, as long as a recording's
  worker is alive, the bytes of a direction that went to the registry, those waiting in the mailbox,
  those being sent and those still buffered are together exactly the accepted bytes, in order.
\<close>

theorem queue_keeps_stream:
  assumes "calm_run A C sweep cs (queue_new rw)" and "w = queue_run A C sweep cs (queue_new rw)" and "alive h w"
  shows "handled h d (q_trace w) @ mail d (q_slots w ! h) @ flight h d (q_tasks w) @ buf_of d (sl_bufs (q_slots w ! h)) =
    accepted h d (q_trace w)"
  using stream_run [OF stream_new assms(1), of h] assms(2,3) by (simp add: stream_inv_def)

section \<open>From the terminal to the player\<close>

definition call_of :: "trace_item \<Rightarrow> rec_call list" where
  "call_of x =
     (case x of
        Handled g entry e \<Rightarrow>
          (case entry of
             QHeader width height shell \<Rightarrow> [CallHeader width height shell (we_nonce e)]
           | QEvent k bs \<Rightarrow> [CallEvent (we_ck e) k bs (we_nonce e) (we_idx_nonce e)]
           | _ \<Rightarrow> [])
      | _ \<Rightarrow> [])"

definition calls_of :: "trace_item list \<Rightarrow> rec_call list" where
  "calls_of tr = concat (map call_of tr)"

definition payload :: "RecordDirection \<Rightarrow> rec_call \<Rightarrow> bytes" where
  "payload d c = (case c of CallEvent ck k bs nonce idx_nonce \<Rightarrow> if k = d then bs else [] | _ \<Rightarrow> [])"

text \<open>An entry of the first recording, written without an input or output error and without a rotation.\<close>

definition plain_item :: "trace_item \<Rightarrow> bool" where
  "plain_item x =
     (case x of
        Handled g entry e \<Rightarrow> g = 0 \<and> we_io e = io_good \<and> (case entry of QRotate _ \<Rightarrow> False | QClose \<Rightarrow> False | _ \<Rightarrow> True)
      | _ \<Rightarrow> True)"

definition rec_after :: "aead_lib \<Rightarrow> string \<Rightarrow> rec_call list \<Rightarrow> rec_world \<Rightarrow> rec_world" where
  "rec_after A rid cs rw = fold (\<lambda>c rw. snd (rec_do A rid c rw)) cs rw"

definition file_follows :: "aead_lib \<Rightarrow> string \<Rightarrow> rec_world \<Rightarrow> qworld \<Rightarrow> bool" where
  "file_follows A rid rw w \<longleftrightarrow> length (q_slots w) = 1 \<and> sl_id (q_slots w ! 0) = rid \<and>
     (alive 0 w \<longrightarrow> hget (q_workers w) rid = Some 0 \<and>
        ((\<forall>x \<in> set (q_trace w). plain_item x) \<longrightarrow> q_rec w = rec_after A rid (calls_of (q_trace w)) rw))"

lemma calls_of_snoc [simp]: "calls_of (tr @ [x]) = calls_of tr @ call_of x"
  by (simp add: calls_of_def)

lemma rec_after_snoc: "rec_after A rid (cs @ [c]) rw = snd (rec_do A rid c (rec_after A rid cs rw))"
  by (simp add: rec_after_def)

lemma record_all_after: "record_all A rid cs rw = Inr w \<Longrightarrow> rec_after A rid cs rw = w"
  by (induction A rid cs rw rule: record_all.induct) (auto simp: rec_after_def split: prod.splits sum.splits)

text \<open>Steps other than the worker's leave the registry alone and do not revive the slot.\<close>

lemma file_follows_same:
  assumes "file_follows A rid rw w" "length (q_slots w') = 1" "sl_id (q_slots w' ! 0) = sl_id (q_slots w ! 0)"
    "alive 0 w' \<Longrightarrow> alive 0 w \<and> hget (q_workers w') rid = hget (q_workers w) rid \<and> q_rec w' = q_rec w \<and>
      calls_of (q_trace w') = calls_of (q_trace w) \<and> set (q_trace w) \<subseteq> set (q_trace w')"
  shows "file_follows A rid rw w'"
  using assms unfolding file_follows_def by auto

lemma q_exec_slots:
  "length (q_slots (q_exec i a rest w)) = length (q_slots w)"
  "q_workers (q_exec i a rest w) = q_workers w" "q_rec (q_exec i a rest w) = q_rec w"
  "calls_of (q_trace (q_exec i a rest w)) = calls_of (q_trace w)" "set (q_trace w) \<subseteq> set (q_trace (q_exec i a rest w))"
  "0 < length (q_slots w) \<Longrightarrow> sl_id (q_slots (q_exec i a rest w) ! 0) = sl_id (q_slots w ! 0)"
  "alive 0 (q_exec i a rest w) \<Longrightarrow> alive 0 w"
  by (cases a; auto simp: Let_def spawn_deadline_flush_def call_of_def alive_def slot_update_nth split: if_splits)+

lemma handle_entry_rec:
  assumes "plain_item (Handled g entry e)"
  shows "q_rec (handle_entry A C sweep e g rid entry w) = rec_after A rid (call_of (Handled g entry e)) (q_rec w) \<and>
    q_workers (handle_entry A C sweep e g rid entry w) = q_workers w"
  using assms
  by (auto simp: plain_item_def handle_entry_def handle_header_def handle_event_def rec_after_def rec_do_def call_of_def
      resolve_blocking_result_def q_publish_def Let_def split: QueueEntry.splits prod.splits sum.splits option.splits)

lemma handle_entry_alive:
  assumes "alive g (handle_entry A C sweep e g rid entry w)"
  shows "q_workers (handle_entry A C sweep e g rid entry w) = q_workers w"
proof (cases entry)
  case QClose
  have "\<not> alive g (drop_receiver g v)" for v by (auto simp: drop_receiver_def alive_def)
  then show ?thesis using assms QClose by (simp add: handle_entry_def)
qed (auto simp: handle_entry_def handle_header_def handle_event_def handle_rotate_def resolve_blocking_result_def
       q_publish_def Let_def split: prod.splits sum.splits option.splits)

lemma ids_update [simp]: "sl_id s = sl_id (ss ! h) \<Longrightarrow> map sl_id (ss[h := s]) = map sl_id ss"
  by (metis list_update_id map_update)

lemma handle_entry_ids:
  "map sl_id (q_slots (handle_entry A C sweep e g rid entry w)) = map sl_id (q_slots w)"
  by (auto simp: handle_entry_def handle_header_def handle_event_def handle_rotate_def handle_close_def drop_receiver_def
      drop_worker_def kill_worker_def resolve_blocking_result_def q_publish_def Let_def
      split: QueueEntry.split prod.split sum.split option.split)

lemma file_follows_worker:
  assumes inv: "file_follows A rid rw w"
  shows "file_follows A rid rw (worker_turn A C sweep e g w)"
proof (cases "0 < length (q_slots w) \<and> g = 0 \<and> sl_open (q_slots w ! 0)")
  case False
  then have "length (q_slots w) \<le> g \<or> \<not> sl_open (q_slots w ! g)" using inv by (cases g) (auto simp: file_follows_def)
  then have "worker_turn A C sweep e g w = w" by (simp add: worker_turn_def)
  then show ?thesis using inv by simp
next
  case True
  let ?w = "worker_turn A C sweep e g w"
  have len: "length (q_slots w) = 1" and rid: "sl_id (q_slots w ! 0) = rid" using inv by (auto simp: file_follows_def)
  have snd: "has_sender 0 w" if "alive 0 w"
    using inv that by (force simp: file_follows_def has_sender_def hget_def dest: map_of_SomeD)
  have dead: "\<not> alive 0 (drop_receiver 0 v)" "length (q_slots (drop_receiver 0 v)) = length (q_slots v)"
      "q_slots v \<noteq> [] \<Longrightarrow> sl_id (q_slots (drop_receiver 0 v) ! 0) = sl_id (q_slots v ! 0)" for v
    by (cases "q_slots v"; simp add: drop_receiver_def alive_def)+
  show ?thesis
  proof (cases "sl_killed (q_slots w ! 0) \<and> we_stop e \<or> sl_mailbox (q_slots w ! 0) = []")
    case stop: True
    then have "?w = w \<or> ?w = drop_receiver 0 w \<or> ?w = drop_receiver 0 (handle_close sweep rid w)"
      using True rid by (auto simp: worker_turn_def Let_def)
    moreover have "file_follows A rid rw (drop_receiver 0 v)" if "q_slots v = q_slots w" for v
      using dead(1) [of v] dead(2) [of v] dead(3) [of v] len rid that by (simp add: file_follows_def) fastforce
    ultimately show ?thesis using inv by (auto simp: handle_close_def)
  next
    case False
    then obtain en rest where m: "sl_mailbox (q_slots w ! 0) = en # rest" by (cases "sl_mailbox (q_slots w ! 0)") auto
    define v where "v = upd_slot 0 (\<lambda>s. s\<lparr> sl_mailbox := rest \<rparr>) (w\<lparr> q_trace := q_trace w @ [Handled 0 en e] \<rparr>)"
    have e: "?w = handle_entry A C sweep e 0 rid en v"
      using True False m rid by (auto simp: worker_turn_def v_def)
    have v: "length (q_slots v) = 1" "sl_id (q_slots v ! 0) = rid" "alive 0 v = alive 0 w" "q_workers v = q_workers w"
        "q_rec v = q_rec w"
      using len rid by (simp_all add: v_def alive_def)
    have ids: "map sl_id (q_slots ?w) = [rid]"
      unfolding e handle_entry_ids using v(1,2) by (cases "q_slots v") auto
    have tr: "q_trace ?w = q_trace w @ [Handled 0 en e]" unfolding e by (simp add: handle_entry_trace v_def)
    have "hget (q_workers ?w) rid = Some 0 \<and>
        ((\<forall>x \<in> set (q_trace ?w). plain_item x) \<longrightarrow> q_rec ?w = rec_after A rid (calls_of (q_trace ?w)) rw)" if a: "alive 0 ?w"
    proof -
      have "alive 0 w" using handle_entry_slot [OF a [unfolded e]] v(3) by simp
      then have i: "hget (q_workers w) rid = Some 0"
          "(\<forall>x \<in> set (q_trace w). plain_item x) \<longrightarrow> q_rec w = rec_after A rid (calls_of (q_trace w)) rw"
        using inv by (auto simp: file_follows_def)
      have "q_workers ?w = q_workers w" unfolding e using handle_entry_alive [OF a [unfolded e]] v(4) by simp
      moreover have "q_rec ?w = rec_after A rid (call_of (Handled 0 en e)) (q_rec w)" if "plain_item (Handled 0 en e)"
        unfolding e using handle_entry_rec [OF that, of A C sweep rid v] v(5) by simp
      ultimately show ?thesis using i by (auto simp: tr rec_after_def)
    qed
    moreover have "length (q_slots ?w) = 1" "sl_id (q_slots ?w ! 0) = rid"
      using ids by (auto simp: map_eq_Cons_conv)
    ultimately show ?thesis by (simp add: file_follows_def)
  qed
qed

definition no_spawn :: "queue_call \<Rightarrow> bool" where
  "no_spawn c = (case c of Spawn _ \<Rightarrow> False | _ \<Rightarrow> True)"

lemma with_slot_fields [simp]:
  "q_workers (with_slot rid f w) = q_workers w" "q_slots (with_slot rid f w) = q_slots w"
  "q_rec (with_slot rid f w) = q_rec w" "q_trace (with_slot rid f w) = q_trace w"
  by (simp_all add: with_slot_def split: option.split)

lemma file_follows_drop:
  assumes inv: "file_follows A rid rw w"
  shows "file_follows A rid rw (drop_worker r w)"
proof -
  have s: "q_slots (drop_worker r w) = q_slots (kill_worker r w)" by (simp add: drop_worker_def)
  have len: "length (q_slots w) = 1" using inv by (simp add: file_follows_def)
  have "alive 0 w \<and> r \<noteq> rid" if "alive 0 (drop_worker r w)"
  proof -
    have a: "alive 0 (kill_worker r w)" using that by (simp add: alive_def s)
    have "hget (q_workers w) rid = Some 0" using kill_slot [OF a] inv by (simp add: file_follows_def)
    moreover have "\<not> alive 0 (kill_worker rid w)" if "hget (q_workers w) rid = Some 0"
      using that len by (simp add: kill_worker_def alive_def)
    ultimately show ?thesis using a kill_slot [OF a] by auto
  qed
  moreover have "sl_id (q_slots (drop_worker r w) ! 0) = sl_id (q_slots w ! 0)"
    using len by (auto simp: s kill_worker_def slot_update_nth split: option.split)
  ultimately show ?thesis
    using len by (intro file_follows_same [OF inv]) (auto simp: s kill_slots, auto simp: drop_worker_def kill_worker_def split: option.split)
qed

lemma file_follows_cong:
  "file_follows A rid rw (with_slot r f w) = file_follows A rid rw w"
  "file_follows A rid rw (start_call r acts res w) = file_follows A rid rw w"
  by (simp_all add: file_follows_def alive_def)

lemma file_follows_step:
  assumes inv: "file_follows A rid rw w" and c: "no_spawn c"
  shows "file_follows A rid rw (queue_step A C sweep c w)"
proof (cases c)
  case (RunTask i)
  have len: "length (q_slots w) = 1" using inv by (simp add: file_follows_def)
  have "run_qtask i w = w \<or> (\<exists>a rest. run_qtask i w = q_exec i a rest w)"
    by (auto simp: run_qtask_def split: list.split)
  moreover have "file_follows A rid rw (q_exec i a rest w)" for a rest
    by (rule file_follows_same [OF inv]) (use q_exec_slots [where i = i and a = a and rest = rest and w = w] len in auto)
  ultimately show ?thesis using RunTask inv by auto
next
  case (Work g e)
  then show ?thesis using file_follows_worker [OF inv] by simp
next
  case (DropWorker r)
  then show ?thesis using file_follows_drop [OF inv] by simp
qed (use c inv in \<open>auto simp: no_spawn_def enqueue_def enqueue_event_chunk_def enqueue_blocking_def file_follows_cong\<close>)

lemma file_follows_run:
  "file_follows A rid rw w \<Longrightarrow> \<forall>c \<in> set cs. no_spawn c \<Longrightarrow> file_follows A rid rw (queue_run A C sweep cs w)"
  unfolding queue_run_def by (induction cs arbitrary: w) (auto intro: file_follows_step)

lemma file_follows_spawn: "file_follows A rid rw (queue_spawn rid (queue_new rw))"
  by (simp add: file_follows_def queue_spawn_def queue_new_def kill_worker_def calls_of_def rec_after_def)

lemma payload_call_of: "plain_item x \<Longrightarrow> concat (map (payload d) (call_of x)) = handled 0 d [x]"
  by (auto simp: plain_item_def call_of_def payload_def handled_def entry_bytes_def
      split: trace_item.splits QueueEntry.splits)

lemma payload_handled:
  "\<forall>x \<in> set tr. plain_item x \<Longrightarrow> concat (map (payload d) (calls_of tr)) = handled 0 d tr"
proof (induction tr)
  case (Cons x tr)
  have "handled 0 d (x # tr) = handled 0 d [x] @ handled 0 d tr" by (simp add: handled_def)
  then show ?case using Cons payload_call_of [of x d] by (simp add: calls_of_def)
qed (simp add: calls_of_def handled_def)


section \<open>Instances\<close>

definition demo_env :: wenv where
  "demo_env = \<lparr> we_stop = False, we_io = io_good, we_rk = [], we_nonce = replicate 12 2, we_idx_nonce = replicate 12 3,
     we_ck = \<lparr> ck_text = ''1'', ck_ms = 1000 \<rparr> \<rparr>"

text \<open>Two chunks, the first flushed by its deadline and written, the second still buffered.\<close>

definition demo_steps :: "queue_call list" where
  "demo_steps =
     [EnqueueChunk ''r'' Output [0x6C], RunTask 0, EnqueueChunk ''r'' Output [0x73], RunTask 2,
      RunTask 1, RunTask 1, RunTask 1, Work 0 demo_env, EnqueueChunk ''r'' Output [0x0A], RunTask 3]"

theorem queue_keeps_stream_witness:
  "let w = queue_run aead_ref crypto_ref (\<lambda>_ _ fs. fs) (Spawn ''r'' # demo_steps) (queue_new rec_world_new)
   in handled 0 Output (q_trace w) @ mail Output (q_slots w ! 0) @ flight 0 Output (q_tasks w) @
      buf_of Output (sl_bufs (q_slots w ! 0)) = [0x6C, 0x73, 0x0A]"
proof -
  let ?w = "queue_run aead_ref crypto_ref (\<lambda>_ _ fs. fs) (Spawn ''r'' # demo_steps) (queue_new rec_world_new)"
  have "calm_run aead_ref crypto_ref (\<lambda>_ _ fs. fs) (Spawn ''r'' # demo_steps) (queue_new rec_world_new)" "alive 0 ?w"
      "accepted 0 Output (q_trace ?w) = [0x6C, 0x73, 0x0A]"
    by code_simp+
  with queue_keeps_stream [OF _ refl, of aead_ref crypto_ref "\<lambda>_ _ fs. fs" "Spawn ''r'' # demo_steps" rec_world_new 0 Output]
  show ?thesis by (simp only: Let_def)
qed

text \<open>A flush that has been sent, before the worker's turn; the registry does not matter so far.\<close>

definition demo_flush :: "queue_call list" where
  "demo_flush =
     [EnqueueChunk ''r'' Output [0x6C], RunTask 0, EnqueueChunk ''r'' Output [0x73], RunTask 2, RunTask 1, RunTask 1, RunTask 1]"

lemma calm_run_append:
  "calm_run A C sweep (cs @ ds) w = (calm_run A C sweep cs w \<and> calm_run A C sweep ds (queue_run A C sweep cs w))"
  by (induction cs arbitrary: w) (auto simp: queue_run_def simp del: calm.simps)

lemma handle_entry_keeps: "entry \<noteq> QClose \<Longrightarrow> alive h (handle_entry A C sweep e g rid entry w) = alive h w"
  by (auto simp: handle_entry_def handle_header_def handle_event_def handle_rotate_def alive_def slot_update_nth
      resolve_blocking_result_def q_publish_def Let_def
      split: QueueEntry.splits prod.splits sum.splits option.splits if_splits)

lemma demo_before:
  "calm_run aead_ctr crypto_ref (\<lambda>_ _ fs. fs) (Spawn ''r'' # demo_flush) (queue_new rw)"
  "q_trace (queue_run aead_ctr crypto_ref (\<lambda>_ _ fs. fs) (Spawn ''r'' # demo_flush) (queue_new rw)) =
     [Accepted 0 Output [0x6C], Accepted 0 Output [0x73]]"
  "q_slots (queue_run aead_ctr crypto_ref (\<lambda>_ _ fs. fs) (Spawn ''r'' # demo_flush) (queue_new rw)) =
     [\<lparr> sl_id = ''r'', sl_bufs = buffers_new, sl_mailbox = [QEvent Output [0x6C, 0x73]], sl_open = True, sl_killed = False,
        sl_rotate = False \<rparr>]"
  by code_simp+

lemma demo_event_ok: "session_ok aead_ctr (\<lambda>_ _ fs. fs) demo_key (replicate 12 0) 5 ''r.lfsr''
    [CallEvent (we_ck demo_env) Output [0x6C, 0x73] (replicate 12 2) (replicate 12 3)] rec_world_new"
proof -
  have "length (line_of 5 (CallEvent (we_ck demo_env) Output [0x6C, 0x73] (replicate 12 2) (replicate 12 3))) = 13"
    "ascii_text ''1''"
    by code_simp+
  then show ?thesis
    by (simp add: session_ok_def aead_ctr_ok sweep_ok_def rec_world_new_def NONCE_LEN_def call_ok_def demo_env_def room_for_def
        MAX_FRAME_PLAINTEXT_BYTES_def u64_max_def LFR_HEADER_LEN_def)
qed


end
