(* ===== verification/Storage_Cap.thy ===== *)
theory Storage_Cap
  imports Interfaces "HOL-Library.Product_Lexorder"
begin

text \<open>
  The size limit on kept recordings, \<open>recorder/storage_cap.rs\<close>: the walk over the recordings
  tree and the oldest-first eviction.  A directory listing is data: what \<open>read_dir\<close> and
  \<open>symlink_metadata\<close> return for the root, each session entry and each file; \<open>rm_ok\<close> says whether
  unlinking a path succeeds.  Sizes are natural numbers; the 32- and 64-bit counters of the outcome
  saturate as in the code.
\<close>

section \<open>Definitions\<close>

record dir_file =
  df_path :: string
  df_stat :: "(bool \<times> nat \<times> int option) option"

record dir_session =
  ds_is_dir :: "bool option"
  ds_files :: "dir_file list option"

datatype dir_root = RootMissing | RootError | RootListing "dir_session list"

record WalkedEntry =
  we_path :: string
  we_size_bytes :: nat
  we_mtime :: "int option"

record EvictionOutcome =
  files_evicted :: nat
  bytes_reclaimed :: nat
  used_after :: nat

definition walk_file :: "dir_file \<Rightarrow> WalkedEntry list" where
  "walk_file f =
     (case df_stat f of
        None \<Rightarrow> []
      | Some (is_file, len, mtime) \<Rightarrow>
          if \<not> is_file then [] else [\<lparr> we_path = df_path f, we_size_bytes = len, we_mtime = mtime \<rparr>])"

definition walk_session :: "dir_session \<Rightarrow> WalkedEntry list" where
  "walk_session s =
     (case ds_is_dir s of
        None \<Rightarrow> []
      | Some is_dir \<Rightarrow>
          if \<not> is_dir then []
          else (case ds_files s of None \<Rightarrow> [] | Some files \<Rightarrow> concat (map walk_file files)))"

definition collect_entries :: "dir_root \<Rightarrow> unit + WalkedEntry list" where
  "collect_entries root =
     (case root of
        RootMissing \<Rightarrow> Inr []
      | RootError \<Rightarrow> Inl ()
      | RootListing sessions \<Rightarrow> Inr (concat (map walk_session sessions)))"

definition total_size :: "WalkedEntry list \<Rightarrow> nat" where
  "total_size es = sum_list (map we_size_bytes es)"

definition storage_used :: "dir_root \<Rightarrow> unit + nat" where
  "storage_used root = (case collect_entries root of Inl e \<Rightarrow> Inl e | Inr es \<Rightarrow> Inr (total_size es))"

definition paths_equal :: "string \<Rightarrow> string \<Rightarrow> bool" where
  "paths_equal a b \<longleftrightarrow> a = b"

definition is_active :: "string list \<Rightarrow> WalkedEntry \<Rightarrow> bool" where
  "is_active active_paths e \<longleftrightarrow> list_ex (\<lambda>p. paths_equal p (we_path e)) active_paths"

text \<open>An unknown modification time sorts before every known one.\<close>

definition age_key :: "WalkedEntry \<Rightarrow> nat \<times> int" where
  "age_key e = (case we_mtime e of None \<Rightarrow> (0, 0) | Some t \<Rightarrow> (1, t))"

text \<open>The loop; the last component is the list of paths it unlinked, in order.\<close>

fun evict_loop ::
  "nat \<Rightarrow> string list \<Rightarrow> (string \<Rightarrow> bool) \<Rightarrow> WalkedEntry list \<Rightarrow> EvictionOutcome \<times> string list
     \<Rightarrow> EvictionOutcome \<times> string list" where
  "evict_loop cap active rm_ok [] st = st"
| "evict_loop cap active rm_ok (e # es) (out, gone) =
     (if used_after out \<le> cap then (out, gone)
      else if is_active active e then evict_loop cap active rm_ok es (out, gone)
      else if rm_ok (we_path e)
      then evict_loop cap active rm_ok es
             (\<lparr> files_evicted = min (files_evicted out + 1) (2 ^ 32 - 1),
                bytes_reclaimed = min (bytes_reclaimed out + we_size_bytes e) (2 ^ 64 - 1),
                used_after = used_after out - we_size_bytes e \<rparr>, gone @ [we_path e])
      else evict_loop cap active rm_ok es (out, gone))"

definition enforce_storage_cap ::
  "dir_root \<Rightarrow> nat \<Rightarrow> string list \<Rightarrow> (string \<Rightarrow> bool) \<Rightarrow> unit + EvictionOutcome \<times> string list" where
  "enforce_storage_cap root cap active rm_ok =
     (case collect_entries root of
        Inl e \<Rightarrow> Inl e
      | Inr entries \<Rightarrow>
          (let used = total_size entries;
               out = \<lparr> files_evicted = 0, bytes_reclaimed = 0, used_after = used \<rparr>
           in if used \<le> cap then Inr (out, [])
              else Inr (evict_loop cap active rm_ok (sort_key age_key entries) (out, []))))"

definition storage_clear_all :: "dir_root \<Rightarrow> string list \<Rightarrow> (string \<Rightarrow> bool) \<Rightarrow> unit + nat \<times> string list" where
  "storage_clear_all root active rm_ok =
     (case collect_entries root of
        Inl e \<Rightarrow> Inl e
      | Inr entries \<Rightarrow>
          Inr (fold (\<lambda>e (removed, gone).
                 if is_active active e then (removed, gone)
                 else if rm_ok (we_path e) then (min (removed + 1) (2 ^ 32 - 1), gone @ [we_path e])
                 else (removed, gone)) entries (0, [])))"

section \<open>The loop\<close>

text \<open>The files the loop may delete, oldest first.\<close>

definition candidates :: "string list \<Rightarrow> (string \<Rightarrow> bool) \<Rightarrow> WalkedEntry list \<Rightarrow> WalkedEntry list" where
  "candidates active rm_ok es = filter (\<lambda>e. \<not> is_active active e \<and> rm_ok (we_path e)) es"

lemma total_size_simps [simp]: "total_size [] = 0" "total_size (e # es) = we_size_bytes e + total_size es"
  by (simp_all add: total_size_def)

lemma evict_loop_spec:
  assumes "evict_loop cap active rm_ok es (out, gone) = (out', gone')"
  shows "\<exists>k. gone' = gone @ map we_path (take k (candidates active rm_ok es)) \<and>
    used_after out' = used_after out - total_size (take k (candidates active rm_ok es)) \<and>
    files_evicted out' \<le> files_evicted out + k \<and>
    bytes_reclaimed out' \<le> bytes_reclaimed out + total_size (take k (candidates active rm_ok es)) \<and>
    k \<le> length (candidates active rm_ok es) \<and>
    (\<forall>j < k. cap < used_after out - total_size (take j (candidates active rm_ok es))) \<and>
    (used_after out' \<le> cap \<or> k = length (candidates active rm_ok es))"
  using assms
proof (induction es arbitrary: out gone)
  case Nil
  then show ?case by (simp add: candidates_def)
next
  case (Cons e es)
  show ?case
  proof (cases "used_after out \<le> cap")
    case True
    then show ?thesis using Cons.prems by (intro exI [of _ 0]) simp
  next
    case over: False
    show ?thesis
    proof (cases "\<not> is_active active e \<and> rm_ok (we_path e)")
      case False
      then have "candidates active rm_ok (e # es) = candidates active rm_ok es"
          "evict_loop cap active rm_ok es (out, gone) = (out', gone')"
        using Cons.prems over by (auto simp: candidates_def split: if_splits)
      then show ?thesis using Cons.IH by simp
    next
      case True
      let ?out = "\<lparr> files_evicted = min (files_evicted out + 1) (2 ^ 32 - 1),
          bytes_reclaimed = min (bytes_reclaimed out + we_size_bytes e) (2 ^ 64 - 1),
          used_after = used_after out - we_size_bytes e \<rparr>"
      have c: "candidates active rm_ok (e # es) = e # candidates active rm_ok es"
        using True by (simp add: candidates_def)
      have "evict_loop cap active rm_ok es (?out, gone @ [we_path e]) = (out', gone')"
        using Cons.prems True over by simp
      from Cons.IH [OF this] obtain k where k:
          "gone' = (gone @ [we_path e]) @ map we_path (take k (candidates active rm_ok es))"
          "used_after out' = used_after ?out - total_size (take k (candidates active rm_ok es))"
          "files_evicted out' \<le> files_evicted ?out + k"
          "bytes_reclaimed out' \<le> bytes_reclaimed ?out + total_size (take k (candidates active rm_ok es))"
          "k \<le> length (candidates active rm_ok es)"
          "\<forall>j < k. cap < used_after ?out - total_size (take j (candidates active rm_ok es))"
          "used_after out' \<le> cap \<or> k = length (candidates active rm_ok es)"
        by blast
      have "cap < used_after out - total_size (take j (e # candidates active rm_ok es))" if "j < Suc k" for j
        using that over k(6) by (cases j) auto
      with k c show ?thesis by (intro exI [of _ "Suc k"]) auto
    qed
  qed
qed

section \<open>Properties\<close>

text \<open>
  Eviction removes just enough, oldest first, and never a live recording: the unlinked files are
  the first few of the inactive deletable files in order of modification time; after one fewer the
  total was still over the limit; and the sweep ends at or below the limit unless every such file
  is gone.  The reported remaining size is the total minus the sizes of the unlinked files.
\<close>

theorem eviction_minimal:
  assumes "collect_entries root = Inr entries"
    and "enforce_storage_cap root cap active rm_ok = Inr (out, gone)"
    and "cand = candidates active rm_ok (sort_key age_key entries)"
  shows "\<exists>k \<le> length cand. gone = map we_path (take k cand) \<and>
    used_after out = total_size entries - total_size (take k cand) \<and>
    (\<forall>j < k. cap < total_size entries - total_size (take j cand)) \<and>
    (used_after out \<le> cap \<or> k = length cand) \<and>
    set gone \<inter> set active = {}"
proof -
  let ?out = "\<lparr> files_evicted = 0, bytes_reclaimed = 0, used_after = total_size entries \<rparr>"
  have inactive: "set (map we_path (take k cand)) \<inter> set active = {}" for k
    using assms(3) by (auto simp: candidates_def is_active_def paths_equal_def list_ex_iff dest: in_set_takeD)
  show ?thesis
  proof (cases "total_size entries \<le> cap")
    case True
    then have "out = ?out" "gone = []"
      using assms(1,2) by (auto simp: enforce_storage_cap_def Let_def)
    with True show ?thesis by (intro exI [of _ 0]) simp
  next
    case False
    then have "evict_loop cap active rm_ok (sort_key age_key entries) (?out, []) = (out, gone)"
      using assms(1,2) by (simp add: enforce_storage_cap_def Let_def)
    from evict_loop_spec [OF this] obtain k where
        "k \<le> length cand" "gone = map we_path (take k cand)"
        "used_after out = total_size entries - total_size (take k cand)"
        "\<forall>j < k. cap < total_size entries - total_size (take j cand)"
        "used_after out \<le> cap \<or> k = length cand"
      using assms(3) by auto
    with inactive [of k] show ?thesis by auto
  qed
qed

theorem eviction_minimal_witness:
  "let f = (\<lambda>p m. \<lparr> df_path = p, df_stat = Some (True, 10, m) \<rparr>);
       root = RootListing [\<lparr> ds_is_dir = Some True, ds_files = Some [f ''new'' (Some 9), f ''old'' (Some 1), f ''live'' None] \<rparr>]
   in case enforce_storage_cap root 20 [''live''] (\<lambda>p. True) of
        Inr (out, gone) \<Rightarrow> set gone \<inter> {''live''} = {} | Inl e \<Rightarrow> False"
proof -
  let ?f = "\<lambda>p m. \<lparr> df_path = p, df_stat = Some (True, 10, m) \<rparr>"
  let ?root = "RootListing [\<lparr> ds_is_dir = Some True, ds_files = Some [?f ''new'' (Some 9), ?f ''old'' (Some 1), ?f ''live'' None] \<rparr>]"
  let ?es = "concat (map walk_session [\<lparr> ds_is_dir = Some True, ds_files = Some [?f ''new'' (Some 9), ?f ''old'' (Some 1), ?f ''live'' None] \<rparr>])"
  have c: "collect_entries ?root = Inr ?es" by (simp only: collect_entries_def dir_root.case)
  obtain out gone where e: "enforce_storage_cap ?root 20 [''live''] (\<lambda>p. True) = Inr (out, gone)"
    using c by (auto simp: enforce_storage_cap_def Let_def) (metis surj_pair)
  from eviction_minimal [OF c e refl] have "set gone \<inter> {''live''} = {}" by auto
  with e show ?thesis by (simp only: Let_def sum.case prod.case)
qed

end
