(* ===== verification/Transfer_Conflict.thy ===== *)
theory Transfer_Conflict
  imports Interfaces
begin

text \<open>
  The per-batch conflict state of \<open>transfer_conflict.rs\<close> and its registry: what a user's answer
  to a name clash means for the rest of the batch.
\<close>

section \<open>Definitions\<close>

datatype ConflictAction = Skip | KeepBoth | Replace | Cancel

record ConflictDecision =
  dec_action :: ConflictAction
  dec_apply_to_all :: bool

record BatchState =
  bs_cached :: "ConflictAction option"
  bs_cancelled :: bool

definition batch_default :: BatchState where
  "batch_default = \<lparr> bs_cached = None, bs_cancelled = False \<rparr>"

definition batch_reset :: "BatchState \<Rightarrow> BatchState" where
  "batch_reset s = s\<lparr> bs_cached := None, bs_cancelled := False \<rparr>"

definition record_decision :: "ConflictDecision \<Rightarrow> BatchState \<Rightarrow> ConflictAction \<times> BatchState" where
  "record_decision d s =
     (if bs_cancelled s then (Cancel, s)
      else (dec_action d,
            if dec_action d = Cancel then s\<lparr> bs_cancelled := True \<rparr>
            else if dec_apply_to_all d then s\<lparr> bs_cached := Some (dec_action d) \<rparr>
            else s))"

type_synonym batches = "(string, BatchState) hmap"

definition batch_create :: "string \<Rightarrow> batches \<Rightarrow> batches" where
  "batch_create handle g = hput handle batch_default g"

definition batch_drop :: "string \<Rightarrow> batches \<Rightarrow> batches" where
  "batch_drop handle g = hdel handle g"

definition batch_cached :: "string \<Rightarrow> batches \<Rightarrow> ConflictAction option" where
  "batch_cached handle g = Option.bind (hget g handle) bs_cached"

definition batch_is_cancelled :: "string \<Rightarrow> batches \<Rightarrow> bool" where
  "batch_is_cancelled handle g = (case hget g handle of Some s \<Rightarrow> bs_cancelled s | None \<Rightarrow> False)"

definition batch_record_decision :: "string \<Rightarrow> ConflictDecision \<Rightarrow> batches \<Rightarrow> ConflictAction \<times> batches" where
  "batch_record_decision handle d g =
     (let s = (case hget g handle of Some s \<Rightarrow> s | None \<Rightarrow> batch_default);
          (a, s') = record_decision d s
      in (a, hput handle s' g))"

section \<open>Lemmas\<close>

interpretation batches: entry_registry hget "\<lambda>k d g. snd (batch_record_decision k d g)"
    "\<lambda>d s. snd (record_decision d s)" batch_default
  by unfold_locales (simp add: batch_record_decision_def split_beta Let_def)

lemma cancelled_stays: "bs_cancelled s \<Longrightarrow> fold (\<lambda>d s. snd (record_decision d s)) ds s = s"
  by (induction ds) (simp_all add: record_decision_def)

lemma decisions_cancelled:
  "bs_cancelled (fold (\<lambda>d s. snd (record_decision d s)) ds s) \<longleftrightarrow>
     bs_cancelled s \<or> (\<exists>d \<in> set ds. dec_action d = Cancel)"
proof (induction ds arbitrary: s)
  case (Cons d ds)
  have "bs_cancelled (snd (record_decision d s)) \<longleftrightarrow> bs_cancelled s \<or> dec_action d = Cancel"
    by (simp add: record_decision_def)
  with Cons show ?case by auto
qed simp

text \<open>The last non-cancel answer that was to apply to all.\<close>

lemma decisions_cached:
  "\<not> (\<exists>d \<in> set ds. dec_action d = Cancel) \<Longrightarrow> \<not> bs_cancelled s \<Longrightarrow>
     bs_cached (fold (\<lambda>d s. snd (record_decision d s)) ds s) =
       (case filter dec_apply_to_all ds of [] \<Rightarrow> bs_cached s | xs \<Rightarrow> Some (dec_action (last xs)))"
proof (induction ds arbitrary: s)
  case (Cons d ds)
  then show ?case by (auto simp: record_decision_def split: list.splits)
qed simp

section \<open>Properties\<close>

text \<open>
  Cancelling a batch is final for it and for it alone: through any interleaving of decisions on
  all batches, the next decision of a batch answers \<open>Cancel\<close> once one of the batch's own earlier
  decisions was a cancel, and answers with the user's own choice otherwise; its cached answer is then
  the last one given with \<open>apply to all\<close>.
\<close>

theorem batch_decisions:
  assumes "own = map snd (filter (\<lambda>p. fst p = handle) decisions)"
    and "g = fold (\<lambda>(k, d) g. snd (batch_record_decision k d g)) decisions hempty"
  shows "fst (batch_record_decision handle d g) =
      (if \<exists>o' \<in> set own. dec_action o' = Cancel then Cancel else dec_action d) \<and>
    (batch_is_cancelled handle g \<longleftrightarrow> (\<exists>o' \<in> set own. dec_action o' = Cancel)) \<and>
    ((\<exists>o' \<in> set own. dec_action o' = Cancel) \<or>
     batch_cached handle g = (case filter dec_apply_to_all own of [] \<Rightarrow> None | xs \<Rightarrow> Some (dec_action (last xs))))"
proof (cases "handle \<in> fst ` set decisions")
  case True
  have look: "hget g handle = Some (fold (\<lambda>d s. snd (record_decision d s)) own batch_default)"
    using batches.look_run [OF True, of hempty] assms by simp
  have c: "bs_cancelled (fold (\<lambda>d s. snd (record_decision d s)) own batch_default) \<longleftrightarrow>
      (\<exists>o' \<in> set own. dec_action o' = Cancel)"
    using decisions_cancelled [of own batch_default] by (simp add: batch_default_def)
  show ?thesis
    using look c decisions_cached [of own batch_default]
    by (auto simp: batch_record_decision_def split_beta Let_def record_decision_def batch_is_cancelled_def
        batch_cached_def batch_default_def split: list.splits)
next
  case False
  then have "own = []" using assms(1) by (auto simp: filter_empty_conv)
  moreover have "hget g handle = None" using batches.look_run_absent [OF False, of hempty] assms(2) by simp
  ultimately show ?thesis
    by (simp add: batch_record_decision_def Let_def record_decision_def batch_is_cancelled_def
        batch_cached_def batch_default_def)
qed

theorem batch_decisions_witness:
  "let g = fold (\<lambda>(k, d) g. snd (batch_record_decision k d g))
       [(''a'', \<lparr> dec_action = Replace, dec_apply_to_all = True \<rparr>), (''b'', \<lparr> dec_action = Cancel, dec_apply_to_all = False \<rparr>)] hempty
   in fst (batch_record_decision ''a'' \<lparr> dec_action = Skip, dec_apply_to_all = False \<rparr> g) = Skip"
  using batch_decisions [OF refl refl, where handle = "''a''" and decisions =
      "[(''a'', \<lparr> dec_action = Replace, dec_apply_to_all = True \<rparr>), (''b'', \<lparr> dec_action = Cancel, dec_apply_to_all = False \<rparr>)]"
      and d = "\<lparr> dec_action = Skip, dec_apply_to_all = False \<rparr>"]
  by simp

end
