(* ===== verification/Transfer_Queue.thy ===== *)
theory Transfer_Queue
  imports Interfaces External
begin

text \<open>
  The transfer queue of \<open>transfer/mod.rs\<close>: the table of tasks, their order of insertion and the
  events each call publishes.  The event bus is the list of the events published so far; the calls
  are atomic (the code changes the table under its lock and publishes right after).  Times are in
  nanoseconds of the monotonic clock.
\<close>

section \<open>Definitions\<close>

definition DEFAULT_TRANSFER_WORKERS :: int where
  "DEFAULT_TRANSFER_WORKERS = 4"

definition MAX_TRANSFER_WORKERS :: int where
  "MAX_TRANSFER_WORKERS = 10"

definition worker_count_from_json :: "json_lib \<Rightarrow> string option \<Rightarrow> nat" where
  "worker_count_from_json J json =
     (let raw = (case Option.bind (Option.bind (Option.bind json (json_parse J)) as_object)
                        (field as_i64 ''transfer_workers'') of
                   Some n \<Rightarrow> n | None \<Rightarrow> DEFAULT_TRANSFER_WORKERS)
      in nat (max 1 (min MAX_TRANSFER_WORKERS raw)))"

definition PROGRESS_BYTES_THRESHOLD :: nat where
  "PROGRESS_BYTES_THRESHOLD = 256 * 1024"

definition PROGRESS_TIME_THRESHOLD :: nat where
  "PROGRESS_TIME_THRESHOLD = 100 * 1000000"

datatype TaskState = Queued | Running | Completed | Failed | Cancelled

datatype TaskKind = Download | Upload

record TaskSnapshot =
  task_id :: string
  kind :: TaskKind
  session_id :: string
  remote_path :: string
  local_path :: string
  state :: TaskState
  bytes_done :: nat
  bytes_total :: nat
  task_error :: "string option"

record TaskActor = TaskSnapshot +
  progress_published_bytes :: nat
  progress_published_at :: "nat option"

definition actor_snapshot :: "TaskActor \<Rightarrow> TaskSnapshot" where
  "actor_snapshot a = TaskSnapshot.truncate a"

record EnqueueRequest =
  req_id :: string
  req_kind :: TaskKind
  req_session_id :: string
  req_remote_path :: string
  req_local_path :: string
  req_bytes_total :: nat

datatype Event =
    TransferTaskAdded string
  | TransferTaskState string TaskState
  | TransferTaskProgress string nat nat
  | TransferTaskError string string

record QueueInner =
  by_id :: "(string, TaskActor) hmap"
  order :: "string list"
  bus :: "Event list"

definition queue_new :: QueueInner where
  "queue_new = \<lparr> by_id = hempty, order = [], bus = [] \<rparr>"

definition publish :: "Event list \<Rightarrow> QueueInner \<Rightarrow> QueueInner" where
  "publish es q = q\<lparr> bus := bus q @ es \<rparr>"

definition is_terminal :: "TaskState \<Rightarrow> bool" where
  "is_terminal st = (case st of Completed \<Rightarrow> True | Failed \<Rightarrow> True | Cancelled \<Rightarrow> True | _ \<Rightarrow> False)"

definition enqueue :: "EnqueueRequest \<Rightarrow> QueueInner \<Rightarrow> TaskSnapshot \<times> QueueInner" where
  "enqueue req q =
     (let actor = \<lparr> task_id = req_id req, kind = req_kind req, session_id = req_session_id req,
                    remote_path = req_remote_path req, local_path = req_local_path req,
                    state = Queued, bytes_done = 0, bytes_total = req_bytes_total req,
                    task_error = None, progress_published_bytes = 0, progress_published_at = None \<rparr>;
          q1 = (if hget (by_id q) (req_id req) = None then q\<lparr> order := order q @ [req_id req] \<rparr> else q);
          q2 = q1\<lparr> by_id := hput (req_id req) actor (by_id q1) \<rparr>
      in (actor_snapshot actor, publish [TransferTaskAdded (req_id req)] q2))"

definition set_state :: "string \<Rightarrow> TaskState \<Rightarrow> QueueInner \<Rightarrow> QueueInner" where
  "set_state i st q =
     (case hget (by_id q) i of
        None \<Rightarrow> q
      | Some a \<Rightarrow>
          if state a = st then q
          else publish [TransferTaskState i st] (q\<lparr> by_id := hput i (a\<lparr> state := st \<rparr>) (by_id q) \<rparr>))"

definition should_publish :: "nat \<Rightarrow> nat \<Rightarrow> TaskActor \<Rightarrow> bool" where
  "should_publish done now a =
     (case progress_published_at a of
        None \<Rightarrow> True
      | Some prev_at \<Rightarrow>
          (bytes_total a > 0 \<and> done \<ge> bytes_total a) \<or>
          done - progress_published_bytes a \<ge> PROGRESS_BYTES_THRESHOLD \<or>
          now - prev_at \<ge> PROGRESS_TIME_THRESHOLD)"

definition set_progress :: "string \<Rightarrow> nat \<Rightarrow> nat \<Rightarrow> QueueInner \<Rightarrow> QueueInner" where
  "set_progress i done now q =
     (case hget (by_id q) i of
        None \<Rightarrow> q
      | Some a \<Rightarrow>
          let a1 = a\<lparr> bytes_done := done \<rparr>
          in if should_publish done now a
             then publish [TransferTaskProgress i done (bytes_total a)]
                    (q\<lparr> by_id := hput i (a1\<lparr> progress_published_bytes := done,
                                             progress_published_at := Some now \<rparr>) (by_id q) \<rparr>)
             else q\<lparr> by_id := hput i a1 (by_id q) \<rparr>)"

definition cancel :: "string \<Rightarrow> QueueInner \<Rightarrow> bool \<times> QueueInner" where
  "cancel i q =
     (case hget (by_id q) i of
        None \<Rightarrow> (False, q)
      | Some a \<Rightarrow>
          if is_terminal (state a) then (False, q)
          else (True, publish [TransferTaskState i Cancelled]
                        (q\<lparr> by_id := hput i (a\<lparr> state := Cancelled \<rparr>) (by_id q) \<rparr>)))"

definition drop_terminal :: "string \<Rightarrow> QueueInner \<Rightarrow> bool \<times> QueueInner" where
  "drop_terminal i q =
     (case hget (by_id q) i of
        None \<Rightarrow> (False, q)
      | Some a \<Rightarrow>
          if \<not> is_terminal (state a) then (False, q)
          else (True, q\<lparr> by_id := hdel i (by_id q), order := filter (\<lambda>x. x \<noteq> i) (order q) \<rparr>))"

definition fail :: "string \<Rightarrow> string \<Rightarrow> QueueInner \<Rightarrow> QueueInner" where
  "fail i message q =
     (case hget (by_id q) i of
        None \<Rightarrow> q
      | Some a \<Rightarrow>
          publish [TransferTaskState i Failed, TransferTaskError i message]
            (q\<lparr> by_id := hput i (a\<lparr> state := Failed, task_error := Some message \<rparr>) (by_id q) \<rparr>))"

definition snapshot :: "string \<Rightarrow> QueueInner \<Rightarrow> TaskSnapshot option" where
  "snapshot i q = map_option actor_snapshot (hget (by_id q) i)"

definition snapshot_all :: "QueueInner \<Rightarrow> TaskSnapshot list" where
  "snapshot_all q = List.map_filter (\<lambda>i. map_option actor_snapshot (hget (by_id q) i)) (order q)"

definition count :: "QueueInner \<Rightarrow> nat" where
  "count q = length (by_id q)"

text \<open>The calls that change the queue, in any order.\<close>

datatype call =
    Enqueue EnqueueRequest
  | SetState string TaskState
  | SetProgress string nat nat
  | CancelTask string
  | DropTerminal string
  | FailTask string string

fun exec :: "call \<Rightarrow> QueueInner \<Rightarrow> QueueInner" where
  "exec (Enqueue r) q = snd (enqueue r q)"
| "exec (SetState i st) q = set_state i st q"
| "exec (SetProgress i d t) q = set_progress i d t q"
| "exec (CancelTask i) q = snd (cancel i q)"
| "exec (DropTerminal i) q = snd (drop_terminal i q)"
| "exec (FailTask i m) q = fail i m q"

section \<open>Lemmas\<close>

text \<open>The state of a task as a listener of the bus knows it.\<close>

fun seen :: "string \<Rightarrow> Event \<Rightarrow> TaskState option \<Rightarrow> TaskState option" where
  "seen i (TransferTaskAdded j) v = (if j = i then Some Queued else v)"
| "seen i (TransferTaskState j st) v = (if j = i then Some st else v)"
| "seen i (TransferTaskProgress j d t) v = v"
| "seen i (TransferTaskError j m) v = v"

definition listener :: "Event list \<Rightarrow> string \<Rightarrow> TaskState option" where
  "listener es i = fold (seen i) es None"

definition queue_inv :: "QueueInner \<Rightarrow> bool" where
  "queue_inv q \<longleftrightarrow>
     hinv (by_id q) \<and> distinct (order q) \<and>
     (\<forall>i. i \<in> set (order q) \<longleftrightarrow> hget (by_id q) i \<noteq> None) \<and>
     (\<forall>i a. hget (by_id q) i = Some a \<longrightarrow> task_id a = i \<and> listener (bus q) i = Some (state a))"

lemmas queue_ops = enqueue_def set_state_def set_progress_def cancel_def drop_terminal_def fail_def
  publish_def Let_def

lemma listener_append [simp]: "listener (es @ fs) i = fold (seen i) fs (listener es i)"
  by (simp add: listener_def)

lemma queue_inv_new [simp]: "queue_inv queue_new"
  by (simp add: queue_inv_def queue_new_def)

lemma queue_inv_enqueue: "queue_inv q \<Longrightarrow> queue_inv (snd (enqueue r q))"
  by (auto simp: queue_inv_def queue_ops)

lemma queue_inv_set_state: "queue_inv q \<Longrightarrow> queue_inv (set_state i st q)"
  by (auto simp: queue_inv_def queue_ops split: option.splits)

lemma queue_inv_set_progress: "queue_inv q \<Longrightarrow> queue_inv (set_progress i d t q)"
  by (auto simp: queue_inv_def queue_ops split: option.splits)

lemma queue_inv_cancel: "queue_inv q \<Longrightarrow> queue_inv (snd (cancel i q))"
  by (auto simp: queue_inv_def queue_ops split: option.splits)

lemma queue_inv_drop: "queue_inv q \<Longrightarrow> queue_inv (snd (drop_terminal i q))"
  by (auto simp: queue_inv_def queue_ops split: option.splits)

lemma queue_inv_fail: "queue_inv q \<Longrightarrow> queue_inv (fail i m q)"
  by (auto simp: queue_inv_def queue_ops split: option.splits)

lemmas queue_inv_ops = queue_inv_enqueue queue_inv_set_state queue_inv_set_progress queue_inv_cancel
  queue_inv_drop queue_inv_fail

interpretation transfer_calls: step_invariant exec queue_inv
proof
  fix q e
  assume "queue_inv q"
  then show "queue_inv (exec e q)" by (cases e) (simp_all add: queue_inv_ops)
qed

lemma hinv_length: "hinv m \<Longrightarrow> distinct xs \<Longrightarrow> (\<And>k. k \<in> set xs \<longleftrightarrow> hget m k \<noteq> None) \<Longrightarrow> length m = length xs"
proof -
  assume "hinv m" "distinct xs" "\<And>k. k \<in> set xs \<longleftrightarrow> hget m k \<noteq> None"
  then have "set (hkeys m) = set xs" "distinct (hkeys m)" by (auto simp: hinv_def)
  with \<open>distinct xs\<close> have "length (hkeys m) = length xs" by (metis distinct_card)
  then show ?thesis by (simp add: hkeys_def)
qed

lemma snapshot_all_ids:
  assumes "\<And>i. i \<in> set is \<Longrightarrow> \<exists>a. hget m i = Some a \<and> task_id a = i"
  shows "map task_id (List.map_filter (\<lambda>i. map_option actor_snapshot (hget m i)) is) = is"
  using assms
proof (induction "is")
  case (Cons i js)
  obtain a where "hget m i = Some a" "task_id a = i" using Cons.prems by force
  with Cons show ?case by (simp add: List.map_filter_simps actor_snapshot_def TaskSnapshot.truncate_def)
qed (simp add: List.map_filter_simps)

lemma set_map_filter: "set (List.map_filter f xs) = {y. \<exists>x \<in> set xs. f x = Some y}"
  by (induction xs) (auto simp: List.map_filter_simps split: option.splits)

lemma sorted_last: "sorted (map f xs) \<Longrightarrow> x \<in> set xs \<Longrightarrow> f x \<le> f (last xs)"
  by (induction xs) auto

text \<open>The events about the progress of one task, and the budget that pays for them.\<close>

definition progress_events :: "string \<Rightarrow> Event list \<Rightarrow> nat" where
  "progress_events i es = length (filter (\<lambda>e. \<exists>d t. e = TransferTaskProgress i d t) es)"

lemma progress_events_append [simp]: "progress_events i (es @ fs) = progress_events i es + progress_events i fs"
  by (simp add: progress_events_def)

lemma progress_events_simps [simp]:
  "progress_events i [TransferTaskProgress i d t] = 1" "progress_events i [] = 0"
  by (simp_all add: progress_events_def)

definition paid :: "nat \<Rightarrow> nat \<Rightarrow> nat \<Rightarrow> nat" where
  "paid t0 b t = b div PROGRESS_BYTES_THRESHOLD + (t - t0) div PROGRESS_TIME_THRESHOLD"

lemma paid_mono: "b \<le> b' \<Longrightarrow> t \<le> t' \<Longrightarrow> paid t0 b t \<le> paid t0 b' t'"
  unfolding paid_def by (intro add_mono div_le_mono diff_le_mono)

lemma paid_step:
  assumes "b \<le> b'" "t \<le> t'" "t0 \<le> t"
    and "b' - b \<ge> PROGRESS_BYTES_THRESHOLD \<or> t' - t \<ge> PROGRESS_TIME_THRESHOLD"
  shows "Suc (paid t0 b t) \<le> paid t0 b' t'"
  using assms(4)
proof
  assume "b' - b \<ge> PROGRESS_BYTES_THRESHOLD"
  then have "(b + PROGRESS_BYTES_THRESHOLD) div PROGRESS_BYTES_THRESHOLD \<le> b' div PROGRESS_BYTES_THRESHOLD"
    by (intro div_le_mono) (use \<open>b \<le> b'\<close> in linarith)
  moreover have "(t - t0) div PROGRESS_TIME_THRESHOLD \<le> (t' - t0) div PROGRESS_TIME_THRESHOLD"
    using assms(2) by (intro div_le_mono diff_le_mono)
  ultimately show ?thesis by (simp add: paid_def PROGRESS_BYTES_THRESHOLD_def)
next
  assume "t' - t \<ge> PROGRESS_TIME_THRESHOLD"
  then have "((t - t0) + PROGRESS_TIME_THRESHOLD) div PROGRESS_TIME_THRESHOLD \<le> (t' - t0) div PROGRESS_TIME_THRESHOLD"
    by (intro div_le_mono) (use assms(2,3) in linarith)
  moreover have "b div PROGRESS_BYTES_THRESHOLD \<le> b' div PROGRESS_BYTES_THRESHOLD"
    using assms(1) by (rule div_le_mono)
  ultimately show ?thesis by (simp add: paid_def PROGRESS_TIME_THRESHOLD_def)
qed

lemma set_progress_published:
  assumes "hget (by_id q) i = Some a" "progress_published_at a = Some t" "progress_published_bytes a = b"
    and "t0 \<le> t" "b \<le> d" "t \<le> t'" "bytes_total a = 0 \<or> d < bytes_total a"
  shows "\<exists>a' b' u. hget (by_id (set_progress i d t' q)) i = Some a' \<and> progress_published_at a' = Some u \<and>
    progress_published_bytes a' = b' \<and> bytes_total a' = bytes_total a \<and> t0 \<le> u \<and> b' \<le> d \<and> u \<le> t' \<and>
    progress_events i (bus (set_progress i d t' q)) + paid t0 b t \<le> progress_events i (bus q) + paid t0 b' u"
proof (cases "should_publish d t' a")
  case True
  then have "d - b \<ge> PROGRESS_BYTES_THRESHOLD \<or> t' - t \<ge> PROGRESS_TIME_THRESHOLD"
    using assms by (auto simp: should_publish_def)
  then have "Suc (paid t0 b t) \<le> paid t0 d t'" using assms by (intro paid_step) auto
  with True assms show ?thesis by (simp add: queue_ops)
next
  case False
  with assms show ?thesis by (simp add: queue_ops)
qed

lemma progress_budget:
  assumes "hget (by_id q) i = Some a" "progress_published_at a = Some t" "progress_published_bytes a = b"
    and "t0 \<le> t" "b \<le> bm" "t \<le> tm"
    and "sorted (map fst cs)" "sorted (map snd cs)"
    and "\<forall>(d, u) \<in> set cs. b \<le> d \<and> t \<le> u \<and> d \<le> bm \<and> u \<le> tm \<and> (bytes_total a = 0 \<or> d < bytes_total a)"
  shows "progress_events i (bus (fold (\<lambda>(d, u). set_progress i d u) cs q)) + paid t0 b t
      \<le> progress_events i (bus q) + paid t0 bm tm"
  using assms
proof (induction cs arbitrary: q a b t)
  case Nil
  then show ?case using paid_mono [of b bm t tm t0] by simp
next
  case (Cons c cs)
  obtain d u where c: "c = (d, u)" by (cases c)
  have du: "b \<le> d" "t \<le> u" "d \<le> bm" "u \<le> tm" "bytes_total a = 0 \<or> d < bytes_total a"
    using Cons.prems(9) by (auto simp: c)
  define q1 where "q1 = set_progress i d u q"
  obtain a' b' t' where a': "hget (by_id q1) i = Some a'" "progress_published_at a' = Some t'"
      "progress_published_bytes a' = b'" "bytes_total a' = bytes_total a" "t0 \<le> t'" "b' \<le> d" "t' \<le> u"
    and le: "progress_events i (bus q1) + paid t0 b t \<le> progress_events i (bus q) + paid t0 b' t'"
    using set_progress_published [OF Cons.prems(1-4) du(1,2,5)] unfolding q1_def by blast
  have all: "\<forall>(d', u') \<in> set cs. b' \<le> d' \<and> t' \<le> u' \<and> d' \<le> bm \<and> u' \<le> tm \<and> (bytes_total a' = 0 \<or> d' < bytes_total a')"
    using Cons.prems(7-9) a' by (fastforce simp: c)
  have "progress_events i (bus (fold (\<lambda>(d, u). set_progress i d u) cs q1)) + paid t0 b' t'
      \<le> progress_events i (bus q1) + paid t0 bm tm"
    using Cons.prems(7,8) a' du all by (intro Cons.IH [of q1 a' t' b']) auto
  with le show ?case by (simp add: c q1_def)
qed

section \<open>Properties\<close>


text \<open>
  Progress events are throttled: while a task is unfinished, reports with growing byte counts
  and times publish at most one event at the start, one per 256 KiB and one per 100 ms, however many
  reports there are; every report still updates the stored count.
\<close>

theorem progress_throttled:
  assumes "hget (by_id q) i = Some a" "progress_published_at a = None"
    and "cs \<noteq> []" "sorted (map fst cs)" "sorted (map snd cs)"
    and "\<forall>(d, u) \<in> set cs. bytes_total a = 0 \<or> d < bytes_total a"
  shows "let q' = fold (\<lambda>(d, u). set_progress i d u) cs q
    in progress_events i (bus q') \<le> progress_events i (bus q) + 1 +
        fst (last cs) div (256 * 1024) + (snd (last cs) - snd (hd cs)) div 100000000 \<and>
       map_option bytes_done (snapshot i q') = Some (fst (last cs))"
proof -
  obtain d u cs' where cs: "cs = (d, u) # cs'" using assms(3) by (cases cs) auto
  define q1 where "q1 = set_progress i d u q"
  have a1: "\<exists>a1. hget (by_id q1) i = Some a1 \<and> progress_published_at a1 = Some u \<and>
      progress_published_bytes a1 = d \<and> bytes_total a1 = bytes_total a"
    and n1: "progress_events i (bus q1) = progress_events i (bus q) + 1"
    using assms(1,2) by (simp_all add: q1_def queue_ops should_publish_def)
  then obtain a1 where a1: "hget (by_id q1) i = Some a1" "progress_published_at a1 = Some u"
      "progress_published_bytes a1 = d" "bytes_total a1 = bytes_total a" by blast
  have last: "d' \<le> fst (last cs) \<and> u' \<le> snd (last cs)" if "(d', u') \<in> set cs" for d' u'
    using sorted_last [OF assms(4) that] sorted_last [OF assms(5) that] by simp
  have "progress_events i (bus (fold (\<lambda>(d, u). set_progress i d u) cs' q1)) + paid u d u
      \<le> progress_events i (bus q1) + paid u (fst (last cs)) (snd (last cs))"
    using a1 assms(4-6) last by (intro progress_budget [where a = a1]) (fastforce simp: cs)+
  then have ev: "progress_events i (bus (fold (\<lambda>(d, u). set_progress i d u) cs q)) \<le> progress_events i (bus q) + 1 +
      paid u (fst (last cs)) (snd (last cs))"
    using n1 by (simp add: cs q1_def)
  have row: "\<exists>b. hget (by_id (set_progress i d' u' r)) i = Some b \<and> bytes_done b = d'"
    if "\<exists>b. hget (by_id r) i = Some b" for d' u' r
    using that by (auto simp: queue_ops)
  have "\<exists>b. hget (by_id (fold (\<lambda>(d, u). set_progress i d u) xs q)) i = Some b \<and>
      (xs \<noteq> [] \<longrightarrow> bytes_done b = fst (last xs))" for xs
  proof (induction xs rule: rev_induct)
    case (snoc x xs)
    then show ?case using row by (cases x) force
  qed (use assms(1) in simp)
  from this [of cs] have "map_option bytes_done (snapshot i (fold (\<lambda>(d, u). set_progress i d u) cs q)) = Some (fst (last cs))"
    using assms(3) by (auto simp: snapshot_def actor_snapshot_def TaskSnapshot.truncate_def)
  with ev show ?thesis
    by (simp add: Let_def cs paid_def PROGRESS_BYTES_THRESHOLD_def PROGRESS_TIME_THRESHOLD_def)
qed

theorem progress_throttled_witness:
  "let q = snd (enqueue \<lparr> req_id = ''t'', req_kind = Download, req_session_id = ''s'', req_remote_path = ''/r'',
                          req_local_path = ''/l'', req_bytes_total = 1000000 \<rparr> queue_new);
       q' = fold (\<lambda>(d, u). set_progress ''t'' d u) [(10, 5), (20, 6), (30, 7)] q
   in progress_events ''t'' (bus q') \<le> 1"
proof -
  let ?r = "\<lparr> req_id = ''t'', req_kind = Download, req_session_id = ''s'', req_remote_path = ''/r'',
              req_local_path = ''/l'', req_bytes_total = 1000000 \<rparr>"
  let ?q = "snd (enqueue ?r queue_new)"
  obtain a where a: "hget (by_id ?q) ''t'' = Some a" "progress_published_at a = None" "bytes_total a = 1000000"
    by (simp add: queue_ops)
  have "progress_events ''t'' (bus ?q) = 0" by (simp add: queue_ops queue_new_def progress_events_def)
  with progress_throttled [OF a(1,2), of "[(10, 5), (20, 6), (30, 7)]"] a(3)
  show ?thesis by (simp add: Let_def)
qed

end
