(* ===== verification/Transfer_Driver.thy ===== *)
theory Transfer_Driver
  imports Transfer_Queue
begin

text \<open>
  The worker pool of \<open>transfer/driver.rs\<close> as a machine whose steps are the atomic actions of its
  tasks: a worker advances from one lock or await point of \<open>run_one\<close> to the next, and between any
  two of them another worker, the user interface or the executor's progress reports may act.  A
  cancellation token is an \<open>Arc\<close> to a flag, here an index into the list of allocated flags.
  The executor is a trait: what it returns is part of the step.
\<close>

section \<open>Definitions\<close>

type_synonym token = nat
type_synonym outcome = "string + unit"

datatype phase =
    Idle
  | Picked string
  | Snapped string
  | Registered string token
  | Executing string token
  | Returned string token outcome
  | Unregistered string token outcome

record WorkerPool =
  queue :: QueueInner
  chan :: "string list"
  chan_cap :: nat
  cancel_tokens :: "(string, token) hmap"
  flags :: "bool list"
  workers :: "phase list"

definition token_new :: "WorkerPool \<Rightarrow> token \<times> WorkerPool" where
  "token_new p = (length (flags p), p\<lparr> flags := flags p @ [False] \<rparr>)"

definition token_cancel :: "token \<Rightarrow> WorkerPool \<Rightarrow> WorkerPool" where
  "token_cancel t p = p\<lparr> flags := (flags p)[t := True] \<rparr>"

definition is_cancelled :: "token \<Rightarrow> WorkerPool \<Rightarrow> bool" where
  "is_cancelled t p \<longleftrightarrow> t < length (flags p) \<and> flags p ! t"

definition spawn :: "nat \<Rightarrow> WorkerPool" where
  "spawn worker_count =
     \<lparr> queue = queue_new, chan = [], chan_cap = max (worker_count * 2) 8, cancel_tokens = hempty,
       flags = [], workers = replicate worker_count Idle \<rparr>"

text \<open>\<open>send().await\<close>: \<open>None\<close> while the channel is full (the caller waits).\<close>

definition dispatch :: "string \<Rightarrow> WorkerPool \<Rightarrow> WorkerPool option" where
  "dispatch i p = (if length (chan p) < chan_cap p then Some (p\<lparr> chan := chan p @ [i] \<rparr>) else None)"

definition pool_cancel :: "string \<Rightarrow> WorkerPool \<Rightarrow> bool \<times> WorkerPool" where
  "pool_cancel i p =
     (case hget (cancel_tokens p) i of
        Some t \<Rightarrow> (True, token_cancel t p)
      | None \<Rightarrow> (False, p))"

text \<open>One action of \<open>run_one\<close>; \<open>res\<close> is what the executor returns, read when it does.\<close>

definition run_one :: "outcome \<Rightarrow> phase \<Rightarrow> WorkerPool \<Rightarrow> phase \<times> WorkerPool" where
  "run_one res ph p =
     (case ph of
        Idle \<Rightarrow> (case chan p of [] \<Rightarrow> (Idle, p) | i # r \<Rightarrow> (Picked i, p\<lparr> chan := r \<rparr>))
      | Picked i \<Rightarrow> (case snapshot i (queue p) of None \<Rightarrow> (Idle, p) | Some _ \<Rightarrow> (Snapped i, p))
      | Snapped i \<Rightarrow>
          let (t, p1) = token_new p
          in (Registered i t, p1\<lparr> cancel_tokens := hput i t (cancel_tokens p1) \<rparr>)
      | Registered i t \<Rightarrow> (Executing i t, p\<lparr> queue := set_state i Running (queue p) \<rparr>)
      | Executing i t \<Rightarrow> (Returned i t res, p)
      | Returned i t r \<Rightarrow> (Unregistered i t r, p\<lparr> cancel_tokens := hdel i (cancel_tokens p) \<rparr>)
      | Unregistered i t r \<Rightarrow>
          (Idle,
           if is_cancelled t p then p\<lparr> queue := snd (cancel i (queue p)) \<rparr>
           else case r of
                  Inr _ \<Rightarrow> p\<lparr> queue := set_state i Completed (queue p) \<rparr>
                | Inl e \<Rightarrow> p\<lparr> queue := fail i e (queue p) \<rparr>))"

definition work :: "nat \<Rightarrow> outcome \<Rightarrow> WorkerPool \<Rightarrow> WorkerPool" where
  "work w res p =
     (if w < length (workers p)
      then (let (ph, p1) = run_one res (workers p ! w) p in p1\<lparr> workers := (workers p1)[w := ph] \<rparr>)
      else p)"

text \<open>The executor of a running task reports progress.\<close>

definition report :: "nat \<Rightarrow> nat \<Rightarrow> nat \<Rightarrow> WorkerPool \<Rightarrow> WorkerPool" where
  "report w d now p =
     (if w < length (workers p)
      then (case workers p ! w of
              Executing i t \<Rightarrow> p\<lparr> queue := set_progress i d now (queue p) \<rparr>
            | _ \<Rightarrow> p)
      else p)"

datatype pool_event =
    Dispatch string
  | PoolCancel string
  | Work nat outcome
  | Report nat nat nat
  | QueueCall call

fun pool_step :: "pool_event \<Rightarrow> WorkerPool \<Rightarrow> WorkerPool" where
  "pool_step (Dispatch i) p = (case dispatch i p of Some p' \<Rightarrow> p' | None \<Rightarrow> p)"
| "pool_step (PoolCancel i) p = snd (pool_cancel i p)"
| "pool_step (Work w res) p = work w res p"
| "pool_step (Report w d now) p = report w d now p"
| "pool_step (QueueCall c) p = p\<lparr> queue := exec c (queue p) \<rparr>"

section \<open>Lemmas\<close>

lemmas pool_ops = dispatch_def pool_cancel_def work_def report_def run_one_def token_new_def token_cancel_def
  Let_def

definition pool_inv :: "WorkerPool \<Rightarrow> bool" where
  "pool_inv p \<longleftrightarrow>
     queue_inv (queue p) \<and> length (chan p) \<le> chan_cap p \<and>
     (\<forall>i t. hget (cancel_tokens p) i = Some t \<longrightarrow> t < length (flags p))"

lemma pool_inv_spawn [simp]: "pool_inv (spawn n)"
  by (simp add: pool_inv_def spawn_def)

lemma queue_inv_exec: "queue_inv q \<Longrightarrow> queue_inv (exec c q)"
  by (cases c) (simp_all add: queue_inv_ops)

lemma pool_inv_run_one: "pool_inv p \<Longrightarrow> pool_inv (snd (run_one res ph p))"
proof (cases ph)
  case Idle
  moreover assume "pool_inv p"
  ultimately show ?thesis by (auto simp: run_one_def pool_inv_def split: list.splits)
next
  case (Snapped i)
  moreover assume "pool_inv p"
  ultimately show ?thesis by (auto simp: run_one_def pool_inv_def token_new_def less_Suc_eq)
qed (auto simp: run_one_def pool_inv_def queue_inv_ops split: option.splits sum.splits)

lemma run_one_workers [simp]: "workers (snd (run_one res ph p)) = workers p"
  by (auto simp: run_one_def token_new_def Let_def split: phase.splits list.splits option.splits sum.splits)

lemma run_one_cap [simp]: "chan_cap (snd (run_one res ph p)) = chan_cap p"
  by (auto simp: run_one_def token_new_def Let_def split: phase.splits list.splits option.splits sum.splits)

lemma pool_inv_work: "pool_inv p \<Longrightarrow> pool_inv (work w res p)"
  using pool_inv_run_one [of p res "workers p ! w"]
  by (auto simp: work_def split_beta Let_def pool_inv_def)

lemma pool_inv_step: "pool_inv p \<Longrightarrow> pool_inv (pool_step e p)"
proof (cases e)
  case (Work w res)
  moreover assume "pool_inv p"
  ultimately show ?thesis by (simp add: pool_inv_work)
qed (auto simp: pool_inv_def dispatch_def pool_cancel_def token_cancel_def report_def
    queue_inv_ops queue_inv_exec split: option.splits phase.splits)

interpretation pool: step_invariant pool_step pool_inv
  by unfold_locales (rule pool_inv_step)

text \<open>The sizes fixed at the start.\<close>

lemma pool_sizes_step:
  "length (workers (pool_step e p)) = length (workers p) \<and> chan_cap (pool_step e p) = chan_cap p"
  by (cases e) (auto simp: dispatch_def pool_cancel_def token_cancel_def report_def work_def
      Let_def split_beta split: option.splits phase.splits)

lemma pool_sizes:
  "length (workers (fold pool_step es p)) = length (workers p) \<and> chan_cap (fold pool_step es p) = chan_cap p"
  by (induction es arbitrary: p) (simp_all add: pool_sizes_step)

text \<open>A flag that is set stays set.\<close>

lemma flag_kept: "t < length fs \<Longrightarrow> fs ! t \<Longrightarrow> fs[u := True] ! t"
  by (cases "u = t") auto

lemma flag_step: "is_cancelled t p \<Longrightarrow> is_cancelled t (pool_step e p)"
proof (cases e)
  case (Work w res)
  moreover assume "is_cancelled t p"
  ultimately show ?thesis
    by (auto simp: is_cancelled_def work_def run_one_def token_new_def Let_def nth_append
        split: phase.splits list.splits option.splits sum.splits)
qed (auto simp: is_cancelled_def dispatch_def pool_cancel_def token_cancel_def report_def flag_kept
    split: option.splits phase.splits)

interpretation flagged: step_invariant pool_step "is_cancelled t" for t
  by unfold_locales (rule flag_step)

lemma pool_cancel_flags:
  "pool_inv p \<Longrightarrow> hget (cancel_tokens p) i = Some t \<Longrightarrow> pool_cancel i p = (True, token_cancel t p) \<and>
     is_cancelled t (token_cancel t p)"
  by (auto simp: pool_cancel_def pool_inv_def is_cancelled_def token_cancel_def)

text \<open>A whole run of \<open>run_one\<close> with nothing in between.\<close>

lemma set_state_row [simp]:
  "hget (by_id (set_state i st q)) j =
     (if j = i then map_option (\<lambda>a. a\<lparr> state := st \<rparr>) (hget (by_id q) i) else hget (by_id q) j)"
  by (auto simp: set_state_def publish_def split: option.splits)

lemma fail_row [simp]:
  "hget (by_id (fail i m q)) j =
     (if j = i then map_option (\<lambda>a. a\<lparr> state := Failed, task_error := Some m \<rparr>) (hget (by_id q) i)
      else hget (by_id q) j)"
  by (auto simp: fail_def publish_def split: option.splits)

lemma snapshot_update [simp]:
  "actor_snapshot (a\<lparr> state := st \<rparr>) = (actor_snapshot a)\<lparr> state := st \<rparr>"
  "actor_snapshot (a\<lparr> state := st, task_error := e \<rparr>) = (actor_snapshot a)\<lparr> state := st, task_error := e \<rparr>"
  by (simp_all add: actor_snapshot_def TaskSnapshot.truncate_def)

lemma uncontended_run:
  assumes "chan p = i # rest" and "w < length (workers p)" and "workers p ! w = Idle"
    and "snapshot i (queue p) = Some s"
  shows "let p' = fold pool_step (replicate 7 (Work w res)) p
    in workers p' = workers p \<and> chan p' = rest \<and> hget (cancel_tokens p') i = None \<and>
       snapshot i (queue p') =
         Some (case res of Inr _ \<Rightarrow> s\<lparr> state := Completed \<rparr>
               | Inl e \<Rightarrow> s\<lparr> state := Failed, task_error := Some e \<rparr>)"
proof -
  have w: "(workers p)[w := Idle] = workers p" using assms(2,3) by (metis list_update_id)
  obtain a where a: "hget (by_id (queue p)) i = Some a" "s = actor_snapshot a"
    using assms(4) by (auto simp: snapshot_def)
  show ?thesis
    using assms(1-3) a w
    by (cases res) (simp_all add: numeral_eq_Suc work_def run_one_def token_new_def Let_def snapshot_def
        is_cancelled_def)
qed

section \<open>Properties\<close>

text \<open>
  C7. A cancel that reaches a running transfer is never lost: if \<open>WorkerPool::cancel\<close> finds the
  task's token, then, whatever the other workers, the executor and the user interface do afterwards,
  the worker that holds this token ends its run by cancelling the task; it publishes no completion
  and no failure, and a task that was not yet in a final state is \<open>Cancelled\<close>.
\<close>

theorem cancel_reaches_running:
  assumes "p = fold pool_step before (spawn n)" and "hget (cancel_tokens p) i = Some t"
    and "p' = fold pool_step after (snd (pool_cancel i p))"
    and "w < length (workers p')" and "workers p' ! w = Unregistered i t res"
    and "p'' = pool_step (Work w any) p'"
  shows "fst (pool_cancel i p) \<and> workers p'' ! w = Idle \<and>
    (case hget (by_id (queue p')) i of
       None \<Rightarrow> queue p'' = queue p'
     | Some a \<Rightarrow>
         if is_terminal (state a) then queue p'' = queue p'
         else bus (queue p'') = bus (queue p') @ [TransferTaskState i Cancelled] \<and>
              map_option state (snapshot i (queue p'')) = Some Cancelled)"
proof -
  have inv: "pool_inv p" unfolding assms(1) by (rule pool.inv_run) simp
  note c = pool_cancel_flags [OF inv assms(2)]
  have "is_cancelled t p'" unfolding assms(3) by (rule flagged.inv_run) (use c in simp)
  with assms(4-6) c show ?thesis
    by (auto simp: work_def run_one_def cancel_def publish_def snapshot_def actor_snapshot_def
        TaskSnapshot.truncate_def split: option.splits)
qed

definition demo_request :: EnqueueRequest where
  "demo_request = \<lparr> req_id = ''t'', req_kind = Upload, req_session_id = ''s'', req_remote_path = ''/r'',
                    req_local_path = ''/l'', req_bytes_total = 10 \<rparr>"

theorem cancel_reaches_running_witness:
  "let p = fold pool_step ([QueueCall (Enqueue demo_request), Dispatch ''t''] @ replicate 4 (Work 0 (Inr ()))) (spawn 4);
       p' = fold pool_step (replicate 2 (Work 0 (Inr ()))) (snd (pool_cancel ''t'' p))
   in map_option state (snapshot ''t'' (queue (pool_step (Work 0 (Inr ())) p'))) = Some Cancelled"
proof -
  let ?p = "fold pool_step ([QueueCall (Enqueue demo_request), Dispatch ''t''] @ replicate 4 (Work 0 (Inr ()))) (spawn 4)"
  let ?q = "fold pool_step (replicate 2 (Work 0 (Inr ()))) (snd (pool_cancel ''t'' ?p))"
  have a: "hget (cancel_tokens ?p) ''t'' = Some 0" by code_simp
  have b: "0 < length (workers ?q)" "workers ?q ! 0 = Unregistered ''t'' 0 (Inr ())" by code_simp+
  have s: "map_option state (hget (by_id (queue ?q)) ''t'') = Some Running" by code_simp
  from cancel_reaches_running [OF refl a refl b refl] s show ?thesis
    by (auto simp: Let_def is_terminal_def split: option.splits)
qed

text \<open>
  A worker runs a dispatched task to the executor's verdict: an idle worker that takes an
  existing task from the channel, uncontended, publishes it as running, leaves it completed or
  failed with the executor's message, and releases its token and itself.
\<close>

theorem run_one_verdict:
  assumes "chan p = i # rest" and "w < length (workers p)" and "workers p ! w = Idle"
    and "snapshot i (queue p) = Some s"
  shows "let p' = fold pool_step (replicate 7 (Work w res)) p
    in workers p' = workers p \<and> chan p' = rest \<and> hget (cancel_tokens p') i = None \<and>
       snapshot i (queue p') =
         Some (case res of Inr _ \<Rightarrow> s\<lparr> state := Completed \<rparr>
               | Inl e \<Rightarrow> s\<lparr> state := Failed, task_error := Some e \<rparr>)"
  using uncontended_run [OF assms(1-3), of s res] assms(4) by (auto simp: Let_def split: sum.splits)

theorem run_one_verdict_witness:
  "let p = fold pool_step [QueueCall (Enqueue demo_request), Dispatch ''t''] (spawn 4)
   in map_option state (snapshot ''t'' (queue (fold pool_step (replicate 7 (Work 2 (Inl ''no route''))) p))) = Some Failed"
proof -
  let ?p = "fold pool_step [QueueCall (Enqueue demo_request), Dispatch ''t''] (spawn 4)"
  have "chan ?p = [''t'']" "2 < length (workers ?p)" "workers ?p ! 2 = Idle" by code_simp+
  moreover have "\<exists>s. snapshot ''t'' (queue ?p) = Some s"
    by (simp add: snapshot_def spawn_def dispatch_def queue_ops demo_request_def)
  ultimately show ?thesis
    using run_one_verdict [where res = "Inl ''no route''" and w = 2 and p = ?p and i = "''t''" and rest = "[]"]
    by (auto simp: Let_def)
qed

text \<open>
  A cancel that arrives while the task still waits in the channel is lost: no token exists yet,
  so \<open>WorkerPool::cancel\<close> answers \<open>false\<close> and changes nothing, and the next free worker runs
  the task to completion.  (The comment on \<open>cancel\<close> reads a missing id as "the worker has already
  finished or the task was never dispatched".)
\<close>

theorem cancel_before_pickup_lost:
  assumes "chan p = i # rest" and "w < length (workers p)" and "workers p ! w = Idle"
    and "snapshot i (queue p) = Some s" and "hget (cancel_tokens p) i = None"
  shows "pool_cancel i p = (False, p) \<and>
    map_option state (snapshot i (queue (fold pool_step (PoolCancel i # replicate 7 (Work w (Inr ()))) p))) = Some Completed"
  using uncontended_run [OF assms(1-3), of s "Inr ()"] assms(4,5)
  by (auto simp: Let_def pool_cancel_def)

theorem cancel_before_pickup_lost_witness:
  "let p = fold pool_step [QueueCall (Enqueue demo_request), Dispatch ''t''] (spawn 4)
   in fst (pool_cancel ''t'' p) = False \<and>
      map_option state (snapshot ''t'' (queue (fold pool_step (PoolCancel ''t'' # replicate 7 (Work 0 (Inr ()))) p))) = Some Completed"
proof -
  let ?p = "fold pool_step [QueueCall (Enqueue demo_request), Dispatch ''t''] (spawn 4)"
  have "chan ?p = [''t'']" "0 < length (workers ?p)" "workers ?p ! 0 = Idle" by code_simp+
  moreover have "hget (cancel_tokens ?p) ''t'' = None" by code_simp
  moreover have "\<exists>s. snapshot ''t'' (queue ?p) = Some s"
    by (simp add: snapshot_def spawn_def dispatch_def queue_ops demo_request_def)
  ultimately show ?thesis
    using cancel_before_pickup_lost [where w = 0 and p = ?p and i = "''t''" and rest = "[]"]
    by (auto simp: Let_def)
qed

text \<open>
  The pool is bounded whatever the configuration file says and whatever happens: between one and
  ten workers, at most twice as many (and at least room for eight) tasks waiting in the channel, and a
  consistent queue.
\<close>

theorem pool_bounded:
  "let n = worker_count_from_json J cfg; p = fold pool_step es (spawn n)
   in 1 \<le> n \<and> n \<le> 10 \<and> length (workers p) = n \<and> length (chan p) \<le> max (2 * n) 8 \<and> length (chan p) \<le> 20 \<and>
      distinct (order (queue p)) \<and> map task_id (snapshot_all (queue p)) = order (queue p)"
proof -
  define n where "n = worker_count_from_json J cfg"
  define p where "p = fold pool_step es (spawn n)"
  have n: "1 \<le> n" "n \<le> 10"
    by (auto simp: n_def worker_count_from_json_def Let_def MAX_TRANSFER_WORKERS_def)
  have inv: "pool_inv p" unfolding p_def by (rule pool.inv_run) simp
  have sz: "length (workers p) = n" "chan_cap p = max (2 * n) 8"
    using pool_sizes [of es "spawn n"] by (simp_all add: p_def spawn_def mult.commute)
  have "queue_inv (queue p)" using inv by (simp add: pool_inv_def)
  then have "map task_id (snapshot_all (queue p)) = order (queue p)" "distinct (order (queue p))"
    unfolding snapshot_all_def by (auto simp: queue_inv_def intro!: snapshot_all_ids)
  with n inv sz show ?thesis
    unfolding n_def [symmetric] p_def [symmetric] Let_def by (auto simp: pool_inv_def)
qed

end
