(* ===== verification/Path_Rules.thy ===== *)
theory Path_Rules
  imports Prelude
begin

text \<open>
  The path helpers of \<open>path.rs\<close>.  A path is the byte string of the code; the separators and the
  drive letters the helpers look for are ASCII, so a test on characters is a test on bytes.  The two
  environment variables \<open>expand_tilde\<close> reads are arguments, Unicode lower-casing is the parameter
  \<open>lower\<close>.
\<close>

section \<open>Definitions\<close>

definition basename :: "string \<Rightarrow> string" where
  "basename path =
     (let normalized = replace_char (CHR 0x5C) (CHR ''/'') path
      in case rfind_idx ((=) (CHR ''/'')) normalized of
           Some i \<Rightarrow> drop (i + 1) normalized
         | None \<Rightarrow> normalized)"

definition is_suspicious_path :: "string \<Rightarrow> bool" where
  "is_suspicious_path path =
     list_ex (\<lambda>seg. seg = ''..'') (split_on (CHR ''/'') (replace_char (CHR 0x5C) (CHR ''/'') path))"

definition is_safe_transfer_entry_name :: "string \<Rightarrow> bool" where
  "is_safe_transfer_entry_name name =
     (if name = [] then False
      else if name = ''.'' \<or> name = ''..'' then False
      else if CHR ''/'' \<in> set name \<or> CHR 0x5C \<in> set name then False
      else if CHR 0x00 \<in> set name then False
      else if trim name = [] then False
      else True)"

definition attr_at :: "string \<Rightarrow> nat \<Rightarrow> bool" where
  "attr_at s i \<longleftrightarrow> is_ascii_upper (s ! i) \<and> s ! (i + 1) = CHR 0x20 \<and> s ! (i + 2) = CHR 0x20"

definition attr_run_end :: "string \<Rightarrow> nat option" where
  "attr_run_end s = (if length s < 3 then None else List.find (attr_at s) (rev [0..<length s - 2]))"

definition parse_attrib_line :: "(string \<Rightarrow> string) \<Rightarrow> string \<Rightarrow> string option" where
  "parse_attrib_line lower raw_line =
     (let trimmed = trim_end raw_line
      in if trimmed = [] then None
         else case attr_run_end trimmed of
                None \<Rightarrow> None
              | Some i \<Rightarrow>
                  let attrs = map to_ascii_upper (take (i + 1) trimmed)
                  in if CHR ''H'' \<notin> set attrs \<and> CHR ''S'' \<notin> set attrs then None
                     else let full_path = trim (drop (i + 3) trimmed)
                          in Some (lower (case rfind_idx (\<lambda>c. c = CHR 0x5C \<or> c = CHR ''/'') full_path of
                                            Some j \<Rightarrow> drop (j + 1) full_path
                                          | None \<Rightarrow> full_path)))"

definition parse_windows_attrib_output :: "(string \<Rightarrow> string) \<Rightarrow> string \<Rightarrow> string set" where
  "parse_windows_attrib_output lower output =
     fold (\<lambda>raw_line hidden. case parse_attrib_line lower raw_line of
                               Some bn \<Rightarrow> insert bn hidden | None \<Rightarrow> hidden)
       (split_on (CHR 0x0A) output) {}"

datatype PathStyle = Posix | Windows | Auto

definition is_windows_drive_prefixed :: "string \<Rightarrow> bool" where
  "is_windows_drive_prefixed path =
     (case path of c # d # _ \<Rightarrow> is_ascii_alpha c \<and> d = CHR '':'' | _ \<Rightarrow> False)"

definition is_windows_drive_root :: "string \<Rightarrow> bool" where
  "is_windows_drive_root path =
     (case path of
        [a, b] \<Rightarrow> is_ascii_alpha a \<and> b = CHR '':''
      | [a, b, c] \<Rightarrow> is_ascii_alpha a \<and> b = CHR '':'' \<and> (c = CHR 0x5C \<or> c = CHR ''/'')
      | _ \<Rightarrow> False)"

definition posix_parent :: "string \<Rightarrow> string option" where
  "posix_parent path =
     (let trimmed = (case strip_suffix ''/'' path of Some r \<Rightarrow> r | None \<Rightarrow> path)
      in if trimmed = [] then None
         else case rfind_idx ((=) (CHR ''/'')) trimmed of
                None \<Rightarrow> None
              | Some i \<Rightarrow> if i = 0 then Some ''/'' else Some (take i trimmed))"

definition windows_parent :: "string \<Rightarrow> string option" where
  "windows_parent path =
     (if is_windows_drive_root path then None
      else let trimmed = (if path \<noteq> [] \<and> (last path = CHR 0x5C \<or> last path = CHR ''/'')
                          then butlast path else path)
           in if is_windows_drive_root trimmed then None
              else case rfind_idx (\<lambda>c. c = CHR 0x5C \<or> c = CHR ''/'') trimmed of
                     None \<Rightarrow> None
                   | Some i \<Rightarrow>
                       let up = take i trimmed
                       in if is_windows_drive_root up then Some (up @ [CHR 0x5C]) else Some up)"

definition parent :: "string \<Rightarrow> PathStyle \<Rightarrow> string option" where
  "parent path style =
     (if path = [] \<or> path = ''/'' then None
      else let windows = (case style of Posix \<Rightarrow> False | Windows \<Rightarrow> True
                          | Auto \<Rightarrow> CHR 0x5C \<in> set path \<or> is_windows_drive_prefixed path)
           in if windows then windows_parent path else posix_parent path)"

definition sibling_candidate :: "string \<Rightarrow> nat \<Rightarrow> bool \<Rightarrow> string" where
  "sibling_candidate path n posix =
     (let sep = (if posix \<or> CHR 0x5C \<notin> set path then CHR ''/'' else CHR 0x5C);
          (dir, base) = (case rfind_idx ((=) sep) path of
                           Some i \<Rightarrow> (take (i + 1) path, drop (i + 1) path)
                         | None \<Rightarrow> ([], path));
          ext_idx = Option.bind (rfind_idx ((=) (CHR ''.'')) base) (\<lambda>i. if i > 0 then Some i else None);
          (stem, ext) = (case ext_idx of Some i \<Rightarrow> (take i base, drop i base) | None \<Rightarrow> (base, []))
      in dir @ stem @ '' ('' @ dec n @ '')'' @ ext)"

definition shorten_to_two_segments :: "string \<Rightarrow> string" where
  "shorten_to_two_segments path =
     (if path = [] then []
      else let normalized = replace_char (CHR 0x5C) (CHR ''/'') path;
               parts = filter (\<lambda>s. s \<noteq> []) (split_on (CHR ''/'') normalized)
           in if length parts \<le> 2 then normalized
              else ''.../'' @ join ''/'' (drop (length parts - 2) parts))"

text \<open>\<open>None\<close>: the variable is not set.\<close>

definition home_dir :: "string option \<Rightarrow> string option \<Rightarrow> string option" where
  "home_dir home userprofile =
     (case home of
        Some h \<Rightarrow> if h \<noteq> [] then Some h else (case userprofile of Some u \<Rightarrow> if u \<noteq> [] then Some u else None | None \<Rightarrow> None)
      | None \<Rightarrow> (case userprofile of Some u \<Rightarrow> if u \<noteq> [] then Some u else None | None \<Rightarrow> None))"

definition expand_tilde :: "string option \<Rightarrow> string \<Rightarrow> string" where
  "expand_tilde home path =
     (if path = ''~'' then (case home of Some h \<Rightarrow> h | None \<Rightarrow> path)
      else case strip_prefix ''~/'' path of
             Some rest \<Rightarrow>
               (case home of
                  Some h \<Rightarrow> if rest = [] then h @ ''/'' else h @ ''/'' @ rest
                | None \<Rightarrow> path)
           | None \<Rightarrow> path)"

section \<open>Lemmas\<close>

lemma replace_char_append [simp]: "replace_char c d (s @ t) = replace_char c d s @ replace_char c d t"
  by (simp add: replace_char_def)

lemma replace_char_Cons [simp]: "replace_char c d (x # t) = (if x = c then d else x) # replace_char c d t"
  by (simp add: replace_char_def)

lemma split_on_snoc: "d \<notin> set t \<Longrightarrow> split_on d (s @ d # t) = split_on d s @ [t]"
proof (induction s)
  case (Cons c s)
  then show ?case by (cases "split_on d s") (auto simp: split_on_noop)
qed (simp add: split_on_noop)

text \<open>What a safe entry name guarantees about the path it is joined onto.\<close>

lemma safe_name_chars:
  "is_safe_transfer_entry_name name \<Longrightarrow>
     name \<noteq> [] \<and> name \<noteq> ''..'' \<and> name \<noteq> ''.'' \<and> CHR ''/'' \<notin> set name \<and> CHR 0x5C \<notin> set name \<and> CHR 0x00 \<notin> set name"
  by (auto simp: is_safe_transfer_entry_name_def split: if_splits)

lemma posix_parent_join:
  assumes "CHR ''/'' \<notin> set name" "name \<noteq> []" "dir \<noteq> []"
  shows "posix_parent (dir @ CHR ''/'' # name) = Some dir"
proof -
  have "strip_suffix ''/'' (dir @ CHR ''/'' # name) = None"
  proof (cases "strip_suffix ''/'' (dir @ CHR ''/'' # name)")
    case (Some r)
    then have "last (dir @ CHR ''/'' # name) = CHR ''/''" by simp
    then have "last name = CHR ''/''" using assms(2) by simp
    with assms(1,2) show ?thesis using last_in_set by metis
  qed
  moreover have "rfind_idx ((=) (CHR ''/'')) (dir @ CHR ''/'' # name) = Some (length dir)"
    using assms(1) by (intro rfind_idx_append) auto
  ultimately show ?thesis using assms by (simp add: posix_parent_def)
qed

text \<open>Going up shortens the path.\<close>

lemma rfind_idx_less: "rfind_idx P s = Some i \<Longrightarrow> i < length s"
  by (auto simp: rfind_idx_Some)

lemma posix_parent_shorter: "posix_parent path = Some q \<Longrightarrow> path \<noteq> ''/'' \<Longrightarrow> length q < length path"
proof -
  assume p: "posix_parent path = Some q" "path \<noteq> ''/''"
  define trimmed where "trimmed = (case strip_suffix ''/'' path of Some r \<Rightarrow> r | None \<Rightarrow> path)"
  obtain i where i: "rfind_idx ((=) (CHR ''/'')) trimmed = Some i" "q = (if i = 0 then ''/'' else take i trimmed)"
    using p(1) by (auto simp: posix_parent_def Let_def trimmed_def [symmetric] split: if_splits option.splits)
  have len: "length trimmed \<le> length path"
    by (auto simp: trimmed_def split: option.splits)
  have lt: "i < length trimmed" using i(1) by (rule rfind_idx_less)
  show ?thesis
  proof (cases "i = 0")
    case True
    have "path \<noteq> [] \<and> length path \<noteq> 1"
    proof (rule ccontr)
      assume "\<not> (path \<noteq> [] \<and> length path \<noteq> 1)"
      then have "path = [] \<or> (\<exists>c. path = [c])" by (auto simp: length_Suc_conv)
      with lt len i(1) p(2) show False
        by (auto simp: trimmed_def strip_suffix_def split: option.splits if_splits)
    qed
    then have "2 \<le> length path" by (cases path rule: remdups_adj.cases) auto
    with True i(2) show ?thesis by simp
  next
    case False
    with i(2) lt len show ?thesis by simp
  qed
qed

lemma drive_root_length: "is_windows_drive_root p \<Longrightarrow> length p = 2 \<or> length p = 3"
  by (auto simp: is_windows_drive_root_def split: list.splits)

lemma windows_parent_shorter: "windows_parent path = Some q \<Longrightarrow> length q < length path"
proof -
  assume p: "windows_parent path = Some q"
  define trimmed where "trimmed = (if path \<noteq> [] \<and> (last path = CHR 0x5C \<or> last path = CHR ''/'') then butlast path else path)"
  obtain i where i: "rfind_idx (\<lambda>c. c = CHR 0x5C \<or> c = CHR ''/'') trimmed = Some i"
      "q = (if is_windows_drive_root (take i trimmed) then take i trimmed @ [CHR 0x5C] else take i trimmed)"
      "\<not> is_windows_drive_root trimmed"
    using p by (auto simp: windows_parent_def Let_def trimmed_def [symmetric] split: if_splits option.splits)
  have len: "length trimmed \<le> length path" by (simp add: trimmed_def)
  obtain a d b where s: "trimmed = a @ d # b" "length a = i" "d = CHR 0x5C \<or> d = CHR ''/''"
    using i(1) by (auto simp: rfind_idx_Some)
  have "trimmed \<noteq> path" if "b = []"
  proof
    assume "trimmed = path"
    then have "path \<noteq> []" "last path = CHR 0x5C \<or> last path = CHR ''/''" using s that by auto
    then have "length trimmed < length path" by (simp add: trimmed_def)
    with \<open>trimmed = path\<close> show False by simp
  qed
  then have "length trimmed < length path" if "b = []"
    using that by (auto simp: trimmed_def split: if_splits)
  then show ?thesis using i(2) s len by (cases b) (auto split: if_splits)
qed

lemma parent_shorter: "parent path style = Some q \<Longrightarrow> length q < length path"
  by (auto simp: parent_def Let_def dest: windows_parent_shorter posix_parent_shorter split: if_splits)

text \<open>Repeated "up".\<close>

definition go_up :: "PathStyle \<Rightarrow> nat \<Rightarrow> string \<Rightarrow> string option" where
  "go_up style n path = ((\<lambda>p. Option.bind p (\<lambda>q. parent q style)) ^^ n) (Some path)"

lemma go_up_Suc: "go_up style (Suc n) path = Option.bind (go_up style n path) (\<lambda>q. parent q style)"
  by (simp add: go_up_def)

lemma go_up_shorter: "go_up style n path = Some q \<Longrightarrow> length q + n \<le> length path"
proof (induction n arbitrary: q)
  case (Suc n)
  then obtain r where r: "go_up style n path = Some r" "parent r style = Some q"
    by (auto simp: go_up_Suc bind_eq_Some_conv)
  from Suc.IH [OF r(1)] parent_shorter [OF r(2)] show ?case by simp
qed (simp add: go_up_def)

text \<open>Distinct numbers give distinct candidates.\<close>

lemma dec_inj: "dec m = dec n \<Longrightarrow> m = n"
  by (metis option.inject parse_digits_dec)

lemma sibling_shape:
  "\<exists>dir stem ext. path = dir @ stem @ ext \<and> (\<forall>n. sibling_candidate path n posix = dir @ stem @ '' ('' @ dec n @ '')'' @ ext)"
proof -
  define sep where "sep = (if posix \<or> CHR 0x5C \<notin> set path then CHR ''/'' else CHR 0x5C)"
  define db where "db = (case rfind_idx ((=) sep) path of
      Some i \<Rightarrow> (take (i + 1) path, drop (i + 1) path) | None \<Rightarrow> ([], path))"
  define se where "se = (case Option.bind (rfind_idx ((=) (CHR ''.'')) (snd db)) (\<lambda>i. if i > 0 then Some i else None) of
      Some i \<Rightarrow> (take i (snd db), drop i (snd db)) | None \<Rightarrow> (snd db, []))"
  have "fst db @ snd db = path" unfolding db_def by (simp split: option.split del: rfind_idx_None)
  moreover have "fst se @ snd se = snd db"
    unfolding se_def by (simp split: option.split)
  ultimately have p: "path = fst db @ fst se @ snd se" by simp
  have "sibling_candidate path n posix = fst db @ fst se @ '' ('' @ dec n @ '')'' @ snd se" for n
    unfolding sibling_candidate_def Let_def sep_def [symmetric] db_def [symmetric]
    by (simp add: split_beta se_def)
  with p show ?thesis by blast
qed

lemma sibling_inj: "sibling_candidate path m posix = sibling_candidate path n posix \<Longrightarrow> m = n"
  using sibling_shape [of path posix] by (auto dest: dec_inj)

section \<open>Properties\<close>

text \<open>
  A directory entry that passes \<open>is_safe_transfer_entry_name\<close> stays in the directory it is joined
  onto: the parent of the joined path is that directory, its base name is the entry, and the path has a
  \<open>..\<close> segment only if the directory already had one.
\<close>

theorem safe_entry_stays_inside:
  assumes "is_safe_transfer_entry_name name" and "dir \<noteq> []"
  shows "posix_parent (dir @ ''/'' @ name) = Some dir \<and> basename (dir @ ''/'' @ name) = name \<and>
    is_suspicious_path (dir @ ''/'' @ name) = is_suspicious_path dir"
proof -
  note c = safe_name_chars [OF assms(1)]
  have "posix_parent (dir @ CHR ''/'' # name) = Some dir" using c assms(2) by (intro posix_parent_join) auto
  moreover have "basename (dir @ CHR ''/'' # name) = name"
  proof -
    have "rfind_idx ((=) (CHR ''/'')) (replace_char (CHR 0x5C) (CHR ''/'') dir @ CHR ''/'' # name) =
        Some (length (replace_char (CHR 0x5C) (CHR ''/'') dir))"
      using c by (intro rfind_idx_append) auto
    then show ?thesis using c by (simp add: basename_def Let_def)
  qed
  moreover have "is_suspicious_path (dir @ CHR ''/'' # name) = is_suspicious_path dir"
    using c by (simp add: is_suspicious_path_def split_on_snoc)
  ultimately show ?thesis by simp
qed

theorem safe_entry_stays_inside_witness:
  "posix_parent (''/home/u/dl'' @ ''/'' @ ''a b.txt'') = Some ''/home/u/dl''"
  using safe_entry_stays_inside [of "''a b.txt''" "''/home/u/dl''"]
  by (simp add: is_safe_transfer_entry_name_def trim_noop ws_lead_def ws_tail_def ws_chars_def)

text \<open>
  Navigating up ends: in every style each step gives a shorter path, so at most as many steps as the
  path has bytes are possible before there is no parent.
\<close>

theorem navigate_up_ends:
  "go_up style (Suc (length path)) path = None \<and> {q. parent path style = Some q \<and> length path \<le> length q} = {}"
proof -
  have "go_up style (Suc (length path)) path = None"
    using go_up_shorter [of style "Suc (length path)" path] by (cases "go_up style (Suc (length path)) path") auto
  moreover have "{q. parent path style = Some q \<and> length path \<le> length q} = {}"
    using parent_shorter [of path style] by (auto simp: not_le)
  ultimately show ?thesis ..
qed

text \<open>
  The keep-both resolution always finds a free name: whatever names are taken, one of the first
  \<open>k + 1\<close> candidates is not among \<open>k\<close> of them, and no candidate is the original path.
\<close>

theorem sibling_free_slot:
  "(\<exists>n. 1 \<le> n \<and> n \<le> Suc (length taken) \<and> sibling_candidate path n posix \<notin> set taken) \<and>
   path \<notin> range (\<lambda>n. sibling_candidate path n posix)"
proof
  let ?c = "\<lambda>n. sibling_candidate path n posix"
  show "\<exists>n. 1 \<le> n \<and> n \<le> Suc (length taken) \<and> ?c n \<notin> set taken"
  proof (rule ccontr)
    assume no: "\<not> ?thesis"
    have "?c ` {1..Suc (length taken)} \<subseteq> set taken"
    proof
      fix c
      assume "c \<in> ?c ` {1..Suc (length taken)}"
      then obtain n where "1 \<le> n" "n \<le> Suc (length taken)" "c = ?c n" by auto
      with no show "c \<in> set taken" by blast
    qed
    moreover have "inj_on ?c {1..Suc (length taken)}" by (auto intro: inj_onI sibling_inj)
    ultimately have "card {1..Suc (length taken)} \<le> card (set taken)"
      by (metis card_image card_mono List.finite_set)
    also have "\<dots> \<le> length taken" by (rule card_length)
    finally show False by simp
  qed
  show "path \<notin> range ?c"
  proof
    assume "path \<in> range ?c"
    then obtain n where "path = ?c n" by auto
    moreover obtain dir stem ext where "path = dir @ stem @ ext" "?c n = dir @ stem @ '' ('' @ dec n @ '')'' @ ext"
      using sibling_shape [of path posix] by blast
    ultimately have "length (dir @ stem @ ext) = length (dir @ stem @ '' ('' @ dec n @ '')'' @ ext)" by simp
    then show False by simp
  qed
qed

text \<open>
  The attribute run is found from the right, so a capital letter and two blanks inside a file name
  are taken for it: a plain archive file is reported hidden, under a truncated name.
\<close>

lemma attrib_false_match:
  "parse_attrib_line (map to_ascii_lower) ''A    C:/ZH  note.txt'' = Some ''note.txt''"
  by code_simp

end
