(* ===== verification/Ssh_Config.thy ===== *)
theory Ssh_Config
  imports Path_Rules "HOL-Library.Multiset"
begin

text \<open>
  The OpenSSH configuration importer of \<open>ssh_config.rs\<close>: comment and keyword grammar, \<open>Host\<close> blocks,
  glob patterns, resolution of a concrete host against the blocks that apply to it, and the expansion of
  \<open>Include\<close> lines, over a reader (the tests' seam) or over a file system.  Slicing a string inside a
  multi-byte character panics, so every function that slices returns \<open>Panic\<close> or a value.  The file
  system and the home directory are arguments; paths are those of a Unix build.
\<close>

section \<open>Definitions\<close>

datatype 'a rust = Panic | Ret 'a

fun rbind :: "'a rust \<Rightarrow> ('a \<Rightarrow> 'b rust) \<Rightarrow> 'b rust" where
  "rbind Panic f = Panic"
| "rbind (Ret x) f = f x"

text \<open>\<open>&s[i..]\<close> is defined at a character boundary only.\<close>

definition is_char_boundary :: "string \<Rightarrow> nat \<Rightarrow> bool" where
  "is_char_boundary s i \<longleftrightarrow>
     i = length s \<or> (i < length s \<and> ((of_char (s ! i) :: nat) < 128 \<or> (of_char (s ! i) :: nat) \<ge> 192))"

datatype AuthType = Password | Key

record HostEntry =
  he_host :: string
  he_host_name :: "string option"
  he_user :: "string option"
  he_port :: "nat option"
  he_identity_files :: "string list"
  he_preferred_auth_types :: "AuthType list option"

definition effective_host :: "HostEntry \<Rightarrow> string" where
  "effective_host e = (case he_host_name e of Some h \<Rightarrow> h | None \<Rightarrow> he_host e)"

record RawBlock =
  order_index :: nat
  patterns :: "string list"
  host_name :: "string option"
  user :: "string option"
  port :: "nat option"
  identity_files :: "string list"
  preferred_auth_types :: "AuthType list option"

subsection \<open>Line grammar\<close>

definition normalise_line_endings :: "string \<Rightarrow> string" where
  "normalise_line_endings content =
     (if CHR 0x0D \<notin> set content then content
      else replace_char (CHR 0x0D) (CHR 0x0A) (replace_all [CHR 0x0D, CHR 0x0A] [CHR 0x0A] content))"

fun strip_comment_from :: "bool \<Rightarrow> string \<Rightarrow> string" where
  "strip_comment_from in_quotes [] = []"
| "strip_comment_from in_quotes (c # s) =
     (let q = (if c = CHR 0x22 then \<not> in_quotes else in_quotes)
      in if c = CHR ''#'' \<and> \<not> q then [] else c # strip_comment_from q s)"

definition strip_comment :: "string \<Rightarrow> string" where
  "strip_comment line = strip_comment_from False line"

definition unquote :: "string \<Rightarrow> string" where
  "unquote value =
     (if length value \<ge> 2 \<and> starts_with [CHR 0x22] value \<and> ends_with [CHR 0x22] value
      then take (length value - 2) (drop 1 value) else value)"

definition split_keyword_value :: "string \<Rightarrow> (string \<times> string) option rust" where
  "split_keyword_value line =
     (case (find_idx ((=) (CHR ''='')) line, find_ws line) of
        (None, None) \<Rightarrow> Ret None
      | (e, s) \<Rightarrow>
          let sep_idx = (case (e, s) of (Some i, Some j) \<Rightarrow> min i j | (Some i, None) \<Rightarrow> i
                         | (None, Some j) \<Rightarrow> j | (None, None) \<Rightarrow> 0)
          in if \<not> is_char_boundary line (sep_idx + 1) then Panic
             else let keyword = trim (take sep_idx line);
                      rest0 = trim (drop (sep_idx + 1) line);
                      rest = (case strip_prefix ''='' rest0 of Some r \<Rightarrow> trim r | None \<Rightarrow> rest0)
                  in if keyword = [] \<or> rest = [] then Ret None else Ret (Some (keyword, unquote rest)))"

fun split_patterns_from :: "bool \<Rightarrow> string \<Rightarrow> string \<Rightarrow> string list" where
  "split_patterns_from in_quotes buf [] = (if buf = [] then [] else [rev buf])"
| "split_patterns_from in_quotes buf (c # s) =
     (if c = CHR 0x22 then split_patterns_from (\<not> in_quotes) buf s
      else if \<not> in_quotes \<and> (c = CHR 0x20 \<or> c = CHR 0x09) then
        (if buf = [] then split_patterns_from in_quotes [] s
         else rev buf # split_patterns_from in_quotes [] s)
      else split_patterns_from in_quotes (c # buf) s)"

definition split_host_patterns :: "string \<Rightarrow> string list" where
  "split_host_patterns value = split_patterns_from False [] value"

subsection \<open>Patterns\<close>

function glob_at :: "string \<Rightarrow> nat \<Rightarrow> string \<Rightarrow> nat \<Rightarrow> bool" where
  "glob_at p pi t ti =
     (if pi \<ge> length p then ti = length t
      else if p ! pi = CHR ''*'' then list_ex (glob_at p (pi + 1) t) [ti..<length t + 1]
      else if p ! pi = CHR ''?'' then (if ti = length t then False else glob_at p (pi + 1) t (ti + 1))
      else (if ti = length t \<or> t ! ti \<noteq> p ! pi then False else glob_at p (pi + 1) t (ti + 1)))"
  by pat_completeness auto
termination
  by (relation "measure (\<lambda>(p, pi, t, ti). length p - pi)") auto

declare glob_at.simps [simp del]

definition glob_matches :: "string \<Rightarrow> string \<Rightarrow> bool" where
  "glob_matches pattern text = glob_at pattern 0 text 0"

definition is_wildcard_pattern :: "string \<Rightarrow> bool" where
  "is_wildcard_pattern host \<longleftrightarrow> CHR ''*'' \<in> set host \<or> CHR ''?'' \<in> set host \<or> starts_with ''!'' host"

fun matches_from :: "bool \<Rightarrow> string list \<Rightarrow> string \<Rightarrow> bool" where
  "matches_from positive [] host = positive"
| "matches_from positive (raw # ps) host =
     (let (neg, pat) = (case strip_prefix ''!'' raw of Some rest \<Rightarrow> (True, rest) | None \<Rightarrow> (False, raw))
      in if \<not> glob_matches pat host then matches_from positive ps host
         else if neg then False
         else matches_from True ps host)"

definition matches :: "RawBlock \<Rightarrow> string \<Rightarrow> bool" where
  "matches b host = matches_from False (patterns b) host"

subsection \<open>Blocks\<close>

fun auths_from :: "AuthType list \<Rightarrow> string list \<Rightarrow> AuthType list" where
  "auths_from out [] = out"
| "auths_from out (part # ps) =
     (let m = map to_ascii_lower (trim part)
      in case (if m = ''publickey'' then Some Key
               else if m = ''password'' then Some Password
               else if m = ''keyboard-interactive'' then Some Password else None) of
           Some a \<Rightarrow> auths_from (if a \<in> set out then out else out @ [a]) ps
         | None \<Rightarrow> auths_from out ps)"

definition parse_preferred_auths :: "string \<Rightarrow> AuthType list option" where
  "parse_preferred_auths raw =
     (let out = auths_from [] (split_on (CHR '','') raw) in if out = [] then None else Some out)"

record parse_state =
  ps_blocks :: "RawBlock list"
  ps_patterns :: "string list option"
  ps_host_name :: "string option"
  ps_user :: "string option"
  ps_port :: "nat option"
  ps_preferred :: "AuthType list option"
  ps_identity_files :: "string list"

definition parse_init :: parse_state where
  "parse_init = \<lparr> ps_blocks = [], ps_patterns = None, ps_host_name = None, ps_user = None, ps_port = None,
                  ps_preferred = None, ps_identity_files = [] \<rparr>"

definition flush :: "parse_state \<Rightarrow> parse_state" where
  "flush s =
     (case ps_patterns s of
        None \<Rightarrow> s
      | Some p \<Rightarrow>
          parse_init\<lparr> ps_blocks := ps_blocks s @
            [\<lparr> order_index = length (ps_blocks s), patterns = p, host_name = ps_host_name s, user = ps_user s,
               port = ps_port s, identity_files = ps_identity_files s, preferred_auth_types = ps_preferred s \<rparr>] \<rparr>)"

definition parse_directive :: "string \<Rightarrow> string \<Rightarrow> parse_state \<Rightarrow> parse_state" where
  "parse_directive kw value s =
     (if kw = ''host'' then (flush s)\<lparr> ps_patterns := Some (split_host_patterns value) \<rparr>
      else if ps_patterns s = None then s
      else if kw = ''hostname'' \<and> ps_host_name s = None then s\<lparr> ps_host_name := Some value \<rparr>
      else if kw = ''user'' \<and> ps_user s = None then s\<lparr> ps_user := Some value \<rparr>
      else if kw = ''port'' \<and> ps_port s = None then s\<lparr> ps_port := parse_unsigned 65535 value \<rparr>
      else if kw = ''identityfile'' then s\<lparr> ps_identity_files := ps_identity_files s @ [value] \<rparr>
      else if kw = ''preferredauthentications'' \<and> ps_preferred s = None
        then s\<lparr> ps_preferred := parse_preferred_auths value \<rparr>
      else s)"

text \<open>Keyword and value of a line, if it has any.\<close>

definition directive :: "string \<Rightarrow> (string \<times> string) option rust" where
  "directive raw_line =
     (let line = trim (strip_comment raw_line)
      in if line = [] then Ret None else split_keyword_value line)"

fun parse_block_lines :: "string list \<Rightarrow> parse_state \<Rightarrow> parse_state rust" where
  "parse_block_lines [] s = Ret s"
| "parse_block_lines (l # ls) s =
     rbind (directive l) (\<lambda>d. case d of
       None \<Rightarrow> parse_block_lines ls s
     | Some (kw, value) \<Rightarrow> parse_block_lines ls (parse_directive (map to_ascii_lower kw) value s))"

definition parse_blocks :: "string \<Rightarrow> RawBlock list rust" where
  "parse_blocks content = rbind (parse_block_lines (str_lines content) parse_init) (\<lambda>s. Ret (ps_blocks (flush s)))"

subsection \<open>Resolution\<close>

definition or_else :: "'a option \<Rightarrow> 'a option \<Rightarrow> 'a option" where
  "or_else a b = (case a of None \<Rightarrow> b | Some _ \<Rightarrow> a)"

text \<open>Blocks are compared by address; in one parse the address and \<open>order_index\<close> determine each other.\<close>

definition resolve_entry :: "string \<Rightarrow> RawBlock \<Rightarrow> RawBlock list \<Rightarrow> HostEntry" where
  "resolve_entry host own wildcards =
     (let ordered = sort_key order_index
            (if list_ex (\<lambda>b. order_index b = order_index own) wildcards then wildcards else wildcards @ [own])
      in fold (\<lambda>b e.
                 if order_index b \<noteq> order_index own \<and> \<not> matches b host then e
                 else e\<lparr> he_host_name := or_else (he_host_name e) (host_name b),
                          he_user := or_else (he_user e) (user b),
                          he_port := or_else (he_port e) (port b),
                          he_preferred_auth_types := or_else (he_preferred_auth_types e) (preferred_auth_types b),
                          he_identity_files := he_identity_files e @ identity_files b \<rparr>)
           ordered
           \<lparr> he_host = host, he_host_name = None, he_user = None, he_port = None, he_identity_files = [],
             he_preferred_auth_types = None \<rparr>)"

definition is_wildcard_block :: "RawBlock \<Rightarrow> bool" where
  "is_wildcard_block b \<longleftrightarrow> list_all is_wildcard_pattern (patterns b) \<or> list_ex is_wildcard_pattern (patterns b)"

definition parse_expanded :: "string \<Rightarrow> HostEntry list rust" where
  "parse_expanded expanded =
     rbind (parse_blocks expanded) (\<lambda>blocks.
       let wildcard_blocks = filter is_wildcard_block blocks;
           concrete = concat (map (\<lambda>b. map (\<lambda>pat. (b, pat)) (filter (\<lambda>p. \<not> is_wildcard_pattern p) (patterns b))) blocks)
       in Ret (map (\<lambda>(own, pat). resolve_entry pat own wildcard_blocks) concrete))"

subsection \<open>Include expansion\<close>

definition is_absolute_path :: "string \<Rightarrow> bool" where
  "is_absolute_path path =
     (if starts_with ''/'' path then True
      else if length path \<ge> 2 \<and> path ! 1 = CHR '':'' then True
      else if starts_with [CHR 0x5C, CHR 0x5C] path then True
      else False)"

definition anchor_include :: "string option \<Rightarrow> string \<Rightarrow> string \<Rightarrow> string" where
  "anchor_include home pattern base_dir =
     (if pattern = ''~'' then expand_tilde home ''~''
      else if starts_with ''~/'' pattern then expand_tilde home pattern
      else if \<not> is_absolute_path pattern then base_dir @ ''/'' @ pattern
      else pattern)"

definition resolve_include_paths :: "string option \<Rightarrow> string \<Rightarrow> string \<Rightarrow> string list" where
  "resolve_include_paths home pattern base_dir = [anchor_include home pattern base_dir]"

text \<open>A file system: the directory entries with their kind, and the regular files with size and text.\<close>

record file_system =
  fs_dir :: "string \<Rightarrow> (string \<times> bool) list option"
  fs_stat :: "string \<Rightarrow> (bool \<times> nat) option"
  fs_text :: "string \<Rightarrow> string option"

definition MAX_INCLUDE_FILE_BYTES :: nat where
  "MAX_INCLUDE_FILE_BYTES = 1024 * 1024"

definition read_include_file :: "file_system \<Rightarrow> string \<Rightarrow> string option" where
  "read_include_file F path =
     (case fs_stat F path of
        None \<Rightarrow> None
      | Some (is_file, len) \<Rightarrow>
          if \<not> is_file then None
          else if len > MAX_INCLUDE_FILE_BYTES then None
          else fs_text F path)"

definition path_join :: "string \<Rightarrow> string \<Rightarrow> string" where
  "path_join dir name = (if dir = [] \<or> ends_with ''/'' dir then dir @ name else dir @ ''/'' @ name)"

definition glob_files :: "file_system \<Rightarrow> string \<Rightarrow> string list" where
  "glob_files F pattern =
     (let normalised = replace_char (CHR 0x5C) (CHR ''/'') pattern
      in case rfind_idx ((=) (CHR ''/'')) normalised of
           None \<Rightarrow> []
         | Some i \<Rightarrow>
             let dir_path = take i pattern; base_pattern = drop (i + 1) normalised
             in case fs_dir F dir_path of
                  None \<Rightarrow> []
                | Some es \<Rightarrow>
                    sort (map (path_join dir_path \<circ> fst)
                      (filter (\<lambda>(name, is_file). is_file \<and> from_utf8 (str_bytes name) \<noteq> None \<and>
                                 glob_matches base_pattern name) es)))"

definition resolve_include_paths_with_fs :: "string option \<Rightarrow> file_system \<Rightarrow> string \<Rightarrow> string \<Rightarrow> string list" where
  "resolve_include_paths_with_fs home F pattern base_dir =
     (let resolved = anchor_include home pattern base_dir
      in if CHR ''*'' \<notin> set resolved \<and> CHR ''?'' \<notin> set resolved then [resolved]
         else glob_files F resolved)"

type_synonym visited = "string list"
type_synonym expander = "string \<Rightarrow> visited \<Rightarrow> (string \<times> visited) rust"

text \<open>The files of one \<open>Include\<close> line; \<open>rec\<close> expands an included file one level deeper.\<close>

fun include_files :: "(string \<Rightarrow> string option) \<Rightarrow> expander \<Rightarrow> string list \<Rightarrow> visited \<Rightarrow> (string \<times> visited) rust" where
  "include_files reader rec [] visited = Ret ([], visited)"
| "include_files reader rec (resolved # rs) visited =
     (if resolved \<in> set visited then include_files reader rec rs visited
      else let visited1 = visited @ [resolved]
           in case reader resolved of
                None \<Rightarrow> include_files reader rec rs visited1
              | Some included \<Rightarrow>
                  rbind (rec included visited1) (\<lambda>(out, visited2).
                  rbind (include_files reader rec rs visited2) (\<lambda>(out', visited3).
                    Ret (out @ [CHR 0x0A] @ out', visited3))))"

text \<open>\<open>None\<close>: not an \<open>Include\<close> line.\<close>

definition expand_include_line ::
  "(string \<Rightarrow> string list) \<Rightarrow> (string \<Rightarrow> string option) \<Rightarrow> expander \<Rightarrow> string \<Rightarrow> visited \<Rightarrow> (string \<times> visited) option rust" where
  "expand_include_line resolve reader rec raw_line visited =
     rbind (directive raw_line) (\<lambda>d. case d of
       None \<Rightarrow> Ret None
     | Some (kw, value) \<Rightarrow>
         if map to_ascii_lower kw \<noteq> ''include'' then Ret None
         else rbind (include_files reader rec (concat (map resolve (split_host_patterns value))) visited)
                (\<lambda>r. Ret (Some r)))"

fun expand_lines ::
  "(string \<Rightarrow> string list) \<Rightarrow> (string \<Rightarrow> string option) \<Rightarrow> expander \<Rightarrow> string list \<Rightarrow> visited \<Rightarrow> (string \<times> visited) rust" where
  "expand_lines resolve reader rec [] visited = Ret ([], visited)"
| "expand_lines resolve reader rec (l # ls) visited =
     rbind (expand_include_line resolve reader rec l visited) (\<lambda>r.
       let (out, visited1) = (case r of Some x \<Rightarrow> x | None \<Rightarrow> (l @ [CHR 0x0A], visited))
       in rbind (expand_lines resolve reader rec ls visited1) (\<lambda>(out', visited2). Ret (out @ out', visited2)))"

primrec expand :: "(string \<Rightarrow> string list) \<Rightarrow> (string \<Rightarrow> string option) \<Rightarrow> nat \<Rightarrow> expander" where
  "expand resolve reader 0 = (\<lambda>content visited. Ret (content, visited))"
| "expand resolve reader (Suc n) =
     (\<lambda>content visited. expand_lines resolve reader (expand resolve reader n) (str_lines content) visited)"

definition expand_includes :: "string option \<Rightarrow> (string \<Rightarrow> string option) \<Rightarrow> string \<Rightarrow> nat \<Rightarrow> expander" where
  "expand_includes home reader base_dir remaining =
     expand (\<lambda>token. resolve_include_paths home token base_dir) reader remaining"

definition expand_includes_with_fs :: "string option \<Rightarrow> file_system \<Rightarrow> string \<Rightarrow> nat \<Rightarrow> expander" where
  "expand_includes_with_fs home F base_dir remaining =
     expand (\<lambda>token. resolve_include_paths_with_fs home F token base_dir) (read_include_file F) remaining"

definition parse_openssh_config ::
  "string option \<Rightarrow> string \<Rightarrow> (string \<Rightarrow> string option) \<Rightarrow> string \<Rightarrow> nat \<Rightarrow> HostEntry list rust" where
  "parse_openssh_config home content include_reader base_dir max_include_depth =
     rbind (expand_includes home include_reader base_dir max_include_depth (normalise_line_endings content) [])
       (\<lambda>(expanded, visited). parse_expanded expanded)"

definition parse_openssh_config_with_fs :: "string option \<Rightarrow> file_system \<Rightarrow> string \<Rightarrow> string \<Rightarrow> nat \<Rightarrow> HostEntry list rust" where
  "parse_openssh_config_with_fs home F content base_dir max_include_depth =
     rbind (expand_includes_with_fs home F base_dir max_include_depth (normalise_line_endings content) [])
       (\<lambda>(expanded, visited). parse_expanded expanded)"

fun include_paths_of_lines :: "string option \<Rightarrow> string \<Rightarrow> string list \<Rightarrow> string list rust" where
  "include_paths_of_lines home base_dir [] = Ret []"
| "include_paths_of_lines home base_dir (l # ls) =
     rbind (directive l) (\<lambda>d.
     rbind (include_paths_of_lines home base_dir ls) (\<lambda>rest.
       Ret ((case d of
               None \<Rightarrow> []
             | Some (kw, value) \<Rightarrow>
                 if map to_ascii_lower kw \<noteq> ''include'' then []
                 else concat (map (\<lambda>token. resolve_include_paths home token base_dir) (split_host_patterns value))) @ rest)))"

definition resolve_include_paths_for_content :: "string option \<Rightarrow> string \<Rightarrow> string \<Rightarrow> string list rust" where
  "resolve_include_paths_for_content home content base_dir = include_paths_of_lines home base_dir (str_lines content)"

section \<open>Lemmas\<close>

subsection \<open>Glob patterns\<close>

text \<open>A text matches when it splits into one piece per pattern character.\<close>

definition piece_ok :: "char \<Rightarrow> string \<Rightarrow> bool" where
  "piece_ok c piece \<longleftrightarrow>
     (if c = CHR ''*'' then True else if c = CHR ''?'' then length piece = 1 else piece = [c])"

definition glob_spec :: "string \<Rightarrow> string \<Rightarrow> bool" where
  "glob_spec pattern text \<longleftrightarrow> (\<exists>ps. list_all2 piece_ok pattern ps \<and> concat ps = text)"

lemma glob_spec_Nil [simp]: "glob_spec [] t \<longleftrightarrow> t = []"
  by (auto simp: glob_spec_def)

lemma glob_spec_Cons: "glob_spec (c # p) t \<longleftrightarrow> (\<exists>a b. t = a @ b \<and> piece_ok c a \<and> glob_spec p b)"
proof
  assume "glob_spec (c # p) t"
  then obtain a ps where "t = a @ concat ps" "piece_ok c a" "list_all2 piece_ok p ps"
    by (auto simp: glob_spec_def list_all2_Cons1)
  then show "\<exists>a b. t = a @ b \<and> piece_ok c a \<and> glob_spec p b"
    by (intro exI [of _ a] exI [of _ "concat ps"]) (auto simp: glob_spec_def)
next
  assume "\<exists>a b. t = a @ b \<and> piece_ok c a \<and> glob_spec p b"
  then obtain a ps where "piece_ok c a" "list_all2 piece_ok p ps" "t = a @ concat ps"
    by (auto simp: glob_spec_def)
  then show "glob_spec (c # p) t" unfolding glob_spec_def by (intro exI [of _ "a # ps"]) simp
qed

lemma glob_spec_star: "glob_spec (CHR ''*'' # p) t \<longleftrightarrow> (\<exists>k \<le> length t. glob_spec p (drop k t))"
proof
  assume "glob_spec (CHR ''*'' # p) t"
  then obtain a b where "t = a @ b" "glob_spec p b" by (auto simp: glob_spec_Cons)
  then show "\<exists>k \<le> length t. glob_spec p (drop k t)" by (intro exI [of _ "length a"]) simp
next
  assume "\<exists>k \<le> length t. glob_spec p (drop k t)"
  then obtain k where "glob_spec p (drop k t)" by blast
  then show "glob_spec (CHR ''*'' # p) t"
    unfolding glob_spec_Cons by (intro exI [of _ "take k t"] exI [of _ "drop k t"]) (simp add: piece_ok_def)
qed

lemma glob_spec_single:
  "c \<noteq> CHR ''*'' \<Longrightarrow> glob_spec (c # p) t \<longleftrightarrow>
     (\<exists>x b. t = x # b \<and> (c = CHR ''?'' \<or> x = c) \<and> glob_spec p b)"
proof -
  assume "c \<noteq> CHR ''*''"
  then have "piece_ok c a \<longleftrightarrow> (\<exists>x. a = [x] \<and> (c = CHR ''?'' \<or> x = c))" for a
    by (auto simp: piece_ok_def length_Suc_conv)
  then have "glob_spec (c # p) t \<longleftrightarrow> (\<exists>b x. t = [x] @ b \<and> (c = CHR ''?'' \<or> x = c) \<and> glob_spec p b)"
    unfolding glob_spec_Cons by blast
  then show ?thesis by auto
qed

lemma shift_ex:
  assumes "a \<le> (n :: nat)"
  shows "(\<exists>k. a \<le> k \<and> k \<le> n \<and> P k) \<longleftrightarrow> (\<exists>j \<le> n - a. P (a + j))"
proof
  assume "\<exists>k. a \<le> k \<and> k \<le> n \<and> P k"
  then obtain k where "a \<le> k" "k \<le> n" "P k" by blast
  then show "\<exists>j \<le> n - a. P (a + j)" by (intro exI [of _ "k - a"]) simp
next
  assume "\<exists>j \<le> n - a. P (a + j)"
  then obtain j where "j \<le> n - a" "P (a + j)" by blast
  with assms show "\<exists>k. a \<le> k \<and> k \<le> n \<and> P k" by (intro exI [of _ "a + j"]) simp
qed

lemma glob_at_spec: "ti \<le> length t \<Longrightarrow> glob_at p pi t ti \<longleftrightarrow> glob_spec (drop pi p) (drop ti t)"
proof (induction p pi t ti rule: glob_at.induct)
  case (1 p pi t ti)
  show ?case
  proof (cases "pi \<ge> length p")
    case True
    with 1 show ?thesis by (auto simp: glob_at.simps [of p pi])
  next
    case False
    then have p: "drop pi p = p ! pi # drop (pi + 1) p" by (simp add: Cons_nth_drop_Suc)
    consider "p ! pi = CHR ''*''" | "p ! pi \<noteq> CHR ''*''" "ti = length t" | "p ! pi \<noteq> CHR ''*''" "ti < length t"
      using "1.prems" by linarith
    then show ?thesis
    proof cases
      case 1
      have "glob_at p pi t ti \<longleftrightarrow> (\<exists>k. ti \<le> k \<and> k \<le> length t \<and> glob_spec (drop (pi + 1) p) (drop k t))"
      proof -
        have "glob_at p pi t ti \<longleftrightarrow> (\<exists>k \<in> {ti..length t}. glob_at p (pi + 1) t k)"
          using 1 False by (simp add: glob_at.simps [of p pi] list_ex_iff atLeastLessThanSuc_atLeastAtMost del: upt_Suc)
        also have "\<dots> \<longleftrightarrow> (\<exists>k \<in> {ti..length t}. glob_spec (drop (pi + 1) p) (drop k t))"
          using "1.IH"(1) [OF False 1] by (intro bex_cong) (simp_all del: upt_Suc)
        finally show ?thesis by auto
      qed
      also have "\<dots> \<longleftrightarrow> (\<exists>j \<le> length t - ti. glob_spec (drop (pi + 1) p) (drop (ti + j) t))"
        by (rule shift_ex) (rule "1.prems")
      finally show ?thesis by (simp add: p 1 glob_spec_star add.commute)
    next
      case 2
      then show ?thesis using False by (simp add: glob_at.simps [of p pi] p glob_spec_single)
    next
      case 3
      then have t: "drop ti t = t ! ti # drop (ti + 1) t" by (simp add: Cons_nth_drop_Suc)
      show ?thesis
        using 3 False "1.IH"(2,3) [OF False 3(1)] by (auto simp: glob_at.simps [of p pi] p t glob_spec_single)
    qed
  qed
qed

subsection \<open>Blocks and resolution\<close>

definition numbered :: "RawBlock list \<Rightarrow> bool" where
  "numbered bs \<longleftrightarrow> map order_index bs = [0..<length bs]"

lemma numbered_init: "numbered (ps_blocks parse_init)"
  by (simp add: parse_init_def numbered_def)

lemma numbered_flush: "numbered (ps_blocks s) \<Longrightarrow> numbered (ps_blocks (flush s))"
  by (simp add: numbered_def flush_def split: option.split)

lemma numbered_directive: "numbered (ps_blocks s) \<Longrightarrow> numbered (ps_blocks (parse_directive kw v s))"
  by (simp add: parse_directive_def numbered_flush)

lemma numbered_lines: "parse_block_lines ls s = Ret s' \<Longrightarrow> numbered (ps_blocks s) \<Longrightarrow> numbered (ps_blocks s')"
proof (induction ls arbitrary: s)
  case (Cons l ls)
  then show ?case
    by (cases "directive l") (auto simp: numbered_directive split: option.splits)
qed simp

lemma numbered_blocks: "parse_blocks text = Ret bs \<Longrightarrow> numbered bs"
  unfolding parse_blocks_def
  by (cases "parse_block_lines (str_lines text) parse_init")
     (auto intro!: numbered_flush intro: numbered_lines [OF _ numbered_init])

definition first_set :: "('b \<Rightarrow> 'a option) \<Rightarrow> 'b list \<Rightarrow> 'a option" where
  "first_set f bs = (case List.map_filter f bs of [] \<Rightarrow> None | x # _ \<Rightarrow> Some x)"

definition merged_entry :: "string \<Rightarrow> RawBlock list \<Rightarrow> HostEntry" where
  "merged_entry host bs =
     \<lparr> he_host = host, he_host_name = first_set host_name bs, he_user = first_set user bs,
       he_port = first_set port bs, he_identity_files = concat (map identity_files bs),
       he_preferred_auth_types = first_set preferred_auth_types bs \<rparr>"

lemma first_set_snoc: "first_set f (bs @ [b]) = or_else (first_set f bs) (f b)"
  by (induction bs) (auto simp: first_set_def or_else_def List.map_filter_simps split: option.splits list.splits)

lemma fold_merge:
  "fold (\<lambda>b e. if order_index b \<noteq> k \<and> \<not> matches b host then e
                else e\<lparr> he_host_name := or_else (he_host_name e) (host_name b),
                         he_user := or_else (he_user e) (user b),
                         he_port := or_else (he_port e) (port b),
                         he_preferred_auth_types := or_else (he_preferred_auth_types e) (preferred_auth_types b),
                         he_identity_files := he_identity_files e @ identity_files b \<rparr>)
     bs \<lparr> he_host = host, he_host_name = None, he_user = None, he_port = None, he_identity_files = [],
          he_preferred_auth_types = None \<rparr>
   = merged_entry host (filter (\<lambda>b. order_index b = k \<or> matches b host) bs)"
proof (induction bs rule: rev_induct)
  case Nil
  show ?case by (simp add: merged_entry_def first_set_def List.map_filter_simps)
next
  case (snoc b bs)
  then show ?case by (simp add: merged_entry_def first_set_snoc)
qed

lemma filter_one: "distinct xs \<Longrightarrow> x \<in> set xs \<Longrightarrow> filter ((=) x) xs = [x]"
  by (induction xs) (auto simp: filter_empty_conv)

lemma sorted_insert_own:
  assumes "numbered blocks" and "own \<in> set blocks"
  shows "sort_key order_index
      (if list_ex (\<lambda>b. order_index b = order_index own) (filter W blocks) then filter W blocks else filter W blocks @ [own])
    = filter (\<lambda>b. order_index b = order_index own \<or> W b) blocks"
proof -
  have dist: "distinct (map order_index blocks)" and sorted: "sorted (map order_index blocks)"
    using assms(1) by (simp_all add: numbered_def)
  then have inj: "inj_on order_index (set blocks)" by (simp add: distinct_map)
  have same: "b = own" if "b \<in> set blocks" "order_index b = order_index own" for b
    using that assms(2) inj by (simp add: inj_on_def)
  let ?r = "filter (\<lambda>b. order_index b = order_index own \<or> W b) blocks"
  have rs: "sorted (map order_index ?r)" using sorted sorted_filter by blast
  show ?thesis
  proof (cases "W own")
    case True
    then have "list_ex (\<lambda>b. order_index b = order_index own) (filter W blocks)"
      using assms(2) by (auto simp: list_ex_iff)
    moreover have "?r = filter W blocks" using True same by (intro filter_cong) auto
    ultimately show ?thesis using rs by (simp add: sort_key_id_if_sorted)
  next
    case False
    then have "\<not> list_ex (\<lambda>b. order_index b = order_index own) (filter W blocks)"
      using same by (auto simp: list_ex_iff)
    moreover have "sort_key order_index (filter W blocks @ [own]) = ?r"
    proof (rule sort_key_inj_key_eq)
      have "filter (\<lambda>b. order_index b = order_index own) blocks = filter ((=) own) blocks"
        using same by (intro filter_cong) auto
      also have "mset \<dots> = {#own#}"
        using assms(2) dist filter_one [of blocks own] by (simp add: distinct_map del: mset_filter)
      finally have o: "mset (filter (\<lambda>b. order_index b = order_index own) blocks) = {#own#}" .
      have "mset ?r = mset (filter (\<lambda>b. order_index b = order_index own) blocks) + mset (filter W blocks)"
        using False same by (induction blocks) auto
      then show "mset (filter W blocks @ [own]) = mset ?r" using o by simp
      show "inj_on order_index (set (filter W blocks @ [own]))"
        using assms(2) by (intro inj_on_subset [OF inj]) auto
      show "sorted (map order_index ?r)" by (rule rs)
    qed
    ultimately show ?thesis by simp
  qed
qed

subsection \<open>ASCII text\<close>

definition ascii :: "string \<Rightarrow> bool" where
  "ascii s \<longleftrightarrow> (\<forall>c \<in> set s. (of_char c :: nat) < 128)"

lemma ascii_simps [simp]:
  "ascii []" "ascii (c # s) \<longleftrightarrow> (of_char c :: nat) < 128 \<and> ascii s" "ascii (s @ t) \<longleftrightarrow> ascii s \<and> ascii t"
  by (auto simp: ascii_def)

lemma ascii_subset: "ascii s \<Longrightarrow> set t \<subseteq> set s \<Longrightarrow> ascii t"
  by (auto simp: ascii_def)

lemma ascii_boundary: "ascii s \<Longrightarrow> i \<le> length s \<Longrightarrow> is_char_boundary s i"
  by (auto simp: is_char_boundary_def ascii_def)

lemma find_ws_less: "find_ws s = Some i \<Longrightarrow> i < length s"
  by (induction s arbitrary: i) (auto split: if_splits)

lemma set_strip_comment: "set (strip_comment_from q s) \<subseteq> set s"
  by (induction q s rule: strip_comment_from.induct) (auto simp: Let_def)

lemma split_keyword_value_ascii: "ascii line \<Longrightarrow> split_keyword_value line \<noteq> Panic"
  unfolding split_keyword_value_def
  by (auto simp: Let_def ascii_boundary Suc_le_eq dest: find_ws_less find_idx_Some [THEN iffD1]
      split: option.splits)

lemma directive_ascii: "ascii l \<Longrightarrow> directive l \<noteq> Panic"
  unfolding directive_def Let_def
  using set_strip_comment [of False l] set_trim_subset [of "strip_comment l"]
  by (auto simp: strip_comment_def intro!: split_keyword_value_ascii elim!: ascii_subset)

lemma parse_lines_ascii: "\<forall>l \<in> set ls. ascii l \<Longrightarrow> parse_block_lines ls s \<noteq> Panic"
proof (induction ls arbitrary: s)
  case (Cons l ls)
  then show ?case using directive_ascii [of l]
    by (cases "directive l") (auto split: option.splits)
qed simp

lemma set_join: "p \<in> set ps \<Longrightarrow> set p \<subseteq> set (join sep ps)"
  by (induction sep ps rule: join.induct) auto

lemma set_split_on: "p \<in> set (split_on d s) \<Longrightarrow> set p \<subseteq> set s"
  using set_join [of p "split_on d s" "[d]"] by simp

lemma set_chop_cr: "set (chop_cr l) \<subseteq> set l"
  by (auto simp: chop_cr_def split: option.splits)

lemma str_lines_pieces: "l \<in> set (str_lines s) \<Longrightarrow> \<exists>p \<in> set (split_on (CHR 0x0A) s). set l \<subseteq> set p"
proof -
  let ?ps = "split_on (CHR 0x0A) s"
  assume "l \<in> set (str_lines s)"
  then consider p where "p \<in> set (butlast ?ps)" "l = chop_cr p" | "l = last ?ps"
    unfolding str_lines_def Let_def by (auto split: if_splits)
  then show ?thesis
  proof cases
    case 1
    then show ?thesis using set_chop_cr in_set_butlastD by metis
  next
    case 2
    then show ?thesis by (intro bexI [of _ "last ?ps"]) simp_all
  qed
qed

lemma ascii_lines: "ascii s \<Longrightarrow> l \<in> set (str_lines s) \<Longrightarrow> ascii l"
  using str_lines_pieces set_split_on by (meson ascii_subset subset_trans)

lemma parse_blocks_ascii: "ascii s \<Longrightarrow> parse_blocks s \<noteq> Panic"
  using parse_lines_ascii [of "str_lines s" parse_init] ascii_lines [of s]
  unfolding parse_blocks_def by (cases "parse_block_lines (str_lines s) parse_init") auto

lemma parse_expanded_ascii: "ascii s \<Longrightarrow> parse_expanded s \<noteq> Panic"
  using parse_blocks_ascii [of s] by (cases "parse_blocks s") (simp_all add: parse_expanded_def Let_def)

definition safe_rec :: "expander \<Rightarrow> bool" where
  "safe_rec rec \<longleftrightarrow> (\<forall>c v. ascii c \<longrightarrow> (\<exists>out v'. rec c v = Ret (out, v') \<and> ascii out))"

lemma include_files_ascii:
  assumes "safe_rec rec" and "\<forall>p t. reader p = Some t \<longrightarrow> ascii t"
  shows "\<exists>out v'. include_files reader rec rs v = Ret (out, v') \<and> ascii out"
proof (induction rs arbitrary: v)
  case (Cons r rs)
  show ?case
  proof (cases "r \<in> set v")
    case True
    then show ?thesis using Cons by simp
  next
    case False
    show ?thesis
    proof (cases "reader r")
      case None
      then show ?thesis using False Cons by simp
    next
      case (Some t)
      then obtain o1 v1 where 1: "rec t (v @ [r]) = Ret (o1, v1)" "ascii o1"
        using assms unfolding safe_rec_def by blast
      obtain o2 v2 where "include_files reader rec rs v1 = Ret (o2, v2)" "ascii o2" using Cons by blast
      with 1 False Some show ?thesis by simp
    qed
  qed
qed simp

lemma include_line_ascii:
  assumes "safe_rec rec" "\<forall>p t. reader p = Some t \<longrightarrow> ascii t" "ascii l"
  shows "\<exists>r. expand_include_line resolve reader rec l v = Ret r \<and> (\<forall>out v'. r = Some (out, v') \<longrightarrow> ascii out)"
proof (cases "directive l")
  case Panic
  with directive_ascii assms(3) show ?thesis by blast
next
  case (Ret d)
  show ?thesis
  proof (cases d)
    case None
    with Ret show ?thesis by (simp add: expand_include_line_def)
  next
    case (Some kv)
    obtain kw v0 where kv: "kv = (kw, v0)" by (cases kv)
    obtain out v' where "include_files reader rec (concat (map resolve (split_host_patterns v0))) v = Ret (out, v')" "ascii out"
      using include_files_ascii [OF assms(1,2)] by blast
    with Ret Some kv show ?thesis by (simp add: expand_include_line_def)
  qed
qed

lemma expand_lines_ascii:
  assumes "safe_rec rec" "\<forall>p t. reader p = Some t \<longrightarrow> ascii t" "\<forall>l \<in> set ls. ascii l"
  shows "\<exists>out v'. expand_lines resolve reader rec ls v = Ret (out, v') \<and> ascii out"
  using assms(3)
proof (induction ls arbitrary: v)
  case (Cons l ls)
  then obtain r where r: "expand_include_line resolve reader rec l v = Ret r"
      "\<forall>out v'. r = Some (out, v') \<longrightarrow> ascii out"
    using include_line_ascii [OF assms(1,2)] by (metis list.set_intros(1))
  obtain o1 v1 where 1: "(case r of Some x \<Rightarrow> x | None \<Rightarrow> (l @ [CHR 0x0A], v)) = (o1, v1)" by force
  have "ascii o1" using 1 r(2) Cons.prems by (cases r) auto
  moreover obtain o2 v2 where "expand_lines resolve reader rec ls v1 = Ret (o2, v2)" "ascii o2"
    using Cons.IH [of v1] Cons.prems by force
  ultimately show ?case using r(1) 1 by simp
qed simp

lemma expand_ascii: "\<forall>p t. reader p = Some t \<longrightarrow> ascii t \<Longrightarrow> safe_rec (expand resolve reader n)"
proof (induction n)
  case (Suc n)
  then have "\<exists>out v'. expand_lines resolve reader (expand resolve reader n) (str_lines c) v = Ret (out, v') \<and> ascii out"
    if "ascii c" for c v
    by (intro expand_lines_ascii) (auto intro: ascii_lines [OF that])
  then show ?case by (simp add: safe_rec_def)
qed (simp add: safe_rec_def)

lemma set_replace_all: "set (replace_all pat rep s) \<subseteq> set s \<union> set rep"
proof (induction s rule: length_induct)
  case (1 s)
  show ?case
  proof (cases "pat = [] \<or> s = []")
    case True
    then show ?thesis by (subst replace_all.simps) auto
  next
    case False
    then obtain c s' where s: "s = c # s'" "pat \<noteq> []" by (cases s) auto
    show ?thesis
    proof (cases "strip_prefix pat s")
      case None
      then have "replace_all pat rep s = c # replace_all pat rep s'"
        using s by (subst replace_all.simps) (simp del: strip_prefix_eq_Some)
      moreover have "set (replace_all pat rep s') \<subseteq> set s' \<union> set rep" using 1 s by simp
      ultimately show ?thesis using s by auto
    next
      case (Some r)
      then have "replace_all pat rep s = rep @ replace_all pat rep r"
        using s by (subst replace_all.simps) (simp del: strip_prefix_eq_Some)
      moreover have r: "s = pat @ r" using Some by simp
      moreover have "set (replace_all pat rep r) \<subseteq> set r \<union> set rep"
        using 1 [rule_format, of r] s(2) unfolding r by simp
      ultimately show ?thesis by auto
    qed
  qed
qed

lemma ascii_normalise: "ascii s \<Longrightarrow> ascii (normalise_line_endings s)"
  using set_replace_all [of "[CHR 0x0D, CHR 0x0A]" "[CHR 0x0A]" s]
  by (auto simp: normalise_line_endings_def ascii_def replace_char_def)

subsection \<open>Inlining\<close>

text \<open>A line that is no \<open>Include\<close> directive.\<close>

definition plain_line :: "string \<Rightarrow> bool" where
  "plain_line l \<longleftrightarrow> line_ok l \<and>
     (case directive l of Panic \<Rightarrow> False | Ret None \<Rightarrow> True | Ret (Some (kw, v)) \<Rightarrow> map to_ascii_lower kw \<noteq> ''include'')"

lemma normalise_unlines: "\<forall>l \<in> set ls. line_ok l \<Longrightarrow> normalise_line_endings (unlines ls) = unlines ls"
  by (auto simp: normalise_line_endings_def unlines_def line_ok_def)

lemma expand_plain:
  "\<forall>l \<in> set ls. plain_line l \<Longrightarrow>
     expand_lines resolve reader rec (ls @ ms) v =
       rbind (expand_lines resolve reader rec ms v) (\<lambda>(out, v'). Ret (unlines ls @ out, v'))"
proof (induction ls)
  case Nil
  show ?case by (cases "expand_lines resolve reader rec ms v") auto
next
  case (Cons l ls)
  have "expand_include_line resolve reader rec l v = Ret None"
    using Cons.prems by (auto simp: expand_include_line_def plain_line_def split: rust.splits option.splits)
  with Cons show ?case by (cases "expand_lines resolve reader rec ms v") auto
qed

lemma parse_block_lines_append:
  "parse_block_lines (ls @ ms) s = rbind (parse_block_lines ls s) (parse_block_lines ms)"
proof (induction ls arbitrary: s)
  case (Cons l ls)
  then show ?case by (cases "directive l") (auto split: option.splits)
qed simp

lemma parse_block_lines_blank: "parse_block_lines (ls @ [] # ms) s = parse_block_lines (ls @ ms) s"
proof -
  have "directive [] = Ret None" by (simp add: directive_def strip_comment_def trim_noop)
  then show ?thesis by (cases "parse_block_lines ls s") (simp_all add: parse_block_lines_append)
qed

lemma plain_line_ok: "\<forall>l \<in> set ls. plain_line l \<Longrightarrow> \<forall>l \<in> set ls. line_ok l"
  by (auto simp: plain_line_def)

section \<open>Properties\<close>

text \<open>
  Glob matching is what the grammar says: a text matches a pattern exactly when it can be cut into
  one piece per pattern character, any piece for \<open>*\<close>, one byte for \<open>?\<close> and the character itself for
  every other.
\<close>

theorem glob_matches_correct:
  "glob_matches pattern text \<longleftrightarrow> (\<exists>pieces. list_all2 piece_ok pattern pieces \<and> concat pieces = text)"
  using glob_at_spec [of 0 "text" pattern 0] by (simp add: glob_matches_def glob_spec_def)


definition demo_config :: string where
  "demo_config = ''Host *'' @ [CHR 0x0A] @ ''User a'' @ [CHR 0x0A] @ ''Host prod'' @ [CHR 0x0A] @ ''User b''"

definition demo_blocks :: "RawBlock list" where
  "demo_blocks =
     [\<lparr> order_index = 0, patterns = [''*''], host_name = None, user = Some ''a'', port = None,
        identity_files = [], preferred_auth_types = None \<rparr>,
      \<lparr> order_index = 1, patterns = [''prod''], host_name = None, user = Some ''b'', port = None,
        identity_files = [], preferred_auth_types = None \<rparr>]"


text \<open>
  Importing ASCII text never panics: if the file and every file its \<open>Include\<close> lines can read are
  ASCII, the importer returns a list of hosts, whatever the depth limit.
\<close>

theorem ascii_config_never_panics:
  assumes "ascii content" and "\<forall>p t. reader p = Some t \<longrightarrow> ascii t"
  shows "\<exists>entries. parse_openssh_config home content reader base_dir depth = Ret entries"
proof -
  obtain out v' where out: "expand_includes home reader base_dir depth (normalise_line_endings content) [] = Ret (out, v')" "ascii out"
    using expand_ascii [OF assms(2), of "\<lambda>token. resolve_include_paths home token base_dir" depth]
      ascii_normalise [OF assms(1)]
    unfolding safe_rec_def expand_includes_def by blast
  then show ?thesis using parse_expanded_ascii [of out]
    by (cases "parse_expanded out") (auto simp: parse_openssh_config_def)
qed

theorem ascii_config_never_panics_witness:
  "\<exists>entries. parse_openssh_config None ''Host prod'' (\<lambda>p. if p = ''/etc/x'' then Some ''Port 22'' else None) ''/etc'' 8 = Ret entries"
  by (rule ascii_config_never_panics) (auto split: if_splits)

text \<open>
  A no-break space after the keyword panics the importer: the separator is found as white space, but
  the value is sliced one byte after its start, in the middle of the two-byte character.
\<close>

theorem nbsp_separator_panics:
  "parse_openssh_config home (''Host'' @ [CHR 0xC2, CHR 0xA0] @ ''prod'') reader base_dir depth = Panic"
proof -
  let ?l = "''Host'' @ [CHR 0xC2, CHR 0xA0] @ ''prod''"
  have d: "directive ?l = Panic" by code_simp
  have l: "normalise_line_endings ?l = ?l" "str_lines ?l = [?l]" by code_simp+
  have b: "parse_expanded ?l = Panic"
    unfolding parse_expanded_def parse_blocks_def l(2) by (simp add: d [simplified])
  show ?thesis
  proof (cases depth)
    case 0
    then show ?thesis using b l(1) by (simp add: parse_openssh_config_def expand_includes_def)
  next
    case (Suc n)
    then show ?thesis unfolding parse_openssh_config_def expand_includes_def l(1)
      by (simp add: l(2) [simplified] expand_include_line_def d [simplified])
  qed
qed

text \<open>
  An \<open>Include\<close> line means the text of the file in its place: a configuration with one such line,
  whose file has no further \<open>Include\<close>, gives the same hosts as the configuration in which the file's
  lines stand there, at every depth limit of at least one.
\<close>

theorem include_inlines_file:
  assumes "\<forall>l \<in> set pre. plain_line l" and "\<forall>l \<in> set body. plain_line l" and "\<forall>l \<in> set post. plain_line l"
    and "line_ok inc" and "directive inc = Ret (Some (kw, value))" and "map to_ascii_lower kw = ''include''"
    and "split_host_patterns value = [token]"
    and "reader (anchor_include home token base_dir) = Some (unlines body)"
  shows "parse_openssh_config home (unlines (pre @ inc # post)) reader base_dir (Suc depth) =
    parse_expanded (unlines (pre @ body @ post))"
proof -
  note ok = assms(1-3) [THEN plain_line_ok]
  let ?res = "\<lambda>token. resolve_include_paths home token base_dir"
  let ?path = "anchor_include home token base_dir"
  have deep: "expand ?res reader depth (unlines body) v = Ret (unlines body, v)" for v
    using expand_plain [OF assms(2), where ms = "[]"] str_lines_unlines [OF ok(2), of "[]"]
    by (cases depth) (simp_all add: str_lines_def)
  have path: "resolve_include_paths home token base_dir = [?path]" by (simp add: resolve_include_paths_def)
  have inc: "expand_include_line ?res reader (expand ?res reader depth) inc [] = Ret (Some (unlines body @ [CHR 0x0A], [?path]))"
    using assms(5-8) path by (simp add: expand_include_line_def deep)
  have post: "expand_lines ?res reader (expand ?res reader depth) post [?path] = Ret (unlines post, [?path])"
    using expand_plain [OF assms(3), where ms = "[]"] by simp
  have lines: "str_lines (unlines (pre @ inc # post)) = pre @ inc # post"
    using str_lines_unlines [of "pre @ inc # post" "[]"] ok assms(4) by (auto simp: str_lines_def)
  have "expand ?res reader (Suc depth) (unlines (pre @ inc # post)) [] =
      Ret (unlines pre @ unlines body @ CHR 0x0A # unlines post, [?path])"
    using expand_plain [OF assms(1), where ms = "inc # post"] inc post by (simp add: lines del: unlines_simps)
  moreover have "parse_expanded (unlines pre @ unlines body @ CHR 0x0A # unlines post) = parse_expanded (unlines (pre @ body @ post))"
  proof -
    have "str_lines (unlines pre @ unlines body @ CHR 0x0A # unlines post) = (pre @ body) @ [] # post"
      using str_lines_unlines [OF ok(1)] str_lines_unlines [OF ok(2)] str_lines_unlines [OF ok(3), of "[]"]
      by (simp add: str_lines_newline) (simp add: str_lines_def)
    moreover have "str_lines (unlines (pre @ body @ post)) = (pre @ body) @ post"
      using str_lines_unlines [of "pre @ body @ post" "[]"] ok by (auto simp: str_lines_def)
    ultimately show ?thesis
      unfolding parse_expanded_def parse_blocks_def by (simp only: parse_block_lines_blank)
  qed
  moreover have "normalise_line_endings (unlines (pre @ inc # post)) = unlines (pre @ inc # post)"
    using ok assms(4) by (intro normalise_unlines) auto
  ultimately show ?thesis by (simp add: parse_openssh_config_def expand_includes_def del: unlines_simps)
qed

theorem include_inlines_file_witness:
  "parse_openssh_config None (unlines ([''Host prod''] @ ''Include hosts.d'' # [''Port 22'']))
     (\<lambda>p. if p = ''/etc/hosts.d'' then Some (unlines [''User root'']) else None) ''/etc'' (Suc 7) =
   parse_expanded (unlines ([''Host prod''] @ [''User root''] @ [''Port 22'']))"
proof (rule include_inlines_file)
  show "\<forall>l \<in> set [''Host prod'']. plain_line l" "\<forall>l \<in> set [''User root'']. plain_line l" "\<forall>l \<in> set [''Port 22'']. plain_line l"
    by code_simp+
  show "line_ok ''Include hosts.d''" by code_simp
  show "directive ''Include hosts.d'' = Ret (Some (''Include'', ''hosts.d''))" by code_simp
  show "map to_ascii_lower ''Include'' = ''include''" by code_simp
  show "split_host_patterns ''hosts.d'' = [''hosts.d'']" by code_simp
  show "(if anchor_include None ''hosts.d'' ''/etc'' = ''/etc/hosts.d'' then Some (unlines [''User root'']) else None) = Some (unlines [''User root''])"
    by code_simp
qed

text \<open>\<open>?\<close> stands for one byte, not one character.\<close>

lemma question_mark_is_a_byte: "\<not> glob_matches ''?'' [CHR 0xC3, CHR 0xA9]"
  by code_simp

end
