(* ===== verification/Migration_Order.thy ===== *)
theory Migration_Order
  imports Interfaces
begin

text \<open>
  The registry of \<open>migration/registry.rs\<close> and the order in which the runner of \<open>migration/mod.rs\<close>
  visits the artefacts: Kahn's algorithm over the declared dependencies.  The loop is a
  \<open>partial_function\<close> whose \<open>None\<close> is "does not return": it would stand for an endless loop and for
  an underflow of a counter, and neither happens.  The iteration order of the dependency table, a hash
  map, is the order of the list.  \<open>'d\<close> is the state of the disk.
\<close>

section \<open>Definitions\<close>

text \<open>What a call into an artefact or a migration can do: return, fail with a message, or panic.\<close>

datatype 'a called = Value 'a | Fails string | Panics string

record 'd Artefact =
  art_id :: string
  art_target_version :: int
  art_read_version :: "'d \<Rightarrow> int called"

record 'd Migration =
  mig_artefact_id :: string
  mig_source_version :: int
  mig_target_version :: int
  mig_apply :: "'d \<Rightarrow> unit called \<times> 'd"

record 'd Registry =
  artefacts :: "'d Artefact list"
  migrations :: "'d Migration list"
  dependencies :: "(string \<times> string list) list"

text \<open>\<open>collect\<close> into a hash map: the last index of an id stays.\<close>

definition id_to_idx :: "string list \<Rightarrow> string \<Rightarrow> nat option" where
  "id_to_idx ids = map_of (rev (zip ids [0..<length ids]))"

definition edges :: "string list \<Rightarrow> (string \<times> string list) list \<Rightarrow> (nat \<times> nat) list" where
  "edges ids deps =
     concat (map (\<lambda>(i, after). case id_to_idx ids i of
                     None \<Rightarrow> []
                   | Some dep \<Rightarrow> List.map_filter (\<lambda>pre. map_option (\<lambda>p. (p, dep)) (id_to_idx ids pre)) after) deps)"

definition add_edge :: "nat \<times> nat \<Rightarrow> nat list list \<times> nat list \<Rightarrow> nat list list \<times> nat list" where
  "add_edge e g = ((fst g)[fst e := fst g ! fst e @ [snd e]], (snd g)[snd e := Suc (snd g ! snd e)])"

fun relax :: "nat list \<Rightarrow> nat list \<Rightarrow> nat list \<Rightarrow> (nat list \<times> nat list) option" where
  "relax [] indegree queue = Some (indegree, queue)"
| "relax (x # xs) indegree queue =
     (if indegree ! x = 0 then None
      else let indegree1 = indegree[x := indegree ! x - 1]
           in relax xs indegree1 (if indegree1 ! x = 0 then queue @ [x] else queue))"

partial_function (option) topo_loop ::
  "nat list list \<Rightarrow> nat list \<Rightarrow> nat list \<Rightarrow> nat list \<Rightarrow> nat list option" where
  "topo_loop adjacency indegree queue ordered =
     (if queue = [] then Some ordered
      else let i = last queue
           in Option.bind (relax (adjacency ! i) indegree (butlast queue))
                (\<lambda>(indegree1, queue1). topo_loop adjacency indegree1 queue1 (ordered @ [i])))"

definition topo_order :: "string list \<Rightarrow> (string \<times> string list) list \<Rightarrow> (string + nat list) option" where
  "topo_order ids deps =
     (let n = length ids;
          (adjacency, indegree) = fold add_edge (edges ids deps) (replicate n [], replicate n 0);
          queue = filter (\<lambda>i. indegree ! i = 0) [0..<n]
      in map_option (\<lambda>ordered. if length ordered \<noteq> n then Inl ''cycle in migration dependencies'' else Inr ordered)
           (topo_loop adjacency indegree queue []))"

definition topo_sort :: "'d Registry \<Rightarrow> (string + nat list) option" where
  "topo_sort reg = topo_order (map art_id (artefacts reg)) (dependencies reg)"

declare topo_loop.simps [code]

section \<open>Lemmas\<close>

text \<open>The tables are the ones of the edge list.\<close>

definition succs :: "(nat \<times> nat) list \<Rightarrow> nat \<Rightarrow> nat list" where
  "succs E i = map snd (filter (\<lambda>e. fst e = i) E)"

definition waiting :: "(nat \<times> nat) list \<Rightarrow> nat list \<Rightarrow> nat \<Rightarrow> nat" where
  "waiting E ord j = length (filter (\<lambda>e. snd e = j \<and> fst e \<notin> set ord) E)"

definition edges_ok :: "nat \<Rightarrow> (nat \<times> nat) list \<Rightarrow> bool" where
  "edges_ok n E \<longleftrightarrow> (\<forall>e \<in> set E. fst e < n \<and> snd e < n)"

lemma id_to_idx_less: "id_to_idx ids i = Some k \<Longrightarrow> k < length ids \<and> ids ! k = i"
  by (auto simp: id_to_idx_def dest!: map_of_SomeD simp: set_zip)

lemma edges_less: "edges_ok (length ids) (edges ids deps)"
  by (auto simp: edges_ok_def edges_def List.map_filter_def dest: id_to_idx_less dest: id_to_idx_less [OF sym] split: option.splits)

lemma graph_tables:
  assumes "edges_ok n E"
  shows "fold add_edge E (replicate n [], replicate n 0) =
    (map (succs E) [0..<n], map (waiting E []) [0..<n])"
  using assms
proof (induction E rule: rev_induct)
  case Nil
  then show ?case by (simp add: succs_def waiting_def map_replicate_trivial)
next
  case (snoc e E)
  then have e: "fst e < n" "snd e < n" "edges_ok n E" by (auto simp: edges_ok_def)
  have "(map (succs E) [0..<n])[fst e := succs E (fst e) @ [snd e]] = map (succs (E @ [e])) [0..<n]"
    by (rule nth_equalityI) (auto simp: nth_list_update succs_def)
  moreover have "(map (waiting E []) [0..<n])[snd e := Suc (waiting E [] (snd e))] = map (waiting (E @ [e]) []) [0..<n]"
    by (rule nth_equalityI) (auto simp: nth_list_update waiting_def)
  ultimately show ?case using snoc.IH [OF e(3)] e by (simp add: add_edge_def)
qed

lemma count_succs: "count_list (succs E i) j = length (filter (\<lambda>e. snd e = j \<and> fst e = i) E)"
  by (induction E) (auto simp: succs_def)

lemma waiting_step: "i \<notin> set ord \<Longrightarrow> waiting E ord j = waiting E (ord @ [i]) j + count_list (succs E i) j"
  unfolding count_succs waiting_def by (induction E) auto

text \<open>One pass over the successors of a node.\<close>

lemma relax_spec:
  assumes "\<forall>x \<in> set A. x < length ind" and "\<forall>x. x < length ind \<longrightarrow> count_list A x \<le> ind ! x"
  shows "\<exists>ind' new. relax A ind q = Some (ind', q @ new) \<and> length ind' = length ind \<and>
    (\<forall>x < length ind. ind' ! x = ind ! x - count_list A x) \<and> distinct new \<and>
    set new = {x \<in> set A. ind ! x = count_list A x}"
  using assms
proof (induction A arbitrary: ind q)
  case (Cons a A)
  define ind1 where "ind1 = ind[a := ind ! a - 1]"
  have a: "a < length ind" "0 < ind ! a" using Cons.prems(1,2) by (auto dest!: spec [of _ a])
  have le: "\<forall>x. x < length ind1 \<longrightarrow> count_list A x \<le> ind1 ! x"
  proof (intro allI impI)
    fix x
    assume "x < length ind1"
    then have "count_list (a # A) x \<le> ind ! x" using Cons.prems(2) by (simp add: ind1_def)
    then show "count_list A x \<le> ind1 ! x" using a by (auto simp: ind1_def nth_list_update split: if_splits)
  qed
  define q1 where "q1 = (if ind1 ! a = 0 then q @ [a] else q)"
  obtain ind' new where r: "relax A ind1 q1 = Some (ind', q1 @ new)" "length ind' = length ind1"
      "\<forall>x < length ind1. ind' ! x = ind1 ! x - count_list A x" "distinct new"
      "set new = {x \<in> set A. ind1 ! x = count_list A x}"
    using Cons.IH [of ind1 q1] Cons.prems(1) le by (auto simp: ind1_def)
  have ind1: "ind1 ! x = (if x = a then ind ! a - 1 else ind ! x)" for x
    using a by (simp add: ind1_def nth_list_update)
  have notin: "a \<notin> set A" if "ind1 ! a = 0"
    using le a that by (auto simp: ind1_def count_list_0_iff dest!: spec [of _ a])
  define news where "news = (if ind1 ! a = 0 then a # new else new)"
  have "relax (a # A) ind q = Some (ind', q @ news)"
  proof -
    have "relax (a # A) ind q = relax A ind1 q1"
      unfolding relax.simps Let_def ind1_def [symmetric] q1_def [symmetric] using a(2) by simp
    with r(1) show ?thesis by (simp add: q1_def news_def)
  qed
  moreover have "\<forall>x < length ind. ind' ! x = ind ! x - count_list (a # A) x"
    using r(3) ind1 by (auto simp: ind1_def)
  moreover have "distinct news" using r(4,5) notin by (auto simp: news_def)
  moreover have "set news = {x \<in> set (a # A). ind ! x = count_list (a # A) x}"
  proof (rule set_eqI)
    fix x
    show "x \<in> set news \<longleftrightarrow> x \<in> {x \<in> set (a # A). ind ! x = count_list (a # A) x}"
    proof (cases "x = a")
      case False
      then show ?thesis using r(5) ind1 [of x] by (auto simp: news_def)
    next
      case True
      have "ind1 ! a = 0 \<longleftrightarrow> ind ! a = 1" using a ind1 [of a] by auto
      then show ?thesis
        using True r(5) ind1 [of a] a notin by (cases "a \<in> set A") (auto simp: news_def count_list_0_iff)
    qed
  qed
  ultimately show ?case using r(2) by (auto simp: ind1_def)
qed simp

text \<open>The invariant of the main loop.\<close>

definition kahn_inv :: "nat \<Rightarrow> (nat \<times> nat) list \<Rightarrow> nat list \<Rightarrow> nat list \<Rightarrow> nat list \<Rightarrow> bool" where
  "kahn_inv n E ind queue ord \<longleftrightarrow>
     ind = map (waiting E ord) [0..<n] \<and> distinct (queue @ ord) \<and>
     set (queue @ ord) = {j. j < n \<and> waiting E ord j = 0} \<and>
     (\<forall>a b j p. ord = a @ j # b \<longrightarrow> (p, j) \<in> set E \<longrightarrow> p \<in> set a)"

lemma waiting_0: "waiting E ord j = 0 \<longleftrightarrow> (\<forall>p. (p, j) \<in> set E \<longrightarrow> p \<in> set ord)"
  by (auto simp: waiting_def filter_empty_conv)

lemma kahn_step:
  assumes inv: "kahn_inv n E ind queue ord" and E: "edges_ok n E" and q: "queue \<noteq> []"
  shows "\<exists>ind' queue'. relax (map (succs E) [0..<n] ! last queue) ind (butlast queue) = Some (ind', queue') \<and>
    kahn_inv n E ind' queue' (ord @ [last queue]) \<and> length ord < n"
proof -
  define i where "i = last queue"
  define A where "A = succs E i"
  note I = inv [unfolded kahn_inv_def]
  have qi: "queue = butlast queue @ [i]" using q by (simp add: i_def)
  have i: "i \<in> set queue" using q by (simp add: i_def)
  then have in_: "i < n" "waiting E ord i = 0" "i \<notin> set ord" using I by auto
  have A: "map (succs E) [0..<n] ! last queue = A" using in_ by (simp add: A_def i_def)
  have len: "length ord < n"
  proof -
    have "card (set (queue @ ord)) \<le> card {..<n}" using I by (intro card_mono) auto
    then have "length (queue @ ord) \<le> n" using I distinct_card by (metis card_lessThan)
    then show ?thesis using q by (cases queue) auto
  qed
  have w: "waiting E ord j = waiting E (ord @ [i]) j + count_list A j" for j
    unfolding A_def using in_(3) by (rule waiting_step)
  have Aless: "\<forall>x \<in> set A. x < length ind" using E I by (auto simp: A_def succs_def edges_ok_def)
  have "\<forall>x. x < length ind \<longrightarrow> count_list A x \<le> ind ! x" using I w by auto
  from relax_spec [OF Aless this, of "butlast queue"]
  obtain ind' new where r: "relax A ind (butlast queue) = Some (ind', butlast queue @ new)"
      "length ind' = n" "\<forall>x < n. ind' ! x = ind ! x - count_list A x" "distinct new"
      "set new = {x \<in> set A. ind ! x = count_list A x}"
    using I by auto
  have new: "set new = {x. x < n \<and> x \<in> set A \<and> waiting E (ord @ [i]) x = 0}"
    using r(5) Aless I w by auto
  have Apos: "waiting E ord x \<noteq> 0" if "x \<in> set A" for x
    using w [of x] that by (metis add_is_0 count_list_0_iff)
  have "ind' = map (waiting E (ord @ [i])) [0..<n]"
    using r(2,3) I w by (intro nth_equalityI) auto
  moreover have "distinct ((butlast queue @ new) @ (ord @ [i]))"
  proof -
    have "set new \<inter> set (queue @ ord) = {}" using new Apos I by (auto dest: Apos)
    moreover have "distinct (butlast queue @ [i] @ ord)" using I qi by (metis append.assoc)
    ultimately show ?thesis using r(4) qi by (auto dest: in_set_butlastD simp: i)
  qed
  moreover have "set ((butlast queue @ new) @ (ord @ [i])) = {j. j < n \<and> waiting E (ord @ [i]) j = 0}"
  proof -
    have "{j. j < n \<and> waiting E (ord @ [i]) j = 0} = set (queue @ ord) \<union> set new"
      using I new w count_list_0_iff [of A] by (auto simp del: set_append)
    moreover have "set queue = insert i (set (butlast queue))" using qi by (metis list.simps(15) rotate1.simps(2) set_rotate1)
    ultimately show ?thesis by auto
  qed
  moreover have "\<forall>a b j p. ord @ [i] = a @ j # b \<longrightarrow> (p, j) \<in> set E \<longrightarrow> p \<in> set a"
  proof (intro allI impI)
    fix a b j p
    assume s: "ord @ [i] = a @ j # b" and e: "(p, j) \<in> set E"
    show "p \<in> set a"
    proof (cases b rule: rev_cases)
      case Nil
      with s have "a = ord" "j = i" by auto
      with e in_(2) show ?thesis by (auto simp: waiting_0)
    next
      case (snoc b' x)
      with s have "ord = a @ j # b'" by simp
      with e I show ?thesis by blast
    qed
  qed
  ultimately have "kahn_inv n E ind' (butlast queue @ new) (ord @ [i])" by (simp add: kahn_inv_def)
  with r(1) A len show ?thesis unfolding i_def by auto
qed

lemma kahn_loop:
  assumes "edges_ok n E" and "kahn_inv n E ind queue ord"
  shows "\<exists>ordered ind'. topo_loop (map (succs E) [0..<n]) ind queue ord = Some ordered \<and> kahn_inv n E ind' [] ordered"
  using assms(2)
proof (induction "n - length ord" arbitrary: ind queue ord rule: less_induct)
  case less
  show ?case
  proof (cases "queue = []")
    case True
    with less.prems show ?thesis by (auto simp: topo_loop.simps)
  next
    case False
    from kahn_step [OF less.prems assms(1) False]
    obtain ind' queue' where s: "relax (map (succs E) [0..<n] ! last queue) ind (butlast queue) = Some (ind', queue')"
        "kahn_inv n E ind' queue' (ord @ [last queue])" "length ord < n" by blast
    have "n - length (ord @ [last queue]) < n - length ord" using s(3) by simp
    from less.hyps [OF this s(2)] show ?thesis
      using False s(1) by (subst topo_loop.simps) simp
  qed
qed

lemma kahn_start:
  "edges_ok n E \<Longrightarrow> kahn_inv n E (map (waiting E []) [0..<n]) (filter (\<lambda>i. map (waiting E []) [0..<n] ! i = 0) [0..<n]) []"
  by (auto simp: kahn_inv_def)

text \<open>The result of the sort, once and for all.\<close>

lemma topo_sort_result:
  assumes "n = length (artefacts reg)" "E = edges (map art_id (artefacts reg)) (dependencies reg)"
  obtains ordered ind' where
    "topo_sort reg = Some (if length ordered \<noteq> n then Inl ''cycle in migration dependencies'' else Inr ordered)"
    "kahn_inv n E ind' [] ordered" "edges_ok n E"
proof -
  have E: "edges_ok n E" unfolding assms using edges_less [of "map art_id (artefacts reg)"] by simp
  from kahn_loop [OF E kahn_start [OF E]] obtain ordered ind' where
      l: "topo_loop (map (succs E) [0..<n]) (map (waiting E []) [0..<n])
            (filter (\<lambda>i. map (waiting E []) [0..<n] ! i = 0) [0..<n]) [] = Some ordered"
    and inv: "kahn_inv n E ind' [] ordered" by blast
  have "topo_sort reg = Some (if length ordered \<noteq> n then Inl ''cycle in migration dependencies'' else Inr ordered)"
    using l graph_tables [OF E] by (simp add: topo_sort_def topo_order_def assms [symmetric])
  with inv E show ?thesis using that by blast
qed

lemma kahn_inv_full:
  assumes "kahn_inv n E ind [] ordered" "length ordered = n"
  shows "distinct ordered \<and> set ordered = {0..<n}"
proof
  show d: "distinct ordered" using assms(1) by (simp add: kahn_inv_def)
  show "set ordered = {0..<n}"
  proof (rule card_subset_eq)
    show "set ordered \<subseteq> {0..<n}" using assms(1) by (fastforce simp: kahn_inv_def)
    show "card (set ordered) = card {0..<n}" using distinct_card [OF d] assms(2) by simp
  qed simp
qed

lemma topo_sort_total: "\<exists>r. topo_sort reg = Some r"
  by (rule topo_sort_result [OF refl refl, of reg]) blast

lemma topo_sort_perm:
  assumes "topo_sort reg = Some (Inr ordered)"
  shows "distinct ordered \<and> set ordered = {0..<length (artefacts reg)}"
proof (rule topo_sort_result [OF refl refl, of reg])
  fix os ind'
  assume "topo_sort reg = Some (if length os \<noteq> length (artefacts reg) then Inl ''cycle in migration dependencies'' else Inr os)"
    and inv: "kahn_inv (length (artefacts reg)) (edges (map art_id (artefacts reg)) (dependencies reg)) ind' [] os"
  with assms have "os = ordered" "length os = length (artefacts reg)" by (auto split: if_splits)
  then show ?thesis using kahn_inv_full [OF inv] by simp
qed

section \<open>Properties\<close>


end
