(* ===== verification/Migration_Runner.thy ===== *)
theory Migration_Runner
  imports Migration_Order External
begin

text \<open>
  The start-up migration runner of \<open>migration/mod.rs\<close> and the artefacts of \<open>migration/artefacts.rs\<close>
  the application registers.  The runner threads the disk through the calls; a migration is whatever
  the registry holds (no concrete one exists yet), so its \<open>apply\<close> is a field of the record.  The
  chain walk is a \<open>while\<close> loop that ends only if the migrations advance, hence a
  \<open>partial_function\<close>.  A panic inside an artefact is caught by the runner.
\<close>

section \<open>Definitions\<close>

subsection \<open>Artefacts on disk\<close>

text \<open>What the file system says of a path: the size and the result of reading the file.\<close>

datatype probe = NotFound | StatError string | File nat "string + bytes"

type_synonym disk = "string \<Rightarrow> probe"

definition exists_file :: "disk \<Rightarrow> string \<Rightarrow> bool" where
  "exists_file d name = (case d name of File _ _ \<Rightarrow> True | _ \<Rightarrow> False)"

definition read_file :: "disk \<Rightarrow> string \<Rightarrow> string + bytes" where
  "read_file d name = (case d name of File _ r \<Rightarrow> r | StatError e \<Rightarrow> Inl e | NotFound \<Rightarrow> Inl ''not found'')"

text \<open>The cast \<open>as i32\<close>: the low 32 bits, two's complement.\<close>

definition as_i32 :: "int \<Rightarrow> int" where
  "as_i32 v = (v + 2 ^ 31) mod 2 ^ 32 - 2 ^ 31"

text \<open>\<open>parse_err\<close> is the text of the parser's error.\<close>

definition json_version :: "json_lib \<Rightarrow> (bytes \<Rightarrow> string) \<Rightarrow> string \<Rightarrow> string \<Rightarrow> disk \<Rightarrow> int called" where
  "json_version J parse_err file_name version_field d =
     (if \<not> exists_file d file_name then Value (-1)
      else case read_file d file_name of
             Inl e \<Rightarrow> Fails (''read '' @ file_name @ '': '' @ e)
           | Inr bytes \<Rightarrow>
               (case json_parse_bytes J bytes of
                  None \<Rightarrow> Fails (file_name @ '': parse: '' @ parse_err bytes)
                | Some value \<Rightarrow>
                    (case value of
                       JObj obj \<Rightarrow>
                         (case map_of obj version_field of
                            None \<Rightarrow> Value 1
                          | Some (JInt v) \<Rightarrow>
                              (case as_i64 (JInt v) of
                                 Some v \<Rightarrow> Value (as_i32 v)
                               | None \<Rightarrow> Fails (file_name @ '': '' @ version_field @ '' not representable as i32''))
                          | Some (JFloat _) \<Rightarrow> Fails (file_name @ '': '' @ version_field @ '' not representable as i32'')
                          | Some _ \<Rightarrow> Fails (file_name @ '': non-integer '' @ version_field))
                     | _ \<Rightarrow> Fails (file_name @ '': not a JSON object''))))"

definition ConfigArtefact :: "json_lib \<Rightarrow> (bytes \<Rightarrow> string) \<Rightarrow> disk Artefact" where
  "ConfigArtefact J parse_err =
     \<lparr> art_id = ''config.json'', art_target_version = 1,
       art_read_version = json_version J parse_err ''config.json'' ''config_schema_version'' \<rparr>"

definition PassGateArtefact :: "json_lib \<Rightarrow> (bytes \<Rightarrow> string) \<Rightarrow> disk Artefact" where
  "PassGateArtefact J parse_err =
     \<lparr> art_id = ''security_pass_hash.bin'', art_target_version = 1,
       art_read_version = json_version J parse_err ''security_pass_hash.bin'' ''v'' \<rparr>"

definition hw_salt_version :: "disk \<Rightarrow> int called" where
  "hw_salt_version d =
     (case d ''hardware_vault_salt.bin'' of
        NotFound \<Rightarrow> Value (-1)
      | StatError e \<Rightarrow> Fails (''stat hardware_vault_salt.bin: '' @ e)
      | File len _ \<Rightarrow>
          if len \<noteq> 32 then Fails (''hardware_vault_salt.bin: unexpected length ('' @ dec len @ '' bytes, want 32)'')
          else Value 1)"

definition HwSaltArtefact :: "disk Artefact" where
  "HwSaltArtefact =
     \<lparr> art_id = ''hardware_vault_salt.bin'', art_target_version = 1, art_read_version = hw_salt_version \<rparr>"

definition KDF_MAGIC :: bytes where
  "KDF_MAGIC = [0x4C, 0x46, 0x4B, 0x44]"

definition kdf_version :: "disk \<Rightarrow> int called" where
  "kdf_version d =
     (if \<not> exists_file d ''credentials.kdf'' then Value (-1)
      else case read_file d ''credentials.kdf'' of
             Inl e \<Rightarrow> Fails (''read credentials.kdf: '' @ e)
           | Inr bytes \<Rightarrow>
               if length bytes < length KDF_MAGIC + 1
               then Fails (''credentials.kdf: truncated header ('' @ dec (length bytes) @ '' bytes, need >= 5)'')
               else if take (length KDF_MAGIC) bytes \<noteq> KDF_MAGIC then Fails ''credentials.kdf: wrong magic''
               else let version = int (unat (bytes ! length KDF_MAGIC))
                    in if version < 1 then Fails (''credentials.kdf: invalid schema version 0 (must be >= 1)'')
                       else Value version)"

definition KdfArtefact :: "disk Artefact" where
  "KdfArtefact = \<lparr> art_id = ''credentials.kdf'', art_target_version = 1, art_read_version = kdf_version \<rparr>"

definition build_app_registry :: "json_lib \<Rightarrow> (bytes \<Rightarrow> string) \<Rightarrow> disk Registry" where
  "build_app_registry J parse_err =
     \<lparr> artefacts = [ConfigArtefact J parse_err, KdfArtefact, PassGateArtefact J parse_err, HwSaltArtefact],
       migrations = [], dependencies = [] \<rparr>"

subsection \<open>The runner\<close>

record Step =
  st_artefact_id :: string
  st_from_version :: int
  st_to_version :: int
  st_succeeded :: bool
  st_error :: "string option"

record UnsupportedFutureVersion =
  fv_artefact_id :: string
  fv_on_disk_version :: int
  fv_known_target_version :: int

record Report =
  steps :: "Step list"
  future_versions :: "UnsupportedFutureVersion list"
  fatal_error :: "string option"

definition has_failures :: "Report \<Rightarrow> bool" where
  "has_failures r \<longleftrightarrow> fatal_error r \<noteq> None \<or> future_versions r \<noteq> [] \<or> list_ex (\<lambda>s. \<not> st_succeeded s) (steps r)"

definition no_op :: "Report \<Rightarrow> bool" where
  "no_op r \<longleftrightarrow> steps r = [] \<and> future_versions r = [] \<and> fatal_error r = None"

definition migrated_count :: "Report \<Rightarrow> nat" where
  "migrated_count r = length (filter st_succeeded (steps r))"

text \<open>\<open>Unwound\<close>: a panic on its way to the \<open>catch_unwind\<close> of the runner.\<close>

datatype ArtefactOutcome = OkOutcome | Future UnsupportedFutureVersion | Fatal string | Unwound string

definition show_i32 :: "int \<Rightarrow> string" where
  "show_i32 v = (if v < 0 then ''-'' @ dec (nat (- v)) else dec (nat v))"

definition find_migration :: "'d Registry \<Rightarrow> string \<Rightarrow> int \<Rightarrow> 'd Migration option" where
  "find_migration reg i from = List.find (\<lambda>m. mig_artefact_id m = i \<and> mig_source_version m = from) (migrations reg)"

definition no_migration_msg :: "string \<Rightarrow> int \<Rightarrow> string" where
  "no_migration_msg i current = ''no migration registered for '' @ i @ '' from version '' @ show_i32 current"

partial_function (option) walk_chain ::
  "'d Artefact \<Rightarrow> 'd Registry \<Rightarrow> int \<Rightarrow> int \<Rightarrow> Step list \<Rightarrow> 'd \<Rightarrow> (ArtefactOutcome \<times> Step list \<times> 'd) option" where
  "walk_chain a reg current target sts d =
     (if \<not> current < target then Some (OkOutcome, sts, d)
      else case find_migration reg (art_id a) current of
             None \<Rightarrow>
               Some (Fatal (no_migration_msg (art_id a) current),
                     sts @ [\<lparr> st_artefact_id = art_id a, st_from_version = current, st_to_version = current + 1,
                              st_succeeded = False, st_error = Some (no_migration_msg (art_id a) current) \<rparr>], d)
           | Some m \<Rightarrow>
               (case mig_apply m d of
                  (Value _, d1) \<Rightarrow>
                    walk_chain a reg (mig_target_version m) target
                      (sts @ [\<lparr> st_artefact_id = art_id a, st_from_version = mig_source_version m,
                                st_to_version = mig_target_version m, st_succeeded = True, st_error = None \<rparr>]) d1
                | (Fails e, d1) \<Rightarrow>
                    Some (Fatal e,
                          sts @ [\<lparr> st_artefact_id = art_id a, st_from_version = mig_source_version m,
                                   st_to_version = mig_target_version m, st_succeeded = False, st_error = Some e \<rparr>], d1)
                | (Panics p, d1) \<Rightarrow> Some (Unwound p, sts, d1)))"

declare walk_chain.simps [code]

definition migrate_artefact ::
  "'d Artefact \<Rightarrow> 'd Registry \<Rightarrow> Step list \<Rightarrow> 'd \<Rightarrow> (ArtefactOutcome \<times> Step list \<times> 'd) option" where
  "migrate_artefact a reg sts d =
     (case art_read_version a d of
        Fails e \<Rightarrow> Some (Fatal (art_id a @ '': '' @ e), sts, d)
      | Panics p \<Rightarrow> Some (Unwound p, sts, d)
      | Value on_disk \<Rightarrow>
          if on_disk < 0 then Some (OkOutcome, sts, d)
          else if on_disk = art_target_version a then Some (OkOutcome, sts, d)
          else if on_disk > art_target_version a
          then Some (Future \<lparr> fv_artefact_id = art_id a, fv_on_disk_version = on_disk,
                              fv_known_target_version = art_target_version a \<rparr>, sts, d)
          else walk_chain a reg on_disk (art_target_version a) sts d)"

fun run_artefacts ::
  "'d Registry \<Rightarrow> nat list \<Rightarrow> Step list \<Rightarrow> UnsupportedFutureVersion list \<Rightarrow> 'd \<Rightarrow> (Report \<times> 'd) option" where
  "run_artefacts reg [] sts future d = Some (\<lparr> steps = sts, future_versions = future, fatal_error = None \<rparr>, d)"
| "run_artefacts reg (i # is) sts future d =
     Option.bind (migrate_artefact (artefacts reg ! i) reg sts d) (\<lambda>(out, sts1, d1).
       case out of
         OkOutcome \<Rightarrow> run_artefacts reg is sts1 future d1
       | Future f \<Rightarrow> run_artefacts reg is sts1 (future @ [f]) d1
       | Fatal e \<Rightarrow> Some (\<lparr> steps = sts1, future_versions = future, fatal_error = Some e \<rparr>, d1)
       | Unwound p \<Rightarrow> Some (\<lparr> steps = sts1, future_versions = future,
                              fatal_error = Some (art_id (artefacts reg ! i) @ '': panicked: '' @ p) \<rparr>, d1))"

definition run_on_startup :: "'d Registry \<Rightarrow> 'd \<Rightarrow> (Report \<times> 'd) option" where
  "run_on_startup reg d =
     Option.bind (topo_sort reg) (\<lambda>r. case r of
       Inl e \<Rightarrow> Some (\<lparr> steps = [], future_versions = [], fatal_error = Some e \<rparr>, d)
     | Inr ordered \<Rightarrow> run_artefacts reg ordered [] [] d)"

section \<open>Lemmas\<close>

text \<open>Migrations that advance one version, as the trait's documentation asks.\<close>

definition consecutive :: "'d Registry \<Rightarrow> bool" where
  "consecutive reg \<longleftrightarrow> list_all (\<lambda>m. mig_target_version m = mig_source_version m + 1) (migrations reg)"

text \<open>
  The contract of \<open>read_version\<close> and \<open>apply\<close>: a version that is read is the one on disk, and a
  successful migration sets the version of its artefact and no other.
\<close>

definition honest :: "'d Registry \<Rightarrow> ('d \<Rightarrow> string \<Rightarrow> int) \<Rightarrow> bool" where
  "honest reg ver \<longleftrightarrow>
     (\<forall>a \<in> set (artefacts reg). \<forall>d v. art_read_version a d = Value v \<longrightarrow> ver d (art_id a) = v) \<and>
     (\<forall>m \<in> set (migrations reg). \<forall>d d'. mig_apply m d = (Value (), d') \<longrightarrow>
        ver d' = (ver d)(mig_artefact_id m := mig_target_version m))"

lemma find_migration_Some:
  "find_migration reg i v = Some m \<Longrightarrow> m \<in> set (migrations reg) \<and> mig_artefact_id m = i \<and> mig_source_version m = v"
  by (auto simp: find_migration_def find_Some_iff)

lemma walk_chain_total:
  assumes "\<forall>m \<in> set (migrations reg). mig_source_version m < mig_target_version m"
  shows "walk_chain a reg current target sts d \<noteq> None"
proof (induction "nat (target - current)" arbitrary: current sts d rule: less_induct)
  case less
  show ?case
  proof (cases "current < target")
    case False
    then show ?thesis by (subst walk_chain.simps) simp
  next
    case True
    show ?thesis
    proof (cases "find_migration reg (art_id a) current")
      case None
      with True show ?thesis by (subst walk_chain.simps) simp
    next
      case (Some m)
      then have "nat (target - mig_target_version m) < nat (target - current)"
        using find_migration_Some [OF Some] assms True by auto
      from less.hyps [OF this] show ?thesis
        using True Some by (subst walk_chain.simps) (simp split: prod.split called.split)
    qed
  qed
qed

lemma migrate_artefact_total:
  "\<forall>m \<in> set (migrations reg). mig_source_version m < mig_target_version m \<Longrightarrow> migrate_artefact a reg sts d \<noteq> None"
  using walk_chain_total [of reg] by (simp add: migrate_artefact_def split: called.split)

lemma run_artefacts_total:
  "\<forall>m \<in> set (migrations reg). mig_source_version m < mig_target_version m \<Longrightarrow>
     run_artefacts reg is sts future d \<noteq> None"
proof (induction "is" arbitrary: sts future d)
  case (Cons i js)
  obtain out sts1 d1 where "migrate_artefact (artefacts reg ! i) reg sts d = Some (out, sts1, d1)"
    using migrate_artefact_total [OF Cons.prems] by (metis option.exhaust prod_cases3)
  with Cons show ?case by (simp split: ArtefactOutcome.split)
qed simp

text \<open>What a chain that ends well has done.\<close>

lemma walk_chain_reaches:
  assumes "honest reg ver" "consecutive reg"
  shows "walk_chain a reg current target sts d = Some (OkOutcome, sts', d') \<Longrightarrow> current \<le> target \<Longrightarrow>
    ver d (art_id a) = current \<Longrightarrow> ver d' = (ver d)(art_id a := target)"
proof (induction "nat (target - current)" arbitrary: current sts d rule: less_induct)
  case less
  show ?case
  proof (cases "current < target")
    case False
    with less.prems show ?thesis by (subst (asm) walk_chain.simps) (auto simp: fun_upd_idem)
  next
    case True
    obtain m where m: "find_migration reg (art_id a) current = Some m"
      using less.prems(1) True by (subst (asm) walk_chain.simps) (auto split: option.splits)
    note f = find_migration_Some [OF m]
    have t: "mig_target_version m = current + 1"
      using assms(2) f by (auto simp: consecutive_def list_all_iff)
    obtain sts1 d1 where step: "mig_apply m d = (Value (), d1)"
        "walk_chain a reg (current + 1) target sts1 d1 = Some (OkOutcome, sts', d')"
      using less.prems(1) True m t by (subst (asm) walk_chain.simps) (auto split: prod.splits called.splits)
    have v: "ver d1 = (ver d)(art_id a := current + 1)"
      using assms(1) f step(1) t unfolding honest_def by metis
    have "ver d' = (ver d1)(art_id a := target)"
      using True v by (intro less.hyps [OF _ step(2)]) auto
    with v show ?thesis by simp
  qed
qed

lemma migrate_artefact_reaches:
  assumes "honest reg ver" "consecutive reg" "a \<in> set (artefacts reg)"
    and "migrate_artefact a reg sts d = Some (OkOutcome, sts', d')"
  shows "(ver d' (art_id a) < 0 \<or> ver d' (art_id a) = art_target_version a) \<and>
    (\<forall>i. i \<noteq> art_id a \<longrightarrow> ver d' i = ver d i)"
proof -
  obtain v where v: "art_read_version a d = Value v" "\<not> art_target_version a < v \<or> v < 0"
    using assms(4) by (auto simp: migrate_artefact_def split: called.splits if_splits)
  then have vd: "ver d (art_id a) = v" using assms(1,3) by (auto simp: honest_def)
  show ?thesis
  proof (cases "v < 0 \<or> v = art_target_version a")
    case True
    then have "d' = d" using assms(4) v by (auto simp: migrate_artefact_def split: if_splits)
    with True vd show ?thesis by auto
  next
    case False
    then have w: "walk_chain a reg v (art_target_version a) sts d = Some (OkOutcome, sts', d')" "v \<le> art_target_version a"
      using assms(4) v by (auto simp: migrate_artefact_def split: if_splits)
    have "ver d' = (ver d)(art_id a := art_target_version a)"
      using walk_chain_reaches [OF assms(1,2) w vd] .
    then show ?thesis by simp
  qed
qed

lemma future_kept: "run_artefacts reg is sts (f # fs) d = Some (r, d') \<Longrightarrow> future_versions r \<noteq> []"
proof (induction "is" arbitrary: sts fs d)
  case (Cons i js)
  obtain out sts1 d1 where m: "migrate_artefact (artefacts reg ! i) reg sts d = Some (out, sts1, d1)"
    using Cons.prems by (auto simp: bind_eq_Some_conv)
  show ?case using Cons m by (cases out) auto
qed auto

lemma run_artefacts_reaches:
  assumes "honest reg ver" "consecutive reg" "distinct (map art_id (artefacts reg))"
  shows "run_artefacts reg is sts [] d = Some (r, d') \<Longrightarrow> \<not> has_failures r \<Longrightarrow> distinct is \<Longrightarrow>
    set is \<subseteq> {0..<length (artefacts reg)} \<Longrightarrow>
    (\<forall>i \<in> set is. ver d' (art_id (artefacts reg ! i)) < 0 \<or>
        ver d' (art_id (artefacts reg ! i)) = art_target_version (artefacts reg ! i)) \<and>
    (\<forall>j. j \<notin> (\<lambda>i. art_id (artefacts reg ! i)) ` set is \<longrightarrow> ver d' j = ver d j)"
proof (induction "is" arbitrary: sts d)
  case (Cons i js)
  let ?a = "artefacts reg ! i"
  obtain out sts1 d1 where m: "migrate_artefact ?a reg sts d = Some (out, sts1, d1)"
    using Cons.prems(1) by (auto simp: bind_eq_Some_conv)
  have out: "out = OkOutcome"
    using Cons.prems(1,2) m by (cases out) (auto simp: has_failures_def dest: future_kept)
  have rest: "run_artefacts reg js sts1 [] d1 = Some (r, d')" using Cons.prems(1) m out by simp
  have i: "?a \<in> set (artefacts reg)" "i < length (artefacts reg)" using Cons.prems(4) by auto
  note here = migrate_artefact_reaches [OF assms(1,2) i(1) m [unfolded out]]
  have notin: "art_id ?a \<notin> (\<lambda>i. art_id (artefacts reg ! i)) ` set js"
  proof
    assume "art_id ?a \<in> (\<lambda>i. art_id (artefacts reg ! i)) ` set js"
    then obtain k where "k \<in> set js" and eq: "art_id (artefacts reg ! k) = art_id ?a" by auto
    then have "k < length (artefacts reg)" using Cons.prems(4) by auto
    then have "k = i" using nth_eq_iff_index_eq [OF assms(3), of k i] i(2) eq by simp
    with \<open>k \<in> set js\<close> Cons.prems(3) show False by simp
  qed
  have IH: "(\<forall>k \<in> set js. ver d' (art_id (artefacts reg ! k)) < 0 \<or>
        ver d' (art_id (artefacts reg ! k)) = art_target_version (artefacts reg ! k)) \<and>
    (\<forall>j. j \<notin> (\<lambda>i. art_id (artefacts reg ! i)) ` set js \<longrightarrow> ver d' j = ver d1 j)"
    using Cons.prems(2-4) by (intro Cons.IH [OF rest]) auto
  then have "ver d' (art_id ?a) = ver d1 (art_id ?a)" using notin by blast
  with here IH show ?case by auto
qed simp

text \<open>The registry of the application.\<close>

lemma app_order: "topo_sort (build_app_registry J parse_err) = Some (Inr [3, 2, 1, 0])"
proof -
  have "topo_order [''config.json'', ''credentials.kdf'', ''security_pass_hash.bin'', ''hardware_vault_salt.bin''] [] = Some (Inr [3, 2, 1, 0])"
    by code_simp
  then show ?thesis
    by (simp add: topo_sort_def build_app_registry_def ConfigArtefact_def KdfArtefact_def PassGateArtefact_def HwSaltArtefact_def)
qed

lemma app_returns: "\<exists>report d'. run_on_startup (build_app_registry J parse_err) d = Some (report, d')"
  using run_artefacts_total [of "build_app_registry J parse_err" "[3, 2, 1, 0]" "[]" "[]" d]
  by (auto simp: run_on_startup_def app_order) (simp add: build_app_registry_def)

section \<open>Properties\<close>

text \<open>
  C39. Start-up migration always returns a report when every registered migration advances its
  artefact's version; in particular a panicking or failing migration ends the run with a fatal error and
  not with an endless loop.
\<close>

theorem startup_returns:
  assumes "\<forall>m \<in> set (migrations reg). mig_source_version m < mig_target_version m"
  shows "\<exists>report d'. run_on_startup reg d = Some (report, d')"
proof -
  obtain r where r: "topo_sort reg = Some r" using topo_sort_total [of reg] by blast
  show ?thesis
  proof (cases r)
    case (Inl e)
    with r show ?thesis by (simp add: run_on_startup_def)
  next
    case (Inr ordered)
    with r run_artefacts_total [OF assms, of ordered "[]" "[]" d] show ?thesis
      by (auto simp: run_on_startup_def)
  qed
qed

definition demo_registry :: "int Registry" where
  "demo_registry =
     \<lparr> artefacts = [\<lparr> art_id = ''x'', art_target_version = 3, art_read_version = Value \<rparr>],
       migrations = [\<lparr> mig_artefact_id = ''x'', mig_source_version = 1, mig_target_version = 2, mig_apply = (\<lambda>d. (Value (), 2)) \<rparr>,
                     \<lparr> mig_artefact_id = ''x'', mig_source_version = 2, mig_target_version = 3, mig_apply = (\<lambda>d. (Value (), 3)) \<rparr>],
       dependencies = [] \<rparr>"

theorem startup_returns_witness: "\<exists>report d'. run_on_startup demo_registry 1 = Some (report, d')"
  by (rule startup_returns) (simp add: demo_registry_def)



text \<open>
  The version gate of \<open>config.json\<close>: the start-up of the application, on a disk with only that
  file, reports a failure for a stored integer version exactly when the version, truncated to 32 bits,
  is neither negative nor one.  So version 2 is refused as too new, but a version that is one modulo
  \<open>2 ^ 32\<close> passes as current and a negative one as absent, although the reader has an error for values
  "not representable as i32".
\<close>

theorem config_version_gate:
  assumes "disk = (\<lambda>name. if name = ''config.json'' then File len (Inr content) else NotFound)"
    and "json_parse_bytes J content = Some (JObj [(''config_schema_version'', JInt v)])"
    and "- (2 ^ 63) \<le> v" and "v < 2 ^ 63"
    and "run_on_startup (build_app_registry J parse_err) disk = Some (report, disk')"
  shows "has_failures report \<longleftrightarrow> 0 \<le> as_i32 v \<and> as_i32 v \<noteq> 1"
proof -
  have c: "json_version J parse_err ''config.json'' ''config_schema_version'' disk = Value (as_i32 v)"
    using assms(1-4) by (simp add: json_version_def exists_file_def read_file_def as_i64_def)
  have others: "json_version J parse_err ''security_pass_hash.bin'' ''v'' disk = Value (-1)"
      "hw_salt_version disk = Value (-1)" "kdf_version disk = Value (-1)"
    by (simp_all add: assms(1) json_version_def exists_file_def hw_salt_version_def kdf_version_def)
  have w: "walk_chain (ConfigArtefact J parse_err) (build_app_registry J parse_err) 0 1 [] disk =
      Some (Fatal (no_migration_msg ''config.json'' 0), [\<lparr> st_artefact_id = ''config.json'', st_from_version = 0,
        st_to_version = 1, st_succeeded = False, st_error = Some (no_migration_msg ''config.json'' 0) \<rparr>], disk)"
    by (subst walk_chain.simps) (simp add: find_migration_def build_app_registry_def ConfigArtefact_def)
  let ?reg = "build_app_registry J parse_err"
  have idx: "artefacts ?reg ! 3 = HwSaltArtefact" "artefacts ?reg ! 2 = PassGateArtefact J parse_err"
      "artefacts ?reg ! 1 = KdfArtefact" "artefacts ?reg ! 0 = ConfigArtefact J parse_err"
    by (simp_all add: build_app_registry_def numeral_eq_Suc)
  have skip: "migrate_artefact HwSaltArtefact ?reg [] disk = Some (OkOutcome, [], disk)"
      "migrate_artefact (PassGateArtefact J parse_err) ?reg [] disk = Some (OkOutcome, [], disk)"
      "migrate_artefact KdfArtefact ?reg [] disk = Some (OkOutcome, [], disk)"
    using others by (simp_all add: migrate_artefact_def HwSaltArtefact_def PassGateArtefact_def KdfArtefact_def)
  have run: "run_artefacts ?reg [0] [] [] disk = Some (report, disk')"
    using assms(5) by (simp add: run_on_startup_def app_order idx skip del: One_nat_def)
  have cfg: "art_read_version (ConfigArtefact J parse_err) disk = Value (as_i32 v)"
      "art_target_version (ConfigArtefact J parse_err) = 1" "art_id (ConfigArtefact J parse_err) = ''config.json''"
    using c by (simp_all add: ConfigArtefact_def)
  consider "as_i32 v = 0" | "as_i32 v < 0" | "as_i32 v = 1" | "as_i32 v > 1" by linarith
  then show ?thesis
    by cases (use run w in \<open>auto simp: idx migrate_artefact_def cfg has_failures_def\<close>)
qed

theorem config_version_gate_witness:
  "\<exists>report disk'. run_on_startup (build_app_registry (json_table [JObj [(''config_schema_version'', JInt 4294967297)]]) (\<lambda>b. []))
     (\<lambda>name. if name = ''config.json'' then File 1 (Inr [0x30]) else NotFound) = Some (report, disk') \<and> \<not> has_failures report"
proof -
  let ?J = "json_table [JObj [(''config_schema_version'', JInt 4294967297)]]"
  let ?disk = "\<lambda>name. if name = ''config.json'' then File 1 (Inr [0x30]) else NotFound"
  have j: "json_parse_bytes ?J [0x30] = Some (JObj [(''config_schema_version'', JInt 4294967297)])" by code_simp
  have i: "as_i32 4294967297 = 1" by code_simp
  obtain report disk' where r: "run_on_startup (build_app_registry ?J (\<lambda>b. [])) ?disk = Some (report, disk')"
    using app_returns by blast
  have "\<not> has_failures report" using config_version_gate [OF refl j _ _ r] i by simp
  with r show ?thesis by blast
qed

end
