(* ===== verification/Archive_Envelope.thy ===== *)
theory Archive_Envelope
  imports Interfaces External
begin

text \<open>
  The encrypted archive container of \<open>archive/envelope.rs\<close> and the wrappers of \<open>crypto.rs\<close> it calls.
  The Argon2id and AES-GCM implementations are parameters (\<open>argon\<close>, \<open>aead_lib\<close>); the random salt and
  nonce of an export are arguments.  The memory cap differs on phones and is the parameter \<open>mobile\<close>.
\<close>

section \<open>Definitions\<close>

datatype crypto_error =
    NonceLength nat
  | CiphertextTooShort nat
  | KeyLength nat
  | AeadFailure
  | OutputLength nat
  | KdfFailure
  | EnvelopeTooShort
  | NotLfse
  | UnsupportedVersion byte
  | UnsupportedKdf byte
  | ParamsExceedCaps nat nat nat

type_synonym argon = "bytes \<Rightarrow> bytes \<Rightarrow> nat \<Rightarrow> nat \<Rightarrow> nat \<Rightarrow> nat \<Rightarrow> bytes option"

definition AES_GCM_IV_LEN :: nat where
  "AES_GCM_IV_LEN = 12"

definition AES_GCM_TAG_LEN :: nat where
  "AES_GCM_TAG_LEN = 16"

definition AES_GCM_KEY_LEN :: nat where
  "AES_GCM_KEY_LEN = 32"

definition aes_gcm_encrypt_raw :: "aead_lib \<Rightarrow> bytes \<Rightarrow> bytes \<Rightarrow> bytes \<Rightarrow> bytes \<Rightarrow> crypto_error + bytes" where
  "aes_gcm_encrypt_raw A key nonce plaintext aad =
     (if length nonce \<noteq> AES_GCM_IV_LEN then Inl (NonceLength (length nonce))
      else if length key \<noteq> AES_GCM_KEY_LEN then Inl (KeyLength (length key))
      else case aead_seal A key nonce plaintext aad of Some c \<Rightarrow> Inr c | None \<Rightarrow> Inl AeadFailure)"

definition aes_gcm_decrypt_raw :: "aead_lib \<Rightarrow> bytes \<Rightarrow> bytes \<Rightarrow> bytes \<Rightarrow> bytes \<Rightarrow> crypto_error + bytes" where
  "aes_gcm_decrypt_raw A key nonce ciphertext aad =
     (if length nonce \<noteq> AES_GCM_IV_LEN then Inl (NonceLength (length nonce))
      else if length ciphertext < AES_GCM_TAG_LEN then Inl (CiphertextTooShort (length ciphertext))
      else if length key \<noteq> AES_GCM_KEY_LEN then Inl (KeyLength (length key))
      else case aead_open A key nonce ciphertext aad of Some p \<Rightarrow> Inr p | None \<Rightarrow> Inl AeadFailure)"

definition argon2id_derive :: "argon \<Rightarrow> bytes \<Rightarrow> bytes \<Rightarrow> nat \<Rightarrow> nat \<Rightarrow> nat \<Rightarrow> nat \<Rightarrow> crypto_error + bytes" where
  "argon2id_derive K password salt memory_kib iterations parallelism len =
     (if len = 0 \<or> len > 64 * 1024 * 1024 then Inl (OutputLength len)
      else case K password salt memory_kib iterations parallelism len of
             Some out \<Rightarrow> Inr out | None \<Rightarrow> Inl KdfFailure)"

definition ENC_HEADER_MAGIC :: bytes where
  "ENC_HEADER_MAGIC = [0x4C, 0x46, 0x53, 0x45]"

definition ENC_VERSION_ARGON2ID_AAD :: byte where
  "ENC_VERSION_ARGON2ID_AAD = 0x03"

definition ENC_VERSION_ARGON2ID_LEGACY :: byte where
  "ENC_VERSION_ARGON2ID_LEGACY = 0x02"

definition KDF_ALGO_ARGON2ID :: byte where
  "KDF_ALGO_ARGON2ID = 0x01"

definition SALT_LEN :: nat where
  "SALT_LEN = 32"

definition IV_LEN :: nat where
  "IV_LEN = 12"

definition AES_KEY_LEN :: nat where
  "AES_KEY_LEN = 32"

definition MAX_IMPORT_MEMORY_KIB :: "bool \<Rightarrow> nat" where
  "MAX_IMPORT_MEMORY_KIB mobile = (if mobile then 512 * 1024 else 1024 * 1024)"

definition MAX_IMPORT_ITERATIONS :: nat where
  "MAX_IMPORT_ITERATIONS = 20"

definition MAX_IMPORT_PARALLELISM :: nat where
  "MAX_IMPORT_PARALLELISM = 4"

definition exceeds_caps :: "bool \<Rightarrow> nat \<Rightarrow> nat \<Rightarrow> nat \<Rightarrow> bool" where
  "exceeds_caps mobile m t p \<longleftrightarrow>
     m > MAX_IMPORT_MEMORY_KIB mobile \<or> t > MAX_IMPORT_ITERATIONS \<or> p > MAX_IMPORT_PARALLELISM"

definition encrypt_with_password ::
  "argon \<Rightarrow> aead_lib \<Rightarrow> bool \<Rightarrow> bytes \<Rightarrow> bytes \<Rightarrow> bytes \<Rightarrow> string \<Rightarrow> nat \<Rightarrow> nat \<Rightarrow> nat \<Rightarrow> crypto_error + bytes" where
  "encrypt_with_password K A mobile salt iv zip_bytes password memory_kib iterations parallelism =
     (if exceeds_caps mobile memory_kib iterations parallelism
      then Inl (ParamsExceedCaps memory_kib iterations parallelism)
      else case argon2id_derive K (str_bytes password) salt memory_kib iterations parallelism AES_KEY_LEN of
             Inl e \<Rightarrow> Inl e
           | Inr derived \<Rightarrow>
               let header = ENC_HEADER_MAGIC @ [ENC_VERSION_ARGON2ID_AAD] @ [KDF_ALGO_ARGON2ID] @
                            be_bytes 4 memory_kib @ be_bytes 4 iterations @ [of_nat (min parallelism 255)] @ salt
               in case aes_gcm_encrypt_raw A derived iv zip_bytes header of
                    Inl e \<Rightarrow> Inl e
                  | Inr ct \<Rightarrow> Inr (header @ iv @ ct))"

definition decrypt_archive_with_password ::
  "argon \<Rightarrow> aead_lib \<Rightarrow> bool \<Rightarrow> bytes \<Rightarrow> string \<Rightarrow> crypto_error + bytes" where
  "decrypt_archive_with_password K A mobile envelope password =
     (if length envelope < 4 + 1 + 10 + SALT_LEN + IV_LEN then Inl EnvelopeTooShort
      else if take 4 envelope \<noteq> ENC_HEADER_MAGIC then Inl NotLfse
      else let version = envelope ! 4
           in if version \<noteq> ENC_VERSION_ARGON2ID_AAD \<and> version \<noteq> ENC_VERSION_ARGON2ID_LEGACY
              then Inl (UnsupportedVersion version)
              else if envelope ! 5 \<noteq> KDF_ALGO_ARGON2ID then Inl (UnsupportedKdf (envelope ! 5))
              else let memory_kib = be_val (take 4 (drop 6 envelope));
                       iterations = be_val (take 4 (drop 10 envelope));
                       parallelism = unat (envelope ! 14)
                   in if exceeds_caps mobile memory_kib iterations parallelism
                      then Inl (ParamsExceedCaps memory_kib iterations parallelism)
                      else let salt = take SALT_LEN (drop 15 envelope);
                               pre_iv_header = take (15 + SALT_LEN) envelope;
                               iv = take IV_LEN (drop (15 + SALT_LEN) envelope);
                               ct = drop (15 + SALT_LEN + IV_LEN) envelope
                           in case argon2id_derive K (str_bytes password) salt memory_kib iterations parallelism AES_KEY_LEN of
                                Inl e \<Rightarrow> Inl e
                              | Inr derived \<Rightarrow>
                                  aes_gcm_decrypt_raw A derived iv ct
                                    (if version = ENC_VERSION_ARGON2ID_AAD then pre_iv_header else []))"

section \<open>Lemmas\<close>

lemmas envelope_consts = ENC_HEADER_MAGIC_def ENC_VERSION_ARGON2ID_AAD_def ENC_VERSION_ARGON2ID_LEGACY_def
  KDF_ALGO_ARGON2ID_def SALT_LEN_def IV_LEN_def AES_KEY_LEN_def

lemmas cap_consts = exceeds_caps_def MAX_IMPORT_MEMORY_KIB_def MAX_IMPORT_ITERATIONS_def MAX_IMPORT_PARALLELISM_def

text \<open>The fixed fields of the header sit where the reader looks for them.\<close>

lemma header_fields:
  assumes "env = ENC_HEADER_MAGIC @ [ver] @ [algo] @ mem @ iters @ [par] @ salt @ iv @ ct"
    and "length mem = 4" "length iters = 4" "length salt = 32" "length iv = 12"
  shows "take 4 env = ENC_HEADER_MAGIC" "env ! 4 = ver" "env ! 5 = algo" "take 4 (drop 6 env) = mem"
    "take 4 (drop 10 env) = iters" "env ! 14 = par" "take 32 (drop 15 env) = salt"
    "take 47 env = ENC_HEADER_MAGIC @ [ver] @ [algo] @ mem @ iters @ [par] @ salt"
    "take 12 (drop 47 env) = iv" "drop 59 env = ct" "\<not> length env < 59"
  using assms by (simp_all add: ENC_HEADER_MAGIC_def nth_append)

lemma be_val_u32: "n < 2 ^ 32 \<Longrightarrow> be_val (be_bytes 4 n) = n"
  by simp

section \<open>Properties\<close>

text \<open>
  C36. An exported archive opens with its password: for every payload, password and permitted
  parameters, what \<open>encrypt_with_password\<close> writes is decrypted to the payload, provided AES-GCM opens
  what it sealed.
\<close>

theorem archive_round_trip:
  assumes "aead_ok A" and "length salt = 32" and "length iv = 12"
    and "encrypt_with_password K A mobile salt iv zip_bytes password m t p = Inr envelope"
  shows "decrypt_archive_with_password K A mobile envelope password = Inr zip_bytes"
proof -
  have caps: "\<not> exceeds_caps mobile m t p" using assms(4) by (auto simp: encrypt_with_password_def split: if_splits)
  obtain derived where d: "argon2id_derive K (str_bytes password) salt m t p AES_KEY_LEN = Inr derived"
    using assms(4) caps by (auto simp: encrypt_with_password_def split: sum.splits)
  let ?h = "ENC_HEADER_MAGIC @ [ENC_VERSION_ARGON2ID_AAD] @ [KDF_ALGO_ARGON2ID] @ be_bytes 4 m @ be_bytes 4 t @
    [of_nat (min p 255)] @ salt"
  obtain ct where c: "aes_gcm_encrypt_raw A derived iv zip_bytes ?h = Inr ct" "envelope = ?h @ iv @ ct"
    using assms(4) caps d by (auto simp: encrypt_with_password_def Let_def split: sum.splits)
  have opn: "aes_gcm_decrypt_raw A derived iv ct ?h = Inr zip_bytes"
    using c(1) aead_okD [OF assms(1), of derived iv zip_bytes ?h]
    by (auto simp: aes_gcm_encrypt_raw_def aes_gcm_decrypt_raw_def AES_GCM_TAG_LEN_def split: if_splits option.splits)
  have small: "m < 2 ^ 32" "t < 2 ^ 32" "p \<le> 4" using caps by (auto simp: cap_consts split: if_splits)
  have env: "envelope = ENC_HEADER_MAGIC @ [ENC_VERSION_ARGON2ID_AAD] @ [KDF_ALGO_ARGON2ID] @ be_bytes 4 m @
      be_bytes 4 t @ [of_nat (min p 255)] @ salt @ iv @ ct"
    using c(2) by simp
  note f = header_fields [OF env length_be_bytes length_be_bytes assms(2,3)]
  have par: "unat (of_nat p :: byte) = p" "min p 255 = p" using small(3) by (simp_all add: unat_of_nat)
  show ?thesis
    unfolding decrypt_archive_with_password_def Let_def SALT_LEN_def IV_LEN_def
    using caps d opn small f(11) by (simp add: f(1-10) par be_val_u32 del: be_val_be_bytes)
qed

theorem archive_round_trip_witness:
  "\<exists>envelope. encrypt_with_password (\<lambda>pw s m t p n. Some (take n (pw @ s))) aead_ref False (replicate 32 7) (replicate 12 9)
       [1, 2, 3] ''pw'' 65536 3 1 = Inr envelope \<and>
     decrypt_archive_with_password (\<lambda>pw s m t p n. Some (take n (pw @ s))) aead_ref False envelope ''pw'' = Inr [1, 2, 3]"
proof -
  let ?K = "\<lambda>pw s m t p n. Some (take n (pw @ s))"
  obtain envelope where e: "encrypt_with_password ?K aead_ref False (replicate 32 7) (replicate 12 9)
      [1, 2, 3] ''pw'' 65536 3 1 = Inr envelope"
    by (simp add: encrypt_with_password_def cap_consts argon2id_derive_def AES_KEY_LEN_def aes_gcm_encrypt_raw_def
        AES_GCM_IV_LEN_def AES_GCM_KEY_LEN_def aead_ref_def Let_def)
  with archive_round_trip [OF aead_ref_ok, of "replicate 32 7" "replicate 12 9" ?K False] show ?thesis by auto
qed

text \<open>
  An untrusted archive cannot make the key derivation expensive: the answer to an import depends on
  the derivation function only through its values at parameters within the caps (1 GiB, 512 MiB on a
  phone; 20 passes; 4 lanes), whatever the bytes of the archive are.
\<close>

theorem kdf_called_within_caps:
  assumes "\<forall>pw salt m t p n. m \<le> MAX_IMPORT_MEMORY_KIB mobile \<and> t \<le> 20 \<and> p \<le> 4 \<longrightarrow> K pw salt m t p n = K' pw salt m t p n"
  shows "decrypt_archive_with_password K A mobile envelope password = decrypt_archive_with_password K' A mobile envelope password"
proof -
  have "argon2id_derive K pw salt m t p n = argon2id_derive K' pw salt m t p n" if "\<not> exceeds_caps mobile m t p" for pw salt m t p n
    using that assms by (auto simp: exceeds_caps_def MAX_IMPORT_ITERATIONS_def MAX_IMPORT_PARALLELISM_def argon2id_derive_def)
  then show ?thesis unfolding decrypt_archive_with_password_def Let_def by (simp split: if_split)
qed

theorem kdf_called_within_caps_witness:
  "decrypt_archive_with_password (\<lambda>pw s m t p n. Some []) aead_ref True (replicate 80 0xFF) ''pw'' =
   decrypt_archive_with_password (\<lambda>pw s m t p n. if m > 1000000 then None else Some []) aead_ref True (replicate 80 0xFF) ''pw''"
  by (rule kdf_called_within_caps) (simp add: MAX_IMPORT_MEMORY_KIB_def)

end
