(* ===== verification/Iso8601.thy ===== *)
theory Iso8601
  imports Interfaces
begin

text \<open>
  The calendar arithmetic of \<open>archive/iso8601.rs\<close>: unix time to civil date and back, and the
  \<open>YYYY-MM-DDTHH:MM:SS.mmmZ\<close> text of archives and sync.  The numbers are \<open>i64\<close>; no intermediate
  value leaves that range for times within the years the four-digit text can hold.
\<close>

section \<open>Definitions\<close>

definition unix_to_civil :: "int \<Rightarrow> int \<times> int \<times> int \<times> int \<times> int \<times> int" where
  "unix_to_civil secs =
     (let days = secs div 86400;
          time_of_day = secs mod 86400;
          z = days + 719468;
          era = z div 146097;
          doe = z mod 146097;
          yoe = (doe - doe div 1460 + doe div 36524 - doe div 146096) div 365;
          y = yoe + era * 400;
          doy = doe - (365 * yoe + yoe div 4 - yoe div 100);
          mp = (5 * doy + 2) div 153;
          d = doy - (153 * mp + 2) div 5 + 1;
          m = (if mp < 10 then mp + 3 else mp - 9);
          year = (if m \<le> 2 then y + 1 else y)
      in (year, m, d, time_of_day div 3600, (time_of_day mod 3600) div 60, time_of_day mod 60))"

definition civil_to_unix_ms :: "int \<Rightarrow> int \<Rightarrow> int \<Rightarrow> int \<Rightarrow> int \<Rightarrow> int \<Rightarrow> int" where
  "civil_to_unix_ms year month day hh mm ss =
     (let y = (if month \<le> 2 then year - 1 else year);
          era = y div 400;
          yoe = y - era * 400;
          doy = (153 * (if month > 2 then month - 3 else month + 9) + 2) div 5 + day - 1;
          doe = yoe * 365 + yoe div 4 - yoe div 100 + doy;
          days_since_epoch = era * 146097 + doe - 719468;
          secs = days_since_epoch * 86400 + hh * 3600 + mm * 60 + ss
      in secs * 1000)"

text \<open>\<open>{v:0w}\<close>: the sign counts towards the width.\<close>

definition fmt_int :: "nat \<Rightarrow> int \<Rightarrow> string" where
  "fmt_int w v = (if v < 0 then ''-'' @ pad0 (w - 1) (dec (nat (- v))) else pad0 w (dec (nat v)))"

definition format_iso8601_utc :: "int \<Rightarrow> string" where
  "format_iso8601_utc ms =
     (let secs_total = ms div 1000; millis = ms mod 1000;
          (year, month, day, hh, mm, ss) = unix_to_civil secs_total
      in fmt_int 4 year @ ''-'' @ fmt_int 2 month @ ''-'' @ fmt_int 2 day @ ''T'' @ fmt_int 2 hh @ '':'' @
         fmt_int 2 mm @ '':'' @ fmt_int 2 ss @ ''.'' @ fmt_int 3 millis @ ''Z'')"

definition iso_field :: "string \<Rightarrow> nat \<Rightarrow> nat \<Rightarrow> int option" where
  "iso_field s off len =
     Option.bind (from_utf8 (str_bytes (take len (drop off s)))) (parse_signed (- (2 ^ 63)) (2 ^ 63 - 1))"

definition or_default :: "'a option \<Rightarrow> 'a \<Rightarrow> 'a" where
  "or_default x d = (case x of Some v \<Rightarrow> v | None \<Rightarrow> d)"

definition as_u32 :: "int \<Rightarrow> int" where
  "as_u32 v = v mod 2 ^ 32"

definition parse_iso8601_opt :: "string \<Rightarrow> int option" where
  "parse_iso8601_opt s =
     (if length s < 24 then None
      else let year = or_default (iso_field s 0 4) 1970; month = or_default (iso_field s 5 2) 1;
               day = or_default (iso_field s 8 2) 1; hh = or_default (iso_field s 11 2) 0;
               mm = or_default (iso_field s 14 2) 0; ss = or_default (iso_field s 17 2) 0;
               ms = or_default (iso_field s 20 3) 0
           in Some (civil_to_unix_ms year (as_u32 month) (as_u32 day) (as_u32 hh) (as_u32 mm) (as_u32 ss) + ms))"

definition parse_iso8601_or_now :: "string \<Rightarrow> int \<Rightarrow> int" where
  "parse_iso8601_or_now s now_ms = or_default (parse_iso8601_opt s) now_ms"

section \<open>Lemmas\<close>

subsection \<open>Years of a 400-year era\<close>

definition year_index :: "int \<Rightarrow> int" where
  "year_index doe = (doe - doe div 1460 + doe div 36524 - doe div 146096)"

definition year_start :: "int \<Rightarrow> int" where
  "year_start y = 365 * y + y div 4 - y div 100"

definition year_last :: "int \<Rightarrow> int" where
  "year_last y = (if y = 399 then 146096 else year_start (y + 1) - 1)"

text \<open>A year as centuries, leap cycles and years of the cycle.\<close>

definition in_era :: "int \<Rightarrow> int \<Rightarrow> int \<Rightarrow> bool" where
  "in_era g b r \<longleftrightarrow> 0 \<le> g \<and> g \<le> 3 \<and> 0 \<le> b \<and> b \<le> 24 \<and> 0 \<le> r \<and> r \<le> 3"

lemma year_parts:
  assumes "0 \<le> y" "y \<le> 399"
  obtains g b r where "y = 100 * g + 4 * b + r" "in_era g b r"
proof
  show "y = 100 * (y div 100) + 4 * (y mod 100 div 4) + y mod 100 mod 4" by simp
  show "in_era (y div 100) (y mod 100 div 4) (y mod 100 mod 4)"
    using assms unfolding in_era_def by linarith
qed

lemma year_start_parts: "in_era g b r \<Longrightarrow> year_start (100 * g + 4 * b + r) = 36524 * g + 1461 * b + 365 * r"
proof -
  assume "in_era g b r"
  then have "(100 * g + 4 * b + r) div 4 = 25 * g + b" "(100 * g + 4 * b + r) div 100 = g"
    unfolding in_era_def by linarith+
  then show ?thesis by (simp add: year_start_def)
qed

lemma year_index_parts: "in_era g b r \<Longrightarrow> year_index (36524 * g + 1461 * b + 365 * r) = 365 * (100 * g + 4 * b + r)"
proof -
  let ?f = "36524 * g + 1461 * b + 365 * r"
  assume "in_era g b r"
  then have "?f div 1460 = 25 * g + b" "?f div 36524 = g" "?f div 146096 = 0"
    unfolding in_era_def by linarith+
  then show ?thesis by (simp add: year_index_def)
qed

lemma year_index_parts_before:
  "in_era g b r \<Longrightarrow> 0 < 100 * g + 4 * b + r \<Longrightarrow>
     year_index (36524 * g + 1461 * b + 365 * r - 1) < 365 * (100 * g + 4 * b + r)"
proof -
  let ?f = "36524 * g + 1461 * b + 365 * r - 1"
  assume e: "in_era g b r" "0 < 100 * g + 4 * b + r"
  have "?f div 1460 = 25 * g + b" "?f div 146096 = 0" "?f div 36524 \<le> g"
    using e unfolding in_era_def by linarith+
  then show ?thesis by (simp add: year_index_def)
qed

lemma year_bounds:
  assumes "0 \<le> y" "y \<le> 399"
  shows "365 * y \<le> year_index (year_start y) \<and> year_index (year_last y) \<le> 365 * y + 364 \<and>
    year_last y - year_start y \<le> 365"
proof -
  obtain g b r where p: "y = 100 * g + 4 * b + r" "in_era g b r" using year_parts [OF assms] .
  have 1: "365 * y \<le> year_index (year_start y)" using p by (simp add: year_start_parts year_index_parts)
  show ?thesis
  proof (cases "y = 399")
    case True
    then show ?thesis using 1 by (simp add: year_last_def year_start_def year_index_def)
  next
    case False
    then have y1: "0 \<le> y + 1" "y + 1 \<le> 399" using assms by auto
    obtain g' b' r' where q: "y + 1 = 100 * g' + 4 * b' + r'" "in_era g' b' r'" using year_parts [OF y1] .
    have "year_index (year_last y) < 365 * (y + 1)"
      using False q year_index_parts_before [OF q(2)] assms by (simp add: year_last_def year_start_parts)
    moreover have "year_last y - year_start y \<le> 365"
      using False by (simp add: year_last_def year_start_def)
    ultimately show ?thesis using 1 by simp
  qed
qed

lemma year_index_Suc: "0 \<le> d \<Longrightarrow> d < 146096 \<Longrightarrow> year_index d \<le> year_index (d + 1)"
proof -
  assume d: "0 \<le> d" "d < 146096"
  define a a' c c' e' where "a = d div 1460" and "a' = (d + 1) div 1460" and "c = d div 36524"
    and "c' = (d + 1) div 36524" and "e' = (d + 1) div 146096"
  have "a' \<le> a + 1" "c \<le> c'" "d div 146096 = 0" using d unfolding a_def a'_def c_def c'_def by linarith+
  moreover have "e' \<le> c' - c"
  proof (cases "d = 146095")
    case True
    then show ?thesis by (simp add: e'_def c'_def c_def)
  next
    case False
    then have "e' = 0" using d by (simp add: e'_def)
    with \<open>c \<le> c'\<close> show ?thesis by simp
  qed
  ultimately show ?thesis
    unfolding year_index_def a_def [symmetric] a'_def [symmetric] c_def [symmetric] c'_def [symmetric] e'_def [symmetric]
    by simp
qed

lemma year_index_mono: "0 \<le> a \<Longrightarrow> a + int k \<le> 146096 \<Longrightarrow> year_index a \<le> year_index (a + int k)"
proof (induction k)
  case (Suc k)
  then have "year_index (a + int k) \<le> year_index (a + int k + 1)" by (intro year_index_Suc) auto
  with Suc show ?case by (simp add: add.commute add.left_commute)
qed simp

lemma year_of_day:
  assumes "0 \<le> n" "n \<le> 399"
  shows "0 \<le> doe \<Longrightarrow> doe \<le> year_last n \<Longrightarrow> \<exists>y. 0 \<le> y \<and> y \<le> n \<and> year_start y \<le> doe \<and> doe \<le> year_last y"
  using assms
proof (induction n rule: int_ge_induct)
  case base
  then show ?case by (intro exI [of _ 0]) (simp add: year_start_def)
next
  case (step n)
  show ?case
  proof (cases "year_start (n + 1) \<le> doe")
    case True
    with step show ?thesis by (intro exI [of _ "n + 1"]) simp
  next
    case False
    then have "doe \<le> year_last n" using step by (simp add: year_last_def)
    with step obtain y where "0 \<le> y \<and> y \<le> n \<and> year_start y \<le> doe \<and> doe \<le> year_last y" by auto
    then show ?thesis by (intro exI [of _ y]) simp
  qed
qed

lemma era_year:
  assumes "0 \<le> doe" "doe \<le> 146096"
  defines "yoe \<equiv> year_index doe div 365"
  shows "0 \<le> yoe \<and> yoe \<le> 399 \<and> 0 \<le> doe - year_start yoe \<and> doe - year_start yoe \<le> 365"
proof -
  obtain y where y: "0 \<le> y" "y \<le> 399" "year_start y \<le> doe" "doe \<le> year_last y"
    using year_of_day [of 399 doe] assms by (auto simp: year_last_def)
  note b = year_bounds [OF y(1,2)]
  have s: "0 \<le> year_start y" using y(1) by (simp add: year_start_def)
  have l: "year_last y \<le> 146096"
  proof (cases "y = 399")
    case False
    then have "0 \<le> y + 1" "y + 1 \<le> 399" using y by auto
    then obtain g b' r where q: "y + 1 = 100 * g + 4 * b' + r" "in_era g b' r" by (rule year_parts)
    have "year_last y = 36524 * g + 1461 * b' + 365 * r - 1"
      using False q by (simp add: year_last_def year_start_parts)
    then show ?thesis using q(2) unfolding in_era_def by linarith
  qed (simp add: year_last_def)
  have "year_index (year_start y) \<le> year_index doe"
    using year_index_mono [of "year_start y" "nat (doe - year_start y)"] s y(3) assms(2) by simp
  moreover have "year_index doe \<le> year_index (year_last y)"
    using year_index_mono [of doe "nat (year_last y - doe)"] assms(1) y(4) l by simp
  ultimately have "yoe = y" unfolding yoe_def using b by linarith
  then show ?thesis using y b by simp
qed

lemma month_bounds:
  assumes "0 \<le> doy" "doy \<le> (365 :: int)"
  defines "mp \<equiv> (5 * doy + 2) div 153"
  shows "0 \<le> mp \<and> mp \<le> 11 \<and> 1 \<le> doy - (153 * mp + 2) div 5 + 1 \<and> doy - (153 * mp + 2) div 5 + 1 \<le> 31"
proof -
  have "153 * mp \<le> 5 * doy + 2" "5 * doy + 2 \<le> 153 * mp + 152" unfolding mp_def by linarith+
  with assms(1,2) show ?thesis by linarith
qed

lemma era_back: "0 \<le> yoe \<Longrightarrow> yoe \<le> 399 \<Longrightarrow> (yoe + era * 400) div 400 = (era :: int)"
  by linarith

text \<open>The date of a time is a calendar date and gives the time back.\<close>

lemma civil_inverse:
  assumes "unix_to_civil secs = (year, m, d, hh, mm, ss)"
  shows "civil_to_unix_ms year m d hh mm ss = secs * 1000 \<and> 1 \<le> m \<and> m \<le> 12 \<and> 1 \<le> d \<and> d \<le> 31 \<and>
    0 \<le> hh \<and> hh \<le> 23 \<and> 0 \<le> mm \<and> mm \<le> 59 \<and> 0 \<le> ss \<and> ss \<le> 59"
proof -
  define days tod where "days = secs div 86400" and "tod = secs mod 86400"
  define era doe where "era = (days + 719468) div 146097" and "doe = (days + 719468) mod 146097"
  define yoe where "yoe = year_index doe div 365"
  define doy where "doy = doe - year_start yoe"
  define mp where "mp = (5 * doy + 2) div 153"
  have doe: "0 \<le> doe" "doe \<le> 146096" unfolding doe_def by linarith+
  note y = era_year [OF doe, folded yoe_def, folded doy_def]
  note mb = month_bounds [of doy, folded mp_def]
  have eq: "year = (if m \<le> 2 then yoe + era * 400 + 1 else yoe + era * 400)"
      "m = (if mp < 10 then mp + 3 else mp - 9)" "d = doy - (153 * mp + 2) div 5 + 1"
      "hh = tod div 3600" "mm = (tod mod 3600) div 60" "ss = tod mod 60"
    using assms unfolding unix_to_civil_def Let_def days_def [symmetric] tod_def [symmetric] era_def [symmetric]
      doe_def [symmetric] year_index_def [symmetric] yoe_def [symmetric] year_start_def [symmetric]
      doy_def [symmetric] mp_def [symmetric] by auto
  have t: "0 \<le> tod" "tod < 86400" unfolding tod_def by linarith+
  have ss: "ss = tod mod 3600 mod 60" unfolding eq(6) by (simp add: mod_mod_cancel)
  have "mm * 60 + ss = tod mod 3600" unfolding eq(5) ss by simp
  then have t': "hh * 3600 + mm * 60 + ss = tod" unfolding eq(4) by (simp add: add.assoc)
  have t'': "0 \<le> hh" "hh \<le> 23" "0 \<le> mm" "mm \<le> 59" "0 \<le> ss" "ss \<le> 59"
    using t unfolding eq(4,5,6) by linarith+
  have m: "(if m > 2 then m - 3 else m + 9) = mp" "1 \<le> m" "m \<le> 12" using mb y unfolding eq(2) by auto
  have yy: "(if m \<le> 2 then year - 1 else year) = yoe + era * 400" unfolding eq(1) by simp
  have "era * 146097 + doe = days + 719468" unfolding era_def doe_def by simp
  moreover have "yoe * 365 + yoe div 4 - yoe div 100 + ((153 * mp + 2) div 5 + d - 1) = doe"
    unfolding eq(3) doy_def year_start_def by simp
  moreover have "civil_to_unix_ms year m d hh mm ss =
      ((era * 146097 + (yoe * 365 + yoe div 4 - yoe div 100 + ((153 * mp + 2) div 5 + d - 1)) - 719468) * 86400
        + hh * 3600 + mm * 60 + ss) * 1000"
    unfolding civil_to_unix_ms_def Let_def yy m(1) using era_back [of yoe era] y by simp
  ultimately have "civil_to_unix_ms year m d hh mm ss = (days * 86400 + tod) * 1000" using t' by simp
  also have "days * 86400 + tod = secs" unfolding days_def tod_def by simp
  finally show ?thesis using m t'' mb y eq(3) by auto
qed

text \<open>Fields of fixed width.\<close>

lemma dec_length: "n < 10 ^ k \<Longrightarrow> 0 < k \<Longrightarrow> length (dec n) \<le> k"
proof (induction n arbitrary: k rule: dec.induct)
  case (1 n)
  show ?case
  proof (cases "n < 10")
    case True
    then show ?thesis using "1.prems" by (simp add: dec.simps [of n])
  next
    case False
    then obtain j where k: "k = Suc j" "0 < j" using "1.prems" by (cases k; cases "k - 1") auto
    then have "n div 10 < 10 ^ j" using "1.prems" by (simp add: less_mult_imp_div_less mult.commute)
    then show ?thesis using 1 False k by (simp add: dec.simps [of n])
  qed
qed

lemma fmt_int_length: "0 \<le> v \<Longrightarrow> v < 10 ^ w \<Longrightarrow> 0 < w \<Longrightarrow> length (fmt_int w v) = w"
proof -
  assume v: "0 \<le> v" "v < 10 ^ w" "0 < w"
  then have "nat v < 10 ^ w" by (metis nat_less_iff of_nat_numeral of_nat_power)
  then show ?thesis using dec_length [of "nat v" w] v by (simp add: fmt_int_def pad0_def)
qed

lemma fmt_int_digits: "0 \<le> v \<Longrightarrow> list_all is_ascii_digit (fmt_int w v)"
  using dec_digits [of "nat v"] by (simp add: fmt_int_def pad0_def list_all_append) (simp add: list_all_iff is_ascii_digit_def)

lemma digit_byte: "is_ascii_digit c \<Longrightarrow> unat (of_char c :: byte) < 128"
proof -
  assume "is_ascii_digit c"
  moreover have "unat (of_char c :: byte) = of_char c"
    by (simp add: of_nat_of_char [where ?'a = byte, symmetric] unat_of_nat)
  ultimately show ?thesis by (simp add: is_ascii_digit_def)
qed

lemma parse_fmt_int:
  assumes "0 \<le> v" "v < 2 ^ 63"
  shows "Option.bind (from_utf8 (str_bytes (fmt_int w v))) (parse_signed (- (2 ^ 63)) (2 ^ 63 - 1)) = Some v"
proof -
  have d: "list_all is_ascii_digit (fmt_int w v)" using assms by (rule_tac fmt_int_digits)
  then have "utf8_ok (str_bytes (fmt_int w v))"
    by (intro utf8_ok_ascii) (auto simp: list_all_iff str_bytes_def digit_byte)
  moreover have "fmt_int w v \<noteq> []" "digits_val (fmt_int w v) = nat v" using assms by (auto simp: fmt_int_def pad0_def)
  ultimately show ?thesis using d assms by (simp add: from_utf8_def parse_signed_digits)
qed

lemma iso_field_at:
  assumes "s = a @ fmt_int w v @ b" "length a = off" "0 \<le> v" "v < 10 ^ w" "0 < w" "w < 18"
  shows "iso_field s off w = Some v"
proof -
  have "take w (drop off s) = fmt_int w v" using assms fmt_int_length [of v w] by simp
  moreover have "(10 :: int) ^ w \<le> 10 ^ 18" using assms(6) by (intro power_increasing) auto
  ultimately show ?thesis using parse_fmt_int [of v w] assms by (simp add: iso_field_def)
qed

section \<open>Properties\<close>

text \<open>
  Dates survive the text form: within the years 0 to 9999, printing a time in milliseconds as
  \<open>YYYY-MM-DDTHH:MM:SS.mmmZ\<close> and parsing the text gives the same time, before and after 1970.
\<close>

theorem iso8601_round_trip:
  assumes "unix_to_civil (ms div 1000) = (year, m, d, hh, mm, ss)" and "0 \<le> year" and "year \<le> 9999"
  shows "parse_iso8601_opt (format_iso8601_utc ms) = Some ms"
proof -
  note c = civil_inverse [OF assms(1)]
  define milli where "milli = ms mod 1000"
  have ml: "0 \<le> milli" "milli < 1000" "ms div 1000 * 1000 + milli = ms" unfolding milli_def by simp_all
  let ?s = "format_iso8601_utc ms"
  have s: "?s = fmt_int 4 year @ ''-'' @ fmt_int 2 m @ ''-'' @ fmt_int 2 d @ ''T'' @ fmt_int 2 hh @ '':'' @
      fmt_int 2 mm @ '':'' @ fmt_int 2 ss @ ''.'' @ fmt_int 3 milli @ ''Z''"
    by (simp add: format_iso8601_utc_def Let_def assms(1) milli_def)
  have len: "length (fmt_int 4 year) = 4" "length (fmt_int 2 m) = 2" "length (fmt_int 2 d) = 2" "length (fmt_int 2 hh) = 2"
      "length (fmt_int 2 mm) = 2" "length (fmt_int 2 ss) = 2" "length (fmt_int 3 milli) = 3"
    using c ml assms by (simp_all add: fmt_int_length)
  have "iso_field ?s 0 4 = Some year" using s assms by (intro iso_field_at [where a = "[]"]) auto
  moreover have "iso_field ?s 5 2 = Some m"
    using s len c by (intro iso_field_at [where a = "fmt_int 4 year @ ''-''"]) auto
  moreover have "iso_field ?s 8 2 = Some d"
    using s len c by (intro iso_field_at [where a = "fmt_int 4 year @ ''-'' @ fmt_int 2 m @ ''-''"]) auto
  moreover have "iso_field ?s 11 2 = Some hh"
    using s len c by (intro iso_field_at [where a = "fmt_int 4 year @ ''-'' @ fmt_int 2 m @ ''-'' @ fmt_int 2 d @ ''T''"]) auto
  moreover have "iso_field ?s 14 2 = Some mm"
    using s len c by (intro iso_field_at [where a = "fmt_int 4 year @ ''-'' @ fmt_int 2 m @ ''-'' @ fmt_int 2 d @ ''T'' @
        fmt_int 2 hh @ '':''"]) auto
  moreover have "iso_field ?s 17 2 = Some ss"
    using s len c by (intro iso_field_at [where a = "fmt_int 4 year @ ''-'' @ fmt_int 2 m @ ''-'' @ fmt_int 2 d @ ''T'' @
        fmt_int 2 hh @ '':'' @ fmt_int 2 mm @ '':''"]) auto
  moreover have "iso_field ?s 20 3 = Some milli"
    using s len ml by (intro iso_field_at [where a = "fmt_int 4 year @ ''-'' @ fmt_int 2 m @ ''-'' @ fmt_int 2 d @ ''T'' @
        fmt_int 2 hh @ '':'' @ fmt_int 2 mm @ '':'' @ fmt_int 2 ss @ ''.''"]) auto
  moreover have "length ?s = 24" using s len by simp
  moreover have "as_u32 m = m" "as_u32 d = d" "as_u32 hh = hh" "as_u32 mm = mm" "as_u32 ss = ss"
    using c by (simp_all add: as_u32_def)
  ultimately show ?thesis
    using c ml by (simp add: parse_iso8601_opt_def or_default_def)
qed

theorem iso8601_round_trip_witness:
  "parse_iso8601_opt (format_iso8601_utc 1709210096789) = Some 1709210096789"
proof -
  have "unix_to_civil (1709210096789 div 1000) = (2024, 2, 29, 12, 34, 56)" by code_simp
  then show ?thesis by (rule iso8601_round_trip) simp_all
qed

text \<open>
  Every time is a calendar date: for every number of seconds, before 1970 too, the computed month,
  day, hour, minute and second are in range, and the inverse computation gives the seconds back.
\<close>

theorem civil_date_correct:
  "case unix_to_civil secs of (year, m, d, hh, mm, ss) \<Rightarrow>
     civil_to_unix_ms year m d hh mm ss = secs * 1000 \<and> m \<in> {1..12} \<and> d \<in> {1..31} \<and>
     hh \<in> {0..23} \<and> mm \<in> {0..59} \<and> ss \<in> {0..59}"
  using civil_inverse [of secs] by (auto split: prod.splits)

text \<open>Text of the right length that is no date at all parses to the epoch, not to the fallback.\<close>

lemma garbage_is_epoch: "parse_iso8601_or_now (replicate 24 (CHR ''x'')) now_ms = 0"
proof -
  have "parse_iso8601_opt (replicate 24 (CHR ''x'')) = Some 0" by code_simp
  then show ?thesis by (simp add: parse_iso8601_or_now_def or_default_def)
qed

end
