(* ===== verification/Update_Metadata.thy ===== *)
theory Update_Metadata
  imports Interfaces "HOL-Library.Product_Lexorder"
begin

text \<open>
  The pure half of the update channel, \<open>update/metadata.rs\<close>: version comparison, the allowlist of
  download hosts, asset names, the checksum manifest and the cumulative change log.
\<close>

section \<open>Definitions\<close>

definition strip_v :: "string \<Rightarrow> string" where
  "strip_v s = (case strip_prefix ''v'' s of Some r \<Rightarrow> r | None \<Rightarrow> s)"

definition version_part :: "string list \<Rightarrow> nat \<Rightarrow> int" where
  "version_part parts i =
     (if i < length parts
      then (case parse_signed (- (2 ^ 63)) (2 ^ 63 - 1) (parts ! i) of Some n \<Rightarrow> n | None \<Rightarrow> 0)
      else 0)"

definition parse_version :: "string \<Rightarrow> int \<times> int \<times> int" where
  "parse_version v =
     (let parts = take 3 (split_on (CHR ''.'') (strip_v v))
      in (version_part parts 0, version_part parts 1, version_part parts 2))"

datatype ordering = Less | Equal | Greater

definition compare_versions :: "string \<Rightarrow> string \<Rightarrow> ordering" where
  "compare_versions a b =
     (let pa = parse_version a; pb = parse_version b
      in if pa < pb then Less else if pa = pb then Equal else Greater)"

definition is_trusted_release_asset_uri :: "string \<Rightarrow> bool" where
  "is_trusted_release_asset_uri uri =
     (case strip_prefix ''https://'' uri of
        None \<Rightarrow> False
      | Some after_scheme \<Rightarrow>
          let host_end = (case find_idx (\<lambda>c. c \<in> set ''/?#:'') after_scheme of Some i \<Rightarrow> i | None \<Rightarrow> length after_scheme);
              host = take host_end after_scheme
          in if host = [] then False
             else host = ''github.com'' \<or> ends_with ''.github.com'' host \<or> ends_with ''.githubusercontent.com'' host)"

definition asset_suffix :: "string \<Rightarrow> string \<Rightarrow> string option" where
  "asset_suffix os arch =
     (if os = ''linux'' \<and> arch = ''x64'' then Some ''-linux-x64.AppImage''
      else if os = ''linux'' \<and> arch = ''arm64'' then Some ''-linux-arm64.AppImage''
      else if os = ''windows'' \<and> arch = ''x64'' then Some ''-windows-x64-setup.exe''
      else if os = ''windows'' \<and> arch = ''arm64'' then Some ''-windows-arm64-setup.exe''
      else if os = ''macos'' then Some ''-macos-universal.dmg''
      else if os = ''android'' \<and> arch = ''arm64'' then Some ''-android-arm64.apk''
      else if os = ''android'' \<and> arch = ''arm32'' then Some ''-android-arm32.apk''
      else if os = ''android'' \<and> arch = ''x64'' then Some ''-android-x64.apk''
      else None)"

definition asset_url_for_platform :: "(string \<times> string) list \<Rightarrow> string \<Rightarrow> string \<Rightarrow> string option" where
  "asset_url_for_platform assets os arch =
     Option.bind (asset_suffix os arch)
       (\<lambda>suffix. map_option snd (List.find (\<lambda>(name, url). ends_with suffix name) assets))"

definition RELEASE_ASSET_PREFIX :: string where
  "RELEASE_ASSET_PREFIX = ''letsflutssh-''"

definition parse_asset_version :: "string \<Rightarrow> string option" where
  "parse_asset_version asset_name =
     (case strip_prefix RELEASE_ASSET_PREFIX asset_name of
        None \<Rightarrow> None
      | Some rest \<Rightarrow>
          (case find_idx ((=) (CHR ''-'')) rest of
             None \<Rightarrow> None
           | Some dash \<Rightarrow>
               let candidate = take dash rest
               in case split_on (CHR ''.'') candidate of
                    [p1, p2, p3] \<Rightarrow>
                      if \<not> list_all is_ascii_digit p1 \<or> \<not> list_all is_ascii_digit p2 \<or> \<not> list_all is_ascii_digit p3 \<or>
                         p1 = [] \<or> p2 = [] \<or> p3 = []
                      then None else Some candidate
                  | _ \<Rightarrow> None))"

definition manifest_line :: "string \<Rightarrow> (string \<times> string) option" where
  "manifest_line raw_line =
     (let line = trim raw_line
      in if line = [] \<or> starts_with ''#'' line then None
         else case find_ws line of
                Some i \<Rightarrow>
                  if i > 0
                  then let hash = take i line;
                           name0 = trim_start (drop i line);
                           name = (case strip_prefix ''*'' name0 of Some r \<Rightarrow> r | None \<Rightarrow> name0)
                       in if length hash \<noteq> 64 \<or> name = [] then None else Some (name, hash)
                  else None
              | None \<Rightarrow> None)"

definition parse_sha256_manifest :: "string \<Rightarrow> (string, string) hmap" where
  "parse_sha256_manifest content =
     fold (\<lambda>raw_line out. case manifest_line raw_line of Some (name, hash) \<Rightarrow> hput name hash out | None \<Rightarrow> out)
       (str_lines content) hempty"

record ChangelogRelease =
  tag :: string
  body :: string

fun changelog_walk :: "string \<Rightarrow> ChangelogRelease list \<Rightarrow> string \<Rightarrow> string" where
  "changelog_walk current [] buf = buf"
| "changelog_walk current (r # rs) buf =
     (if compare_versions (strip_v (tag r)) current \<noteq> Greater then buf
      else let b = trim (body r)
           in if b = [] then changelog_walk current rs buf
              else changelog_walk current rs
                     (buf @ (if buf \<noteq> [] then [CHR 0x0A] else []) @ ''## '' @ tag r @ [CHR 0x0A] @ b @ [CHR 0x0A]))"

definition build_cumulative_changelog :: "ChangelogRelease list \<Rightarrow> string \<Rightarrow> string option" where
  "build_cumulative_changelog releases current_version =
     (let trimmed = trim (changelog_walk current_version releases [])
      in if trimmed = [] then None else Some trimmed)"

section \<open>Lemmas\<close>

text \<open>The host of a URI with the scheme \<open>https\<close>, by RFC 3986: user information ends at the last \<open>@\<close>.\<close>

definition uri_authority :: "string \<Rightarrow> string" where
  "uri_authority after_scheme = takeWhile (\<lambda>c. c \<notin> set ''/?#'') after_scheme"

definition uri_host :: "string \<Rightarrow> string" where
  "uri_host after_scheme =
     (let a = uri_authority after_scheme;
          h = (case rsplit_once (CHR ''@'') a of Some (_, h) \<Rightarrow> h | None \<Rightarrow> a)
      in takeWhile (\<lambda>c. c \<noteq> CHR '':'') h)"

definition allowed_host :: "string \<Rightarrow> bool" where
  "allowed_host h \<longleftrightarrow> h = ''github.com'' \<or> ends_with ''.github.com'' h \<or> ends_with ''.githubusercontent.com'' h"

lemma take_find_idx:
  "take (case find_idx P s of Some i \<Rightarrow> i | None \<Rightarrow> length s) s = takeWhile (\<lambda>c. \<not> P c) s"
proof (induction s)
  case (Cons c s)
  then show ?case by (cases "find_idx P s") (auto simp del: find_idx_None)
qed simp

lemma takeWhile_conj: "takeWhile (\<lambda>c. P c \<and> Q c) s = takeWhile Q (takeWhile P s)"
  by (induction s) auto

lemma host_end_host:
  "takeWhile (\<lambda>c. c \<notin> set ''/?#:'') s = takeWhile (\<lambda>c. c \<noteq> CHR '':'') (uri_authority s)"
proof -
  have "(\<lambda>c. c \<notin> set ''/?#:'') = (\<lambda>c. c \<notin> set ''/?#'' \<and> c \<noteq> CHR '':'')" by auto
  then show ?thesis unfolding uri_authority_def by (simp only: takeWhile_conj)
qed

lemma trusted_iff:
  "is_trusted_release_asset_uri (''https://'' @ s) \<longleftrightarrow>
     allowed_host (takeWhile (\<lambda>c. c \<noteq> CHR '':'') (uri_authority s))"
proof -
  let ?h = "takeWhile (\<lambda>c. c \<noteq> CHR '':'') (uri_authority s)"
  have "take (case find_idx (\<lambda>c. c \<in> set ''/?#:'') s of Some i \<Rightarrow> i | None \<Rightarrow> length s) s = ?h"
    unfolding take_find_idx host_end_host ..
  moreover have "allowed_host ?h \<Longrightarrow> ?h \<noteq> []" by (auto simp: allowed_host_def ends_with_iff)
  ultimately show ?thesis
    unfolding is_trusted_release_asset_uri_def strip_prefix_append option.case Let_def
    by (auto simp: allowed_host_def)
qed

text \<open>Manifest lines as \<open>sha256sum\<close> prints them.\<close>

definition sha_line :: "string \<times> string \<Rightarrow> string" where
  "sha_line e = snd e @ ''  '' @ fst e"

definition sha_entry_ok :: "string \<times> string \<Rightarrow> bool" where
  "sha_entry_ok e \<longleftrightarrow> length (snd e) = 64 \<and> list_all graphic (snd e) \<and> hd (snd e) \<noteq> CHR ''#'' \<and>
     fst e \<noteq> [] \<and> list_all graphic (fst e) \<and> hd (fst e) \<noteq> CHR ''*''"

lemma trim_start_spaces: "trim_start (CHR 0x20 # s) = trim_start s"
  by (subst trim_start.simps) simp

lemma manifest_line_sha: "sha_entry_ok e \<Longrightarrow> manifest_line (sha_line e) = Some e"
proof -
  assume e: "sha_entry_ok e"
  obtain name hash where p: "e = (name, hash)" by (cases e)
  have h: "length hash = 64" "list_all graphic hash" "hd hash \<noteq> CHR ''#''" "name \<noteq> []" "list_all graphic name" "hd name \<noteq> CHR ''*''"
    using e by (auto simp: sha_entry_ok_def p)
  then have ne: "hash \<noteq> []" by auto
  have ends: "graphic (hd hash)" "graphic (last name)" "graphic (hd name)"
    using h ne by (auto simp: list_all_iff)
  have line: "trim (sha_line e) = sha_line e"
    using ends ne h(4) by (intro trim_graphic_ends) (auto simp: sha_line_def p)
  have "find_ws (hash @ ''  '' @ name) = Some (length hash)"
    using h by (intro find_ws_append) (auto intro: no_ws_graphic)
  moreover have "trim_start (''  '' @ name) = name"
    using ends(3) h(4) by (simp add: trim_start_spaces trim_start_noop strip_ws_lead)
  moreover have "strip_prefix ''*'' name = None" using h(4,6) by (cases name) auto
  moreover have "\<not> starts_with ''#'' (hash @ ''  '' @ name)" using h(3) ne by (cases hash) (auto simp: starts_with_iff)
  ultimately show ?thesis
    using h ne line by (simp add: manifest_line_def Let_def) (simp add: sha_line_def p)
qed

lemma sha_line_no_newline: "sha_entry_ok e \<Longrightarrow> CHR 0x0A \<notin> set (sha_line e) \<and> CHR 0x0D \<notin> set (sha_line e)"
  by (auto simp: sha_entry_ok_def sha_line_def list_all_iff graphic_def)

lemma manifest_fold:
  "list_all sha_entry_ok es \<Longrightarrow>
     fold (\<lambda>raw_line out. case manifest_line raw_line of Some (name, hash) \<Rightarrow> hput name hash out | None \<Rightarrow> out)
       (map sha_line es) m = fold (\<lambda>(k, v). hput k v) es m"
  by (induction es arbitrary: m) (auto simp: manifest_line_sha split_beta)

text \<open>The sections of the change log.\<close>

definition section_of :: "ChangelogRelease \<Rightarrow> string" where
  "section_of r = ''## '' @ tag r @ [CHR 0x0A] @ trim (body r) @ [CHR 0x0A]"

definition newer :: "string \<Rightarrow> ChangelogRelease \<Rightarrow> bool" where
  "newer current r \<longleftrightarrow> parse_version current < parse_version (strip_v (tag r))"

lemma compare_greater: "compare_versions a b = Greater \<longleftrightarrow> parse_version b < parse_version a"
  by (auto simp: compare_versions_def Let_def)

lemma join_buf: "join [CHR 0x0A] ([buf] @ xs) = buf @ concat (map (\<lambda>x. CHR 0x0A # x) xs)"
  by (induction xs arbitrary: buf) (auto simp: neq_Nil_conv)

lemma changelog_walk_buf:
  "buf \<noteq> [] \<Longrightarrow> changelog_walk current rs buf =
     buf @ concat (map (\<lambda>r. CHR 0x0A # section_of r) (filter (\<lambda>r. trim (body r) \<noteq> []) (takeWhile (newer current) rs)))"
  by (induction rs arbitrary: buf) (auto simp: Let_def compare_greater newer_def section_of_def)

lemma changelog_walk_sections:
  "changelog_walk current rs [] =
     join [CHR 0x0A] (map section_of (filter (\<lambda>r. trim (body r) \<noteq> []) (takeWhile (newer current) rs)))"
proof (induction rs)
  case (Cons r rs)
  show ?case
  proof (cases "newer current r \<and> trim (body r) \<noteq> []")
    case True
    then have "changelog_walk current (r # rs) [] = changelog_walk current rs (section_of r)"
      by (simp add: Let_def compare_greater newer_def section_of_def)
    moreover have "section_of r \<noteq> []" by (simp add: section_of_def)
    ultimately show ?thesis
      using True changelog_walk_buf [of "section_of r" current rs]
        join_buf [of "section_of r" "map section_of (filter (\<lambda>r. trim (body r) \<noteq> []) (takeWhile (newer current) rs))"]
      by (simp add: comp_def)
  next
    case False
    then show ?thesis using Cons by (auto simp: Let_def compare_greater newer_def)
  qed
qed simp

section \<open>Properties\<close>

text \<open>
  The download allowlist looks at the real host: for an address without user information,
  \<open>is_trusted_release_asset_uri\<close> accepts exactly the \<open>https\<close> addresses whose host is \<open>github.com\<close>, a
  subdomain of it, or a subdomain of \<open>githubusercontent.com\<close>.
\<close>

theorem trusted_uri_host:
  assumes "CHR ''@'' \<notin> set (uri_authority rest)"
  shows "is_trusted_release_asset_uri (''https://'' @ rest) \<longleftrightarrow> allowed_host (uri_host rest)"
proof -
  have "rsplit_once (CHR ''@'') (uri_authority rest) = None"
    using assms by (auto simp: rsplit_once_def split: option.splits dest!: rfind_idx_Some [THEN iffD1])
  then show ?thesis using trusted_iff [of rest] by (simp add: uri_host_def Let_def)
qed

theorem trusted_uri_host_witness:
  "is_trusted_release_asset_uri (''https://'' @ ''api.github.com/repos'') \<longleftrightarrow> allowed_host (uri_host ''api.github.com/repos'')"
  by (rule trusted_uri_host) code_simp

text \<open>
  User information defeats the allowlist: the extractor stops at the first colon, so an address
  whose user name is an allowed host and that has a password is accepted, whatever its host is.
\<close>

theorem userinfo_bypasses_allowlist:
  "is_trusted_release_asset_uri (''https://github.com:x@evil.example/'' @ path) \<and>
   uri_host (''github.com:x@evil.example/'' @ path) = ''evil.example'' \<and> \<not> allowed_host ''evil.example''"
proof -
  have a: "uri_authority (''github.com:x@evil.example/'' @ path) = ''github.com:x@evil.example''"
    by (simp add: uri_authority_def)
  have h: "uri_host (''github.com:x@evil.example/'' @ path) = ''evil.example''"
    unfolding uri_host_def Let_def a by code_simp
  have "is_trusted_release_asset_uri (''https://'' @ ''github.com:x@evil.example/'' @ path)"
    unfolding trusted_iff a by code_simp
  moreover have "\<not> allowed_host ''evil.example''" by code_simp
  ultimately show ?thesis using h by simp
qed

text \<open>
  A checksum manifest is read back: for lines as \<open>sha256sum\<close> prints them, the table maps every file
  name to its hash, the last line of a name winning, and holds no other name.
\<close>

theorem manifest_round_trip:
  assumes "list_all sha_entry_ok entries"
  shows "hget (parse_sha256_manifest (unlines (map sha_line entries))) name = map_of (rev entries) name"
proof -
  have ok: "\<forall>l \<in> set (map sha_line entries). line_ok l"
    using assms sha_line_no_newline by (auto simp: list_all_iff line_ok_def)
  have "str_lines (unlines (map sha_line entries)) = map sha_line entries"
    using str_lines_unlines [OF ok, of "[]"] by (simp add: str_lines_def)
  then have "parse_sha256_manifest (unlines (map sha_line entries)) = fold (\<lambda>(k, v). hput k v) entries hempty"
    using manifest_fold [OF assms] by (simp add: parse_sha256_manifest_def)
  then show ?thesis using hash.get_puts [of entries hempty name] by (simp split: option.splits)
qed

theorem manifest_round_trip_witness:
  "hget (parse_sha256_manifest (unlines (map sha_line [(''a.dmg'', replicate 64 (CHR ''0''))]))) ''a.dmg'' = Some (replicate 64 (CHR ''0''))"
  using manifest_round_trip [of "[(''a.dmg'', replicate 64 (CHR ''0''))]" "''a.dmg''"]
  by (simp add: sha_entry_ok_def graphic_def list_all_iff)

text \<open>
  The change log holds exactly the notes of the releases that are newer than the installed version,
  up to the first that is not, newest first, each under its tag; with no such notes there is none.
\<close>

theorem changelog_newer_only:
  "build_cumulative_changelog releases current =
     (let notes = trim (join [CHR 0x0A] (map section_of
            (filter (\<lambda>r. trim (body r) \<noteq> []) (takeWhile (newer current) releases))))
      in if notes = [] then None else Some notes)"
  by (simp add: build_cumulative_changelog_def changelog_walk_sections)

end
