(* ===== verification/Connection.thy ===== *)
theory Connection
  imports Interfaces Core_Error
begin

text \<open>
  The connection registry of \<open>connection/mod.rs\<close>: the actors, the map from ids to them, the
  insertion order the workspace view paints and the reconnect counters.  An actor is shared
  through an \<open>Arc<Mutex<_>>\<close> by the registry, the connect driver and the transport monitor, so
  actors live in an explicit store and an \<open>Arc\<close> is an index into it; \<open>Arc::ptr_eq\<close> is
  equality of indices.  A live \<open>Arc<Session>\<close> is likewise a number, allocated once per
  successful handshake.
\<close>

section \<open>Data\<close>

type_synonym ConnId = string
type_synonym handle = nat
type_synonym session = nat

datatype ConnectionState = Disconnected | Connecting | Connected

datatype ConnectionPhase = SocketConnect | HostKeyVerify | Authenticate | OpenChannel

datatype StepStatus = StepInProgress | StepSuccess | StepFailed

record ProgressStep =
  ps_phase :: ConnectionPhase
  ps_status :: StepStatus
  ps_detail :: "string option"

record ConnectionSnapshot =
  sn_id :: ConnId
  sn_label :: string
  sn_session_id :: "string option"
  sn_bastion_id :: "ConnId option"
  sn_internal :: bool
  sn_state :: ConnectionState
  sn_error :: "string option"
  sn_progress :: "ProgressStep list"
  sn_host :: string
  sn_port :: "16 word"
  sn_user :: string

record ConnectionActorInit =
  ai_id :: ConnId
  ai_label :: string
  ai_session_id :: "string option"
  ai_bastion_id :: "ConnId option"
  ai_internal :: bool
  ai_host :: string
  ai_port :: "16 word"
  ai_user :: string

record ConnectionActor =
  a_id :: ConnId
  a_label :: string
  a_session_id :: "string option"
  a_bastion_id :: "ConnId option"
  a_internal :: bool
  a_state :: ConnectionState
  a_generation :: "64 word"
  a_error :: "string option"
  a_progress :: "ProgressStep list"
  a_host :: string
  a_port :: "16 word"
  a_user :: string
  a_session :: "session option"

definition actor_new :: "ConnectionActorInit \<Rightarrow> ConnectionActor" where
  "actor_new i =
     \<lparr> a_id = ai_id i, a_label = ai_label i, a_session_id = ai_session_id i,
       a_bastion_id = ai_bastion_id i, a_internal = ai_internal i, a_state = Disconnected,
       a_generation = 0, a_error = None, a_progress = [], a_host = ai_host i, a_port = ai_port i,
       a_user = ai_user i, a_session = None \<rparr>"

definition actor_snapshot :: "ConnectionActor \<Rightarrow> ConnectionSnapshot" where
  "actor_snapshot a =
     \<lparr> sn_id = a_id a, sn_label = a_label a, sn_session_id = a_session_id a,
       sn_bastion_id = a_bastion_id a, sn_internal = a_internal a, sn_state = a_state a,
       sn_error = a_error a, sn_progress = a_progress a, sn_host = a_host a, sn_port = a_port a,
       sn_user = a_user a \<rparr>"

definition clone_session :: "ConnectionActor \<Rightarrow> session option" where
  "clone_session a = a_session a"

text \<open>The events of the connection topic, as \<open>bus/mod.rs\<close> declares them.\<close>

datatype ConnEvent =
    ConnectionStateChanged ConnId ConnectionState
  | ConnectionProgress ConnId ProgressStep
  | ConnectionError ConnId string
  | ConnectionRemoved ConnId
  | ConnectionActiveCountChanged int

section \<open>The registry\<close>

record RegistryInner =
  r_store :: "ConnectionActor list"
  r_by_id :: "(ConnId, handle) hmap"
  r_order :: "ConnId list"
  r_generations :: "(ConnId, 32 word) hmap"

definition registry_new :: RegistryInner where
  "registry_new = \<lparr> r_store = [], r_by_id = hempty, r_order = [], r_generations = hempty \<rparr>"

text \<open>\<open>Arc::new(Mutex::new(actor))\<close> allocates the next index of the store.\<close>

definition registry_insert :: "ConnectionActor \<Rightarrow> RegistryInner \<Rightarrow> handle \<times> RegistryInner" where
  "registry_insert a r =
     (length (r_store r),
      r\<lparr> r_store := r_store r @ [a],
         r_by_id := hput (a_id a) (length (r_store r)) (r_by_id r),
         r_order := r_order r @ [a_id a] \<rparr>)"

definition registry_get :: "ConnId \<Rightarrow> RegistryInner \<Rightarrow> handle option" where
  "registry_get cid r = hget (r_by_id r) cid"

definition actor_at :: "handle \<Rightarrow> RegistryInner \<Rightarrow> ConnectionActor" where
  "actor_at h r = r_store r ! h"

definition connected_session :: "ConnId \<Rightarrow> RegistryInner \<Rightarrow> session option" where
  "connected_session cid r =
     (case registry_get cid r of
        None \<Rightarrow> None
      | Some h \<Rightarrow>
          if a_state (actor_at h r) \<noteq> Connected then None else clone_session (actor_at h r))"

definition registry_remove :: "ConnId \<Rightarrow> RegistryInner \<Rightarrow> handle option \<times> RegistryInner" where
  "registry_remove cid r =
     (case registry_get cid r of
        None \<Rightarrow> (None, r)
      | Some h \<Rightarrow>
          (Some h, r\<lparr> r_by_id := hdel cid (r_by_id r), r_order := filter (\<lambda>x. x \<noteq> cid) (r_order r) \<rparr>))"

definition snapshot_all :: "RegistryInner \<Rightarrow> ConnectionSnapshot list" where
  "snapshot_all r =
     List.map_filter (\<lambda>cid. map_option (\<lambda>h. actor_snapshot (actor_at h r)) (registry_get cid r)) (r_order r)"

definition registry_count :: "RegistryInner \<Rightarrow> nat" where
  "registry_count r = length (r_by_id r)"

definition init_generation :: "ConnId \<Rightarrow> RegistryInner \<Rightarrow> RegistryInner" where
  "init_generation cid r = r\<lparr> r_generations := hput cid 1 (r_generations r) \<rparr>"

text \<open>The release build wraps at \<open>u32::MAX\<close>; a debug build panics there.\<close>

definition bump_generation :: "ConnId \<Rightarrow> RegistryInner \<Rightarrow> 32 word \<times> RegistryInner" where
  "bump_generation cid r =
     (let next = (case hget (r_generations r) cid of Some g \<Rightarrow> g | None \<Rightarrow> 0) + 1
      in (next, r\<lparr> r_generations := hput cid next (r_generations r) \<rparr>))"

definition is_current_generation :: "ConnId \<Rightarrow> 32 word \<Rightarrow> RegistryInner \<Rightarrow> bool" where
  "is_current_generation cid generation r =
     (case hget (r_generations r) cid of Some g \<Rightarrow> g = generation | None \<Rightarrow> False)"

definition drop_generation :: "ConnId \<Rightarrow> RegistryInner \<Rightarrow> RegistryInner" where
  "drop_generation cid r = r\<lparr> r_generations := hdel cid (r_generations r) \<rparr>"

definition clear_generations :: "RegistryInner \<Rightarrow> RegistryInner" where
  "clear_generations r = r\<lparr> r_generations := hempty \<rparr>"

definition user_visible :: "ConnectionActor \<Rightarrow> bool" where
  "user_visible a \<longleftrightarrow> \<not> a_internal a \<and> a_state a = Connected"

definition connected_user_visible_count :: "RegistryInner \<Rightarrow> nat" where
  "connected_user_visible_count r =
     length (filter (\<lambda>p. user_visible (actor_at (snd p) r)) (r_by_id r))"

text \<open>A write through a locked handle.\<close>

definition with_actor ::
  "handle \<Rightarrow> (ConnectionActor \<Rightarrow> ConnectionActor) \<Rightarrow> RegistryInner \<Rightarrow> RegistryInner" where
  "with_actor h f r = r\<lparr> r_store := (r_store r)[h := f (actor_at h r)] \<rparr>"

section \<open>Invariant and lemmas\<close>

named_theorems conn_simps \<open>evaluation of the registry operations\<close>

text \<open>Every row points to an actor that carries the row's id, and the order lists the rows.\<close>

definition reg_inv :: "RegistryInner \<Rightarrow> bool" where
  "reg_inv r \<longleftrightarrow>
     hinv (r_by_id r) \<and>
     (\<forall>cid h. registry_get cid r = Some h \<longrightarrow> h < length (r_store r) \<and> a_id (actor_at h r) = cid) \<and>
     (\<forall>cid. cid \<in> set (r_order r) \<longleftrightarrow> registry_get cid r \<noteq> None)"

lemma reg_invD:
  assumes "reg_inv r" and "registry_get cid r = Some h"
  shows "h < length (r_store r)" and "a_id (actor_at h r) = cid"
  using assms by (auto simp: reg_inv_def)

lemma reg_inv_new: "reg_inv registry_new"
  by (simp add: reg_inv_def registry_new_def registry_get_def)

lemma actor_at_with_actor [conn_simps]:
  "h < length (r_store r) \<Longrightarrow>
     actor_at k (with_actor h f r) = (if k = h then f (actor_at h r) else actor_at k r)"
  by (simp add: with_actor_def actor_at_def)

lemma with_actor_fields [simp]:
  "r_by_id (with_actor h f r) = r_by_id r" "r_order (with_actor h f r) = r_order r"
  "r_generations (with_actor h f r) = r_generations r"
  "length (r_store (with_actor h f r)) = length (r_store r)"
  by (simp_all add: with_actor_def)

lemma registry_get_with_actor [simp]: "registry_get cid (with_actor h f r) = registry_get cid r"
  by (simp add: registry_get_def)

lemma registry_insert_simps [conn_simps]:
  "fst (registry_insert a r) = length (r_store r)"
  "registry_get cid (snd (registry_insert a r)) =
     (if cid = a_id a then Some (length (r_store r)) else registry_get cid r)"
  "r_store (snd (registry_insert a r)) = r_store r @ [a]"
  "r_order (snd (registry_insert a r)) = r_order r @ [a_id a]"
  by (simp_all add: registry_insert_def registry_get_def)

lemma actor_at_insert [conn_simps]:
  "k < length (r_store r) \<Longrightarrow> actor_at k (snd (registry_insert a r)) = actor_at k r"
  "actor_at (length (r_store r)) (snd (registry_insert a r)) = a"
  by (simp_all add: actor_at_def conn_simps nth_append)

lemma registry_remove_simps [conn_simps]:
  "fst (registry_remove cid r) = registry_get cid r"
  "registry_get k (snd (registry_remove cid r)) = (if k = cid then None else registry_get k r)"
  "r_store (snd (registry_remove cid r)) = r_store r"
  "actor_at h (snd (registry_remove cid r)) = actor_at h r"
  by (auto simp: registry_remove_def registry_get_def actor_at_def split: option.split)

lemma reg_inv_with_actor:
  assumes "reg_inv r" and "h < length (r_store r)" and "a_id (f (actor_at h r)) = a_id (actor_at h r)"
  shows "reg_inv (with_actor h f r)"
  using assms by (auto simp: reg_inv_def conn_simps)

lemma hinv_by_id_insert: "hinv (r_by_id r) \<Longrightarrow> hinv (r_by_id (snd (registry_insert a r)))"
  by (simp add: registry_insert_def)

lemma reg_inv_insert:
  assumes "reg_inv r"
  shows "reg_inv (snd (registry_insert a r))"
proof -
  have "h < length (r_store r)" if "registry_get cid r = Some h" for cid h
    using assms that by (rule reg_invD)
  then show ?thesis
    using assms by (auto simp: reg_inv_def conn_simps hinv_by_id_insert less_SucI)
qed

lemma reg_inv_remove:
  assumes "reg_inv r"
  shows "reg_inv (snd (registry_remove cid r))"
proof (cases "registry_get cid r")
  case None
  with assms show ?thesis by (simp add: registry_remove_def)
next
  case (Some h)
  then have "hinv (r_by_id (snd (registry_remove cid r)))"
    "set (r_order (snd (registry_remove cid r))) = set (r_order r) - {cid}"
    using assms by (auto simp: registry_remove_def reg_inv_def)
  with assms show ?thesis by (auto simp: reg_inv_def conn_simps)
qed

lemma connected_session_with_inv:
  assumes "\<And>h. h < length (r_store r) \<Longrightarrow> a_state (actor_at h r) = Connected \<longleftrightarrow> a_session (actor_at h r) \<noteq> None"
    and "reg_inv r" and "registry_get cid r = Some h"
  shows "connected_session cid r = clone_session (actor_at h r)"
  using assms reg_invD [OF assms(2,3)]
  by (auto simp: connected_session_def clone_session_def)

text \<open>A snapshot row per entry of the insertion order.\<close>

lemma snapshot_all_order:
  assumes "reg_inv r"
  shows "map sn_id (snapshot_all r) = r_order r"
proof -
  have get: "cid \<in> set (r_order r) \<Longrightarrow> \<exists>h. registry_get cid r = Some h \<and> a_id (actor_at h r) = cid" for cid
    using assms by (auto simp: reg_inv_def)
  have "map sn_id (List.map_filter (\<lambda>cid. map_option (\<lambda>h. actor_snapshot (actor_at h r))
          (registry_get cid r)) cs) = cs" if "set cs \<subseteq> set (r_order r)" for cs
    using that
  proof (induction cs)
    case (Cons c cs)
    with get [of c] show ?case
      by (auto simp: List.map_filter_def actor_snapshot_def)
  qed (simp add: List.map_filter_def)
  then show ?thesis by (simp add: snapshot_all_def)
qed

lemma generation_counter:
  "is_current_generation cid g (init_generation cid r) \<longleftrightarrow> g = 1"
  "\<not> is_current_generation cid g (drop_generation cid r)"
  "\<not> is_current_generation cid g (clear_generations r)"
  "is_current_generation cid g (snd (bump_generation cid r)) \<longleftrightarrow> g = fst (bump_generation cid r)"
  by (auto simp: is_current_generation_def init_generation_def drop_generation_def
      clear_generations_def bump_generation_def Let_def)

end
