(* ===== verification/Connection_Driver.thy ===== *)
theory Connection_Driver
  imports Connection
begin

text \<open>
  The tasks of \<open>connection/mod.rs\<close> that run against the registry: \<open>connect_async\<close> with
  \<open>run_connect_driver\<close>, \<open>run_transport_monitor\<close>, \<open>disconnect\<close> and
  \<open>disconnect_all\<close>.  A task is the list of the atomic actions it still has to perform; an
  action is one locked section, one publication on the bus, one atomic exchange or one await.
  Performing an action may put further actions in front of the rest of the task, the way control
  flow does in the source, so the functions below that return a list of actions read like the
  bodies they model.  A scheduler picks which task acts next, so every interleaving of the tasks is
  a list of calls.  What the outside contributes to an action is its \<open>env\<close>: the outcome of the
  handshake, whether a channel still holds the session, whether the transport is closed, and the
  error of a protocol-level disconnect.
\<close>

section \<open>Actions\<close>

datatype act =
    Insert ConnectionActorInit
  | Begin handle ConnId
  | Publish ConnEvent
  | PushProgress handle ConnId ProgressStep
  | AwaitAuth handle ConnId "64 word"
  | CheckGeneration handle ConnId "64 word" "Error + unit"
  | SetConnected handle ConnId
  | SetFailed handle ConnId string
  | SpawnMonitor handle ConnId session
  | CountActive
  | SwapActive int
  | MonitorTick handle ConnId session
  | MonitorUpgrade handle ConnId session
  | MonitorFlip handle ConnId
  | RemoveRow ConnId
  | TakeSession handle ConnId
  | SessionDisconnect ConnId
  | SnapshotIds

record env =
  auth :: "Error + unit"
  held :: bool
  closed :: bool
  bye :: "Error option"

record world =
  w_reg :: RegistryInner
  w_last :: int
  w_events :: "ConnEvent list"
  w_sessions :: nat
  w_tasks :: "act list list"

definition world_new :: world where
  "world_new = \<lparr> w_reg = registry_new, w_last = -1, w_events = [], w_sessions = 0, w_tasks = [] \<rparr>"

fun failure_phase :: "Error \<Rightarrow> ConnectionPhase" where
  "failure_phase (EAuth _) = Authenticate"
| "failure_phase (EAuthFailed _) = Authenticate"
| "failure_phase EPassphraseRequired = Authenticate"
| "failure_phase EPassphraseIncorrect = Authenticate"
| "failure_phase (EKeyParse _) = Authenticate"
| "failure_phase EHostKeyRejected = HostKeyVerify"
| "failure_phase _ = SocketConnect"

definition record_progress :: "handle \<Rightarrow> ConnId \<Rightarrow> ProgressStep \<Rightarrow> act list" where
  "record_progress h cid st = [PushProgress h cid st, Publish (ConnectionProgress cid st)]"

definition emit_stale_attempt_closure :: "ConnId \<Rightarrow> ConnectionState \<Rightarrow> act list" where
  "emit_stale_attempt_closure cid canonical_state =
     [Publish (ConnectionError cid ''connect attempt superseded by newer reconnect''),
      Publish (ConnectionStateChanged cid canonical_state)]"

definition publish_active_count :: "act list" where
  "publish_active_count = [CountActive]"

definition after_begin :: "handle \<Rightarrow> ConnId \<Rightarrow> 64 word \<Rightarrow> act list" where
  "after_begin h cid generation =
     Publish (ConnectionStateChanged cid Connecting) #
     record_progress h cid \<lparr> ps_phase = SocketConnect, ps_status = StepInProgress, ps_detail = None \<rparr> @
     [AwaitAuth h cid generation]"

fun settle :: "handle \<Rightarrow> ConnId \<Rightarrow> Error + unit \<Rightarrow> act list" where
  "settle h cid (Inr _) = [SetConnected h cid]"
| "settle h cid (Inl err) =
     [SetFailed h cid (error_to_string err)] @
     record_progress h cid
       \<lparr> ps_phase = failure_phase err, ps_status = StepFailed, ps_detail = Some (error_to_string err) \<rparr> @
     [Publish (ConnectionError cid (error_to_string err)),
      Publish (ConnectionStateChanged cid Disconnected)] @
     publish_active_count"

definition after_connected :: "handle \<Rightarrow> ConnId \<Rightarrow> session \<Rightarrow> act list" where
  "after_connected h cid s =
     concat (map (\<lambda>phase. record_progress h cid
         \<lparr> ps_phase = phase, ps_status = StepSuccess, ps_detail = None \<rparr>)
       [SocketConnect, HostKeyVerify, Authenticate]) @
     [SpawnMonitor h cid s, Publish (ConnectionStateChanged cid Connected)] @
     publish_active_count"

definition disconnect :: "ConnId \<Rightarrow> act list" where
  "disconnect cid = [RemoveRow cid]"

definition after_take :: "ConnId \<Rightarrow> session option \<Rightarrow> act list" where
  "after_take cid s =
     (if s = None then [] else [SessionDisconnect cid]) @
     [Publish (ConnectionRemoved cid)] @ publish_active_count"

definition disconnect_all :: "act list" where
  "disconnect_all = [SnapshotIds]"

definition run_connect_driver :: "handle \<Rightarrow> ConnId \<Rightarrow> act list" where
  "run_connect_driver h cid = [Begin h cid]"

definition run_transport_monitor :: "handle \<Rightarrow> ConnId \<Rightarrow> session \<Rightarrow> act list" where
  "run_transport_monitor h cid s = [MonitorTick h cid s]"

definition connect_async :: "ConnectionActorInit \<Rightarrow> act list" where
  "connect_async i = [Insert i]"

section \<open>Performing an action\<close>

abbreviation upd :: "handle \<Rightarrow> (ConnectionActor \<Rightarrow> ConnectionActor) \<Rightarrow> world \<Rightarrow> world" where
  "upd h f w \<equiv> w\<lparr> w_reg := with_actor h f (w_reg w) \<rparr>"

definition begin_attempt :: "ConnectionActor \<Rightarrow> ConnectionActor" where
  "begin_attempt a =
     a\<lparr> a_state := Connecting, a_error := None, a_progress := [], a_generation := a_generation a + 1 \<rparr>"

definition end_session :: "ConnectionActor \<Rightarrow> ConnectionActor" where
  "end_session a = a\<lparr> a_state := Disconnected, a_session := None \<rparr>"

text \<open>The result is the world after the action and the actions that come next in the same task.\<close>

fun exec :: "env \<Rightarrow> act \<Rightarrow> world \<Rightarrow> world \<times> act list" where
  "exec e (Insert i) w =
     (let (h, r) = registry_insert (actor_new i) (w_reg w)
      in (w\<lparr> w_reg := r \<rparr>, run_connect_driver h (ai_id i)))"
| "exec e (Begin h cid) w =
     (let w' = upd h begin_attempt w
      in (w', after_begin h cid (a_generation (actor_at h (w_reg w')))))"
| "exec e (Publish ev) w = (w\<lparr> w_events := w_events w @ [ev] \<rparr>, [])"
| "exec e (PushProgress h cid st) w = (upd h (\<lambda>a. a\<lparr> a_progress := a_progress a @ [st] \<rparr>) w, [])"
| "exec e (AwaitAuth h cid g) w = (w, [CheckGeneration h cid g (auth e)])"
| "exec e (CheckGeneration h cid g res) w =
     (w, if a_generation (actor_at h (w_reg w)) \<noteq> g
         then emit_stale_attempt_closure cid (a_state (actor_at h (w_reg w)))
         else settle h cid res)"
| "exec e (SetConnected h cid) w =
     (let s = w_sessions w
      in (upd h (\<lambda>a. a\<lparr> a_session := Some s, a_state := Connected \<rparr>) (w\<lparr> w_sessions := Suc s \<rparr>),
          after_connected h cid s))"
| "exec e (SetFailed h cid detail) w =
     (upd h (\<lambda>a. a\<lparr> a_state := Disconnected, a_error := Some detail \<rparr>) w, [])"
| "exec e (SpawnMonitor h cid s) w =
     (w\<lparr> w_tasks := w_tasks w @ [run_transport_monitor h cid s] \<rparr>, [])"
| "exec e CountActive w = (w, [SwapActive (int (connected_user_visible_count (w_reg w)))])"
| "exec e (SwapActive n) w =
     (w\<lparr> w_last := n \<rparr>, if w_last w \<noteq> n then [Publish (ConnectionActiveCountChanged n)] else [])"
| "exec e (MonitorTick h cid s) w =
     (w, if registry_get cid (w_reg w) = Some h then [MonitorUpgrade h cid s] else [])"
| "exec e (MonitorUpgrade h cid s) w =
     (w, if \<not> (held e \<or> a_session (actor_at h (w_reg w)) = Some s) then []
         else if \<not> closed e then [MonitorTick h cid s] else [MonitorFlip h cid])"
| "exec e (MonitorFlip h cid) w =
     (if a_state (actor_at h (w_reg w)) = Connected
      then (upd h end_session w,
            Publish (ConnectionStateChanged cid Disconnected) # publish_active_count)
      else (w, []))"
| "exec e (RemoveRow cid) w =
     (let (row, r) = registry_remove cid (w_reg w)
      in (w\<lparr> w_reg := r \<rparr>, case row of Some h \<Rightarrow> [TakeSession h cid] | None \<Rightarrow> []))"
| "exec e (TakeSession h cid) w =
     (upd h end_session w, after_take cid (a_session (actor_at h (w_reg w))))"
| "exec e (SessionDisconnect cid) w =
     (w, case bye e of
           Some err \<Rightarrow> [Publish (ConnectionError cid (''disconnect: '' @ error_to_string err))]
         | None \<Rightarrow> [])"
| "exec e SnapshotIds w =
     (w, concat (map (\<lambda>sn. disconnect (sn_id sn)) (snapshot_all (w_reg w))))"

text \<open>\<open>disconnect\<close> always returns \<open>Ok\<close>, so \<open>disconnect_all\<close> counts every row it read.\<close>

definition disconnect_all_count :: "RegistryInner \<Rightarrow> nat" where
  "disconnect_all_count r = length (snapshot_all r)"

datatype conn_call =
    Connect ConnectionActorInit
  | Disconnect ConnId
  | DisconnectAll
  | Run nat env
  | InitGeneration ConnId | BumpGeneration ConnId | DropGeneration ConnId | ClearGenerations

definition spawn_task :: "act list \<Rightarrow> world \<Rightarrow> world" where
  "spawn_task t w = w\<lparr> w_tasks := w_tasks w @ [t] \<rparr>"

definition run_task :: "nat \<Rightarrow> env \<Rightarrow> world \<Rightarrow> world" where
  "run_task i e w =
     (if i < length (w_tasks w)
      then (case w_tasks w ! i of
              [] \<Rightarrow> w
            | a # rest \<Rightarrow>
                (let (w', cont) = exec e a w in w'\<lparr> w_tasks := (w_tasks w')[i := cont @ rest] \<rparr>))
      else w)"

fun conn_step :: "conn_call \<Rightarrow> world \<Rightarrow> world" where
  "conn_step (Connect i) w = spawn_task (connect_async i) w"
| "conn_step (Disconnect cid) w = spawn_task (disconnect cid) w"
| "conn_step DisconnectAll w = spawn_task disconnect_all w"
| "conn_step (Run i e) w = run_task i e w"
| "conn_step (InitGeneration cid) w = w\<lparr> w_reg := init_generation cid (w_reg w) \<rparr>"
| "conn_step (BumpGeneration cid) w = w\<lparr> w_reg := snd (bump_generation cid (w_reg w)) \<rparr>"
| "conn_step (DropGeneration cid) w = w\<lparr> w_reg := drop_generation cid (w_reg w) \<rparr>"
| "conn_step ClearGenerations w = w\<lparr> w_reg := clear_generations (w_reg w) \<rparr>"

definition conn_run :: "conn_call list \<Rightarrow> world \<Rightarrow> world" where
  "conn_run = fold conn_step"

section \<open>Invariant\<close>

text \<open>
  An attempt is pending at a handle until its driver has written the outcome.  \<open>act_ok\<close> is what
  each remaining action may rely on.
\<close>

abbreviation mine :: "RegistryInner \<Rightarrow> handle \<Rightarrow> ConnId \<Rightarrow> bool" where
  "mine r h cid \<equiv> h < length (r_store r) \<and> a_id (actor_at h r) = cid"

abbreviation in_attempt :: "RegistryInner \<Rightarrow> handle \<Rightarrow> ConnId \<Rightarrow> bool" where
  "in_attempt r h cid \<equiv>
     mine r h cid \<and> a_session (actor_at h r) = None \<and>
     (registry_get cid r = Some h \<longrightarrow> a_state (actor_at h r) = Connecting)"

fun act_ok :: "RegistryInner \<Rightarrow> act \<Rightarrow> bool" where
  "act_ok r (Begin h cid) =
     (mine r h cid \<and> a_session (actor_at h r) = None \<and> a_state (actor_at h r) = Disconnected)"
| "act_ok r (AwaitAuth h cid g) = (in_attempt r h cid \<and> a_generation (actor_at h r) = g)"
| "act_ok r (CheckGeneration h cid g res) = (in_attempt r h cid \<and> a_generation (actor_at h r) = g)"
| "act_ok r (SetConnected h cid) = in_attempt r h cid"
| "act_ok r (SetFailed h cid detail) = in_attempt r h cid"
| "act_ok r (PushProgress h cid st) = mine r h cid"
| "act_ok r (SpawnMonitor h cid s) = mine r h cid"
| "act_ok r (MonitorTick h cid s) = mine r h cid"
| "act_ok r (MonitorUpgrade h cid s) = mine r h cid"
| "act_ok r (MonitorFlip h cid) = mine r h cid"
| "act_ok r (TakeSession h cid) = (mine r h cid \<and> registry_get cid r \<noteq> Some h)"
| "act_ok r _ = True"

fun pend :: "handle \<Rightarrow> act \<Rightarrow> bool" where
  "pend h (Begin k _) = (k = h)"
| "pend h (AwaitAuth k _ _) = (k = h)"
| "pend h (CheckGeneration k _ _ _) = (k = h)"
| "pend h (SetConnected k _) = (k = h)"
| "pend h (SetFailed k _ _) = (k = h)"
| "pend h _ = False"

definition pending :: "handle \<Rightarrow> act list \<Rightarrow> nat" where
  "pending h as = length (filter (pend h) as)"

definition actor_ok :: "ConnectionActor \<Rightarrow> bool" where
  "actor_ok a \<longleftrightarrow> (a_state a = Connected \<longleftrightarrow> a_session a \<noteq> None)"

definition acts_inv :: "RegistryInner \<Rightarrow> act list \<Rightarrow> bool" where
  "acts_inv r as \<longleftrightarrow>
     reg_inv r \<and>
     (\<forall>h < length (r_store r). actor_ok (actor_at h r)) \<and>
     (\<forall>a \<in> set as. act_ok r a) \<and>
     (\<forall>h. pending h as \<le> 1) \<and>
     (\<forall>h < length (r_store r). a_state (actor_at h r) = Connecting \<longrightarrow> pending h as = 1)"

definition world_inv :: "world \<Rightarrow> bool" where
  "world_inv w \<longleftrightarrow> acts_inv (w_reg w) (concat (w_tasks w))"

lemma pending_simps [simp]:
  "pending h [] = 0" "pending h (a # as) = (if pend h a then 1 else 0) + pending h as"
  "pending h (as @ bs) = pending h as + pending h bs"
  by (simp_all add: pending_def)

lemma pending_zero_iff: "pending h as = 0 \<longleftrightarrow> (\<forall>a \<in> set as. \<not> pend h a)"
  by (simp add: pending_def filter_empty_conv)

lemma act_ok_pend: "act_ok r a \<Longrightarrow> pend h a \<Longrightarrow> h < length (r_store r) \<and> a_session (actor_at h r) = None"
  by (cases a) auto

subsection \<open>What the other tasks' actions rely on survives\<close>

lemma act_ok_insert: "reg_inv r \<Longrightarrow> act_ok r b \<Longrightarrow> act_ok (snd (registry_insert a r)) b"
  by (cases b) (auto simp: conn_simps)

lemma act_ok_remove: "act_ok r b \<Longrightarrow> act_ok (snd (registry_remove cid r)) b"
  by (cases b) (auto simp: conn_simps)

lemma act_ok_with_actor:
  assumes "h < length (r_store r)" and "act_ok r b"
    and "a_id (f (actor_at h r)) = a_id (actor_at h r)"
    and "pend h b \<Longrightarrow> a_session (f (actor_at h r)) = a_session (actor_at h r)
       \<and> a_generation (f (actor_at h r)) = a_generation (actor_at h r)
       \<and> (a_state (f (actor_at h r)) = a_state (actor_at h r)
          \<or> a_state (f (actor_at h r)) = Disconnected \<and> registry_get (a_id (actor_at h r)) r \<noteq> Some h)"
  shows "act_ok (with_actor h f r) b"
  using assms by (cases b) (auto simp: conn_simps)

lemmas act_lists = run_connect_driver_def after_begin_def record_progress_def
  emit_stale_attempt_closure_def publish_active_count_def after_connected_def disconnect_def
  after_take_def run_transport_monitor_def

lemma settle_acts: "pending h (settle k cid res) = (if h = k then 1 else 0)"
  by (cases res) (simp_all add: act_lists)

lemma disconnects_acts:
  "pending h (concat (map (\<lambda>sn. disconnect (sn_id sn)) sns)) = 0"
  "a \<in> set (concat (map (\<lambda>sn. disconnect (sn_id sn)) sns)) \<Longrightarrow> act_ok r a"
  by (induction sns) (auto simp: disconnect_def)

lemma length_store_exec:
  "length (r_store (w_reg (fst (exec e a w)))) =
     length (r_store (w_reg w)) + (case a of Insert i \<Rightarrow> 1 | _ \<Rightarrow> 0)"
  by (cases a) (auto simp: conn_simps Let_def case_prod_beta)

lemma exec_reg_inv:
  assumes "reg_inv (w_reg w)" and "act_ok (w_reg w) a"
  shows "reg_inv (w_reg (fst (exec e a w)))"
  using assms
  by (cases a) (auto simp: Let_def case_prod_beta reg_inv_insert reg_inv_remove begin_attempt_def
      end_session_def intro!: reg_inv_with_actor)

lemma exec_frame:
  assumes inv: "reg_inv (w_reg w)" "act_ok (w_reg w) a" "act_ok (w_reg w) b"
    and actors: "\<And>h. h < length (r_store (w_reg w)) \<Longrightarrow> actor_ok (actor_at h (w_reg w))"
    and apart: "\<And>h. pend h a \<Longrightarrow> \<not> pend h b"
  shows "act_ok (w_reg (fst (exec e a w))) b"
proof -
  have alone: "act_ok (with_actor h f (w_reg w)) b"
    if "pend h a" "h < length (r_store (w_reg w))" "a_id (f (actor_at h (w_reg w))) = a_id (actor_at h (w_reg w))" for h f
    using that apart inv(3) by (intro act_ok_with_actor) auto
  show ?thesis
  proof (cases a)
    case (MonitorFlip h cid)
    then show ?thesis
      using inv actors [of h] act_ok_pend [OF inv(3), of h]
      by (auto simp: end_session_def actor_ok_def intro!: act_ok_with_actor)
  next
    case (TakeSession h cid)
    then show ?thesis
      using inv act_ok_pend [OF inv(3), of h] by (auto simp: end_session_def intro!: act_ok_with_actor)
  next
    case (PushProgress h cid st)
    then show ?thesis using inv by (auto intro!: act_ok_with_actor)
  qed (use inv in \<open>auto simp: Let_def case_prod_beta act_ok_insert act_ok_remove begin_attempt_def intro!: alone\<close>)
qed

lemma exec_cont_ok:
  assumes "reg_inv (w_reg w)" and "act_ok (w_reg w) a" and "b \<in> set (snd (exec e a w))"
  shows "act_ok (w_reg (fst (exec e a w))) b"
proof (cases a)
  case (CheckGeneration h cid g res)
  with assms show ?thesis by (cases res) (auto simp: act_lists)
next
  case SnapshotIds
  with assms(3) show ?thesis by (auto intro: disconnects_acts simp del: set_concat)
qed (use assms reg_invD [OF assms(1)] in \<open>auto simp: Let_def case_prod_beta act_lists conn_simps
      actor_new_def begin_attempt_def end_session_def split: if_splits option.splits\<close>)

lemma exec_pending:
  assumes "act_ok (w_reg w) a"
  shows "pending h (snd (exec e a w)) \<le>
     (if pend h a then 1 else 0) + (if h = length (r_store (w_reg w)) \<and> (\<exists>i. a = Insert i) then 1 else 0)"
proof (cases a)
  case (CheckGeneration k cid g res)
  with assms show ?thesis by (simp add: settle_acts)
next
  case SnapshotIds
  then show ?thesis by (simp add: disconnects_acts)
qed (auto simp: Let_def case_prod_beta act_lists conn_simps split: option.split)

lemma exec_actor_ok:
  assumes "act_ok (w_reg w) a"
    and "\<And>h. h < length (r_store (w_reg w)) \<Longrightarrow> actor_ok (actor_at h (w_reg w))"
    and "h < length (r_store (w_reg (fst (exec e a w))))"
  shows "actor_ok (actor_at h (w_reg (fst (exec e a w))))"
proof (cases a)
  case (Insert i)
  with assms show ?thesis
    by (cases "h = length (r_store (w_reg w))")
       (auto simp: Let_def case_prod_beta conn_simps actor_new_def actor_ok_def less_Suc_eq)
qed (use assms in \<open>auto simp: Let_def case_prod_beta conn_simps actor_ok_def begin_attempt_def end_session_def\<close>)

text \<open>An actor is only in \<open>Connecting\<close> while its driver still has the outcome to write.\<close>

lemma exec_connecting:
  assumes "act_ok (w_reg w) a"
    and "h < length (r_store (w_reg (fst (exec e a w))))"
    and "a_state (actor_at h (w_reg (fst (exec e a w)))) = Connecting"
  shows "pend h a \<and> 1 \<le> pending h (snd (exec e a w)) \<or>
     \<not> pend h a \<and> h < length (r_store (w_reg w)) \<and> a_state (actor_at h (w_reg w)) = Connecting"
proof (cases a)
  case (Insert i)
  with assms show ?thesis
    by (cases "h = length (r_store (w_reg w))")
       (auto simp: Let_def case_prod_beta conn_simps actor_new_def less_Suc_eq)
next
  case (CheckGeneration k cid g res)
  with assms show ?thesis by (auto simp: settle_acts)
qed (use assms in \<open>auto simp: Let_def case_prod_beta conn_simps act_lists begin_attempt_def end_session_def split: if_splits\<close>)

subsection \<open>Every call preserves the invariant\<close>

lemma exec_tasks:
  "w_tasks (fst (exec e a w)) =
     w_tasks w @ (case a of SpawnMonitor h cid s \<Rightarrow> [run_transport_monitor h cid s] | _ \<Rightarrow> [])"
  by (cases a) (auto simp: Let_def case_prod_beta)

lemma acts_inv_exec:
  assumes inv: "acts_inv (w_reg w) (as @ a # bs)"
  shows "acts_inv (w_reg (fst (exec e a w))) (as @ snd (exec e a w) @ bs)"
proof -
  let ?r = "w_reg w" and ?r' = "w_reg (fst (exec e a w))" and ?c = "snd (exec e a w)"
  have reg: "reg_inv ?r" and ok: "act_ok ?r a" and oks: "\<And>b. b \<in> set (as @ bs) \<Longrightarrow> act_ok ?r b"
    and actors: "\<And>h. h < length (r_store ?r) \<Longrightarrow> actor_ok (actor_at h ?r)"
    and pend: "\<And>h. pending h (as @ a # bs) \<le> 1"
    and conn: "\<And>h. h < length (r_store ?r) \<Longrightarrow> a_state (actor_at h ?r) = Connecting \<Longrightarrow> pending h (as @ a # bs) = 1"
    using inv by (auto simp: acts_inv_def)
  have frame: "act_ok ?r' b" if "b \<in> set (as @ bs)" for b
  proof (rule exec_frame [OF reg ok oks [OF that] actors])
    fix h assume "pend h a"
    with pend [of h] have "pending h (as @ bs) = 0" by simp
    with that show "\<not> pend h b" by (auto simp: pending_zero_iff)
  qed
  have new: "pending (length (r_store ?r)) (as @ bs) = 0"
    using act_ok_pend oks by (auto simp: pending_zero_iff simp del: pending_simps)
  have le: "pending h (as @ ?c @ bs) \<le> 1" for h
    using exec_pending [OF ok, of h e] pend [of h] new by (auto split: if_splits)
  moreover have "pending h (as @ ?c @ bs) = 1"
    if "h < length (r_store ?r')" "a_state (actor_at h ?r') = Connecting" for h
    using exec_connecting [OF ok that] le [of h] conn [of h] by (auto split: if_splits)
  ultimately show ?thesis
    using exec_reg_inv [OF reg ok] frame exec_cont_ok [OF reg ok] exec_actor_ok [OF ok actors]
    by (auto simp: acts_inv_def)
qed

lemma acts_inv_append:
  assumes "acts_inv r as" and "\<And>a. a \<in> set bs \<Longrightarrow> act_ok r a" and "\<And>h. pending h bs = 0"
  shows "acts_inv r (as @ bs)"
  using assms by (auto simp: acts_inv_def)

lemma concat_split: "i < length ts \<Longrightarrow> concat ts = concat (take i ts) @ ts ! i @ concat (drop (Suc i) ts)"
  by (metis append_assoc concat.simps(2) concat_append id_take_nth_drop)

lemma concat_update:
  "i < length ts \<Longrightarrow> concat (ts[i := t] @ us) = concat (take i ts) @ t @ concat (drop (Suc i) ts) @ concat us"
  by (simp add: upd_conv_take_nth_drop)

lemma acts_inv_generations:
  "acts_inv (r\<lparr> r_generations := g \<rparr>) as = acts_inv r as"
proof -
  have "act_ok (r\<lparr> r_generations := g \<rparr>) a = act_ok r a" for a
    by (cases a) (auto simp: actor_at_def registry_get_def)
  then show ?thesis by (simp add: acts_inv_def reg_inv_def actor_at_def registry_get_def)
qed

lemma world_inv_run_task:
  assumes "world_inv w"
  shows "world_inv (run_task i e w)"
proof (cases "i < length (w_tasks w) \<and> w_tasks w ! i \<noteq> []")
  case False
  then show ?thesis using assms by (auto simp: run_task_def split: list.split)
next
  case True
  then obtain a rest where t: "i < length (w_tasks w)" "w_tasks w ! i = a # rest"
    by (cases "w_tasks w ! i") auto
  let ?A = "concat (take i (w_tasks w))" and ?B = "rest @ concat (drop (Suc i) (w_tasks w))"
  let ?w = "fst (exec e a w)"
  define new where "new = (case a of SpawnMonitor h cid s \<Rightarrow> [run_transport_monitor h cid s] | _ \<Rightarrow> [])"
  have "acts_inv (w_reg w) (?A @ a # ?B)"
    using assms t by (simp add: world_inv_def concat_split)
  then have after: "acts_inv (w_reg ?w) (?A @ snd (exec e a w) @ ?B)"
    and ok: "act_ok (w_reg w) a"
    using acts_inv_exec by (blast, simp add: acts_inv_def)
  have "acts_inv (w_reg ?w) ((?A @ snd (exec e a w) @ ?B) @ concat new)"
    by (rule acts_inv_append [OF after])
       (use ok in \<open>auto simp: new_def run_transport_monitor_def split: act.splits\<close>)
  then show ?thesis
    using t by (simp add: world_inv_def run_task_def case_prod_beta Let_def exec_tasks new_def [symmetric]
        list_update_append concat_update [unfolded concat_append])
qed

lemma world_inv_spawn:
  assumes "world_inv w" and "\<And>a. a \<in> set t \<Longrightarrow> act_ok (w_reg w) a" and "\<And>h. pending h t = 0"
  shows "world_inv (spawn_task t w)"
  using acts_inv_append [of "w_reg w" "concat (w_tasks w)" t] assms
  by (simp add: world_inv_def spawn_task_def)

lemma world_inv_step: "world_inv w \<Longrightarrow> world_inv (conn_step c w)"
proof (induction c w rule: conn_step.induct)
  case (1 i w)
  then show ?case by (auto simp: connect_async_def intro!: world_inv_spawn)
next
  case (2 cid w)
  then show ?case by (auto simp: disconnect_def intro!: world_inv_spawn)
next
  case (3 w)
  then show ?case by (auto simp: disconnect_all_def intro!: world_inv_spawn)
next
  case (4 i e w)
  then show ?case by (simp add: world_inv_run_task)
qed (simp_all add: world_inv_def init_generation_def bump_generation_def Let_def drop_generation_def
      clear_generations_def acts_inv_generations)

lemma world_inv_new: "world_inv world_new"
  by (simp add: world_inv_def acts_inv_def world_new_def reg_inv_new) (simp add: registry_new_def)

interpretation conn: step_invariant conn_step world_inv
  by unfold_locales (rule world_inv_step)

lemma world_inv_reachable: "world_inv (conn_run cs world_new)"
  unfolding conn_run_def by (rule conn.inv_run [OF world_inv_new])

lemma task_acts_ok:
  "world_inv w \<Longrightarrow> i < length (w_tasks w) \<Longrightarrow> a \<in> set (w_tasks w ! i) \<Longrightarrow> act_ok (w_reg w) a"
  by (auto simp: world_inv_def acts_inv_def)

end
