(* ===== verification/Connection_Spec.thy ===== *)
theory Connection_Spec
  imports Connection_Driver
begin

text \<open>
  What the connection registry promises to the workspace view, as an abstract machine on rows, and
  the proof that every interleaving of connect drivers, transport monitors and teardowns implements
  it; that every attempt settles; and the interleavings in which events reach subscribers that the
  registry contradicts.
\<close>

section \<open>The abstract machine\<close>

type_synonym rows = "ConnId \<rightharpoonup> ConnectionSnapshot"

text \<open>
  A row is opened in \<open>Disconnected\<close>, starts at most into \<open>Connecting\<close>, reaches
  \<open>Connected\<close> or \<open>Disconnected\<close> with an error from there only, and may drop from
  \<open>Connected\<close>.
\<close>

inductive row_step :: "rows \<Rightarrow> rows \<Rightarrow> bool" where
  row_open: "row_step v (v(ai_id i \<mapsto> actor_snapshot (actor_new i)))"
| row_close: "row_step v (v(cid := None))"
| row_begin: "v cid = Some s \<Longrightarrow> sn_state s = Disconnected \<Longrightarrow>
    row_step v (v(cid \<mapsto> s\<lparr> sn_state := Connecting, sn_error := None, sn_progress := [] \<rparr>))"
| row_progress: "v cid = Some s \<Longrightarrow> row_step v (v(cid \<mapsto> s\<lparr> sn_progress := sn_progress s @ [p] \<rparr>))"
| row_up: "v cid = Some s \<Longrightarrow> sn_state s = Connecting \<Longrightarrow> row_step v (v(cid \<mapsto> s\<lparr> sn_state := Connected \<rparr>))"
| row_fail: "v cid = Some s \<Longrightarrow> sn_state s = Connecting \<Longrightarrow>
    row_step v (v(cid \<mapsto> s\<lparr> sn_state := Disconnected, sn_error := Some d \<rparr>))"
| row_drop: "v cid = Some s \<Longrightarrow> sn_state s = Connected \<Longrightarrow>
    row_step v (v(cid \<mapsto> s\<lparr> sn_state := Disconnected \<rparr>))"

definition view :: "RegistryInner \<Rightarrow> rows" where
  "view r cid = map_option (\<lambda>h. actor_snapshot (actor_at h r)) (registry_get cid r)"

lemma view_with_actor:
  assumes "reg_inv r" and "mine r h cid"
  shows "view (with_actor h f r) =
    (if registry_get cid r = Some h then (view r)(cid \<mapsto> actor_snapshot (f (actor_at h r))) else view r)"
proof
  fix k
  show "view (with_actor h f r) k = (if registry_get cid r = Some h
      then (view r)(cid \<mapsto> actor_snapshot (f (actor_at h r))) else view r) k"
  proof (cases "registry_get k r")
    case None
    then show ?thesis by (auto simp: view_def)
  next
    case (Some l)
    with assms reg_invD [OF assms(1) Some] show ?thesis
      by (auto simp: view_def conn_simps)
  qed
qed

lemma view_insert: "reg_inv r \<Longrightarrow> view (snd (registry_insert a r)) = (view r)(a_id a \<mapsto> actor_snapshot a)"
proof
  fix k
  assume "reg_inv r"
  then show "view (snd (registry_insert a r)) k = ((view r)(a_id a \<mapsto> actor_snapshot a)) k"
    using reg_invD [of r k] by (cases "registry_get k r") (auto simp: view_def conn_simps)
qed

lemma view_remove: "view (snd (registry_remove cid r)) = (view r)(cid := None)"
  by (auto simp: view_def conn_simps)

lemma view_cong: "r_store r = r_store r' \<Longrightarrow> r_by_id r = r_by_id r' \<Longrightarrow> view r = view r'"
  by (simp add: view_def registry_get_def actor_at_def fun_eq_iff)

lemma view_registered: "registry_get cid r = Some h \<Longrightarrow> view r cid = Some (actor_snapshot (actor_at h r))"
  by (simp add: view_def)

text \<open>The locked writes, seen from the rows.\<close>

lemma row_writes:
  assumes "v cid = Some (actor_snapshot a)"
  shows "a_state a = Disconnected \<Longrightarrow> row_step v (v(cid \<mapsto> actor_snapshot (begin_attempt a)))"
    and "row_step v (v(cid \<mapsto> actor_snapshot (a\<lparr> a_progress := a_progress a @ [p] \<rparr>)))"
    and "a_state a = Connecting \<Longrightarrow>
      row_step v (v(cid \<mapsto> actor_snapshot (a\<lparr> a_session := s, a_state := Connected \<rparr>)))"
    and "a_state a = Connecting \<Longrightarrow>
      row_step v (v(cid \<mapsto> actor_snapshot (a\<lparr> a_state := Disconnected, a_error := Some d \<rparr>)))"
    and "a_state a = Connected \<Longrightarrow> row_step v (v(cid \<mapsto> actor_snapshot (end_session a)))"
  using row_begin [of v cid "actor_snapshot a"] row_progress [of v cid "actor_snapshot a" p]
    row_up [of v cid "actor_snapshot a"] row_fail [of v cid "actor_snapshot a" d]
    row_drop [of v cid "actor_snapshot a"] assms
  by (simp_all add: actor_snapshot_def begin_attempt_def end_session_def)

lemma write_refines:
  assumes "reg_inv r" and "mine r h cid"
    and "registry_get cid r = Some h \<Longrightarrow> view r cid = Some (actor_snapshot (actor_at h r)) \<Longrightarrow>
      row_step (view r) ((view r)(cid \<mapsto> actor_snapshot (f (actor_at h r))))"
  shows "row_step\<^sup>=\<^sup>= (view r) (view (with_actor h f r))"
  using assms by (auto simp: view_with_actor view_registered)

lemma exec_refines:
  assumes inv: "reg_inv (w_reg w)" "act_ok (w_reg w) a"
  shows "row_step\<^sup>=\<^sup>= (view (w_reg w)) (view (w_reg (fst (exec e a w))))"
proof -
  note wr = write_refines [OF inv(1)]
  show ?thesis
  proof (cases a)
    case (Insert i)
    have "row_step (view (w_reg w)) ((view (w_reg w))(ai_id i \<mapsto> actor_snapshot (actor_new i)))"
      by (rule row_open)
    then show ?thesis using Insert inv by (simp add: Let_def case_prod_beta view_insert actor_new_def)
  next
    case (RemoveRow cid)
    then show ?thesis by (simp add: Let_def case_prod_beta view_remove row_close)
  next
    case (Begin h cid)
    have "row_step\<^sup>=\<^sup>= (view (w_reg w)) (view (with_actor h begin_attempt (w_reg w)))"
      by (rule wr [of h cid]) (use inv(2) Begin in \<open>auto intro: row_writes\<close>)
    then show ?thesis using Begin by (simp add: Let_def)
  next
    case (PushProgress h cid p)
    have "row_step\<^sup>=\<^sup>= (view (w_reg w))
        (view (with_actor h (\<lambda>a. a\<lparr> a_progress := a_progress a @ [p] \<rparr>) (w_reg w)))"
      by (rule wr [of h cid]) (use inv(2) PushProgress in \<open>auto intro: row_writes\<close>)
    then show ?thesis using PushProgress by simp
  next
    case (SetConnected h cid)
    have "row_step\<^sup>=\<^sup>= (view (w_reg w))
        (view (with_actor h (\<lambda>a. a\<lparr> a_session := Some (w_sessions w), a_state := Connected \<rparr>) (w_reg w)))"
      by (rule wr [of h cid]) (use inv(2) SetConnected in \<open>auto intro: row_writes\<close>)
    then show ?thesis using SetConnected by (simp add: Let_def)
  next
    case (SetFailed h cid d)
    have "row_step\<^sup>=\<^sup>= (view (w_reg w))
        (view (with_actor h (\<lambda>a. a\<lparr> a_state := Disconnected, a_error := Some d \<rparr>) (w_reg w)))"
      by (rule wr [of h cid]) (use inv(2) SetFailed in \<open>auto intro: row_writes\<close>)
    then show ?thesis using SetFailed by simp
  next
    case (MonitorFlip h cid)
    have "row_step\<^sup>=\<^sup>= (view (w_reg w)) (view (with_actor h end_session (w_reg w)))"
      if "a_state (actor_at h (w_reg w)) = Connected"
      by (rule wr [of h cid]) (use inv(2) MonitorFlip that in \<open>auto intro: row_writes\<close>)
    then show ?thesis using MonitorFlip by simp
  next
    case (TakeSession h cid)
    then show ?thesis using inv by (auto simp: view_with_actor)
  qed simp_all
qed

lemma run_task_reg:
  "w_reg (run_task i e w) =
     (if i < length (w_tasks w) \<and> w_tasks w ! i \<noteq> [] then w_reg (fst (exec e (hd (w_tasks w ! i)) w))
      else w_reg w)"
  by (auto simp: run_task_def case_prod_beta Let_def split: list.split)

lemma step_refines:
  assumes "world_inv w"
  shows "row_step\<^sup>=\<^sup>= (view (w_reg w)) (view (w_reg (conn_step c w)))"
proof (cases c)
  case (Run i e)
  show ?thesis
  proof (cases "i < length (w_tasks w) \<and> w_tasks w ! i \<noteq> []")
    case True
    then have "act_ok (w_reg w) (hd (w_tasks w ! i))"
      using task_acts_ok [OF assms, of i "hd (w_tasks w ! i)"] by simp
    moreover have "reg_inv (w_reg w)" using assms by (simp add: world_inv_def acts_inv_def)
    ultimately show ?thesis using exec_refines True Run by (auto simp: run_task_reg)
  qed (use Run in \<open>auto simp: run_task_reg\<close>)
qed (auto simp: spawn_task_def init_generation_def bump_generation_def Let_def drop_generation_def
      clear_generations_def intro: view_cong)

text \<open>
  C10. Refinement: whatever connect drivers, transport monitors and teardowns have run, in whatever
  order their locked sections interleaved, the next action of any of them changes the rows the
  workspace view reads by at most one step of the abstract machine.  So a driver or a monitor that
  outlived its row (removed by \<open>disconnect\<close>, or replaced by a reconnect under the same id)
  never writes to the row that took its place.
\<close>

theorem rows_refine_spec:
  "row_step\<^sup>=\<^sup>= (view (w_reg (conn_run cs world_new))) (view (w_reg (conn_run (cs @ [c]) world_new)))"
  using step_refines [OF world_inv_reachable] by (simp add: conn_run_def)

text \<open>
  C17. In every reachable state a channel opener gets a session for an id exactly when the id's actor
  holds one: \<open>clone_session\<close>, which does not look at the state, and
  \<open>connected_session\<close>, which does, agree, and an actor that is not \<open>Connected\<close> holds no
  session.
\<close>

theorem session_iff_connected:
  fixes cs :: "conn_call list"
  defines "r \<equiv> w_reg (conn_run cs world_new)"
  assumes "registry_get cid r = Some h"
  shows "connected_session cid r = clone_session (actor_at h r)
    \<and> (clone_session (actor_at h r) \<noteq> None \<longleftrightarrow> a_state (actor_at h r) = Connected)"
proof -
  have inv: "reg_inv r" "\<And>k. k < length (r_store r) \<Longrightarrow> actor_ok (actor_at k r)"
    using world_inv_reachable [of cs] by (auto simp: r_def world_inv_def acts_inv_def)
  with assms(2) reg_invD [OF inv(1) assms(2)] show ?thesis
    using connected_session_with_inv [of r cid h] by (auto simp: actor_ok_def clone_session_def)
qed

text \<open>
  The generation check of the driver never discards a result: every attempt runs against an actor
  of its own, whose generation nothing else advances, so the branch that publishes
  ``superseded by newer reconnect'' is never taken.
\<close>

theorem generation_check_passes:
  assumes "i < length (w_tasks (conn_run cs world_new))"
    and "w_tasks (conn_run cs world_new) ! i = CheckGeneration h cid g res # rest"
  shows "snd (exec e (CheckGeneration h cid g res) (conn_run cs world_new)) = settle h cid res"
  using task_acts_ok [OF world_inv_reachable assms(1), of "CheckGeneration h cid g res"] assms(2)
  by simp

section \<open>Every attempt settles\<close>

text \<open>
  The actions whose work is bounded in advance: all but the monitor's polling loop and the
  iteration of \<open>disconnect_all\<close>.  \<open>work\<close> bounds the actions an action still causes.
\<close>

fun bounded :: "act \<Rightarrow> bool" where
  "bounded (MonitorTick _ _ _) = False"
| "bounded (MonitorUpgrade _ _ _) = False"
| "bounded SnapshotIds = False"
| "bounded _ = True"

fun work :: "act \<Rightarrow> nat" where
  "work (Insert _) = 19"
| "work (Begin _ _) = 18"
| "work (AwaitAuth _ _ _) = 14"
| "work (CheckGeneration _ _ _ _) = 13"
| "work (SetConnected _ _) = 12"
| "work CountActive = 3"
| "work (SwapActive _) = 2"
| "work (MonitorFlip _ _) = 5"
| "work (RemoveRow _) = 8"
| "work (TakeSession _ _) = 7"
| "work (SessionDisconnect _) = 2"
| "work _ = 1"

definition task_work :: "act list \<Rightarrow> nat" where
  "task_work t = sum_list (map work t)"

lemma task_work_simps [simp]:
  "task_work [] = 0" "task_work (a # t) = work a + task_work t"
  "task_work (t @ u) = task_work t + task_work u"
  by (simp_all add: task_work_def)

lemma exec_work:
  assumes "bounded a"
  shows "task_work (snd (exec e a w)) < work a \<and> list_all bounded (snd (exec e a w))"
proof (cases a)
  case (CheckGeneration h cid g res)
  then show ?thesis by (cases res) (simp_all add: act_lists)
qed (use assms in \<open>auto simp: Let_def case_prod_beta act_lists split: option.split\<close>)

lemma work_pos: "0 < work a"
  by (cases a) auto

text \<open>The actions from which the closing publication of an attempt on \<open>h\<close> is still to come.\<close>

fun closing :: "handle \<Rightarrow> ConnId \<Rightarrow> act \<Rightarrow> bool" where
  "closing h cid (Begin k c) = (k = h \<and> c = cid)"
| "closing h cid (AwaitAuth k c _) = (k = h \<and> c = cid)"
| "closing h cid (CheckGeneration k c _ _) = (k = h \<and> c = cid)"
| "closing h cid (SetConnected k c) = (k = h \<and> c = cid)"
| "closing h cid (Publish (ConnectionStateChanged c s)) = (c = cid \<and> s \<noteq> Connecting)"
| "closing h cid _ = False"

abbreviation closed_since :: "nat \<Rightarrow> ConnId \<Rightarrow> world \<Rightarrow> bool" where
  "closed_since n cid w \<equiv> \<exists>s. s \<noteq> Connecting \<and> ConnectionStateChanged cid s \<in> set (drop n (w_events w))"

lemma exec_events: "\<exists>evs. w_events (fst (exec e a w)) = w_events w @ evs"
  by (cases a) (auto simp: Let_def case_prod_beta)

lemma exec_closing:
  assumes "act_ok (w_reg w) a" and "closing h cid a" and "n \<le> length (w_events w)"
  shows "(\<exists>b \<in> set (snd (exec e a w)). closing h cid b) \<or> closed_since n cid (fst (exec e a w))"
proof (cases a)
  case (CheckGeneration k c g res)
  with assms show ?thesis by (cases res) (auto simp: act_lists)
next
  case (Publish ev)
  with assms show ?thesis by (cases ev) auto
qed (use assms in \<open>auto simp: Let_def act_lists\<close>)

definition settling :: "nat \<Rightarrow> handle \<Rightarrow> ConnId \<Rightarrow> nat \<Rightarrow> world \<Rightarrow> bool" where
  "settling i h cid n w \<longleftrightarrow>
     world_inv w \<and> i < length (w_tasks w) \<and> h < length (r_store (w_reg w)) \<and> n \<le> length (w_events w) \<and>
     list_all bounded (w_tasks w ! i) \<and>
     (\<forall>j < length (w_tasks w). j \<noteq> i \<longrightarrow> pending h (w_tasks w ! j) = 0) \<and>
     ((\<exists>b \<in> set (w_tasks w ! i). closing h cid b) \<or> closed_since n cid w)"

lemma run_task_effect:
  assumes "j < length (w_tasks w)" and "w_tasks w ! j = a # rest"
  shows "w_events (run_task j e w) = w_events (fst (exec e a w))"
    and "w_reg (run_task j e w) = w_reg (fst (exec e a w))"
    and "w_tasks (run_task j e w) =
      (w_tasks w)[j := snd (exec e a w) @ rest] @
      (case a of SpawnMonitor h cid s \<Rightarrow> [run_transport_monitor h cid s] | _ \<Rightarrow> [])"
  using assms
  by (simp_all add: run_task_def Let_def case_prod_beta exec_tasks list_update_append)

lemma settling_run_task:
  assumes set: "settling i h cid n w"
  shows "settling i h cid n (run_task j e w) \<and>
    task_work (w_tasks (run_task j e w) ! i) \<le> task_work (w_tasks w ! i) - (if j = i then 1 else 0)"
proof (cases "j < length (w_tasks w) \<and> w_tasks w ! j \<noteq> []")
  case False
  then have "run_task j e w = w" by (auto simp: run_task_def split: list.split)
  moreover have "j = i \<Longrightarrow> task_work (w_tasks w ! i) = 0" using False set by (auto simp: settling_def)
  ultimately show ?thesis using set by simp
next
  case True
  then obtain a rest where t: "j < length (w_tasks w)" "w_tasks w ! j = a # rest"
    by (cases "w_tasks w ! j") auto
  note eff = run_task_effect [OF t, of e]
  have inv: "world_inv w" and i: "i < length (w_tasks w)" and h: "h < length (r_store (w_reg w))"
    and n: "n \<le> length (w_events w)" using set by (auto simp: settling_def)
  have ok: "act_ok (w_reg w) a" using task_acts_ok [OF inv t(1)] t(2) by simp
  obtain evs where evs: "w_events (fst (exec e a w)) = w_events w @ evs" using exec_events by blast
  have nth: "w_tasks (run_task j e w) ! k = (if k = j then snd (exec e a w) @ rest else w_tasks w ! k)"
    if "k < length (w_tasks w)" for k
    using that by (simp add: eff nth_append nth_list_update)
  have new: "pending h (w_tasks (run_task j e w) ! k) = 0"
    if "length (w_tasks w) \<le> k" "k < length (w_tasks (run_task j e w))" for k
    using that by (auto simp: eff nth_append run_transport_monitor_def split: act.splits)
  have others: "pending h (w_tasks (run_task j e w) ! k) = 0"
    if "k < length (w_tasks (run_task j e w))" "k \<noteq> i" for k
    using that new [of k] nth [of k] set t exec_pending [OF ok, of h e] h
    by (cases "k < length (w_tasks w)") (auto simp: settling_def split: if_splits)
  have old: "closed_since n cid w \<Longrightarrow> closed_since n cid (run_task j e w)"
    using evs n by (auto simp: eff)
  have close: "(\<exists>b \<in> set (w_tasks (run_task j e w) ! i). closing h cid b) \<or> closed_since n cid (run_task j e w)"
  proof (cases "closed_since n cid w")
    case False
    then obtain b where b: "b \<in> set (w_tasks w ! i)" "closing h cid b" using set by (auto simp: settling_def)
    show ?thesis
    proof (cases "j = i \<and> b = a")
      case True
      with exec_closing [OF ok _ n, of h cid e] b show ?thesis unfolding eff(1) nth [OF i] by auto
    next
      case False
      with b t show ?thesis unfolding nth [OF i] by (intro disjI1 bexI [of _ b]) auto
    qed
  qed (use old in blast)
  have bnd: "list_all bounded (w_tasks (run_task j e w) ! i)"
    and less: "task_work (w_tasks (run_task j e w) ! i) \<le> task_work (w_tasks w ! i) - (if j = i then 1 else 0)"
    using set t i exec_work [of a e w] by (auto simp: nth settling_def)
  have "h < length (r_store (w_reg (run_task j e w)))" "n \<le> length (w_events (run_task j e w))"
    "i < length (w_tasks (run_task j e w))"
    using h n i evs by (auto simp: eff length_store_exec)
  with world_inv_run_task [OF inv] bnd others close less show ?thesis
    unfolding settling_def by blast
qed

lemma settling_spawn:
  assumes "settling i h cid n w" and "\<And>k. pending k t = 0" and "\<And>a. a \<in> set t \<Longrightarrow> act_ok (w_reg w) a"
  shows "settling i h cid n (spawn_task t w) \<and> w_tasks (spawn_task t w) ! i = w_tasks w ! i"
  using assms world_inv_spawn [of w t]
  by (auto simp: settling_def spawn_task_def nth_append)

lemma settling_step:
  assumes "settling i h cid n w"
  shows "settling i h cid n (conn_step c w) \<and>
    task_work (w_tasks (conn_step c w) ! i) \<le> task_work (w_tasks w ! i) - (case c of Run j _ \<Rightarrow> if j = i then 1 else 0 | _ \<Rightarrow> 0)"
proof (cases c)
  case (Run j e)
  with settling_run_task [OF assms] show ?thesis by auto
next
  case (Connect x)
  with settling_spawn [OF assms, of "connect_async x"] show ?thesis by (auto simp: connect_async_def)
next
  case (Disconnect x)
  with settling_spawn [OF assms, of "disconnect x"] show ?thesis by (auto simp: disconnect_def)
next
  case DisconnectAll
  with settling_spawn [OF assms, of "disconnect_all"] show ?thesis by (auto simp: disconnect_all_def)
qed (use assms world_inv_step [of w c] in \<open>auto simp: settling_def init_generation_def bump_generation_def
      Let_def drop_generation_def clear_generations_def\<close>)

lemma other_task_idle:
  assumes "pending h (concat ts) \<le> 1" and "pending h (ts ! i) = 1" and "i < length ts" "j < length ts" "j \<noteq> i"
  shows "pending h (ts ! j) = 0"
proof -
  have "concat ts = concat (take i ts) @ ts ! i @ concat (drop (Suc i) ts)" by (rule concat_split [OF assms(3)])
  then have "pending h (concat (take i ts)) = 0" "pending h (concat (drop (Suc i) ts)) = 0"
    using assms(1,2) by simp_all
  moreover have "ts ! j \<in> set (take i ts) \<or> ts ! j \<in> set (drop (Suc i) ts)"
  proof (cases "j < i")
    case True
    with assms(3) show ?thesis by (auto simp: in_set_conv_nth intro!: exI [of _ j])
  next
    case False
    with assms(3-5) have "drop (Suc i) ts ! (j - Suc i) = ts ! j" "j - Suc i < length (drop (Suc i) ts)" by auto
    then show ?thesis by (metis nth_mem)
  qed
  ultimately show ?thesis by (force simp: pending_zero_iff)
qed

definition turns :: "nat \<Rightarrow> conn_call list \<Rightarrow> nat" where
  "turns i cs = length (filter (\<lambda>c. case c of Run j _ \<Rightarrow> j = i | _ \<Rightarrow> False) cs)"

lemma settling_run:
  "settling i h cid n w \<Longrightarrow> settling i h cid n (conn_run cs w) \<and>
     task_work (w_tasks (conn_run cs w) ! i) \<le> task_work (w_tasks w ! i) - turns i cs"
proof (induction cs arbitrary: w)
  case (Cons c cs)
  define k where "k = (case c of Run j _ \<Rightarrow> if j = i then 1 else 0 | _ \<Rightarrow> (0::nat))"
  have "turns i (c # cs) = k + turns i cs"
    by (simp add: turns_def k_def split: conn_call.split)
  moreover have "task_work (w_tasks (conn_step c w) ! i) \<le> task_work (w_tasks w ! i) - k"
    and set: "settling i h cid n (conn_step c w)"
    using settling_step [OF Cons.prems, of c] by (simp_all add: k_def)
  ultimately show ?case
    using Cons.IH [OF set] unfolding conn_run_def by (simp; linarith)
qed (simp add: conn_run_def turns_def)

lemma task_work_zero: "task_work t = 0 \<longleftrightarrow> t = []"
  using work_pos [of "hd t"] by (cases t) auto


section \<open>Interleavings\<close>

text \<open>The environments and actors of the concrete schedules.\<close>

definition good_env :: env where
  "good_env = \<lparr> auth = Inr (), held = False, closed = False, bye = None \<rparr>"

definition bad_env :: env where
  "bad_env = \<lparr> auth = Inl EHostKeyRejected, held = False, closed = True, bye = None \<rparr>"

definition box :: ConnectionActorInit where
  "box = \<lparr> ai_id = ''c1'', ai_label = ''box'', ai_session_id = None, ai_bastion_id = None,
     ai_internal = False, ai_host = ''h'', ai_port = 22, ai_user = ''u'' \<rparr>"

lemma conn_run_simps [simp]:
  "conn_run [] w = w" "conn_run (c # cs) w = conn_run cs (conn_step c w)"
  by (simp_all add: conn_run_def)

theorem session_iff_connected_witness:
  "connected_session ''c1'' (w_reg (conn_run (Connect box # replicate 20 (Run 0 good_env)) world_new)) = Some 0"
proof -
  have "registry_get ''c1'' (w_reg (conn_run (Connect box # replicate 20 (Run 0 good_env)) world_new)) = Some 0"
    "clone_session (actor_at 0 (w_reg (conn_run (Connect box # replicate 20 (Run 0 good_env)) world_new))) = Some 0"
    by code_simp+
  with session_iff_connected [of "''c1''" "Connect box # replicate 20 (Run 0 good_env)" 0] show ?thesis
    by argo
qed

theorem generation_check_passes_witness:
  "snd (exec good_env (CheckGeneration 0 ''c1'' 1 (Inr ()))
     (conn_run (Connect box # replicate 6 (Run 0 good_env)) world_new)) = settle 0 ''c1'' (Inr ())"
proof (rule generation_check_passes [of 0 _ 0 "''c1''" 1 "Inr ()" "[]"])
  show "0 < length (w_tasks (conn_run (Connect box # replicate 6 (Run 0 good_env)) world_new))"
    by code_simp
  show "w_tasks (conn_run (Connect box # replicate 6 (Run 0 good_env)) world_new) ! 0 =
      [CheckGeneration 0 ''c1'' 1 (Inr ())]"
    by code_simp
qed


text \<open>
  A teardown does not stop a connect attempt.  When \<open>disconnect\<close> runs while the handshake is in
  flight and the handshake then succeeds, the driver writes \<open>Connected\<close> and a live session into
  the actor that is no longer in the registry, and the last state subscribers see for the id is
  \<open>Connected\<close>, published after \<open>ConnectionRemoved\<close>.
\<close>

theorem late_success_after_disconnect:
  fixes i :: ConnectionActorInit
  defines "w \<equiv> conn_run (Connect i # replicate 5 (Run 0 good_env) @ Disconnect (ai_id i) #
     replicate 6 (Run 1 good_env) @ replicate 14 (Run 0 good_env)) world_new"
  shows "registry_get (ai_id i) (w_reg w) = None
    \<and> a_state (actor_at 0 (w_reg w)) = Connected \<and> a_session (actor_at 0 (w_reg w)) = Some 0
    \<and> (\<exists>before between after. w_events w =
         before @ ConnectionRemoved (ai_id i) # between @
         ConnectionStateChanged (ai_id i) Connected # after
         \<and> (\<forall>s. ConnectionStateChanged (ai_id i) s \<notin> set after))"
proof -
  have ev: "w_events w =
     [ConnectionStateChanged (ai_id i) Connecting,
      ConnectionProgress (ai_id i) \<lparr> ps_phase = SocketConnect, ps_status = StepInProgress, ps_detail = None \<rparr>] @
     ConnectionRemoved (ai_id i) #
     (ConnectionActiveCountChanged 0 # map (\<lambda>phase. ConnectionProgress (ai_id i)
        \<lparr> ps_phase = phase, ps_status = StepSuccess, ps_detail = None \<rparr>)
       [SocketConnect, HostKeyVerify, Authenticate]) @
     ConnectionStateChanged (ai_id i) Connected # []"
    and st: "registry_get (ai_id i) (w_reg w) = None" "a_state (actor_at 0 (w_reg w)) = Connected"
      "a_session (actor_at 0 (w_reg w)) = Some 0"
    unfolding w_def good_env_def
    by (simp_all add: numeral_eq_Suc spawn_task_def run_task_def connect_async_def disconnect_def act_lists
        registry_insert_def registry_remove_def registry_get_def actor_new_def begin_attempt_def end_session_def
        with_actor_def actor_at_def world_new_def registry_new_def connected_user_visible_count_def hput_def
        hget_def hdel_def hempty_def)
  have "\<forall>s. ConnectionStateChanged (ai_id i) s \<notin> set []" by simp
  with ev st show ?thesis by blast
qed

text \<open>
  A superseded attempt still reports.  After a reconnect under the same id has succeeded, the
  failure of the attempt it replaced is published as \<open>Disconnected\<close> for that id, although the
  row is \<open>Connected\<close>.
\<close>

theorem superseded_failure_reported:
  "let w = conn_run (Connect box # replicate 5 (Run 0 bad_env) @ Connect box #
       replicate 20 (Run 1 good_env) @ replicate 12 (Run 0 bad_env)) world_new
   in map_option sn_state (view (w_reg w) ''c1'') = Some Connected
     \<and> last (w_events w) = ConnectionStateChanged ''c1'' Disconnected"
  by code_simp

text \<open>
  The count and the exchange of \<open>publish_active_count\<close> are two steps.  A teardown that runs
  between them leaves the last announced count at one, with no connection left and every task that
  could correct it finished.
\<close>

theorem active_count_race:
  "let w = conn_run (Connect box # replicate 17 (Run 0 good_env) @ Disconnect ''c1'' #
       replicate 8 (Run 2 good_env) @ replicate 4 (Run 0 good_env) @ [Run 1 good_env]) world_new
   in connected_user_visible_count (w_reg w) = 0 \<and> concat (w_tasks w) = []
     \<and> last (w_events w) = ConnectionActiveCountChanged 1 \<and> w_last w = 1"
  by code_simp

lemma length_update_old: "k \<in> fst ` set m \<Longrightarrow> length (AList.update k v m) = length m"
  by (induction m) auto

text \<open>
  A reconnect inserts its actor under an id that is already in the insertion order, so the
  workspace snapshot lists the connection twice and \<open>disconnect_all\<close> counts two.
\<close>

theorem reconnect_lists_twice:
  assumes "reg_inv r" and "registry_get (a_id a) r = Some h"
  shows "map sn_id (snapshot_all (snd (registry_insert a r))) = r_order r @ [a_id a]"
    and "a_id a \<in> set (r_order r)"
    and "disconnect_all_count (snd (registry_insert a r)) = Suc (disconnect_all_count r)"
    and "registry_count (snd (registry_insert a r)) = registry_count r"
proof -
  have dom: "a_id a \<in> fst ` set (r_by_id r)"
    using assms(2) by (force simp: registry_get_def hget_def dest: map_of_SomeD)
  show ids: "map sn_id (snapshot_all (snd (registry_insert a r))) = r_order r @ [a_id a]"
    using snapshot_all_order [OF reg_inv_insert [OF assms(1)]] by (simp add: conn_simps)
  show "a_id a \<in> set (r_order r)" using assms by (simp add: reg_inv_def)
  show "disconnect_all_count (snd (registry_insert a r)) = Suc (disconnect_all_count r)"
    using arg_cong [OF ids, of length] arg_cong [OF snapshot_all_order [OF assms(1)], of length]
    by (simp add: disconnect_all_count_def)
  show "registry_count (snd (registry_insert a r)) = registry_count r"
    using dom by (simp add: registry_count_def registry_insert_def hput_def length_update_old)
qed

end
