(* ===== verification/Prompt_Registry.thy ===== *)
theory Prompt_Registry
  imports Interfaces
begin

text \<open>
  The generic prompt registry of \<open>security/prompt_registry.rs\<close>: a map from prompt ids to the
  sending halves of oneshot channels.  A channel is a cell of an explicit list: \<open>Waiting\<close> while
  both halves live, \<open>Delivered\<close> once a response was sent, \<open>SenderGone\<close> when the sending
  half was dropped (the awaiter wakes with an error), \<open>ReceiverGone\<close> when the awaiter gave up.
  A timer task of \<open>register_with_timeout\<close> is an entry of \<open>pg_timers\<close> until it fires.
\<close>

section \<open>Definitions\<close>

datatype 'r chan = Waiting | Delivered 'r | SenderGone | ReceiverGone

record 'r registry =
  pg_inner :: "(string, nat) hmap"
  pg_chans :: "'r chan list"
  pg_timers :: "string list"

definition pg_new :: "'r registry" where
  "pg_new = \<lparr> pg_inner = hempty, pg_chans = [], pg_timers = [] \<rparr>"

text \<open>Dropping a sender wakes the awaiter of a channel that is still waiting.\<close>

definition drop_sender :: "nat option \<Rightarrow> 'r chan list \<Rightarrow> 'r chan list" where
  "drop_sender tx cs =
     (case tx of
        None \<Rightarrow> cs
      | Some c \<Rightarrow> if c < length cs \<and> cs ! c = Waiting then cs[c := SenderGone] else cs)"

definition pg_register :: "string \<Rightarrow> 'r registry \<Rightarrow> nat \<times> 'r registry" where
  "pg_register pid g =
     (let c = length (pg_chans g)
      in (c, g\<lparr> pg_inner := hput pid c (pg_inner g),
                pg_chans := drop_sender (hget (pg_inner g) pid) (pg_chans g) @ [Waiting] \<rparr>))"

definition pg_register_with_timeout :: "string \<Rightarrow> 'r registry \<Rightarrow> nat \<times> 'r registry" where
  "pg_register_with_timeout pid g =
     (let (c, g') = pg_register pid g in (c, g'\<lparr> pg_timers := pg_timers g' @ [pid] \<rparr>))"

definition pg_resolve :: "string \<Rightarrow> 'r \<Rightarrow> 'r registry \<Rightarrow> bool \<times> 'r registry" where
  "pg_resolve pid response g =
     (case hget (pg_inner g) pid of
        None \<Rightarrow> (False, g)
      | Some c \<Rightarrow>
          (let g' = g\<lparr> pg_inner := hdel pid (pg_inner g) \<rparr>
           in if c < length (pg_chans g) \<and> pg_chans g ! c = Waiting
              then (True, g'\<lparr> pg_chans := (pg_chans g)[c := Delivered response] \<rparr>)
              else (False, g')))"

definition pg_cancel :: "string \<Rightarrow> 'r registry \<Rightarrow> 'r registry" where
  "pg_cancel pid g =
     g\<lparr> pg_inner := hdel pid (pg_inner g),
        pg_chans := drop_sender (hget (pg_inner g) pid) (pg_chans g) \<rparr>"

definition pg_pending_count :: "'r registry \<Rightarrow> nat" where
  "pg_pending_count g = length (pg_inner g)"

text \<open>The \<open>n\<close>-th timer's sleep ends: it removes its id, whoever holds it now.\<close>

definition pg_timer_fires :: "nat \<Rightarrow> 'r registry \<Rightarrow> 'r registry" where
  "pg_timer_fires n g =
     (if n < length (pg_timers g)
      then (pg_cancel (pg_timers g ! n) g)\<lparr> pg_timers := take n (pg_timers g) @ drop (Suc n) (pg_timers g) \<rparr>
      else g)"

text \<open>The awaiter drops its receiver.\<close>

definition pg_abandon :: "nat \<Rightarrow> 'r registry \<Rightarrow> 'r registry" where
  "pg_abandon c g =
     (if c < length (pg_chans g) \<and> pg_chans g ! c = Waiting
      then g\<lparr> pg_chans := (pg_chans g)[c := ReceiverGone] \<rparr> else g)"

datatype 'r prompt_call =
    Register string | RegisterTimeout string | Resolve string 'r | Cancel string | Fire nat | Abandon nat

fun pg_step :: "'r prompt_call \<Rightarrow> 'r registry \<Rightarrow> 'r registry" where
  "pg_step (Register pid) g = snd (pg_register pid g)"
| "pg_step (RegisterTimeout pid) g = snd (pg_register_with_timeout pid g)"
| "pg_step (Resolve pid response) g = snd (pg_resolve pid response g)"
| "pg_step (Cancel pid) g = pg_cancel pid g"
| "pg_step (Fire n) g = pg_timer_fires n g"
| "pg_step (Abandon c) g = pg_abandon c g"

section \<open>Invariant\<close>

text \<open>
  The entries own distinct channels, and a channel is waiting only while an entry owns it: no
  awaiter is ever left waiting for a sender that no longer exists.
\<close>

definition pg_inv :: "'r registry \<Rightarrow> bool" where
  "pg_inv g \<longleftrightarrow>
     hinv (pg_inner g) \<and>
     (\<forall>pid c. hget (pg_inner g) pid = Some c \<longrightarrow>
        c < length (pg_chans g) \<and> (pg_chans g ! c = Waiting \<or> pg_chans g ! c = ReceiverGone)) \<and>
     (\<forall>p q c. hget (pg_inner g) p = Some c \<longrightarrow> hget (pg_inner g) q = Some c \<longrightarrow> p = q) \<and>
     (\<forall>c < length (pg_chans g). pg_chans g ! c = Waiting \<longrightarrow> (\<exists>pid. hget (pg_inner g) pid = Some c))"

lemma pg_inv_new: "pg_inv pg_new"
  by (simp add: pg_inv_def pg_new_def)

lemma length_drop_sender [simp]: "length (drop_sender tx cs) = length cs"
  by (simp add: drop_sender_def split: option.split)

lemma nth_drop_sender:
  "c < length cs \<Longrightarrow> drop_sender tx cs ! c = (if tx = Some c \<and> cs ! c = Waiting then SenderGone else cs ! c)"
  by (auto simp: drop_sender_def nth_list_update split: option.split)

lemma pg_inv_cancel:
  assumes "pg_inv g"
  shows "pg_inv (pg_cancel pid g)"
  using assms unfolding pg_inv_def pg_cancel_def
  by (simp add: nth_drop_sender) metis

lemma pg_inv_resolve:
  assumes "pg_inv g"
  shows "pg_inv (snd (pg_resolve pid response g))"
proof (cases "hget (pg_inner g) pid")
  case None
  with assms show ?thesis by (simp add: pg_resolve_def)
next
  case (Some c)
  with assms show ?thesis unfolding pg_inv_def pg_resolve_def
    by (simp add: Let_def nth_list_update) (metis option.inject)
qed

lemma pg_inv_register:
  assumes "pg_inv g"
  shows "pg_inv (snd (pg_register pid g))"
proof -
  have less: "hget (pg_inner g) p = Some c \<Longrightarrow> c < length (pg_chans g)" for p c
    using assms by (auto simp: pg_inv_def)
  then have ne: "hget (pg_inner g) p \<noteq> Some (length (pg_chans g))" for p by blast
  with assms show ?thesis
    unfolding pg_inv_def pg_register_def
    by (auto simp: Let_def nth_append nth_drop_sender less_Suc_eq dest: less split: if_splits) metis
qed

lemma pg_inv_timers [simp]: "pg_inv (g\<lparr> pg_timers := ts \<rparr>) = pg_inv g"
  by (simp add: pg_inv_def)

lemma pg_inv_abandon: "pg_inv g \<Longrightarrow> pg_inv (pg_abandon c g)"
  by (auto simp: pg_inv_def pg_abandon_def nth_list_update)

lemma pg_inv_step: "pg_inv g \<Longrightarrow> pg_inv (pg_step c g)"
  by (cases c)
     (simp_all add: pg_inv_register pg_inv_resolve pg_inv_cancel pg_inv_abandon pg_timer_fires_def
       pg_register_with_timeout_def case_prod_beta)

interpretation prompts: step_invariant pg_step pg_inv
  by unfold_locales (rule pg_inv_step)

section \<open>Properties\<close>

text \<open>
  No lost awaiter: after any sequence of registrations, answers, cancellations, timeouts and
  abandoned waits, a channel whose awaiter still waits belongs to an entry of the registry, so
  answering that prompt id delivers the answer to it.
\<close>

theorem awaiter_reachable:
  fixes calls :: "'r prompt_call list"
  defines "g \<equiv> fold pg_step calls pg_new"
  assumes "c < length (pg_chans g)" and "pg_chans g ! c = Waiting"
  shows "\<exists>pid. fst (pg_resolve pid r g) \<and> pg_chans (snd (pg_resolve pid r g)) ! c = Delivered r"
proof -
  have "pg_inv g" unfolding g_def by (rule prompts.inv_run [OF pg_inv_new])
  then obtain pid where "hget (pg_inner g) pid = Some c" using assms(2,3) by (auto simp: pg_inv_def)
  with assms(2,3) have "fst (pg_resolve pid r g) \<and> pg_chans (snd (pg_resolve pid r g)) ! c = Delivered r"
    by (simp add: pg_resolve_def Let_def)
  then show ?thesis ..
qed

theorem awaiter_reachable_witness:
  "\<exists>pid. fst (pg_resolve pid True (fold pg_step [Register ''p'', Register ''q''] pg_new))
     \<and> pg_chans (snd (pg_resolve pid True (fold pg_step [Register ''p'', Register ''q''] pg_new))) ! 0 = Delivered True"
proof (rule awaiter_reachable)
  show "0 < length (pg_chans (fold pg_step [Register ''p'', Register ''q''] (pg_new :: bool registry)))"
    by code_simp
  show "pg_chans (fold pg_step [Register ''p'', Register ''q''] (pg_new :: bool registry)) ! 0 = Waiting"
    by code_simp
qed

text \<open>A prompt is answered at most once, and an entry survives until it is answered or removed.\<close>

lemma resolve_once: "\<not> fst (pg_resolve pid r (snd (pg_resolve pid s g)))"
  by (simp add: pg_resolve_def Let_def split: option.split)

lemma pending_register: "0 < pg_pending_count (snd (pg_register pid g))"
proof -
  have "hget (pg_inner (snd (pg_register pid g))) pid \<noteq> None" by (simp add: pg_register_def Let_def)
  then show ?thesis by (auto simp: pg_pending_count_def hget_def)
qed

lemma abandon_keeps_pending: "pg_pending_count (pg_abandon c g) = pg_pending_count g"
  by (simp add: pg_abandon_def pg_pending_count_def)

end
