(* ===== verification/Connect_Auth.thy ===== *)
theory Connect_Auth
  imports Connection Prompt_Registry Secret_Store External
begin

text \<open>
  The authentication half of \<open>connection/mod.rs\<close>: the connect timeout that stands still while a
  prompt is open, the credential prompts and the retry loop around \<open>run_auth\<close>, the wait for a
  ProxyJump parent and the dispatch on the kind of credential.  The handshakes themselves
  (\<open>ssh::Session::connect_*\<close>) are calls that the dispatch returns as data; what they answer,
  what the user types and the random ids are parameters.
\<close>

section \<open>Credentials\<close>

datatype ConnectAuthRef =
    RefPassword string
  | RefPubkey string "string option"
  | RefPubkeyCert string string "string option"
  | RefPubkeySk string bytes string "string option"
  | RefPubkeySkCert string bytes string string "string option"
  | RefPubkeyPkcs11 string string string bytes string "string option"
  | RefPubkeyEnclave string bytes
  | RefPubkeyHello string string string
  | RefPubkeyTpm string string "bytes option" "string option" string "string option"
  | RefPubkeyKeystore string string string
  | RefAgent

record ConnectArgs =
  ca_label :: string
  ca_session_id :: "string option"
  ca_host :: string
  ca_port :: "16 word"
  ca_user :: string
  ca_auth :: ConnectAuthRef
  ca_bastion_id :: "ConnId option"
  ca_internal :: bool

definition actor_init :: "ConnId \<Rightarrow> ConnectArgs \<Rightarrow> ConnectionActorInit" where
  "actor_init cid args =
     \<lparr> ai_id = cid, ai_label = ca_label args, ai_session_id = ca_session_id args,
       ai_bastion_id = ca_bastion_id args, ai_internal = ca_internal args, ai_host = ca_host args,
       ai_port = ca_port args, ai_user = ca_user args \<rparr>"

section \<open>Dispatch\<close>

datatype HardwareSigner = Sk | SkCert | Pkcs11 | Enclave | Hello | Tpm | Keystore

fun signer_label :: "HardwareSigner \<Rightarrow> string" where
  "signer_label Sk = ''FIDO2''"
| "signer_label SkCert = ''FIDO2 (with certificate)''"
| "signer_label Pkcs11 = ''PKCS#11''"
| "signer_label Enclave = ''Apple Secure Enclave''"
| "signer_label Hello = ''Windows Hello''"
| "signer_label Tpm = ''TPM 2.0''"
| "signer_label Keystore = ''Android Hardware Keystore''"

definition hardware_over_proxyjump_unsupported :: "HardwareSigner \<Rightarrow> Error" where
  "hardware_over_proxyjump_unsupported signer =
     EAuth (signer_label signer @ '' hardware key over ProxyJump is not supported yet'')"

text \<open>
  The call on \<open>ssh::Session\<close> that the dispatch ends in: the transport (direct, or through the
  parent session), the destination and the credential it is handed.
\<close>

record connect_call =
  cc_parent :: "session option"
  cc_host :: string
  cc_port :: "16 word"
  cc_user :: string
  cc_auth :: ConnectAuthRef

definition direct_or_reject_hardware ::
  "session option \<Rightarrow> HardwareSigner \<Rightarrow> connect_call \<Rightarrow> Error + connect_call" where
  "direct_or_reject_hardware bastion signer direct =
     (case bastion of None \<Rightarrow> Inr direct | Some _ \<Rightarrow> Inl (hardware_over_proxyjump_unsupported signer))"

definition dispatch_connect ::
  "string \<Rightarrow> 16 word \<Rightarrow> string \<Rightarrow> ConnectAuthRef \<Rightarrow> session option \<Rightarrow> Error + connect_call" where
  "dispatch_connect host port user au bastion =
     (let direct = \<lparr> cc_parent = None, cc_host = host, cc_port = port, cc_user = user, cc_auth = au \<rparr>;
          either = Inr (direct\<lparr> cc_parent := bastion \<rparr>)
      in case au of
           RefPassword _ \<Rightarrow> either
         | RefPubkey _ _ \<Rightarrow> either
         | RefPubkeyCert _ _ _ \<Rightarrow> either
         | RefPubkeySk _ _ _ _ \<Rightarrow> direct_or_reject_hardware bastion Sk direct
         | RefPubkeySkCert _ _ _ _ _ \<Rightarrow> direct_or_reject_hardware bastion SkCert direct
         | RefPubkeyPkcs11 _ _ _ _ _ _ \<Rightarrow> direct_or_reject_hardware bastion Pkcs11 direct
         | RefPubkeyEnclave _ _ \<Rightarrow> direct_or_reject_hardware bastion Enclave direct
         | RefPubkeyHello _ _ _ \<Rightarrow> direct_or_reject_hardware bastion Hello direct
         | RefPubkeyTpm _ _ _ _ _ _ \<Rightarrow> direct_or_reject_hardware bastion Tpm direct
         | RefPubkeyKeystore _ _ _ \<Rightarrow> direct_or_reject_hardware bastion Keystore direct
         | RefAgent \<Rightarrow> either)"

section \<open>Waiting for a ProxyJump parent\<close>

text \<open>
  What \<open>rx.recv()\<close> yields within \<open>PARENT_READY_TIMEOUT\<close>: an event, or an error (the
  receiver lagged or the bus closed), together with the registry at that moment.  When the list
  ends the thirty seconds are over.
\<close>

definition PARENT_READY_TIMEOUT :: nat where
  "PARENT_READY_TIMEOUT = 30"

datatype received = Got ConnEvent | RecvError RegistryInner

definition parent_error :: "ConnId \<Rightarrow> string \<Rightarrow> Error" where
  "parent_error pid what = ETransport (''ProxyJump parent '' @ [CHR 0x27] @ pid @ [CHR 0x27] @ what)"

definition state_of :: "ConnId \<Rightarrow> RegistryInner \<Rightarrow> ConnectionState option" where
  "state_of cid r = map_option (\<lambda>h. a_state (actor_at h r)) (registry_get cid r)"

fun parent_wait :: "ConnId \<Rightarrow> received list \<Rightarrow> Error + unit" where
  "parent_wait pid [] = Inl (parent_error pid ('' did not settle within '' @ dec PARENT_READY_TIMEOUT @ ''s''))"
| "parent_wait pid (Got (ConnectionStateChanged cid s) # rs) =
     (if cid = pid
      then (case s of
              Connected \<Rightarrow> Inr ()
            | Disconnected \<Rightarrow> Inl (parent_error pid '' failed to connect'')
            | Connecting \<Rightarrow> parent_wait pid rs)
      else parent_wait pid rs)"
| "parent_wait pid (Got _ # rs) = parent_wait pid rs"
| "parent_wait pid (RecvError r # rs) =
     (case state_of pid r of
        Some Connected \<Rightarrow> Inr ()
      | Some Disconnected \<Rightarrow> Inl (parent_error pid '' is disconnected'')
      | Some Connecting \<Rightarrow> parent_wait pid rs
      | None \<Rightarrow> Inl (parent_error pid '' missing during wait''))"

definition wait_for_parent_ready :: "ConnId \<Rightarrow> RegistryInner \<Rightarrow> received list \<Rightarrow> Error + unit" where
  "wait_for_parent_ready pid r rs =
     (case state_of pid r of
        None \<Rightarrow> Inl (parent_error pid '' missing'')
      | Some Connected \<Rightarrow> Inr ()
      | Some Disconnected \<Rightarrow> Inl (parent_error pid '' is disconnected'')
      | Some Connecting \<Rightarrow> parent_wait pid rs)"

fun state_debug :: "ConnectionState \<Rightarrow> string" where
  "state_debug Disconnected = ''Disconnected''"
| "state_debug Connecting = ''Connecting''"
| "state_debug Connected = ''Connected''"

text \<open>\<open>r\<close> is the registry when the wait starts, \<open>r'\<close> when it has ended.\<close>

definition resolve_bastion_session ::
  "ConnId option \<Rightarrow> RegistryInner \<Rightarrow> received list \<Rightarrow> RegistryInner \<Rightarrow> Error + session option" where
  "resolve_bastion_session bastion r rs r' =
     (case bastion of
        None \<Rightarrow> Inr None
      | Some pid \<Rightarrow>
          (case wait_for_parent_ready pid r rs of
             Inl err \<Rightarrow> Inl err
           | Inr _ \<Rightarrow>
               (case registry_get pid r' of
                  None \<Rightarrow> Inl (parent_error pid '' missing'')
                | Some h \<Rightarrow>
                    if a_state (actor_at h r') \<noteq> Connected
                    then Inl (parent_error pid ('' not yet connected (state '' @
                                state_debug (a_state (actor_at h r')) @ '')''))
                    else (case clone_session (actor_at h r') of
                            None \<Rightarrow> Inl (parent_error pid '' has no live session'')
                          | Some s \<Rightarrow> Inr (Some s)))))"

definition run_auth ::
  "(connect_call \<Rightarrow> Error + session) \<Rightarrow> RegistryInner \<Rightarrow> received list \<Rightarrow> RegistryInner \<Rightarrow>
   ConnectArgs \<Rightarrow> Error + session" where
  "run_auth connect r rs r' args =
     (case resolve_bastion_session (ca_bastion_id args) r rs r' of
        Inl err \<Rightarrow> Inl err
      | Inr bastion \<Rightarrow>
          (case dispatch_connect (ca_host args) (ca_port args) (ca_user args) (ca_auth args) bastion of
             Inl err \<Rightarrow> Inl err
           | Inr call \<Rightarrow> connect call))"

section \<open>Credential prompts\<close>

datatype CredentialPromptKind = PromptPassword | PromptPassphrase

fun wire_name :: "CredentialPromptKind \<Rightarrow> string" where
  "wire_name PromptPassword = ''password''"
| "wire_name PromptPassphrase = ''passphrase''"

definition from_wire_name :: "string \<Rightarrow> CredentialPromptKind option" where
  "from_wire_name s =
     (if s = ''password'' then Some PromptPassword
      else if s = ''passphrase'' then Some PromptPassphrase else None)"

datatype CredentialResponse = Submit bytes bool | Dismiss

text \<open>How a wait for the user ends: an answer, the registry dropped the sender, or 300 seconds passed.\<close>

datatype prompt_end = Reply CredentialResponse | Dropped | Elapsed

record auth_app =
  ap_secrets :: SecretStore
  ap_prompts :: "CredentialResponse registry"
  ap_requests :: "(string \<times> string \<times> string) list"
  ap_rand :: nat
  ap_tried :: "(ConnectArgs \<times> SecretStore) list"

text \<open>
  \<open>ax_uuid\<close> is the random source, \<open>ax_end\<close> the end of the n-th prompt, \<open>ax_auth\<close> the
  outcome of the n-th call of \<open>run_auth\<close>, \<open>ax_grant\<close> whether a page lock is granted.
  \<open>ap_tried\<close> records the arguments and the secrets of each call of \<open>run_auth\<close>.
\<close>

record auth_ext =
  ax_uuid :: "nat \<Rightarrow> string"
  ax_end :: "nat \<Rightarrow> prompt_end"
  ax_auth :: "nat \<Rightarrow> ConnectArgs \<Rightarrow> SecretStore \<Rightarrow> Error + session"
  ax_grant :: "nat \<Rightarrow> bool"

definition prompt_credential ::
  "auth_ext \<Rightarrow> string \<Rightarrow> CredentialPromptKind \<Rightarrow> auth_app \<Rightarrow> bytes option \<times> auth_app" where
  "prompt_credential x sid kind app =
     (let prompt_id = ax_uuid x (ap_rand app);
          (rx, reg) = pg_register prompt_id (ap_prompts app);
          n = length (ap_requests app);
          app' = app\<lparr> ap_rand := Suc (ap_rand app),
                      ap_requests := ap_requests app @ [(prompt_id, sid, wire_name kind)] \<rparr>
      in case ax_end x n of
           Reply (Submit sec remember) \<Rightarrow>
             (Some sec, app'\<lparr> ap_prompts := snd (pg_resolve prompt_id (Submit sec remember) reg) \<rparr>)
         | Reply Dismiss \<Rightarrow> (None, app'\<lparr> ap_prompts := snd (pg_resolve prompt_id Dismiss reg) \<rparr>)
         | Dropped \<Rightarrow> (None, app'\<lparr> ap_prompts := pg_cancel prompt_id reg \<rparr>)
         | Elapsed \<Rightarrow> (None, app'\<lparr> ap_prompts := pg_abandon rx reg \<rparr>))"

definition MAX_CREDENTIAL_PROMPTS :: nat where
  "MAX_CREDENTIAL_PROMPTS = 3"

text \<open>\<open>None\<close> is the \<open>unreachable!\<close> of the source.\<close>

definition with_slot :: "string \<Rightarrow> string option \<Rightarrow> string" where
  "with_slot fresh slot = (case slot of None \<Rightarrow> ''conn.passphrase.'' @ fresh | Some s \<Rightarrow> s)"

fun ensure_passphrase_slot :: "string \<Rightarrow> ConnectAuthRef \<Rightarrow> (string \<times> ConnectAuthRef) option" where
  "ensure_passphrase_slot fresh (RefPubkey k slot) =
     Some (with_slot fresh slot, RefPubkey k (Some (with_slot fresh slot)))"
| "ensure_passphrase_slot fresh (RefPubkeyCert k c slot) =
     Some (with_slot fresh slot, RefPubkeyCert k c (Some (with_slot fresh slot)))"
| "ensure_passphrase_slot fresh _ = None"

fun is_pubkey :: "ConnectAuthRef \<Rightarrow> bool" where
  "is_pubkey (RefPubkey _ _) = True"
| "is_pubkey (RefPubkeyCert _ _ _) = True"
| "is_pubkey _ = False"

definition recoverable :: "Error \<Rightarrow> ConnectArgs \<Rightarrow> bool" where
  "recoverable err args \<longleftrightarrow>
     (err = EPassphraseRequired \<or> err = EPassphraseIncorrect) \<and> is_pubkey (ca_auth args)"

definition try_auth :: "auth_ext \<Rightarrow> ConnectArgs \<Rightarrow> auth_app \<Rightarrow> (Error + session) \<times> auth_app" where
  "try_auth x args app =
     (ax_auth x (length (ap_tried app)) args (ap_secrets app),
      app\<lparr> ap_tried := ap_tried app @ [(args, ap_secrets app)] \<rparr>)"

text \<open>
  The loop, with the panic of \<open>ensure_passphrase_slot\<close> as the outer \<open>None\<close>.  The random id
  is drawn only when a slot has to be minted.
\<close>

function auth_loop ::
  "auth_ext \<Rightarrow> string \<Rightarrow> nat \<Rightarrow> ConnectArgs \<Rightarrow> auth_app \<Rightarrow> ((Error + session) \<times> auth_app) option" where
  "auth_loop x sid attempts args app =
     (case try_auth x args app of
        (Inr session, app1) \<Rightarrow> Some (Inr session, app1)
      | (Inl err, app1) \<Rightarrow>
          if \<not> recoverable err args \<or> MAX_CREDENTIAL_PROMPTS \<le> attempts then Some (Inl err, app1)
          else (case prompt_credential x sid PromptPassphrase app1 of
                  (None, app2) \<Rightarrow> Some (Inl err, app2)
                | (Some sec, app2) \<Rightarrow>
                    (case ensure_passphrase_slot (ax_uuid x (ap_rand app2)) (ca_auth args) of
                       None \<Rightarrow> None
                     | Some (slot, auth') \<Rightarrow>
                         auth_loop x sid (Suc attempts) (args\<lparr> ca_auth := auth' \<rparr>)
                           (app2\<lparr> ap_secrets := secret_put (ax_grant x) slot sec (ap_secrets app2),
                                  ap_rand := (if auth' = ca_auth args then ap_rand app2 else Suc (ap_rand app2)) \<rparr>))))"
  by pat_completeness auto
termination
  by (relation "measure (\<lambda>(x, sid, attempts, args, app). MAX_CREDENTIAL_PROMPTS - attempts)") auto

declare auth_loop.simps [simp del]

definition run_auth_with_credential_prompts ::
  "auth_ext \<Rightarrow> ConnId \<Rightarrow> ConnectArgs \<Rightarrow> auth_app \<Rightarrow> ((Error + session) \<times> auth_app) option" where
  "run_auth_with_credential_prompts x cid args app =
     (let sid = (case ca_session_id args of Some s \<Rightarrow> s | None \<Rightarrow> cid)
      in case ca_auth args of
           RefPassword secret_id \<Rightarrow>
             if (case secret_get secret_id (ap_secrets app) of Some b \<Rightarrow> b = [] | None \<Rightarrow> True)
             then (case prompt_credential x sid PromptPassword app of
                     (Some sec, app') \<Rightarrow>
                       auth_loop x sid 0 args
                         (app'\<lparr> ap_secrets := secret_put (ax_grant x) secret_id sec (ap_secrets app') \<rparr>)
                   | (None, app') \<Rightarrow> auth_loop x sid 0 args app')
             else auth_loop x sid 0 args app
         | _ \<Rightarrow> auth_loop x sid 0 args app)"

section \<open>The connect timeout\<close>

text \<open>
  One turn of the polling loop: the clock in milliseconds, whether a prompt is pending, and the
  output of the future if it completes before the next tick.
\<close>

type_synonym 'a tick = "nat \<times> bool \<times> 'a option"

datatype 'a timed = StillWaiting | Finished 'a | TimedOut

fun pause_loop :: "nat \<Rightarrow> nat \<Rightarrow> nat \<Rightarrow> nat \<Rightarrow> 'a tick list \<Rightarrow> 'a timed" where
  "pause_loop cap started paused last_tick [] = StillWaiting"
| "pause_loop cap started paused last_tick ((now, paused_now, fut) # ts) =
     (let paused' = (if paused_now then paused + (now - last_tick) else paused);
          elapsed_net = (now - started) - paused'
      in if cap \<le> elapsed_net \<and> \<not> paused_now then TimedOut
         else (case fut of
                 Some r \<Rightarrow> Finished r
               | None \<Rightarrow> pause_loop cap started paused' now ts))"

definition run_with_pause_aware_timeout :: "nat \<Rightarrow> nat \<Rightarrow> 'a tick list \<Rightarrow> 'a timed" where
  "run_with_pause_aware_timeout cap started ts = pause_loop cap started 0 started ts"

definition ssh_timeout_secs :: "json_lib \<Rightarrow> string option \<Rightarrow> nat" where
  "ssh_timeout_secs J stored =
     (case Option.bind (Option.bind stored (json_parse J)) (\<lambda>v. Option.bind (as_object v) (field as_i64 ''ssh_timeout_sec'')) of
        Some s \<Rightarrow> if 0 < s then nat s else 30
      | None \<Rightarrow> 30)"

section \<open>Properties\<close>

subsection \<open>Dispatch\<close>

text \<open>
  A child connect never reaches a hardware signer through a bastion, and otherwise hands the
  credential and destination through unchanged, over the parent's session exactly when there is
  one.
\<close>

lemma dispatch_connect_cases:
  "dispatch_connect host port user au bastion = Inr call \<Longrightarrow>
     call = \<lparr> cc_parent = bastion, cc_host = host, cc_port = port, cc_user = user, cc_auth = au \<rparr>"
  by (cases au) (auto simp: dispatch_connect_def direct_or_reject_hardware_def Let_def split: option.splits)

subsection \<open>Waiting for the parent\<close>

definition parent_event :: "ConnId \<Rightarrow> received \<Rightarrow> bool" where
  "parent_event pid rec \<longleftrightarrow> (\<exists>s. rec = Got (ConnectionStateChanged pid s) \<and> s \<noteq> Connecting)"

text \<open>Without lag, the wait ends with the first closing event of the parent.\<close>

lemma parent_wait_first_event:
  assumes "\<forall>rec \<in> set pre. \<exists>ev. rec = Got ev \<and> (\<forall>s. ev = ConnectionStateChanged pid s \<longrightarrow> s = Connecting)"
    and "s \<noteq> Connecting"
  shows "parent_wait pid (pre @ Got (ConnectionStateChanged pid s) # post) =
    (if s = Connected then Inr () else Inl (parent_error pid '' failed to connect''))"
  using assms
proof (induction pre)
  case Nil
  then show ?case by (cases s) auto
next
  case (Cons rec pre)
  then obtain ev where "rec = Got ev" "\<forall>s. ev = ConnectionStateChanged pid s \<longrightarrow> s = Connecting" by auto
  with Cons show ?case by (cases ev) auto
qed

lemma resolve_bastion_live:
  "resolve_bastion_session (Some pid) r rs r' = Inr b \<Longrightarrow> b = connected_session pid r' \<and> b \<noteq> None"
  by (auto simp: resolve_bastion_session_def connected_session_def clone_session_def
      split: sum.splits option.splits if_splits dest: sym)

subsection \<open>Credential prompts\<close>

lemma prompt_requests:
  "length (ap_requests (snd (prompt_credential x sid kind app))) = Suc (length (ap_requests app))"
  "ap_secrets (snd (prompt_credential x sid kind app)) = ap_secrets app"
  "ap_tried (snd (prompt_credential x sid kind app)) = ap_tried app"
  by (auto simp: prompt_credential_def Let_def case_prod_beta split: prompt_end.split CredentialResponse.split)

lemma prompt_answer:
  "fst (prompt_credential x sid kind app) = Some sec \<longleftrightarrow>
     (\<exists>b. ax_end x (length (ap_requests app)) = Reply (Submit sec b))"
  by (auto simp: prompt_credential_def Let_def case_prod_beta split: prompt_end.split CredentialResponse.split)

lemma secret_get_put [simp]: "secret_get k (secret_put grant k v st) = Some v"
  by (simp add: secret_get_def secret_put_def Let_def)

lemma ensure_slot_pubkey:
  assumes "is_pubkey au"
  shows "\<exists>slot au'. ensure_passphrase_slot fresh au = Some (slot, au') \<and> is_pubkey au'"
  using assms by (cases au) auto

text \<open>What holds of the record of calls after the loop, from the state in which it starts.\<close>

lemma try_auth_fields [simp]:
  "ap_tried (snd (try_auth x args app)) = ap_tried app @ [(args, ap_secrets app)]"
  "ap_requests (snd (try_auth x args app)) = ap_requests app"
  "ap_secrets (snd (try_auth x args app)) = ap_secrets app"
  "fst (try_auth x args app) = ax_auth x (length (ap_tried app)) args (ap_secrets app)"
  by (simp_all add: try_auth_def)

definition after_prompt ::
  "auth_ext \<Rightarrow> ConnectArgs \<Rightarrow> bytes \<Rightarrow> string \<Rightarrow> ConnectAuthRef \<Rightarrow> auth_app \<Rightarrow> auth_app" where
  "after_prompt x args sec slot auth' app2 =
     app2\<lparr> ap_secrets := secret_put (ax_grant x) slot sec (ap_secrets app2),
           ap_rand := (if auth' = ca_auth args then ap_rand app2 else Suc (ap_rand app2)) \<rparr>"

lemma after_prompt_fields [simp]:
  "ap_tried (after_prompt x args sec slot auth' app2) = ap_tried app2"
  "ap_requests (after_prompt x args sec slot auth' app2) = ap_requests app2"
  "ap_secrets (after_prompt x args sec slot auth' app2) = secret_put (ax_grant x) slot sec (ap_secrets app2)"
  by (simp_all add: after_prompt_def)

text \<open>The three ways a turn of the loop goes: it succeeds, it gives up, or it retries.\<close>

lemma auth_loop_cases:
  fixes x sid attempts args app
  defines "tr \<equiv> try_auth x args app"
  defines "p \<equiv> prompt_credential x sid PromptPassphrase (snd tr)"
  obtains (ends) app' where "auth_loop x sid attempts args app = Some (fst tr, app')"
      "ap_tried app' = ap_tried (snd tr)"
      "ap_requests app' = ap_requests app \<or>
       is_pubkey (ca_auth args) \<and> attempts < MAX_CREDENTIAL_PROMPTS \<and>
       length (ap_requests app') = Suc (length (ap_requests app))"
    | (retries) sec slot auth' where "attempts < MAX_CREDENTIAL_PROMPTS" "fst p = Some sec"
      "ensure_passphrase_slot (ax_uuid x (ap_rand (snd p))) (ca_auth args) = Some (slot, auth')"
      "is_pubkey (ca_auth args)"
      "auth_loop x sid attempts args app =
         auth_loop x sid (Suc attempts) (args\<lparr> ca_auth := auth' \<rparr>) (after_prompt x args sec slot auth' (snd p))"
proof (cases "fst tr")
  case (Inr s)
  then have "auth_loop x sid attempts args app = Some (fst tr, snd tr)"
    by (subst auth_loop.simps) (simp add: tr_def prod_eq_iff case_prod_beta)
  then show ?thesis by (rule ends) (simp_all add: tr_def)
next
  case (Inl err)
  show ?thesis
  proof (cases "recoverable err args \<and> attempts < MAX_CREDENTIAL_PROMPTS")
    case False
    with Inl have "auth_loop x sid attempts args app = Some (fst tr, snd tr)"
      by (subst auth_loop.simps) (auto simp: tr_def case_prod_beta)
    then show ?thesis by (rule ends) (simp_all add: tr_def)
  next
    case rec: True
    show ?thesis
    proof (cases "fst p")
      case None
      with Inl rec have "auth_loop x sid attempts args app = Some (fst tr, snd p)"
        by (subst auth_loop.simps) (simp add: tr_def p_def case_prod_beta)
      then show ?thesis
        by (rule ends) (use rec in \<open>simp_all add: tr_def p_def prompt_requests recoverable_def\<close>)
    next
      case (Some sec)
      obtain slot au' where slot:
        "ensure_passphrase_slot (ax_uuid x (ap_rand (snd p))) (ca_auth args) = Some (slot, au')"
        using ensure_slot_pubkey [of "ca_auth args" "ax_uuid x (ap_rand (snd p))"] rec by (auto simp: recoverable_def)
      have "auth_loop x sid attempts args app =
         auth_loop x sid (Suc attempts) (args\<lparr> ca_auth := au' \<rparr>) (after_prompt x args sec slot au' (snd p))"
        using Inl rec Some slot
        by (subst auth_loop.simps) (simp add: tr_def p_def case_prod_beta after_prompt_def)
      with rec Some slot show ?thesis by (intro retries) (auto simp: recoverable_def)
    qed
  qed
qed

lemma auth_loop_bounds:
  assumes "attempts \<le> MAX_CREDENTIAL_PROMPTS"
  shows "\<exists>res app'. auth_loop x sid attempts args app = Some (res, app') \<and>
     length (ap_tried app') \<le> length (ap_tried app) + (4 - attempts) \<and>
     length (ap_requests app') \<le> length (ap_requests app) + (3 - attempts) \<and>
     length (ap_tried app) < length (ap_tried app') \<and>
     res = (let (a, st) = last (ap_tried app') in ax_auth x (length (ap_tried app') - 1) a st)"
  using assms
proof (induction "MAX_CREDENTIAL_PROMPTS - attempts" arbitrary: attempts args app rule: less_induct)
  case less
  show ?case
  proof (cases rule: auth_loop_cases [where x = x and sid = sid and attempts = attempts and args = args and app = app])
    case (ends app')
    with less.prems show ?thesis by (auto simp: MAX_CREDENTIAL_PROMPTS_def)
  next
    case (retries sec slot auth')
    let ?p = "prompt_credential x sid PromptPassphrase (snd (try_auth x args app))"
    have "MAX_CREDENTIAL_PROMPTS - Suc attempts < MAX_CREDENTIAL_PROMPTS - attempts"
      "Suc attempts \<le> MAX_CREDENTIAL_PROMPTS"
      using retries(1) by auto
    from less.hyps [OF this, of "args\<lparr> ca_auth := auth' \<rparr>" "after_prompt x args sec slot auth' (snd ?p)"]
    show ?thesis using retries(1)
      by (auto simp: retries(5) prompt_requests MAX_CREDENTIAL_PROMPTS_def)
  qed
qed

lemma auth_loop_password:
  assumes "\<not> is_pubkey (ca_auth args)"
  shows "\<exists>app'. auth_loop x sid n args app = Some (fst (try_auth x args app), app') \<and>
     ap_tried app' = ap_tried app @ [(args, ap_secrets app)] \<and> ap_requests app' = ap_requests app"
  using assms
  by (cases rule: auth_loop_cases [where x = x and sid = sid and attempts = n and args = args and app = app]) auto

text \<open>
  The retry loop around \<open>run_auth\<close> always returns, without reaching its \<open>unreachable!\<close>: it
  asks the user at most three times and calls \<open>run_auth\<close> between once and four times, and its
  result is the outcome of the last call.
\<close>

theorem credential_prompts_bounded:
  "\<exists>res app'. run_auth_with_credential_prompts x cid args app = Some (res, app') \<and>
     length (ap_requests app') \<le> length (ap_requests app) + 3 \<and>
     length (ap_tried app) < length (ap_tried app') \<and>
     length (ap_tried app') \<le> length (ap_tried app) + 4 \<and>
     res = (let (a, st) = last (ap_tried app') in ax_auth x (length (ap_tried app') - 1) a st)"
proof -
  have loop: ?thesis if "run_auth_with_credential_prompts x cid args app = auth_loop x sid 0 args app" for sid
    using auth_loop_bounds [of 0 x sid args app] unfolding that by auto
  show ?thesis
  proof (cases "ca_auth args")
    case (RefPassword k)
    have one: "\<exists>app'. auth_loop x sid 0 args b = Some (fst (try_auth x args b), app') \<and>
       ap_tried app' = ap_tried b @ [(args, ap_secrets b)] \<and> ap_requests app' = ap_requests b" for sid b
      using auth_loop_password [of args x sid 0 b] RefPassword by simp
    define sid where "sid = (case ca_session_id args of Some s \<Rightarrow> s | None \<Rightarrow> cid)"
    let ?p = "prompt_credential x sid PromptPassword app"
    define ask where "ask \<longleftrightarrow> (case secret_get k (ap_secrets app) of Some b \<Rightarrow> b = [] | None \<Rightarrow> True)"
    have unf: "run_auth_with_credential_prompts x cid args app =
       (if ask
        then (case fst ?p of
                Some sec \<Rightarrow> auth_loop x sid 0 args
                  ((snd ?p)\<lparr> ap_secrets := secret_put (ax_grant x) k sec (ap_secrets (snd ?p)) \<rparr>)
              | None \<Rightarrow> auth_loop x sid 0 args (snd ?p))
        else auth_loop x sid 0 args app)"
      using RefPassword
      by (simp add: run_auth_with_credential_prompts_def Let_def sid_def [symmetric] ask_def case_prod_beta)
    show ?thesis
    proof (cases "fst ?p")
      case (Some sec)
      with one [of sid "(snd ?p)\<lparr> ap_secrets := secret_put (ax_grant x) k sec (ap_secrets (snd ?p)) \<rparr>"]
      show ?thesis using one [of sid app] by (cases ask) (auto simp: unf prompt_requests)
    next
      case None
      with one [of sid "snd ?p"] show ?thesis
        using one [of sid app] by (cases ask) (auto simp: unf prompt_requests)
    qed
  qed (rule loop, simp add: run_auth_with_credential_prompts_def Let_def)+
qed

text \<open>What the n-th prompt's answer, the arguments and the store of the next call have to agree on.\<close>

fun passphrase_slot :: "ConnectAuthRef \<Rightarrow> string option" where
  "passphrase_slot (RefPubkey _ slot) = slot"
| "passphrase_slot (RefPubkeyCert _ _ slot) = slot"
| "passphrase_slot _ = None"

definition uses_answer :: "prompt_end \<Rightarrow> ConnectArgs \<times> SecretStore \<Rightarrow> bool" where
  "uses_answer ans call \<longleftrightarrow>
     (case ans of
        Reply (Submit sec _) \<Rightarrow>
          (case passphrase_slot (ca_auth (fst call)) of
             Some slot \<Rightarrow> secret_get slot (snd call) = Some sec
           | None \<Rightarrow> False)
      | _ \<Rightarrow> False)"

lemma passphrase_slot_ensure:
  "ensure_passphrase_slot fresh au = Some (slot, au') \<Longrightarrow> passphrase_slot au' = Some slot"
  by (cases au) auto

lemma auth_loop_tried:
  assumes "length (ap_requests app) = length (ap_tried app)"
    and "auth_loop x sid attempts args app = Some (res, app')"
  shows "\<exists>more. ap_tried app' = ap_tried app @ (args, ap_secrets app) # more \<and>
    (\<forall>k < length more. uses_answer (ax_end x (length (ap_tried app) + k)) (more ! k))"
  using assms
proof (induction "MAX_CREDENTIAL_PROMPTS - attempts" arbitrary: attempts args app rule: less_induct)
  case less
  show ?case
  proof (cases rule: auth_loop_cases [where x = x and sid = sid and attempts = attempts and args = args and app = app])
    case (ends app1)
    with less.prems(2) show ?thesis by auto
  next
    case (retries sec slot auth')
    let ?p = "prompt_credential x sid PromptPassphrase (snd (try_auth x args app))"
    let ?app = "after_prompt x args sec slot auth' (snd ?p)"
    have "MAX_CREDENTIAL_PROMPTS - Suc attempts < MAX_CREDENTIAL_PROMPTS - attempts"
      using retries(1) by auto
    from less.hyps [OF this, of ?app "args\<lparr> ca_auth := auth' \<rparr>"] less.prems retries(5)
    obtain more where more:
      "ap_tried app' = (ap_tried app @ [(args, ap_secrets app)]) @ (args\<lparr> ca_auth := auth' \<rparr>, ap_secrets ?app) # more"
      "\<forall>k < length more. uses_answer (ax_end x (Suc (length (ap_tried app)) + k)) (more ! k)"
      by (auto simp: prompt_requests)
    obtain b where "ax_end x (length (ap_tried app)) = Reply (Submit sec b)"
      using retries(2) less.prems(1) by (auto simp: prompt_answer)
    then have "uses_answer (ax_end x (length (ap_tried app))) (args\<lparr> ca_auth := auth' \<rparr>, ap_secrets ?app)"
      using passphrase_slot_ensure [OF retries(3)] by (simp add: uses_answer_def)
    with more show ?thesis
      by (intro exI [of _ "(args\<lparr> ca_auth := auth' \<rparr>, ap_secrets ?app) # more"])
         (auto simp: nth_Cons split: nat.split)
  qed
qed

text \<open>
  Each retry of a public-key connect dispatches with a passphrase slot whose stored secret is the
  passphrase the user typed into the prompt before it.
\<close>

theorem retry_uses_typed_passphrase:
  assumes "is_pubkey (ca_auth args)" and "ap_tried app = []" and "ap_requests app = []"
    and "run_auth_with_credential_prompts x cid args app = Some (res, app')"
    and "Suc k < length (ap_tried app')"
  shows "uses_answer (ax_end x k) (ap_tried app' ! Suc k)"
proof -
  obtain sid where "auth_loop x sid 0 args app = Some (res, app')"
    using assms(1,4) by (cases "ca_auth args") (auto simp: run_auth_with_credential_prompts_def Let_def)
  from auth_loop_tried [OF _ this] assms(2,3,5) show ?thesis by auto
qed

definition demo_args :: ConnectArgs where
  "demo_args = \<lparr> ca_label = ''l'', ca_session_id = None, ca_host = ''h'', ca_port = 22, ca_user = ''u'',
     ca_auth = RefPubkey ''k'' None, ca_bastion_id = None, ca_internal = False \<rparr>"

definition demo_app :: auth_app where
  "demo_app = \<lparr> ap_secrets = store_new, ap_prompts = pg_new, ap_requests = [], ap_rand = 0, ap_tried = [] \<rparr>"

definition demo_ext :: auth_ext where
  "demo_ext = \<lparr> ax_uuid = (\<lambda>n. replicate n CHR ''x''), ax_end = (\<lambda>n. Reply (Submit [1] False)),
     ax_auth = (\<lambda>n a st. if n < 2 then Inl EPassphraseIncorrect else Inr 7), ax_grant = (\<lambda>_. True) \<rparr>"

theorem retry_uses_typed_passphrase_witness:
  "uses_answer (ax_end demo_ext 1)
     (ap_tried (snd (the (run_auth_with_credential_prompts demo_ext ''c'' demo_args demo_app))) ! 2)"
proof -
  let ?r = "the (run_auth_with_credential_prompts demo_ext ''c'' demo_args demo_app)"
  have "is_pubkey (ca_auth demo_args)" "ap_tried demo_app = []" "ap_requests demo_app = []"
    by code_simp+
  moreover have "run_auth_with_credential_prompts demo_ext ''c'' demo_args demo_app = Some (fst ?r, snd ?r)"
    using credential_prompts_bounded [of demo_ext "''c''" demo_args demo_app] by auto
  moreover have "Suc 1 < length (ap_tried (snd ?r))" by code_simp
  ultimately have "uses_answer (ax_end demo_ext 1) (ap_tried (snd ?r) ! Suc 1)"
    by (rule retry_uses_typed_passphrase)
  then show ?thesis by (simp add: numeral_2_eq_2)
qed

subsection \<open>The connect timeout\<close>

text \<open>The time outside prompts: the slices between ticks at whose end no prompt was pending.\<close>

fun unpaused :: "nat \<Rightarrow> 'a tick list \<Rightarrow> nat" where
  "unpaused last_tick [] = 0"
| "unpaused last_tick ((now, paused_now, fut) # ts) =
     (if paused_now then 0 else now - last_tick) + unpaused now ts"

fun clock_from :: "nat \<Rightarrow> 'a tick list \<Rightarrow> bool" where
  "clock_from last_tick [] = True"
| "clock_from last_tick ((now, paused_now, fut) # ts) = (last_tick \<le> now \<and> clock_from now ts)"

definition expires_at :: "nat \<Rightarrow> nat \<Rightarrow> nat \<Rightarrow> 'a tick list \<Rightarrow> nat \<Rightarrow> bool" where
  "expires_at cap net last_tick ts n \<longleftrightarrow>
     n < length ts \<and> cap \<le> net + unpaused last_tick (take (Suc n) ts) \<and> \<not> fst (snd (ts ! n)) \<and>
     (\<forall>m < n. snd (snd (ts ! m)) = None)"

lemma expires_at_Cons:
  "(\<exists>n. expires_at cap net l ((now, p, fut) # ts) n) \<longleftrightarrow>
     (cap \<le> net + (now - l) \<and> \<not> p) \<or>
     (fut = None \<and> (\<exists>n. expires_at cap (net + (if p then 0 else now - l)) now ts n))"
  (is "?l \<longleftrightarrow> ?r")
proof
  assume ?l
  then obtain n where "expires_at cap net l ((now, p, fut) # ts) n" ..
  then show ?r by (cases n) (auto simp: expires_at_def add.assoc All_less_Suc2)
next
  assume ?r
  then show ?l
  proof
    assume "cap \<le> net + (now - l) \<and> \<not> p"
    then show ?l by (intro exI [of _ 0]) (simp add: expires_at_def)
  next
    assume "fut = None \<and> (\<exists>n. expires_at cap (net + (if p then 0 else now - l)) now ts n)"
    then obtain n where "fut = None" "expires_at cap (net + (if p then 0 else now - l)) now ts n" by blast
    then show ?l by (intro exI [of _ "Suc n"]) (auto simp: expires_at_def add.assoc All_less_Suc2)
  qed
qed

lemma pause_loop_timeout:
  assumes "clock_from l ts" and "started + paused \<le> l"
  shows "pause_loop cap started paused l ts = TimedOut \<longleftrightarrow> (\<exists>n. expires_at cap (l - started - paused) l ts n)"
  using assms
proof (induction ts arbitrary: l paused)
  case Nil
  then show ?case by (simp add: expires_at_def)
next
  case (Cons t ts)
  obtain now p fut where t: "t = (now, p, fut)" by (cases t)
  let ?paused = "if p then paused + (now - l) else paused"
  have "started + ?paused \<le> now" "clock_from now ts" "l \<le> now" using Cons.prems t by auto
  note IH = Cons.IH [OF this(2,1)]
  have net: "now - started - ?paused = (l - started - paused) + (if p then 0 else now - l)"
    using Cons.prems t by auto
  show ?case
    unfolding t expires_at_Cons
    using IH net by (cases fut) (auto simp: Let_def split: if_splits)
qed

text \<open>
  C40. The connect timeout fires exactly when the time spent outside prompts reaches the cap: at the
  first tick without a pending prompt by which the unpaused slices add up to the cap, provided the
  handshake has not completed before it.
\<close>

theorem timeout_counts_unpaused_time:
  assumes "clock_from started ts"
  shows "run_with_pause_aware_timeout cap started ts = TimedOut \<longleftrightarrow>
    (\<exists>n < length ts. cap \<le> unpaused started (take (Suc n) ts) \<and> \<not> fst (snd (ts ! n)) \<and>
       (\<forall>m < n. snd (snd (ts ! m)) = None))"
  using pause_loop_timeout [OF assms, of started 0 cap]
  by (simp add: run_with_pause_aware_timeout_def expires_at_def)

definition demo_ticks :: "nat tick list" where
  "demo_ticks = [(0, False, None), (250, True, None), (900, True, None), (1400, False, None), (2000, False, None)]"

theorem timeout_counts_unpaused_time_witness:
  "run_with_pause_aware_timeout 1000 0 demo_ticks = TimedOut"
proof -
  have "clock_from 0 demo_ticks" by code_simp
  moreover have "4 < length demo_ticks" "1000 \<le> unpaused 0 (take (Suc 4) demo_ticks)"
    "\<not> fst (snd (demo_ticks ! 4))" "\<forall>m < 4. snd (snd (demo_ticks ! m)) = None"
    by code_simp+
  ultimately show ?thesis using timeout_counts_unpaused_time by blast
qed

lemma paused_never_expires:
  assumes "\<forall>t \<in> set ts. fst (snd t) \<and> snd (snd t) = None"
  shows "pause_loop cap started paused l ts = StillWaiting"
  using assms by (induction ts arbitrary: paused l) (auto simp: Let_def)

text \<open>
  A prompt nobody answers keeps the connect timeout of every later attempt suspended: when the 300
  seconds of \<open>prompt_credential\<close> pass, the entry stays in the registry, so \<open>pending_count\<close>
  stays positive, and while it does the polling loop does not time out however long the handshake
  hangs.
\<close>

theorem unanswered_prompt_suspends_timeout:
  assumes "ax_end x (length (ap_requests app)) = Elapsed"
    and "\<forall>(now, paused_now, fut) \<in> set ts.
       paused_now = (0 < pg_pending_count (ap_prompts (snd (prompt_credential x sid kind app)))) \<and> fut = None"
  shows "run_with_pause_aware_timeout cap started ts = StillWaiting"
proof -
  have "0 < pg_pending_count (ap_prompts (snd (prompt_credential x sid kind app)))"
    using assms(1) by (simp add: prompt_credential_def Let_def case_prod_beta abandon_keeps_pending pending_register)
  with assms(2) have "\<forall>t \<in> set ts. fst (snd t) \<and> snd (snd t) = None" by auto
  then show ?thesis by (simp add: run_with_pause_aware_timeout_def paused_never_expires)
qed

theorem unanswered_prompt_suspends_timeout_witness:
  "run_with_pause_aware_timeout 30000 0 [(0, True, None :: nat option), (900000, True, None)] = StillWaiting"
  by (rule unanswered_prompt_suspends_timeout
        [of "demo_ext\<lparr> ax_end := \<lambda>_. Elapsed \<rparr>" demo_app _ "''s''" PromptPassword])
     (simp_all, code_simp)

subsection \<open>Bastions\<close>

text \<open>
  A connect through a bastion reaches the network only over the session that the parent's row holds
  while it is \<open>Connected\<close>, and never with a hardware key; every other case is an error of its own.
\<close>

theorem bastion_needs_live_parent:
  assumes "ca_bastion_id args = Some pid"
    and "run_auth connect r rs r' args = Inr s"
  shows "\<exists>parent. connected_session pid r' = Some parent
    \<and> (is_pubkey (ca_auth args) \<or> ca_auth args = RefAgent \<or> (\<exists>k. ca_auth args = RefPassword k))
    \<and> connect \<lparr> cc_parent = Some parent, cc_host = ca_host args, cc_port = ca_port args,
          cc_user = ca_user args, cc_auth = ca_auth args \<rparr> = Inr s"
proof -
  obtain b where b: "resolve_bastion_session (Some pid) r rs r' = Inr b"
    using assms by (auto simp: run_auth_def split: sum.splits)
  then obtain parent where p: "b = Some parent" "connected_session pid r' = Some parent"
    using resolve_bastion_live [OF b] by auto
  then show ?thesis
    using assms b
    by (cases "ca_auth args")
       (auto simp: run_auth_def dispatch_connect_def direct_or_reject_hardware_def Let_def)
qed

definition demo_registry :: RegistryInner where
  "demo_registry =
     snd (registry_insert ((actor_new (actor_init ''jump'' demo_args))\<lparr> a_state := Connected, a_session := Some 3 \<rparr>)
       registry_new)"

theorem bastion_needs_live_parent_witness:
  "\<exists>parent. connected_session ''jump'' demo_registry = Some parent"
proof -
  have "ca_bastion_id (demo_args\<lparr> ca_bastion_id := Some ''jump'' \<rparr>) = Some ''jump''" by simp
  moreover have "run_auth (\<lambda>call. Inr 9) demo_registry [] demo_registry (demo_args\<lparr> ca_bastion_id := Some ''jump'' \<rparr>) = Inr 9"
    by code_simp
  ultimately show ?thesis
    using bastion_needs_live_parent [of "demo_args\<lparr> ca_bastion_id := Some ''jump'' \<rparr>" "''jump''" "\<lambda>call. Inr 9"
        demo_registry "[]" demo_registry 9] by blast
qed

end
