(* ===== verification/Support_Files.thy ===== *)
theory Support_Files
  imports Interfaces
begin

text \<open>
  The file helpers of \<open>path.rs\<close> that every secret-bearing artefact goes through: the
  symlink-safe read, the directory creation and the atomic write by temporary file and rename.  The
  disk is a finite map from paths to contents.  Which system calls fail, and with which message, is
  the parameter \<open>io_fault\<close>; \<open>io_partial\<close> is how many bytes a failing write leaves in
  the temporary file, and the random suffix of that file is an argument.  Permissions and symbolic
  links are not part of the disk: a refused open is one of the faults.
\<close>

section \<open>Definitions\<close>

datatype fs_op =
    FsMkdir string | FsCreate string | FsFill string | FsSync string | FsRename string
  | FsRead string | FsRemove string

record io_env =
  io_fault :: "fs_op \<Rightarrow> string option"
  io_partial :: nat

type_synonym files = "(string, bytes) hmap"

datatype io_error = IoNotFound | IoOther string

definition join_path :: "string \<Rightarrow> string \<Rightarrow> string" where
  "join_path dir name = (if dir = [] \<or> last dir = CHR ''/'' then dir @ name else dir @ ''/'' @ name)"

definition file_exists :: "files \<Rightarrow> string \<Rightarrow> bool" where
  "file_exists d p \<longleftrightarrow> hget d p \<noteq> None"

definition read_bytes_secure :: "io_env \<Rightarrow> files \<Rightarrow> string \<Rightarrow> io_error + bytes" where
  "read_bytes_secure E d p =
     (case hget d p of
        None \<Rightarrow> Inl IoNotFound
      | Some bs \<Rightarrow> (case io_fault E (FsRead p) of Some e \<Rightarrow> Inl (IoOther e) | None \<Rightarrow> Inr bs))"

definition remove_file :: "io_env \<Rightarrow> string \<Rightarrow> files \<Rightarrow> (io_error + unit) \<times> files" where
  "remove_file E p d =
     (case hget d p of
        None \<Rightarrow> (Inl IoNotFound, d)
      | Some _ \<Rightarrow> (case io_fault E (FsRemove p) of
                     Some e \<Rightarrow> (Inl (IoOther e), d)
                   | None \<Rightarrow> (Inr (), hdel p d)))"

definition create_dir_all_secure :: "io_env \<Rightarrow> string \<Rightarrow> string + unit" where
  "create_dir_all_secure E p =
     (case io_fault E (FsMkdir p) of
        Some e \<Rightarrow> Inl (''create dir '' @ p @ '': '' @ e)
      | None \<Rightarrow> Inr ())"

text \<open>\<open>{:08x}\<close> and \<open>{:02x}\<close>: lower-case hexadecimal digits, padded with zeros.\<close>

definition hex_char :: "nat \<Rightarrow> char" where
  "hex_char n = ''0123456789abcdef'' ! (n mod 16)"

primrec hex_pad :: "nat \<Rightarrow> nat \<Rightarrow> string" where
  "hex_pad 0 n = []"
| "hex_pad (Suc k) n = hex_pad k (n div 16) @ [hex_char n]"

definition tmp_path :: "32 word \<Rightarrow> string \<Rightarrow> string" where
  "tmp_path suffix p = p @ ''.tmp'' @ hex_pad 8 (unat suffix)"

definition write_bytes_atomic ::
  "io_env \<Rightarrow> 32 word \<Rightarrow> string \<Rightarrow> bytes \<Rightarrow> files \<Rightarrow> (string + unit) \<times> files" where
  "write_bytes_atomic E suffix p bs d =
     (let tmp = tmp_path suffix p
      in if file_exists d tmp then (Inl (''create '' @ tmp @ '': File exists''), d)
         else case io_fault E (FsCreate tmp) of
           Some e \<Rightarrow> (Inl (''create '' @ tmp @ '': '' @ e), d)
         | None \<Rightarrow>
             (case io_fault E (FsFill tmp) of
                Some e \<Rightarrow> (Inl (''write '' @ tmp @ '': '' @ e),
                           snd (remove_file E tmp (hput tmp (take (io_partial E) bs) d)))
              | None \<Rightarrow>
                  (case io_fault E (FsSync tmp) of
                     Some e \<Rightarrow> (Inl (''fsync '' @ tmp @ '': '' @ e), snd (remove_file E tmp (hput tmp bs d)))
                   | None \<Rightarrow>
                       (case io_fault E (FsRename p) of
                          Some e \<Rightarrow> (Inl (''rename '' @ p @ '': '' @ e), snd (remove_file E tmp (hput tmp bs d)))
                        | None \<Rightarrow> (Inr (), hput p bs (hdel tmp (hput tmp bs d)))))))"

definition no_faults :: io_env where
  "no_faults = \<lparr> io_fault = (\<lambda>_. None), io_partial = 0 \<rparr>"

section \<open>Replacing files\<close>

text \<open>
  What a caller of an atomic write relies on: on success the file has the new content, on failure
  the old one, and besides the temporary file no other file is touched.
\<close>

locale atomic_store =
  fixes look :: "'d \<Rightarrow> 'p \<Rightarrow> 'b option"
    and replace :: "'r \<Rightarrow> 'p \<Rightarrow> 'b \<Rightarrow> 'd \<Rightarrow> ('e + unit) \<times> 'd"
    and tmp :: "'r \<Rightarrow> 'p \<Rightarrow> 'p"
  assumes replace_ok: "replace r p b d = (Inr u, d') \<Longrightarrow> q \<noteq> tmp r p \<Longrightarrow> look d' q = (if q = p then Some b else look d q)"
    and replace_err: "replace r p b d = (Inl e, d') \<Longrightarrow> q \<noteq> tmp r p \<Longrightarrow> look d' q = look d q"
    and tmp_other: "tmp r p \<noteq> p"
begin

definition replace2 :: "'r \<Rightarrow> 'p \<Rightarrow> 'b \<Rightarrow> 'r \<Rightarrow> 'p \<Rightarrow> 'b \<Rightarrow> 'd \<Rightarrow> ('e + unit) \<times> 'd" where
  "replace2 r p b s q c d =
     (case replace r p b d of (Inl e, d') \<Rightarrow> (Inl e, d') | (Inr _, d') \<Rightarrow> replace s q c d')"

lemma replace_self:
  "look (snd (replace r p b d)) p = (case fst (replace r p b d) of Inr _ \<Rightarrow> Some b | Inl _ \<Rightarrow> look d p)"
  using replace_ok [of r p b d] replace_err [of r p b d] tmp_other [of r p]
  by (cases "replace r p b d"; cases "fst (replace r p b d)") auto

text \<open>Two files replaced one after the other: both, none, or only the first.\<close>

lemma replace2_cases:
  assumes "p \<noteq> q" "tmp r p \<noteq> q" "tmp s q \<noteq> p" and "replace2 r p b s q c d = (res, d')"
  obtains (none) e where "res = Inl e" "look d' p = look d p" "look d' q = look d q"
  | (first) e where "res = Inl e" "look d' p = Some b" "look d' q = look d q"
  | (both) "res = Inr ()" "look d' p = Some b" "look d' q = Some c"
proof -
  obtain r1 d1 where 1: "replace r p b d = (r1, d1)" by fastforce
  show ?thesis
  proof (cases r1)
    case (Inl e)
    with 1 assms(4) have "res = Inl e" "d' = d1" by (simp_all add: replace2_def)
    with replace_err [OF 1 [unfolded Inl]] tmp_other [of r p] assms(2) show ?thesis by (auto intro: none)
  next
    case (Inr u)
    with 1 assms(4) have 2: "replace s q c d1 = (res, d')" by (simp add: replace2_def)
    have k: "look d1 p = Some b" "look d1 q = look d q"
      using replace_ok [OF 1 [unfolded Inr]] tmp_other [of r p] assms(1,2) by auto
    show ?thesis
    proof (cases res)
      case (Inl e)
      with replace_err [OF 2 [unfolded Inl]] tmp_other [of s q] assms(3) k show ?thesis by (auto intro: first)
    next
      case (Inr u')
      have "look d' p = Some b" "look d' q = Some c"
        using replace_ok [OF 2 [unfolded Inr], of p] replace_ok [OF 2 [unfolded Inr], of q] tmp_other [of s q] assms(1,3) k
        by auto
      with Inr show ?thesis by (auto intro: both)
    qed
  qed
qed

end

lemma tmp_path_other [simp]: "tmp_path r p \<noteq> p" "p \<noteq> tmp_path r p"
  by (simp_all add: tmp_path_def)

lemma hget_remove_file:
  "hget (snd (remove_file E p d)) q = (if q = p \<and> io_fault E (FsRemove p) = None then None else hget d q)"
  by (auto simp: remove_file_def split: option.splits)

interpretation af: atomic_store hget "write_bytes_atomic E" tmp_path
proof unfold_locales
  show "write_bytes_atomic E r p b d = (Inr u, d') \<Longrightarrow> q \<noteq> tmp_path r p \<Longrightarrow>
      hget d' q = (if q = p then Some b else hget d q)" for r p b d u d' q
    by (auto simp: write_bytes_atomic_def Let_def split: if_splits option.splits)
  show "write_bytes_atomic E r p b d = (Inl e, d') \<Longrightarrow> q \<noteq> tmp_path r p \<Longrightarrow> hget d' q = hget d q" for r p b d e d' q
    by (auto simp: write_bytes_atomic_def Let_def hget_remove_file split: if_splits option.splits)
  show "tmp_path r p \<noteq> p" for r p by simp
qed

lemma join_path_inj [simp]: "join_path dir a = join_path dir b \<longleftrightarrow> a = b"
  by (simp add: join_path_def)

lemma tmp_of_join [simp]: "tmp_path r (join_path dir a) = join_path dir (tmp_path r a)"
  by (simp add: join_path_def tmp_path_def)

text \<open>A failed write leaves a temporary file behind only when the clean-up failed too.\<close>

lemma write_atomic_no_litter:
  assumes "\<not> file_exists d (tmp_path r p)" and "io_fault E (FsRemove (tmp_path r p)) = None"
  shows "\<not> file_exists (snd (write_bytes_atomic E r p bs d)) (tmp_path r p)"
  using assms by (auto simp: write_bytes_atomic_def Let_def file_exists_def hget_remove_file split: option.splits)

lemma write_atomic_succeeds:
  assumes "\<not> file_exists d (tmp_path r p)"
    and "\<forall>op \<in> {FsCreate (tmp_path r p), FsFill (tmp_path r p), FsSync (tmp_path r p), FsRename p}. io_fault E op = None"
  obtains d' where "write_bytes_atomic E r p bs d = (Inr (), d')"
  using assms by (simp add: write_bytes_atomic_def Let_def)

lemma write_atomic_rename_fails:
  assumes "io_fault E (FsRename p) = Some e"
  obtains e' d' where "write_bytes_atomic E r p bs d = (Inl e', d')"
  using assms by (cases "write_bytes_atomic E r p bs d"; cases "fst (write_bytes_atomic E r p bs d)")
    (auto simp: write_bytes_atomic_def Let_def split: if_splits option.splits)

end
