(* ===== verification/Master_Password.thy ===== *)
theory Master_Password
  imports Support_Files Archive_Envelope
begin

text \<open>
  The master password of the paranoid tier, \<open>security/master_password.rs\<close>: the record of the
  key-derivation parameters (\<open>credentials.kdf\<close>), the verifier (\<open>credentials.verify\<close>), and the
  operations that set, change, check and remove the password.  Argon2id and AES-GCM are the parameters
  \<open>argon\<close> and \<open>aead_lib\<close> of the archive envelope; the random salt, nonce and file suffixes are arguments.
\<close>

section \<open>Definitions\<close>

definition KDF_FILE_NAME :: string where
  "KDF_FILE_NAME = ''credentials.kdf''"

definition VERIFIER_FILE_NAME :: string where
  "VERIFIER_FILE_NAME = ''credentials.verify''"

definition KEY_FILE_NAME :: string where
  "KEY_FILE_NAME = ''credentials.key''"

definition FILE_MAGIC :: bytes where
  "FILE_MAGIC = [0x4C, 0x46, 0x4B, 0x44]"

definition FILE_VERSION :: byte where
  "FILE_VERSION = 1"

definition HEADER_BASE_LEN :: nat where
  "HEADER_BASE_LEN = 6"

definition SALT_LENGTH :: nat where
  "SALT_LENGTH = 32"

definition KEY_LENGTH :: nat where
  "KEY_LENGTH = 32"

definition IV_LENGTH :: nat where
  "IV_LENGTH = 12"

definition VERIFIER_PLAINTEXT :: bytes where
  "VERIFIER_PLAINTEXT = str_bytes ''LetsFLUTssh-verify''"

definition ARGON2ID_ALGO_ID :: byte where
  "ARGON2ID_ALGO_ID = 0x01"

definition ARGON2ID_MAX_MEMORY_KIB :: "32 word" where
  "ARGON2ID_MAX_MEMORY_KIB = 1024 * 1024"

definition ARGON2ID_MAX_ITERATIONS :: "32 word" where
  "ARGON2ID_MAX_ITERATIONS = 16"

definition ARGON2ID_MAX_PARALLELISM :: byte where
  "ARGON2ID_MAX_PARALLELISM = 8"

record KdfParams =
  kp_memory_kib :: "32 word"
  kp_iterations :: "32 word"
  kp_parallelism :: byte

record KdfRecord =
  kr_params :: KdfParams
  kr_salt :: bytes

datatype mp_error =
    KdfEmpty
  | KdfUnknownAlgo byte
  | KdfTruncatedParams
  | KdfZeroParams
  | KdfMemoryCap "32 word"
  | KdfIterationCap "32 word"
  | KdfParallelismCap byte
  | KdfTruncatedHeader
  | KdfBadMagic
  | KdfUnsupportedVersion byte
  | KdfTruncatedSalt
  | MpNotEnabled
  | MpWrongPassword
  | MpRead string io_error
  | MpDelete string io_error
  | MpWrite string
  | MpArgon crypto_error
  | MpSeal crypto_error

definition kdf_defaults :: KdfParams where
  "kdf_defaults = \<lparr> kp_memory_kib = 64 * 1024, kp_iterations = 3, kp_parallelism = 1 \<rparr>"

definition kdf_encode :: "KdfParams \<Rightarrow> bytes" where
  "kdf_encode p =
     [ARGON2ID_ALGO_ID] @ be_bytes 4 (unat (kp_memory_kib p)) @ be_bytes 4 (unat (kp_iterations p)) @
     [kp_parallelism p]"

definition encoded_length :: "KdfParams \<Rightarrow> nat" where
  "encoded_length p = 10"

definition kdf_decode :: "bytes \<Rightarrow> mp_error + KdfParams" where
  "kdf_decode bs =
     (if bs = [] then Inl KdfEmpty
      else if bs ! 0 \<noteq> ARGON2ID_ALGO_ID then Inl (KdfUnknownAlgo (bs ! 0))
      else if length bs < 10 then Inl KdfTruncatedParams
      else let memory_kib = of_nat (be_val [bs ! 1, bs ! 2, bs ! 3, bs ! 4]);
               iterations = of_nat (be_val [bs ! 5, bs ! 6, bs ! 7, bs ! 8]);
               parallelism = bs ! 9
           in if memory_kib = 0 \<or> iterations = 0 \<or> parallelism = 0 then Inl KdfZeroParams
              else if memory_kib > ARGON2ID_MAX_MEMORY_KIB then Inl (KdfMemoryCap memory_kib)
              else if iterations > ARGON2ID_MAX_ITERATIONS then Inl (KdfIterationCap iterations)
              else if parallelism > ARGON2ID_MAX_PARALLELISM then Inl (KdfParallelismCap parallelism)
              else Inr \<lparr> kp_memory_kib = memory_kib, kp_iterations = iterations, kp_parallelism = parallelism \<rparr>)"

definition encode_kdf_record :: "KdfParams \<Rightarrow> bytes \<Rightarrow> bytes" where
  "encode_kdf_record p salt =
     (let pb = kdf_encode p in FILE_MAGIC @ [FILE_VERSION] @ [pb ! 0] @ pb @ salt)"

definition decode_kdf_record :: "bytes \<Rightarrow> mp_error + KdfRecord" where
  "decode_kdf_record bs =
     (if length bs < HEADER_BASE_LEN + 1 + SALT_LENGTH then Inl KdfTruncatedHeader
      else if take (length FILE_MAGIC) bs \<noteq> FILE_MAGIC then Inl KdfBadMagic
      else if bs ! length FILE_MAGIC \<noteq> FILE_VERSION then Inl (KdfUnsupportedVersion (bs ! length FILE_MAGIC))
      else case kdf_decode (drop HEADER_BASE_LEN bs) of
             Inl e \<Rightarrow> Inl e
           | Inr p \<Rightarrow>
               (let salt_start = HEADER_BASE_LEN + encoded_length p
                in if length bs < salt_start + SALT_LENGTH then Inl KdfTruncatedSalt
                   else Inr \<lparr> kr_params = p, kr_salt = take SALT_LENGTH (drop salt_start bs) \<rparr>))"

text \<open>\<open>crypto::aes_gcm_decrypt\<close>: the nonce is the head of the input and nothing else is authenticated.\<close>

definition aes_gcm_decrypt :: "aead_lib \<Rightarrow> bytes \<Rightarrow> bytes \<Rightarrow> crypto_error + bytes" where
  "aes_gcm_decrypt A key data =
     (if length data < AES_GCM_IV_LEN + AES_GCM_TAG_LEN then Inl (CiphertextTooShort (length data))
      else if length key \<noteq> AES_GCM_KEY_LEN then Inl (KeyLength (length key))
      else case aead_open A key (take AES_GCM_IV_LEN data) (drop AES_GCM_IV_LEN data) [] of
             Some p \<Rightarrow> Inr p | None \<Rightarrow> Inl AeadFailure)"

definition mp_derive_key :: "argon \<Rightarrow> bytes \<Rightarrow> bytes \<Rightarrow> KdfParams \<Rightarrow> mp_error + bytes" where
  "mp_derive_key K password salt p =
     (case argon2id_derive K password salt (unat (kp_memory_kib p)) (unat (kp_iterations p))
             (unat (kp_parallelism p)) KEY_LENGTH of
        Inl e \<Rightarrow> Inl (MpArgon e)
      | Inr key \<Rightarrow> Inr key)"

definition encrypt_verifier :: "aead_lib \<Rightarrow> bytes \<Rightarrow> bytes \<Rightarrow> bytes \<Rightarrow> mp_error + bytes" where
  "encrypt_verifier A nonce key kdf_header =
     (case aes_gcm_encrypt_raw A key nonce VERIFIER_PLAINTEXT kdf_header of
        Inl e \<Rightarrow> Inl (MpSeal e)
      | Inr body \<Rightarrow> Inr (nonce @ body))"

definition verify_against_verifier :: "aead_lib \<Rightarrow> bytes \<Rightarrow> bytes \<Rightarrow> bytes \<Rightarrow> bool" where
  "verify_against_verifier A key verifier kdf_header =
     (if length verifier < IV_LENGTH + 1 then False
      else case aes_gcm_decrypt_raw A key (take IV_LENGTH verifier) (drop IV_LENGTH verifier) kdf_header of
             Inr pt \<Rightarrow> constant_time_eq pt VERIFIER_PLAINTEXT
           | Inl _ \<Rightarrow> (case aes_gcm_decrypt A key verifier of
                        Inr pt \<Rightarrow> constant_time_eq pt VERIFIER_PLAINTEXT
                      | Inl _ \<Rightarrow> False))"

definition mp_write_atomic :: "io_env \<Rightarrow> 32 word \<Rightarrow> string \<Rightarrow> bytes \<Rightarrow> files \<Rightarrow> (mp_error + unit) \<times> files" where
  "mp_write_atomic E suffix p bs d =
     (case write_bytes_atomic E suffix p bs d of
        (Inl e, d') \<Rightarrow> (Inl (MpWrite e), d')
      | (Inr u, d') \<Rightarrow> (Inr u, d'))"

definition mp_is_enabled :: "string \<Rightarrow> files \<Rightarrow> bool" where
  "mp_is_enabled dir d \<longleftrightarrow> file_exists d (join_path dir KDF_FILE_NAME)"

text \<open>The random bytes one call draws: the salt, the nonce and the suffixes of the two temporary files.\<close>

record mp_random =
  rnd_salt :: bytes
  rnd_nonce :: bytes
  rnd_suffix1 :: "32 word"
  rnd_suffix2 :: "32 word"

definition mp_enable ::
  "io_env \<Rightarrow> argon \<Rightarrow> aead_lib \<Rightarrow> mp_random \<Rightarrow> string \<Rightarrow> bytes \<Rightarrow> KdfParams \<Rightarrow> files
     \<Rightarrow> (mp_error + bytes) \<times> files" where
  "mp_enable E K A rnd dir password p d =
     (case mp_derive_key K password (rnd_salt rnd) p of
        Inl e \<Rightarrow> (Inl e, d)
      | Inr key \<Rightarrow>
          (let kdf_bytes = encode_kdf_record p (rnd_salt rnd)
           in case encrypt_verifier A (rnd_nonce rnd) key kdf_bytes of
                Inl e \<Rightarrow> (Inl e, d)
              | Inr verifier \<Rightarrow>
                  (case mp_write_atomic E (rnd_suffix1 rnd) (join_path dir KDF_FILE_NAME) kdf_bytes d of
                     (Inl e, d1) \<Rightarrow> (Inl e, d1)
                   | (Inr _, d1) \<Rightarrow>
                       (case mp_write_atomic E (rnd_suffix2 rnd) (join_path dir VERIFIER_FILE_NAME) verifier d1 of
                          (Inl e, d2) \<Rightarrow> (Inl e, d2)
                        | (Inr _, d2) \<Rightarrow> (Inr key, d2)))))"

definition read_kdf_record :: "io_env \<Rightarrow> string \<Rightarrow> files \<Rightarrow> mp_error + KdfRecord" where
  "read_kdf_record E dir d =
     (let path = join_path dir KDF_FILE_NAME
      in if \<not> file_exists d path then Inl MpNotEnabled
         else case read_bytes_secure E d path of
                Inl e \<Rightarrow> Inl (MpRead KDF_FILE_NAME e)
              | Inr bs \<Rightarrow> decode_kdf_record bs)"

definition derive_key_from_disk ::
  "io_env \<Rightarrow> argon \<Rightarrow> string \<Rightarrow> bytes \<Rightarrow> files \<Rightarrow> mp_error + bytes" where
  "derive_key_from_disk E K dir password d =
     (case read_kdf_record E dir d of
        Inl e \<Rightarrow> Inl e
      | Inr r \<Rightarrow> mp_derive_key K password (kr_salt r) (kr_params r))"

definition verify_and_derive ::
  "io_env \<Rightarrow> argon \<Rightarrow> aead_lib \<Rightarrow> string \<Rightarrow> bytes \<Rightarrow> files \<Rightarrow> mp_error + bytes option" where
  "verify_and_derive E K A dir password d =
     (case read_kdf_record E dir d of
        Inl e \<Rightarrow> Inl e
      | Inr r \<Rightarrow>
          (let verifier_path = join_path dir VERIFIER_FILE_NAME
           in if \<not> file_exists d verifier_path then Inl MpNotEnabled
              else case read_bytes_secure E d verifier_path of
                     Inl e \<Rightarrow> Inl (MpRead VERIFIER_FILE_NAME e)
                   | Inr verifier \<Rightarrow>
                       (case mp_derive_key K password (kr_salt r) (kr_params r) of
                          Inl e \<Rightarrow> Inl e
                        | Inr key \<Rightarrow>
                            Inr (if verify_against_verifier A key verifier
                                      (encode_kdf_record (kr_params r) (kr_salt r))
                                 then Some key else None))))"

definition change_password ::
  "io_env \<Rightarrow> argon \<Rightarrow> aead_lib \<Rightarrow> mp_random \<Rightarrow> string \<Rightarrow> bytes \<Rightarrow> bytes \<Rightarrow> KdfParams \<Rightarrow> files
     \<Rightarrow> (mp_error + bytes) \<times> files" where
  "change_password E K A rnd dir old_password new_password p d =
     (case verify_and_derive E K A dir old_password d of
        Inl e \<Rightarrow> (Inl e, d)
      | Inr None \<Rightarrow> (Inl MpWrongPassword, d)
      | Inr (Some _) \<Rightarrow> mp_enable E K A rnd dir new_password p d)"

fun delete_each :: "io_env \<Rightarrow> string \<Rightarrow> string list \<Rightarrow> files \<Rightarrow> (mp_error + unit) \<times> files" where
  "delete_each E dir [] d = (Inr (), d)"
| "delete_each E dir (name # names) d =
     (let path = join_path dir name
      in if file_exists d path
         then (case remove_file E path d of
                 (Inl e, d') \<Rightarrow> (Inl (MpDelete name e), d')
               | (Inr _, d') \<Rightarrow> delete_each E dir names d')
         else delete_each E dir names d)"

definition mp_disable :: "io_env \<Rightarrow> string \<Rightarrow> files \<Rightarrow> (mp_error + unit) \<times> files" where
  "mp_disable E dir d = delete_each E dir [KDF_FILE_NAME, VERIFIER_FILE_NAME] d"

definition mp_reset :: "io_env \<Rightarrow> string \<Rightarrow> files \<Rightarrow> (mp_error + unit) \<times> files" where
  "mp_reset E dir d = delete_each E dir [KDF_FILE_NAME, VERIFIER_FILE_NAME, KEY_FILE_NAME] d"

text \<open>The pinned support directory: \<open>None\<close> until the first pin, which wins.\<close>

definition pin_support_dir :: "string \<Rightarrow> string option \<Rightarrow> string \<times> string option" where
  "pin_support_dir dir pin = (case pin of Some existing \<Rightarrow> (existing, pin) | None \<Rightarrow> (dir, Some dir))"

definition try_pinned_support_dir :: "string option \<Rightarrow> string + string" where
  "try_pinned_support_dir pin =
     (case pin of
        Some dir \<Rightarrow> Inr dir
      | None \<Rightarrow> Inl ''support_dir not pinned: pin_support_dir must be called at startup'')"

definition reset_support_dir_for_tests :: "string option \<Rightarrow> string option" where
  "reset_support_dir_for_tests pin = None"

section \<open>The parameter record\<close>

lemmas mp_consts = HEADER_BASE_LEN_def SALT_LENGTH_def KEY_LENGTH_def IV_LENGTH_def FILE_VERSION_def
  ARGON2ID_ALGO_ID_def encoded_length_def

lemmas mp_caps = ARGON2ID_MAX_MEMORY_KIB_def ARGON2ID_MAX_ITERATIONS_def ARGON2ID_MAX_PARALLELISM_def

definition params_ok :: "KdfParams \<Rightarrow> bool" where
  "params_ok p \<longleftrightarrow>
     0 < kp_memory_kib p \<and> kp_memory_kib p \<le> ARGON2ID_MAX_MEMORY_KIB \<and>
     0 < kp_iterations p \<and> kp_iterations p \<le> ARGON2ID_MAX_ITERATIONS \<and>
     0 < kp_parallelism p \<and> kp_parallelism p \<le> ARGON2ID_MAX_PARALLELISM"

definition record_ok :: "KdfRecord \<Rightarrow> bool" where
  "record_ok r \<longleftrightarrow> params_ok (kr_params r) \<and> length (kr_salt r) = SALT_LENGTH"

lemma params_ok_defaults [simp]: "params_ok kdf_defaults"
  by (simp add: params_ok_def kdf_defaults_def mp_caps)

lemma length_FILE_MAGIC [simp]: "length FILE_MAGIC = 4"
  by (simp add: FILE_MAGIC_def)

lemma length_kdf_encode [simp]: "length (kdf_encode p) = 10"
  by (simp add: kdf_encode_def)

lemma length_encode_kdf_record [simp]: "length (encode_kdf_record p salt) = 16 + length salt"
  by (simp add: encode_kdf_record_def Let_def FILE_MAGIC_def)

lemma list4_eq: "length bs = 4 \<Longrightarrow> [bs ! 0, bs ! 1, bs ! 2, bs ! 3] = bs"
  by (rule nth_equalityI) (auto simp: less_Suc_eq numeral_eq_Suc)

lemma be_val_word32: "length bs = 4 \<Longrightarrow> bs = be_bytes 4 (unat (w :: 32 word)) \<Longrightarrow> of_nat (be_val bs) = w"
proof -
  assume "bs = be_bytes 4 (unat w)"
  moreover have "unat w < 2 ^ 32" using unsigned_less [of w] by simp
  ultimately show ?thesis by simp
qed

text \<open>The four-byte fields of an encoded block, as the decoder picks them out.\<close>

lemma kdf_fields:
  assumes "length m = 4" "length t = 4"
  shows "[([a] @ m @ t @ [q] @ rest) ! 1, ([a] @ m @ t @ [q] @ rest) ! 2, ([a] @ m @ t @ [q] @ rest) ! 3,
      ([a] @ m @ t @ [q] @ rest) ! 4] = m"
    and "[([a] @ m @ t @ [q] @ rest) ! 5, ([a] @ m @ t @ [q] @ rest) ! 6, ([a] @ m @ t @ [q] @ rest) ! 7,
      ([a] @ m @ t @ [q] @ rest) ! 8] = t"
    and "([a] @ m @ t @ [q] @ rest) ! 9 = q"
  using list4_eq [OF assms(1)] list4_eq [OF assms(2)] assms by (simp_all add: nth_append nth_Cons' numeral_eq_Suc)

lemma kdf_decode_encode:
  assumes "params_ok p"
  shows "kdf_decode (kdf_encode p @ rest) = Inr p"
proof -
  let ?bs = "[ARGON2ID_ALGO_ID] @ be_bytes 4 (unat (kp_memory_kib p)) @ be_bytes 4 (unat (kp_iterations p)) @
     [kp_parallelism p] @ rest"
  have e: "kdf_encode p @ rest = ?bs" by (simp add: kdf_encode_def)
  note f = kdf_fields [OF length_be_bytes length_be_bytes, of ARGON2ID_ALGO_ID "unat (kp_memory_kib p)" "unat (kp_iterations p)"
      "kp_parallelism p" rest]
  have m: "of_nat (be_val (be_bytes 4 (unat w))) = w" for w :: "32 word"
    by (rule be_val_word32) simp_all
  have h: "?bs ! 0 = ARGON2ID_ALGO_ID" "\<not> length ?bs < 10" "?bs \<noteq> []" by simp_all
  show ?thesis
    unfolding e kdf_decode_def f Let_def m using assms h
    by (simp add: params_ok_def word_greater_zero_iff not_less [symmetric])
qed

lemma decode_encode_record:
  assumes "record_ok r"
  shows "decode_kdf_record (encode_kdf_record (kr_params r) (kr_salt r)) = Inr r"
proof -
  let ?bs = "encode_kdf_record (kr_params r) (kr_salt r)"
  have b: "?bs = FILE_MAGIC @ [FILE_VERSION] @ [ARGON2ID_ALGO_ID] @ kdf_encode (kr_params r) @ kr_salt r"
    by (simp add: encode_kdf_record_def Let_def kdf_encode_def)
  have l: "length ?bs = 48" using assms by (simp add: record_ok_def SALT_LENGTH_def)
  have f: "take 4 ?bs = FILE_MAGIC" "?bs ! 4 = FILE_VERSION" "drop 6 ?bs = kdf_encode (kr_params r) @ kr_salt r"
    "drop 16 ?bs = kr_salt r"
    unfolding b by (simp_all add: FILE_MAGIC_def nth_append)
  show ?thesis
    unfolding decode_kdf_record_def using assms l f kdf_decode_encode [of "kr_params r" "kr_salt r"]
    by (simp add: mp_consts record_ok_def Let_def)
qed

interpretation kdf: codec "\<lambda>r. encode_kdf_record (kr_params r) (kr_salt r)"
  "\<lambda>bs. case decode_kdf_record bs of Inr r \<Rightarrow> Some r | Inl _ \<Rightarrow> None" record_ok
  by unfold_locales (simp add: decode_encode_record)

text \<open>What the decoder accepts is within the caps.\<close>

lemma kdf_decode_ok: "kdf_decode bs = Inr p \<Longrightarrow> params_ok p"
  by (auto simp: kdf_decode_def Let_def params_ok_def word_greater_zero_iff not_less split: if_splits)

lemma decode_record_ok: "decode_kdf_record bs = Inr r \<Longrightarrow> record_ok r"
  by (auto simp: decode_kdf_record_def Let_def record_ok_def mp_consts dest: kdf_decode_ok split: if_splits sum.splits)

section \<open>The two files\<close>

definition reads_ok :: "io_env \<Rightarrow> string \<Rightarrow> bool" where
  "reads_ok E dir \<longleftrightarrow>
     io_fault E (FsRead (join_path dir KDF_FILE_NAME)) = None \<and>
     io_fault E (FsRead (join_path dir VERIFIER_FILE_NAME)) = None"

text \<open>A sealed text opens under no other key and no other additional data.\<close>

definition aead_binds :: "aead_lib \<Rightarrow> bytes \<Rightarrow> bytes \<Rightarrow> bytes \<Rightarrow> bytes \<Rightarrow> bool" where
  "aead_binds A key nonce aad c \<longleftrightarrow> (\<forall>k a. aead_open A k nonce c a \<noteq> None \<longrightarrow> k = key \<and> a = aad)"

text \<open>The state of the two files after a successful \<open>enable\<close>.\<close>

definition enabled_with ::
  "argon \<Rightarrow> aead_lib \<Rightarrow> string \<Rightarrow> KdfParams \<Rightarrow> bytes \<Rightarrow> bytes \<Rightarrow> bytes \<Rightarrow> bytes \<Rightarrow> bytes \<Rightarrow> files \<Rightarrow> bool" where
  "enabled_with K A dir p salt nonce password key body d \<longleftrightarrow>
     mp_derive_key K password salt p = Inr key \<and>
     aes_gcm_encrypt_raw A key nonce VERIFIER_PLAINTEXT (encode_kdf_record p salt) = Inr body \<and>
     hget d (join_path dir KDF_FILE_NAME) = Some (encode_kdf_record p salt) \<and>
     hget d (join_path dir VERIFIER_FILE_NAME) = Some (nonce @ body)"

lemma mp_paths [simp]:
  "KDF_FILE_NAME \<noteq> VERIFIER_FILE_NAME" "VERIFIER_FILE_NAME \<noteq> KDF_FILE_NAME"
  "tmp_path r KDF_FILE_NAME \<noteq> VERIFIER_FILE_NAME" "tmp_path r VERIFIER_FILE_NAME \<noteq> KDF_FILE_NAME"
  by (simp_all add: KDF_FILE_NAME_def VERIFIER_FILE_NAME_def tmp_path_def)

text \<open>Setting a password is the replacement of two files, one after the other.\<close>

lemma mp_enable_replace2:
  assumes "mp_derive_key K password (rnd_salt rnd) p = Inr key"
    and "encrypt_verifier A (rnd_nonce rnd) key (encode_kdf_record p (rnd_salt rnd)) = Inr verifier"
  shows "mp_enable E K A rnd dir password p d =
    (case af.replace2 E (rnd_suffix1 rnd) (join_path dir KDF_FILE_NAME) (encode_kdf_record p (rnd_salt rnd))
            (rnd_suffix2 rnd) (join_path dir VERIFIER_FILE_NAME) verifier d of
       (Inl e, d') \<Rightarrow> (Inl (MpWrite e), d')
     | (Inr _, d') \<Rightarrow> (Inr key, d'))"
  using assms by (simp add: mp_enable_def mp_write_atomic_def af.replace2_def Let_def split: prod.splits sum.splits)

lemma mp_enable_cases:
  assumes "mp_enable E K A rnd dir password p d = (res, d')"
  obtains (early) e where "res = Inl e" "d' = d"
  | (none) e where "res = Inl e"
      "hget d' (join_path dir KDF_FILE_NAME) = hget d (join_path dir KDF_FILE_NAME)"
      "hget d' (join_path dir VERIFIER_FILE_NAME) = hget d (join_path dir VERIFIER_FILE_NAME)"
  | (half) e where "res = Inl e"
      "hget d' (join_path dir KDF_FILE_NAME) = Some (encode_kdf_record p (rnd_salt rnd))"
      "hget d' (join_path dir VERIFIER_FILE_NAME) = hget d (join_path dir VERIFIER_FILE_NAME)"
  | (both) key body where "res = Inr key" "enabled_with K A dir p (rnd_salt rnd) (rnd_nonce rnd) password key body d'"
proof (cases "mp_derive_key K password (rnd_salt rnd) p")
  case (Inl e)
  with assms show ?thesis by (intro early [of e]) (auto simp: mp_enable_def)
next
  case k: (Inr key)
  show ?thesis
  proof (cases "encrypt_verifier A (rnd_nonce rnd) key (encode_kdf_record p (rnd_salt rnd))")
    case (Inl e)
    with k assms show ?thesis by (intro early [of e]) (auto simp: mp_enable_def Let_def)
  next
    case v: (Inr verifier)
    then obtain body where b: "aes_gcm_encrypt_raw A key (rnd_nonce rnd) VERIFIER_PLAINTEXT (encode_kdf_record p (rnd_salt rnd)) = Inr body"
      "verifier = rnd_nonce rnd @ body"
      by (auto simp: encrypt_verifier_def split: sum.splits)
    obtain r1 d1 where r: "af.replace2 E (rnd_suffix1 rnd) (join_path dir KDF_FILE_NAME) (encode_kdf_record p (rnd_salt rnd))
            (rnd_suffix2 rnd) (join_path dir VERIFIER_FILE_NAME) verifier d = (r1, d1)" by fastforce
    have res: "d' = d1" "res = (case r1 of Inl e \<Rightarrow> Inl (MpWrite e) | Inr _ \<Rightarrow> Inr key)"
      using assms mp_enable_replace2 [OF k v, of E dir d] r by (auto split: sum.splits)
    from r show ?thesis
    proof (rule af.replace2_cases [rotated 3], simp_all)
      fix e assume "r1 = Inl e" "hget d1 (join_path dir KDF_FILE_NAME) = hget d (join_path dir KDF_FILE_NAME)"
        "hget d1 (join_path dir VERIFIER_FILE_NAME) = hget d (join_path dir VERIFIER_FILE_NAME)"
      with res show thesis by (intro none) auto
    next
      fix e assume "r1 = Inl e" "hget d1 (join_path dir KDF_FILE_NAME) = Some (encode_kdf_record p (rnd_salt rnd))"
        "hget d1 (join_path dir VERIFIER_FILE_NAME) = hget d (join_path dir VERIFIER_FILE_NAME)"
      with res show thesis by (intro half) auto
    next
      assume "r1 = Inr ()" "hget d1 (join_path dir KDF_FILE_NAME) = Some (encode_kdf_record p (rnd_salt rnd))"
        "hget d1 (join_path dir VERIFIER_FILE_NAME) = Some verifier"
      with res k b show thesis by (intro both [of key body]) (auto simp: enabled_with_def)
    qed
  qed
qed

lemma verify_and_derive_eq:
  assumes "reads_ok E dir" and "hget d (join_path dir KDF_FILE_NAME) = Some kb"
    and "hget d (join_path dir VERIFIER_FILE_NAME) = Some vb"
  shows "verify_and_derive E K A dir password d =
    (case decode_kdf_record kb of
       Inl e \<Rightarrow> Inl e
     | Inr r \<Rightarrow>
         (case mp_derive_key K password (kr_salt r) (kr_params r) of
            Inl e \<Rightarrow> Inl e
          | Inr key \<Rightarrow> Inr (if verify_against_verifier A key vb (encode_kdf_record (kr_params r) (kr_salt r))
                           then Some key else None)))"
  using assms by (simp add: verify_and_derive_def read_kdf_record_def read_bytes_secure_def file_exists_def reads_ok_def Let_def
      split: sum.splits)

section \<open>The verifier\<close>

lemma encrypt_raw_lengths:
  "aes_gcm_encrypt_raw A key nonce p a = Inr c \<Longrightarrow>
     length nonce = 12 \<and> length key = 32 \<and> aead_seal A key nonce p a = Some c"
  by (auto simp: aes_gcm_encrypt_raw_def AES_GCM_IV_LEN_def AES_GCM_KEY_LEN_def split: if_splits option.splits)

lemma verifier_accepts:
  assumes "aead_ok A" and "aes_gcm_encrypt_raw A key nonce VERIFIER_PLAINTEXT hdr = Inr body"
  shows "verify_against_verifier A key (nonce @ body) hdr"
  using encrypt_raw_lengths [OF assms(2)] aead_okD [OF assms(1), of key nonce VERIFIER_PLAINTEXT hdr body]
  by (simp add: verify_against_verifier_def aes_gcm_decrypt_raw_def AES_GCM_IV_LEN_def AES_GCM_KEY_LEN_def
      AES_GCM_TAG_LEN_def IV_LENGTH_def)

lemma verifier_binds:
  assumes "aead_binds A key nonce hdr body" and "length nonce = 12" and "hdr \<noteq> []"
    and "verify_against_verifier A k (nonce @ body) h"
  shows "k = key \<and> h = hdr"
proof -
  have "aead_open A k nonce body h \<noteq> None \<or> aead_open A k nonce body [] \<noteq> None"
    using assms(2,4) by (auto simp: verify_against_verifier_def aes_gcm_decrypt_raw_def aes_gcm_decrypt_def
        AES_GCM_IV_LEN_def IV_LENGTH_def split: if_splits sum.splits option.splits)
  with assms(1,3) show ?thesis by (auto simp: aead_binds_def)
qed

lemma encode_kdf_record_Nil [simp]: "encode_kdf_record p salt \<noteq> []"
  by (simp add: encode_kdf_record_def Let_def)

lemma encode_kdf_record_inj:
  "record_ok r \<Longrightarrow> record_ok s \<Longrightarrow>
     encode_kdf_record (kr_params r) (kr_salt r) = encode_kdf_record (kr_params s) (kr_salt s) \<Longrightarrow> r = s"
  by (rule kdf.enc_inj)

text \<open>
  Whatever \<open>credentials.kdf\<close> holds, a verifier that is bound to a header is only accepted under the
  record of that header.
\<close>

lemma verify_only_bound:
  assumes "reads_ok E dir" and "hget d (join_path dir VERIFIER_FILE_NAME) = Some (nonce @ body)"
    and "length nonce = 12" and "aead_binds A key nonce (encode_kdf_record p salt) body"
    and "verify_and_derive E K A dir password d = Inr (Some k)"
  obtains kb r where "hget d (join_path dir KDF_FILE_NAME) = Some kb" "decode_kdf_record kb = Inr r"
    "mp_derive_key K password (kr_salt r) (kr_params r) = Inr k" "k = key"
    "encode_kdf_record (kr_params r) (kr_salt r) = encode_kdf_record p salt"
proof -
  obtain kb where kb: "hget d (join_path dir KDF_FILE_NAME) = Some kb"
    using assms(5) by (auto simp: verify_and_derive_def read_kdf_record_def file_exists_def Let_def split: if_splits)
  obtain r where r: "decode_kdf_record kb = Inr r" "mp_derive_key K password (kr_salt r) (kr_params r) = Inr k"
    "verify_against_verifier A k (nonce @ body) (encode_kdf_record (kr_params r) (kr_salt r))"
    using assms(5) by (auto simp: verify_and_derive_eq [OF assms(1) kb assms(2)] split: sum.splits if_splits)
  from verifier_binds [OF assms(4,3) _ r(3)] have "k = key"
    "encode_kdf_record (kr_params r) (kr_salt r) = encode_kdf_record p salt" by simp_all
  with kb r(1,2) show thesis by (rule that)
qed

section \<open>Properties\<close>

text \<open>
  The record on disk is reversible: what is written for permitted parameters and a 32-byte salt is
  read back, and whatever bytes the decoder accepts, the record it returns is within the caps and is
  written back as the same bytes up to the echoed algorithm id and trailing data.
\<close>

lemma kdf_decode_fields:
  "kdf_decode c = Inr p \<Longrightarrow>
     c ! 0 = ARGON2ID_ALGO_ID \<and> kp_memory_kib p = of_nat (be_val [c ! 1, c ! 2, c ! 3, c ! 4]) \<and>
     kp_iterations p = of_nat (be_val [c ! 5, c ! 6, c ! 7, c ! 8]) \<and> kp_parallelism p = c ! 9"
  by (auto simp: kdf_decode_def Let_def simp del: be_val_Cons split: if_splits)

lemma decode_record_fields:
  assumes "decode_kdf_record bs = Inr r"
  shows "take 5 (encode_kdf_record (kr_params r) (kr_salt r)) = take 5 bs"
    and "drop 6 (encode_kdf_record (kr_params r) (kr_salt r)) = take 42 (drop 6 bs)"
proof -
  let ?c = "drop 6 bs"
  from assms have d: "kdf_decode ?c = Inr (kr_params r)" "kr_salt r = take 32 (drop 16 bs)" "length bs \<ge> 48"
    and h: "take 4 bs = FILE_MAGIC" "bs ! 4 = FILE_VERSION"
    by (auto simp: decode_kdf_record_def mp_consts Let_def split: if_splits sum.splits)
  have w: "be_bytes 4 (unat (of_nat (be_val xs) :: 32 word)) = xs" if "length xs = 4" for xs
    using be_val_less [of xs] be_bytes_be_val [of xs] that by (simp add: unat_of_nat)
  have c: "?c ! 0 = ARGON2ID_ALGO_ID" "kp_memory_kib (kr_params r) = of_nat (be_val [?c ! 1, ?c ! 2, ?c ! 3, ?c ! 4])"
    "kp_iterations (kr_params r) = of_nat (be_val [?c ! 5, ?c ! 6, ?c ! 7, ?c ! 8])" "kp_parallelism (kr_params r) = ?c ! 9"
    using kdf_decode_fields [OF d(1)] by blast+
  have "kdf_encode (kr_params r) = [?c ! 0, ?c ! 1, ?c ! 2, ?c ! 3, ?c ! 4, ?c ! 5, ?c ! 6, ?c ! 7, ?c ! 8, ?c ! 9]"
    by (simp add: kdf_encode_def c w del: be_val_Cons)
  also have "\<dots> = take 10 ?c"
    using d(3) by (intro nth_equalityI) (auto simp: less_Suc_eq numeral_eq_Suc)
  finally have k: "kdf_encode (kr_params r) = take 10 ?c" .
  have "take 42 ?c = take 10 ?c @ take 32 (drop 10 ?c)" using take_add [of 10 32 ?c] by simp
  with k d(2) show "drop 6 (encode_kdf_record (kr_params r) (kr_salt r)) = take 42 (drop 6 bs)"
    by (simp add: encode_kdf_record_def Let_def FILE_MAGIC_def add.commute)
  have "take 5 bs = take 4 bs @ [bs ! 4]" using d(3) take_Suc_conv_app_nth [of 4 bs] by simp
  with h show "take 5 (encode_kdf_record (kr_params r) (kr_salt r)) = take 5 bs"
    by (simp add: encode_kdf_record_def Let_def FILE_MAGIC_def)
qed

theorem kdf_record_round_trip:
  "(record_ok r \<longrightarrow> decode_kdf_record (encode_kdf_record (kr_params r) (kr_salt r)) = Inr r) \<and>
   (decode_kdf_record bs = Inr s \<longrightarrow>
      record_ok s \<and> take 5 (encode_kdf_record (kr_params s) (kr_salt s)) = take 5 bs \<and>
      drop 6 (encode_kdf_record (kr_params s) (kr_salt s)) = take 42 (drop 6 bs))"
  using decode_encode_record decode_record_ok decode_record_fields by blast

theorem kdf_record_round_trip_witness:
  "decode_kdf_record (encode_kdf_record kdf_defaults (replicate 32 7)) = Inr \<lparr> kr_params = kdf_defaults, kr_salt = replicate 32 7 \<rparr>"
  using kdf_record_round_trip [of "\<lparr> kr_params = kdf_defaults, kr_salt = replicate 32 7 \<rparr>"]
  by (simp add: record_ok_def SALT_LENGTH_def)

lemma verify_enabled:
  assumes "aead_ok A" and "params_ok p" and "length salt = 32" and "reads_ok E dir"
    and "enabled_with K A dir p salt nonce password key body d"
  shows "verify_and_derive E K A dir password d = Inr (Some key)"
proof -
  let ?r = "\<lparr> kr_params = p, kr_salt = salt \<rparr>"
  have "record_ok ?r" using assms(2,3) by (simp add: record_ok_def SALT_LENGTH_def)
  from decode_encode_record [OF this] have dec: "decode_kdf_record (encode_kdf_record p salt) = Inr ?r" by simp
  from assms(5) have f: "hget d (join_path dir KDF_FILE_NAME) = Some (encode_kdf_record p salt)"
    "hget d (join_path dir VERIFIER_FILE_NAME) = Some (nonce @ body)" by (simp_all add: enabled_with_def)
  from assms(5) verifier_accepts [OF assms(1)] show ?thesis
    unfolding verify_and_derive_eq [OF assms(4) f] dec by (simp add: enabled_with_def)
qed

text \<open>
  The password that was set opens the tier: after a successful \<open>enable\<close> with permitted parameters,
  \<open>verify_and_derive\<close> with the same password returns the key that \<open>enable\<close> returned.
\<close>

theorem enabled_password_verifies:
  assumes "aead_ok A" and "params_ok p" and "length (rnd_salt rnd) = 32" and "reads_ok E dir"
    and "mp_enable E' K A rnd dir password p d = (Inr key, d')"
  shows "verify_and_derive E K A dir password d' = Inr (Some key)"
  using assms(5)
proof (cases rule: mp_enable_cases)
  case (both k body)
  with verify_enabled [OF assms(1-4)] show ?thesis by blast
qed auto

text \<open>A stand-in for AES-GCM that knows two keys, each with one piece of additional data.\<close>

definition aead_pair :: "bytes \<times> bytes \<Rightarrow> bytes \<times> bytes \<Rightarrow> aead_lib" where
  "aead_pair x y =
     \<lparr> aead_seal = (\<lambda>k n p a. if (k, a) = x then Some (p @ replicate 16 0)
                              else if (k, a) = y then Some (p @ replicate 16 1) else None),
       aead_open = (\<lambda>k n c a. if length c \<ge> 16 \<and>
                                 ((k, a) = x \<and> drop (length c - 16) c = replicate 16 0 \<or>
                                  (k, a) = y \<and> (k, a) \<noteq> x \<and> drop (length c - 16) c = replicate 16 1)
                              then Some (take (length c - 16) c) else None) \<rparr>"

lemma aead_pair_ok [simp]: "aead_ok (aead_pair x y)"
  by (simp add: aead_ok_def aead_pair_def)

lemma aead_pair_binds [simp]: "aead_binds (aead_pair (key, aad) y) key nonce aad (p @ replicate 16 0)"
  by (auto simp: aead_binds_def aead_pair_def)

definition argon_ref :: argon where
  "argon_ref pw s m t p n = Some (take n (pw @ s))"

definition rnd_ref :: "byte \<Rightarrow> mp_random" where
  "rnd_ref b = \<lparr> rnd_salt = replicate 32 b, rnd_nonce = replicate 12 9, rnd_suffix1 = 1, rnd_suffix2 = 2 \<rparr>"

abbreviation hdr_ref :: "byte \<Rightarrow> bytes" where
  "hdr_ref b \<equiv> encode_kdf_record kdf_defaults (replicate 32 b)"

definition A_ref :: aead_lib where
  "A_ref = aead_pair (1 # replicate 31 7, hdr_ref 7) (2 # replicate 31 8, hdr_ref 8)"

definition set_ref :: "string \<Rightarrow> files" where
  "set_ref dir = snd (mp_enable no_faults argon_ref A_ref (rnd_ref 7) dir [1] kdf_defaults hempty)"

lemma reads_ok_no_faults [simp]: "reads_ok no_faults dir"
  by (simp add: reads_ok_def no_faults_def)

lemma derive_ref: "mp_derive_key argon_ref pw salt p = Inr (take 32 (pw @ salt))"
  by (simp add: mp_derive_key_def argon2id_derive_def argon_ref_def KEY_LENGTH_def)

lemma enable_ref:
  assumes "length pw \<le> 32" and "A = aead_pair (take 32 (pw @ replicate 32 b), hdr_ref b) y"
  shows "mp_enable no_faults argon_ref A (rnd_ref b) dir pw kdf_defaults hempty =
    (Inr (take 32 (pw @ replicate 32 b)),
     snd (mp_enable no_faults argon_ref A (rnd_ref b) dir pw kdf_defaults hempty))"
  using assms by (simp add: mp_enable_def derive_ref rnd_ref_def encrypt_verifier_def aes_gcm_encrypt_raw_def
      AES_GCM_IV_LEN_def AES_GCM_KEY_LEN_def aead_pair_def mp_write_atomic_def write_bytes_atomic_def no_faults_def
      file_exists_def Let_def)

lemma set_ref_eq:
  "mp_enable no_faults argon_ref A_ref (rnd_ref 7) dir [1] kdf_defaults hempty = (Inr (1 # replicate 31 7), set_ref dir)"
proof -
  have "take 32 ([1] @ replicate 32 (7 :: byte)) = 1 # replicate 31 7" by simp
  with enable_ref [of "[1]" A_ref 7 "(2 # replicate 31 8, hdr_ref 8)" dir] show ?thesis by (simp add: A_ref_def set_ref_def)
qed

theorem enabled_password_verifies_witness:
  "verify_and_derive no_faults argon_ref A_ref ''/s'' [1] (set_ref ''/s'') = Inr (Some (1 # replicate 31 7))"
  by (rule enabled_password_verifies [OF _ params_ok_defaults _ reads_ok_no_faults set_ref_eq])
     (simp_all add: rnd_ref_def A_ref_def)

lemma verify_bound_record:
  assumes "reads_ok E dir" and "params_ok p" and "length salt = 32"
    and "enabled_with K A dir p salt nonce password key body d"
    and "aead_binds A key nonce (encode_kdf_record p salt) body"
    and "hget d' (join_path dir VERIFIER_FILE_NAME) = hget d (join_path dir VERIFIER_FILE_NAME)"
    and "verify_and_derive E K A dir password' d' = Inr (Some k)"
  shows "k = key \<and> mp_derive_key K password' salt p = Inr key \<and>
    (\<exists>kb. hget d' (join_path dir KDF_FILE_NAME) = Some kb \<and>
       decode_kdf_record kb = Inr \<lparr> kr_params = p, kr_salt = salt \<rparr>)"
proof -
  have v: "hget d' (join_path dir VERIFIER_FILE_NAME) = Some (nonce @ body)" "length nonce = 12"
    using assms(4,6) encrypt_raw_lengths by (auto simp: enabled_with_def)
  obtain kb r where r: "hget d' (join_path dir KDF_FILE_NAME) = Some kb" "decode_kdf_record kb = Inr r"
    "mp_derive_key K password' (kr_salt r) (kr_params r) = Inr k" "k = key"
    "encode_kdf_record (kr_params r) (kr_salt r) = encode_kdf_record p salt"
    using verify_only_bound [OF assms(1) v assms(5,7)] by blast
  have "r = \<lparr> kr_params = p, kr_salt = salt \<rparr>"
    using encode_kdf_record_inj [of r "\<lparr> kr_params = p, kr_salt = salt \<rparr>"] decode_record_ok [OF r(2)] r(5) assms(2,3)
    by (simp add: record_ok_def SALT_LENGTH_def)
  with r show ?thesis by auto
qed

text \<open>
  C15. Nothing else opens it: once a password is set, and as long as the verifier is the one that was
  written, a check succeeds only with a password that derives the same key under the same salt and
  parameters, whatever \<open>credentials.kdf\<close> holds by then.  A changed parameter or salt is refused,
  the fallback to verifiers without additional data included.
\<close>

theorem verifies_only_when_enabled:
  assumes "reads_ok E dir" and "params_ok p" and "length salt = 32"
    and "enabled_with K A dir p salt nonce password key body d"
    and "aead_binds A key nonce (encode_kdf_record p salt) body"
    and "hget d' (join_path dir VERIFIER_FILE_NAME) = hget d (join_path dir VERIFIER_FILE_NAME)"
    and "verify_and_derive E K A dir password' d' = Inr (Some k)"
  shows "k = key \<and> mp_derive_key K password' salt p = Inr key \<and>
    (\<exists>kb. hget d' (join_path dir KDF_FILE_NAME) = Some kb \<and>
       decode_kdf_record kb = Inr \<lparr> kr_params = p, kr_salt = salt \<rparr>)"
  using assms by (rule verify_bound_record)

lemma enabled_ref:
  "enabled_with argon_ref A_ref dir kdf_defaults (replicate 32 7) (replicate 12 9) [1]
     (1 # replicate 31 7) (VERIFIER_PLAINTEXT @ replicate 16 0) (set_ref dir)"
  using set_ref_eq [of dir]
proof (cases rule: mp_enable_cases)
  case (both k body)
  then have "body = VERIFIER_PLAINTEXT @ replicate 16 0"
    by (auto simp: enabled_with_def A_ref_def aes_gcm_encrypt_raw_def aead_pair_def rnd_ref_def split: if_splits)
  with both show ?thesis by (simp add: rnd_ref_def)
qed auto

lemma A_ref_binds: "aead_binds A_ref (1 # replicate 31 7) (replicate 12 9) (hdr_ref 7) (VERIFIER_PLAINTEXT @ replicate 16 0)"
  by (simp add: A_ref_def)

theorem verifies_only_when_enabled_witness:
  "\<not> (\<exists>k. verify_and_derive no_faults argon_ref A_ref ''/s'' [2] (set_ref ''/s'') = Inr (Some k))"
proof -
  have "mp_derive_key argon_ref [2] (replicate 32 7) kdf_defaults = Inr (1 # replicate 31 7)"
    if "verify_and_derive no_faults argon_ref A_ref ''/s'' [2] (set_ref ''/s'') = Inr (Some k)" for k
    using verifies_only_when_enabled [OF reads_ok_no_faults params_ok_defaults _ enabled_ref A_ref_binds refl that] by simp
  then show ?thesis by (auto simp: derive_ref)
qed

text \<open>
  The key derivation stays within the caps: the answer to a check depends on Argon2id only through
  its values at no more than 1 GiB, 16 passes and 8 lanes, whatever the files hold.
\<close>

theorem mp_kdf_within_caps:
  assumes "\<forall>pw salt m t p n. 0 < m \<and> m \<le> 1048576 \<and> 0 < t \<and> t \<le> 16 \<and> 0 < p \<and> p \<le> 8 \<longrightarrow>
    K pw salt m t p n = K' pw salt m t p n"
  shows "verify_and_derive E K A dir password d = verify_and_derive E K' A dir password d"
proof -
  have eq: "mp_derive_key K pw salt p = mp_derive_key K' pw salt p" if "params_ok p" for pw salt p
  proof -
    have "0 < unat (kp_memory_kib p)" "unat (kp_memory_kib p) \<le> 1048576" "0 < unat (kp_iterations p)"
      "unat (kp_iterations p) \<le> 16" "0 < unat (kp_parallelism p)" "unat (kp_parallelism p) \<le> 8"
      using that by (auto simp: params_ok_def mp_caps word_le_nat_alt word_less_nat_alt)
    with assms show ?thesis by (simp add: mp_derive_key_def argon2id_derive_def)
  qed
  have "read_kdf_record E dir d = Inr r \<Longrightarrow> params_ok (kr_params r)" for r
    using decode_record_ok by (auto simp: read_kdf_record_def Let_def record_ok_def split: if_splits sum.splits)
  then show ?thesis
    by (cases "read_kdf_record E dir d") (simp_all add: verify_and_derive_def eq Let_def split: sum.split)
qed

theorem mp_kdf_within_caps_witness:
  "verify_and_derive no_faults (\<lambda>pw s m t p n. if t > 16 then None else Some []) A_ref ''/s'' [1] (set_ref ''/s'') =
   verify_and_derive no_faults (\<lambda>pw s m t p n. if m > 1048576 then None else Some []) A_ref ''/s'' [1] (set_ref ''/s'')"
  by (rule mp_kdf_within_caps) simp

text \<open>
  The header is authenticated only after the derivation ran: a record with other parameters drives
  Argon2id with them, and when that fails (for lack of memory, say) the check reports the failure of
  the derivation, not a refused header.
\<close>

theorem tampered_params_reach_argon:
  assumes "reads_ok E dir" and "hget d (join_path dir KDF_FILE_NAME) = Some (encode_kdf_record p salt)"
    and "params_ok p" and "length salt = 32" and "file_exists d (join_path dir VERIFIER_FILE_NAME)"
    and "K password salt (unat (kp_memory_kib p)) (unat (kp_iterations p)) (unat (kp_parallelism p)) 32 = None"
  shows "verify_and_derive E K A dir password d = Inl (MpArgon KdfFailure)"
proof -
  obtain vb where v: "hget d (join_path dir VERIFIER_FILE_NAME) = Some vb" using assms(5) by (auto simp: file_exists_def)
  have "decode_kdf_record (encode_kdf_record p salt) = Inr \<lparr> kr_params = p, kr_salt = salt \<rparr>"
    using decode_encode_record [of "\<lparr> kr_params = p, kr_salt = salt \<rparr>"] assms(3,4) by (simp add: record_ok_def SALT_LENGTH_def)
  with assms(6) show ?thesis
    by (simp add: verify_and_derive_eq [OF assms(1,2) v] mp_derive_key_def argon2id_derive_def KEY_LENGTH_def)
qed

text \<open>
  C26. A password change is not atomic: when the new parameter record lands and the new verifier does not
  (a failed write, or a crash in between), no password opens the tier any more, the old and the new
  one included, because the old verifier is bound to the old record.
\<close>

theorem half_changed_password_locks_out:
  assumes "reads_ok E dir" and "params_ok p" and "params_ok p'" and "length salt = 32" and "length (rnd_salt rnd) = 32"
    and "enabled_with K A dir p salt nonce old_password key body d"
    and "aead_binds A key nonce (encode_kdf_record p salt) body"
    and "rnd_salt rnd \<noteq> salt"
    and "change_password E' K A rnd dir old_password new_password p' d = (Inl err, d')"
    and "hget d' (join_path dir KDF_FILE_NAME) \<noteq> hget d (join_path dir KDF_FILE_NAME)"
  shows "verify_and_derive E K A dir any_password d' \<noteq> Inr (Some k)"
proof
  assume ok: "verify_and_derive E K A dir any_password d' = Inr (Some k)"
  have "mp_enable E' K A rnd dir new_password p' d = (Inl err, d')"
    using assms(9,10) by (auto simp: change_password_def split: sum.splits option.splits)
  then have half: "hget d' (join_path dir KDF_FILE_NAME) = Some (encode_kdf_record p' (rnd_salt rnd))"
    "hget d' (join_path dir VERIFIER_FILE_NAME) = hget d (join_path dir VERIFIER_FILE_NAME)"
    using assms(10) by (cases rule: mp_enable_cases; auto)+
  have "decode_kdf_record (encode_kdf_record p' (rnd_salt rnd)) = Inr \<lparr> kr_params = p', kr_salt = rnd_salt rnd \<rparr>"
    using decode_encode_record [of "\<lparr> kr_params = p', kr_salt = rnd_salt rnd \<rparr>"] assms(3,5)
    by (simp add: record_ok_def SALT_LENGTH_def)
  with verify_bound_record [OF assms(1,2,4,6,7) half(2) ok] half(1) assms(8) show False by auto
qed

lemma set_ref_other:
  "q \<noteq> join_path dir KDF_FILE_NAME \<Longrightarrow> q \<noteq> join_path dir VERIFIER_FILE_NAME \<Longrightarrow> hget (set_ref dir) q = None"
  by (simp add: set_ref_def mp_enable_def derive_ref rnd_ref_def encrypt_verifier_def aes_gcm_encrypt_raw_def
      AES_GCM_IV_LEN_def AES_GCM_KEY_LEN_def A_ref_def aead_pair_def mp_write_atomic_def write_bytes_atomic_def
      no_faults_def file_exists_def Let_def)

text \<open>A disk on which the verifier cannot be replaced.\<close>

definition stuck_verifier :: "string \<Rightarrow> io_env" where
  "stuck_verifier dir =
     \<lparr> io_fault = (\<lambda>op. if op = FsRename (join_path dir VERIFIER_FILE_NAME) then Some ''No space left on device'' else None),
       io_partial = 0 \<rparr>"

theorem half_changed_password_locks_out_witness:
  "\<exists>err d'. change_password (stuck_verifier ''/s'') argon_ref A_ref (rnd_ref 8) ''/s'' [1] [2] kdf_defaults (set_ref ''/s'') = (Inl err, d') \<and>
     (\<forall>pw k. verify_and_derive no_faults argon_ref A_ref ''/s'' pw d' \<noteq> Inr (Some k))"
proof -
  let ?E = "stuck_verifier ''/s''"
  have v: "verify_and_derive ?E argon_ref A_ref ''/s'' [1] (set_ref ''/s'') = Inr (Some (1 # replicate 31 7))"
    by (rule verify_enabled [OF _ params_ok_defaults _ _ enabled_ref]) (simp_all add: A_ref_def reads_ok_def stuck_verifier_def)
  obtain r d' where c: "change_password ?E argon_ref A_ref (rnd_ref 8) ''/s'' [1] [2] kdf_defaults (set_ref ''/s'') = (r, d')"
    by fastforce
  then have e: "mp_enable ?E argon_ref A_ref (rnd_ref 8) ''/s'' [2] kdf_defaults (set_ref ''/s'') = (r, d')"
    by (simp add: change_password_def v)
  let ?p = "join_path ''/s'' KDF_FILE_NAME" and ?q = "join_path ''/s'' VERIFIER_FILE_NAME"
  have "\<not> file_exists (set_ref ''/s'') (tmp_path 1 ?p)" by (simp add: file_exists_def set_ref_other)
  then obtain d1 where w1: "write_bytes_atomic ?E 1 ?p (hdr_ref 8) (set_ref ''/s'') = (Inr (), d1)"
    by (rule write_atomic_succeeds [where E = ?E]) (simp_all add: stuck_verifier_def)
  obtain e2 d2 where w2: "write_bytes_atomic ?E 2 ?q (replicate 12 9 @ VERIFIER_PLAINTEXT @ replicate 16 1) d1 = (Inl e2, d2)"
    by (rule write_atomic_rename_fails [where E = ?E and p = ?q]) (simp add: stuck_verifier_def)
  have h: "hdr_ref 8 \<noteq> hdr_ref 7" by (simp add: encode_kdf_record_def Let_def)
  have "mp_enable ?E argon_ref A_ref (rnd_ref 8) ''/s'' [2] kdf_defaults (set_ref ''/s'') = (Inl (MpWrite e2), d2)"
    using w1 w2 h by (simp add: mp_enable_def derive_ref rnd_ref_def encrypt_verifier_def aes_gcm_encrypt_raw_def
        AES_GCM_IV_LEN_def AES_GCM_KEY_LEN_def A_ref_def aead_pair_def mp_write_atomic_def Let_def)
  with e have r: "r = Inl (MpWrite e2)" and d': "d' = d2" by simp_all
  have k: "hget d' ?p = Some (hdr_ref 8)"
    using af.replace_ok [OF w1, of ?p] af.replace_err [OF w2, of ?p] d'
    by (simp add: mp_paths [symmetric])
  have "hget (set_ref ''/s'') (join_path ''/s'' KDF_FILE_NAME) = Some (hdr_ref 7)"
    using enabled_ref by (simp add: enabled_with_def)
  with h have "verify_and_derive no_faults argon_ref A_ref ''/s'' pw d' \<noteq> Inr (Some k)" for pw k
    by (intro half_changed_password_locks_out [OF reads_ok_no_faults params_ok_defaults params_ok_defaults _ _
          enabled_ref A_ref_binds _ c [unfolded r]]) (simp_all add: rnd_ref_def k)
  with c r show ?thesis by blast
qed

lemma delete_each_ok:
  "delete_each E dir names d = (Inr u, d') \<Longrightarrow>
     hget d' q = (if q \<in> join_path dir ` set names then None else hget d q)"
proof (induction names arbitrary: d)
  case (Cons n names)
  then show ?case
    by (auto simp: remove_file_def file_exists_def Let_def split: if_splits option.splits)
qed simp

text \<open>
  A reset that reports success removed all three files and nothing else: the tier is no longer
  enabled and every password is answered with that.
\<close>

theorem reset_disables:
  assumes "mp_reset E dir d = (Inr (), d')"
  shows "\<not> mp_is_enabled dir d' \<and> verify_and_derive E' K A dir password d' = Inl MpNotEnabled \<and>
    hget d' (join_path dir KEY_FILE_NAME) = None \<and>
    (\<forall>q. q \<notin> join_path dir ` {KDF_FILE_NAME, VERIFIER_FILE_NAME, KEY_FILE_NAME} \<longrightarrow> hget d' q = hget d q)"
  using delete_each_ok [OF assms [unfolded mp_reset_def]]
  by (simp add: mp_is_enabled_def verify_and_derive_def read_kdf_record_def file_exists_def)

end
