(* ===== verification/Keychain_Actor.thy ===== *)
theory Keychain_Actor
  imports Support_Files Keychain_Gate Persisted_Limit
begin

text \<open>
  The commands of the keychain password gate, \<open>security/keychain_password_gate_actor.rs\<close>: set,
  verify and clear the password, and build the persisted rate limiter keyed to it.  They span two
  stores: the file with salt and tag in the support directory and the pepper in the keychain of the
  operating system.  The keychain is the one its interface documents (read, replace and delete by
  alias); which of its calls fail is the parameter \<open>kc_faults\<close>.  A blocking task that panics is not
  modelled.
\<close>

section \<open>Definitions\<close>

datatype kc_op = KcRead string | KcWrite string | KcDelete string

type_synonym kc_faults = "kc_op \<Rightarrow> string option"
type_synonym keychain = "(string, bytes) hmap"

definition kc_read :: "kc_faults \<Rightarrow> string \<Rightarrow> keychain \<Rightarrow> string + bytes option" where
  "kc_read F key kc = (case F (KcRead key) of Some e \<Rightarrow> Inl e | None \<Rightarrow> Inr (hget kc key))"

definition kc_write :: "kc_faults \<Rightarrow> string \<Rightarrow> bytes \<Rightarrow> keychain \<Rightarrow> (string + unit) \<times> keychain" where
  "kc_write F key v kc = (case F (KcWrite key) of Some e \<Rightarrow> (Inl e, kc) | None \<Rightarrow> (Inr (), hput key v kc))"

definition kc_delete :: "kc_faults \<Rightarrow> string \<Rightarrow> keychain \<Rightarrow> (string + unit) \<times> keychain" where
  "kc_delete F key kc = (case F (KcDelete key) of Some e \<Rightarrow> (Inl e, kc) | None \<Rightarrow> (Inr (), hdel key kc))"

definition PEPPER_KEY :: string where
  "PEPPER_KEY = ''letsflutssh_l2_pepper''"

definition RATE_LIMIT_STATE_FILE :: string where
  "RATE_LIMIT_STATE_FILE = ''rate_limit_state.bin''"

definition HASH_FILE_NAME :: string where
  "HASH_FILE_NAME = ''security_pass_hash.bin''"

definition gate_verify_password ::
  "io_env \<Rightarrow> kc_faults \<Rightarrow> json_lib \<Rightarrow> b64_lib \<Rightarrow> crypto_lib \<Rightarrow> string \<Rightarrow> bytes \<Rightarrow> files \<Rightarrow> keychain \<Rightarrow> string + bool" where
  "gate_verify_password E F J B C dir password d kc =
     (case read_bytes_secure E d (join_path dir HASH_FILE_NAME) of
        Inl IoNotFound \<Rightarrow> Inr False
      | Inl (IoOther e) \<Rightarrow> Inl (''T1+pw verify: read hash file: '' @ e)
      | Inr raw \<Rightarrow>
          (case from_utf8 raw of
             None \<Rightarrow> Inr False
           | Some blob_str \<Rightarrow>
               (case decode_disk_blob J B blob_str of
                  Inl _ \<Rightarrow> Inr False
                | Inr decoded \<Rightarrow>
                    (case kc_read F PEPPER_KEY kc of
                       Inr (Some pepper) \<Rightarrow>
                         (if pepper \<noteq> []
                          then Inr (constant_time_eq (compute_gate_hmac C pepper (blob_salt decoded) password) (blob_hmac decoded))
                          else Inr False)
                     | Inr None \<Rightarrow> Inr False
                     | Inl _ \<Rightarrow> Inr False))))"

definition is_configured :: "kc_faults \<Rightarrow> string \<Rightarrow> files \<Rightarrow> keychain \<Rightarrow> string + bool" where
  "is_configured F dir d kc =
     (if \<not> file_exists d (join_path dir HASH_FILE_NAME) then Inr False
      else case kc_read F PEPPER_KEY kc of
             Inr (Some bs) \<Rightarrow> Inr (bs \<noteq> [])
           | Inr None \<Rightarrow> Inr False
           | Inl _ \<Rightarrow> Inr False)"

definition read_decoded_blob ::
  "io_env \<Rightarrow> json_lib \<Rightarrow> b64_lib \<Rightarrow> string \<Rightarrow> files \<Rightarrow> string + DiskBlob option" where
  "read_decoded_blob E J B dir d =
     (case read_bytes_secure E d (join_path dir HASH_FILE_NAME) of
        Inl IoNotFound \<Rightarrow> Inr None
      | Inl (IoOther e) \<Rightarrow> Inl (''read decoded blob: read hash file: '' @ e)
      | Inr raw \<Rightarrow>
          (case from_utf8 raw of
             None \<Rightarrow> Inr None
           | Some blob_str \<Rightarrow>
               (case decode_disk_blob J B blob_str of Inl _ \<Rightarrow> Inr None | Inr b \<Rightarrow> Inr (Some b))))"

text \<open>The fresh handle id is an argument; the files are those of the limiter's disk.\<close>

definition build_persisted_rate_limiter ::
  "io_env \<Rightarrow> json_lib \<Rightarrow> b64_lib \<Rightarrow> crypto_lib \<Rightarrow> string \<Rightarrow> int \<Rightarrow> string \<Rightarrow> plimits \<Rightarrow> (string + string option) \<times> plimits" where
  "build_persisted_rate_limiter E J B C handle now dir w =
     (case read_decoded_blob E J B dir (w_disk w) of
        Inl e \<Rightarrow> (Inl e, w)
      | Inr None \<Rightarrow> (Inr None, w)
      | Inr (Some decoded) \<Rightarrow>
          (case create_dir_all_secure E dir of
             Inl e \<Rightarrow> (Inl (''build persisted rate limiter: create support dir: '' @ e), w)
           | Inr _ \<Rightarrow>
               (Inr (Some handle),
                snd (init_or_get J B C handle (join_path dir RATE_LIMIT_STATE_FILE) (blob_hmac decoded) now w))))"

text \<open>The random salt, pepper and file suffix are arguments.\<close>

definition gate_set_password ::
  "io_env \<Rightarrow> kc_faults \<Rightarrow> b64_lib \<Rightarrow> crypto_lib \<Rightarrow> bytes \<Rightarrow> bytes \<Rightarrow> 32 word \<Rightarrow> string \<Rightarrow> bytes \<Rightarrow> files \<Rightarrow> keychain
     \<Rightarrow> (string + unit) \<times> files \<times> keychain" where
  "gate_set_password E F B C salt pepper suffix dir password d kc =
     (let blob = encode_disk_blob B salt (compute_gate_hmac C pepper salt password);
          hash_path = join_path dir HASH_FILE_NAME
      in case create_dir_all_secure E dir of
           Inl e \<Rightarrow> (Inl (''T1+pw set_password: create support dir: '' @ e), d, kc)
         | Inr _ \<Rightarrow>
             (case write_bytes_atomic E suffix hash_path (str_bytes blob) d of
                (Inl e, d1) \<Rightarrow> (Inl (''T1+pw set_password: atomic write: '' @ e), d1, kc)
              | (Inr _, d1) \<Rightarrow>
                  (case kc_write F PEPPER_KEY pepper kc of
                     (Inl write_err, kc1) \<Rightarrow>
                       (case remove_file E hash_path d1 of
                          (Inl _, d2) \<Rightarrow>
                            (Inl (''T1+pw set_password: keychain write failed ('' @ write_err @
                                  ''); rollback delete failed''), d2, kc1)
                        | (Inr _, d2) \<Rightarrow>
                            (Inl (''T1+pw set_password: keychain write failed ('' @ write_err @
                                  ''); rolled back disk hash''), d2, kc1))
                   | (Inr _, kc1) \<Rightarrow>
                       (Inr (), snd (remove_file E (join_path dir RATE_LIMIT_STATE_FILE) d1), kc1))))"

definition gate_clear ::
  "io_env \<Rightarrow> kc_faults \<Rightarrow> string \<Rightarrow> files \<Rightarrow> keychain \<Rightarrow> (string list + unit) \<times> files \<times> keychain" where
  "gate_clear E F dir d kc =
     (let (r1, d1) = remove_file E (join_path dir HASH_FILE_NAME) d;
          (r2, kc1) = kc_delete F PEPPER_KEY kc;
          errors = (case r1 of Inl (IoOther e) \<Rightarrow> [''disk hash delete: '' @ e] | _ \<Rightarrow> []) @
                   (case r2 of Inl e \<Rightarrow> [''keychain delete: '' @ e] | Inr _ \<Rightarrow> [])
      in (if errors = [] then Inr () else Inl errors, d1, kc1))"

section \<open>Verification\<close>

lemmas gate_names = PEPPER_KEY_def RATE_LIMIT_STATE_FILE_def HASH_FILE_NAME_def

text \<open>The parser reads the envelope of a salt and a tag as the object it spells.\<close>

definition blob_reads :: "json_lib \<Rightarrow> b64_lib \<Rightarrow> bytes \<Rightarrow> bytes \<Rightarrow> bool" where
  "blob_reads J B salt hmac \<longleftrightarrow>
     b64_ok B \<and> salt \<noteq> [] \<and> hmac \<noteq> [] \<and> utf8_ok (str_bytes (encode_disk_blob B salt hmac)) \<and>
     json_parse J (encode_disk_blob B salt hmac) = Some (blob_json B salt hmac)"

text \<open>The file holds the envelope of this salt and tag and can be read.\<close>

definition hash_is :: "io_env \<Rightarrow> json_lib \<Rightarrow> b64_lib \<Rightarrow> string \<Rightarrow> bytes \<Rightarrow> bytes \<Rightarrow> files \<Rightarrow> bool" where
  "hash_is E J B dir salt hmac d \<longleftrightarrow>
     blob_reads J B salt hmac \<and> io_fault E (FsRead (join_path dir HASH_FILE_NAME)) = None \<and>
     hget d (join_path dir HASH_FILE_NAME) = Some (str_bytes (encode_disk_blob B salt hmac))"

lemma read_decoded_hash:
  assumes "hash_is E J B dir salt hmac d"
  shows "read_decoded_blob E J B dir d = Inr (Some \<lparr> blob_salt = salt, blob_hmac = hmac \<rparr>)"
  using assms decode_blob_json [of J "encode_disk_blob B salt hmac" B salt hmac]
  by (simp add: hash_is_def blob_reads_def read_decoded_blob_def read_bytes_secure_def from_utf8_def)

lemma verify_hash:
  assumes "hash_is E J B dir salt hmac d" and "F (KcRead PEPPER_KEY) = None" and "hget kc PEPPER_KEY = Some pepper" and "pepper \<noteq> []"
  shows "gate_verify_password E F J B C dir password d kc = Inr (compute_gate_hmac C pepper salt password = hmac)"
  using assms decode_blob_json [of J "encode_disk_blob B salt hmac" B salt hmac]
  by (simp add: hash_is_def blob_reads_def gate_verify_password_def read_bytes_secure_def from_utf8_def kc_read_def)

lemma gate_paths [simp]:
  "HASH_FILE_NAME \<noteq> RATE_LIMIT_STATE_FILE" "RATE_LIMIT_STATE_FILE \<noteq> HASH_FILE_NAME"
  "HASH_FILE_NAME \<noteq> tmp_path r HASH_FILE_NAME" "RATE_LIMIT_STATE_FILE \<noteq> tmp_path r HASH_FILE_NAME"
  by (simp_all add: gate_names tmp_path_def)

text \<open>What a call of \<open>set_password\<close> leaves behind, by outcome.\<close>

lemma set_password_cases:
  assumes "gate_set_password E F B C salt pepper suffix dir password d kc = (res, d', kc')"
  obtains (unchanged) e where "res = Inl e" "hget d' (join_path dir HASH_FILE_NAME) = hget d (join_path dir HASH_FILE_NAME)" "kc' = kc"
  | (removed) e where "res = Inl e" "hget d' (join_path dir HASH_FILE_NAME) = None" "kc' = kc"
  | (mixed) e where "res = Inl e" "kc' = kc" "hget d' (join_path dir HASH_FILE_NAME) =
      Some (str_bytes (encode_disk_blob B salt (compute_gate_hmac C pepper salt password)))"
  | (set) "res = Inr ()" "kc' = hput PEPPER_KEY pepper kc"
      "hget d' (join_path dir HASH_FILE_NAME) = Some (str_bytes (encode_disk_blob B salt (compute_gate_hmac C pepper salt password)))"
      "io_fault E (FsRemove (join_path dir RATE_LIMIT_STATE_FILE)) = None \<longrightarrow> hget d' (join_path dir RATE_LIMIT_STATE_FILE) = None"
proof (cases "create_dir_all_secure E dir")
  case (Inl e)
  with assms show ?thesis by (auto simp: gate_set_password_def Let_def intro: unchanged)
next
  case mk: (Inr u)
  let ?p = "join_path dir HASH_FILE_NAME"
  let ?b = "str_bytes (encode_disk_blob B salt (compute_gate_hmac C pepper salt password))"
  obtain r1 d1 where w: "write_bytes_atomic E suffix ?p ?b d = (r1, d1)" by fastforce
  show ?thesis
  proof (cases r1)
    case (Inl e)
    with w assms mk af.replace_err [OF w [unfolded Inl], of ?p] show ?thesis
      by (auto simp: gate_set_password_def Let_def intro: unchanged)
  next
    case (Inr u)
    have h: "hget d1 ?p = Some ?b" using af.replace_ok [OF w [unfolded Inr], of ?p] by simp
    show ?thesis
    proof (cases "F (KcWrite PEPPER_KEY)")
      case None
      with w Inr assms mk h show ?thesis
        by (auto simp: gate_set_password_def Let_def kc_write_def hget_remove_file intro: set)
    next
      case (Some we)
      have r: "remove_file E ?p d1 = (case io_fault E (FsRemove ?p) of
          Some e \<Rightarrow> (Inl (IoOther e), d1) | None \<Rightarrow> (Inr (), hdel ?p d1))"
        using h by (simp add: remove_file_def)
      with Some w Inr assms mk h show ?thesis
        by (cases "io_fault E (FsRemove ?p)")
           (auto simp: gate_set_password_def Let_def kc_write_def intro: removed mixed)
    qed
  qed
qed

section \<open>A concrete gate\<close>

definition J_gate :: "bytes \<Rightarrow> bytes \<Rightarrow> json_lib" where
  "J_gate salt hmac =
     \<lparr> json_parse = (\<lambda>s. if s = encode_disk_blob b64_ref salt hmac then Some (blob_json b64_ref salt hmac) else None),
       json_print = (\<lambda>v. []) \<rparr>"

lemma blob_reads_ref: "blob_reads (J_gate [65] [66, 65, 67]) b64_ref [65] [66, 65, 67]"
proof -
  have "utf8_ok (str_bytes (encode_disk_blob b64_ref [65] [66, 65, 67]))" by code_simp
  then show ?thesis by (simp add: blob_reads_def J_gate_def)
qed

lemma hmac_ref [simp]: "compute_gate_hmac crypto_ref pepper salt password = pepper @ salt @ password"
  by (simp add: compute_gate_hmac_def crypto_ref_def)

definition set_gate :: "io_env \<Rightarrow> kc_faults \<Rightarrow> files \<Rightarrow> keychain \<Rightarrow> (string + unit) \<times> files \<times> keychain" where
  "set_gate E F d kc = gate_set_password E F b64_ref crypto_ref [65] [66] 1 ''/s'' [67] d kc"

lemma set_gate_ok: "set_gate no_faults (\<lambda>_. None) hempty hempty = (Inr (), snd (set_gate no_faults (\<lambda>_. None) hempty hempty))"
  by (simp add: set_gate_def gate_set_password_def create_dir_all_secure_def no_faults_def kc_write_def write_bytes_atomic_def
      file_exists_def Let_def)

section \<open>Properties\<close>

text \<open>
  After the password was set, a check accepts exactly the passwords that give the same tag: the
  password itself, and no other unless HMAC collides.
\<close>

theorem set_password_verifies:
  assumes "blob_reads J B salt (compute_gate_hmac C pepper salt password)" and "pepper \<noteq> []"
    and "io_fault E (FsRead (join_path dir HASH_FILE_NAME)) = None" and "F (KcRead PEPPER_KEY) = None"
    and "gate_set_password E' F' B C salt pepper suffix dir password d kc = (Inr (), d', kc')"
  shows "gate_verify_password E F J B C dir guess d' kc' =
      Inr (compute_gate_hmac C pepper salt guess = compute_gate_hmac C pepper salt password) \<and>
    is_configured F dir d' kc' = Inr True"
  using assms(5)
proof (cases rule: set_password_cases)
  case set
  then have "hash_is E J B dir salt (compute_gate_hmac C pepper salt password) d'"
    using assms(1,3) by (simp add: hash_is_def)
  from verify_hash [OF this, of F] set assms(2,4) show ?thesis
    by (simp add: is_configured_def file_exists_def kc_read_def)
qed auto

theorem set_password_verifies_witness:
  "case set_gate no_faults (\<lambda>_. None) hempty hempty of (r, d', kc') \<Rightarrow>
     gate_verify_password no_faults (\<lambda>_. None) (J_gate [65] [66, 65, 67]) b64_ref crypto_ref ''/s'' [67] d' kc' = Inr True \<and>
     gate_verify_password no_faults (\<lambda>_. None) (J_gate [65] [66, 65, 67]) b64_ref crypto_ref ''/s'' [68] d' kc' = Inr False"
proof -
  obtain d' kc' where s: "set_gate no_faults (\<lambda>_. None) hempty hempty = (Inr (), d', kc')"
    using set_gate_ok by (metis surj_pair)
  have "gate_verify_password no_faults (\<lambda>_. None) (J_gate [65] [66, 65, 67]) b64_ref crypto_ref ''/s'' guess d' kc' =
      Inr (compute_gate_hmac crypto_ref [66] [65] guess = compute_gate_hmac crypto_ref [66] [65] [67])" for guess
    by (rule set_password_verifies [THEN conjunct1, OF _ _ _ _ s [unfolded set_gate_def]])
       (simp_all add: blob_reads_ref no_faults_def)
  with s show ?thesis by simp
qed

text \<open>
  A call that fails because the keychain refused the new pepper does not keep the old password:
  either the old envelope is gone and the gate counts as not configured, or (when the delete fails
  as well) the new envelope stands beside the old pepper and a check compares tags made with
  different peppers.  A crash between the two writes leaves the second state.
\<close>

theorem failed_set_password_loses_gate:
  assumes "blob_reads J B salt (compute_gate_hmac C pepper salt password)"
    and "io_fault E (FsRead (join_path dir HASH_FILE_NAME)) = None" and "F (KcRead PEPPER_KEY) = None"
    and "hget kc PEPPER_KEY = Some old_pepper" and "old_pepper \<noteq> []"
    and "gate_set_password E' F' B C salt pepper suffix dir password d kc = (Inl err, d', kc')"
    and "hget d' (join_path dir HASH_FILE_NAME) \<noteq> hget d (join_path dir HASH_FILE_NAME)"
  shows "(is_configured F dir d' kc' = Inr False \<and> gate_verify_password E F J B C dir guess d' kc' = Inr False) \<or>
    (is_configured F dir d' kc' = Inr True \<and>
     gate_verify_password E F J B C dir guess d' kc' =
       Inr (compute_gate_hmac C old_pepper salt guess = compute_gate_hmac C pepper salt password))"
  using assms(6)
proof (cases rule: set_password_cases)
  case (removed e)
  then show ?thesis by (simp add: is_configured_def file_exists_def gate_verify_password_def read_bytes_secure_def)
next
  case (mixed e)
  then have "hash_is E J B dir salt (compute_gate_hmac C pepper salt password) d'"
    using assms(1,2) by (simp add: hash_is_def)
  from verify_hash [OF this, of F] mixed assms(3-5) show ?thesis
    by (simp add: is_configured_def file_exists_def kc_read_def)
qed (use assms(7) in auto)

definition stuck_hash :: io_env where
  "stuck_hash = \<lparr> io_fault = (\<lambda>op. if op = FsRemove (join_path ''/s'' HASH_FILE_NAME) then Some ''denied'' else None), io_partial = 0 \<rparr>"

abbreviation no_kc_write :: kc_faults where
  "no_kc_write \<equiv> \<lambda>op. if op = KcWrite PEPPER_KEY then Some ''locked'' else None"

theorem failed_set_password_loses_gate_witness:
  "\<exists>err d' kc'. set_gate stuck_hash no_kc_write hempty (hput PEPPER_KEY [1] hempty) = (Inl err, d', kc') \<and>
     gate_verify_password no_faults (\<lambda>_. None) (J_gate [65] [66, 65, 67]) b64_ref crypto_ref ''/s'' [67] d' kc' = Inr False"
proof -
  obtain err d' kc' where s: "set_gate stuck_hash no_kc_write hempty (hput PEPPER_KEY [1] hempty) = (Inl err, d', kc')"
    and h: "hget d' (join_path ''/s'' HASH_FILE_NAME) \<noteq> None"
    by (auto simp: set_gate_def gate_set_password_def create_dir_all_secure_def stuck_hash_def kc_write_def write_bytes_atomic_def
        file_exists_def remove_file_def Let_def)
  have "(is_configured (\<lambda>_. None) ''/s'' d' kc' = Inr False \<and>
       gate_verify_password no_faults (\<lambda>_. None) (J_gate [65] [66, 65, 67]) b64_ref crypto_ref ''/s'' [67] d' kc' = Inr False) \<or>
    (is_configured (\<lambda>_. None) ''/s'' d' kc' = Inr True \<and>
     gate_verify_password no_faults (\<lambda>_. None) (J_gate [65] [66, 65, 67]) b64_ref crypto_ref ''/s'' [67] d' kc' =
       Inr (compute_gate_hmac crypto_ref [1] [65] [67] = compute_gate_hmac crypto_ref [66] [65] [67]))"
    by (rule failed_set_password_loses_gate [OF _ _ _ _ _ s [unfolded set_gate_def]])
       (use h in \<open>simp_all add: blob_reads_ref no_faults_def\<close>)
  with s show ?thesis by auto
qed

text \<open>Clearing without an error leaves nothing that a check or a limiter could use.\<close>

theorem clear_unconfigures:
  assumes "gate_clear E F dir d kc = (Inr (), d', kc')"
  shows "is_configured F' dir d' kc' = Inr False \<and> gate_verify_password E' F' J B C dir password d' kc' = Inr False \<and>
    read_decoded_blob E' J B dir d' = Inr None \<and> hget kc' PEPPER_KEY = None"
proof -
  have "hget d' (join_path dir HASH_FILE_NAME) = None" "hget kc' PEPPER_KEY = None"
    using assms by (auto simp: gate_clear_def Let_def remove_file_def kc_delete_def split: option.splits if_splits)
  then show ?thesis
    by (simp add: is_configured_def file_exists_def gate_verify_password_def read_decoded_blob_def read_bytes_secure_def)
qed

theorem clear_unconfigures_witness:
  "case gate_clear no_faults (\<lambda>_. None) ''/s'' hempty (hput PEPPER_KEY [66] hempty) of (r, d', kc') \<Rightarrow>
     r = Inr () \<and> is_configured (\<lambda>_. None) ''/s'' d' kc' = Inr False"
proof -
  obtain d' kc' where "gate_clear no_faults (\<lambda>_. None) ''/s'' hempty (hput PEPPER_KEY [66] hempty) = (Inr (), d', kc')"
    by (simp add: gate_clear_def remove_file_def kc_delete_def)
  with clear_unconfigures [OF this] show ?thesis by simp
qed

text \<open>
  A fresh password starts with a clean limiter: after it was set (and the old state file could be
  removed), the limiter that is built under a new handle is keyed to the new tag, has no failures and
  no cooldown.
\<close>

theorem fresh_password_fresh_limiter:
  assumes "blob_reads J B salt (compute_gate_hmac C pepper salt password)"
    and "io_fault E (FsRead (join_path dir HASH_FILE_NAME)) = None" and "io_fault E (FsMkdir dir) = None"
    and "io_fault E' (FsRemove (join_path dir RATE_LIMIT_STATE_FILE)) = None"
    and "gate_set_password E' F B C salt pepper suffix dir password (w_disk w) kc = (Inr (), d', kc')"
    and "hget (w_entries w) handle = None"
  shows "\<exists>w'. build_persisted_rate_limiter E J B C handle now dir (w\<lparr> w_disk := d' \<rparr>) = (Inr (Some handle), w') \<and>
    p_status handle now w' = \<lparr> failure_count = 0, cooldown_remaining_ms = 0 \<rparr> \<and>
    map_option e_hmac_key (hget (w_entries w') handle) = Some (compute_gate_hmac C pepper salt password)"
  using assms(5)
proof (cases rule: set_password_cases)
  case set
  then have "hash_is E J B dir salt (compute_gate_hmac C pepper salt password) d'"
    using assms(1,2) by (simp add: hash_is_def)
  from read_decoded_hash [OF this] set assms(3,4,6) show ?thesis
    by (simp add: build_persisted_rate_limiter_def create_dir_all_secure_def init_or_get_def Let_def p_status_def
        read_state_def snapshot_status_def zero_state_def)
qed auto

theorem fresh_password_fresh_limiter_witness:
  "\<exists>w'. build_persisted_rate_limiter no_faults (J_gate [65] [66, 65, 67]) b64_ref crypto_ref ''h'' 5 ''/s''
      \<lparr> w_entries = hempty, w_disk = fst (snd (set_gate no_faults (\<lambda>_. None) hempty hempty)), w_jobs = [] \<rparr> = (Inr (Some ''h''), w') \<and>
    p_status ''h'' 5 w' = \<lparr> failure_count = 0, cooldown_remaining_ms = 0 \<rparr>"
proof -
  obtain d' kc' where s: "set_gate no_faults (\<lambda>_. None) hempty hempty = (Inr (), d', kc')"
    using set_gate_ok by (metis surj_pair)
  have "\<exists>w'. build_persisted_rate_limiter no_faults (J_gate [65] [66, 65, 67]) b64_ref crypto_ref ''h'' 5 ''/s''
      (\<lparr> w_entries = hempty, w_disk = hempty, w_jobs = [] \<rparr>\<lparr> w_disk := d' \<rparr>) = (Inr (Some ''h''), w') \<and>
    p_status ''h'' 5 w' = \<lparr> failure_count = 0, cooldown_remaining_ms = 0 \<rparr> \<and>
    map_option e_hmac_key (hget (w_entries w') ''h'') = Some (compute_gate_hmac crypto_ref [66] [65] [67])"
    by (rule fresh_password_fresh_limiter) (use s in \<open>simp_all add: blob_reads_ref no_faults_def set_gate_def\<close>)
  with s show ?thesis by auto
qed

end
