(* ===== verification/App_Config.thy ===== *)
theory App_Config
  imports Complex_Main Interfaces Security_Config
begin

text \<open>
  The persisted preferences of \<open>config/mod.rs\<close> and the capability snapshot of
  \<open>security/capabilities.rs\<close>: defaults, validation, sanitising, the flat JSON object and its reader,
  and the export filter.  An \<open>f64\<close> is a rational (every finite one is), and its conversion from and
  to a JSON number, which \<open>serde_json\<close> does, is the parameter \<open>f64_lib\<close>.  A JSON object is its
  list of entries; no reader depends on their order.
\<close>

section \<open>Capabilities\<close>

datatype KeyringProbeResult = KpAvailable | KpLinuxNoSecretService | KpProbeFailed

definition probe_wire_name :: "KeyringProbeResult \<Rightarrow> string" where
  "probe_wire_name p = (case p of KpAvailable \<Rightarrow> ''available'' | KpLinuxNoSecretService \<Rightarrow> ''linuxNoSecretService''
                        | KpProbeFailed \<Rightarrow> ''probeFailed'')"

definition probe_from_wire_name :: "string \<Rightarrow> KeyringProbeResult option" where
  "probe_from_wire_name s =
     (if s = ''available'' then Some KpAvailable
      else if s = ''linuxNoSecretService'' then Some KpLinuxNoSecretService
      else if s = ''probeFailed'' then Some KpProbeFailed
      else None)"

record SecurityCapabilities =
  cap_keychain_available :: bool
  cap_hardware_vault_available :: bool
  cap_biometric_available :: bool
  cap_fprintd_available :: bool
  cap_is_linux_host :: bool
  cap_keychain_probe :: KeyringProbeResult
  cap_hardware_probe_code :: string

definition cap_defaults :: SecurityCapabilities where
  "cap_defaults = \<lparr> cap_keychain_available = False, cap_hardware_vault_available = False,
     cap_biometric_available = False, cap_fprintd_available = False, cap_is_linux_host = False,
     cap_keychain_probe = KpProbeFailed, cap_hardware_probe_code = ''unknown'' \<rparr>"

definition can_offer_biometric_modifier :: "SecurityCapabilities \<Rightarrow> bool" where
  "can_offer_biometric_modifier c =
     (if cap_is_linux_host c then cap_biometric_available c \<or> cap_fprintd_available c
      else cap_biometric_available c)"

definition bool_or_false :: "json option \<Rightarrow> bool" where
  "bool_or_false v \<longleftrightarrow> v = Some (JBool True)"

definition cap_to_json_value :: "SecurityCapabilities \<Rightarrow> json" where
  "cap_to_json_value c = JObj
     [(''keychain_available'', JBool (cap_keychain_available c)),
      (''hardware_vault_available'', JBool (cap_hardware_vault_available c)),
      (''biometric_available'', JBool (cap_biometric_available c)),
      (''fprintd_available'', JBool (cap_fprintd_available c)),
      (''is_linux_host'', JBool (cap_is_linux_host c)),
      (''keychain_probe'', JStr (probe_wire_name (cap_keychain_probe c))),
      (''hardware_probe_code'', JStr (cap_hardware_probe_code c))]"

definition cap_from_json_value :: "json \<Rightarrow> SecurityCapabilities option" where
  "cap_from_json_value v =
     (case as_object v of None \<Rightarrow> None | Some obj \<Rightarrow>
      case field as_str ''keychain_probe'' obj of None \<Rightarrow> None | Some probe_name \<Rightarrow>
      case probe_from_wire_name probe_name of None \<Rightarrow> None | Some probe \<Rightarrow>
      case field as_str ''hardware_probe_code'' obj of None \<Rightarrow> None | Some hardware_code \<Rightarrow>
        Some \<lparr> cap_keychain_available = bool_or_false (map_of obj ''keychain_available''),
               cap_hardware_vault_available = bool_or_false (map_of obj ''hardware_vault_available''),
               cap_biometric_available = bool_or_false (map_of obj ''biometric_available''),
               cap_fprintd_available = bool_or_false (map_of obj ''fprintd_available''),
               cap_is_linux_host = bool_or_false (map_of obj ''is_linux_host''),
               cap_keychain_probe = probe,
               cap_hardware_probe_code = hardware_code \<rparr>)"

section \<open>Terminal, SSH and window settings\<close>

record f64_lib =
  f64_of_json :: "json \<Rightarrow> rat option"
  f64_to_json :: "rat \<Rightarrow> json"

definition f64_clamp :: "rat \<Rightarrow> rat \<Rightarrow> rat \<Rightarrow> rat" where
  "f64_clamp lo hi x = (if x < lo then lo else if x > hi then hi else x)"

record TerminalConfig =
  tc_font_size :: rat
  tc_theme :: string
  tc_scrollback :: int

definition terminal_default :: TerminalConfig where
  "terminal_default = \<lparr> tc_font_size = 14, tc_theme = ''system'', tc_scrollback = 5000 \<rparr>"

definition VALID_THEMES :: "string list" where
  "VALID_THEMES = [''dark'', ''light'', ''system'']"

definition MAX_SCROLLBACK :: int where
  "MAX_SCROLLBACK = 100000"

definition terminal_validate :: "TerminalConfig \<Rightarrow> string option" where
  "terminal_validate t =
     (if \<not> (6 \<le> tc_font_size t \<and> tc_font_size t \<le> 72) then Some ''Font size must be 6-72''
      else if tc_theme t \<notin> set VALID_THEMES then Some ''Theme must be one of: dark, light, system''
      else if tc_scrollback t < 100 then Some ''Scrollback must be at least 100''
      else None)"

definition terminal_sanitized :: "TerminalConfig \<Rightarrow> TerminalConfig" where
  "terminal_sanitized t =
     \<lparr> tc_font_size = f64_clamp 6 72 (tc_font_size t),
       tc_theme = (if tc_theme t \<in> set VALID_THEMES then tc_theme t else tc_theme terminal_default),
       tc_scrollback = (if tc_scrollback t < 100 then tc_scrollback terminal_default
                        else if tc_scrollback t > MAX_SCROLLBACK then MAX_SCROLLBACK
                        else tc_scrollback t) \<rparr>"

definition terminal_to_json :: "f64_lib \<Rightarrow> TerminalConfig \<Rightarrow> (string \<times> json) list" where
  "terminal_to_json L t =
     [(''font_size'', f64_to_json L (tc_font_size t)), (''theme'', JStr (tc_theme t)),
      (''scrollback'', JInt (tc_scrollback t))]"

definition or_default :: "'a \<Rightarrow> 'a option \<Rightarrow> 'a" where
  "or_default d x = (case x of Some v \<Rightarrow> v | None \<Rightarrow> d)"

definition terminal_from_json :: "f64_lib \<Rightarrow> (string \<times> json) list \<Rightarrow> TerminalConfig" where
  "terminal_from_json L obj = terminal_sanitized
     \<lparr> tc_font_size = or_default (tc_font_size terminal_default) (field (f64_of_json L) ''font_size'' obj),
       tc_theme = or_default (tc_theme terminal_default) (field as_str ''theme'' obj),
       tc_scrollback = or_default (tc_scrollback terminal_default) (field as_i64 ''scrollback'' obj) \<rparr>"

record SshDefaults =
  sd_keepalive_sec :: int
  sd_default_port :: int
  sd_ssh_timeout_sec :: int
  sd_verbose_connection_log :: bool

definition ssh_default :: SshDefaults where
  "ssh_default = \<lparr> sd_keepalive_sec = 30, sd_default_port = 22, sd_ssh_timeout_sec = 10,
     sd_verbose_connection_log = False \<rparr>"

definition ssh_validate :: "SshDefaults \<Rightarrow> string option" where
  "ssh_validate s =
     (if sd_keepalive_sec s < 0 then Some ''Keep-alive must be non-negative''
      else if \<not> (1 \<le> sd_default_port s \<and> sd_default_port s \<le> 65535) then Some ''Port must be 1-65535''
      else if sd_ssh_timeout_sec s < 1 then Some ''SSH timeout must be at least 1 second''
      else None)"

definition ssh_sanitized :: "SshDefaults \<Rightarrow> SshDefaults" where
  "ssh_sanitized s =
     \<lparr> sd_keepalive_sec = (if sd_keepalive_sec s < 0 then sd_keepalive_sec ssh_default else sd_keepalive_sec s),
       sd_default_port = (if \<not> (1 \<le> sd_default_port s \<and> sd_default_port s \<le> 65535)
                          then sd_default_port ssh_default else sd_default_port s),
       sd_ssh_timeout_sec = (if sd_ssh_timeout_sec s < 1 then sd_ssh_timeout_sec ssh_default else sd_ssh_timeout_sec s),
       sd_verbose_connection_log = sd_verbose_connection_log s \<rparr>"

definition ssh_to_json :: "SshDefaults \<Rightarrow> (string \<times> json) list" where
  "ssh_to_json s =
     [(''keepalive_sec'', JInt (sd_keepalive_sec s)), (''default_port'', JInt (sd_default_port s)),
      (''ssh_timeout_sec'', JInt (sd_ssh_timeout_sec s)),
      (''verbose_connection_log'', JBool (sd_verbose_connection_log s))]"

definition ssh_from_json :: "(string \<times> json) list \<Rightarrow> SshDefaults" where
  "ssh_from_json obj = ssh_sanitized
     \<lparr> sd_keepalive_sec = or_default (sd_keepalive_sec ssh_default) (field as_i64 ''keepalive_sec'' obj),
       sd_default_port = or_default (sd_default_port ssh_default) (field as_i64 ''default_port'' obj),
       sd_ssh_timeout_sec = or_default (sd_ssh_timeout_sec ssh_default) (field as_i64 ''ssh_timeout_sec'' obj),
       sd_verbose_connection_log =
         or_default (sd_verbose_connection_log ssh_default) (field as_bool ''verbose_connection_log'' obj) \<rparr>"

record UiConfig =
  ui_toast_duration_ms :: int
  ui_window_width :: rat
  ui_window_height :: rat
  ui_scale :: rat
  ui_show_folder_sizes :: bool

definition ui_default :: UiConfig where
  "ui_default = \<lparr> ui_toast_duration_ms = 4000, ui_window_width = 1100, ui_window_height = 650, ui_scale = 1,
     ui_show_folder_sizes = False \<rparr>"

definition ui_validate :: "UiConfig \<Rightarrow> string option" where
  "ui_validate u =
     (if ui_toast_duration_ms u < 500 then Some ''Toast duration must be at least 500ms''
      else if ui_window_width u < 200 then Some ''Window width must be at least 200''
      else if ui_window_height u < 200 then Some ''Window height must be at least 200''
      else if \<not> (1 / 2 \<le> ui_scale u \<and> ui_scale u \<le> 2) then Some ''UI scale must be 0.5-2.0''
      else None)"

definition ui_sanitized :: "UiConfig \<Rightarrow> UiConfig" where
  "ui_sanitized u =
     \<lparr> ui_toast_duration_ms = (if ui_toast_duration_ms u < 500 then ui_toast_duration_ms ui_default else ui_toast_duration_ms u),
       ui_window_width = (if ui_window_width u < 200 then ui_window_width ui_default else ui_window_width u),
       ui_window_height = (if ui_window_height u < 200 then ui_window_height ui_default else ui_window_height u),
       ui_scale = f64_clamp (1 / 2) 2 (ui_scale u),
       ui_show_folder_sizes = ui_show_folder_sizes u \<rparr>"

definition ui_to_json :: "f64_lib \<Rightarrow> UiConfig \<Rightarrow> (string \<times> json) list" where
  "ui_to_json L u =
     [(''toast_duration_ms'', JInt (ui_toast_duration_ms u)), (''window_width'', f64_to_json L (ui_window_width u)),
      (''window_height'', f64_to_json L (ui_window_height u)), (''ui_scale'', f64_to_json L (ui_scale u)),
      (''show_folder_sizes'', JBool (ui_show_folder_sizes u))]"

definition ui_from_json :: "f64_lib \<Rightarrow> (string \<times> json) list \<Rightarrow> UiConfig" where
  "ui_from_json L obj = ui_sanitized
     \<lparr> ui_toast_duration_ms = or_default (ui_toast_duration_ms ui_default) (field as_i64 ''toast_duration_ms'' obj),
       ui_window_width = or_default (ui_window_width ui_default) (field (f64_of_json L) ''window_width'' obj),
       ui_window_height = or_default (ui_window_height ui_default) (field (f64_of_json L) ''window_height'' obj),
       ui_scale = or_default (ui_scale ui_default) (field (f64_of_json L) ''ui_scale'' obj),
       ui_show_folder_sizes = or_default (ui_show_folder_sizes ui_default) (field as_bool ''show_folder_sizes'' obj) \<rparr>"

section \<open>Behaviour and sync settings\<close>

datatype LogLevel = LInfo | LWarn | LError

definition level_wire_name :: "LogLevel \<Rightarrow> string" where
  "level_wire_name l = (case l of LInfo \<Rightarrow> ''info'' | LWarn \<Rightarrow> ''warn'' | LError \<Rightarrow> ''error'')"

definition level_from_wire_name :: "string \<Rightarrow> LogLevel option" where
  "level_from_wire_name s =
     (if s = ''info'' then Some LInfo else if s = ''warn'' then Some LWarn
      else if s = ''error'' then Some LError else None)"

record BehaviorConfig =
  bc_log_level :: "LogLevel option"
  bc_check_updates_on_start :: bool
  bc_skipped_version :: "string option"
  bc_fido2_prefer_direct_hid :: bool

definition behavior_default :: BehaviorConfig where
  "behavior_default = \<lparr> bc_log_level = None, bc_check_updates_on_start = True, bc_skipped_version = None,
     bc_fido2_prefer_direct_hid = False \<rparr>"

definition behavior_to_json :: "BehaviorConfig \<Rightarrow> (string \<times> json) list" where
  "behavior_to_json b =
     (case bc_log_level b of Some l \<Rightarrow> [(''log_level'', JStr (level_wire_name l))] | None \<Rightarrow> []) @
     [(''check_updates_on_start'', JBool (bc_check_updates_on_start b))] @
     (case bc_skipped_version b of Some v \<Rightarrow> [(''skipped_version'', JStr v)] | None \<Rightarrow> []) @
     [(''fido2_prefer_direct_hid'', JBool (bc_fido2_prefer_direct_hid b))]"

definition behavior_from_json :: "(string \<times> json) list \<Rightarrow> BehaviorConfig" where
  "behavior_from_json obj =
     \<lparr> bc_log_level = (case Option.bind (field as_str ''log_level'' obj) level_from_wire_name of
                         Some l \<Rightarrow> Some l | None \<Rightarrow> bc_log_level behavior_default),
       bc_check_updates_on_start =
         or_default (bc_check_updates_on_start behavior_default) (field as_bool ''check_updates_on_start'' obj),
       bc_skipped_version = field as_str ''skipped_version'' obj,
       bc_fido2_prefer_direct_hid =
         or_default (bc_fido2_prefer_direct_hid behavior_default) (field as_bool ''fido2_prefer_direct_hid'' obj) \<rparr>"

definition SUPPORTED_LOCALES :: "string list" where
  "SUPPORTED_LOCALES = [''en'', ''ru'', ''zh'', ''de'', ''ja'', ''pt'', ''es'', ''fr'', ''ko'', ''ar'', ''fa'', ''tr'',
     ''vi'', ''id'', ''hi'']"

record SyncConfig =
  sy_enabled :: bool
  sy_webdav_url :: string
  sy_webdav_username :: string
  sy_webdav_password_ref :: string
  sy_webdav_auth_method :: string
  sy_passphrase_ref :: string
  sy_remote_path :: string
  sy_last_pushed_at_ms :: int
  sy_last_pulled_at_ms :: int
  sy_last_pushed_sha256 :: string
  sy_last_pushed_etag :: string
  sy_last_pulled_etag :: string
  sy_last_pulled_sha256 :: string

definition SYNC_VALID_AUTH_METHODS :: "string list" where
  "SYNC_VALID_AUTH_METHODS = [''basic'', ''digest'', ''bearer'']"

definition sync_default :: SyncConfig where
  "sync_default = \<lparr> sy_enabled = False, sy_webdav_url = [], sy_webdav_username = [],
     sy_webdav_password_ref = ''sync.webdav.password'', sy_webdav_auth_method = ''basic'',
     sy_passphrase_ref = ''sync.passphrase'', sy_remote_path = ''letsflutssh.lfs'', sy_last_pushed_at_ms = 0,
     sy_last_pulled_at_ms = 0, sy_last_pushed_sha256 = [], sy_last_pushed_etag = [], sy_last_pulled_etag = [],
     sy_last_pulled_sha256 = [] \<rparr>"

definition sync_sanitized :: "SyncConfig \<Rightarrow> SyncConfig" where
  "sync_sanitized s =
     \<lparr> sy_enabled = sy_enabled s,
       sy_webdav_url = sy_webdav_url s,
       sy_webdav_username = sy_webdav_username s,
       sy_webdav_password_ref =
         (if sy_webdav_password_ref s = [] then sy_webdav_password_ref sync_default else sy_webdav_password_ref s),
       sy_webdav_auth_method =
         (if sy_webdav_auth_method s \<in> set SYNC_VALID_AUTH_METHODS then sy_webdav_auth_method s
          else sy_webdav_auth_method sync_default),
       sy_passphrase_ref = (if sy_passphrase_ref s = [] then sy_passphrase_ref sync_default else sy_passphrase_ref s),
       sy_remote_path = (if sy_remote_path s = [] then sy_remote_path sync_default else sy_remote_path s),
       sy_last_pushed_at_ms = max (sy_last_pushed_at_ms s) 0,
       sy_last_pulled_at_ms = max (sy_last_pulled_at_ms s) 0,
       sy_last_pushed_sha256 = sy_last_pushed_sha256 s,
       sy_last_pushed_etag = sy_last_pushed_etag s,
       sy_last_pulled_etag = sy_last_pulled_etag s,
       sy_last_pulled_sha256 = sy_last_pulled_sha256 s \<rparr>"

definition sync_to_json :: "SyncConfig \<Rightarrow> (string \<times> json) list" where
  "sync_to_json s =
     [(''sync_enabled'', JBool (sy_enabled s)), (''sync_webdav_url'', JStr (sy_webdav_url s)),
      (''sync_webdav_username'', JStr (sy_webdav_username s)),
      (''sync_webdav_password_ref'', JStr (sy_webdav_password_ref s)),
      (''sync_webdav_auth_method'', JStr (sy_webdav_auth_method s)),
      (''sync_passphrase_ref'', JStr (sy_passphrase_ref s)), (''sync_remote_path'', JStr (sy_remote_path s)),
      (''sync_last_pushed_at_ms'', JInt (sy_last_pushed_at_ms s)),
      (''sync_last_pulled_at_ms'', JInt (sy_last_pulled_at_ms s)),
      (''sync_last_pushed_sha256'', JStr (sy_last_pushed_sha256 s)),
      (''sync_last_pushed_etag'', JStr (sy_last_pushed_etag s)),
      (''sync_last_pulled_etag'', JStr (sy_last_pulled_etag s)),
      (''sync_last_pulled_sha256'', JStr (sy_last_pulled_sha256 s))]"

definition sync_from_json :: "(string \<times> json) list \<Rightarrow> SyncConfig" where
  "sync_from_json obj = sync_sanitized
     \<lparr> sy_enabled = or_default (sy_enabled sync_default) (field as_bool ''sync_enabled'' obj),
       sy_webdav_url = or_default (sy_webdav_url sync_default) (field as_str ''sync_webdav_url'' obj),
       sy_webdav_username = or_default (sy_webdav_username sync_default) (field as_str ''sync_webdav_username'' obj),
       sy_webdav_password_ref =
         or_default (sy_webdav_password_ref sync_default) (field as_str ''sync_webdav_password_ref'' obj),
       sy_webdav_auth_method =
         or_default (sy_webdav_auth_method sync_default) (field as_str ''sync_webdav_auth_method'' obj),
       sy_passphrase_ref = or_default (sy_passphrase_ref sync_default) (field as_str ''sync_passphrase_ref'' obj),
       sy_remote_path = or_default (sy_remote_path sync_default) (field as_str ''sync_remote_path'' obj),
       sy_last_pushed_at_ms = or_default (sy_last_pushed_at_ms sync_default) (field as_i64 ''sync_last_pushed_at_ms'' obj),
       sy_last_pulled_at_ms = or_default (sy_last_pulled_at_ms sync_default) (field as_i64 ''sync_last_pulled_at_ms'' obj),
       sy_last_pushed_sha256 = or_default (sy_last_pushed_sha256 sync_default) (field as_str ''sync_last_pushed_sha256'' obj),
       sy_last_pushed_etag = or_default (sy_last_pushed_etag sync_default) (field as_str ''sync_last_pushed_etag'' obj),
       sy_last_pulled_etag = or_default (sy_last_pulled_etag sync_default) (field as_str ''sync_last_pulled_etag'' obj),
       sy_last_pulled_sha256 = or_default (sy_last_pulled_sha256 sync_default) (field as_str ''sync_last_pulled_sha256'' obj) \<rparr>"

section \<open>The whole configuration\<close>

definition DEFAULT_RECORDINGS_STORAGE_CAP_BYTES :: int where
  "DEFAULT_RECORDINGS_STORAGE_CAP_BYTES = 500 * 1024 * 1024"

definition MAX_RECORDINGS_STORAGE_CAP_BYTES :: int where
  "MAX_RECORDINGS_STORAGE_CAP_BYTES = 1024 * 1024 * 1024 * 1024"

definition DEFAULT_TRANSFER_WORKERS :: int where
  "DEFAULT_TRANSFER_WORKERS = 4"

definition MAX_TRANSFER_WORKERS :: int where
  "MAX_TRANSFER_WORKERS = 10"

record AppConfig =
  ac_terminal :: TerminalConfig
  ac_ssh :: SshDefaults
  ac_ui :: UiConfig
  ac_behavior :: BehaviorConfig
  ac_transfer_workers :: int
  ac_max_history :: int
  ac_locale :: "string option"
  ac_security :: "SecurityConfig option"
  ac_security_probe_cache :: "SecurityCapabilities option"
  ac_recordings_storage_cap_bytes :: int
  ac_sync :: SyncConfig

definition app_default :: AppConfig where
  "app_default = \<lparr> ac_terminal = terminal_default, ac_ssh = ssh_default, ac_ui = ui_default,
     ac_behavior = behavior_default, ac_transfer_workers = DEFAULT_TRANSFER_WORKERS, ac_max_history = 500,
     ac_locale = None, ac_security = None, ac_security_probe_cache = None,
     ac_recordings_storage_cap_bytes = DEFAULT_RECORDINGS_STORAGE_CAP_BYTES, ac_sync = sync_default \<rparr>"

definition app_validate :: "AppConfig \<Rightarrow> string option" where
  "app_validate c =
     (case terminal_validate (ac_terminal c) of Some e \<Rightarrow> Some e | None \<Rightarrow>
      case ssh_validate (ac_ssh c) of Some e \<Rightarrow> Some e | None \<Rightarrow>
      case ui_validate (ac_ui c) of Some e \<Rightarrow> Some e | None \<Rightarrow>
        if ac_transfer_workers c < 1 then Some ''Transfer workers must be at least 1''
        else if ac_max_history c < 0 then Some ''Max history must be non-negative''
        else None)"

definition app_sanitized :: "AppConfig \<Rightarrow> AppConfig" where
  "app_sanitized c =
     \<lparr> ac_terminal = terminal_sanitized (ac_terminal c),
       ac_ssh = ssh_sanitized (ac_ssh c),
       ac_ui = ui_sanitized (ac_ui c),
       ac_behavior = ac_behavior c,
       ac_transfer_workers = (if ac_transfer_workers c < 1 then ac_transfer_workers app_default
                              else if ac_transfer_workers c > MAX_TRANSFER_WORKERS then MAX_TRANSFER_WORKERS
                              else ac_transfer_workers c),
       ac_max_history = (if ac_max_history c < 0 then ac_max_history app_default else ac_max_history c),
       ac_locale = (case ac_locale c of Some l \<Rightarrow> if l \<in> set SUPPORTED_LOCALES then Some l else None | None \<Rightarrow> None),
       ac_security = ac_security c,
       ac_security_probe_cache = ac_security_probe_cache c,
       ac_recordings_storage_cap_bytes =
         (if ac_recordings_storage_cap_bytes c = 0 \<or>
             ac_recordings_storage_cap_bytes c > MAX_RECORDINGS_STORAGE_CAP_BYTES
          then ac_recordings_storage_cap_bytes app_default else ac_recordings_storage_cap_bytes c),
       ac_sync = sync_sanitized (ac_sync c) \<rparr>"

definition app_to_json :: "f64_lib \<Rightarrow> AppConfig \<Rightarrow> json" where
  "app_to_json L c = JObj
     ([(''config_schema_version'', JInt 1)] @
      terminal_to_json L (ac_terminal c) @ ssh_to_json (ac_ssh c) @ ui_to_json L (ac_ui c) @
      behavior_to_json (ac_behavior c) @
      [(''transfer_workers'', JInt (ac_transfer_workers c)), (''max_history'', JInt (ac_max_history c)),
       (''recordings_storage_cap_bytes'', JInt (ac_recordings_storage_cap_bytes c))] @
      sync_to_json (ac_sync c) @
      (case ac_locale c of Some l \<Rightarrow> [(''locale'', JStr l)] | None \<Rightarrow> []) @
      (case ac_security c of
         Some sec \<Rightarrow> [(''security_tier'', JStr (tier_wire_name (cfg_tier sec))),
                      (''security_modifiers'', JObj (to_json_map (cfg_modifiers sec)))]
       | None \<Rightarrow> []) @
      [(''security_probe_cache'', case ac_security_probe_cache c of Some p \<Rightarrow> cap_to_json_value p | None \<Rightarrow> JNull)])"

definition read_security_config :: "(string \<times> json) list \<Rightarrow> SecurityConfig option" where
  "read_security_config obj =
     (case field as_str ''security_tier'' obj of None \<Rightarrow> None | Some tier_str \<Rightarrow>
      case from_wire_name tier_str of None \<Rightarrow> None | Some tier \<Rightarrow>
        Some \<lparr> cfg_tier = tier,
               cfg_modifiers = (case field as_object ''security_modifiers'' obj of
                  Some j \<Rightarrow> from_json_map j
                | None \<Rightarrow> \<lparr> mod_password = False, mod_biometric = False \<rparr>) \<rparr>)"

definition app_from_json :: "f64_lib \<Rightarrow> json \<Rightarrow> AppConfig" where
  "app_from_json L v =
     (case as_object v of None \<Rightarrow> app_default | Some obj \<Rightarrow>
        app_sanitized
          \<lparr> ac_terminal = terminal_from_json L obj, ac_ssh = ssh_from_json obj, ac_ui = ui_from_json L obj,
            ac_behavior = behavior_from_json obj,
            ac_transfer_workers = or_default (ac_transfer_workers app_default) (field as_i64 ''transfer_workers'' obj),
            ac_max_history = or_default (ac_max_history app_default) (field as_i64 ''max_history'' obj),
            ac_locale = field as_str ''locale'' obj,
            ac_security = read_security_config obj,
            ac_security_probe_cache = field cap_from_json_value ''security_probe_cache'' obj,
            ac_recordings_storage_cap_bytes =
              or_default (ac_recordings_storage_cap_bytes app_default) (field as_u64 ''recordings_storage_cap_bytes'' obj),
            ac_sync = sync_from_json obj \<rparr>)"

definition EXPORT_STRIPPED :: "string list" where
  "EXPORT_STRIPPED =
     [''security_tier'', ''security_modifiers'', ''security_probe_cache'', ''config_schema_version'', ''sync_enabled'',
      ''sync_webdav_url'', ''sync_webdav_username'', ''sync_webdav_password_ref'', ''sync_webdav_auth_method'',
      ''sync_passphrase_ref'', ''sync_remote_path'', ''sync_last_pushed_at_ms'', ''sync_last_pulled_at_ms'',
      ''sync_last_pushed_sha256'', ''sync_last_pushed_etag'', ''sync_last_pulled_etag'', ''sync_last_pulled_sha256'']"

definition strip_for_export :: "json \<Rightarrow> json" where
  "strip_for_export v =
     (case v of JObj obj \<Rightarrow> JObj (filter (\<lambda>e. fst e \<notin> set EXPORT_STRIPPED) obj) | _ \<Rightarrow> v)"

section \<open>Sanitising\<close>

lemmas config_consts = terminal_default_def ssh_default_def ui_default_def sync_default_def app_default_def VALID_THEMES_def
  MAX_SCROLLBACK_def SYNC_VALID_AUTH_METHODS_def DEFAULT_TRANSFER_WORKERS_def MAX_TRANSFER_WORKERS_def
  DEFAULT_RECORDINGS_STORAGE_CAP_BYTES_def MAX_RECORDINGS_STORAGE_CAP_BYTES_def

lemmas sanitizers = terminal_sanitized_def ssh_sanitized_def ui_sanitized_def sync_sanitized_def f64_clamp_def

lemma terminal_sanitized_valid [simp]: "terminal_validate (terminal_sanitized t) = None"
  by (simp add: terminal_validate_def terminal_sanitized_def f64_clamp_def config_consts)

lemma ssh_sanitized_valid [simp]: "ssh_validate (ssh_sanitized s) = None"
  by (simp add: ssh_validate_def ssh_sanitized_def config_consts)

lemma ui_sanitized_valid [simp]: "ui_validate (ui_sanitized u) = None"
  by (simp add: ui_validate_def ui_sanitized_def f64_clamp_def config_consts)

lemma app_sanitized_valid: "app_validate (app_sanitized c) = None"
  by (simp add: app_validate_def app_sanitized_def config_consts)

lemma terminal_sanitized_idem [simp]: "terminal_sanitized (terminal_sanitized t) = terminal_sanitized t"
  by (simp add: terminal_sanitized_def f64_clamp_def config_consts)

lemma ssh_sanitized_idem [simp]: "ssh_sanitized (ssh_sanitized s) = ssh_sanitized s"
  by (simp add: ssh_sanitized_def config_consts)

lemma ui_sanitized_idem [simp]: "ui_sanitized (ui_sanitized u) = ui_sanitized u"
  by (simp add: ui_sanitized_def f64_clamp_def config_consts)

lemma sync_sanitized_idem [simp]: "sync_sanitized (sync_sanitized s) = sync_sanitized s"
  by (simp add: sync_sanitized_def config_consts)

lemma app_sanitized_idem: "app_sanitized (app_sanitized c) = app_sanitized c"
  by (simp add: app_sanitized_def config_consts split: option.split)

lemma sanitized_defaults:
  "terminal_sanitized terminal_default = terminal_default" "ssh_sanitized ssh_default = ssh_default"
  "ui_sanitized ui_default = ui_default" "sync_sanitized sync_default = sync_default"
  by (simp_all add: sanitizers config_consts)

lemma app_sanitized_default: "app_sanitized app_default = app_default"
  using sanitized_defaults by (simp add: app_sanitized_def app_default_def config_consts(6-))

section \<open>The JSON object\<close>

text \<open>The conversions of the numbers that occur in a configuration are exact.\<close>

definition f64_ok :: "f64_lib \<Rightarrow> AppConfig \<Rightarrow> bool" where
  "f64_ok L c \<longleftrightarrow>
     list_all (\<lambda>x. f64_of_json L (f64_to_json L x) = Some x)
       [tc_font_size (ac_terminal c), ui_window_width (ac_ui c), ui_window_height (ac_ui c), ui_scale (ac_ui c)]"

text \<open>The integers fit the fields of the structs.\<close>

definition config_ints_ok :: "AppConfig \<Rightarrow> bool" where
  "config_ints_ok c \<longleftrightarrow>
     list_all (\<lambda>i. - (2 ^ 63) \<le> i \<and> i < 2 ^ 63)
       [tc_scrollback (ac_terminal c), sd_keepalive_sec (ac_ssh c), sd_default_port (ac_ssh c),
        sd_ssh_timeout_sec (ac_ssh c), ui_toast_duration_ms (ac_ui c), ac_transfer_workers c, ac_max_history c,
        sy_last_pushed_at_ms (ac_sync c), sy_last_pulled_at_ms (ac_sync c)] \<and>
     0 \<le> ac_recordings_storage_cap_bytes c \<and> ac_recordings_storage_cap_bytes c < 2 ^ 64"

lemma map_of_opt [simp]:
  "map_of (case x of Some a \<Rightarrow> [(k, f a)] | None \<Rightarrow> []) q = (if q = k then map_option f x else None)"
  "map_of (case x of Some a \<Rightarrow> [(k, f a), (k', g a)] | None \<Rightarrow> []) q =
     (if q = k then map_option f x else if q = k' then map_option g x else None)"
  by (cases x; simp)+

lemma probe_wire [simp]: "probe_from_wire_name (probe_wire_name p) = Some p"
  by (cases p) (simp_all add: probe_from_wire_name_def probe_wire_name_def)

lemma level_wire [simp]: "level_from_wire_name (level_wire_name l) = Some l"
  by (cases l) (simp_all add: level_from_wire_name_def level_wire_name_def)

lemma cap_round_trip [simp]: "cap_from_json_value (cap_to_json_value c) = Some c"
  by (cases c) (simp add: cap_from_json_value_def cap_to_json_value_def json_access bool_or_false_def)

lemma cap_from_null [simp]: "cap_from_json_value JNull = None"
  by (simp add: cap_from_json_value_def as_object_def)

interpretation caps: codec cap_to_json_value cap_from_json_value "\<lambda>_. True"
  by unfold_locales simp

definition entries :: "f64_lib \<Rightarrow> AppConfig \<Rightarrow> (string \<times> json) list" where
  "entries L c = (case app_to_json L c of JObj m \<Rightarrow> m | _ \<Rightarrow> [])"

lemmas entry_defs = entries_def app_to_json_def terminal_to_json_def ssh_to_json_def ui_to_json_def behavior_to_json_def
  sync_to_json_def

lemma entries_eq: "app_to_json L c = JObj (entries L c)"
  by (simp add: entries_def app_to_json_def)

lemmas read_defs = entry_defs map_add_def field_def as_str_def as_i64_def as_bool_def as_u64_def as_object_def or_default_def

lemma terminal_round_trip:
  assumes "f64_ok L c" "config_ints_ok c"
  shows "terminal_from_json L (entries L c) = terminal_sanitized (ac_terminal c)"
  using assms by (simp add: terminal_from_json_def read_defs terminal_sanitized_def f64_ok_def config_ints_ok_def)

lemma ssh_round_trip:
  assumes "config_ints_ok c"
  shows "ssh_from_json (entries L c) = ssh_sanitized (ac_ssh c)"
  using assms by (simp add: ssh_from_json_def read_defs ssh_sanitized_def config_ints_ok_def)

lemma ui_round_trip:
  assumes "f64_ok L c" "config_ints_ok c"
  shows "ui_from_json L (entries L c) = ui_sanitized (ac_ui c)"
  using assms by (simp add: ui_from_json_def read_defs ui_sanitized_def f64_ok_def config_ints_ok_def)

lemma behavior_round_trip: "behavior_from_json (entries L c) = ac_behavior c"
  by (cases "ac_behavior c")
     (auto simp: behavior_from_json_def read_defs behavior_default_def split: option.split)

lemma sync_round_trip:
  assumes "config_ints_ok c"
  shows "sync_from_json (entries L c) = sync_sanitized (ac_sync c)"
  using assms by (simp add: sync_from_json_def read_defs sync_sanitized_def config_ints_ok_def)

lemma security_round_trip: "read_security_config (entries L c) = ac_security c"
  by (cases "ac_security c") (simp_all add: read_security_config_def read_defs)

lemma scalars_round_trip:
  assumes "config_ints_ok c"
  shows "field as_i64 ''transfer_workers'' (entries L c) = Some (ac_transfer_workers c)"
    "field as_i64 ''max_history'' (entries L c) = Some (ac_max_history c)"
    "field as_u64 ''recordings_storage_cap_bytes'' (entries L c) = Some (ac_recordings_storage_cap_bytes c)"
    "field as_str ''locale'' (entries L c) = ac_locale c"
    "field cap_from_json_value ''security_probe_cache'' (entries L c) = ac_security_probe_cache c"
  using assms by (simp_all add: read_defs config_ints_ok_def split: option.split)

lemma app_from_to_json:
  assumes "f64_ok L c" "config_ints_ok c"
  shows "app_from_json L (app_to_json L c) = app_sanitized c"
  using terminal_round_trip [OF assms] ssh_round_trip [OF assms(2)] ui_round_trip [OF assms] behavior_round_trip [of L c]
    sync_round_trip [OF assms(2)] security_round_trip [of L c] scalars_round_trip [OF assms(2)]
  by (simp add: app_from_json_def entries_eq as_object_def app_sanitized_def or_default_def)

lemma field_filter:
  "field f k (filter (\<lambda>e. fst e \<notin> S) m) = (if k \<in> S then None else field f k m)"
  by (induction m) (auto simp: field_def)

section \<open>Properties\<close>

text \<open>
  Whatever JSON the file holds, the configuration that is read from it passes the validation, is a
  fixed point of sanitising, and its counters are within their hard limits.
\<close>

theorem config_from_json_valid:
  "app_validate (app_from_json L v) = None \<and> app_sanitized (app_from_json L v) = app_from_json L v \<and>
   1 \<le> ac_transfer_workers (app_from_json L v) \<and> ac_transfer_workers (app_from_json L v) \<le> 10 \<and>
   tc_scrollback (ac_terminal (app_from_json L v)) \<le> 100000 \<and>
   ac_recordings_storage_cap_bytes (app_from_json L v) \<noteq> 0 \<and>
   ac_recordings_storage_cap_bytes (app_from_json L v) \<le> 2 ^ 40"
proof -
  obtain c where c: "app_from_json L v = app_sanitized c"
  proof (cases "as_object v")
    case None
    then have "app_from_json L v = app_sanitized app_default" by (simp add: app_from_json_def app_sanitized_default)
    then show thesis by (rule that)
  qed (use that in \<open>auto simp: app_from_json_def\<close>)
  have b: "1 \<le> ac_transfer_workers (app_sanitized c)" "ac_transfer_workers (app_sanitized c) \<le> 10"
    "tc_scrollback (ac_terminal (app_sanitized c)) \<le> 100000"
    "ac_recordings_storage_cap_bytes (app_sanitized c) \<noteq> 0" "ac_recordings_storage_cap_bytes (app_sanitized c) \<le> 2 ^ 40"
    by (auto simp: app_sanitized_def terminal_sanitized_def config_consts)
  show ?thesis unfolding c by (intro conjI app_sanitized_valid app_sanitized_idem b)
qed

text \<open>
  Saving and reading loses nothing: a sanitised configuration whose integers fit their fields is read
  back from its JSON object as it was, given that the numbers with a fraction convert exactly.
\<close>

theorem config_round_trip:
  assumes "f64_ok L c" and "config_ints_ok c" and "app_sanitized c = c"
  shows "app_from_json L (app_to_json L c) = c"
  using app_from_to_json [OF assms(1,2)] assms(3) by simp

definition f64_ref :: f64_lib where
  "f64_ref = \<lparr> f64_of_json = (\<lambda>v. case v of JInt i \<Rightarrow> Some (of_int i) | _ \<Rightarrow> None), f64_to_json = (\<lambda>x. JInt \<lfloor>x\<rfloor>) \<rparr>"

lemma f64_ref_default [simp]: "f64_ok f64_ref app_default"
  by (simp add: f64_ok_def f64_ref_def config_consts)

lemma ints_ok_default [simp]: "config_ints_ok app_default"
  by (simp add: config_ints_ok_def config_consts)

theorem config_round_trip_witness:
  "app_from_json f64_ref (app_to_json f64_ref (app_default\<lparr> ac_locale := Some ''ru'', ac_security := Some config_defaults \<rparr>)) =
   app_default\<lparr> ac_locale := Some ''ru'', ac_security := Some config_defaults \<rparr>"
proof (rule config_round_trip)
  let ?c = "app_default\<lparr> ac_locale := Some ''ru'', ac_security := Some config_defaults \<rparr>"
  show "f64_ok f64_ref ?c" using f64_ref_default by (simp add: f64_ok_def)
  show "config_ints_ok ?c" using ints_ok_default by (simp add: config_ints_ok_def)
  show "app_sanitized ?c = ?c"
    by (simp add: app_sanitized_def app_default_def sanitized_defaults SUPPORTED_LOCALES_def config_consts(9-))
qed

text \<open>
  An exported configuration carries no setting of this machine: read back elsewhere, it has the
  exporter's preferences, no security tier, no capability snapshot and the default sync settings.
\<close>

theorem export_drops_host_settings:
  assumes "f64_ok L c" and "config_ints_ok c"
  shows "app_from_json L (strip_for_export (app_to_json L c)) =
    app_sanitized (c\<lparr> ac_security := None, ac_security_probe_cache := None, ac_sync := sync_default \<rparr>)"
proof -
  let ?m = "filter (\<lambda>e. fst e \<notin> set EXPORT_STRIPPED) (entries L c)"
  have kept: "terminal_from_json L ?m = terminal_from_json L (entries L c)" "ssh_from_json ?m = ssh_from_json (entries L c)"
    "ui_from_json L ?m = ui_from_json L (entries L c)" "behavior_from_json ?m = behavior_from_json (entries L c)"
    unfolding terminal_from_json_def ssh_from_json_def ui_from_json_def behavior_from_json_def field_filter
    by (simp_all add: EXPORT_STRIPPED_def)
  have "sync_from_json ?m = sync_sanitized sync_default"
    unfolding sync_from_json_def or_default_def field_filter by (simp add: EXPORT_STRIPPED_def sync_default_def)
  moreover have "read_security_config ?m = None" "field cap_from_json_value ''security_probe_cache'' ?m = None"
    unfolding read_security_config_def field_filter by (simp_all add: EXPORT_STRIPPED_def)
  moreover have "field as_i64 ''transfer_workers'' ?m = Some (ac_transfer_workers c)"
    "field as_i64 ''max_history'' ?m = Some (ac_max_history c)"
    "field as_u64 ''recordings_storage_cap_bytes'' ?m = Some (ac_recordings_storage_cap_bytes c)"
    "field as_str ''locale'' ?m = ac_locale c"
    using scalars_round_trip [OF assms(2), of L] unfolding field_filter by (simp_all add: EXPORT_STRIPPED_def)
  ultimately show ?thesis
    using terminal_round_trip [OF assms] ssh_round_trip [OF assms(2)] ui_round_trip [OF assms] behavior_round_trip [of L c] kept
    by (simp add: strip_for_export_def app_from_json_def entries_eq as_object_def app_sanitized_def or_default_def)
qed

theorem export_drops_host_settings_witness:
  "app_from_json f64_ref (strip_for_export (app_to_json f64_ref (app_default\<lparr> ac_security := Some config_defaults \<rparr>))) = app_default"
proof -
  have "app_from_json f64_ref (strip_for_export (app_to_json f64_ref (app_default\<lparr> ac_security := Some config_defaults \<rparr>))) =
      app_sanitized (app_default\<lparr> ac_security := Some config_defaults, ac_security := None, ac_security_probe_cache := None,
        ac_sync := sync_default \<rparr>)"
    by (rule export_drops_host_settings)
       (use f64_ref_default ints_ok_default in \<open>simp_all add: f64_ok_def config_ints_ok_def\<close>)
  also have "\<dots> = app_default" using app_sanitized_default by (simp add: app_default_def)
  finally show ?thesis .
qed

text \<open>
  The validation is not the sanitiser's twin: it accepts worker counts and scrollbacks that the
  sanitiser replaces, because it checks no upper limit for them.
\<close>

theorem validate_misses_caps:
  "app_validate (app_default\<lparr> ac_transfer_workers := 500 \<rparr>) = None \<and>
   app_sanitized (app_default\<lparr> ac_transfer_workers := 500 \<rparr>) = app_default\<lparr> ac_transfer_workers := 10 \<rparr>"
proof
  show "app_validate (app_default\<lparr> ac_transfer_workers := 500 \<rparr>) = None"
    by (simp add: app_validate_def terminal_validate_def ssh_validate_def ui_validate_def config_consts)
  show "app_sanitized (app_default\<lparr> ac_transfer_workers := 500 \<rparr>) = app_default\<lparr> ac_transfer_workers := 10 \<rparr>"
    by (simp add: app_sanitized_def app_default_def sanitized_defaults config_consts(9-))
qed

end
