(* ===== verification/Config_Store.thy ===== *)
theory Config_Store
  imports App_Config Support_Files
begin

text \<open>
  The store of \<open>config.json\<close>, \<open>config_store.rs\<close>: the configuration in memory, the debounced
  write and the change events.  \<open>flush\<close> takes the pending state under the lock and writes it after
  the lock is released, so it is two steps here, \<open>flush_take\<close> and \<open>flush_write\<close>, and other calls
  may come in between.  Times are milliseconds of the monotonic clock.  The first part of an error text
  is the code's; what \<open>serde_json\<close> appends to it is left out.
\<close>

section \<open>Definitions\<close>

definition DEBOUNCE :: int where
  "DEBOUNCE = 300"

definition CONFIG_FILE_NAME :: string where
  "CONFIG_FILE_NAME = ''config.json''"

record Store =
  cs_file_path :: "string option"
  cs_current :: "AppConfig option"
  cs_pending :: "AppConfig option"
  cs_pending_at :: "int option"
  cs_loaded_from_disk :: bool

definition cs_new :: Store where
  "cs_new = \<lparr> cs_file_path = None, cs_current = None, cs_pending = None, cs_pending_at = None,
     cs_loaded_from_disk = False \<rparr>"

definition config_text :: "json_lib \<Rightarrow> f64_lib \<Rightarrow> AppConfig \<Rightarrow> string" where
  "config_text J L c = json_print J (app_to_json L c)"

definition cs_init :: "io_env \<Rightarrow> json_lib \<Rightarrow> f64_lib \<Rightarrow> string \<Rightarrow> files \<Rightarrow> Store \<Rightarrow> (string + string) \<times> Store" where
  "cs_init E J L dir d st =
     (let path = join_path dir CONFIG_FILE_NAME;
          adopt = (\<lambda>cfg loaded. (Inr (config_text J L cfg),
             \<lparr> cs_file_path = Some path, cs_current = Some cfg, cs_pending = None, cs_pending_at = None,
               cs_loaded_from_disk = loaded \<rparr>))
      in case read_bytes_secure E d path of
           Inr bs \<Rightarrow>
             (case from_utf8 bs of
                Some txt \<Rightarrow>
                  (case json_parse J txt of
                     Some v \<Rightarrow> adopt (app_from_json L v) True
                   | None \<Rightarrow> (Inl (''config_store::init: parse '' @ path), st))
              | None \<Rightarrow> (Inl (''config_store::init: utf8 '' @ path), st))
         | Inl _ \<Rightarrow> adopt app_default False)"

definition was_loaded_from_disk :: "Store \<Rightarrow> bool" where
  "was_loaded_from_disk st = cs_loaded_from_disk st"

definition get_json :: "json_lib \<Rightarrow> f64_lib \<Rightarrow> Store \<Rightarrow> string option" where
  "get_json J L st = map_option (config_text J L) (cs_current st)"

definition get_app_config :: "Store \<Rightarrow> AppConfig option" where
  "get_app_config st = cs_current st"

definition cs_swap :: "int \<Rightarrow> AppConfig \<Rightarrow> Store \<Rightarrow> Store" where
  "cs_swap now cfg st = st\<lparr> cs_current := Some cfg, cs_pending := Some cfg, cs_pending_at := Some (now + DEBOUNCE) \<rparr>"

definition set_json :: "json_lib \<Rightarrow> f64_lib \<Rightarrow> int \<Rightarrow> string \<Rightarrow> Store \<Rightarrow> (string + unit) \<times> Store" where
  "set_json J L now new_json st =
     (case json_parse J new_json of
        None \<Rightarrow> (Inl ''config_store: parse'', st)
      | Some v \<Rightarrow>
          (let cfg = app_from_json L v
           in if cs_file_path st = None then (Inl ''config_store: not initialised'', st)
              else (Inr (), cs_swap now cfg st)))"

definition update_sync :: "int \<Rightarrow> SyncConfig \<Rightarrow> Store \<Rightarrow> (string + unit) \<times> Store" where
  "update_sync now sync st =
     (if cs_file_path st = None then (Inl ''config_store: not initialised'', st)
      else case cs_current st of
             None \<Rightarrow> (Inl ''config_store: no current state'', st)
           | Some current \<Rightarrow> (Inr (), cs_swap now (current\<lparr> ac_sync := sync_sanitized sync \<rparr>) st))"

definition update_security_probe_cache ::
  "int \<Rightarrow> SecurityCapabilities option \<Rightarrow> Store \<Rightarrow> (string + unit) \<times> Store" where
  "update_security_probe_cache now caps st =
     (if cs_file_path st = None then (Inl ''config_store: not initialised'', st)
      else case cs_current st of
             None \<Rightarrow> (Inl ''config_store: no current state'', st)
           | Some current \<Rightarrow> (Inr (), cs_swap now (current\<lparr> ac_security_probe_cache := caps \<rparr>) st))"

definition update_security_tier :: "int \<Rightarrow> SecurityTier \<Rightarrow> Store \<Rightarrow> (string + unit) \<times> Store" where
  "update_security_tier now tier st =
     (if cs_file_path st = None then (Inl ''config_store: not initialised'', st)
      else case cs_current st of
             None \<Rightarrow> (Inl ''config_store: no current state'', st)
           | Some current \<Rightarrow>
               (let modifiers = (case ac_security current of
                                   Some s \<Rightarrow> cfg_modifiers s
                                 | None \<Rightarrow> \<lparr> mod_password = False, mod_biometric = False \<rparr>);
                    resolved = \<lparr> cfg_tier = tier, cfg_modifiers = modifiers \<rparr>
                in if ac_security current = Some resolved then (Inr (), st)
                   else (Inr (), cs_swap now (current\<lparr> ac_security := Some resolved \<rparr>) st)))"

text \<open>The part of \<open>flush\<close> under the lock: the path and the state to write, if there is one.\<close>

definition flush_take :: "Store \<Rightarrow> (string \<times> AppConfig) option \<times> Store" where
  "flush_take st =
     (case cs_file_path st of
        None \<Rightarrow> (None, st)
      | Some path \<Rightarrow>
          (let cfg = (case cs_pending st of Some p \<Rightarrow> Some p | None \<Rightarrow> cs_current st);
               st' = st\<lparr> cs_pending := None, cs_pending_at := None \<rparr>
           in (map_option (Pair path) cfg, st')))"

definition parent_dir :: "string \<Rightarrow> string" where
  "parent_dir path = rev (drop 1 (dropWhile (\<lambda>ch. ch \<noteq> CHR ''/'') (rev path)))"

definition write_to_disk :: "io_env \<Rightarrow> 32 word \<Rightarrow> string \<Rightarrow> string \<Rightarrow> files \<Rightarrow> (string + unit) \<times> files" where
  "write_to_disk E suffix path txt d =
     (case create_dir_all_secure E (parent_dir path) of
        Inl e \<Rightarrow> (Inl (''config_store: create dir: '' @ e), d)
      | Inr _ \<Rightarrow>
          (case write_bytes_atomic E suffix path (str_bytes txt) d of
             (Inl e, d') \<Rightarrow> (Inl (''config_store: write: '' @ e), d')
           | (Inr u, d') \<Rightarrow> (Inr u, d')))"

text \<open>The rest of \<open>flush\<close>: the write, then the published \<open>ConfigChanged\<close> texts.\<close>

definition flush_write ::
  "io_env \<Rightarrow> json_lib \<Rightarrow> f64_lib \<Rightarrow> 32 word \<Rightarrow> (string \<times> AppConfig) option \<Rightarrow> files
     \<Rightarrow> (string + string option) \<times> files \<times> string list" where
  "flush_write E J L suffix job d =
     (case job of
        None \<Rightarrow> (Inr None, d, [])
      | Some (path, cfg) \<Rightarrow>
          (let txt = config_text J L cfg
           in case write_to_disk E suffix path txt d of
                (Inl e, d') \<Rightarrow> (Inl e, d', [])
              | (Inr _, d') \<Rightarrow> (Inr (Some txt), d', [txt])))"

definition flush ::
  "io_env \<Rightarrow> json_lib \<Rightarrow> f64_lib \<Rightarrow> 32 word \<Rightarrow> Store \<Rightarrow> files \<Rightarrow> (string + string option) \<times> Store \<times> files \<times> string list" where
  "flush E J L suffix st d =
     (let (job, st') = flush_take st; (r, d', evs) = flush_write E J L suffix job d in (r, st', d', evs))"

definition is_due :: "int \<Rightarrow> Store \<Rightarrow> bool" where
  "is_due now st =
     (case (cs_pending_at st, cs_pending st) of (Some t, Some _) \<Rightarrow> now \<ge> t | _ \<Rightarrow> False)"

definition tick_if_due ::
  "io_env \<Rightarrow> json_lib \<Rightarrow> f64_lib \<Rightarrow> int \<Rightarrow> 32 word \<Rightarrow> Store \<Rightarrow> files \<Rightarrow> (string + bool) \<times> Store \<times> files \<times> string list" where
  "tick_if_due E J L now suffix st d =
     (if is_due now st
      then (case flush E J L suffix st d of
              (Inl e, st', d', evs) \<Rightarrow> (Inl e, st', d', evs)
            | (Inr _, st', d', evs) \<Rightarrow> (Inr True, st', d', evs))
      else (Inr False, st, d, []))"

section \<open>The store's invariant\<close>

text \<open>
  Between calls: nothing is set before \<open>init\<close>, a pending state is the current one and has a
  deadline, and the current configuration is sanitised.
\<close>

definition cs_inv :: "Store \<Rightarrow> bool" where
  "cs_inv st \<longleftrightarrow>
     (cs_file_path st = None \<longleftrightarrow> cs_current st = None) \<and>
     (cs_pending st \<noteq> None \<longrightarrow> cs_pending st = cs_current st) \<and>
     (cs_pending st = None \<longleftrightarrow> cs_pending_at st = None) \<and>
     (case cs_current st of Some c \<Rightarrow> app_sanitized c = c | None \<Rightarrow> True)"

lemma cs_inv_new: "cs_inv cs_new"
  by (simp add: cs_inv_def cs_new_def)

lemma from_json_sanitized: "app_sanitized (app_from_json L v) = app_from_json L v"
  by (cases "as_object v") (simp_all add: app_from_json_def app_sanitized_default app_sanitized_idem)

lemma cs_inv_swap: "cs_inv st \<Longrightarrow> cs_file_path st \<noteq> None \<Longrightarrow> app_sanitized c = c \<Longrightarrow> cs_inv (cs_swap now c st)"
  by (simp add: cs_inv_def cs_swap_def)

datatype cs_call =
    CSet string | CSync SyncConfig | CProbe "SecurityCapabilities option" | CTier SecurityTier | CTake | CInit string files

fun cs_step :: "io_env \<Rightarrow> json_lib \<Rightarrow> f64_lib \<Rightarrow> int \<times> cs_call \<Rightarrow> Store \<Rightarrow> Store" where
  "cs_step E J L (now, CSet s) st = snd (set_json J L now s st)"
| "cs_step E J L (now, CSync s) st = snd (update_sync now s st)"
| "cs_step E J L (now, CProbe c) st = snd (update_security_probe_cache now c st)"
| "cs_step E J L (now, CTier t) st = snd (update_security_tier now t st)"
| "cs_step E J L (now, CTake) st = snd (flush_take st)"
| "cs_step E J L (now, CInit dir d) st = snd (cs_init E J L dir d st)"

lemma sanitized_update:
  assumes "app_sanitized c = c"
  shows "app_sanitized (c\<lparr> ac_sync := sync_sanitized s \<rparr>) = c\<lparr> ac_sync := sync_sanitized s \<rparr>"
    "app_sanitized (c\<lparr> ac_security_probe_cache := p \<rparr>) = c\<lparr> ac_security_probe_cache := p \<rparr>"
    "app_sanitized (c\<lparr> ac_security := t \<rparr>) = c\<lparr> ac_security := t \<rparr>"
proof -
  have u: "(app_sanitized b)\<lparr> ac_sync := sync_sanitized s \<rparr> = app_sanitized (b\<lparr> ac_sync := s \<rparr>)"
    "(app_sanitized b)\<lparr> ac_security_probe_cache := p \<rparr> = app_sanitized (b\<lparr> ac_security_probe_cache := p \<rparr>)"
    "(app_sanitized b)\<lparr> ac_security := t \<rparr> = app_sanitized (b\<lparr> ac_security := t \<rparr>)" for b
    by (simp_all add: app_sanitized_def)
  show "app_sanitized (c\<lparr> ac_sync := sync_sanitized s \<rparr>) = c\<lparr> ac_sync := sync_sanitized s \<rparr>"
    using u(1) [of c] unfolding assms by (simp add: app_sanitized_idem)
  show "app_sanitized (c\<lparr> ac_security_probe_cache := p \<rparr>) = c\<lparr> ac_security_probe_cache := p \<rparr>"
    using u(2) [of c] unfolding assms by (simp add: app_sanitized_idem)
  show "app_sanitized (c\<lparr> ac_security := t \<rparr>) = c\<lparr> ac_security := t \<rparr>"
    using u(3) [of c] unfolding assms by (simp add: app_sanitized_idem)
qed

lemma cs_inv_current: "cs_inv st \<Longrightarrow> cs_current st = Some c \<Longrightarrow> app_sanitized c = c"
  by (simp add: cs_inv_def)

lemma cs_inv_init: "cs_inv st \<Longrightarrow> cs_inv (snd (cs_init E J L dir d st))"
  by (auto simp: cs_init_def Let_def cs_inv_def app_sanitized_default from_json_sanitized split: sum.split option.split)

lemma cs_inv_take: "cs_inv st \<Longrightarrow> cs_inv (snd (flush_take st))"
  by (auto simp: flush_take_def Let_def cs_inv_def split: option.splits)

lemma cs_inv_step: "cs_inv st \<Longrightarrow> cs_inv (cs_step E J L e st)"
proof -
  assume inv: "cs_inv st"
  obtain now c where e: "e = (now, c)" by (cases e)
  show ?thesis
  proof (cases c)
    case (CSet s)
    with e inv show ?thesis
      by (auto simp: set_json_def Let_def from_json_sanitized intro: cs_inv_swap split: option.split)
  next
    case (CSync s)
    with e inv show ?thesis
      by (auto simp: update_sync_def intro!: cs_inv_swap sanitized_update dest: cs_inv_current split: option.split)
  next
    case (CProbe p)
    with e inv show ?thesis
      by (auto simp: update_security_probe_cache_def intro!: cs_inv_swap sanitized_update dest: cs_inv_current split: option.split)
  next
    case (CTier t)
    with e inv show ?thesis
      by (auto simp: update_security_tier_def Let_def intro!: cs_inv_swap sanitized_update dest: cs_inv_current split: option.split)
  qed (use e inv cs_inv_take cs_inv_init in auto)
qed

interpretation cs: step_invariant "cs_step E J L" cs_inv
  by unfold_locales (rule cs_inv_step)

section \<open>Writing\<close>

lemma write_to_disk_ok:
  assumes "write_to_disk E suffix p txt d = (Inr u, d')" and "q \<noteq> tmp_path suffix p"
  shows "hget d' q = (if q = p then Some (str_bytes txt) else hget d q)"
  using assms af.replace_ok [of E suffix p "str_bytes txt" d]
  by (auto simp: write_to_disk_def split: sum.splits prod.splits)

lemma write_to_disk_err:
  assumes "write_to_disk E suffix p txt d = (Inl e, d')" and "q \<noteq> tmp_path suffix p"
  shows "hget d' q = hget d q"
  using assms af.replace_err [of E suffix p "str_bytes txt" d]
  by (auto simp: write_to_disk_def split: sum.splits prod.splits)

lemma flush_write_ok:
  assumes "flush_write E J L suffix (Some (p, c)) d = (Inr r, d', evs)"
  shows "r = Some (config_text J L c)" "evs = [config_text J L c]" "hget d' p = Some (str_bytes (config_text J L c))"
  using assms write_to_disk_ok [of E suffix p "config_text J L c" d _ d' p]
  by (auto simp: flush_write_def Let_def split: sum.splits prod.splits)

lemma flush_write_err:
  assumes "flush_write E J L suffix (Some (p, c)) d = (Inl e, d', evs)"
  shows "evs = []" "hget d' p = hget d p"
  using assms write_to_disk_err [of E suffix p "config_text J L c" d _ d' p]
  by (auto simp: flush_write_def Let_def split: sum.splits prod.splits)

lemma flush_takes_current:
  assumes "cs_inv st" "cs_file_path st = Some p" "cs_current st = Some c"
  shows "flush_take st = (Some (p, c), st\<lparr> cs_pending := None, cs_pending_at := None \<rparr>)"
  using assms by (auto simp: flush_take_def cs_inv_def Let_def split: option.split)

section \<open>A concrete store\<close>

definition st_ref :: Store where
  "st_ref = \<lparr> cs_file_path = Some (join_path ''/s'' CONFIG_FILE_NAME), cs_current = Some app_default, cs_pending = None,
     cs_pending_at = None, cs_loaded_from_disk = False \<rparr>"

abbreviation J_cfg :: json_lib where
  "J_cfg \<equiv> json_table [app_to_json f64_ref app_default]"

lemma st_ref_ok: "cs_inv st_ref" "cs_file_path st_ref = Some (join_path ''/s'' CONFIG_FILE_NAME)" "cs_current st_ref = Some app_default"
  by (simp_all add: st_ref_def cs_inv_def app_sanitized_default)

lemma no_faults_write:
  assumes "\<not> file_exists d (tmp_path suffix p)"
  obtains d' where "write_to_disk no_faults suffix p txt d = (Inr (), d')"
proof -
  have "\<forall>op \<in> {FsCreate (tmp_path suffix p), FsFill (tmp_path suffix p), FsSync (tmp_path suffix p), FsRename p}. io_fault no_faults op = None"
    by (simp add: no_faults_def)
  with assms obtain d' where "write_bytes_atomic no_faults suffix p (str_bytes txt) d = (Inr (), d')"
    by (rule write_atomic_succeeds)
  then show thesis by (intro that [of d']) (simp add: write_to_disk_def create_dir_all_secure_def no_faults_def)
qed

lemma no_faults_flush_write:
  assumes "\<not> file_exists d (tmp_path suffix p)"
  obtains d' where "flush_write no_faults J L suffix (Some (p, c)) d = (Inr (Some (config_text J L c)), d', [config_text J L c])"
proof -
  obtain d' where "write_to_disk no_faults suffix p (config_text J L c) d = (Inr (), d')"
    using assms by (rule no_faults_write)
  then show thesis by (intro that [of d']) (simp add: flush_write_def Let_def)
qed

section \<open>Properties\<close>

text \<open>
  In every run of the store (any calls in any order, from any thread, at any times) a state that
  waits for its write is the current one and has a deadline, nothing is set before \<open>init\<close>, and the
  configuration in memory is sanitised.
\<close>

theorem config_store_invariant: "cs_inv (fold (cs_step E J L) calls cs_new)"
  by (rule cs.inv_run [OF cs_inv_new])

text \<open>
  C23. What a flush wrote survives a restart: a fresh store initialised from the resulting disk adopts the
  configuration the old one held, and says that it came from the file.
\<close>

theorem saved_config_survives_restart:
  assumes "cs_inv st" and "cs_file_path st = Some (join_path dir CONFIG_FILE_NAME)" and "cs_current st = Some c"
    and "json_ok J (app_to_json L c)" and "f64_ok L c" and "config_ints_ok c"
    and "io_fault E' (FsRead (join_path dir CONFIG_FILE_NAME)) = None"
    and "flush E J L suffix st d = (Inr r, st', d', evs)"
  shows "snd (cs_init E' J L dir d' cs_new) =
    \<lparr> cs_file_path = Some (join_path dir CONFIG_FILE_NAME), cs_current = Some c, cs_pending = None, cs_pending_at = None,
      cs_loaded_from_disk = True \<rparr> \<and> evs = [config_text J L c]"
proof -
  obtain w: "flush_write E J L suffix (Some (join_path dir CONFIG_FILE_NAME, c)) d = (Inr r, d', evs)"
    using assms(8) flush_takes_current [OF assms(1-3)] by (simp add: flush_def split: prod.splits)
  note f = flush_write_ok [OF w]
  have "app_from_json L (app_to_json L c) = c"
    using app_from_to_json [OF assms(5,6)] cs_inv_current [OF assms(1,3)] by simp
  with f assms(4,7) show ?thesis
    by (simp add: cs_init_def Let_def read_bytes_secure_def config_text_def json_ok_def from_utf8_def)
qed

theorem saved_config_survives_restart_witness:
  "\<exists>r st' d' evs. flush no_faults J_cfg f64_ref 1 st_ref hempty = (Inr r, st', d', evs) \<and>
     cs_current (snd (cs_init no_faults J_cfg f64_ref ''/s'' d' cs_new)) = Some app_default"
proof -
  have "\<not> file_exists hempty (tmp_path 1 (join_path ''/s'' CONFIG_FILE_NAME))" by (simp add: file_exists_def)
  then obtain d' where w: "flush_write no_faults J_cfg f64_ref 1 (Some (join_path ''/s'' CONFIG_FILE_NAME, app_default)) hempty =
      (Inr (Some (config_text J_cfg f64_ref app_default)), d', [config_text J_cfg f64_ref app_default])"
    by (rule no_faults_flush_write)
  then have f: "flush no_faults J_cfg f64_ref 1 st_ref hempty =
      (Inr (Some (config_text J_cfg f64_ref app_default)), st_ref\<lparr> cs_pending := None, cs_pending_at := None \<rparr>, d',
       [config_text J_cfg f64_ref app_default])"
    using flush_takes_current [OF st_ref_ok] by (simp add: flush_def)
  have "snd (cs_init no_faults J_cfg f64_ref ''/s'' d' cs_new) =
    \<lparr> cs_file_path = Some (join_path ''/s'' CONFIG_FILE_NAME), cs_current = Some app_default, cs_pending = None,
      cs_pending_at = None, cs_loaded_from_disk = True \<rparr> \<and>
    [config_text J_cfg f64_ref app_default] = [config_text J_cfg f64_ref app_default]"
    by (rule saved_config_survives_restart [OF st_ref_ok _ _ _ _ f]) (simp_all add: no_faults_def)
  with f show ?thesis by auto
qed

text \<open>
  Changes are coalesced: after a successful change at time \<open>t\<close> no tick before \<open>t + 300\<close> touches the
  disk or the store, and every later tick flushes.
\<close>

theorem debounce_window:
  assumes "set_json J L t s st = (Inr (), st')"
  shows "tick_if_due E J L now suffix st' d =
    (if now < t + 300 then (Inr False, st', d, [])
     else case flush E J L suffix st' d of
            (Inl e, st'', d', evs) \<Rightarrow> (Inl e, st'', d', evs)
          | (Inr _, st'', d', evs) \<Rightarrow> (Inr True, st'', d', evs))"
proof -
  have "is_due now st' \<longleftrightarrow> \<not> now < t + 300"
    using assms by (auto simp: set_json_def Let_def cs_swap_def is_due_def DEBOUNCE_def split: option.splits if_splits)
  then show ?thesis by (simp add: tick_if_due_def)
qed

text \<open>
  A save that fails is forgotten: when the write of a due state fails, the state is no longer pending,
  so no later tick tries again; the disk keeps the old text until the next change, and no event tells.
\<close>

theorem failed_save_not_retried:
  assumes "cs_inv st" and "cs_file_path st = Some p" and "cs_current st = Some c"
    and "tick_if_due E J L now suffix st d = (Inl e, st', d', evs)"
  shows "cs_current st' = Some c \<and> hget d' p = hget d p \<and> evs = [] \<and>
    tick_if_due E' J L later suffix' st' d' = (Inr False, st', d', [])"
proof -
  note t = flush_takes_current [OF assms(1-3)]
  have w: "flush_write E J L suffix (Some (p, c)) d = (Inl e, d', evs)"
    and st': "st' = st\<lparr> cs_pending := None, cs_pending_at := None \<rparr>"
    using assms(4) t by (auto simp: tick_if_due_def flush_def split: if_splits prod.splits sum.splits)
  from flush_write_err [OF w] st' assms(3) show ?thesis by (simp add: tick_if_due_def is_due_def)
qed

definition full_disk :: io_env where
  "full_disk = \<lparr> io_fault = (\<lambda>op. case op of FsRename p \<Rightarrow> Some ''No space left on device'' | _ \<Rightarrow> None), io_partial = 0 \<rparr>"

theorem failed_save_not_retried_witness:
  "\<exists>e st' d' evs. tick_if_due full_disk J_cfg f64_ref 300 1 (cs_swap 0 app_default st_ref) hempty = (Inl e, st', d', evs) \<and>
     hget d' (join_path ''/s'' CONFIG_FILE_NAME) = None \<and>
     tick_if_due no_faults J_cfg f64_ref 9000 2 st' d' = (Inr False, st', d', [])"
proof -
  let ?p = "join_path ''/s'' CONFIG_FILE_NAME" and ?st = "cs_swap 0 app_default st_ref"
  have inv: "cs_inv ?st" "cs_file_path ?st = Some ?p" "cs_current ?st = Some app_default"
    by (simp_all add: cs_swap_def st_ref_def cs_inv_def app_sanitized_default)
  obtain e' d1 where "write_bytes_atomic full_disk 1 ?p (str_bytes (config_text J_cfg f64_ref app_default)) hempty = (Inl e', d1)"
    by (rule write_atomic_rename_fails [of full_disk ?p]) (simp add: full_disk_def)
  then obtain e st' d' evs where t: "tick_if_due full_disk J_cfg f64_ref 300 1 ?st hempty = (Inl e, st', d', evs)"
    using flush_takes_current [OF inv]
    by (simp add: tick_if_due_def is_due_def flush_def flush_write_def write_to_disk_def create_dir_all_secure_def full_disk_def
        cs_swap_def DEBOUNCE_def Let_def)
  from failed_save_not_retried [OF inv t, of no_faults 9000 2] t show ?thesis by auto
qed

text \<open>
  Two flushes can overtake each other: the ticker takes a state, a change and a complete flush happen
  before the ticker writes, and its write then puts the older state on the disk.  The store holds the
  newer one and has nothing pending, so the old text stays.
\<close>

theorem stale_write_wins:
  assumes "cs_inv st" and "cs_file_path st = Some p" and "cs_current st = Some a" and "app_sanitized b = b"
    and "flush_take st = (job, st1)"
    and "flush E J L suffix (cs_swap now b st1) d = (Inr r, st2, d2, evs2)"
    and "flush_write E J L suffix' job d2 = (Inr r', d3, evs3)"
  shows "cs_current st2 = Some b \<and> cs_pending st2 = None \<and> hget d2 p = Some (str_bytes (config_text J L b)) \<and>
    hget d3 p = Some (str_bytes (config_text J L a))"
proof -
  from flush_takes_current [OF assms(1-3)] assms(5)
  have 1: "job = Some (p, a)" "st1 = st\<lparr> cs_pending := None, cs_pending_at := None \<rparr>" by simp_all
  have inv: "cs_inv (cs_swap now b st1)" "cs_file_path (cs_swap now b st1) = Some p" "cs_current (cs_swap now b st1) = Some b"
    using assms(1-4) 1 by (auto simp: cs_inv_def cs_swap_def)
  have w: "flush_write E J L suffix (Some (p, b)) d = (Inr r, d2, evs2)" "cs_current st2 = Some b" "cs_pending st2 = None"
    using assms(6) flush_takes_current [OF inv] inv(3) by (auto simp: flush_def split: prod.splits)
  from flush_write_ok(3) [OF w(1)] flush_write_ok(3) [OF assms(7) [unfolded 1(1)]] w(2,3) show ?thesis by simp
qed

theorem stale_write_wins_witness:
  "\<exists>st1 r st2 d2 evs2 r' d3 evs3. let b = app_default\<lparr> ac_max_history := 7 \<rparr>; p = join_path ''/s'' CONFIG_FILE_NAME in
     flush_take st_ref = (Some (p, app_default), st1) \<and>
     flush no_faults J_cfg f64_ref 1 (cs_swap 5 b st1) hempty = (Inr r, st2, d2, evs2) \<and>
     flush_write no_faults J_cfg f64_ref 2 (Some (p, app_default)) d2 = (Inr r', d3, evs3) \<and>
     cs_current st2 = Some b \<and> hget d3 p = Some (str_bytes (config_text J_cfg f64_ref app_default))"
proof -
  let ?b = "app_default\<lparr> ac_max_history := 7 \<rparr>" and ?p = "join_path ''/s'' CONFIG_FILE_NAME"
  have b: "app_sanitized ?b = ?b"
    by (simp add: app_sanitized_def app_default_def sanitized_defaults config_consts(9-))
  note t = flush_takes_current [OF st_ref_ok]
  let ?st1 = "st_ref\<lparr> cs_pending := None, cs_pending_at := None \<rparr>"
  have inv: "cs_inv (cs_swap 5 ?b ?st1)" "cs_file_path (cs_swap 5 ?b ?st1) = Some ?p" "cs_current (cs_swap 5 ?b ?st1) = Some ?b"
    using b by (simp_all add: cs_swap_def st_ref_def cs_inv_def)
  have "\<not> file_exists hempty (tmp_path 1 ?p)" by (simp add: file_exists_def)
  then obtain d2 where w: "flush_write no_faults J_cfg f64_ref 1 (Some (?p, ?b)) hempty =
      (Inr (Some (config_text J_cfg f64_ref ?b)), d2, [config_text J_cfg f64_ref ?b])"
    by (rule no_faults_flush_write)
  have f: "flush no_faults J_cfg f64_ref 1 (cs_swap 5 ?b ?st1) hempty =
      (Inr (Some (config_text J_cfg f64_ref ?b)), (cs_swap 5 ?b ?st1)\<lparr> cs_pending := None, cs_pending_at := None \<rparr>, d2,
       [config_text J_cfg f64_ref ?b])"
    using flush_takes_current [OF inv] w by (simp add: flush_def)
  have "\<not> file_exists d2 (tmp_path 2 ?p)"
  proof -
    have "hex_pad 8 (unat (2 :: 32 word)) \<noteq> hex_pad 8 (unat (1 :: 32 word))" by code_simp
    then have "tmp_path 2 ?p \<noteq> tmp_path 1 ?p" unfolding tmp_path_def by simp
    moreover obtain u where "write_to_disk no_faults 1 ?p (config_text J_cfg f64_ref ?b) hempty = (Inr u, d2)"
      using w by (auto simp: flush_write_def Let_def split: sum.splits prod.splits)
    ultimately show ?thesis using write_to_disk_ok by (simp add: file_exists_def)
  qed
  then obtain d3 where w3: "flush_write no_faults J_cfg f64_ref 2 (Some (?p, app_default)) d2 =
      (Inr (Some (config_text J_cfg f64_ref app_default)), d3, [config_text J_cfg f64_ref app_default])"
    by (rule no_faults_flush_write)
  from stale_write_wins [OF st_ref_ok b t f w3] t f w3 show ?thesis by (auto simp: Let_def)
qed

end
