(* ===== verification/Tier_Unlock.thy ===== *)
theory Tier_Unlock
  imports Tier_Machine Rate_Limit Secret_Store Prompt_Registry Master_Password Keychain_Actor Config_Store
begin

text \<open>
  The unlock orchestrators of \<open>security/tier_unlock_orchestrator.rs\<close>: for each tier the unlock and the
  first launch, and the cascade that follows a success.  They compose the lock machine, the rate
  limiters, the secret store, the prompt registries, the master password, the keychain gate and the
  configuration store; the whole state of the process they touch is the record \<open>app\<close>.

  Opening the database is the parameter \<open>ue_db_open\<close> (\<open>None\<close> when it opens).  An operation that
  panics has the outcome \<open>None\<close>.  The hardware tiers wait for an answer of the user interface: they
  are a first part, up to the wait, and a second part that is given what the channel delivered.
\<close>

section \<open>Definitions\<close>

datatype UnlockOutcome = Staged | OWrongSecret | OCancelled | OPluginError string | OCorruption string

datatype bus_event =
    TierStateChanged string
  | SessionsChanged
  | KeysChanged
  | KnownHostsChanged
  | UnlockCascadeReady string bool
  | HardwareVaultUnlockPromptRequest string "string option"
  | HardwareVaultSealPromptRequest string string "string option"

record app =
  ap_secrets :: SecretStore
  ap_limiters :: limiters
  ap_machine :: Machine
  ap_bus :: "bus_event list"
  ap_db :: "(string \<times> bytes) option"
  ap_config :: Store
  ap_pin :: "string option"
  ap_disk :: files
  ap_keychain :: keychain
  ap_unlock_prompts :: "(string + bytes option) registry"
  ap_seal_prompts :: "(string + unit) registry"

text \<open>What a call finds outside: faults, libraries, clock readings and the database engine.\<close>

record unlock_env =
  ue_io :: io_env
  ue_kc :: kc_faults
  ue_json :: json_lib
  ue_b64 :: b64_lib
  ue_crypto :: crypto_lib
  ue_argon :: argon
  ue_aead :: aead_lib
  ue_grant :: "nat \<Rightarrow> bool"
  ue_now :: int
  ue_later :: int
  ue_mono :: int
  ue_db_open :: "string \<Rightarrow> bytes \<Rightarrow> string option"
  ue_mp_text :: "mp_error \<Rightarrow> string"

definition TIER_UNLOCK_KEY_ID :: string where
  "TIER_UNLOCK_KEY_ID = ACTIVE_DBKEY_SECRET_ID"

definition ENCRYPTION_KEY_SLOT :: string where
  "ENCRYPTION_KEY_SLOT = ''letsflutssh_encryption_key''"

definition KEYCHAIN_PW_UNLOCK_LIMITER_ID :: string where
  "KEYCHAIN_PW_UNLOCK_LIMITER_ID = ''tier_unlock.keychain_with_password''"

definition PARANOID_UNLOCK_LIMITER_ID :: string where
  "PARANOID_UNLOCK_LIMITER_ID = ''tier_unlock.paranoid''"

definition HARDWARE_UNLOCK_LIMITER_ID :: string where
  "HARDWARE_UNLOCK_LIMITER_ID = ''tier_unlock.hardware''"

definition DB_FILE_NAME :: string where
  "DB_FILE_NAME = ''letsflutssh.db''"

definition publish :: "bus_event \<Rightarrow> app \<Rightarrow> app" where
  "publish ev s = s\<lparr> ap_bus := ap_bus s @ [ev] \<rparr>"

definition fire :: "SecurityTier \<Rightarrow> TierEvent \<Rightarrow> app \<Rightarrow> app" where
  "fire t ev s =
     (let (r, m', out) = instance_dispatch t ev (ap_machine s)
      in s\<lparr> ap_machine := m', ap_bus := ap_bus s @ map TierStateChanged out \<rparr>)"

definition stage_key :: "unlock_env \<Rightarrow> bytes \<Rightarrow> app \<Rightarrow> app" where
  "stage_key V bs s = s\<lparr> ap_secrets := secret_put (ue_grant V) TIER_UNLOCK_KEY_ID bs (ap_secrets s) \<rparr>"

definition db_init :: "unlock_env \<Rightarrow> string \<Rightarrow> bytes \<Rightarrow> app \<Rightarrow> app" where
  "db_init V path key s =
     (case ue_db_open V path key of Some _ \<Rightarrow> s | None \<Rightarrow> s\<lparr> ap_db := Some (path, key) \<rparr>)"

definition run_post_unlock_cascade :: "unlock_env \<Rightarrow> SecurityTier \<Rightarrow> app \<Rightarrow> app" where
  "run_post_unlock_cascade V tier s =
     (let has_key = secret_has TIER_UNLOCK_KEY_ID (ap_secrets s);
          ready = UnlockCascadeReady (tier_wire_name tier) has_key
      in case try_pinned_support_dir (ap_pin s) of
           Inl _ \<Rightarrow> publish ready s
         | Inr dir \<Rightarrow>
             (let key = (case secret_get TIER_UNLOCK_KEY_ID (ap_secrets s) of Some k \<Rightarrow> k | None \<Rightarrow> []);
                  s1 = db_init V (join_path dir DB_FILE_NAME) key s;
                  s2 = s1\<lparr> ap_config := snd (update_security_tier (ue_mono V) tier (ap_config s1)) \<rparr>
              in publish ready (publish KnownHostsChanged (publish KeysChanged (publish SessionsChanged s2)))))"

text \<open>The three lines every success runs.\<close>

definition unlock_succeeds :: "unlock_env \<Rightarrow> SecurityTier \<Rightarrow> bytes \<Rightarrow> app \<Rightarrow> app" where
  "unlock_succeeds V t bs s = run_post_unlock_cascade V t (fire t UnlockSucceeded (stage_key V bs s))"

definition unlock_plaintext :: "unlock_env \<Rightarrow> app \<Rightarrow> app" where
  "unlock_plaintext V s = unlock_succeeds V Plaintext [] (fire Plaintext UnlockRequested s)"

definition plugin_failed :: "SecurityTier \<Rightarrow> string \<Rightarrow> app \<Rightarrow> UnlockOutcome \<times> app" where
  "plugin_failed t why s = (OPluginError why, fire t (UnlockFailed (PluginUnavailable why)) s)"

definition read_key_and_unlock :: "unlock_env \<Rightarrow> string \<Rightarrow> app \<Rightarrow> UnlockOutcome \<times> app" where
  "read_key_and_unlock V missing s =
     (case kc_read (ue_kc V) ENCRYPTION_KEY_SLOT (ap_keychain s) of
        Inr (Some bs) \<Rightarrow>
          (if bs \<noteq> [] then (Staged, unlock_succeeds V Keychain bs s) else plugin_failed Keychain missing s)
      | Inr None \<Rightarrow> plugin_failed Keychain missing s
      | Inl e \<Rightarrow> plugin_failed Keychain (''keychain_read_failed: '' @ e) s)"

definition unlock_keychain :: "unlock_env \<Rightarrow> app \<Rightarrow> UnlockOutcome \<times> app" where
  "unlock_keychain V s = read_key_and_unlock V ''missing_keychain_entry'' (fire Keychain UnlockRequested s)"

definition limiter_check :: "string \<Rightarrow> unlock_env \<Rightarrow> app \<Rightarrow> bool \<times> app" where
  "limiter_check lid V s =
     (let (st, g) = reg_status lid (ue_now V) (ap_limiters s) in (is_locked st, s\<lparr> ap_limiters := g \<rparr>))"

definition limiter_failed :: "string \<Rightarrow> unlock_env \<Rightarrow> app \<Rightarrow> app" where
  "limiter_failed lid V s = s\<lparr> ap_limiters := reg_record_failure lid (ue_later V) (ap_limiters s) \<rparr>"

definition limiter_succeeded :: "string \<Rightarrow> app \<Rightarrow> app" where
  "limiter_succeeded lid s = s\<lparr> ap_limiters := reg_record_success lid (ap_limiters s) \<rparr>"

definition unlock_keychain_with_password :: "unlock_env \<Rightarrow> bytes \<Rightarrow> app \<Rightarrow> UnlockOutcome option \<times> app" where
  "unlock_keychain_with_password V password s =
     (let s1 = fire Keychain UnlockRequested s;
          (locked, s2) = limiter_check KEYCHAIN_PW_UNLOCK_LIMITER_ID V s1
      in if locked then (Some OWrongSecret, fire Keychain (UnlockFailed WrongSecret) s2)
         else case ap_pin s2 of
           None \<Rightarrow> (None, s2)
         | Some dir \<Rightarrow>
             (case gate_verify_password (ue_io V) (ue_kc V) (ue_json V) (ue_b64 V) (ue_crypto V) dir password
                     (ap_disk s2) (ap_keychain s2) of
                Inl why \<Rightarrow> (Some (OCorruption why), fire Keychain (UnlockFailed (Corruption why)) s2)
              | Inr False \<Rightarrow>
                  (Some OWrongSecret,
                   fire Keychain (UnlockFailed WrongSecret) (limiter_failed KEYCHAIN_PW_UNLOCK_LIMITER_ID V s2))
              | Inr True \<Rightarrow>
                  (let (r, s3) = read_key_and_unlock V ''missing_keychain_entry_after_verify''
                                   (limiter_succeeded KEYCHAIN_PW_UNLOCK_LIMITER_ID s2)
                   in (Some r, s3))))"

text \<open>Without a pinned directory the blocking task panics, which the await turns into an error.\<close>

definition unlock_paranoid :: "unlock_env \<Rightarrow> bytes \<Rightarrow> app \<Rightarrow> UnlockOutcome \<times> app" where
  "unlock_paranoid V password s =
     (let s1 = fire Paranoid UnlockRequested s;
          (locked, s2) = limiter_check PARANOID_UNLOCK_LIMITER_ID V s1
      in if locked then (OWrongSecret, fire Paranoid (UnlockFailed WrongSecret) s2)
         else case ap_pin s2 of
           None \<Rightarrow> (OCorruption ''Argon2id task panicked'',
                    fire Paranoid (UnlockFailed (Corruption ''Argon2id task panicked'')) s2)
         | Some dir \<Rightarrow>
             (case verify_and_derive (ue_io V) (ue_argon V) (ue_aead V) dir password (ap_disk s2) of
                Inl e \<Rightarrow>
                  (OCorruption (ue_mp_text V e), fire Paranoid (UnlockFailed (Corruption (ue_mp_text V e))) s2)
              | Inr (Some bs) \<Rightarrow>
                  (if bs \<noteq> []
                   then (Staged, unlock_succeeds V Paranoid bs (limiter_succeeded PARANOID_UNLOCK_LIMITER_ID s2))
                   else (OWrongSecret, fire Paranoid (UnlockFailed WrongSecret) (limiter_failed PARANOID_UNLOCK_LIMITER_ID V s2)))
              | Inr None \<Rightarrow>
                  (OWrongSecret, fire Paranoid (UnlockFailed WrongSecret) (limiter_failed PARANOID_UNLOCK_LIMITER_ID V s2))))"

text \<open>\<open>Inl\<close>: finished; \<open>Inr\<close>: waiting on this channel of the prompt registry.\<close>

definition unlock_hardware_ask :: "unlock_env \<Rightarrow> string \<Rightarrow> string \<Rightarrow> app \<Rightarrow> (UnlockOutcome + nat) \<times> app" where
  "unlock_hardware_ask V prompt_id password s =
     (let s1 = fire Hardware UnlockRequested s
      in if password = []
         then (let (r, s2) = plugin_failed Hardware ''hardware_password_required'' s1 in (Inl r, s2))
         else (let (locked, s2) = limiter_check HARDWARE_UNLOCK_LIMITER_ID V s1
               in if locked
                  then (let (r, s3) = plugin_failed Hardware ''hardware_vault_rate_limited'' s2 in (Inl r, s3))
                  else (let (c, g) = pg_register prompt_id (ap_unlock_prompts s2)
                        in (Inr c, publish (HardwareVaultUnlockPromptRequest prompt_id (Some password))
                                     (s2\<lparr> ap_unlock_prompts := g \<rparr>)))))"

definition unlock_hardware_resume ::
  "unlock_env \<Rightarrow> string \<Rightarrow> (string + bytes option) option \<Rightarrow> app \<Rightarrow> UnlockOutcome \<times> app" where
  "unlock_hardware_resume V prompt_id answer s =
     (case answer of
        Some (Inr (Some bs)) \<Rightarrow>
          (if bs \<noteq> []
           then (Staged, run_post_unlock_cascade V Hardware
                           (fire Hardware UnlockSucceeded (limiter_succeeded HARDWARE_UNLOCK_LIMITER_ID (stage_key V bs s))))
           else (OWrongSecret, fire Hardware (UnlockFailed WrongSecret) (limiter_failed HARDWARE_UNLOCK_LIMITER_ID V s)))
      | Some (Inr None) \<Rightarrow>
          (OWrongSecret, fire Hardware (UnlockFailed WrongSecret) (limiter_failed HARDWARE_UNLOCK_LIMITER_ID V s))
      | Some (Inl why) \<Rightarrow> plugin_failed Hardware why (limiter_failed HARDWARE_UNLOCK_LIMITER_ID V s)
      | None \<Rightarrow>
          plugin_failed Hardware ''hardware_vault_prompt_cancelled''
            (s\<lparr> ap_unlock_prompts := pg_cancel prompt_id (ap_unlock_prompts s) \<rparr>))"

definition first_launch_plaintext :: "unlock_env \<Rightarrow> app \<Rightarrow> app" where
  "first_launch_plaintext V s = unlock_succeeds V Plaintext [] (fire Plaintext UnlockRequested s)"

definition first_launch_paranoid :: "unlock_env \<Rightarrow> mp_random \<Rightarrow> bytes \<Rightarrow> app \<Rightarrow> UnlockOutcome \<times> app" where
  "first_launch_paranoid V rnd password s =
     (let s1 = fire Paranoid UnlockRequested s;
          corrupt = (\<lambda>why s'. (OCorruption why, fire Paranoid (UnlockFailed (Corruption why)) s'))
      in case ap_pin s1 of
           None \<Rightarrow> corrupt ''Argon2id task panicked'' s1
         | Some dir \<Rightarrow>
             (case mp_enable (ue_io V) (ue_argon V) (ue_aead V) rnd dir password kdf_defaults (ap_disk s1) of
                (Inl e, d) \<Rightarrow> corrupt (ue_mp_text V e) (s1\<lparr> ap_disk := d \<rparr>)
              | (Inr bs, d) \<Rightarrow>
                  (if bs \<noteq> [] then (Staged, unlock_succeeds V Paranoid bs (s1\<lparr> ap_disk := d \<rparr>))
                   else corrupt ''master_password::enable returned empty key'' (s1\<lparr> ap_disk := d \<rparr>))))"

definition write_to_keychain :: "unlock_env \<Rightarrow> bytes \<Rightarrow> app \<Rightarrow> (string + unit) \<times> app" where
  "write_to_keychain V bs s =
     (case kc_write (ue_kc V) ENCRYPTION_KEY_SLOT bs (ap_keychain s) of
        (Inl e, kc) \<Rightarrow> (Inl (''keychain_write_failed: '' @ e), s\<lparr> ap_keychain := kc \<rparr>)
      | (Inr u, kc) \<Rightarrow> (Inr u, s\<lparr> ap_keychain := kc \<rparr>))"

text \<open>The random key is an argument.\<close>

definition first_launch_keychain :: "unlock_env \<Rightarrow> bytes \<Rightarrow> app \<Rightarrow> UnlockOutcome \<times> app" where
  "first_launch_keychain V key s =
     (case write_to_keychain V key (fire Keychain UnlockRequested s) of
        (Inr _, s1) \<Rightarrow> (Staged, unlock_succeeds V Keychain key s1)
      | (Inl why, s1) \<Rightarrow> plugin_failed Keychain why s1)"

definition first_launch_keychain_with_password ::
  "unlock_env \<Rightarrow> bytes \<Rightarrow> bytes \<Rightarrow> 32 word \<Rightarrow> bytes \<Rightarrow> bytes \<Rightarrow> app \<Rightarrow> UnlockOutcome option \<times> app" where
  "first_launch_keychain_with_password V salt pepper suffix key password s =
     (let s1 = fire Keychain UnlockRequested s
      in case ap_pin s1 of
           None \<Rightarrow> (None, s1)
         | Some dir \<Rightarrow>
             (case gate_set_password (ue_io V) (ue_kc V) (ue_b64 V) (ue_crypto V) salt pepper suffix dir password
                     (ap_disk s1) (ap_keychain s1) of
                (Inl why, d, kc) \<Rightarrow>
                  (Some (OCorruption why),
                   fire Keychain (UnlockFailed (Corruption why)) (s1\<lparr> ap_disk := d, ap_keychain := kc \<rparr>))
              | (Inr _, d, kc) \<Rightarrow>
                  (case write_to_keychain V key (s1\<lparr> ap_disk := d, ap_keychain := kc \<rparr>) of
                     (Inr _, s2) \<Rightarrow> (Some Staged, unlock_succeeds V Keychain key s2)
                   | (Inl why, s2) \<Rightarrow>
                       (let (r, d', kc') = gate_clear (ue_io V) (ue_kc V) dir (ap_disk s2) (ap_keychain s2);
                            (o1, s3) = plugin_failed Keychain why (s2\<lparr> ap_disk := d', ap_keychain := kc' \<rparr>)
                        in (Some o1, s3)))))"

definition seal_key_id :: "string \<Rightarrow> string" where
  "seal_key_id prompt_id = ''seal_prompt.db_key.'' @ prompt_id"

definition seal_pin_id :: "string \<Rightarrow> string" where
  "seal_pin_id prompt_id = ''seal_prompt.pin.'' @ prompt_id"

definition first_launch_hardware_ask ::
  "unlock_env \<Rightarrow> string \<Rightarrow> bytes \<Rightarrow> string option \<Rightarrow> app \<Rightarrow> nat \<times> app" where
  "first_launch_hardware_ask V prompt_id key pin s =
     (let s1 = fire Hardware UnlockRequested s;
          (c, g) = pg_register prompt_id (ap_seal_prompts s1);
          st1 = secret_put (ue_grant V) (seal_key_id prompt_id) key (ap_secrets s1);
          st2 = (case pin of
                   Some p \<Rightarrow> secret_put (ue_grant V) (seal_pin_id prompt_id) (str_bytes p) st1
                 | None \<Rightarrow> st1)
      in (c, publish (HardwareVaultSealPromptRequest prompt_id (seal_key_id prompt_id)
                        (map_option (\<lambda>_. seal_pin_id prompt_id) pin))
               (s1\<lparr> ap_seal_prompts := g, ap_secrets := st2 \<rparr>)))"

definition first_launch_hardware_resume ::
  "unlock_env \<Rightarrow> string \<Rightarrow> bytes \<Rightarrow> string option \<Rightarrow> (string + unit) option \<Rightarrow> app \<Rightarrow> UnlockOutcome \<times> app" where
  "first_launch_hardware_resume V prompt_id key pin answer s =
     (let (r, s1) =
            (case answer of
               Some (Inr _) \<Rightarrow> (Staged, unlock_succeeds V Hardware key s)
             | Some (Inl why) \<Rightarrow> plugin_failed Hardware why s
             | None \<Rightarrow> plugin_failed Hardware ''hardware_vault_seal_prompt_cancelled''
                          (s\<lparr> ap_seal_prompts := pg_cancel prompt_id (ap_seal_prompts s) \<rparr>));
          st1 = snd (secret_take (seal_key_id prompt_id) (ap_secrets s1));
          st2 = (case pin of Some _ \<Rightarrow> snd (secret_take (seal_pin_id prompt_id) st1) | None \<Rightarrow> st1)
      in (r, s1\<lparr> ap_secrets := st2 \<rparr>))"

definition commit_biometric_unlock :: "unlock_env \<Rightarrow> SecurityTier \<Rightarrow> bytes \<Rightarrow> app \<Rightarrow> app" where
  "commit_biometric_unlock V t bs s = unlock_succeeds V t bs (fire t UnlockRequested s)"

definition commit_biometric_unlock_from_secret :: "unlock_env \<Rightarrow> SecurityTier \<Rightarrow> string \<Rightarrow> app \<Rightarrow> bool \<times> app" where
  "commit_biometric_unlock_from_secret V t secret_id s =
     (if \<not> secret_has secret_id (ap_secrets s) then (False, s)
      else let (renamed, st) = (if secret_id = TIER_UNLOCK_KEY_ID then (True, ap_secrets s)
                                else secret_rename secret_id TIER_UNLOCK_KEY_ID (ap_secrets s))
           in if \<not> renamed then (False, s\<lparr> ap_secrets := st \<rparr>)
              else (True, run_post_unlock_cascade V t
                            (fire t UnlockSucceeded (fire t UnlockRequested (s\<lparr> ap_secrets := st \<rparr>)))))"

definition cancel_unlock :: "SecurityTier \<Rightarrow> app \<Rightarrow> app" where
  "cancel_unlock t s = fire t (UnlockFailed UserCancelled) s"

section \<open>Frames\<close>

lemma fire_frame [simp]:
  "ap_secrets (fire t ev s) = ap_secrets s" "ap_limiters (fire t ev s) = ap_limiters s" "ap_db (fire t ev s) = ap_db s"
  "ap_config (fire t ev s) = ap_config s" "ap_pin (fire t ev s) = ap_pin s" "ap_disk (fire t ev s) = ap_disk s"
  "ap_keychain (fire t ev s) = ap_keychain s" "ap_unlock_prompts (fire t ev s) = ap_unlock_prompts s"
  "ap_seal_prompts (fire t ev s) = ap_seal_prompts s"
  by (simp_all add: fire_def Let_def split: prod.split)

lemma machine_fire:
  "ap_machine (fire t ev s) =
     (case next_state (m_state (ap_machine s)) ev of
        None \<Rightarrow> set_tier t (ap_machine s) | Some n \<Rightarrow> (set_tier t (ap_machine s))\<lparr> m_state := n \<rparr>)"
  by (simp add: fire_def instance_dispatch_def dispatch_def set_tier_def split: option.split)

lemma lock_state_fire:
  "m_state (ap_machine (fire t ev s)) =
     (case next_state (m_state (ap_machine s)) ev of None \<Rightarrow> m_state (ap_machine s) | Some n \<Rightarrow> n)"
  by (simp add: machine_fire set_tier_def split: option.split)

lemma publish_frame [simp]:
  "ap_secrets (publish ev s) = ap_secrets s" "ap_limiters (publish ev s) = ap_limiters s" "ap_db (publish ev s) = ap_db s"
  "ap_config (publish ev s) = ap_config s" "ap_pin (publish ev s) = ap_pin s" "ap_disk (publish ev s) = ap_disk s"
  "ap_keychain (publish ev s) = ap_keychain s" "ap_machine (publish ev s) = ap_machine s"
  "ap_unlock_prompts (publish ev s) = ap_unlock_prompts s" "ap_seal_prompts (publish ev s) = ap_seal_prompts s"
  "ap_bus (publish ev s) = ap_bus s @ [ev]"
  by (simp_all add: publish_def)

lemma db_init_frame [simp]:
  "ap_secrets (db_init V p k s) = ap_secrets s" "ap_limiters (db_init V p k s) = ap_limiters s"
  "ap_config (db_init V p k s) = ap_config s" "ap_pin (db_init V p k s) = ap_pin s" "ap_disk (db_init V p k s) = ap_disk s"
  "ap_keychain (db_init V p k s) = ap_keychain s" "ap_machine (db_init V p k s) = ap_machine s"
  "ap_db (db_init V p k s) = (if ue_db_open V p k = None then Some (p, k) else ap_db s)"
  by (simp_all add: db_init_def split: option.split)

lemma cascade_frame [simp]:
  "ap_secrets (run_post_unlock_cascade V t s) = ap_secrets s" "ap_limiters (run_post_unlock_cascade V t s) = ap_limiters s"
  "ap_pin (run_post_unlock_cascade V t s) = ap_pin s" "ap_disk (run_post_unlock_cascade V t s) = ap_disk s"
  "ap_keychain (run_post_unlock_cascade V t s) = ap_keychain s" "ap_machine (run_post_unlock_cascade V t s) = ap_machine s"
  by (simp_all add: run_post_unlock_cascade_def Let_def split: sum.split)

lemma stage_key_frame [simp]:
  "ap_limiters (stage_key V bs s) = ap_limiters s" "ap_db (stage_key V bs s) = ap_db s" "ap_config (stage_key V bs s) = ap_config s"
  "ap_pin (stage_key V bs s) = ap_pin s" "ap_disk (stage_key V bs s) = ap_disk s" "ap_keychain (stage_key V bs s) = ap_keychain s"
  "ap_machine (stage_key V bs s) = ap_machine s"
  by (simp_all add: stage_key_def)

lemma succeeds_frame [simp]:
  "ap_limiters (unlock_succeeds V t bs s) = ap_limiters s" "ap_pin (unlock_succeeds V t bs s) = ap_pin s"
  "ap_disk (unlock_succeeds V t bs s) = ap_disk s" "ap_keychain (unlock_succeeds V t bs s) = ap_keychain s"
  "ap_machine (unlock_succeeds V t bs s) = ap_machine (fire t UnlockSucceeded s)"
  by (simp_all add: unlock_succeeds_def machine_fire split: option.split)

lemma staged_get_put [simp]: "secret_get k (secret_put g l bs st) = (if k = l then Some bs else secret_get k st)"
  by (simp add: secret_get_def secret_put_def Let_def)

lemma secret_has_put [simp]: "secret_has k (secret_put g l bs st) \<longleftrightarrow> k = l \<or> secret_has k st"
  by (simp add: secret_has_def secret_put_def Let_def)

lemma limiter_ops_frame [simp]:
  "ap_secrets (limiter_failed lid V s) = ap_secrets s" "ap_db (limiter_failed lid V s) = ap_db s"
  "ap_config (limiter_failed lid V s) = ap_config s" "ap_pin (limiter_failed lid V s) = ap_pin s"
  "ap_disk (limiter_failed lid V s) = ap_disk s" "ap_keychain (limiter_failed lid V s) = ap_keychain s"
  "ap_machine (limiter_failed lid V s) = ap_machine s"
  "ap_secrets (limiter_succeeded lid s) = ap_secrets s" "ap_db (limiter_succeeded lid s) = ap_db s"
  "ap_config (limiter_succeeded lid s) = ap_config s" "ap_pin (limiter_succeeded lid s) = ap_pin s"
  "ap_disk (limiter_succeeded lid s) = ap_disk s" "ap_keychain (limiter_succeeded lid s) = ap_keychain s"
  "ap_machine (limiter_succeeded lid s) = ap_machine s"
  by (simp_all add: limiter_failed_def limiter_succeeded_def)

text \<open>The limiter of an id and whether it is cooling down at the time of a call.\<close>

definition lim_of :: "string \<Rightarrow> app \<Rightarrow> limiter" where
  "lim_of lid s = entry_or_default lid (ap_limiters s)"

definition cooling :: "int \<Rightarrow> limiter \<Rightarrow> bool" where
  "cooling now l \<longleftrightarrow> is_locked (limiter_status now l)"

lemma limiter_check_eq:
  "limiter_check lid V s = (cooling (ue_now V) (lim_of lid s), s\<lparr> ap_limiters := hput lid (lim_of lid s) (ap_limiters s) \<rparr>)"
  by (simp add: limiter_check_def reg_status_def Let_def cooling_def lim_of_def)

lemma lim_of_simps [simp]:
  "lim_of lid (fire t ev s) = lim_of lid s"
  "lim_of lid (s\<lparr> ap_limiters := hput lid l g \<rparr>) = l"
  "lim_of lid (limiter_failed lid V s) = record_failure (ue_later V) (lim_of lid s)"
  "lim_of lid (limiter_succeeded lid s) = record_success (lim_of lid s)"
  "lim_of lid (unlock_succeeds V t bs s) = lim_of lid s"
  by (simp_all add: lim_of_def entry_or_default_def limiter_failed_def limiter_succeeded_def reg_record_failure_def
      reg_record_success_def del: record_failure_eq)

lemma plugin_failed_frame [simp]:
  "fst (plugin_failed t why s) = OPluginError why" "snd (plugin_failed t why s) = fire t (UnlockFailed (PluginUnavailable why)) s"
  by (simp_all add: plugin_failed_def)

section \<open>What a success leaves\<close>

definition key_staged :: "unlock_env \<Rightarrow> SecurityTier \<Rightarrow> bytes \<Rightarrow> app \<Rightarrow> bool" where
  "key_staged V t key s \<longleftrightarrow>
     secret_get TIER_UNLOCK_KEY_ID (ap_secrets s) = Some key \<and>
     ap_bus s \<noteq> [] \<and> last (ap_bus s) = UnlockCascadeReady (tier_wire_name t) True \<and>
     (\<forall>dir. ap_pin s = Some dir \<and> ue_db_open V (join_path dir DB_FILE_NAME) key = None \<longrightarrow>
        ap_db s = Some (join_path dir DB_FILE_NAME, key))"

lemma cascade_staged:
  assumes "secret_get TIER_UNLOCK_KEY_ID (ap_secrets s) = Some key"
  shows "key_staged V t key (run_post_unlock_cascade V t s)"
proof -
  have "secret_has TIER_UNLOCK_KEY_ID (ap_secrets s)"
    using assms by (auto simp: secret_get_def secret_has_def)
  with assms show ?thesis
    by (simp add: key_staged_def) (simp add: run_post_unlock_cascade_def try_pinned_support_dir_def Let_def split: option.split)
qed

lemma succeeds_staged: "key_staged V t key (unlock_succeeds V t key s)"
  unfolding unlock_succeeds_def by (rule cascade_staged) (simp add: stage_key_def)

lemma read_key_cases:
  obtains (staged) key where "kc_read (ue_kc V) ENCRYPTION_KEY_SLOT (ap_keychain s) = Inr (Some key)" "key \<noteq> []"
      "read_key_and_unlock V missing s = (Staged, unlock_succeeds V Keychain key s)"
  | (failed) why where "\<nexists>key. kc_read (ue_kc V) ENCRYPTION_KEY_SLOT (ap_keychain s) = Inr (Some key) \<and> key \<noteq> []"
      "read_key_and_unlock V missing s = (OPluginError why, fire Keychain (UnlockFailed (PluginUnavailable why)) s)"
proof (cases "kc_read (ue_kc V) ENCRYPTION_KEY_SLOT (ap_keychain s)")
  case (Inl e)
  then show ?thesis by (intro failed) (simp_all add: read_key_and_unlock_def plugin_failed_def)
next
  case (Inr k)
  show ?thesis
  proof (cases "k = None \<or> k = Some []")
    case True
    with Inr show ?thesis by (intro failed) (auto simp: read_key_and_unlock_def plugin_failed_def)
  next
    case False
    then obtain key where "k = Some key" "key \<noteq> []" by auto
    with Inr show ?thesis by (intro staged [of key]) (simp_all add: read_key_and_unlock_def)
  qed
qed

section \<open>Guesses and the limiter\<close>

text \<open>
  What every password unlock does with its limiter, whatever the tier: during a cooldown nothing is
  tested; otherwise a wrong secret is counted, a right one resets the count, and an attempt that
  could not be decided leaves it.  The verdict depends on the stored credentials, which an attempt
  does not change.
\<close>

locale guarded_attempts =
  fixes attempt :: "'e \<Rightarrow> 's \<Rightarrow> 's"
    and lim :: "'s \<Rightarrow> limiter"
    and starts :: "'e \<Rightarrow> int"
    and ends :: "'e \<Rightarrow> int"
    and creds :: "'s \<Rightarrow> 'c"
    and verdict :: "'e \<Rightarrow> 'c \<Rightarrow> bool option"
  assumes lim_attempt:
      "lim (attempt e s) =
         (if cooling (starts e) (lim s) then lim s
          else case verdict e (creds s) of
                 None \<Rightarrow> lim s
               | Some True \<Rightarrow> record_success (lim s)
               | Some False \<Rightarrow> record_failure (ends e) (lim s))"
    and creds_attempt: "creds (attempt e s) = creds s"
begin

text \<open>The times at which wrong secrets were tested in a run of attempts.\<close>

fun tested :: "'e list \<Rightarrow> 's \<Rightarrow> int list" where
  "tested [] s = []"
| "tested (e # es) s =
     (if \<not> cooling (starts e) (lim s) \<and> verdict e (creds s) = Some False then [ends e] else []) @
     tested es (attempt e s)"

text \<open>Each wrong secret waits for the cooldown of the one before.\<close>

fun spaced :: "nat \<Rightarrow> int list \<Rightarrow> bool" where
  "spaced c (u # v # us) \<longleftrightarrow> u + 1000 * min (2 ^ (min (Suc c) 9 - 1)) 60 \<le> v \<and> spaced (min (Suc c) 9) (v # us)"
| "spaced c us \<longleftrightarrow> True"

lemma tested_spaced:
  assumes "\<forall>e \<in> set es. starts e \<le> ends e \<and> verdict e (creds s) \<noteq> Some True"
  shows "spaced (l_count (lim s)) (tested es s) \<and>
    (\<forall>u us r. tested es s = u # us \<and> l_next_retry (lim s) = Some r \<longrightarrow> r \<le> u)"
  using assms
proof (induction es arbitrary: s)
  case Nil
  then show ?case by simp
next
  case (Cons e es)
  let ?s = "attempt e s"
  have IH: "spaced (l_count (lim ?s)) (tested es ?s)"
    "\<And>u us r. tested es ?s = u # us \<Longrightarrow> l_next_retry (lim ?s) = Some r \<Longrightarrow> r \<le> u"
    using Cons.IH [of ?s] Cons.prems by (auto simp: creds_attempt)
  show ?case
  proof (cases "\<not> cooling (starts e) (lim s) \<and> verdict e (creds s) = Some False")
    case True
    then have l: "lim ?s = record_failure (ends e) (lim s)" by (simp add: lim_attempt)
    have first: "r \<le> ends e" if "l_next_retry (lim s) = Some r" for r
      using True that Cons.prems by (auto simp: cooling_def is_locked_def limiter_status_def)
    show ?thesis
    proof (cases "tested es ?s")
      case Nil
      with True first show ?thesis by simp
    next
      case (Cons v us)
      with IH(2) [OF Cons] l have "ends e + 1000 * min (2 ^ (min (Suc (l_count (lim s))) 9 - 1)) 60 \<le> v" by simp
      with True first IH(1) Cons l show ?thesis by simp
    qed
  next
    case False
    have "verdict e (creds s) \<noteq> Some True" using Cons.prems by simp
    with False have "lim ?s = lim s" by (auto simp: lim_attempt split: option.split bool.split)
    with False IH show ?thesis by auto
  qed
qed

lemma spaced_bound: "spaced c us \<Longrightarrow> us \<noteq> [] \<Longrightarrow> 60000 * (int (length us) - 1) - 60000 * (max 0 (6 - int c)) \<le> last us - hd us"
proof (induction c us rule: spaced.induct)
  case (1 c u v us)
  then have step: "u + 1000 * min (2 ^ (min (Suc c) 9 - 1)) 60 \<le> v"
    and IH: "60000 * (int (length (v # us)) - 1) - 60000 * (max 0 (6 - int (min (Suc c) 9))) \<le> last (v # us) - v" by simp_all
  show ?case
  proof (cases "c < 6")
    case True
    then have "min (Suc c) 9 = Suc c" by simp
    moreover have "(0 :: int) \<le> 1000 * min (2 ^ (min (Suc c) 9 - 1)) 60" by simp
    ultimately have "min (Suc c) 9 = Suc c" "u \<le> v" using step by linarith+
    then show ?thesis using IH True by (auto split: if_splits)
  next
    case False
    then have "(64 :: int) \<le> 2 ^ (min (Suc c) 9 - 1)"
      using power_increasing [of 6 "min (Suc c) 9 - 1" "2 :: int"] by simp
    with step have "u + 60000 \<le> v" by simp
    with IH False show ?thesis by (auto simp: max_def min_def split: if_splits)
  qed
qed auto

lemma tested_bound:
  assumes "\<forall>e \<in> set es. starts e \<le> ends e \<and> verdict e (creds s) \<noteq> Some True" and "tested es s \<noteq> []"
  shows "60000 * (int (length (tested es s)) - 7) \<le> last (tested es s) - hd (tested es s)"
  using spaced_bound [OF conjunct1 [OF tested_spaced [OF assms(1)]] assms(2)] by (auto simp: max_def split: if_splits)

end

section \<open>The password unlocks\<close>

text \<open>The state in which the secret is checked.\<close>

definition asked :: "SecurityTier \<Rightarrow> string \<Rightarrow> app \<Rightarrow> app" where
  "asked t lid s = (fire t UnlockRequested s)\<lparr> ap_limiters := hput lid (lim_of lid s) (ap_limiters s) \<rparr>"

lemma asked_frame [simp]:
  "ap_secrets (asked t lid s) = ap_secrets s" "ap_db (asked t lid s) = ap_db s" "ap_config (asked t lid s) = ap_config s"
  "ap_pin (asked t lid s) = ap_pin s" "ap_disk (asked t lid s) = ap_disk s" "ap_keychain (asked t lid s) = ap_keychain s"
  "ap_machine (asked t lid s) = ap_machine (fire t UnlockRequested s)" "lim_of lid (asked t lid s) = lim_of lid s"
  by (simp_all add: asked_def)

definition paranoid_check :: "unlock_env \<Rightarrow> bytes \<Rightarrow> string option \<Rightarrow> files \<Rightarrow> (string + bytes option)" where
  "paranoid_check V password pin d =
     (case pin of
        None \<Rightarrow> Inl ''Argon2id task panicked''
      | Some dir \<Rightarrow>
          (case verify_and_derive (ue_io V) (ue_argon V) (ue_aead V) dir password d of
             Inl e \<Rightarrow> Inl (ue_mp_text V e)
           | Inr k \<Rightarrow> Inr (if k = Some [] then None else k)))"

lemma unlock_paranoid_eq:
  "unlock_paranoid V password s =
     (let s2 = asked Paranoid PARANOID_UNLOCK_LIMITER_ID s
      in if cooling (ue_now V) (lim_of PARANOID_UNLOCK_LIMITER_ID s)
         then (OWrongSecret, fire Paranoid (UnlockFailed WrongSecret) s2)
         else case paranoid_check V password (ap_pin s) (ap_disk s) of
                Inl why \<Rightarrow> (OCorruption why, fire Paranoid (UnlockFailed (Corruption why)) s2)
              | Inr None \<Rightarrow> (OWrongSecret,
                  fire Paranoid (UnlockFailed WrongSecret) (limiter_failed PARANOID_UNLOCK_LIMITER_ID V s2))
              | Inr (Some key) \<Rightarrow>
                  (Staged, unlock_succeeds V Paranoid key (limiter_succeeded PARANOID_UNLOCK_LIMITER_ID s2)))"
  by (auto simp: unlock_paranoid_def limiter_check_eq asked_def paranoid_check_def Let_def split: option.split sum.split)

definition gate_check :: "unlock_env \<Rightarrow> bytes \<Rightarrow> string \<Rightarrow> files \<Rightarrow> keychain \<Rightarrow> string + bool" where
  "gate_check V password dir d kc =
     gate_verify_password (ue_io V) (ue_kc V) (ue_json V) (ue_b64 V) (ue_crypto V) dir password d kc"

lemma unlock_gate_eq:
  "unlock_keychain_with_password V password s =
     (let s2 = asked Keychain KEYCHAIN_PW_UNLOCK_LIMITER_ID s
      in if cooling (ue_now V) (lim_of KEYCHAIN_PW_UNLOCK_LIMITER_ID s)
         then (Some OWrongSecret, fire Keychain (UnlockFailed WrongSecret) s2)
         else case ap_pin s of
           None \<Rightarrow> (None, s2)
         | Some dir \<Rightarrow>
             (case gate_check V password dir (ap_disk s) (ap_keychain s) of
                Inl why \<Rightarrow> (Some (OCorruption why), fire Keychain (UnlockFailed (Corruption why)) s2)
              | Inr False \<Rightarrow> (Some OWrongSecret,
                  fire Keychain (UnlockFailed WrongSecret) (limiter_failed KEYCHAIN_PW_UNLOCK_LIMITER_ID V s2))
              | Inr True \<Rightarrow> map_prod Some id
                  (read_key_and_unlock V ''missing_keychain_entry_after_verify''
                     (limiter_succeeded KEYCHAIN_PW_UNLOCK_LIMITER_ID s2))))"
  by (auto simp: unlock_keychain_with_password_def limiter_check_eq asked_def gate_check_def Let_def
      split: option.split sum.split bool.split prod.split)

lemma read_key_frame [simp]:
  "lim_of lid (snd (read_key_and_unlock V m s)) = lim_of lid s" "ap_pin (snd (read_key_and_unlock V m s)) = ap_pin s"
  "ap_disk (snd (read_key_and_unlock V m s)) = ap_disk s" "ap_keychain (snd (read_key_and_unlock V m s)) = ap_keychain s"
  by (cases rule: read_key_cases [of V s m]; simp)+

definition paranoid_verdict :: "unlock_env \<times> bytes \<Rightarrow> string option \<times> files \<Rightarrow> bool option" where
  "paranoid_verdict e c =
     (case paranoid_check (fst e) (snd e) (fst c) (snd c) of Inl _ \<Rightarrow> None | Inr k \<Rightarrow> Some (k \<noteq> None))"

definition gate_verdict :: "unlock_env \<times> bytes \<Rightarrow> string option \<times> files \<times> keychain \<Rightarrow> bool option" where
  "gate_verdict e c =
     (case fst c of
        None \<Rightarrow> None
      | Some dir \<Rightarrow>
          (case gate_check (fst e) (snd e) dir (fst (snd c)) (snd (snd c)) of Inl _ \<Rightarrow> None | Inr b \<Rightarrow> Some b))"

interpretation par: guarded_attempts "\<lambda>e s. snd (unlock_paranoid (fst e) (snd e) s)" "lim_of PARANOID_UNLOCK_LIMITER_ID"
  "\<lambda>e. ue_now (fst e)" "\<lambda>e. ue_later (fst e)" "\<lambda>s. (ap_pin s, ap_disk s)" paranoid_verdict
  by unfold_locales
     (auto simp: unlock_paranoid_eq paranoid_verdict_def Let_def simp del: record_failure_eq split: sum.split option.split)

interpretation gate: guarded_attempts "\<lambda>e s. snd (unlock_keychain_with_password (fst e) (snd e) s)"
  "lim_of KEYCHAIN_PW_UNLOCK_LIMITER_ID"
  "\<lambda>e. ue_now (fst e)" "\<lambda>e. ue_later (fst e)" "\<lambda>s. (ap_pin s, ap_disk s, ap_keychain s)" gate_verdict
  by unfold_locales
     (auto simp: unlock_gate_eq gate_verdict_def Let_def simp del: record_failure_eq split: sum.split option.split bool.split)

text \<open>The times at which a run of unlock attempts tested a wrong secret.\<close>

fun paranoid_tests :: "(unlock_env \<times> bytes) list \<Rightarrow> app \<Rightarrow> int list" where
  "paranoid_tests [] s = []"
| "paranoid_tests (e # es) s =
     (if fst (unlock_paranoid (fst e) (snd e) s) = OWrongSecret \<and>
         \<not> cooling (ue_now (fst e)) (lim_of PARANOID_UNLOCK_LIMITER_ID s)
      then [ue_later (fst e)] else []) @ paranoid_tests es (snd (unlock_paranoid (fst e) (snd e) s))"

fun gate_tests :: "(unlock_env \<times> bytes) list \<Rightarrow> app \<Rightarrow> int list" where
  "gate_tests [] s = []"
| "gate_tests (e # es) s =
     (if fst (unlock_keychain_with_password (fst e) (snd e) s) = Some OWrongSecret \<and>
         \<not> cooling (ue_now (fst e)) (lim_of KEYCHAIN_PW_UNLOCK_LIMITER_ID s)
      then [ue_later (fst e)] else []) @ gate_tests es (snd (unlock_keychain_with_password (fst e) (snd e) s))"

lemma read_key_not_wrong [simp]: "fst (read_key_and_unlock V m s) \<noteq> OWrongSecret"
  by (cases rule: read_key_cases [of V s m]; simp)

lemma paranoid_wrong_iff:
  "\<not> cooling (ue_now V) (lim_of PARANOID_UNLOCK_LIMITER_ID s) \<Longrightarrow>
     fst (unlock_paranoid V password s) = OWrongSecret \<longleftrightarrow>
     paranoid_verdict (V, password) (ap_pin s, ap_disk s) = Some False"
  by (auto simp: unlock_paranoid_eq paranoid_verdict_def Let_def split: sum.split option.split)

lemma gate_wrong_iff:
  "\<not> cooling (ue_now V) (lim_of KEYCHAIN_PW_UNLOCK_LIMITER_ID s) \<Longrightarrow>
     fst (unlock_keychain_with_password V password s) = Some OWrongSecret \<longleftrightarrow>
     gate_verdict (V, password) (ap_pin s, ap_disk s, ap_keychain s) = Some False"
  by (auto simp: unlock_gate_eq gate_verdict_def Let_def split: sum.split option.split bool.split)

lemma paranoid_tests_eq: "paranoid_tests es s = par.tested es s"
  by (induction es arbitrary: s) (auto simp: paranoid_wrong_iff)

lemma gate_tests_eq: "gate_tests es s = gate.tested es s"
  by (induction es arbitrary: s) (auto simp: gate_wrong_iff)

text \<open>A new process on the same disk and keychain.\<close>

definition app_restart :: "app \<Rightarrow> app" where
  "app_restart s =
     \<lparr> ap_secrets = store_new, ap_limiters = hempty, ap_machine = machine_new Plaintext, ap_bus = [], ap_db = None,
       ap_config = cs_new, ap_pin = ap_pin s, ap_disk = ap_disk s, ap_keychain = ap_keychain s,
       ap_unlock_prompts = pg_new, ap_seal_prompts = pg_new \<rparr>"

lemma restart_not_cooling [simp]: "\<not> cooling now (lim_of lid (app_restart s))"
  by (simp add: cooling_def is_locked_def limiter_status_def lim_of_def entry_or_default_def app_restart_def limiter_new_def)

text \<open>A concrete environment and process.\<close>

definition V_ref :: unlock_env where
  "V_ref = \<lparr> ue_io = no_faults, ue_kc = (\<lambda>_. None), ue_json = J_gate [65] [66, 65, 67], ue_b64 = b64_ref,
     ue_crypto = crypto_ref, ue_argon = argon_ref, ue_aead = A_ref, ue_grant = (\<lambda>_. True), ue_now = 0, ue_later = 1,
     ue_mono = 0, ue_db_open = (\<lambda>_ _. None), ue_mp_text = (\<lambda>_. ''corrupt'') \<rparr>"

definition app_on :: "files \<Rightarrow> app" where
  "app_on d =
     \<lparr> ap_secrets = store_new, ap_limiters = hempty, ap_machine = machine_new Plaintext, ap_bus = [], ap_db = None,
       ap_config = cs_new, ap_pin = Some ''/s'', ap_disk = d, ap_keychain = hempty,
       ap_unlock_prompts = pg_new, ap_seal_prompts = pg_new \<rparr>"

lemma app_on_fresh [simp]:
  "ap_pin (app_on d) = Some ''/s''" "ap_disk (app_on d) = d" "m_state (ap_machine (app_on d)) = Locked"
  "lim_of lid (app_on d) = limiter_new" "\<not> cooling now limiter_new"
  by (simp_all add: app_on_def machine_new_def lim_of_def entry_or_default_def cooling_def is_locked_def limiter_status_def limiter_new_def)

lemma first_launch_ref:
  "first_launch_paranoid V_ref (rnd_ref 7) [1] (app_on hempty) =
     (Staged, unlock_succeeds V_ref Paranoid (1 # replicate 31 7)
        ((fire Paranoid UnlockRequested (app_on hempty))\<lparr> ap_disk := set_ref ''/s'' \<rparr>))"
  using set_ref_eq [of "''/s''"] by (simp add: first_launch_paranoid_def V_ref_def)

lemma unlock_set_ref: "paranoid_check V_ref [1] (Some ''/s'') (set_ref ''/s'') = Inr (Some (1 # replicate 31 7))"
proof -
  have "verify_and_derive no_faults argon_ref A_ref ''/s'' [1] (set_ref ''/s'') = Inr (Some (1 # replicate 31 7))"
    by (rule verify_enabled [OF _ params_ok_defaults _ reads_ok_no_faults enabled_ref]) (simp_all add: A_ref_def)
  then show ?thesis by (simp add: paranoid_check_def V_ref_def)
qed

text \<open>Credentials that no password matches.\<close>

definition d_bad :: files where
  "d_bad = hput (join_path ''/s'' VERIFIER_FILE_NAME) [] (hput (join_path ''/s'' KDF_FILE_NAME) (hdr_ref 7) hempty)"

lemma d_bad_check: "paranoid_check (V_ref\<lparr> ue_now := a, ue_later := b \<rparr>) pw (Some ''/s'') d_bad = Inr None"
proof -
  have "decode_kdf_record (hdr_ref 7) = Inr \<lparr> kr_params = kdf_defaults, kr_salt = replicate 32 7 \<rparr>"
    using decode_encode_record [of "\<lparr> kr_params = kdf_defaults, kr_salt = replicate 32 7 \<rparr>"]
    by (simp add: record_ok_def SALT_LENGTH_def)
  moreover have "hget d_bad (join_path ''/s'' KDF_FILE_NAME) = Some (hdr_ref 7)" "hget d_bad (join_path ''/s'' VERIFIER_FILE_NAME) = Some []"
    by (simp_all add: d_bad_def)
  ultimately show ?thesis
    by (simp add: paranoid_check_def V_ref_def verify_and_derive_eq [OF reads_ok_no_faults] derive_ref verify_against_verifier_def
        IV_LENGTH_def)
qed

lemma bad_attempt:
  fixes s :: app
  assumes "ap_pin s = Some ''/s''" "ap_disk s = d_bad"
  shows "fst (unlock_paranoid (V_ref\<lparr> ue_now := a, ue_later := b \<rparr>) pw s) = OWrongSecret"
    "ap_pin (snd (unlock_paranoid (V_ref\<lparr> ue_now := a, ue_later := b \<rparr>) pw s)) = Some ''/s''"
    "ap_disk (snd (unlock_paranoid (V_ref\<lparr> ue_now := a, ue_later := b \<rparr>) pw s)) = d_bad"
    "lim_of PARANOID_UNLOCK_LIMITER_ID (snd (unlock_paranoid (V_ref\<lparr> ue_now := a, ue_later := b \<rparr>) pw s)) =
      (if cooling a (lim_of PARANOID_UNLOCK_LIMITER_ID s) then lim_of PARANOID_UNLOCK_LIMITER_ID s
       else record_failure b (lim_of PARANOID_UNLOCK_LIMITER_ID s))"
  by (simp_all add: unlock_paranoid_eq assms d_bad_check Let_def del: record_failure_eq)

section \<open>Properties\<close>

text \<open>
  The paranoid tier unlocks exactly when it should: an attempt is answered \<open>Staged\<close> if and only if
  the limiter is not cooling down and the check of the master password yields a key; that key is then
  staged, the database is opened with it and the ready event announces it.
\<close>

theorem paranoid_unlock_staged:
  "(fst (unlock_paranoid V password s) = Staged \<longleftrightarrow>
      \<not> cooling (ue_now V) (lim_of PARANOID_UNLOCK_LIMITER_ID s) \<and>
      (\<exists>dir key. ap_pin s = Some dir \<and> key \<noteq> [] \<and>
         verify_and_derive (ue_io V) (ue_argon V) (ue_aead V) dir password (ap_disk s) = Inr (Some key))) \<and>
   (fst (unlock_paranoid V password s) = Staged \<longrightarrow>
      (\<exists>dir key. ap_pin s = Some dir \<and>
         verify_and_derive (ue_io V) (ue_argon V) (ue_aead V) dir password (ap_disk s) = Inr (Some key) \<and>
         key_staged V Paranoid key (snd (unlock_paranoid V password s))))"
  by (auto simp: unlock_paranoid_eq paranoid_check_def Let_def succeeds_staged split: sum.split option.split if_splits)

theorem paranoid_unlock_staged_witness:
  "\<exists>key. key_staged V_ref Paranoid key (snd (unlock_paranoid V_ref [1] (app_on (set_ref ''/s''))))"
proof -
  have "fst (unlock_paranoid V_ref [1] (app_on (set_ref ''/s''))) = Staged"
    by (simp add: unlock_paranoid_eq unlock_set_ref)
  with paranoid_unlock_staged [of V_ref "[1]" "app_on (set_ref ''/s'')"] show ?thesis by blast
qed

text \<open>
  The same for the keychain tier with a password: the gate has to accept the password and the
  keychain has to hold a key.
\<close>

theorem gate_unlock_staged:
  "(fst (unlock_keychain_with_password V password s) = Some Staged \<longleftrightarrow>
      \<not> cooling (ue_now V) (lim_of KEYCHAIN_PW_UNLOCK_LIMITER_ID s) \<and>
      (\<exists>dir key. ap_pin s = Some dir \<and> gate_check V password dir (ap_disk s) (ap_keychain s) = Inr True \<and> key \<noteq> [] \<and>
         kc_read (ue_kc V) ENCRYPTION_KEY_SLOT (ap_keychain s) = Inr (Some key))) \<and>
   (fst (unlock_keychain_with_password V password s) = Some Staged \<longrightarrow>
      (\<exists>key. kc_read (ue_kc V) ENCRYPTION_KEY_SLOT (ap_keychain s) = Inr (Some key) \<and>
         key_staged V Keychain key (snd (unlock_keychain_with_password V password s))))"
proof -
  let ?s = "limiter_succeeded KEYCHAIN_PW_UNLOCK_LIMITER_ID (asked Keychain KEYCHAIN_PW_UNLOCK_LIMITER_ID s)"
  let ?m = "''missing_keychain_entry_after_verify''"
  show ?thesis
    by (cases rule: read_key_cases [of V ?s ?m])
       (auto simp: unlock_gate_eq Let_def succeeds_staged split: sum.split option.split bool.split)
qed



theorem gate_guess_rate:
  assumes "\<forall>e \<in> set es. ue_now (fst e) \<le> ue_later (fst e) \<and> gate_verdict e (ap_pin s, ap_disk s, ap_keychain s) \<noteq> Some True"
    and "gate_tests es s \<noteq> []"
  shows "60000 * (int (length (gate_tests es s)) - 7) \<le> last (gate_tests es s) - hd (gate_tests es s)"
  using gate.tested_bound assms unfolding gate_tests_eq by blast

text \<open>
  A refused unlock changes nothing but the limiter, the lock machine and the bus: the staged secrets,
  the database handle, the configuration, the files and the keychain are as before, in every tier.
\<close>

definition untouched :: "app \<Rightarrow> app \<Rightarrow> bool" where
  "untouched s s' \<longleftrightarrow>
     ap_secrets s' = ap_secrets s \<and> ap_db s' = ap_db s \<and> ap_config s' = ap_config s \<and> ap_pin s' = ap_pin s \<and>
     ap_disk s' = ap_disk s \<and> ap_keychain s' = ap_keychain s"

theorem refused_unlock_changes_nothing:
  "(fst (unlock_keychain V s) \<noteq> Staged \<longrightarrow> untouched s (snd (unlock_keychain V s))) \<and>
   (fst (unlock_keychain_with_password V password s) \<noteq> Some Staged \<longrightarrow>
      untouched s (snd (unlock_keychain_with_password V password s))) \<and>
   (fst (unlock_paranoid V password s) \<noteq> Staged \<longrightarrow> untouched s (snd (unlock_paranoid V password s))) \<and>
   (fst (unlock_hardware_resume V pid answer s) \<noteq> Staged \<longrightarrow> untouched s (snd (unlock_hardware_resume V pid answer s)))"
proof (intro conjI impI)
  show "untouched s (snd (unlock_keychain V s))" if "fst (unlock_keychain V s) \<noteq> Staged"
    using that by (cases rule: read_key_cases [of V "fire Keychain UnlockRequested s" "''missing_keychain_entry''"])
      (auto simp: unlock_keychain_def untouched_def)
  show "untouched s (snd (unlock_keychain_with_password V password s))"
    if "fst (unlock_keychain_with_password V password s) \<noteq> Some Staged"
    using that by (cases rule: read_key_cases [of V "limiter_succeeded KEYCHAIN_PW_UNLOCK_LIMITER_ID
        (asked Keychain KEYCHAIN_PW_UNLOCK_LIMITER_ID s)" "''missing_keychain_entry_after_verify''"])
      (auto simp: unlock_gate_eq Let_def untouched_def split: sum.split option.split bool.split)
  show "untouched s (snd (unlock_paranoid V password s))" if "fst (unlock_paranoid V password s) \<noteq> Staged"
    using that by (auto simp: unlock_paranoid_eq Let_def untouched_def split: sum.split option.split if_splits)
  show "untouched s (snd (unlock_hardware_resume V pid answer s))" if "fst (unlock_hardware_resume V pid answer s) \<noteq> Staged"
    using that by (auto simp: unlock_hardware_resume_def plugin_failed_def untouched_def split: sum.splits option.splits if_splits)
qed

theorem refused_unlock_changes_nothing_witness:
  "untouched (app_on d_bad) (snd (unlock_paranoid (V_ref\<lparr> ue_now := 0, ue_later := 1 \<rparr>) [2] (app_on d_bad)))"
proof -
  have "fst (unlock_paranoid (V_ref\<lparr> ue_now := 0, ue_later := 1 \<rparr>) [2] (app_on d_bad)) \<noteq> Staged"
    by (simp add: bad_attempt)
  with refused_unlock_changes_nothing [of "V_ref\<lparr> ue_now := 0, ue_later := 1 \<rparr>" "app_on d_bad" "[2]"] show ?thesis by blast
qed

text \<open>
  The lock machine follows: from \<open>Locked\<close>, every unlock ends in \<open>Unlocked\<close> when it is answered
  \<open>Staged\<close> and in \<open>Locked\<close> otherwise, so no attempt leaves the machine half-way.
\<close>

theorem unlock_settles_machine:
  assumes "m_state (ap_machine s) = Locked"
  shows "m_state (ap_machine (unlock_plaintext V s)) = Unlocked \<and>
    m_state (ap_machine (snd (unlock_keychain V s))) = (if fst (unlock_keychain V s) = Staged then Unlocked else Locked) \<and>
    m_state (ap_machine (snd (unlock_paranoid V password s))) =
      (if fst (unlock_paranoid V password s) = Staged then Unlocked else Locked) \<and>
    (\<forall>r. fst (unlock_keychain_with_password V password s) = Some r \<longrightarrow>
      m_state (ap_machine (snd (unlock_keychain_with_password V password s))) = (if r = Staged then Unlocked else Locked))"
proof (intro conjI allI impI)
  show "m_state (ap_machine (unlock_plaintext V s)) = Unlocked"
    using assms by (simp add: unlock_plaintext_def lock_state_fire)
  show "m_state (ap_machine (snd (unlock_keychain V s))) = (if fst (unlock_keychain V s) = Staged then Unlocked else Locked)"
    using assms by (cases rule: read_key_cases [of V "fire Keychain UnlockRequested s" "''missing_keychain_entry''"])
      (auto simp: unlock_keychain_def lock_state_fire)
  show "m_state (ap_machine (snd (unlock_paranoid V password s))) =
      (if fst (unlock_paranoid V password s) = Staged then Unlocked else Locked)"
    using assms by (auto simp: unlock_paranoid_eq Let_def lock_state_fire split: sum.split option.split)
  show "m_state (ap_machine (snd (unlock_keychain_with_password V password s))) = (if r = Staged then Unlocked else Locked)"
    if "fst (unlock_keychain_with_password V password s) = Some r" for r
    using that assms by (cases rule: read_key_cases [of V "limiter_succeeded KEYCHAIN_PW_UNLOCK_LIMITER_ID
        (asked Keychain KEYCHAIN_PW_UNLOCK_LIMITER_ID s)" "''missing_keychain_entry_after_verify''"])
      (auto simp: unlock_gate_eq Let_def lock_state_fire split: sum.splits option.splits bool.splits if_splits)
qed

theorem unlock_settles_machine_witness:
  "m_state (ap_machine (unlock_plaintext V_ref (app_on hempty))) = Unlocked"
  using unlock_settles_machine [of "app_on hempty" V_ref] by simp


text \<open>
  C24. Re-entry is not a no-op: the lock machine ignores an unlock while it is unlocked or wiping, but the
  orchestrator does not look at its answer.  It replaces the staged key of the running session by the
  empty one, reopens the database without a key and announces the plaintext tier.
\<close>

theorem reentry_replaces_key:
  assumes "m_state (ap_machine s) = Unlocked \<or> m_state (ap_machine s) = Wiping"
  shows "m_state (ap_machine (unlock_plaintext V s)) = m_state (ap_machine s) \<and>
    key_staged V Plaintext [] (unlock_plaintext V s)"
proof
  show "m_state (ap_machine (unlock_plaintext V s)) = m_state (ap_machine s)"
    using assms by (auto simp: unlock_plaintext_def lock_state_fire)
  show "key_staged V Plaintext [] (unlock_plaintext V s)"
    unfolding unlock_plaintext_def by (rule succeeds_staged)
qed

theorem reentry_replaces_key_witness:
  "let s = unlock_succeeds V_ref Paranoid [1] (fire Paranoid UnlockRequested (app_on hempty))
   in secret_get TIER_UNLOCK_KEY_ID (ap_secrets s) = Some [1] \<and> m_state (ap_machine s) = Unlocked \<and>
      secret_get TIER_UNLOCK_KEY_ID (ap_secrets (unlock_plaintext V_ref s)) = Some [] \<and>
      ap_db (unlock_plaintext V_ref s) = Some (''/s/letsflutssh.db'', [])"
proof -
  let ?s = "unlock_succeeds V_ref Paranoid [1] (fire Paranoid UnlockRequested (app_on hempty))"
  have "m_state (ap_machine ?s) = Unlocked" by (simp add: lock_state_fire)
  moreover from this have "key_staged V_ref Plaintext [] (unlock_plaintext V_ref ?s)"
    using reentry_replaces_key [of ?s V_ref] by simp
  moreover have "ap_pin (unlock_plaintext V_ref ?s) = Some ''/s''" by (simp add: unlock_plaintext_def)
  ultimately show ?thesis
    using succeeds_staged [of V_ref Paranoid "[1]"] by (simp add: key_staged_def V_ref_def join_path_def DB_FILE_NAME_def)
qed

text \<open>
  C3. From the first launch to the next start: when the paranoid tier was set up with a password, the
  same password unlocks it after a restart and stages the very key of the first session.
\<close>

theorem paranoid_survives_restart:
  assumes "aead_ok (ue_aead V)" and "length (rnd_salt rnd) = 32" and "ap_pin s = Some dir"
    and "reads_ok (ue_io V') dir" and "ue_argon V' = ue_argon V" and "ue_aead V' = ue_aead V"
    and "first_launch_paranoid V rnd password s = (Staged, s')"
  shows "\<exists>key. key_staged V Paranoid key s' \<and>
    fst (unlock_paranoid V' password (app_restart s')) = Staged \<and>
    key_staged V' Paranoid key (snd (unlock_paranoid V' password (app_restart s')))"
proof -
  obtain key d where e: "mp_enable (ue_io V) (ue_argon V) (ue_aead V) rnd dir password kdf_defaults (ap_disk s) = (Inr key, d)"
    "key \<noteq> []" and s': "s' = unlock_succeeds V Paranoid key ((fire Paranoid UnlockRequested s)\<lparr> ap_disk := d \<rparr>)"
    using assms(3,7) by (auto simp: first_launch_paranoid_def Let_def split: prod.splits sum.splits if_splits)
  from e(1) have "verify_and_derive (ue_io V') (ue_argon V') (ue_aead V') dir password d = Inr (Some key)"
  proof (cases rule: mp_enable_cases)
    case (both k body)
    with verify_enabled [OF assms(1) params_ok_defaults assms(2,4)] assms(5,6) show ?thesis by auto
  qed auto
  moreover have "ap_disk s' = d" "ap_pin s' = Some dir" using s' assms(3) by simp_all
  ultimately have "paranoid_check V' password (ap_pin (app_restart s')) (ap_disk (app_restart s')) = Inr (Some key)"
    using e(2) by (simp add: paranoid_check_def app_restart_def)
  then have "unlock_paranoid V' password (app_restart s') = (Staged, unlock_succeeds V' Paranoid key
      (limiter_succeeded PARANOID_UNLOCK_LIMITER_ID (asked Paranoid PARANOID_UNLOCK_LIMITER_ID (app_restart s'))))"
    by (simp add: unlock_paranoid_eq)
  with s' show ?thesis by (intro exI [of _ key]) (simp add: succeeds_staged)
qed

theorem paranoid_survives_restart_witness:
  "\<exists>s' key. first_launch_paranoid V_ref (rnd_ref 7) [1] (app_on hempty) = (Staged, s') \<and>
     key_staged V_ref Paranoid key (snd (unlock_paranoid V_ref [1] (app_restart s')))"
proof -
  obtain s' where f: "first_launch_paranoid V_ref (rnd_ref 7) [1] (app_on hempty) = (Staged, s')"
    using first_launch_ref by blast
  have "\<exists>key. key_staged V_ref Paranoid key s' \<and> fst (unlock_paranoid V_ref [1] (app_restart s')) = Staged \<and>
      key_staged V_ref Paranoid key (snd (unlock_paranoid V_ref [1] (app_restart s')))"
    by (rule paranoid_survives_restart [OF _ _ _ _ refl refl f]) (simp_all add: V_ref_def A_ref_def rnd_ref_def)
  with f show ?thesis by blast
qed

lemma slots_differ [simp]: "PEPPER_KEY \<noteq> ENCRYPTION_KEY_SLOT" "ENCRYPTION_KEY_SLOT \<noteq> PEPPER_KEY"
  by (simp_all add: PEPPER_KEY_def ENCRYPTION_KEY_SLOT_def)

text \<open>C12. The same for the keychain tier with a password; any other password is refused unless HMAC collides.\<close>

theorem gate_survives_restart:
  assumes "blob_reads (ue_json V') (ue_b64 V) salt (compute_gate_hmac (ue_crypto V) pepper salt password)"
    and "pepper \<noteq> []" and "key \<noteq> []" and "ap_pin s = Some dir"
    and "io_fault (ue_io V') (FsRead (join_path dir HASH_FILE_NAME)) = None"
    and "\<forall>slot. ue_kc V' (KcRead slot) = None" and "ue_b64 V' = ue_b64 V" and "ue_crypto V' = ue_crypto V"
    and "first_launch_keychain_with_password V salt pepper suffix key password s = (Some Staged, s')"
  shows "key_staged V Keychain key s' \<and>
    (if compute_gate_hmac (ue_crypto V) pepper salt guess = compute_gate_hmac (ue_crypto V) pepper salt password
     then fst (unlock_keychain_with_password V' guess (app_restart s')) = Some Staged \<and>
          key_staged V' Keychain key (snd (unlock_keychain_with_password V' guess (app_restart s')))
     else fst (unlock_keychain_with_password V' guess (app_restart s')) = Some OWrongSecret)"
proof -
  let ?s1 = "fire Keychain UnlockRequested s"
  obtain r d kc where g0: "gate_set_password (ue_io V) (ue_kc V) (ue_b64 V) (ue_crypto V) salt pepper suffix dir password
      (ap_disk s) (ap_keychain s) = (r, d, kc)" by (metis prod_cases3)
  note l = assms(9) [unfolded first_launch_keychain_with_password_def Let_def fire_frame assms(4) option.case g0]
  from l have r: "r = Inr ()" by (cases r) simp_all
  note g = g0 [unfolded r]
  have w: "ue_kc V (KcWrite ENCRYPTION_KEY_SLOT) = None"
    using l r by (cases "ue_kc V (KcWrite ENCRYPTION_KEY_SLOT)")
      (simp_all add: write_to_keychain_def kc_write_def plugin_failed_def split: prod.splits)
  have s': "s' = unlock_succeeds V Keychain key (?s1\<lparr> ap_disk := d, ap_keychain := hput ENCRYPTION_KEY_SLOT key kc \<rparr>)"
    using l r w by (simp add: write_to_keychain_def kc_write_def)
  have r: "ap_disk (app_restart s') = d" "ap_keychain (app_restart s') = hput ENCRYPTION_KEY_SLOT key kc" "ap_pin (app_restart s') = Some dir"
    using s' assms(4) by (simp_all add: app_restart_def)
  have kc: "kc = hput PEPPER_KEY pepper (ap_keychain s)"
    and h: "hash_is (ue_io V') (ue_json V') (ue_b64 V') dir salt (compute_gate_hmac (ue_crypto V) pepper salt password) d"
    using g assms(1,5,7) by (cases rule: set_password_cases; auto simp: hash_is_def)+
  have check: "gate_check V' guess dir (ap_disk (app_restart s')) (ap_keychain (app_restart s')) =
      Inr (compute_gate_hmac (ue_crypto V) pepper salt guess = compute_gate_hmac (ue_crypto V) pepper salt password)"
    unfolding gate_check_def r using verify_hash [OF h, of "ue_kc V'" "hput ENCRYPTION_KEY_SLOT key kc" pepper] assms(2,6,8) kc by simp
  have read: "kc_read (ue_kc V') ENCRYPTION_KEY_SLOT (ap_keychain (app_restart s')) = Inr (Some key)"
    using assms(6) r by (simp add: kc_read_def)
  have unlock: "read_key_and_unlock V' m t = (Staged, unlock_succeeds V' Keychain key t)"
    if "ap_keychain t = ap_keychain (app_restart s')" for m t
    using that read assms(3) by (simp add: read_key_and_unlock_def)
  show ?thesis
    unfolding unlock_gate_eq Let_def r(3) option.case check
    using s' succeeds_staged by (auto simp: unlock)
qed

lemma gate_launch_ref:
  obtains s' where "first_launch_keychain_with_password V_ref [65] [66] 1 [9] [67] (app_on hempty) = (Some Staged, s')"
proof -
  obtain d kc where "set_gate no_faults (\<lambda>_. None) hempty hempty = (Inr (), d, kc)" using set_gate_ok by (metis surj_pair)
  then have "gate_set_password (ue_io V_ref) (ue_kc V_ref) (ue_b64 V_ref) (ue_crypto V_ref) [65] [66] 1 ''/s'' [67] hempty hempty =
      (Inr (), d, kc)"
    by (simp add: set_gate_def V_ref_def)
  moreover have "ap_keychain (app_on hempty) = hempty" by (simp add: app_on_def)
  moreover have "ue_kc V_ref op = None" for op by (simp add: V_ref_def)
  ultimately show thesis
    by (intro that) (simp add: first_launch_keychain_with_password_def write_to_keychain_def kc_write_def Let_def)
qed

theorem gate_survives_restart_witness:
  "\<exists>s'. first_launch_keychain_with_password V_ref [65] [66] 1 [9] [67] (app_on hempty) = (Some Staged, s') \<and>
     fst (unlock_keychain_with_password V_ref [67] (app_restart s')) = Some Staged \<and>
     fst (unlock_keychain_with_password V_ref [68] (app_restart s')) = Some OWrongSecret"
proof -
  obtain s' where f: "first_launch_keychain_with_password V_ref [65] [66] 1 [9] [67] (app_on hempty) = (Some Staged, s')"
    by (rule gate_launch_ref)
  have hyps: "blob_reads (ue_json V_ref) (ue_b64 V_ref) [65] (compute_gate_hmac (ue_crypto V_ref) [66] [65] [67])"
    "io_fault (ue_io V_ref) (FsRead (join_path ''/s'' HASH_FILE_NAME)) = None" "\<forall>slot. ue_kc V_ref (KcRead slot) = None"
    using blob_reads_ref by (simp_all add: V_ref_def no_faults_def)
  have g: "key_staged V_ref Keychain [9] s' \<and>
    (if compute_gate_hmac (ue_crypto V_ref) [66] [65] guess = compute_gate_hmac (ue_crypto V_ref) [66] [65] [67]
     then fst (unlock_keychain_with_password V_ref guess (app_restart s')) = Some Staged \<and>
          key_staged V_ref Keychain [9] (snd (unlock_keychain_with_password V_ref guess (app_restart s')))
     else fst (unlock_keychain_with_password V_ref guess (app_restart s')) = Some OWrongSecret)" for guess
    by (rule gate_survives_restart [OF hyps(1) _ _ _ hyps(2,3) refl refl f]) simp_all
  have c: "ue_crypto V_ref = crypto_ref" by (simp add: V_ref_def)
  from g [of "[67]"] g [of "[68]"] f show ?thesis by (simp add: c)
qed

text \<open>
  The sealing of a first hardware launch leaves no copy of the key or the PIN behind: whatever the
  user interface answered, both transient secrets are gone from the store afterwards.
\<close>

theorem seal_secrets_removed:
  "\<not> secret_has (seal_key_id pid) (ap_secrets (snd (first_launch_hardware_resume V pid key pin answer s))) \<and>
   (case pin of None \<Rightarrow> True
    | Some _ \<Rightarrow> \<not> secret_has (seal_pin_id pid) (ap_secrets (snd (first_launch_hardware_resume V pid key pin answer s))))"
  by (auto simp: first_launch_hardware_resume_def secret_has_def secret_take_def Let_def split: option.split prod.split)

end
