(* ===== verification/Db_Tables.thy ===== *)
theory Db_Tables
  imports Interfaces Core_Error Known_Hosts "HOL-Library.Product_Lexorder"
begin

text \<open>
  The tables of \<open>SCHEMA_SQL\<close> in \<open>db/mod.rs\<close> and the statements the access layer runs on them.
  A table with a text primary key is the association list from key to row; a soft-deletable row carries
  its \<open>deleted_at\<close> column; the three join tables are lists of pairs without repetition.  A
  statement either changes the database or fails on a constraint and changes nothing: an insert or
  update whose foreign keys do not all resolve (the database is opened with \<open>PRAGMA foreign_keys = ON\<close> and
  no key is deferred), or a second live tag of the same name.  A physical delete runs the
  \<open>ON DELETE\<close> actions.  Rows that compare equal under an \<open>ORDER BY\<close> come in table order.  Failures of the
  storage itself (a full disk, a locked file) are not modelled.
\<close>

section \<open>Rows\<close>

record DbFolder =
  f_name :: string
  f_parent_id :: "string option"
  f_sort_order :: int
  f_collapsed :: bool
  f_created_at :: int

datatype KeyBackend = Software | Fido2 | Pkcs11 | Tpm | Enclave | Hello | Keystore

definition backend_from_db :: "string \<Rightarrow> KeyBackend" where
  "backend_from_db s =
     (if s = ''fido2'' then Fido2 else if s = ''pkcs11'' then Pkcs11 else if s = ''tpm'' then Tpm
      else if s = ''enclave'' then Enclave else if s = ''hello'' then Hello
      else if s = ''keystore'' then Keystore else Software)"

fun backend_db_str :: "KeyBackend \<Rightarrow> string" where
  "backend_db_str Software = ''software''"
| "backend_db_str Fido2 = ''fido2''"
| "backend_db_str Pkcs11 = ''pkcs11''"
| "backend_db_str Tpm = ''tpm''"
| "backend_db_str Enclave = ''enclave''"
| "backend_db_str Hello = ''hello''"
| "backend_db_str Keystore = ''keystore''"

datatype AgentPolicy = Always | Ask | Deny

definition policy_from_db :: "string \<Rightarrow> AgentPolicy" where
  "policy_from_db s = (if s = ''always'' then Always else if s = ''deny'' then Deny else Ask)"

fun policy_db_str :: "AgentPolicy \<Rightarrow> string" where
  "policy_db_str Always = ''always''"
| "policy_db_str Ask = ''ask''"
| "policy_db_str Deny = ''deny''"

text \<open>\<open>SshKeyRow\<close>; its columns are the columns of \<open>ssh_keys\<close> other than \<open>deleted_at\<close>.\<close>

record Pkcs11Cols =
  pkcs11_uri :: "string option"
  pkcs11_module_path :: "string option"
  pkcs11_token_serial :: "string option"
  pkcs11_object_id :: "bytes option"
  pkcs11_object_label :: "string option"

record DeviceCols =
  enclave_tag :: "bytes option"
  hello_credential_name :: "string option"
  tpm_blob :: "bytes option"
  tpm_handle :: "32 word option"
  tpm_provider :: "string option"
  tpm_pin_required :: bool
  cng_key_name :: "string option"
  keystore_alias :: "string option"
  keystore_strongbox :: bool
  keystore_user_auth_required :: bool
  keystore_platform :: "string option"

record SshKeyRow =
  k_id :: string
  k_label :: string
  k_private_key :: string
  k_public_key :: string
  k_key_type :: string
  k_is_generated :: bool
  k_created_at :: int
  k_credential_id :: "bytes option"
  k_application_string :: "string option"
  k_has_user_verification :: bool
  k_agent_policy :: AgentPolicy
  k_backend :: KeyBackend
  k_pkcs11 :: Pkcs11Cols
  k_device :: DeviceCols
  k_imported_as_stub :: bool

record CertRecord =
  c_certificate :: bytes
  c_valid_after :: int
  c_valid_before :: int
  c_principals :: "string list"
  c_critical_options :: "(string \<times> string) list"
  c_fingerprint :: string

text \<open>The columns of \<open>sessions\<close> and those of \<open>ssh_session_details\<close>; \<open>SessionRow\<close> has both.\<close>

record SlimSession =
  s_label :: string
  s_folder_id :: "string option"
  s_kind :: string
  s_sort_order :: int
  s_notes :: string
  s_last_connected_at :: "int option"
  s_extras :: string
  s_created_at :: int
  s_updated_at :: int
  s_deleted_at :: "int option"

record SshCols =
  d_host :: string
  d_port :: int
  d_user :: string
  d_auth_type :: string
  d_password :: string
  d_key_path :: string
  d_key_data :: string
  d_key_id :: "string option"
  d_passphrase :: string
  d_via_session_id :: "string option"
  d_via_host :: "string option"
  d_via_port :: "int option"
  d_via_user :: "string option"

record WebDavCols =
  w_base_url :: string
  w_username :: string
  w_auth_method :: string
  w_trusted_cert_pem :: "string option"
  w_insecure_skip_verify :: bool

record S3Cols =
  t_access_key_id :: string
  t_region :: string
  t_endpoint :: string
  t_path_style :: bool
  t_default_bucket :: string
  t_default_prefix :: string
  t_trusted_cert_pem :: "string option"
  t_insecure_skip_verify :: bool

text \<open>A transport row with its secret column and its two stamps.\<close>

record 'c transport =
  x_cols :: 'c
  x_secret :: string
  x_updated_at :: int
  x_deleted_at :: "int option"

record TagRow =
  g_name :: string
  g_color :: "string option"
  g_created_at :: int
  g_deleted_at :: "int option"

record SnippetRow =
  n_title :: string
  n_command :: string
  n_description :: string
  n_created_at :: int
  n_updated_at :: int
  n_deleted_at :: "int option"

record PortForwardRule =
  p_session_id :: string
  p_kind :: string
  p_bind_host :: string
  p_bind_port :: int
  p_remote_host :: string
  p_remote_port :: int
  p_description :: string
  p_enabled :: bool
  p_sort_order :: int
  p_created_at :: int
  p_updated_at :: int
  p_deleted_at :: "int option"

record SftpBookmark =
  b_session_id :: string
  b_remote_path :: string
  b_label :: string
  b_created_at :: int
  b_deleted_at :: "int option"

section \<open>The database\<close>

type_synonym 'r tab = "(string, 'r) hmap"

record db =
  t_folders :: "DbFolder tab"
  t_keys :: "(SshKeyRow \<times> int option) tab"
  t_certs :: "CertRecord tab"
  t_sessions :: "SlimSession tab"
  t_ssh :: "(SshCols \<times> int) tab"
  t_webdav :: "WebDavCols transport tab"
  t_s3 :: "S3Cols transport tab"
  t_known_hosts :: kh_table
  t_tags :: "TagRow tab"
  t_session_tags :: "(string \<times> string) list"
  t_folder_tags :: "(string \<times> string) list"
  t_snippets :: "SnippetRow tab"
  t_session_snippets :: "(string \<times> string) list"
  t_forwards :: "PortForwardRule tab"
  t_bookmarks :: "SftpBookmark tab"

definition empty_db :: db where
  "empty_db =
     \<lparr> t_folders = [], t_keys = [], t_certs = [], t_sessions = [], t_ssh = [], t_webdav = [], t_s3 = [],
       t_known_hosts = kh_empty, t_tags = [], t_session_tags = [], t_folder_tags = [], t_snippets = [],
       t_session_snippets = [], t_forwards = [], t_bookmarks = [] \<rparr>"

text \<open>What a statement returns: the error, or a value; and the database after it.\<close>

type_synonym 'a stmt = "db \<Rightarrow> (Error + 'a) \<times> db"

definition FK_FAILED :: string where
  "FK_FAILED = ''FOREIGN KEY constraint failed''"

definition TAG_NAME_TAKEN :: string where
  "TAG_NAME_TAKEN = ''UNIQUE constraint failed: tags.name''"

text \<open>A statement guarded by its foreign keys: the names it prefixes the failure with and the change.\<close>

definition guarded :: "bool \<Rightarrow> string \<Rightarrow> string \<Rightarrow> (db \<Rightarrow> db) \<Rightarrow> unit stmt" where
  "guarded ok what why change d = (if ok then (Inr (), change d) else (Inl (EDb (what @ '': '' @ why)), d))"

text \<open>A nullable reference resolves when it is \<open>NULL\<close> or names a row, soft-deleted rows included.\<close>

definition resolves :: "string option \<Rightarrow> 'r tab \<Rightarrow> bool" where
  "resolves ref t = (case ref of None \<Rightarrow> True | Some k \<Rightarrow> k \<in> set (hkeys t))"

text \<open>\<open>UPDATE\<close> of the rows that satisfy a condition: the number of rows it touched and the table.\<close>

definition tmap :: "(string \<Rightarrow> 'r \<Rightarrow> 'r) \<Rightarrow> 'r tab \<Rightarrow> 'r tab" where
  "tmap f t = map (\<lambda>(k, r). (k, f k r)) t"

definition tcount :: "(string \<Rightarrow> 'r \<Rightarrow> bool) \<Rightarrow> 'r tab \<Rightarrow> nat" where
  "tcount P t = length (filter (\<lambda>(k, r). P k r) t)"

definition update_where :: "(string \<Rightarrow> 'r \<Rightarrow> bool) \<Rightarrow> ('r \<Rightarrow> 'r) \<Rightarrow> 'r tab \<Rightarrow> 'r tab" where
  "update_where P f = tmap (\<lambda>k r. if P k r then f r else r)"

definition keep_rows :: "(string \<Rightarrow> 'r \<Rightarrow> bool) \<Rightarrow> 'r tab \<Rightarrow> 'r tab" where
  "keep_rows P t = filter (\<lambda>(k, r). P k r) t"

lemma hkeys_tmap [simp]: "hkeys (tmap f t) = hkeys t"
  by (simp add: hkeys_def tmap_def case_prod_unfold comp_def)

lemma hget_tmap [simp]: "hget (tmap f t) k = map_option (f k) (hget t k)"
  by (induction t) (auto simp: hget_def tmap_def)

lemma hinv_tmap [simp]: "hinv (tmap f t) = hinv t"
  by (simp add: hinv_def)

lemma hkeys_update_where [simp]: "hkeys (update_where P f t) = hkeys t"
  by (simp add: update_where_def)

lemma hinv_update_where [simp]: "hinv (update_where P f t) = hinv t"
  by (simp add: hinv_def)

lemma hget_update_where:
  "hget (update_where P f t) k = map_option (\<lambda>r. if P k r then f r else r) (hget t k)"
  by (simp add: update_where_def)

lemma hinv_keep_rows [simp]: "hinv t \<Longrightarrow> hinv (keep_rows P t)"
  by (auto simp: hinv_def hkeys_def keep_rows_def distinct_map_filter)

lemma hkeys_hput [simp]: "set (hkeys (hput k v t)) = insert k (set (hkeys t))"
  by (auto simp: hkeys_def hput_def dom_update)

lemma set_hput_subset: "set (hput k v t) \<subseteq> insert (k, v) (set t)"
  unfolding hput_def by (induction t) auto

end
