(* ===== verification/Db_Dao.thy ===== *)
theory Db_Dao
  imports Db_Tables Folder_Path Secret_Store
begin

text \<open>
  The data access objects under \<open>db/\<close>: folders, sessions with their three transport tables, port
  forwards, bookmarks, keys and certificates, tags, snippets and the join tables.  Each function is the
  sequence of its statements; a function that opens a transaction is wrapped in \<open>in_tx\<close>.  A call of
  \<open>now_unix_ms\<close> and the random ids are arguments.
\<close>

section \<open>Sequencing\<close>

definition dbind :: "'a stmt \<Rightarrow> ('a \<Rightarrow> 'b stmt) \<Rightarrow> 'b stmt" where
  "dbind m k d = (case m d of (Inl e, d') \<Rightarrow> (Inl e, d') | (Inr x, d') \<Rightarrow> k x d')"

definition in_tx :: "'a stmt \<Rightarrow> 'a stmt" where
  "in_tx m d = (case m d of (Inl e, d') \<Rightarrow> (Inl e, d) | (Inr x, d') \<Rightarrow> (Inr x, d'))"

definition dreturn :: "'a \<Rightarrow> 'a stmt" where
  "dreturn x d = (Inr x, d)"

definition dfail :: "Error \<Rightarrow> 'a stmt" where
  "dfail e d = (Inl e, d)"

text \<open>A statement that cannot violate a constraint: its value and its change.\<close>

definition plain :: "(db \<Rightarrow> 'a) \<Rightarrow> (db \<Rightarrow> db) \<Rightarrow> 'a stmt" where
  "plain v f d = (Inr (v d), f d)"

section \<open>Folders\<close>

definition folders_list_all :: "db \<Rightarrow> (string \<times> DbFolder) list" where
  "folders_list_all d = sort_key (\<lambda>(k, f). (f_sort_order f, f_name f)) (t_folders d)"

definition folders_upsert :: "string \<Rightarrow> DbFolder \<Rightarrow> unit stmt" where
  "folders_upsert i f d =
     guarded (resolves (f_parent_id f) (hput i f (t_folders d))) ''folders upsert'' FK_FAILED
       (\<lambda>d. d\<lparr> t_folders := hput i f (t_folders d) \<rparr>) d"

text \<open>The \<open>ON DELETE\<close> actions of \<open>folders\<close> for the rows that go.\<close>

definition drop_ref :: "string set \<Rightarrow> string option \<Rightarrow> string option" where
  "drop_ref dead r = (case r of Some k \<Rightarrow> if k \<in> dead then None else Some k | None \<Rightarrow> None)"

definition folders_remove :: "(string \<Rightarrow> bool) \<Rightarrow> db \<Rightarrow> db" where
  "folders_remove gone d =
     (let dead = {k \<in> set (hkeys (t_folders d)). gone k} in
      d\<lparr> t_folders := tmap (\<lambda>k f. f\<lparr> f_parent_id := drop_ref dead (f_parent_id f) \<rparr>)
           (keep_rows (\<lambda>k f. k \<notin> dead) (t_folders d)),
         t_sessions := tmap (\<lambda>k s. s\<lparr> s_folder_id := drop_ref dead (s_folder_id s) \<rparr>) (t_sessions d),
         t_folder_tags := filter (\<lambda>(f, t). f \<notin> dead) (t_folder_tags d) \<rparr>)"

definition folders_delete :: "string \<Rightarrow> nat stmt" where
  "folders_delete i = plain (\<lambda>d. tcount (\<lambda>k f. k = i) (t_folders d)) (folders_remove (\<lambda>k. k = i))"

definition folders_delete_all :: "nat stmt" where
  "folders_delete_all = plain (\<lambda>d. length (t_folders d)) (folders_remove (\<lambda>k. True))"

text \<open>
  The walk of \<open>ensure_folder_path\<close>: the map from parent and name to id, the parent so far, the
  random ids and the number of those drawn.
\<close>

type_synonym id_source = "nat \<Rightarrow> string"

fun ensure_segments ::
  "int \<Rightarrow> id_source \<Rightarrow> string list \<Rightarrow> ((string option \<times> string), string) hmap \<Rightarrow> string option \<Rightarrow> nat \<Rightarrow>
   (string option \<times> nat) stmt" where
  "ensure_segments now ids [] by_parent parent n d = (Inr (parent, n), d)"
| "ensure_segments now ids (seg # segs) by_parent parent n d =
     (case hget by_parent (parent, seg) of
        Some existing \<Rightarrow> ensure_segments now ids segs by_parent (Some existing) n d
      | None \<Rightarrow>
          (let row = \<lparr> f_name = seg, f_parent_id = parent, f_sort_order = 0, f_collapsed = False,
                       f_created_at = now \<rparr>
           in case folders_upsert (ids n) row d of
                (Inl e, d') \<Rightarrow> (Inl e, d')
              | (Inr u, d') \<Rightarrow>
                  ensure_segments now ids segs (hput (parent, seg) (ids n) by_parent) (Some (ids n)) (n + 1) d'))"

definition path_segments :: "string \<Rightarrow> string list" where
  "path_segments path = filter (\<lambda>s. s \<noteq> []) (split_on (CHR ''/'') path)"

definition folder_index :: "db \<Rightarrow> ((string option \<times> string), string) hmap" where
  "folder_index d = fold (\<lambda>(k, f) m. hput (f_parent_id f, f_name f) k m) (folders_list_all d) hempty"

definition ensure_folder_path :: "id_source \<Rightarrow> string \<Rightarrow> int \<Rightarrow> nat \<Rightarrow> (string option \<times> nat) stmt" where
  "ensure_folder_path ids path now n d =
     (if path = [] then (Inr (None, n), d)
      else ensure_segments now ids (path_segments path) (folder_index d) None n d)"

definition resolve_or_create_path :: "id_source \<Rightarrow> string \<Rightarrow> int \<Rightarrow> nat \<Rightarrow> (string option \<times> nat) stmt" where
  "resolve_or_create_path ids path now n = in_tx (ensure_folder_path ids path now n)"

definition toggle_collapsed :: "string \<Rightarrow> nat stmt" where
  "toggle_collapsed i = plain (\<lambda>d. tcount (\<lambda>k f. k = i) (t_folders d))
     (\<lambda>d. d\<lparr> t_folders := update_where (\<lambda>k f. k = i) (\<lambda>f. f\<lparr> f_collapsed := \<not> f_collapsed f \<rparr>) (t_folders d) \<rparr>)"

definition EM_DASH :: string where
  "EM_DASH = [CHR 0xE2, CHR 0x80, CHR 0x94]"

text \<open>\<open>is_descendant_of\<close>: the walk up with its cap of 65536 hops.\<close>

fun descends :: "nat \<Rightarrow> DbFolder tab \<Rightarrow> string option \<Rightarrow> string \<Rightarrow> Error + bool" where
  "descends n t None ancestor = Inr False"
| "descends 0 t (Some i) ancestor =
     Inl (EIo (''folders is_descendant_of: traversal hop cap exceeded '' @ EM_DASH @
       '' likely a pre-existing cycle in the parent_id chain''))"
| "descends (Suc n) t (Some i) ancestor =
     (if i = ancestor then Inr True
      else descends n t (Option.bind (hget t i) f_parent_id) ancestor)"

definition is_descendant_of :: "db \<Rightarrow> string \<Rightarrow> string \<Rightarrow> Error + bool" where
  "is_descendant_of d candidate ancestor = descends 65536 (t_folders d) (Some candidate) ancestor"

definition set_name_parent :: "string \<Rightarrow> string \<Rightarrow> string option \<Rightarrow> nat stmt" where
  "set_name_parent i name parent d =
     (let n = tcount (\<lambda>k f. k = i) (t_folders d) in
      if n = 0 \<or> resolves parent (t_folders d)
      then (Inr n, d\<lparr> t_folders := update_where (\<lambda>k f. k = i) (\<lambda>f. f\<lparr> f_name := name, f_parent_id := parent \<rparr>) (t_folders d) \<rparr>)
      else (Inl (EDb (''folders update_name_parent: '' @ FK_FAILED)), d))"

definition update_name_parent :: "string \<Rightarrow> string \<Rightarrow> string option \<Rightarrow> nat stmt" where
  "update_name_parent i name parent d =
     (case parent of
        None \<Rightarrow> set_name_parent i name None d
      | Some target \<Rightarrow>
          if target = i then
            (Inl (EDb (''folders update_name_parent: cycle '' @ EM_DASH @ '' parent_id == id ('' @ i @ '')'')), d)
          else case is_descendant_of d target i of
            Inl e \<Rightarrow> (Inl e, d)
          | Inr True \<Rightarrow>
              (Inl (EDb (''folders update_name_parent: cycle '' @ EM_DASH @ '' refused to move '' @ i @
                 '' under its own descendant '' @ target)), d)
          | Inr False \<Rightarrow> set_name_parent i name parent d)"

text \<open>The rows as \<open>folder_path.rs\<close> reads them: a \<open>BTreeMap\<close> by id.\<close>

definition folder_map :: "db \<Rightarrow> Folder_Path.folders" where
  "folder_map d = sort_key fst (map (\<lambda>(k, f). (k, \<lparr> row_id = k, row_name = f_name f,
     row_parent_id = f_parent_id f, row_collapsed = f_collapsed f \<rparr>)) (t_folders d))"

definition rename_folder :: "id_source \<Rightarrow> string \<Rightarrow> string list \<Rightarrow> int \<Rightarrow> nat \<Rightarrow> (nat \<times> nat) stmt" where
  "rename_folder ids i segments now n =
     dbind (ensure_folder_path ids (join ''/'' (butlast segments)) now n)
       (\<lambda>(parent, n'). dbind (update_name_parent i (last segments) parent) (\<lambda>c. dreturn (c, n')))"

definition rename_path_cascade :: "id_source \<Rightarrow> string \<Rightarrow> string \<Rightarrow> int \<Rightarrow> nat \<Rightarrow> (nat \<times> nat) stmt" where
  "rename_path_cascade ids old_path new_path now n d =
     (if old_path = [] \<or> new_path = [] \<or> old_path = new_path then (Inr (0, n), d)
      else if starts_with (old_path @ ''/'') new_path then
        (Inl (EDb (''folders rename_path_cascade: refused to move '' @ old_path @
           '' under its own descendant '' @ new_path)), d)
      else case find_folder_id_by_path old_path (folder_map d) of
        None \<Rightarrow> (Inr (0, n), d)
      | Some i \<Rightarrow>
          if path_segments new_path = [] then
            (Inl (EDb (''folders rename_path_cascade: empty new_path after split: '' @ new_path)), d)
          else in_tx (rename_folder ids i (path_segments new_path) now n) d)"

text \<open>The recursive query of \<open>delete_recursive\<close>: as many rounds as there are rows reach every descendant.\<close>

definition folder_children :: "DbFolder tab \<Rightarrow> string list \<Rightarrow> string list" where
  "folder_children t is = map fst (filter (\<lambda>(k, f). \<exists>i \<in> set is. f_parent_id f = Some i) t)"

definition descendants :: "DbFolder tab \<Rightarrow> string \<Rightarrow> string list" where
  "descendants t i = ((\<lambda>is. remdups (is @ folder_children t is)) ^^ length t) (filter (\<lambda>k. k = i) (hkeys t))"

definition delete_recursive :: "string \<Rightarrow> nat stmt" where
  "delete_recursive i d =
     (let dead = descendants (t_folders d) i in
      (Inr (length dead), folders_remove (\<lambda>k. k \<in> set dead) d))"

section \<open>Sessions\<close>

record SessionRow =
  r_id :: string
  r_label :: string
  r_folder_id :: "string option"
  r_kind :: string
  r_ssh :: SshCols
  r_sort_order :: int
  r_notes :: string
  r_last_connected_at :: "int option"
  r_extras :: string
  r_created_at :: int
  r_updated_at :: int

text \<open>The \<open>COALESCE\<close> defaults of \<open>SSH_JOIN_COLS\<close> for a session without a row in \<open>ssh_session_details\<close>.\<close>

definition ssh_absent :: SshCols where
  "ssh_absent = \<lparr> d_host = [], d_port = 22, d_user = [], d_auth_type = ''password'', d_password = [],
     d_key_path = [], d_key_data = [], d_key_id = None, d_passphrase = [], d_via_session_id = None,
     d_via_host = None, d_via_port = None, d_via_user = None \<rparr>"

definition session_row :: "db \<Rightarrow> string \<Rightarrow> SlimSession \<Rightarrow> SessionRow" where
  "session_row d i s =
     \<lparr> r_id = i, r_label = s_label s, r_folder_id = s_folder_id s, r_kind = s_kind s,
       r_ssh = (case hget (t_ssh d) i of Some (c, stamp) \<Rightarrow> c | None \<Rightarrow> ssh_absent),
       r_sort_order = s_sort_order s, r_notes = s_notes s, r_last_connected_at = s_last_connected_at s,
       r_extras = s_extras s, r_created_at = s_created_at s, r_updated_at = s_updated_at s \<rparr>"

definition sessions_ordered :: "SlimSession tab \<Rightarrow> (string \<times> SlimSession) list" where
  "sessions_ordered = sort_key (\<lambda>(k, s). (s_sort_order s, s_label s))"

definition live_sessions :: "db \<Rightarrow> SlimSession tab" where
  "live_sessions d = keep_rows (\<lambda>k s. s_deleted_at s = None) (t_sessions d)"

definition sessions_list_all :: "db \<Rightarrow> SessionRow list" where
  "sessions_list_all d = map (\<lambda>(k, s). session_row d k s) (sessions_ordered (live_sessions d))"

text \<open>\<open>SessionCredentialFlags\<close>: whether a live transport row holds a secret.\<close>

definition has_secret :: "'c transport tab \<Rightarrow> string \<Rightarrow> bool" where
  "has_secret t i = (case hget t i of Some x \<Rightarrow> x_deleted_at x = None \<and> x_secret x \<noteq> [] | None \<Rightarrow> False)"

definition sessions_list_all_with_flags :: "db \<Rightarrow> (SessionRow \<times> bool \<times> bool) list" where
  "sessions_list_all_with_flags d =
     map (\<lambda>(k, s). (session_row d k s, has_secret (t_webdav d) k, has_secret (t_s3 d) k))
       (sessions_ordered (live_sessions d))"

definition sessions_list_all_with_tombstones :: "db \<Rightarrow> (SessionRow \<times> int \<times> int option) list" where
  "sessions_list_all_with_tombstones d =
     map (\<lambda>(k, s). (session_row d k s, s_updated_at s, s_deleted_at s)) (sessions_ordered (t_sessions d))"

definition sessions_get :: "db \<Rightarrow> string \<Rightarrow> SessionRow option" where
  "sessions_get d i =
     (case hget (t_sessions d) i of
        Some s \<Rightarrow> if s_deleted_at s = None then Some (session_row d i s) else None
      | None \<Rightarrow> None)"

definition sessions_apply_tombstone :: "string \<Rightarrow> int \<Rightarrow> nat stmt" where
  "sessions_apply_tombstone i at =
     (let hit = (\<lambda>k s. k = i \<and> s_updated_at s < at) in
      plain (\<lambda>d. tcount hit (t_sessions d))
        (\<lambda>d. d\<lparr> t_sessions := update_where hit (\<lambda>s. s\<lparr> s_deleted_at := Some at, s_updated_at := at \<rparr>) (t_sessions d) \<rparr>))"

definition normalise_kind :: "string \<Rightarrow> string" where
  "normalise_kind kind = (if kind = [] then ''ssh'' else kind)"

definition slim_of :: "SessionRow \<Rightarrow> SlimSession option \<Rightarrow> SlimSession" where
  "slim_of r old =
     \<lparr> s_label = r_label r, s_folder_id = r_folder_id r, s_kind = normalise_kind (r_kind r),
       s_sort_order = r_sort_order r, s_notes = r_notes r, s_last_connected_at = r_last_connected_at r,
       s_extras = r_extras r,
       s_created_at = (case old of Some s \<Rightarrow> s_created_at s | None \<Rightarrow> r_created_at r),
       s_updated_at = r_updated_at r, s_deleted_at = None \<rparr>"

definition upsert_slim :: "SessionRow \<Rightarrow> unit stmt" where
  "upsert_slim r d =
     guarded (resolves (r_folder_id r) (t_folders d)) ''sessions upsert'' FK_FAILED
       (\<lambda>d. d\<lparr> t_sessions := hput (r_id r) (slim_of r (hget (t_sessions d) (r_id r))) (t_sessions d) \<rparr>) d"

definition upsert_ssh_details :: "SessionRow \<Rightarrow> unit stmt" where
  "upsert_ssh_details r d =
     guarded (r_id r \<in> set (hkeys (t_sessions d)) \<and> resolves (d_key_id (r_ssh r)) (t_keys d)
         \<and> resolves (d_via_session_id (r_ssh r)) (t_sessions d))
       ''ssh_session_details upsert'' FK_FAILED
       (\<lambda>d. d\<lparr> t_ssh := hput (r_id r) (r_ssh r, r_updated_at r) (t_ssh d) \<rparr>) d"

definition delete_ssh_details :: "string \<Rightarrow> unit stmt" where
  "delete_ssh_details i = plain (\<lambda>d. ()) (\<lambda>d. d\<lparr> t_ssh := hdel i (t_ssh d) \<rparr>)"

definition delete_webdav_details :: "string \<Rightarrow> unit stmt" where
  "delete_webdav_details i = plain (\<lambda>d. ()) (\<lambda>d. d\<lparr> t_webdav := hdel i (t_webdav d) \<rparr>)"

definition delete_s3_details :: "string \<Rightarrow> unit stmt" where
  "delete_s3_details i = plain (\<lambda>d. ()) (\<lambda>d. d\<lparr> t_s3 := hdel i (t_s3 d) \<rparr>)"

definition sessions_upsert :: "SessionRow \<Rightarrow> unit stmt" where
  "sessions_upsert r =
     (let kind = normalise_kind (r_kind r) in
      dbind (upsert_slim r) (\<lambda>_.
      dbind (if kind = ''ssh'' then upsert_ssh_details r else delete_ssh_details (r_id r)) (\<lambda>_.
      dbind (if kind \<noteq> ''webdav'' then delete_webdav_details (r_id r) else dreturn ()) (\<lambda>_.
      if kind \<noteq> ''s3'' then delete_s3_details (r_id r) else dreturn ()))))"

definition upsert_in_tx :: "SessionRow \<Rightarrow> unit stmt" where
  "upsert_in_tx r = in_tx (sessions_upsert r)"

definition soft_delete_sessions :: "(string \<Rightarrow> bool) \<Rightarrow> int \<Rightarrow> nat stmt" where
  "soft_delete_sessions which now =
     (let hit = (\<lambda>k s. which k \<and> s_deleted_at s = None) in
      plain (\<lambda>d. tcount hit (t_sessions d))
        (\<lambda>d. d\<lparr> t_sessions := update_where hit (\<lambda>s. s\<lparr> s_deleted_at := Some now \<rparr>) (t_sessions d) \<rparr>))"

definition sessions_delete :: "string \<Rightarrow> int \<Rightarrow> nat stmt" where
  "sessions_delete i now = soft_delete_sessions (\<lambda>k. k = i) now"

definition sessions_delete_multiple :: "string list \<Rightarrow> int \<Rightarrow> nat stmt" where
  "sessions_delete_multiple is now = (if is = [] then dreturn 0 else soft_delete_sessions (\<lambda>k. k \<in> set is) now)"

definition sessions_delete_all :: "int \<Rightarrow> nat stmt" where
  "sessions_delete_all now = soft_delete_sessions (\<lambda>k. True) now"

text \<open>The \<open>ON DELETE\<close> actions of \<open>sessions\<close>.\<close>

definition sessions_remove :: "(SlimSession \<Rightarrow> bool) \<Rightarrow> db \<Rightarrow> db" where
  "sessions_remove gone d =
     (let dead = fst ` {(k, s) \<in> set (t_sessions d). gone s}; kept = (\<lambda>k. k \<notin> dead) in
      d\<lparr> t_sessions := keep_rows (\<lambda>k s. kept k) (t_sessions d),
         t_ssh := tmap (\<lambda>k (c, stamp). (c\<lparr> d_via_session_id := drop_ref dead (d_via_session_id c) \<rparr>, stamp))
           (keep_rows (\<lambda>k s. kept k) (t_ssh d)),
         t_webdav := keep_rows (\<lambda>k x. kept k) (t_webdav d),
         t_s3 := keep_rows (\<lambda>k x. kept k) (t_s3 d),
         t_session_tags := filter (\<lambda>(s, t). kept s) (t_session_tags d),
         t_session_snippets := filter (\<lambda>(s, n). kept s) (t_session_snippets d),
         t_forwards := keep_rows (\<lambda>k p. kept (p_session_id p)) (t_forwards d),
         t_bookmarks := keep_rows (\<lambda>k b. kept (b_session_id b)) (t_bookmarks d) \<rparr>)"

text \<open>\<open>deleted_at IS NOT NULL AND deleted_at < before\<close>.\<close>

definition purgeable :: "int \<Rightarrow> int option \<Rightarrow> bool" where
  "purgeable before at = (case at of Some t \<Rightarrow> t < before | None \<Rightarrow> False)"

definition sessions_purge_tombstones :: "int \<Rightarrow> nat stmt" where
  "sessions_purge_tombstones before =
     plain (\<lambda>d. tcount (\<lambda>k s. purgeable before (s_deleted_at s)) (t_sessions d))
       (sessions_remove (\<lambda>s. purgeable before (s_deleted_at s)))"

definition move_sessions :: "string \<Rightarrow> (string \<Rightarrow> bool) \<Rightarrow> string option \<Rightarrow> int \<Rightarrow> nat stmt" where
  "move_sessions what which folder now d =
     (let hit = (\<lambda>k s. which k \<and> s_deleted_at s = None); n = tcount hit (t_sessions d) in
      if n = 0 \<or> resolves folder (t_folders d)
      then (Inr n, d\<lparr> t_sessions := update_where hit (\<lambda>s. s\<lparr> s_folder_id := folder, s_updated_at := now \<rparr>) (t_sessions d) \<rparr>)
      else (Inl (EDb (what @ '': '' @ FK_FAILED)), d))"

definition move_to_folder :: "string \<Rightarrow> string option \<Rightarrow> int \<Rightarrow> nat stmt" where
  "move_to_folder i folder now = move_sessions ''sessions move_to_folder'' (\<lambda>k. k = i) folder now"

definition move_multiple :: "string list \<Rightarrow> string option \<Rightarrow> int \<Rightarrow> nat stmt" where
  "move_multiple is folder now =
     (if is = [] then dreturn 0 else move_sessions ''sessions move_multiple'' (\<lambda>k. k \<in> set is) folder now)"

text \<open>
  \<open>stage_secrets_into_store\<close>: the non-empty credentials of a live session go to the secret store under
  their canonical ids.
\<close>

record StagedSecrets =
  st_auth_type :: string
  st_has_password :: bool
  st_has_key_data :: bool
  st_has_passphrase :: bool

definition stage_one :: "(nat \<Rightarrow> bool) \<Rightarrow> string \<Rightarrow> string \<Rightarrow> SecretStore \<Rightarrow> SecretStore" where
  "stage_one grant k v st = (if v = [] then st else secret_put grant k (str_bytes v) st)"

definition stage_secrets_into_store ::
  "(nat \<Rightarrow> bool) \<Rightarrow> db \<Rightarrow> string \<Rightarrow> SecretStore \<Rightarrow> StagedSecrets option \<times> SecretStore" where
  "stage_secrets_into_store grant d i st =
     (case sessions_get d i of
        None \<Rightarrow> (None, st)
      | Some r \<Rightarrow>
          (let c = r_ssh r in
           (Some \<lparr> st_auth_type = d_auth_type c, st_has_password = d_password c \<noteq> [],
                   st_has_key_data = d_key_data c \<noteq> [], st_has_passphrase = d_passphrase c \<noteq> [] \<rparr>,
            stage_one grant (''sess.passphrase.'' @ i) (d_passphrase c)
              (stage_one grant (''sess.key.'' @ i) (d_key_data c)
                (stage_one grant (''sess.password.'' @ i) (d_password c) st)))))"

text \<open>\<open>update_metadata\<close>: every column of \<open>SessionMetadata\<close>; the credentials of the given row are ignored.\<close>

definition keep_credentials :: "SshCols \<Rightarrow> SshCols \<Rightarrow> SshCols" where
  "keep_credentials new old =
     new\<lparr> d_password := d_password old, d_key_data := d_key_data old, d_passphrase := d_passphrase old \<rparr>"

definition metadata_slim :: "SessionRow \<Rightarrow> nat stmt" where
  "metadata_slim m d =
     (let hit = (\<lambda>k s. k = r_id m \<and> s_deleted_at s = None); n = tcount hit (t_sessions d) in
      if n = 0 \<or> resolves (r_folder_id m) (t_folders d)
      then (Inr n, d\<lparr> t_sessions := update_where hit (\<lambda>s. s\<lparr> s_label := r_label m, s_folder_id := r_folder_id m,
              s_sort_order := r_sort_order m, s_notes := r_notes m, s_extras := r_extras m,
              s_updated_at := r_updated_at m \<rparr>) (t_sessions d) \<rparr>)
      else (Inl (EDb (''sessions update_metadata: '' @ FK_FAILED)), d))"

definition metadata_ssh :: "SessionRow \<Rightarrow> unit stmt" where
  "metadata_ssh m d =
     guarded (resolves (d_key_id (r_ssh m)) (t_keys d) \<and> resolves (d_via_session_id (r_ssh m)) (t_sessions d))
       ''ssh_session_details update_metadata'' FK_FAILED
       (\<lambda>d. d\<lparr> t_ssh := update_where (\<lambda>k c. k = r_id m)
          (\<lambda>(old, stamp). (keep_credentials (r_ssh m) old, r_updated_at m)) (t_ssh d) \<rparr>) d"

definition update_metadata :: "SessionRow \<Rightarrow> nat stmt" where
  "update_metadata m =
     dbind (metadata_slim m) (\<lambda>n d.
       if n = 0 then (Inr 0, d)
       else if hget (t_ssh d) (r_id m) = None then (Inr n, d)
       else dbind (metadata_ssh m) (\<lambda>_. dreturn n) d)"

definition set_slot :: "string \<Rightarrow> string \<Rightarrow> (SshCols \<Rightarrow> SshCols) option" where
  "set_slot slot v =
     (if slot = ''password'' then Some (\<lambda>c. c\<lparr> d_password := v \<rparr>)
      else if slot = ''key_data'' then Some (\<lambda>c. c\<lparr> d_key_data := v \<rparr>)
      else if slot = ''passphrase'' then Some (\<lambda>c. c\<lparr> d_passphrase := v \<rparr>) else None)"

definition stamp_session :: "string \<Rightarrow> int \<Rightarrow> db \<Rightarrow> db" where
  "stamp_session i now d =
     d\<lparr> t_sessions := update_where (\<lambda>k s. k = i \<and> s_deleted_at s = None) (\<lambda>s. s\<lparr> s_updated_at := now \<rparr>) (t_sessions d) \<rparr>"

definition set_secret_column :: "string \<Rightarrow> string \<Rightarrow> string \<Rightarrow> int \<Rightarrow> nat stmt" where
  "set_secret_column i slot v now d =
     (case set_slot slot v of
        None \<Rightarrow> (Inl (EDb (''unknown secret slot: '' @ slot)), d)
      | Some f \<Rightarrow>
          (case hget (t_ssh d) i of
             None \<Rightarrow> (Inr 0, d)
           | Some c \<Rightarrow>
               (Inr 1, stamp_session i now
                  (d\<lparr> t_ssh := update_where (\<lambda>k c. k = i) (\<lambda>(c, stamp). (f c, now)) (t_ssh d) \<rparr>))))"

text \<open>\<open>duplicate_session\<close>: four \<open>INSERT \<dots> SELECT\<close>; an id that is taken breaks the primary key.\<close>

definition copy_transport :: "int \<Rightarrow> 'c transport \<Rightarrow> 'c transport" where
  "copy_transport now x = \<lparr> x_cols = x_cols x, x_secret = [], x_updated_at = now, x_deleted_at = None \<rparr>"

definition copy_row :: "string \<Rightarrow> string \<Rightarrow> ('r \<Rightarrow> 'r) \<Rightarrow> 'r tab \<Rightarrow> 'r tab" where
  "copy_row src new f t = (case hget t src of Some r \<Rightarrow> hput new (f r) t | None \<Rightarrow> t)"

definition detail_taken :: "string \<Rightarrow> string \<Rightarrow> 'r tab \<Rightarrow> bool" where
  "detail_taken src new t \<longleftrightarrow> hget t src \<noteq> None \<and> hget t new \<noteq> None"

definition duplicate_slim :: "string \<Rightarrow> string \<Rightarrow> string \<Rightarrow> string option \<Rightarrow> int \<Rightarrow> unit stmt" where
  "duplicate_slim src new label folder now d =
     (case hget (t_sessions d) src of
        None \<Rightarrow> (Inl (EIo ''sessions duplicate: source row missing''), d)
      | Some s \<Rightarrow>
          if s_deleted_at s \<noteq> None then (Inl (EIo ''sessions duplicate: source row missing''), d)
          else if hget (t_sessions d) new \<noteq> None
          then (Inl (EDb ''sessions duplicate: UNIQUE constraint failed: sessions.id''), d)
          else guarded (resolves folder (t_folders d)) ''sessions duplicate'' FK_FAILED
            (\<lambda>d. d\<lparr> t_sessions := hput new (s\<lparr> s_label := label, s_folder_id := folder, s_last_connected_at := None,
               s_created_at := now, s_updated_at := now \<rparr>) (t_sessions d) \<rparr>) d)"

definition duplicate_detail :: "bool \<Rightarrow> string \<Rightarrow> (db \<Rightarrow> db) \<Rightarrow> unit stmt" where
  "duplicate_detail taken table change d =
     guarded (\<not> taken) (table @ '' duplicate'') (''UNIQUE constraint failed: '' @ table @ ''.session_id'') change d"

definition duplicate_session :: "string \<Rightarrow> string \<Rightarrow> string \<Rightarrow> string option \<Rightarrow> int \<Rightarrow> unit stmt" where
  "duplicate_session src new label folder now =
     dbind (duplicate_slim src new label folder now) (\<lambda>_.
     dbind (\<lambda>d. duplicate_detail (detail_taken src new (t_ssh d)) ''ssh_session_details''
              (\<lambda>d. d\<lparr> t_ssh := copy_row src new (\<lambda>(c, stamp). (c, now)) (t_ssh d) \<rparr>) d) (\<lambda>_.
     dbind (\<lambda>d. duplicate_detail (detail_taken src new (t_webdav d)) ''webdav_session_details''
              (\<lambda>d. d\<lparr> t_webdav := copy_row src new (copy_transport now) (t_webdav d) \<rparr>) d) (\<lambda>_ d.
       duplicate_detail (detail_taken src new (t_s3 d)) ''s3_session_details''
              (\<lambda>d. d\<lparr> t_s3 := copy_row src new (copy_transport now) (t_s3 d) \<rparr>) d)))"

definition duplicate_session_in_tx :: "string \<Rightarrow> string \<Rightarrow> string \<Rightarrow> string option \<Rightarrow> int \<Rightarrow> unit stmt" where
  "duplicate_session_in_tx src new label folder now = in_tx (duplicate_session src new label folder now)"

text \<open>\<open>unique_label\<close> of \<open>sessions.rs\<close>: the first copy name that is free.\<close>

definition copy_name :: "string \<Rightarrow> nat \<Rightarrow> string" where
  "copy_name base n = base @ '' (copy '' @ dec n @ '')''"

lemma dec_inject [simp]: "dec m = dec n \<longleftrightarrow> m = n"
proof
  assume "dec m = dec n"
  then have "parse_digits (dec m) = parse_digits (dec n)" by (rule arg_cong)
  then show "m = n" by simp
qed simp

lemma copy_name_inject [simp]: "copy_name base m = copy_name base n \<longleftrightarrow> m = n"
  by (simp add: copy_name_def)

function free_copy :: "string \<Rightarrow> string list \<Rightarrow> nat \<Rightarrow> string" where
  "free_copy base taken n =
     (if copy_name base n \<in> set taken then free_copy base taken (n + 1) else copy_name base n)"
  by pat_completeness auto
termination
proof (relation "measure (\<lambda>(base, taken, n). card {c \<in> set taken. \<exists>m \<ge> n. c = copy_name base m})", goal_cases)
  case (2 base taken n)
  let ?A = "\<lambda>n. {c \<in> set taken. \<exists>m \<ge> n. c = copy_name base m}"
  have "?A (n + 1) \<subseteq> ?A n" by force
  moreover have "copy_name base n \<in> ?A n" "copy_name base n \<notin> ?A (n + 1)" using 2 by auto
  ultimately have "?A (n + 1) \<subset> ?A n" by blast
  then show ?case by (simp add: psubset_card_mono)
qed simp

declare free_copy.simps [simp del]

definition unique_label :: "string \<Rightarrow> string list \<Rightarrow> string" where
  "unique_label base taken =
     (if base = [] \<or> base \<notin> set taken then base
      else if base @ '' (copy)'' \<notin> set taken then base @ '' (copy)''
      else free_copy base taken 2)"

definition duplicate_with_path :: "id_source \<Rightarrow> string \<Rightarrow> string \<Rightarrow> int \<Rightarrow> nat \<Rightarrow> (string \<times> nat) stmt" where
  "duplicate_with_path ids src path now n d =
     (case sessions_get d src of
        None \<Rightarrow> (Inl (EDb (''sessions duplicate_with_path source missing: Query returned no rows'')), d)
      | Some r \<Rightarrow>
          in_tx (dbind (ensure_folder_path ids path now n) (\<lambda>(folder, n').
            dbind (duplicate_session src (ids n')
              (unique_label (r_label r) (map (\<lambda>(k, s). s_label s) (live_sessions d))) folder now)
            (\<lambda>_. dreturn (ids n', n' + 1)))) d)"

text \<open>\<open>restore_snapshot\<close>: the rows with their folder paths, then the empty folders.\<close>

fun restore_rows :: "id_source \<Rightarrow> int \<Rightarrow> (SessionRow \<times> string) list \<Rightarrow> nat \<Rightarrow> nat stmt" where
  "restore_rows ids now [] n d = (Inr n, d)"
| "restore_rows ids now ((r, path) # rows) n d =
     dbind (ensure_folder_path ids path now n)
       (\<lambda>(folder, n'). dbind (sessions_upsert (r\<lparr> r_folder_id := folder \<rparr>)) (\<lambda>_. restore_rows ids now rows n')) d"

fun restore_folders :: "id_source \<Rightarrow> int \<Rightarrow> string list \<Rightarrow> nat \<Rightarrow> nat stmt" where
  "restore_folders ids now [] n d = (Inr n, d)"
| "restore_folders ids now (p # ps) n d =
     dbind (ensure_folder_path ids p now n) (\<lambda>(folder, n'). restore_folders ids now ps n') d"

definition restore_snapshot ::
  "id_source \<Rightarrow> (SessionRow \<times> string) list \<Rightarrow> string list \<Rightarrow> int \<Rightarrow> int \<Rightarrow> nat \<Rightarrow> nat stmt" where
  "restore_snapshot ids rows empty_folders now clock n =
     in_tx (dbind (sessions_delete_all clock) (\<lambda>_. dbind folders_delete_all (\<lambda>_.
       dbind (restore_rows ids now rows n) (\<lambda>n'. restore_folders ids now empty_folders n'))))"

section \<open>Transport details\<close>

text \<open>
  \<open>webdav_sessions.rs\<close> and \<open>s3_sessions.rs\<close> are the same code over two tables: each operation is given
  once, on a table, and instantiated.
\<close>

definition transport_upsert :: "string \<Rightarrow> 'c \<Rightarrow> int \<Rightarrow> 'c transport tab \<Rightarrow> 'c transport tab" where
  "transport_upsert i c stamp t =
     hput i \<lparr> x_cols = c, x_secret = (case hget t i of Some x \<Rightarrow> x_secret x | None \<Rightarrow> []),
              x_updated_at = stamp, x_deleted_at = None \<rparr> t"

definition transport_set_secret :: "string \<Rightarrow> string \<Rightarrow> int \<Rightarrow> 'c transport tab \<Rightarrow> 'c transport tab" where
  "transport_set_secret i v now =
     update_where (\<lambda>k x. k = i \<and> x_deleted_at x = None) (\<lambda>x. x\<lparr> x_secret := v, x_updated_at := now \<rparr>)"

definition transport_live :: "string \<Rightarrow> 'c transport tab \<Rightarrow> 'c transport option" where
  "transport_live i t = (case hget t i of Some x \<Rightarrow> if x_deleted_at x = None then Some x else None | None \<Rightarrow> None)"

definition transport_bury :: "(string \<Rightarrow> bool) \<Rightarrow> int \<Rightarrow> 'c transport tab \<Rightarrow> 'c transport tab" where
  "transport_bury which now =
     update_where (\<lambda>k x. which k \<and> x_deleted_at x = None) (\<lambda>x. x\<lparr> x_deleted_at := Some now, x_updated_at := now \<rparr>)"

definition transport_tombstone :: "string \<Rightarrow> int \<Rightarrow> 'c transport tab \<Rightarrow> 'c transport tab" where
  "transport_tombstone i at =
     update_where (\<lambda>k x. k = i \<and> x_updated_at x < at) (\<lambda>x. x\<lparr> x_deleted_at := Some at, x_updated_at := at \<rparr>)"

definition transport_ordered :: "'c transport tab \<Rightarrow> (string \<times> 'c transport) list" where
  "transport_ordered = sort_key fst"

definition webdav_upsert_with_stamp :: "string \<Rightarrow> WebDavCols \<Rightarrow> int \<Rightarrow> unit stmt" where
  "webdav_upsert_with_stamp i c stamp d =
     guarded (i \<in> set (hkeys (t_sessions d))) ''webdav_session_details upsert'' FK_FAILED
       (\<lambda>d. d\<lparr> t_webdav := transport_upsert i c stamp (t_webdav d) \<rparr>) d"

definition webdav_set_password :: "string \<Rightarrow> string \<Rightarrow> int \<Rightarrow> nat stmt" where
  "webdav_set_password i v now d =
     (case transport_live i (t_webdav d) of
        None \<Rightarrow> (Inr 0, d)
      | Some x \<Rightarrow> (Inr 1, stamp_session i now (d\<lparr> t_webdav := transport_set_secret i v now (t_webdav d) \<rparr>)))"

definition webdav_delete :: "string \<Rightarrow> int \<Rightarrow> nat stmt" where
  "webdav_delete i now = plain (\<lambda>d. tcount (\<lambda>k x. k = i \<and> x_deleted_at x = None) (t_webdav d))
     (\<lambda>d. d\<lparr> t_webdav := transport_bury (\<lambda>k. k = i) now (t_webdav d) \<rparr>)"

definition webdav_delete_all :: "int \<Rightarrow> nat stmt" where
  "webdav_delete_all now = plain (\<lambda>d. tcount (\<lambda>k x. x_deleted_at x = None) (t_webdav d))
     (\<lambda>d. d\<lparr> t_webdav := transport_bury (\<lambda>k. True) now (t_webdav d) \<rparr>)"

definition webdav_apply_tombstone :: "string \<Rightarrow> int \<Rightarrow> nat stmt" where
  "webdav_apply_tombstone i at = plain (\<lambda>d. tcount (\<lambda>k x. k = i \<and> x_updated_at x < at) (t_webdav d))
     (\<lambda>d. d\<lparr> t_webdav := transport_tombstone i at (t_webdav d) \<rparr>)"

definition webdav_purge_tombstones :: "int \<Rightarrow> nat stmt" where
  "webdav_purge_tombstones before = plain (\<lambda>d. tcount (\<lambda>k x. purgeable before (x_deleted_at x)) (t_webdav d))
     (\<lambda>d. d\<lparr> t_webdav := keep_rows (\<lambda>k x. \<not> purgeable before (x_deleted_at x)) (t_webdav d) \<rparr>)"

definition webdav_secret_id :: "string \<Rightarrow> string" where
  "webdav_secret_id i = ''session.webdav.'' @ i"

definition webdav_stage_secret :: "(nat \<Rightarrow> bool) \<Rightarrow> db \<Rightarrow> string \<Rightarrow> SecretStore \<Rightarrow> bool \<times> SecretStore" where
  "webdav_stage_secret grant d i st =
     (case transport_live i (t_webdav d) of
        None \<Rightarrow> (False, st)
      | Some x \<Rightarrow> (x_secret x \<noteq> [], stage_one grant (webdav_secret_id i) (x_secret x) st))"

definition s3_secret_id :: "string \<Rightarrow> string" where
  "s3_secret_id i = ''session.s3.'' @ i"

definition s3_stage_secret :: "(nat \<Rightarrow> bool) \<Rightarrow> db \<Rightarrow> string \<Rightarrow> SecretStore \<Rightarrow> bool \<times> SecretStore" where
  "s3_stage_secret grant d i st =
     (case transport_live i (t_s3 d) of
        None \<Rightarrow> (False, st)
      | Some x \<Rightarrow> (x_secret x \<noteq> [], stage_one grant (s3_secret_id i) (x_secret x) st))"

definition s3_upsert_with_stamp :: "string \<Rightarrow> S3Cols \<Rightarrow> int \<Rightarrow> unit stmt" where
  "s3_upsert_with_stamp i c stamp d =
     guarded (i \<in> set (hkeys (t_sessions d))) ''s3_session_details upsert'' FK_FAILED
       (\<lambda>d. d\<lparr> t_s3 := transport_upsert i c stamp (t_s3 d) \<rparr>) d"

definition s3_set_secret_access_key :: "string \<Rightarrow> string \<Rightarrow> int \<Rightarrow> nat stmt" where
  "s3_set_secret_access_key i v now d =
     (case transport_live i (t_s3 d) of
        None \<Rightarrow> (Inr 0, d)
      | Some x \<Rightarrow> (Inr 1, stamp_session i now (d\<lparr> t_s3 := transport_set_secret i v now (t_s3 d) \<rparr>)))"

definition s3_delete :: "string \<Rightarrow> int \<Rightarrow> nat stmt" where
  "s3_delete i now = plain (\<lambda>d. tcount (\<lambda>k x. k = i \<and> x_deleted_at x = None) (t_s3 d))
     (\<lambda>d. d\<lparr> t_s3 := transport_bury (\<lambda>k. k = i) now (t_s3 d) \<rparr>)"

definition s3_delete_all :: "int \<Rightarrow> nat stmt" where
  "s3_delete_all now = plain (\<lambda>d. tcount (\<lambda>k x. x_deleted_at x = None) (t_s3 d))
     (\<lambda>d. d\<lparr> t_s3 := transport_bury (\<lambda>k. True) now (t_s3 d) \<rparr>)"

definition s3_apply_tombstone :: "string \<Rightarrow> int \<Rightarrow> nat stmt" where
  "s3_apply_tombstone i at = plain (\<lambda>d. tcount (\<lambda>k x. k = i \<and> x_updated_at x < at) (t_s3 d))
     (\<lambda>d. d\<lparr> t_s3 := transport_tombstone i at (t_s3 d) \<rparr>)"

definition s3_purge_tombstones :: "int \<Rightarrow> nat stmt" where
  "s3_purge_tombstones before = plain (\<lambda>d. tcount (\<lambda>k x. purgeable before (x_deleted_at x)) (t_s3 d))
     (\<lambda>d. d\<lparr> t_s3 := keep_rows (\<lambda>k x. \<not> purgeable before (x_deleted_at x)) (t_s3 d) \<rparr>)"

section \<open>Port-forward rules and bookmarks\<close>

definition forwards_ordered :: "PortForwardRule tab \<Rightarrow> (string \<times> PortForwardRule) list" where
  "forwards_ordered = sort_key (\<lambda>(k, p). (p_session_id p, p_sort_order p, p_created_at p))"

definition forwards_list_all :: "db \<Rightarrow> (string \<times> PortForwardRule) list" where
  "forwards_list_all d = forwards_ordered (keep_rows (\<lambda>k p. p_deleted_at p = None) (t_forwards d))"

text \<open>The conflict arm keeps \<open>created_at\<close>.\<close>

definition forwards_upsert_with_stamp :: "string \<Rightarrow> PortForwardRule \<Rightarrow> int \<Rightarrow> unit stmt" where
  "forwards_upsert_with_stamp i p stamp d =
     guarded (p_session_id p \<in> set (hkeys (t_sessions d))) ''port_forwards upsert'' FK_FAILED
       (\<lambda>d. d\<lparr> t_forwards := hput i (p\<lparr>
          p_created_at := (case hget (t_forwards d) i of Some old \<Rightarrow> p_created_at old | None \<Rightarrow> p_created_at p),
          p_updated_at := stamp, p_deleted_at := None \<rparr>) (t_forwards d) \<rparr>) d"

definition bury_forwards :: "(string \<Rightarrow> bool) \<Rightarrow> int \<Rightarrow> nat stmt" where
  "bury_forwards which now =
     (let hit = (\<lambda>k p. which k \<and> p_deleted_at p = None) in
      plain (\<lambda>d. tcount hit (t_forwards d))
        (\<lambda>d. d\<lparr> t_forwards := update_where hit (\<lambda>p. p\<lparr> p_deleted_at := Some now, p_updated_at := now \<rparr>) (t_forwards d) \<rparr>))"

definition forwards_delete :: "string \<Rightarrow> int \<Rightarrow> nat stmt" where
  "forwards_delete i now = bury_forwards (\<lambda>k. k = i) now"

definition forwards_delete_all :: "int \<Rightarrow> nat stmt" where
  "forwards_delete_all now = bury_forwards (\<lambda>k. True) now"

definition forwards_apply_tombstone :: "string \<Rightarrow> int \<Rightarrow> nat stmt" where
  "forwards_apply_tombstone i at =
     (let hit = (\<lambda>k p. k = i \<and> p_updated_at p < at) in
      plain (\<lambda>d. tcount hit (t_forwards d))
        (\<lambda>d. d\<lparr> t_forwards := update_where hit (\<lambda>p. p\<lparr> p_deleted_at := Some at, p_updated_at := at \<rparr>) (t_forwards d) \<rparr>))"

definition forwards_purge_tombstones :: "int \<Rightarrow> nat stmt" where
  "forwards_purge_tombstones before = plain (\<lambda>d. tcount (\<lambda>k p. purgeable before (p_deleted_at p)) (t_forwards d))
     (\<lambda>d. d\<lparr> t_forwards := keep_rows (\<lambda>k p. \<not> purgeable before (p_deleted_at p)) (t_forwards d) \<rparr>)"

definition bookmarks_ordered :: "SftpBookmark tab \<Rightarrow> (string \<times> SftpBookmark) list" where
  "bookmarks_ordered = sort_key (\<lambda>(k, b). (b_session_id b, b_remote_path b))"

definition bookmarks_list_all :: "db \<Rightarrow> (string \<times> SftpBookmark) list" where
  "bookmarks_list_all d = bookmarks_ordered (keep_rows (\<lambda>k b. b_deleted_at b = None) (t_bookmarks d))"

definition bookmarks_upsert :: "string \<Rightarrow> SftpBookmark \<Rightarrow> unit stmt" where
  "bookmarks_upsert i b d =
     guarded (b_session_id b \<in> set (hkeys (t_sessions d))) ''sftp_bookmarks upsert'' FK_FAILED
       (\<lambda>d. d\<lparr> t_bookmarks := hput i (b\<lparr>
          b_created_at := (case hget (t_bookmarks d) i of Some old \<Rightarrow> b_created_at old | None \<Rightarrow> b_created_at b),
          b_deleted_at := None \<rparr>) (t_bookmarks d) \<rparr>) d"

definition bury_bookmarks :: "(string \<Rightarrow> bool) \<Rightarrow> int \<Rightarrow> nat stmt" where
  "bury_bookmarks which now =
     (let hit = (\<lambda>k b. which k \<and> b_deleted_at b = None) in
      plain (\<lambda>d. tcount hit (t_bookmarks d))
        (\<lambda>d. d\<lparr> t_bookmarks := update_where hit (\<lambda>b. b\<lparr> b_deleted_at := Some now \<rparr>) (t_bookmarks d) \<rparr>))"

definition bookmarks_delete :: "string \<Rightarrow> int \<Rightarrow> nat stmt" where
  "bookmarks_delete i now = bury_bookmarks (\<lambda>k. k = i) now"

definition bookmarks_delete_all :: "int \<Rightarrow> nat stmt" where
  "bookmarks_delete_all now = bury_bookmarks (\<lambda>k. True) now"

definition bookmarks_apply_tombstone :: "string \<Rightarrow> int \<Rightarrow> nat stmt" where
  "bookmarks_apply_tombstone i at =
     (let hit = (\<lambda>k b. k = i \<and> b_deleted_at b = None \<and> b_created_at b < at) in
      plain (\<lambda>d. tcount hit (t_bookmarks d))
        (\<lambda>d. d\<lparr> t_bookmarks := update_where hit (\<lambda>b. b\<lparr> b_deleted_at := Some at \<rparr>) (t_bookmarks d) \<rparr>))"

definition bookmarks_purge_tombstones :: "int \<Rightarrow> nat stmt" where
  "bookmarks_purge_tombstones before = plain (\<lambda>d. tcount (\<lambda>k b. purgeable before (b_deleted_at b)) (t_bookmarks d))
     (\<lambda>d. d\<lparr> t_bookmarks := keep_rows (\<lambda>k b. \<not> purgeable before (b_deleted_at b)) (t_bookmarks d) \<rparr>)"

section \<open>Keys and certificates\<close>

definition keys_ordered :: "(SshKeyRow \<times> int option) tab \<Rightarrow> (string \<times> SshKeyRow \<times> int option) list" where
  "keys_ordered = sort_key (\<lambda>(k, r, at). - k_created_at r)"

definition keys_list_all :: "db \<Rightarrow> SshKeyRow list" where
  "keys_list_all d = map (\<lambda>(k, r, at). r) (keys_ordered (keep_rows (\<lambda>k (r, at). at = None) (t_keys d)))"

definition keys_upsert :: "SshKeyRow \<Rightarrow> unit stmt" where
  "keys_upsert r = plain (\<lambda>d. ()) (\<lambda>d. d\<lparr> t_keys := hput (k_id r) (r, None) (t_keys d) \<rparr>)"

definition keys_apply_tombstone :: "string \<Rightarrow> int \<Rightarrow> nat stmt" where
  "keys_apply_tombstone i at =
     (let hit = (\<lambda>k (r, dead). k = i \<and> dead = None \<and> k_created_at r < at) in
      plain (\<lambda>d. tcount hit (t_keys d))
        (\<lambda>d. d\<lparr> t_keys := update_where hit (\<lambda>(r, dead). (r, Some at)) (t_keys d) \<rparr>))"

text \<open>\<open>normalized_sha256_hex\<close> and its twin in the apply driver: \<open>\r\n\<close> to \<open>\n\<close>, trim, hash, hexadecimal.\<close>

fun crlf_to_lf :: "string \<Rightarrow> string" where
  "crlf_to_lf (c # e # s) =
     (if c = CHR 0x0D \<and> e = CHR 0x0A then e # crlf_to_lf s else c # crlf_to_lf (e # s))"
| "crlf_to_lf [c] = [c]"
| "crlf_to_lf [] = []"

definition normalized_sha256_hex :: "(bytes \<Rightarrow> string) \<Rightarrow> string \<Rightarrow> string" where
  "normalized_sha256_hex sha_hex s =
     (let t = trim (crlf_to_lf s) in if t = [] then [] else sha_hex (str_bytes t))"

text \<open>\<open>SshKeyMetadata\<close>, with the fields the import code compares.\<close>

record SshKeyMetadata =
  m_id :: string
  m_label :: string
  m_private_fingerprint :: string
  m_public_fingerprint :: string

definition keys_list_metadata :: "(bytes \<Rightarrow> string) \<Rightarrow> db \<Rightarrow> SshKeyMetadata list" where
  "keys_list_metadata sha_hex d =
     map (\<lambda>r. \<lparr> m_id = k_id r, m_label = k_label r,
                m_private_fingerprint = normalized_sha256_hex sha_hex (k_private_key r),
                m_public_fingerprint = normalized_sha256_hex sha_hex (k_public_key r) \<rparr>) (keys_list_all d)"

definition bury_keys :: "(string \<Rightarrow> bool) \<Rightarrow> int \<Rightarrow> db \<Rightarrow> db" where
  "bury_keys which now d =
     d\<lparr> t_keys := update_where (\<lambda>k (r, dead). which k \<and> dead = None) (\<lambda>(r, dead). (r, Some now)) (t_keys d) \<rparr>"

definition keys_delete :: "string \<Rightarrow> int \<Rightarrow> nat stmt" where
  "keys_delete i now = plain (\<lambda>d. tcount (\<lambda>k (r, dead). k = i \<and> dead = None) (t_keys d)) (bury_keys (\<lambda>k. k = i) now)"

definition keys_replace_all :: "SshKeyRow list \<Rightarrow> int \<Rightarrow> unit stmt" where
  "keys_replace_all rows now = plain (\<lambda>d. ())
     (\<lambda>d. fold (\<lambda>r d. d\<lparr> t_keys := hput (k_id r) (r, None) (t_keys d) \<rparr>) rows (bury_keys (\<lambda>k. True) now d))"

text \<open>The \<open>ON DELETE\<close> actions of \<open>ssh_keys\<close>.\<close>

definition keys_purge_tombstones :: "int \<Rightarrow> nat stmt" where
  "keys_purge_tombstones before =
     plain (\<lambda>d. tcount (\<lambda>k (r, dead). purgeable before dead) (t_keys d))
       (\<lambda>d. let dead = fst ` {(k, r, at) \<in> set (t_keys d). purgeable before at} in
          d\<lparr> t_keys := keep_rows (\<lambda>k r. k \<notin> dead) (t_keys d),
             t_certs := keep_rows (\<lambda>k c. k \<notin> dead) (t_certs d),
             t_ssh := tmap (\<lambda>k (c, stamp). (c\<lparr> d_key_id := drop_ref dead (d_key_id c) \<rparr>, stamp)) (t_ssh d) \<rparr>)"

definition import_key_for_merge ::
  "(bytes \<Rightarrow> string) \<Rightarrow> id_source \<Rightarrow> SshKeyRow \<Rightarrow> nat \<Rightarrow> (string \<times> nat) stmt" where
  "import_key_for_merge sha_hex ids r n d =
     (let pub = normalized_sha256_hex sha_hex (k_public_key r);
          prv = normalized_sha256_hex sha_hex (k_private_key r);
          metadata = keys_list_metadata sha_hex d;
          known = (if pub \<noteq> [] then List.find (\<lambda>m. m_public_fingerprint m = pub) metadata
                   else if prv \<noteq> [] then List.find (\<lambda>m. m_private_fingerprint m = prv) metadata else None)
      in case known of
           Some m \<Rightarrow> (Inr (m_id m, n), d)
         | None \<Rightarrow>
             (let clash = (\<exists>m \<in> set metadata. m_id m = k_id r);
                  i = (if clash then ids n else k_id r);
                  label = unique_label (k_label r) (map m_label metadata)
              in dbind (keys_upsert (r\<lparr> k_id := i, k_label := label \<rparr>))
                   (\<lambda>_. dreturn (i, if clash then n + 1 else n)) d))"

definition set_pkcs11_module_path :: "string \<Rightarrow> string \<Rightarrow> nat stmt" where
  "set_pkcs11_module_path i path =
     (let hit = (\<lambda>k (r, dead). k = i \<and> dead = None \<and> k_backend r = Pkcs11) in
      plain (\<lambda>d. tcount hit (t_keys d))
        (\<lambda>d. d\<lparr> t_keys := update_where hit
           (\<lambda>(r, dead). (r\<lparr> k_pkcs11 := (k_pkcs11 r)\<lparr> pkcs11_module_path := Some path \<rparr> \<rparr>, dead)) (t_keys d) \<rparr>))"

definition clear_stub_flag :: "string \<Rightarrow> nat stmt" where
  "clear_stub_flag i =
     (let hit = (\<lambda>k (r, dead). k = i \<and> dead = None) in
      plain (\<lambda>d. tcount hit (t_keys d))
        (\<lambda>d. d\<lparr> t_keys := update_where hit (\<lambda>(r, dead). (r\<lparr> k_imported_as_stub := False \<rparr>, dead)) (t_keys d) \<rparr>))"

definition certs_upsert :: "string \<Rightarrow> CertRecord \<Rightarrow> unit stmt" where
  "certs_upsert i c d =
     guarded (i \<in> set (hkeys (t_keys d))) ''ssh_key_certificates upsert'' FK_FAILED
       (\<lambda>d. d\<lparr> t_certs := hput i c (t_certs d) \<rparr>) d"

definition certs_delete :: "string \<Rightarrow> nat stmt" where
  "certs_delete i = plain (\<lambda>d. tcount (\<lambda>k c. k = i) (t_certs d)) (\<lambda>d. d\<lparr> t_certs := hdel i (t_certs d) \<rparr>)"

section \<open>Tags, snippets and links\<close>

definition tags_list_all :: "db \<Rightarrow> (string \<times> TagRow) list" where
  "tags_list_all d = sort_key (\<lambda>(k, g). g_name g) (keep_rows (\<lambda>k g. g_deleted_at g = None) (t_tags d))"

definition tag_name_free :: "string \<Rightarrow> string \<Rightarrow> TagRow tab \<Rightarrow> bool" where
  "tag_name_free i name t \<longleftrightarrow> list_all (\<lambda>(k, g). k = i \<or> g_deleted_at g \<noteq> None \<or> g_name g \<noteq> name) t"

definition tags_upsert :: "string \<Rightarrow> TagRow \<Rightarrow> unit stmt" where
  "tags_upsert i g d =
     guarded (tag_name_free i (g_name g) (t_tags d)) ''tags upsert'' TAG_NAME_TAKEN
       (\<lambda>d. d\<lparr> t_tags := hput i (g\<lparr>
          g_created_at := (case hget (t_tags d) i of Some old \<Rightarrow> g_created_at old | None \<Rightarrow> g_created_at g),
          g_deleted_at := None \<rparr>) (t_tags d) \<rparr>) d"

definition bury_tags :: "(string \<Rightarrow> TagRow \<Rightarrow> bool) \<Rightarrow> int \<Rightarrow> nat stmt" where
  "bury_tags which at =
     (let hit = (\<lambda>k g. which k g \<and> g_deleted_at g = None) in
      plain (\<lambda>d. tcount hit (t_tags d))
        (\<lambda>d. d\<lparr> t_tags := update_where hit (\<lambda>g. g\<lparr> g_deleted_at := Some at \<rparr>) (t_tags d) \<rparr>))"

definition tags_apply_tombstone :: "string \<Rightarrow> int \<Rightarrow> nat stmt" where
  "tags_apply_tombstone i at = bury_tags (\<lambda>k g. k = i \<and> g_created_at g < at) at"

definition tags_delete :: "string \<Rightarrow> int \<Rightarrow> nat stmt" where
  "tags_delete i now = bury_tags (\<lambda>k g. k = i) now"

definition tags_delete_all :: "int \<Rightarrow> nat stmt" where
  "tags_delete_all now = bury_tags (\<lambda>k g. True) now"

definition tags_purge_tombstones :: "int \<Rightarrow> nat stmt" where
  "tags_purge_tombstones before =
     plain (\<lambda>d. tcount (\<lambda>k g. purgeable before (g_deleted_at g)) (t_tags d))
       (\<lambda>d. let dead = fst ` {(k, g) \<in> set (t_tags d). purgeable before (g_deleted_at g)} in
          d\<lparr> t_tags := keep_rows (\<lambda>k g. k \<notin> dead) (t_tags d),
             t_session_tags := filter (\<lambda>(s, t). t \<notin> dead) (t_session_tags d),
             t_folder_tags := filter (\<lambda>(f, t). t \<notin> dead) (t_folder_tags d) \<rparr>)"

text \<open>\<open>INSERT OR IGNORE\<close>: a repeated pair is ignored; an unresolved reference still fails.\<close>

definition link_pair :: "string \<times> string \<Rightarrow> (string \<times> string) list \<Rightarrow> (string \<times> string) list" where
  "link_pair p ls = (if p \<in> set ls then ls else ls @ [p])"

definition link_session_tag :: "string \<Rightarrow> string \<Rightarrow> unit stmt" where
  "link_session_tag s t d =
     guarded (s \<in> set (hkeys (t_sessions d)) \<and> t \<in> set (hkeys (t_tags d))) ''session_tags insert'' FK_FAILED
       (\<lambda>d. d\<lparr> t_session_tags := link_pair (s, t) (t_session_tags d) \<rparr>) d"

definition link_folder_tag :: "string \<Rightarrow> string \<Rightarrow> unit stmt" where
  "link_folder_tag f t d =
     guarded (f \<in> set (hkeys (t_folders d)) \<and> t \<in> set (hkeys (t_tags d))) ''folder_tags insert'' FK_FAILED
       (\<lambda>d. d\<lparr> t_folder_tags := link_pair (f, t) (t_folder_tags d) \<rparr>) d"

definition link_session_snippet :: "string \<Rightarrow> string \<Rightarrow> unit stmt" where
  "link_session_snippet s n d =
     guarded (s \<in> set (hkeys (t_sessions d)) \<and> n \<in> set (hkeys (t_snippets d))) ''session_snippets insert'' FK_FAILED
       (\<lambda>d. d\<lparr> t_session_snippets := link_pair (s, n) (t_session_snippets d) \<rparr>) d"

definition unlink_session_tag :: "string \<Rightarrow> string \<Rightarrow> nat stmt" where
  "unlink_session_tag s t = plain (\<lambda>d. length (filter ((=) (s, t)) (t_session_tags d)))
     (\<lambda>d. d\<lparr> t_session_tags := filter ((\<noteq>) (s, t)) (t_session_tags d) \<rparr>)"

definition unlink_folder_tag :: "string \<Rightarrow> string \<Rightarrow> nat stmt" where
  "unlink_folder_tag f t = plain (\<lambda>d. length (filter ((=) (f, t)) (t_folder_tags d)))
     (\<lambda>d. d\<lparr> t_folder_tags := filter ((\<noteq>) (f, t)) (t_folder_tags d) \<rparr>)"

definition unlink_session_snippet :: "string \<Rightarrow> string \<Rightarrow> nat stmt" where
  "unlink_session_snippet s n = plain (\<lambda>d. length (filter ((=) (s, n)) (t_session_snippets d)))
     (\<lambda>d. d\<lparr> t_session_snippets := filter ((\<noteq>) (s, n)) (t_session_snippets d) \<rparr>)"

definition linked :: "string \<Rightarrow> (string \<times> string) list \<Rightarrow> string list" where
  "linked s ls = map snd (filter (\<lambda>(a, b). a = s) ls)"

definition list_for_session :: "db \<Rightarrow> string \<Rightarrow> (string \<times> TagRow) list" where
  "list_for_session d s = filter (\<lambda>(k, g). k \<in> set (linked s (t_session_tags d))) (tags_list_all d)"

definition snippets_list_all :: "db \<Rightarrow> (string \<times> SnippetRow) list" where
  "snippets_list_all d = sort_key (\<lambda>(k, n). n_title n) (keep_rows (\<lambda>k n. n_deleted_at n = None) (t_snippets d))"

definition snippets_upsert :: "string \<Rightarrow> SnippetRow \<Rightarrow> unit stmt" where
  "snippets_upsert i n = plain (\<lambda>d. ())
     (\<lambda>d. d\<lparr> t_snippets := hput i (n\<lparr>
        n_created_at := (case hget (t_snippets d) i of Some old \<Rightarrow> n_created_at old | None \<Rightarrow> n_created_at n),
        n_deleted_at := None \<rparr>) (t_snippets d) \<rparr>)"

definition snippets_apply_tombstone :: "string \<Rightarrow> int \<Rightarrow> nat stmt" where
  "snippets_apply_tombstone i at =
     (let hit = (\<lambda>k n. k = i \<and> n_updated_at n < at) in
      plain (\<lambda>d. tcount hit (t_snippets d))
        (\<lambda>d. d\<lparr> t_snippets := update_where hit (\<lambda>n. n\<lparr> n_deleted_at := Some at, n_updated_at := at \<rparr>) (t_snippets d) \<rparr>))"

definition bury_snippets :: "(string \<Rightarrow> bool) \<Rightarrow> int \<Rightarrow> nat stmt" where
  "bury_snippets which now =
     (let hit = (\<lambda>k n. which k \<and> n_deleted_at n = None) in
      plain (\<lambda>d. tcount hit (t_snippets d))
        (\<lambda>d. d\<lparr> t_snippets := update_where hit (\<lambda>n. n\<lparr> n_deleted_at := Some now \<rparr>) (t_snippets d) \<rparr>))"

definition snippets_delete :: "string \<Rightarrow> int \<Rightarrow> nat stmt" where
  "snippets_delete i now = bury_snippets (\<lambda>k. k = i) now"

definition snippets_delete_all :: "int \<Rightarrow> nat stmt" where
  "snippets_delete_all now = bury_snippets (\<lambda>k. True) now"

definition snippets_purge_tombstones :: "int \<Rightarrow> nat stmt" where
  "snippets_purge_tombstones before =
     plain (\<lambda>d. tcount (\<lambda>k n. purgeable before (n_deleted_at n)) (t_snippets d))
       (\<lambda>d. let dead = fst ` {(k, n) \<in> set (t_snippets d). purgeable before (n_deleted_at n)} in
          d\<lparr> t_snippets := keep_rows (\<lambda>k n. k \<notin> dead) (t_snippets d),
             t_session_snippets := filter (\<lambda>(s, n). n \<notin> dead) (t_session_snippets d) \<rparr>)"

end
