(* ===== verification/Db_Integrity.thy ===== *)
theory Db_Integrity
  imports Db_Dao
begin

text \<open>
  Referential integrity: what the schema promises of every reachable database (keys are unique,
  every reference resolves, live tags have distinct names) is kept by every statement of the access
  layer, also where a function runs several statements and fails in between.
\<close>

section \<open>The invariant\<close>

definition refs :: "(string \<Rightarrow> 'r \<Rightarrow> string list) \<Rightarrow> 'r tab \<Rightarrow> string set \<Rightarrow> bool" where
  "refs f t ks \<longleftrightarrow> (\<forall>(k, r) \<in> set t. set (f k r) \<subseteq> ks)"

definition opt_list :: "'a option \<Rightarrow> 'a list" where
  "opt_list x = (case x of None \<Rightarrow> [] | Some y \<Rightarrow> [y])"

definition keys_of :: "'r tab \<Rightarrow> string set" where
  "keys_of t = set (hkeys t)"

definition keys_unique :: "db \<Rightarrow> bool" where
  "keys_unique d \<longleftrightarrow> hinv (t_folders d) \<and> hinv (t_keys d) \<and> hinv (t_certs d) \<and> hinv (t_sessions d) \<and>
     hinv (t_ssh d) \<and> hinv (t_webdav d) \<and> hinv (t_s3 d) \<and> hinv (t_tags d) \<and> hinv (t_snippets d) \<and>
     hinv (t_forwards d) \<and> hinv (t_bookmarks d)"

definition folder_refs :: "db \<Rightarrow> bool" where
  "folder_refs d \<longleftrightarrow> refs (\<lambda>k f. opt_list (f_parent_id f)) (t_folders d) (keys_of (t_folders d)) \<and>
     refs (\<lambda>k s. opt_list (s_folder_id s)) (t_sessions d) (keys_of (t_folders d))"

definition session_refs :: "db \<Rightarrow> bool" where
  "session_refs d \<longleftrightarrow>
     refs (\<lambda>k r. k # opt_list (d_via_session_id (fst r))) (t_ssh d) (keys_of (t_sessions d)) \<and>
     refs (\<lambda>k x. [k]) (t_webdav d) (keys_of (t_sessions d)) \<and>
     refs (\<lambda>k x. [k]) (t_s3 d) (keys_of (t_sessions d)) \<and>
     refs (\<lambda>k p. [p_session_id p]) (t_forwards d) (keys_of (t_sessions d)) \<and>
     refs (\<lambda>k b. [b_session_id b]) (t_bookmarks d) (keys_of (t_sessions d))"

definition key_refs :: "db \<Rightarrow> bool" where
  "key_refs d \<longleftrightarrow> refs (\<lambda>k r. opt_list (d_key_id (fst r))) (t_ssh d) (keys_of (t_keys d)) \<and>
     refs (\<lambda>k c. [k]) (t_certs d) (keys_of (t_keys d))"

definition links_ok :: "(string \<times> string) list \<Rightarrow> string set \<Rightarrow> string set \<Rightarrow> bool" where
  "links_ok ls as bs \<longleftrightarrow> distinct ls \<and> set ls \<subseteq> as \<times> bs"

definition link_refs :: "db \<Rightarrow> bool" where
  "link_refs d \<longleftrightarrow> links_ok (t_session_tags d) (keys_of (t_sessions d)) (keys_of (t_tags d)) \<and>
     links_ok (t_folder_tags d) (keys_of (t_folders d)) (keys_of (t_tags d)) \<and>
     links_ok (t_session_snippets d) (keys_of (t_sessions d)) (keys_of (t_snippets d))"

definition tag_names_unique :: "TagRow tab \<Rightarrow> bool" where
  "tag_names_unique t \<longleftrightarrow> (\<forall>(k, g) \<in> set t. \<forall>(l, h) \<in> set t.
     g_deleted_at g = None \<and> g_deleted_at h = None \<and> g_name g = g_name h \<longrightarrow> k = l)"

definition db_ok :: "db \<Rightarrow> bool" where
  "db_ok d \<longleftrightarrow> keys_unique d \<and> folder_refs d \<and> session_refs d \<and> key_refs d \<and> link_refs d \<and>
     tag_names_unique (t_tags d)"

lemmas db_parts = db_ok_def keys_unique_def folder_refs_def session_refs_def key_refs_def link_refs_def

section \<open>Tables\<close>

lemma opt_list_simps [simp]: "opt_list None = []" "opt_list (Some x) = [x]"
  by (simp_all add: opt_list_def)

lemma set_opt_resolves [simp]: "set (opt_list r) \<subseteq> keys_of t \<longleftrightarrow> resolves r t"
  by (simp add: resolves_def keys_of_def split: option.splits)

lemma keys_of_hput [simp]: "keys_of (hput k v t) = insert k (keys_of t)"
  by (simp add: keys_of_def)

lemma keys_of_tmap [simp]: "keys_of (tmap f t) = keys_of t"
  by (simp add: keys_of_def)

lemma keys_of_update_where [simp]: "keys_of (update_where P f t) = keys_of t"
  by (simp add: keys_of_def)

lemma keys_of_keep: "keys_of (keep_rows P t) \<subseteq> keys_of t"
  by (auto simp: keys_of_def hkeys_def keep_rows_def)

lemma keys_of_keep_key [simp]: "keys_of (keep_rows (\<lambda>k r. P k) t) = {k \<in> keys_of t. P k}"
  by (force simp: keys_of_def hkeys_def keep_rows_def)

lemma set_hdel_minus: "set (hdel k t) \<subseteq> set t"
  by (auto simp: hdel_def AList.delete_eq)

lemma refs_mono: "refs f t ks \<Longrightarrow> ks \<subseteq> ks' \<Longrightarrow> refs f t ks'"
  by (fastforce simp: refs_def)

lemma refs_insert: "refs f t ks \<Longrightarrow> refs f t (insert k ks)"
  by (erule refs_mono) auto

lemma refs_subset: "refs f t ks \<Longrightarrow> set t' \<subseteq> set t \<Longrightarrow> refs f t' ks"
  by (fastforce simp: refs_def)

lemma refs_hput: "refs f t ks \<Longrightarrow> set (f k v) \<subseteq> ks \<Longrightarrow> refs f (hput k v t) ks"
  using set_hput_subset [of k v t] by (fastforce simp: refs_def)

lemma refs_hdel: "refs f t ks \<Longrightarrow> refs f (hdel k t) ks"
  by (erule refs_subset) (rule set_hdel_minus)

lemma refs_keep: "refs f t ks \<Longrightarrow> refs f (keep_rows P t) ks"
  by (erule refs_subset) (auto simp: keep_rows_def)

lemma refs_tmap:
  "refs f t ks \<Longrightarrow> (\<And>k r. (k, r) \<in> set t \<Longrightarrow> set (f k r) \<subseteq> ks \<Longrightarrow> set (f k (g k r)) \<subseteq> ks') \<Longrightarrow> refs f (tmap g t) ks'"
  by (fastforce simp: refs_def tmap_def)

lemma refs_update:
  "refs f t ks \<Longrightarrow> (\<And>k r. (k, r) \<in> set t \<Longrightarrow> P k r \<Longrightarrow> set (f k r) \<subseteq> ks \<Longrightarrow> set (f k (g r)) \<subseteq> ks) \<Longrightarrow>
   refs f (update_where P g t) ks"
  unfolding update_where_def by (erule refs_tmap) auto

lemma refs_same: "refs f t ks \<Longrightarrow> (\<And>k r. f k (g r) = f k r) \<Longrightarrow> refs f (update_where P g t) ks"
  by (erule refs_update) simp

lemma links_ok_mono: "links_ok ls as bs \<Longrightarrow> as \<subseteq> as' \<Longrightarrow> bs \<subseteq> bs' \<Longrightarrow> links_ok ls as' bs'"
  by (auto simp: links_ok_def)

lemma links_ok_insert1: "links_ok ls as bs \<Longrightarrow> links_ok ls (insert a as) bs"
  by (erule links_ok_mono) auto

lemma links_ok_insert2: "links_ok ls as bs \<Longrightarrow> links_ok ls as (insert b bs)"
  by (erule links_ok_mono) auto

lemma links_ok_link: "links_ok ls as bs \<Longrightarrow> a \<in> as \<Longrightarrow> b \<in> bs \<Longrightarrow> links_ok (link_pair (a, b) ls) as bs"
  by (auto simp: links_ok_def link_pair_def)

lemma links_ok_filter: "links_ok ls as bs \<Longrightarrow> links_ok (filter P ls) as bs"
  by (auto simp: links_ok_def)

lemma links_ok_restrict:
  "links_ok ls as bs \<Longrightarrow> (\<And>a b. P (a, b) \<Longrightarrow> a \<in> as \<Longrightarrow> b \<in> bs \<Longrightarrow> a \<in> as' \<and> b \<in> bs') \<Longrightarrow> links_ok (filter P ls) as' bs'"
  by (auto simp: links_ok_def)

lemmas ref_rules = refs_insert refs_hput refs_hdel refs_keep links_ok_insert1 links_ok_insert2 links_ok_link links_ok_filter

section \<open>Statements keep it\<close>

definition keeps :: "'a stmt \<Rightarrow> bool" where
  "keeps m \<longleftrightarrow> (\<forall>d. db_ok d \<longrightarrow> db_ok (snd (m d)))"

lemma keepsI: "(\<And>d. db_ok d \<Longrightarrow> db_ok (snd (m d))) \<Longrightarrow> keeps m"
  by (simp add: keeps_def)

lemma keepsD: "keeps m \<Longrightarrow> db_ok d \<Longrightarrow> db_ok (snd (m d))"
  by (simp add: keeps_def)

lemma keeps_dbind [intro]: "keeps m \<Longrightarrow> (\<And>x. keeps (k x)) \<Longrightarrow> keeps (dbind m k)"
  by (auto simp: keeps_def dbind_def split: prod.splits sum.splits)

lemma keeps_in_tx [intro]: "keeps m \<Longrightarrow> keeps (in_tx m)"
  by (auto simp: keeps_def in_tx_def split: prod.splits sum.splits)

lemma keeps_dreturn [intro, simp]: "keeps (dreturn x)"
  by (simp add: keeps_def dreturn_def)

lemma keeps_plain: "(\<And>d. db_ok d \<Longrightarrow> db_ok (f d)) \<Longrightarrow> keeps (plain v f)"
  by (simp add: keeps_def plain_def)

lemma guarded_keeps: "db_ok d \<Longrightarrow> (ok \<Longrightarrow> db_ok (f d)) \<Longrightarrow> db_ok (snd (guarded ok what why f d))"
  by (simp add: guarded_def)

text \<open>One fact per change of a table.\<close>

lemma ok_folder_put:
  "db_ok d \<Longrightarrow> resolves (f_parent_id f) (hput i f (t_folders d)) \<Longrightarrow> db_ok (d\<lparr> t_folders := hput i f (t_folders d) \<rparr>)"
  by (simp add: db_parts ref_rules flip: set_opt_resolves)

lemma refs_opt_update:
  "refs (\<lambda>k r. opt_list (h r)) t (keys_of p) \<Longrightarrow> (\<And>k r. P k r \<Longrightarrow> resolves (h (g r)) p \<or> h (g r) = h r) \<Longrightarrow>
   refs (\<lambda>k r. opt_list (h r)) (update_where P g t) (keys_of p)"
  by (erule refs_update) (metis set_opt_resolves)

lemma refs_own_opt_update:
  "refs (\<lambda>k r. k # opt_list (h r)) t (keys_of p) \<Longrightarrow> (\<And>k r. P k r \<Longrightarrow> resolves (h (g r)) p \<or> h (g r) = h r) \<Longrightarrow>
   refs (\<lambda>k r. k # opt_list (h r)) (update_where P g t) (keys_of p)"
  by (erule refs_update) (metis set_opt_resolves insert_subset list.simps(15))

lemma ok_folder_update:
  "db_ok d \<Longrightarrow> (\<And>k f. P k f \<Longrightarrow> resolves (f_parent_id (g f)) (t_folders d) \<or> f_parent_id (g f) = f_parent_id f) \<Longrightarrow>
   db_ok (d\<lparr> t_folders := update_where P g (t_folders d) \<rparr>)"
  by (simp add: db_parts refs_opt_update)

lemma ok_session_put:
  "db_ok d \<Longrightarrow> resolves (s_folder_id s) (t_folders d) \<Longrightarrow> db_ok (d\<lparr> t_sessions := hput i s (t_sessions d) \<rparr>)"
  by (simp add: db_parts ref_rules)

lemma ok_session_update:
  "db_ok d \<Longrightarrow> (\<And>k s. P k s \<Longrightarrow> resolves (s_folder_id (g s)) (t_folders d) \<or> s_folder_id (g s) = s_folder_id s) \<Longrightarrow>
   db_ok (d\<lparr> t_sessions := update_where P g (t_sessions d) \<rparr>)"
  by (simp add: db_parts refs_opt_update)

lemma ok_ssh_put:
  "db_ok d \<Longrightarrow> i \<in> keys_of (t_sessions d) \<Longrightarrow> resolves (d_key_id c) (t_keys d) \<Longrightarrow>
   resolves (d_via_session_id c) (t_sessions d) \<Longrightarrow> db_ok (d\<lparr> t_ssh := hput i (c, stamp) (t_ssh d) \<rparr>)"
  by (simp add: db_parts ref_rules)

lemma ok_ssh_update:
  "db_ok d \<Longrightarrow>
   (\<And>k r. P k r \<Longrightarrow> resolves (d_key_id (fst (g r))) (t_keys d) \<or> d_key_id (fst (g r)) = d_key_id (fst r)) \<Longrightarrow>
   (\<And>k r. P k r \<Longrightarrow> resolves (d_via_session_id (fst (g r))) (t_sessions d)
      \<or> d_via_session_id (fst (g r)) = d_via_session_id (fst r)) \<Longrightarrow>
   db_ok (d\<lparr> t_ssh := update_where P g (t_ssh d) \<rparr>)"
  by (simp add: db_parts refs_opt_update refs_own_opt_update)

lemma ok_del:
  "db_ok d \<Longrightarrow> db_ok (d\<lparr> t_ssh := hdel i (t_ssh d) \<rparr>)"
  "db_ok d \<Longrightarrow> db_ok (d\<lparr> t_webdav := hdel i (t_webdav d) \<rparr>)"
  "db_ok d \<Longrightarrow> db_ok (d\<lparr> t_s3 := hdel i (t_s3 d) \<rparr>)"
  "db_ok d \<Longrightarrow> db_ok (d\<lparr> t_certs := hdel i (t_certs d) \<rparr>)"
  by (simp_all add: db_parts ref_rules)

lemma ok_put:
  "db_ok d \<Longrightarrow> i \<in> keys_of (t_sessions d) \<Longrightarrow> db_ok (d\<lparr> t_webdav := hput i x (t_webdav d) \<rparr>)"
  "db_ok d \<Longrightarrow> i \<in> keys_of (t_sessions d) \<Longrightarrow> db_ok (d\<lparr> t_s3 := hput i y (t_s3 d) \<rparr>)"
  "db_ok d \<Longrightarrow> p_session_id p \<in> keys_of (t_sessions d) \<Longrightarrow> db_ok (d\<lparr> t_forwards := hput i p (t_forwards d) \<rparr>)"
  "db_ok d \<Longrightarrow> b_session_id b \<in> keys_of (t_sessions d) \<Longrightarrow> db_ok (d\<lparr> t_bookmarks := hput i b (t_bookmarks d) \<rparr>)"
  "db_ok d \<Longrightarrow> i \<in> keys_of (t_keys d) \<Longrightarrow> db_ok (d\<lparr> t_certs := hput i c (t_certs d) \<rparr>)"
  "db_ok d \<Longrightarrow> db_ok (d\<lparr> t_keys := hput i k (t_keys d) \<rparr>)"
  "db_ok d \<Longrightarrow> db_ok (d\<lparr> t_snippets := hput i n (t_snippets d) \<rparr>)"
  by (simp_all add: db_parts ref_rules)

lemma ok_update:
  "db_ok d \<Longrightarrow> db_ok (d\<lparr> t_webdav := update_where P f (t_webdav d) \<rparr>)"
  "db_ok d \<Longrightarrow> db_ok (d\<lparr> t_s3 := update_where P1 f1 (t_s3 d) \<rparr>)"
  "db_ok d \<Longrightarrow> (\<And>p. p_session_id (f2 p) = p_session_id p) \<Longrightarrow> db_ok (d\<lparr> t_forwards := update_where P2 f2 (t_forwards d) \<rparr>)"
  "db_ok d \<Longrightarrow> (\<And>b. b_session_id (f3 b) = b_session_id b) \<Longrightarrow> db_ok (d\<lparr> t_bookmarks := update_where P3 f3 (t_bookmarks d) \<rparr>)"
  "db_ok d \<Longrightarrow> db_ok (d\<lparr> t_keys := update_where P4 f4 (t_keys d) \<rparr>)"
  "db_ok d \<Longrightarrow> db_ok (d\<lparr> t_snippets := update_where P5 f5 (t_snippets d) \<rparr>)"
  by (simp_all add: db_parts refs_same)

lemma ok_keep:
  "db_ok d \<Longrightarrow> db_ok (d\<lparr> t_webdav := keep_rows P (t_webdav d) \<rparr>)"
  "db_ok d \<Longrightarrow> db_ok (d\<lparr> t_s3 := keep_rows P1 (t_s3 d) \<rparr>)"
  "db_ok d \<Longrightarrow> db_ok (d\<lparr> t_forwards := keep_rows P2 (t_forwards d) \<rparr>)"
  "db_ok d \<Longrightarrow> db_ok (d\<lparr> t_bookmarks := keep_rows P3 (t_bookmarks d) \<rparr>)"
  by (simp_all add: db_parts ref_rules)

lemma ok_links:
  "db_ok d \<Longrightarrow> s \<in> keys_of (t_sessions d) \<Longrightarrow> t \<in> keys_of (t_tags d) \<Longrightarrow>
     db_ok (d\<lparr> t_session_tags := link_pair (s, t) (t_session_tags d) \<rparr>)"
  "db_ok d \<Longrightarrow> f \<in> keys_of (t_folders d) \<Longrightarrow> t \<in> keys_of (t_tags d) \<Longrightarrow>
     db_ok (d\<lparr> t_folder_tags := link_pair (f, t) (t_folder_tags d) \<rparr>)"
  "db_ok d \<Longrightarrow> s \<in> keys_of (t_sessions d) \<Longrightarrow> n \<in> keys_of (t_snippets d) \<Longrightarrow>
     db_ok (d\<lparr> t_session_snippets := link_pair (s, n) (t_session_snippets d) \<rparr>)"
  "db_ok d \<Longrightarrow> db_ok (d\<lparr> t_session_tags := filter P (t_session_tags d) \<rparr>)"
  "db_ok d \<Longrightarrow> db_ok (d\<lparr> t_folder_tags := filter P (t_folder_tags d) \<rparr>)"
  "db_ok d \<Longrightarrow> db_ok (d\<lparr> t_session_snippets := filter P (t_session_snippets d) \<rparr>)"
  by (simp_all add: db_parts ref_rules)

lemma ok_known_hosts: "db_ok (d\<lparr> t_known_hosts := x \<rparr>) = db_ok d"
  by (simp add: db_parts)

lemma tag_names_uniqueI:
  "(\<And>k g l h. (k, g) \<in> set t \<Longrightarrow> (l, h) \<in> set t \<Longrightarrow> g_deleted_at g = None \<Longrightarrow> g_deleted_at h = None \<Longrightarrow>
     g_name g = g_name h \<Longrightarrow> k = l) \<Longrightarrow> tag_names_unique t"
  unfolding tag_names_unique_def by blast

lemma tag_names_uniqueD:
  "tag_names_unique t \<Longrightarrow> (k, g) \<in> set t \<Longrightarrow> (l, h) \<in> set t \<Longrightarrow> g_deleted_at g = None \<Longrightarrow> g_deleted_at h = None \<Longrightarrow>
     g_name g = g_name h \<Longrightarrow> k = l"
  unfolding tag_names_unique_def by blast

lemma tag_names_subset: "tag_names_unique t \<Longrightarrow> set t' \<subseteq> set t \<Longrightarrow> tag_names_unique t'"
  by (rule tag_names_uniqueI) (metis tag_names_uniqueD subsetD)

lemma tag_name_freeD:
  "tag_name_free i name t \<Longrightarrow> (k, g) \<in> set t \<Longrightarrow> g_deleted_at g = None \<Longrightarrow> g_name g = name \<Longrightarrow> k = i"
  by (auto simp: tag_name_free_def list_all_iff)

lemma tag_names_put:
  assumes "tag_names_unique t" and "tag_name_free i (g_name g) t"
  shows "tag_names_unique (hput i g t)"
proof (rule tag_names_uniqueI)
  fix k g' l h
  assume *: "(k, g') \<in> set (hput i g t)" "(l, h) \<in> set (hput i g t)" "g_deleted_at g' = None" "g_deleted_at h = None"
    "g_name g' = g_name h"
  then have "(k, g') = (i, g) \<or> (k, g') \<in> set t" "(l, h) = (i, g) \<or> (l, h) \<in> set t"
    using set_hput_subset [of i g t] by blast+
  then show "k = l"
    using * tag_names_uniqueD [OF assms(1)] tag_name_freeD [OF assms(2)] by (metis prod.inject)
qed

lemma tag_names_bury:
  assumes "tag_names_unique t" and "\<And>g. g_deleted_at (f g) \<noteq> None"
  shows "tag_names_unique (update_where P f t)"
proof (rule tag_names_uniqueI)
  have live: "(k, g) \<in> set t" if "(k, g) \<in> set (update_where P f t)" "g_deleted_at g = None" for k g
    using that by (auto simp: update_where_def tmap_def split: if_splits elim: assms(2) [THEN notE])
  show "k = l" if "(k, g) \<in> set (update_where P f t)" "(l, h) \<in> set (update_where P f t)" "g_deleted_at g = None"
      "g_deleted_at h = None" "g_name g = g_name h" for k g l h
    using that live tag_names_uniqueD [OF assms(1)] by blast
qed

lemma ok_tag_put:
  "db_ok d \<Longrightarrow> tag_name_free i (g_name g) (t_tags d) \<Longrightarrow> db_ok (d\<lparr> t_tags := hput i g (t_tags d) \<rparr>)"
  by (simp add: db_parts ref_rules tag_names_put)

lemma ok_tag_bury:
  "db_ok d \<Longrightarrow> (\<And>g. g_deleted_at (f g) \<noteq> None) \<Longrightarrow> db_ok (d\<lparr> t_tags := update_where P f (t_tags d) \<rparr>)"
  by (simp add: db_parts tag_names_bury)

text \<open>The physical deletes, with the actions they trigger.\<close>

lemma drop_ref_sub: "set (opt_list r) \<subseteq> ks \<Longrightarrow> set (opt_list (drop_ref dead r)) \<subseteq> {k \<in> ks. k \<notin> dead}"
  by (auto simp: drop_ref_def split: option.splits)

lemma refs_keep_key:
  "refs (\<lambda>k r. [k]) t ks \<Longrightarrow> refs (\<lambda>k r. [k]) (keep_rows (\<lambda>k r. k \<notin> dead) t) {k \<in> ks. k \<notin> dead}"
  by (auto simp: refs_def keep_rows_def)

lemma refs_keep_col:
  "refs (\<lambda>k r. [f r]) t ks \<Longrightarrow> refs (\<lambda>k r. [f r]) (keep_rows (\<lambda>k r. f r \<notin> dead) t) {k \<in> ks. k \<notin> dead}"
  by (auto simp: refs_def keep_rows_def)

lemma refs_drop:
  "refs (\<lambda>k r. opt_list (h r)) t ks \<Longrightarrow> (\<And>k r. h (g k r) = drop_ref dead (h r)) \<Longrightarrow>
   refs (\<lambda>k r. opt_list (h r)) (tmap g t) {k \<in> ks. k \<notin> dead}"
  by (erule refs_tmap) (simp add: drop_ref_sub)

lemma refs_own_drop:
  assumes "refs (\<lambda>k r. k # opt_list (h r)) t ks" and "\<And>k r. h (g k r) = drop_ref dead (h r)"
  shows "refs (\<lambda>k r. k # opt_list (h r)) (tmap g (keep_rows (\<lambda>k r. k \<notin> dead) t)) {k \<in> ks. k \<notin> dead}"
proof -
  have "k \<in> ks \<and> set (opt_list (h r)) \<subseteq> ks" if "(k, r) \<in> set t" for k r
    using assms(1) that by (auto simp: refs_def)
  then show ?thesis
    using assms(2) drop_ref_sub [of _ ks dead] by (fastforce simp: refs_def tmap_def keep_rows_def)
qed

lemma refs_col_same:
  "refs (\<lambda>k r. opt_list (h r)) t ks \<Longrightarrow> (\<And>k r. h (g k r) = h r) \<Longrightarrow> refs (\<lambda>k r. opt_list (h r)) (tmap g t) ks"
  by (erule refs_tmap) simp

lemma ok_folders_remove: "db_ok d \<Longrightarrow> db_ok (folders_remove gone d)"
proof -
  assume ok: "db_ok d"
  let ?dead = "{k \<in> keys_of (t_folders d). gone k}"
  have dead: "{k \<in> set (hkeys (t_folders d)). gone k} = ?dead" by (simp add: keys_of_def)
  have "refs (\<lambda>k f. opt_list (f_parent_id f))
      (tmap (\<lambda>k f. f\<lparr> f_parent_id := drop_ref ?dead (f_parent_id f) \<rparr>) (keep_rows (\<lambda>k f. k \<notin> ?dead) (t_folders d)))
      {k \<in> keys_of (t_folders d). k \<notin> ?dead}"
    by (rule refs_drop) (use ok in \<open>simp_all add: db_parts refs_keep\<close>)
  moreover have "refs (\<lambda>k s. opt_list (s_folder_id s))
      (tmap (\<lambda>k s. s\<lparr> s_folder_id := drop_ref ?dead (s_folder_id s) \<rparr>) (t_sessions d))
      {k \<in> keys_of (t_folders d). k \<notin> ?dead}"
    by (rule refs_drop) (use ok in \<open>simp_all add: db_parts\<close>)
  moreover have "links_ok (filter (\<lambda>(f, t). f \<notin> ?dead) (t_folder_tags d)) {k \<in> keys_of (t_folders d). k \<notin> ?dead}
      (keys_of (t_tags d))"
    by (rule links_ok_restrict [where as = "keys_of (t_folders d)" and bs = "keys_of (t_tags d)"])
      (use ok in \<open>auto simp: db_parts\<close>)
  ultimately show ?thesis
    using ok unfolding folders_remove_def Let_def dead by (simp add: db_parts)
qed

lemma ok_sessions_remove: "db_ok d \<Longrightarrow> db_ok (sessions_remove gone d)"
proof -
  assume ok: "db_ok d"
  define dead where "dead = fst ` {(k, s) \<in> set (t_sessions d). gone s}"
  let ?live = "{k \<in> keys_of (t_sessions d). k \<notin> dead}"
  have "refs (\<lambda>k r. k # opt_list (d_via_session_id (fst r)))
      (tmap (\<lambda>k (c, stamp). (c\<lparr> d_via_session_id := drop_ref dead (d_via_session_id c) \<rparr>, stamp))
        (keep_rows (\<lambda>k r. k \<notin> dead) (t_ssh d))) ?live"
    by (rule refs_own_drop) (use ok in \<open>auto simp: db_parts\<close>)
  moreover have "refs (\<lambda>k r. opt_list (d_key_id (fst r)))
      (tmap (\<lambda>k (c, stamp). (c\<lparr> d_via_session_id := drop_ref dead (d_via_session_id c) \<rparr>, stamp))
        (keep_rows (\<lambda>k r. k \<notin> dead) (t_ssh d))) (keys_of (t_keys d))"
    by (rule refs_col_same) (use ok in \<open>auto simp: db_parts refs_keep\<close>)
  moreover have "links_ok (filter (\<lambda>(s, t). s \<notin> dead) (t_session_tags d)) ?live (keys_of (t_tags d))"
    by (rule links_ok_restrict [where as = "keys_of (t_sessions d)" and bs = "keys_of (t_tags d)"])
      (use ok in \<open>simp_all add: db_parts\<close>)
  moreover have "links_ok (filter (\<lambda>(s, n). s \<notin> dead) (t_session_snippets d)) ?live (keys_of (t_snippets d))"
    by (rule links_ok_restrict [where as = "keys_of (t_sessions d)" and bs = "keys_of (t_snippets d)"])
      (use ok in \<open>simp_all add: db_parts\<close>)
  ultimately show ?thesis
    using ok unfolding sessions_remove_def Let_def dead_def [symmetric]
    by (simp add: db_parts refs_keep refs_keep_key refs_keep_col)
qed

text \<open>Every function of the access layer.\<close>

named_theorems db_keeps \<open>statements that keep the integrity of the database\<close>

lemma guarded_keepsI: "(\<And>d. db_ok d \<Longrightarrow> ok d \<Longrightarrow> db_ok (f d d)) \<Longrightarrow> keeps (\<lambda>d. guarded (ok d) what why (f d) d)"
  by (simp add: keeps_def guarded_def)

lemma keeps_folders_upsert [db_keeps]: "keeps (folders_upsert i f)"
  by (rule keepsI) (simp add: folders_upsert_def guarded_def ok_folder_put)

lemma keeps_ensure_segments: "db_ok d \<Longrightarrow> db_ok (snd (ensure_segments now ids segs by_parent parent n d))"
  using keepsD [OF keeps_folders_upsert]
  by (induction now ids segs by_parent parent n d rule: ensure_segments.induct)
     (auto simp: Let_def split: option.splits prod.splits sum.splits, metis snd_conv, metis snd_conv)

lemma keeps_ensure_folder_path [db_keeps]: "keeps (ensure_folder_path ids path now n)"
  by (rule keepsI) (simp add: ensure_folder_path_def keeps_ensure_segments)

lemma update_where_none: "tcount P t = 0 \<Longrightarrow> update_where P f t = t"
  by (auto simp: tcount_def update_where_def tmap_def filter_empty_conv intro!: map_idI)

lemma keeps_set_name_parent [db_keeps]: "keeps (set_name_parent i name parent)"
  by (rule keepsI) (auto simp: set_name_parent_def Let_def update_where_none intro: ok_folder_update)

lemma keeps_folder_ops [db_keeps]:
  "keeps (folders_delete i)" "keeps folders_delete_all" "keeps (toggle_collapsed i)" "keeps (delete_recursive i)"
  "keeps (resolve_or_create_path ids path now n)"
  by (simp_all add: folders_delete_def folders_delete_all_def toggle_collapsed_def resolve_or_create_path_def
      keeps_plain ok_folders_remove ok_folder_update keeps_in_tx keeps_ensure_folder_path)
    (simp add: keeps_def delete_recursive_def Let_def ok_folders_remove)

lemma keeps_update_name_parent [db_keeps]: "keeps (update_name_parent i name parent)"
  using keepsD [OF keeps_set_name_parent]
  by (auto simp: keeps_def update_name_parent_def split: option.splits sum.splits bool.splits)

lemma keeps_rename_path_cascade [db_keeps]: "keeps (rename_path_cascade ids old_path new_path now n)"
proof -
  have "keeps (in_tx (rename_folder ids i segs now n))" for i segs
    unfolding rename_folder_def by (intro keeps_in_tx keeps_dbind) (auto intro: db_keeps split: prod.splits)
  then show ?thesis by (auto simp: keeps_def rename_path_cascade_def split: option.splits)
qed

lemma keeps_session_ops [db_keeps]:
  "keeps (upsert_slim r)" "keeps (upsert_ssh_details r)" "keeps (delete_ssh_details i)" "keeps (delete_webdav_details i)"
  "keeps (delete_s3_details i)" "keeps (soft_delete_sessions which now)" "keeps (sessions_apply_tombstone i at)"
  "keeps (sessions_purge_tombstones before)"
  by (simp_all add: keeps_def upsert_slim_def upsert_ssh_details_def delete_ssh_details_def delete_webdav_details_def
      delete_s3_details_def soft_delete_sessions_def sessions_apply_tombstone_def sessions_purge_tombstones_def
      guarded_def plain_def Let_def ok_session_put ok_ssh_put ok_del ok_session_update ok_sessions_remove
      slim_of_def keys_of_def)

lemma keeps_sessions_upsert [db_keeps]: "keeps (sessions_upsert r)" "keeps (upsert_in_tx r)"
  unfolding upsert_in_tx_def sessions_upsert_def Let_def
  by (intro keeps_in_tx keeps_dbind; auto intro: db_keeps)+

lemma keeps_move_sessions [db_keeps]: "keeps (move_sessions what which folder now)"
  by (rule keepsI) (auto simp: move_sessions_def Let_def update_where_none intro: ok_session_update)

lemma keeps_stamp_session: "db_ok d \<Longrightarrow> db_ok (stamp_session i now d)"
  by (simp add: stamp_session_def ok_session_update)

lemma keeps_metadata [db_keeps]: "keeps (metadata_slim m)" "keeps (metadata_ssh m)"
  by (rule keepsI, auto simp: metadata_slim_def Let_def update_where_none intro: ok_session_update)
     (rule keepsI, auto simp: metadata_ssh_def guarded_def keep_credentials_def intro!: ok_ssh_update split: prod.splits)

lemma keeps_update_metadata [db_keeps]: "keeps (update_metadata m)"
  unfolding update_metadata_def
proof (intro keeps_dbind keepsI)
  fix n :: nat and d assume ok: "db_ok d"
  have "keeps (dbind (metadata_ssh m) (\<lambda>_. dreturn n))" by (intro keeps_dbind keeps_metadata keeps_dreturn)
  then show "db_ok (snd (if n = 0 then (Inr 0, d) else if hget (t_ssh d) (r_id m) = None then (Inr n, d)
      else dbind (metadata_ssh m) (\<lambda>_. dreturn n) d))"
    using ok keepsD by auto
qed (simp add: keeps_metadata [THEN keepsD])

lemma set_slot_refs:
  "set_slot slot v = Some f \<Longrightarrow> d_key_id (f c) = d_key_id c \<and> d_via_session_id (f c) = d_via_session_id c"
  by (auto simp: set_slot_def split: if_splits)

lemma keeps_set_secret_column [db_keeps]: "keeps (set_secret_column i slot v now)"
proof (rule keepsI)
  fix d assume ok: "db_ok d"
  have "db_ok (d\<lparr> t_ssh := update_where (\<lambda>k c. k = i) (\<lambda>(c, stamp). (f c, now)) (t_ssh d) \<rparr>)"
    if "set_slot slot v = Some f" for f
    by (rule ok_ssh_update) (use ok set_slot_refs [OF that] in \<open>auto split: prod.splits\<close>)
  then show "db_ok (snd (set_secret_column i slot v now d))"
    using ok by (auto simp: set_secret_column_def keeps_stamp_session split: option.splits)
qed

lemma keeps_transport_ops [db_keeps]:
  "keeps (webdav_upsert_with_stamp i c stamp)" "keeps (s3_upsert_with_stamp i c' stamp)"
  "keeps (webdav_set_password i v now)" "keeps (s3_set_secret_access_key i v now)"
  "keeps (webdav_delete i now)" "keeps (webdav_delete_all now)" "keeps (webdav_apply_tombstone i at)"
  "keeps (webdav_purge_tombstones before)"
  "keeps (s3_delete i now)" "keeps (s3_delete_all now)" "keeps (s3_apply_tombstone i at)" "keeps (s3_purge_tombstones before)"
  by (simp_all add: keeps_def webdav_upsert_with_stamp_def s3_upsert_with_stamp_def webdav_set_password_def
      s3_set_secret_access_key_def webdav_delete_def webdav_delete_all_def webdav_apply_tombstone_def
      webdav_purge_tombstones_def s3_delete_def s3_delete_all_def s3_apply_tombstone_def s3_purge_tombstones_def
      transport_upsert_def transport_set_secret_def transport_bury_def transport_tombstone_def plain_def guarded_def
      ok_put ok_update ok_keep keeps_stamp_session keys_of_def split: option.splits)

lemma keeps_child_ops [db_keeps]:
  "keeps (forwards_upsert_with_stamp i p stamp)" "keeps (bury_forwards which now)" "keeps (forwards_apply_tombstone i at)"
  "keeps (forwards_purge_tombstones before)" "keeps (bookmarks_upsert i b)" "keeps (bury_bookmarks which now)"
  "keeps (bookmarks_apply_tombstone i at)" "keeps (bookmarks_purge_tombstones before)"
  by (simp_all add: keeps_def forwards_upsert_with_stamp_def bury_forwards_def forwards_apply_tombstone_def
      forwards_purge_tombstones_def bookmarks_upsert_def bury_bookmarks_def bookmarks_apply_tombstone_def
      bookmarks_purge_tombstones_def plain_def guarded_def Let_def ok_put ok_update ok_keep keys_of_def)

lemma ok_bury_keys: "db_ok d \<Longrightarrow> db_ok (bury_keys which now d)"
  by (simp add: bury_keys_def ok_update)

lemma ok_put_keys: "db_ok d \<Longrightarrow> db_ok (fold (\<lambda>r d. d\<lparr> t_keys := hput (k_id r) (r, None) (t_keys d) \<rparr>) rows d)"
  by (induction rows arbitrary: d) (simp_all add: ok_put)

lemma keeps_key_ops [db_keeps]:
  "keeps (keys_upsert r)" "keeps (keys_apply_tombstone i at)" "keeps (keys_delete i now)" "keeps (keys_replace_all rows now)"
  "keeps (set_pkcs11_module_path i path)" "keeps (clear_stub_flag i)" "keeps (certs_upsert i c)" "keeps (certs_delete i)"
  by (simp_all add: keeps_def keys_upsert_def keys_apply_tombstone_def keys_delete_def keys_replace_all_def
      set_pkcs11_module_path_def clear_stub_flag_def certs_upsert_def certs_delete_def plain_def guarded_def Let_def
      ok_put ok_update ok_del ok_bury_keys ok_put_keys keys_of_def)

lemma keeps_import_key_for_merge [db_keeps]: "keeps (import_key_for_merge sha_hex ids r n)"
proof -
  have "keeps (dbind (keys_upsert r') (\<lambda>_. dreturn x))" for r' and x :: "string \<times> nat"
    by (intro keeps_dbind db_keeps keeps_dreturn)
  then show ?thesis by (auto simp: keeps_def import_key_for_merge_def Let_def split: option.splits)
qed

lemma ok_tag_keep:
  assumes ok: "db_ok d"
  shows "db_ok (d\<lparr> t_tags := keep_rows (\<lambda>k g. k \<notin> dead) (t_tags d),
    t_session_tags := filter (\<lambda>(s, t). t \<notin> dead) (t_session_tags d),
    t_folder_tags := filter (\<lambda>(f, t). t \<notin> dead) (t_folder_tags d) \<rparr>)"
proof -
  have "links_ok (filter (\<lambda>(s, t). t \<notin> dead) ls) as {k \<in> bs. k \<notin> dead}" if "links_ok ls as bs" for ls as bs
    using that by (auto simp: links_ok_def)
  moreover have "tag_names_unique (keep_rows (\<lambda>k g. k \<notin> dead) (t_tags d))"
    by (rule tag_names_subset [of "t_tags d"]) (use ok in \<open>auto simp: db_ok_def keep_rows_def\<close>)
  ultimately show ?thesis using ok by (simp add: db_parts)
qed

lemma ok_snippet_keep:
  assumes ok: "db_ok d"
  shows "db_ok (d\<lparr> t_snippets := keep_rows (\<lambda>k n. k \<notin> dead) (t_snippets d),
    t_session_snippets := filter (\<lambda>(s, n). n \<notin> dead) (t_session_snippets d) \<rparr>)"
proof -
  have "links_ok (filter (\<lambda>(s, t). t \<notin> dead) ls) as {k \<in> bs. k \<notin> dead}" if "links_ok ls as bs" for ls as bs
    using that by (auto simp: links_ok_def)
  then show ?thesis using ok by (simp add: db_parts)
qed

lemma keeps_tag_ops [db_keeps]:
  "keeps (tags_upsert i g)" "keeps (bury_tags which' at)" "keeps (tags_purge_tombstones before)"
  "keeps (snippets_upsert i n)" "keeps (snippets_apply_tombstone i at)" "keeps (bury_snippets which now)"
  "keeps (snippets_purge_tombstones before)"
  "keeps (link_session_tag s t)" "keeps (link_folder_tag f t)" "keeps (link_session_snippet s m)"
  "keeps (unlink_session_tag s t)" "keeps (unlink_folder_tag f t)" "keeps (unlink_session_snippet s m)"
  by (simp_all add: keeps_def tags_upsert_def bury_tags_def tags_purge_tombstones_def snippets_upsert_def
      snippets_apply_tombstone_def bury_snippets_def snippets_purge_tombstones_def link_session_tag_def
      link_folder_tag_def link_session_snippet_def unlink_session_tag_def unlink_folder_tag_def
      unlink_session_snippet_def plain_def guarded_def Let_def ok_tag_put ok_tag_bury ok_tag_keep ok_snippet_keep
      ok_put ok_update ok_links keys_of_def)

lemma keeps_purge_keys [db_keeps]: "keeps (keys_purge_tombstones before)"
proof (rule keepsI)
  fix d assume ok: "db_ok d"
  define dead where "dead = fst ` {(k, r, at) \<in> set (t_keys d). purgeable before at}"
  let ?live = "{k \<in> keys_of (t_keys d). k \<notin> dead}"
  let ?drop = "\<lambda>k (c, stamp). (c\<lparr> d_key_id := drop_ref dead (d_key_id c) \<rparr>, stamp :: int)"
  have "refs (\<lambda>k r. opt_list (d_key_id (fst r))) (tmap ?drop (t_ssh d)) ?live"
    by (rule refs_drop) (use ok in \<open>auto simp: db_parts\<close>)
  moreover have "refs (\<lambda>k r. k # opt_list (d_via_session_id (fst r))) (tmap ?drop (t_ssh d)) (keys_of (t_sessions d))"
    by (rule refs_tmap [where ks = "keys_of (t_sessions d)"]) (use ok in \<open>auto simp: db_parts\<close>)
  ultimately show "db_ok (snd (keys_purge_tombstones before d))"
    using ok unfolding keys_purge_tombstones_def plain_def Let_def dead_def [symmetric]
    by (simp add: db_parts refs_keep_key)
qed

lemma hkeys_copy_row: "hget t src \<noteq> None \<Longrightarrow> set (hkeys (copy_row src new f t)) = insert new (set (hkeys t))"
  by (auto simp: copy_row_def split: option.splits)

lemma keeps_duplicate_slim [db_keeps]: "keeps (duplicate_slim src new label folder now)"
  by (rule keepsI) (auto simp: duplicate_slim_def guarded_def intro: ok_session_put split: option.splits)

text \<open>The copied detail rows refer to the new session, which the first statement has inserted.\<close>

definition has_session :: "string \<Rightarrow> db \<Rightarrow> bool" where
  "has_session i d \<longleftrightarrow> db_ok d \<and> i \<in> keys_of (t_sessions d)"

lemma hget_set: "hget t k = Some r \<Longrightarrow> (k, r) \<in> set t"
  by (simp add: hget_def map_of_SomeD)

lemma copy_ssh_ok:
  assumes "has_session new d"
  shows "has_session new (d\<lparr> t_ssh := copy_row src new (\<lambda>(c, stamp). (c, now)) (t_ssh d) \<rparr>)"
proof (cases "hget (t_ssh d) src")
  case (Some r)
  then have "set (opt_list (d_key_id (fst r))) \<subseteq> keys_of (t_keys d)"
      "set (opt_list (d_via_session_id (fst r))) \<subseteq> keys_of (t_sessions d)"
    using assms hget_set [OF Some] by (auto simp: has_session_def db_parts refs_def)
  then show ?thesis
    using assms Some by (cases r) (simp add: has_session_def copy_row_def ok_ssh_put)
qed (use assms in \<open>simp add: has_session_def copy_row_def\<close>)

lemma copy_transport_ok:
  "has_session new d \<Longrightarrow> has_session new (d\<lparr> t_webdav := copy_row src new f (t_webdav d) \<rparr>)"
  "has_session new d \<Longrightarrow> has_session new (d\<lparr> t_s3 := copy_row src new g (t_s3 d) \<rparr>)"
  by (auto simp: has_session_def copy_row_def ok_put split: option.splits)

lemma dbind_inv:
  "P d \<Longrightarrow> (\<And>d. P d \<Longrightarrow> P (snd (m d))) \<Longrightarrow> (\<And>x d. P d \<Longrightarrow> P (snd (k x d))) \<Longrightarrow> P (snd (dbind m k d))"
  by (cases "m d") (auto simp: dbind_def split: sum.splits, (metis snd_conv)+)

lemma duplicate_detail_inv: "P d \<Longrightarrow> (P d \<Longrightarrow> P (f d)) \<Longrightarrow> P (snd (duplicate_detail taken table f d))"
  by (simp add: duplicate_detail_def guarded_def)

lemma keeps_duplicate_session [db_keeps]: "keeps (duplicate_session src new label folder now)"
proof (rule keepsI)
  fix d assume ok: "db_ok d"
  let ?rest = "\<lambda>u. dbind (\<lambda>d. duplicate_detail (detail_taken src new (t_ssh d)) ''ssh_session_details''
              (\<lambda>d. d\<lparr> t_ssh := copy_row src new (\<lambda>(c, stamp). (c, now)) (t_ssh d) \<rparr>) d) (\<lambda>_.
     dbind (\<lambda>d. duplicate_detail (detail_taken src new (t_webdav d)) ''webdav_session_details''
              (\<lambda>d. d\<lparr> t_webdav := copy_row src new (copy_transport now) (t_webdav d) \<rparr>) d) (\<lambda>_ d.
       duplicate_detail (detail_taken src new (t_s3 d)) ''s3_session_details''
              (\<lambda>d. d\<lparr> t_s3 := copy_row src new (copy_transport now) (t_s3 d) \<rparr>) d))"
  have rest: "has_session new (snd (?rest u d'))" if "has_session new d'" for u :: unit and d'
    by (intro dbind_inv [where P = "has_session new"] duplicate_detail_inv [where P = "has_session new"] that
        copy_ssh_ok copy_transport_ok)
  obtain r d' where r: "duplicate_slim src new label folder now d = (r, d')" by fastforce
  have ok': "db_ok d'" using keepsD [OF keeps_duplicate_slim ok, of src new label folder now] r by simp
  show "db_ok (snd (duplicate_session src new label folder now d))"
  proof (cases r)
    case (Inr u)
    then have "has_session new d'"
      using r ok' by (auto simp: has_session_def duplicate_slim_def guarded_def split: option.splits if_splits)
    then show ?thesis using r Inr rest by (simp add: duplicate_session_def dbind_def has_session_def)
  qed (use r ok' in \<open>simp add: duplicate_session_def dbind_def\<close>)
qed

lemma keeps_restore: "db_ok d \<Longrightarrow> db_ok (snd (restore_rows ids now rows n d))"
    "db_ok d \<Longrightarrow> db_ok (snd (restore_folders ids now ps n d))"
proof -
  have "keeps (restore_rows ids now rows n)" for n
  proof (induction rows arbitrary: n)
    case (Cons p rows)
    obtain r path where "p = (r, path)" by fastforce
    then have "restore_rows ids now (p # rows) n = dbind (ensure_folder_path ids path now n)
        (\<lambda>(folder, n'). dbind (sessions_upsert (r\<lparr> r_folder_id := folder \<rparr>)) (\<lambda>_. restore_rows ids now rows n'))"
      by auto
    then show ?case using Cons.IH by (auto intro!: keeps_dbind db_keeps split: prod.splits)
  qed (simp add: keeps_def)
  then show "db_ok d \<Longrightarrow> db_ok (snd (restore_rows ids now rows n d))" by (rule keepsD)
  have "keeps (restore_folders ids now ps n)" for n
  proof (induction ps arbitrary: n)
    case (Cons p ps)
    have "restore_folders ids now (p # ps) n = dbind (ensure_folder_path ids p now n)
        (\<lambda>(folder, n'). restore_folders ids now ps n')" by auto
    then show ?case using Cons.IH by (auto intro!: keeps_dbind db_keeps split: prod.splits)
  qed (simp add: keeps_def)
  then show "db_ok d \<Longrightarrow> db_ok (snd (restore_folders ids now ps n d))" by (rule keepsD)
qed

lemma keeps_restore_snapshot [db_keeps]: "keeps (restore_snapshot ids rows es now clock n)"
  unfolding restore_snapshot_def sessions_delete_all_def
  by (intro keeps_in_tx keeps_dbind db_keeps keepsI keeps_restore)

lemma keeps_duplicate_with_path [db_keeps]: "keeps (duplicate_with_path ids src path now n)"
proof (rule keepsI)
  fix d assume ok: "db_ok d"
  have "keeps (in_tx (dbind (ensure_folder_path ids path now n) (\<lambda>(folder, n').
      dbind (duplicate_session src (ids n') label folder now) (\<lambda>_. dreturn (ids n', n' + 1)))))" for label
    by (intro keeps_in_tx keeps_dbind) (auto intro!: keeps_dbind db_keeps split: prod.splits)
  then show "db_ok (snd (duplicate_with_path ids src path now n d))"
    using ok by (auto simp: duplicate_with_path_def keeps_def split: option.splits)
qed

section \<open>Every history of calls\<close>

text \<open>One call of the access layer that writes.\<close>

inductive dao_step :: "db \<Rightarrow> db \<Rightarrow> bool" where
  "dao_step d (snd (folders_upsert i f d))"
| "dao_step d (snd (folders_delete i d))"
| "dao_step d (snd (folders_delete_all d))"
| "dao_step d (snd (resolve_or_create_path ids path now n d))"
| "dao_step d (snd (toggle_collapsed i d))"
| "dao_step d (snd (update_name_parent i name parent d))"
| "dao_step d (snd (rename_path_cascade ids old_path new_path now n d))"
| "dao_step d (snd (delete_recursive i d))"
| "dao_step d (snd (sessions_upsert r d))"
| "dao_step d (snd (upsert_in_tx r d))"
| "dao_step d (snd (sessions_delete i now d))"
| "dao_step d (snd (sessions_delete_multiple is now d))"
| "dao_step d (snd (sessions_delete_all now d))"
| "dao_step d (snd (sessions_apply_tombstone i now d))"
| "dao_step d (snd (sessions_purge_tombstones before d))"
| "dao_step d (snd (move_to_folder i folder now d))"
| "dao_step d (snd (move_multiple is folder now d))"
| "dao_step d (snd (update_metadata r d))"
| "dao_step d (snd (set_secret_column i slot v now d))"
| "dao_step d (snd (duplicate_session_in_tx src new label folder now d))"
| "dao_step d (snd (duplicate_with_path ids src path now n d))"
| "dao_step d (snd (restore_snapshot ids rows paths now clock n d))"
| "dao_step d (snd (webdav_upsert_with_stamp i w now d))"
| "dao_step d (snd (webdav_set_password i v now d))"
| "dao_step d (snd (webdav_delete i now d))"
| "dao_step d (snd (webdav_delete_all now d))"
| "dao_step d (snd (webdav_apply_tombstone i now d))"
| "dao_step d (snd (webdav_purge_tombstones before d))"
| "dao_step d (snd (s3_upsert_with_stamp i x now d))"
| "dao_step d (snd (s3_set_secret_access_key i v now d))"
| "dao_step d (snd (s3_delete i now d))"
| "dao_step d (snd (s3_delete_all now d))"
| "dao_step d (snd (s3_apply_tombstone i now d))"
| "dao_step d (snd (s3_purge_tombstones before d))"
| "dao_step d (snd (forwards_upsert_with_stamp i p now d))"
| "dao_step d (snd (forwards_delete i now d))"
| "dao_step d (snd (forwards_delete_all now d))"
| "dao_step d (snd (forwards_apply_tombstone i now d))"
| "dao_step d (snd (forwards_purge_tombstones before d))"
| "dao_step d (snd (bookmarks_upsert i b d))"
| "dao_step d (snd (bookmarks_delete i now d))"
| "dao_step d (snd (bookmarks_delete_all now d))"
| "dao_step d (snd (bookmarks_apply_tombstone i now d))"
| "dao_step d (snd (bookmarks_purge_tombstones before d))"
| "dao_step d (snd (keys_upsert k d))"
| "dao_step d (snd (keys_delete i now d))"
| "dao_step d (snd (keys_replace_all ks now d))"
| "dao_step d (snd (keys_apply_tombstone i now d))"
| "dao_step d (snd (keys_purge_tombstones before d))"
| "dao_step d (snd (import_key_for_merge sha_hex ids k n d))"
| "dao_step d (snd (set_pkcs11_module_path i path d))"
| "dao_step d (snd (clear_stub_flag i d))"
| "dao_step d (snd (certs_upsert i c d))"
| "dao_step d (snd (certs_delete i d))"
| "dao_step d (snd (tags_upsert i g d))"
| "dao_step d (snd (tags_delete i now d))"
| "dao_step d (snd (tags_delete_all now d))"
| "dao_step d (snd (tags_apply_tombstone i now d))"
| "dao_step d (snd (tags_purge_tombstones before d))"
| "dao_step d (snd (snippets_upsert i m d))"
| "dao_step d (snd (snippets_delete i now d))"
| "dao_step d (snd (snippets_delete_all now d))"
| "dao_step d (snd (snippets_apply_tombstone i now d))"
| "dao_step d (snd (snippets_purge_tombstones before d))"
| "dao_step d (snd (link_session_tag s t d))"
| "dao_step d (snd (link_folder_tag f' t d))"
| "dao_step d (snd (link_session_snippet s t d))"
| "dao_step d (snd (unlink_session_tag s t d))"
| "dao_step d (snd (unlink_folder_tag f' t d))"
| "dao_step d (snd (unlink_session_snippet s t d))"

lemmas dao_wrappers = sessions_delete_def sessions_delete_multiple_def sessions_delete_all_def move_to_folder_def
  move_multiple_def duplicate_session_in_tx_def forwards_delete_def forwards_delete_all_def bookmarks_delete_def
  bookmarks_delete_all_def tags_delete_def tags_delete_all_def tags_apply_tombstone_def snippets_delete_def
  snippets_delete_all_def

lemma keeps_wrappers [db_keeps]:
  "keeps (sessions_delete i now)" "keeps (sessions_delete_multiple is now)" "keeps (sessions_delete_all now)"
  "keeps (move_to_folder i folder now)" "keeps (move_multiple is folder now)"
  "keeps (duplicate_session_in_tx src new label folder now)" "keeps (forwards_delete i now)"
  "keeps (forwards_delete_all now)" "keeps (bookmarks_delete i now)" "keeps (bookmarks_delete_all now)"
  "keeps (tags_delete i now)" "keeps (tags_delete_all now)" "keeps (tags_apply_tombstone i now)"
  "keeps (snippets_delete i now)" "keeps (snippets_delete_all now)"
  by (auto simp: dao_wrappers intro!: keeps_in_tx db_keeps)

lemma dao_step_ok: "dao_step d d' \<Longrightarrow> db_ok d \<Longrightarrow> db_ok d'"
  by (induction rule: dao_step.induct) (erule keepsD [rotated], rule db_keeps)+

lemma empty_db_ok: "db_ok empty_db"
  by (simp add: db_parts empty_db_def refs_def links_ok_def tag_names_unique_def hinv_def hkeys_def)

text \<open>
  C2. Whatever sequence of calls the application makes, starting from a fresh database, keys stay unique,
  every reference resolves, joins hold each pair once and no two live tags share a name: the failures in
  the middle of a call leave no dangling row.
\<close>

theorem database_integrity: "dao_step\<^sup>*\<^sup>* empty_db d \<Longrightarrow> db_ok d"
  by (induction rule: rtranclp_induct) (auto simp: empty_db_ok intro: dao_step_ok)


text \<open>A folder is stored, then a session in it.\<close>

definition desk_folder :: DbFolder where
  "desk_folder = \<lparr> f_name = ''desk'', f_parent_id = None, f_sort_order = 0, f_collapsed = False, f_created_at = 0 \<rparr>"

definition desk_session :: SessionRow where
  "desk_session = \<lparr> r_id = ''s'', r_label = ''host'', r_folder_id = Some ''f'', r_kind = ''ssh'', r_ssh = ssh_absent,
     r_sort_order = 0, r_notes = [], r_last_connected_at = None, r_extras = ''{}'', r_created_at = 1, r_updated_at = 1 \<rparr>"

definition desk_db :: db where
  "desk_db = snd (sessions_upsert desk_session (snd (folders_upsert ''f'' desk_folder empty_db)))"

theorem database_integrity_witness: "db_ok desk_db \<and> keys_of (t_ssh desk_db) = {''s''}"
proof
  have "dao_step\<^sup>*\<^sup>* empty_db (snd (folders_upsert ''f'' desk_folder empty_db))"
    by (rule r_into_rtranclp) (rule dao_step.intros)
  moreover have "dao_step (snd (folders_upsert ''f'' desk_folder empty_db)) desk_db"
    unfolding desk_db_def by (rule dao_step.intros)
  ultimately have "dao_step\<^sup>*\<^sup>* empty_db desk_db" by (rule rtranclp.rtrancl_into_rtrancl)
  then show "db_ok desk_db" by (rule database_integrity)
qed (simp add: desk_db_def desk_session_def desk_folder_def empty_db_def folders_upsert_def sessions_upsert_def dbind_def
   upsert_slim_def upsert_ssh_details_def delete_webdav_details_def delete_s3_details_def plain_def guarded_def resolves_def
   normalise_kind_def ssh_absent_def slim_of_def hput_def hkeys_def hget_def hdel_def keys_of_def Let_def)

end
