(* ===== verification/Db_Folders.thy ===== *)
theory Db_Folders
  imports Db_Integrity
begin

text \<open>
  The folder tree in the database: renames and moves keep it acyclic, and the recursive delete
  removes exactly the subtree.
\<close>

section \<open>The parent relation\<close>

definition parent_rel :: "DbFolder tab \<Rightarrow> (string \<times> string) set" where
  "parent_rel t = {(k, p). Option.bind (hget t k) f_parent_id = Some p}"

lemma parent_rel_put:
  "parent_rel (hput i f t) \<subseteq> (case f_parent_id f of None \<Rightarrow> parent_rel t | Some p \<Rightarrow> insert (i, p) (parent_rel t))"
  by (auto simp: parent_rel_def split: option.splits if_splits)

lemma parent_rel_update:
  "parent_rel (update_where (\<lambda>k f. k = i) g t)
     \<subseteq> parent_rel t \<union> {(i, p) | p. \<exists>f. hget t i = Some f \<and> f_parent_id (g f) = Some p}"
  by (auto simp: parent_rel_def hget_update_where split: option.splits if_splits bind_splits)

lemma no_parent_reach: "Option.bind (hget t x) f_parent_id = None \<Longrightarrow> (x, a) \<in> (parent_rel t)\<^sup>* \<Longrightarrow> x = a"
  by (erule converse_rtranclE) (auto simp: parent_rel_def)

lemma descends_False:
  "descends n t x a = Inr False \<Longrightarrow> x = Some i \<Longrightarrow> (i, a) \<notin> (parent_rel t)\<^sup>*"
proof (induction n t x a arbitrary: i rule: descends.induct)
  case (3 n t j a)
  then have ne: "j \<noteq> a" and rest: "descends n t (Option.bind (hget t j) f_parent_id) a = Inr False"
    by (auto split: if_splits)
  show ?case
  proof
    assume "(i, a) \<in> (parent_rel t)\<^sup>*"
    then obtain p where "(j, p) \<in> parent_rel t" "(p, a) \<in> (parent_rel t)\<^sup>*"
      using ne 3 by (auto elim: converse_rtranclE)
    then show False using 3 ne rest by (auto simp: parent_rel_def)
  qed
qed auto

lemma is_descendant_False:
  "is_descendant_of d x a = Inr False \<Longrightarrow> (x, a) \<notin> (parent_rel (t_folders d))\<^sup>*"
  unfolding is_descendant_of_def by (erule descends_False) simp

section \<open>Moves\<close>

abbreviation tree_ok :: "db \<Rightarrow> bool" where
  "tree_ok d \<equiv> acyclic (parent_rel (t_folders d))"

lemma set_name_parent_tree:
  assumes "tree_ok d" and "case parent of None \<Rightarrow> True | Some p \<Rightarrow> (p, i) \<notin> (parent_rel (t_folders d))\<^sup>*"
  shows "tree_ok (snd (set_name_parent i name parent d))"
proof -
  let ?t = "update_where (\<lambda>k f. k = i) (\<lambda>f. f\<lparr> f_name := name, f_parent_id := parent \<rparr>) (t_folders d)"
  have "parent_rel ?t \<subseteq> (case parent of None \<Rightarrow> parent_rel (t_folders d) | Some p \<Rightarrow> insert (i, p) (parent_rel (t_folders d)))"
    using parent_rel_update [of i "\<lambda>f. f\<lparr> f_name := name, f_parent_id := parent \<rparr>" "t_folders d"]
    by (auto split: option.splits)
  moreover have "acyclic (case parent of None \<Rightarrow> parent_rel (t_folders d) | Some p \<Rightarrow> insert (i, p) (parent_rel (t_folders d)))"
    using assms by (auto simp: acyclic_insert split: option.splits)
  ultimately have "acyclic (parent_rel ?t)" by (rule acyclic_subset [rotated])
  then show ?thesis using assms(1) by (simp add: set_name_parent_def Let_def)
qed

lemma update_name_parent_tree: "tree_ok d \<Longrightarrow> tree_ok (snd (update_name_parent i name parent d))"
  by (auto simp: update_name_parent_def set_name_parent_tree split: option.splits sum.splits bool.splits
      dest: is_descendant_False)

text \<open>The random ids are new: none is a key and none is drawn twice.\<close>

definition fresh_ids :: "id_source \<Rightarrow> nat \<Rightarrow> db \<Rightarrow> bool" where
  "fresh_ids ids n d \<longleftrightarrow> inj ids \<and> (\<forall>m \<ge> n. ids m \<notin> keys_of (t_folders d))"

lemma parent_key:
  assumes "db_ok d" and "(k, p) \<in> parent_rel (t_folders d)"
  shows "p \<in> keys_of (t_folders d)"
proof -
  obtain f where "hget (t_folders d) k = Some f" "f_parent_id f = Some p"
    using assms(2) by (auto simp: parent_rel_def split: bind_splits)
  then have "(k, f) \<in> set (t_folders d)" "f_parent_id f = Some p" by (auto simp: hget_def dest: map_of_SomeD)
  moreover have "refs (\<lambda>k f. opt_list (f_parent_id f)) (t_folders d) (keys_of (t_folders d))"
    using assms(1) by (simp add: db_parts)
  ultimately have "resolves (Some p) (t_folders d)" by (force simp: refs_def)
  then show ?thesis by (simp add: resolves_def keys_of_def)
qed

lemma unreferenced:
  "db_ok d \<Longrightarrow> i \<notin> keys_of (t_folders d) \<Longrightarrow> p \<noteq> i \<Longrightarrow> (p, i) \<notin> (parent_rel (t_folders d))\<^sup>*"
  by (meson parent_key rtranclE)

lemma folders_upsert_tree:
  assumes "db_ok d" "tree_ok d" and "i \<notin> keys_of (t_folders d)" and "f_parent_id f \<noteq> Some i"
  shows "tree_ok (snd (folders_upsert i f d))"
proof -
  have "acyclic (case f_parent_id f of None \<Rightarrow> parent_rel (t_folders d) | Some p \<Rightarrow> insert (i, p) (parent_rel (t_folders d)))"
    using assms unreferenced by (auto simp: acyclic_insert split: option.splits)
  then have "acyclic (parent_rel (hput i f (t_folders d)))"
    by (rule acyclic_subset) (rule parent_rel_put)
  then show ?thesis using assms by (simp add: folders_upsert_def guarded_def)
qed


lemma ensure_segments_tree:
  "db_ok d \<Longrightarrow> tree_ok d \<Longrightarrow> fresh_ids ids n d \<Longrightarrow> (\<forall>m \<ge> n. parent \<noteq> Some (ids m)) \<Longrightarrow>
   (\<forall>m \<ge> n. ids m \<notin> snd ` set by_parent) \<Longrightarrow>
   tree_ok (snd (ensure_segments now ids segs by_parent parent n d))"
proof (induction segs arbitrary: by_parent parent n d)
  case (Cons seg segs)
  show ?case
  proof (cases "hget by_parent (parent, seg)")
    case (Some old)
    then have "((parent, seg), old) \<in> set by_parent" by (simp add: hget_def map_of_SomeD)
    then have "\<forall>m \<ge> n. Some old \<noteq> Some (ids m)" using Cons.prems(5) by force
    then show ?thesis using Some Cons.prems Cons.IH by simp
  next
    case None
    let ?row = "\<lparr> f_name = seg, f_parent_id = parent, f_sort_order = 0, f_collapsed = False, f_created_at = now \<rparr>"
    let ?d = "snd (folders_upsert (ids n) ?row d)"
    have new: "ids n \<notin> keys_of (t_folders d)" "parent \<noteq> Some (ids n)" and inj: "inj ids"
      using Cons.prems by (auto simp: fresh_ids_def)
    have tree: "tree_ok ?d" using Cons.prems new by (intro folders_upsert_tree) auto
    have ok: "db_ok ?d" using Cons.prems(1) keepsD [OF keeps_folders_upsert] by blast
    have fresh: "fresh_ids ids (n + 1) ?d"
      using Cons.prems(3) inj by (auto simp: fresh_ids_def folders_upsert_def guarded_def inj_eq)
    have "snd ` set (hput (parent, seg) (ids n) by_parent) \<subseteq> insert (ids n) (snd ` set by_parent)"
      using set_hput_subset [of "(parent, seg)" "ids n" by_parent] by force
    moreover have "\<forall>m \<ge> n + 1. ids m \<notin> insert (ids n) (snd ` set by_parent)"
      using Cons.prems(5) inj by (auto simp: inj_eq)
    ultimately have index: "\<forall>m \<ge> n + 1. ids m \<notin> snd ` set (hput (parent, seg) (ids n) by_parent)" by blast
    have "\<forall>m \<ge> n + 1. Some (ids n) \<noteq> Some (ids m)" using inj by (auto simp: inj_eq)
    from Cons.IH [OF ok tree fresh this index]
    show ?thesis using None tree by (auto simp: Let_def split: prod.splits sum.splits)
  qed
qed simp


lemma index_values:
  "snd ` set (fold (\<lambda>(k, f) m. hput (g k f) k m) l m) \<subseteq> fst ` set l \<union> snd ` set m"
proof (induction l arbitrary: m)
  case (Cons x l)
  have "snd ` set (hput (g (fst x) (snd x)) (fst x) m) \<subseteq> insert (fst x) (snd ` set m)"
    using set_hput_subset [of "g (fst x) (snd x)" "fst x" m] by force
  with Cons [of "hput (g (fst x) (snd x)) (fst x) m"] show ?case by (auto simp: case_prod_unfold)
qed simp

lemma ensure_folder_path_tree:
  assumes "db_ok d" "tree_ok d" "fresh_ids ids n d"
  shows "tree_ok (snd (ensure_folder_path ids path now n d))"
proof -
  have "snd ` set (folder_index d) \<subseteq> keys_of (t_folders d)"
    using index_values [of "\<lambda>k f. (f_parent_id f, f_name f)" "folders_list_all d" hempty]
    by (auto simp: folder_index_def folders_list_all_def hempty_def keys_of_def hkeys_def)
  then have "\<forall>m \<ge> n. ids m \<notin> snd ` set (folder_index d)" using assms(3) by (auto simp: fresh_ids_def)
  then show ?thesis using assms by (simp add: ensure_folder_path_def ensure_segments_tree)
qed

lemma dbind_tree:
  "tree_ok (snd (m d)) \<Longrightarrow> (\<And>x d'. m d = (Inr x, d') \<Longrightarrow> tree_ok d' \<Longrightarrow> tree_ok (snd (k x d'))) \<Longrightarrow> tree_ok (snd (dbind m k d))"
  by (auto simp: dbind_def split: prod.splits sum.splits)

lemma in_tx_tree: "tree_ok d \<Longrightarrow> tree_ok (snd (m d)) \<Longrightarrow> tree_ok (snd (in_tx m d))"
  by (auto simp: in_tx_def split: prod.splits sum.splits)

text \<open>
  C11. A rename or move of a folder, with the parent folders it creates on the way, never closes a loop:
  from a well-formed tree it leads to a well-formed tree, whatever the two paths.
\<close>

theorem rename_keeps_tree:
  assumes "db_ok d" and "acyclic (parent_rel (t_folders d))" and "fresh_ids ids n d"
  shows "acyclic (parent_rel (t_folders (snd (rename_path_cascade ids old_path new_path now n d))))"
proof -
  have "tree_ok (snd (rename_folder ids i segs now n d))" for i segs
    unfolding rename_folder_def
    by (rule dbind_tree) (auto simp: assms ensure_folder_path_tree dreturn_def intro!: dbind_tree update_name_parent_tree)
  then show ?thesis
    using assms(2) by (simp add: rename_path_cascade_def in_tx_tree split: option.split)
qed

section \<open>The recursive delete\<close>

lemma set_folder_children:
  "hinv t \<Longrightarrow> set (folder_children t is) = (parent_rel t)\<inverse> `` set is"
  by (force simp: folder_children_def parent_rel_def hinv_def hget_def hkeys_def split: bind_splits dest: map_of_SomeD)

lemma set_descend_rounds:
  "hinv t \<Longrightarrow> set (((\<lambda>is. remdups (is @ folder_children t is)) ^^ m) is)
     = {k. \<exists>j \<le> m. \<exists>i \<in> set is. (k, i) \<in> parent_rel t ^^ j}"
proof (induction m)
  case (Suc m)
  let ?S = "\<lambda>m. {k. \<exists>j \<le> m. \<exists>i \<in> set is. (k, i) \<in> parent_rel t ^^ j}"
  have "?S (Suc m) \<subseteq> ?S m \<union> (parent_rel t)\<inverse> `` ?S m"
  proof
    fix k
    assume "k \<in> ?S (Suc m)"
    then obtain j i where j: "j \<le> Suc m" "i \<in> set is" "(k, i) \<in> parent_rel t ^^ j" by blast
    show "k \<in> ?S m \<union> (parent_rel t)\<inverse> `` ?S m"
    proof (cases j)
      case 0
      then show ?thesis using j by (intro UnI1) (auto intro: exI [of _ 0])
    next
      case (Suc l)
      with j(3) obtain p where "(k, p) \<in> parent_rel t" "(p, i) \<in> parent_rel t ^^ l" by (metis relpow_Suc_D2)
      then show ?thesis using Suc j by (intro UnI2) auto
    qed
  qed
  moreover have "?S m \<union> (parent_rel t)\<inverse> `` ?S m \<subseteq> ?S (Suc m)"
  proof
    fix k
    assume "k \<in> ?S m \<union> (parent_rel t)\<inverse> `` ?S m"
    then consider (now) "k \<in> ?S m" | (next_round) p where "(k, p) \<in> parent_rel t" "p \<in> ?S m" by blast
    then show "k \<in> ?S (Suc m)"
    proof cases
      case now
      then show ?thesis by (auto intro: le_SucI)
    next
      case next_round
      then obtain j i where "j \<le> m" "i \<in> set is" "(k, i) \<in> parent_rel t ^^ Suc j" by (blast intro: relpow_Suc_I2)
      then show ?thesis by blast
    qed
  qed
  ultimately show ?case using Suc set_folder_children [OF Suc.prems] by auto
qed simp

lemma finite_parent_rel: "finite (parent_rel t)" "card (parent_rel t) \<le> length t"
proof -
  let ?f = "\<lambda>(k, f). (k, the (f_parent_id f))"
  have sub: "parent_rel t \<subseteq> ?f ` set t"
    by (force simp: parent_rel_def hget_def split: bind_splits dest: map_of_SomeD)
  then show "finite (parent_rel t)" by (rule finite_subset) simp
  have "card (parent_rel t) \<le> card (?f ` set t)" using sub by (simp add: card_mono)
  also have "\<dots> \<le> length t" using card_image_le [of "set t" ?f] card_length [of t] by simp
  finally show "card (parent_rel t) \<le> length t" .
qed

lemma set_descendants:
  assumes "hinv t"
  shows "set (descendants t i) = {k. i \<in> keys_of t \<and> (k, i) \<in> (parent_rel t)\<^sup>*}"
proof -
  have "(k, i) \<in> (parent_rel t)\<^sup>* \<longleftrightarrow> (\<exists>j \<le> length t. (k, i) \<in> parent_rel t ^^ j)" for k
  proof
    assume "(k, i) \<in> (parent_rel t)\<^sup>*"
    then obtain j where "j \<le> card (parent_rel t)" "(k, i) \<in> parent_rel t ^^ j"
      using rtrancl_finite_eq_relpow [OF finite_parent_rel(1), of t] by auto
    then show "\<exists>j \<le> length t. (k, i) \<in> parent_rel t ^^ j" using finite_parent_rel(2) [of t] by (meson le_trans)
  qed (auto dest: relpow_imp_rtrancl)
  then show ?thesis by (auto simp: descendants_def set_descend_rounds [OF assms] keys_of_def)
qed

lemma distinct_rounds: "distinct is \<Longrightarrow> distinct (((\<lambda>is. remdups (is @ folder_children t is)) ^^ m) is)"
  by (cases m) auto

definition subtree :: "db \<Rightarrow> string \<Rightarrow> string set" where
  "subtree d i = {k \<in> keys_of (t_folders d). (k, i) \<in> (parent_rel (t_folders d))\<^sup>*}"

text \<open>
  C20. Deleting a folder recursively removes the folder and everything below it and nothing else, and returns how
  many folders that were, also when the stored parent chain has a loop.
\<close>

theorem delete_recursive_exact:
  assumes "db_ok d"
  shows "fst (delete_recursive i d) = Inr (card (subtree d i)) \<and>
    keys_of (t_folders (snd (delete_recursive i d))) = keys_of (t_folders d) - subtree d i"
proof -
  let ?t = "t_folders d"
  have inv: "hinv ?t" using assms(1) by (simp add: db_parts)
  have up: "(k, i) \<in> (parent_rel ?t)\<^sup>* \<Longrightarrow> k \<in> keys_of ?t \<Longrightarrow> i \<in> keys_of ?t" for k
    by (induction rule: rtrancl_induct) (auto dest: parent_key [OF assms(1)])
  have down: "(k, i) \<in> (parent_rel ?t)\<^sup>* \<Longrightarrow> i \<in> keys_of ?t \<Longrightarrow> k \<in> keys_of ?t" for k
    by (erule converse_rtranclE) (auto simp: parent_rel_def keys_of_def hkeys_def hget_def split: bind_splits
      dest!: map_of_SomeD intro!: rev_image_eqI)
  have set: "set (descendants ?t i) = subtree d i"
    using up down by (auto simp: set_descendants [OF inv] subtree_def)
  moreover have "distinct (descendants ?t i)"
    using inv by (simp add: descendants_def distinct_rounds hinv_def)
  ultimately have "length (descendants ?t i) = card (subtree d i)" by (metis distinct_card)
  moreover have "{k \<in> keys_of ?t. k \<in> subtree d i} = subtree d i" by (auto simp: subtree_def)
  ultimately show ?thesis
    by (simp add: delete_recursive_def Let_def folders_remove_def set flip: keys_of_def) auto
qed

definition folder_at :: "string \<Rightarrow> string option \<Rightarrow> DbFolder" where
  "folder_at name parent = \<lparr> f_name = name, f_parent_id = parent, f_sort_order = 0, f_collapsed = False, f_created_at = 0 \<rparr>"

definition two_folders :: db where
  "two_folders = empty_db\<lparr> t_folders := [(''a'', folder_at ''work'' None), (''b'', folder_at ''lab'' (Some ''a''))] \<rparr>"

lemma two_folders_ok: "db_ok two_folders"
  by (simp add: two_folders_def empty_db_def folder_at_def db_parts refs_def links_ok_def tag_names_unique_def hinv_def
      hkeys_def resolves_def keys_of_def)

lemma two_folders_rel: "parent_rel (t_folders two_folders) = {(''b'', ''a'')}"
  by (auto simp: two_folders_def folder_at_def parent_rel_def hget_def split: if_splits)

lemma two_folders_keys: "keys_of (t_folders two_folders) = {''a'', ''b''}"
  by (auto simp: two_folders_def keys_of_def hkeys_def)

lemma two_folders_subtree: "subtree two_folders ''a'' = {''a'', ''b''}"
  by (auto simp: subtree_def two_folders_rel two_folders_keys)

text \<open>A folder with one subfolder: both go.\<close>

theorem delete_recursive_exact_witness:
  "fst (delete_recursive ''a'' two_folders) = Inr 2 \<and> keys_of (t_folders (snd (delete_recursive ''a'' two_folders))) = {}"
  using delete_recursive_exact [OF two_folders_ok, of "''a''"] by (simp add: two_folders_subtree two_folders_keys)

definition letters :: id_source where
  "letters n = replicate (n + 2) (CHR ''x'')"

lemma letters_fresh: "fresh_ids letters 0 two_folders"
  by (auto simp: fresh_ids_def letters_def inj_def two_folders_keys)

text \<open>Moving the subfolder to a new place.\<close>

theorem rename_keeps_tree_witness:
  "acyclic (parent_rel (t_folders (snd (rename_path_cascade letters ''work/lab'' ''home/lab'' 7 0 two_folders))))"
  by (intro rename_keeps_tree two_folders_ok letters_fresh) (simp add: two_folders_rel wf_acyclic)

end
