(* ===== verification/Archive_Apply.thy ===== *)
theory Archive_Apply
  imports Db_Integrity External Iso8601
begin

text \<open>
  The import driver \<open>archive/apply/mod.rs\<close>, which both an archive import and a sync pull run: the staged
  JSON documents of a \<open>PendingImport\<close> are read row by row and written through the access layer.  The state
  threaded through is the database, the counters and messages of \<open>ApplyOutcome\<close> and the numbers of random
  ids and clock readings used so far.  The JSON parser, its error text, base64 and SHA-256 are parameters;
  the failures of the storage itself (beginning and ending a transaction) are not modelled, and the
  advisory log lines are left out.
\<close>

section \<open>Data\<close>

datatype ApplyMode = ArchiveImport bool | Sync

definition is_archive :: "ApplyMode \<Rightarrow> bool" where
  "is_archive mode = (case mode of ArchiveImport r \<Rightarrow> True | Sync \<Rightarrow> False)"

definition is_sync :: "ApplyMode \<Rightarrow> bool" where
  "is_sync mode = (case mode of Sync \<Rightarrow> True | ArchiveImport r \<Rightarrow> False)"

record ApplyOutcome =
  sessions_applied :: int
  keys_applied :: int
  keys_skipped_dedup :: int
  tags_applied :: int
  snippets_applied :: int
  known_hosts_applied :: int
  folders_applied :: int
  session_tags_applied :: int
  folder_tags_applied :: int
  session_snippets_applied :: int
  certificates_applied :: int
  webdav_applied :: int
  s3_applied :: int
  bookmarks_applied :: int
  forwards_applied :: int
  links_skipped :: int
  errors :: "string list"
  warnings :: "string list"
  rolled_back :: bool

definition outcome_default :: ApplyOutcome where
  "outcome_default =
     \<lparr> sessions_applied = 0, keys_applied = 0, keys_skipped_dedup = 0, tags_applied = 0, snippets_applied = 0,
       known_hosts_applied = 0, folders_applied = 0, session_tags_applied = 0, folder_tags_applied = 0,
       session_snippets_applied = 0, certificates_applied = 0, webdav_applied = 0, s3_applied = 0,
       bookmarks_applied = 0, forwards_applied = 0, links_skipped = 0, errors = [], warnings = [],
       rolled_back = False \<rparr>"

record ApplyOptions =
  replace_mode :: bool
  apply_sessions_opt :: bool
  apply_keys_opt :: bool
  apply_tags_opt :: bool
  apply_snippets_opt :: bool
  apply_known_hosts_opt :: bool

record PendingImport =
  manifest_json :: "string option"
  sessions_json :: "string option"
  keys_json :: "string option"
  tags_json :: "string option"
  session_tags_json :: "string option"
  folder_tags_json :: "string option"
  snippets_json :: "string option"
  session_snippets_json :: "string option"
  empty_folders_json :: "string option"
  known_hosts_text :: "string option"
  certificates_json :: "string option"
  webdav_json :: "string option"
  s3_json :: "string option"
  bookmarks_json :: "string option"
  forwards_json :: "string option"
  config_json :: "string option"
  pending_recordings :: "(string \<times> string \<times> bytes) list"

definition no_documents :: PendingImport where
  "no_documents = \<lparr> manifest_json = None, sessions_json = None, keys_json = None, tags_json = None, session_tags_json = None,
     folder_tags_json = None, snippets_json = None, session_snippets_json = None, empty_folders_json = None,
     known_hosts_text = None, certificates_json = None, webdav_json = None, s3_json = None, bookmarks_json = None,
     forwards_json = None,
     config_json = None, pending_recordings = [] \<rparr>"

record apply_env =
  e_json :: json_lib
  e_json_error :: "string \<Rightarrow> string"
  e_b64 :: b64_lib
  e_sha_hex :: "bytes \<Rightarrow> string"
  e_ids :: id_source
  e_clock :: "nat \<Rightarrow> int"

record apply_st =
  a_db :: db
  a_out :: ApplyOutcome
  a_ids :: nat
  a_ticks :: nat

section \<open>Reporting\<close>

definition push_error :: "string \<Rightarrow> apply_st \<Rightarrow> apply_st" where
  "push_error m s = s\<lparr> a_out := (a_out s)\<lparr> errors := errors (a_out s) @ [m] \<rparr> \<rparr>"

definition push_warning :: "string \<Rightarrow> apply_st \<Rightarrow> apply_st" where
  "push_warning m s = s\<lparr> a_out := (a_out s)\<lparr> warnings := warnings (a_out s) @ [m] \<rparr> \<rparr>"

type_synonym counter = "(int \<Rightarrow> int) \<Rightarrow> ApplyOutcome \<Rightarrow> ApplyOutcome"

definition bump :: "counter \<Rightarrow> apply_st \<Rightarrow> apply_st" where
  "bump counter s = s\<lparr> a_out := counter (\<lambda>n. n + 1) (a_out s) \<rparr>"

text \<open>One call of the access layer: the counter of its kind goes up, or its error is recorded.\<close>

definition exec :: "counter \<Rightarrow> string \<Rightarrow> 'a stmt \<Rightarrow> apply_st \<Rightarrow> apply_st" where
  "exec counter what m s =
     (case m (a_db s) of
        (Inr x, d) \<Rightarrow> bump counter (s\<lparr> a_db := d \<rparr>)
      | (Inl e, d) \<Rightarrow> push_error (what @ '': '' @ error_to_string e) (s\<lparr> a_db := d \<rparr>))"

text \<open>A call that reads the clock.\<close>

definition read_clock :: "apply_env \<Rightarrow> (int \<Rightarrow> apply_st \<Rightarrow> apply_st) \<Rightarrow> apply_st \<Rightarrow> apply_st" where
  "read_clock E f s = f (e_clock E (a_ticks s)) (s\<lparr> a_ticks := a_ticks s + 1 \<rparr>)"

text \<open>\<open>serde_json::from_str::<Vec<Value>>\<close> and the loop over the rows.\<close>

definition parse_rows :: "apply_env \<Rightarrow> string \<Rightarrow> string + json list" where
  "parse_rows E s = (case json_parse (e_json E) s of Some (JArr vs) \<Rightarrow> Inr vs | _ \<Rightarrow> Inl (e_json_error E s))"

definition with_rows :: "apply_env \<Rightarrow> string \<Rightarrow> string \<Rightarrow> (json list \<Rightarrow> apply_st \<Rightarrow> apply_st) \<Rightarrow> apply_st \<Rightarrow> apply_st" where
  "with_rows E what s f st =
     (case parse_rows E s of Inl e \<Rightarrow> push_error (what @ '' parse: '' @ e) st | Inr vs \<Rightarrow> f vs st)"

definition when_json :: "bool \<Rightarrow> string option \<Rightarrow> (string \<Rightarrow> apply_st \<Rightarrow> apply_st) \<Rightarrow> apply_st \<Rightarrow> apply_st" where
  "when_json want doc f st = (case doc of Some s \<Rightarrow> if want then f s st else st | None \<Rightarrow> st)"

section \<open>Fields of a row\<close>

definition jget :: "json \<Rightarrow> string \<Rightarrow> json option" where
  "jget v k = (case v of JObj m \<Rightarrow> map_of m k | _ \<Rightarrow> None)"

definition jfield :: "(json \<Rightarrow> 'a option) \<Rightarrow> json \<Rightarrow> string \<Rightarrow> 'a option" where
  "jfield f v k = Option.bind (jget v k) f"

definition json_string :: "json \<Rightarrow> string \<Rightarrow> string" where
  "json_string v k = or_default (jfield as_str v k) []"

definition json_i64_opt :: "json \<Rightarrow> string \<Rightarrow> int option" where
  "json_i64_opt v k = jfield as_i64 v k"

definition json_i64 :: "json \<Rightarrow> string \<Rightarrow> int" where
  "json_i64 v k = or_default (jfield as_i64 v k) 0"

definition json_bool :: "json \<Rightarrow> string \<Rightarrow> bool \<Rightarrow> bool" where
  "json_bool v k dflt = or_default (jfield as_bool v k) dflt"

text \<open>\<open>and_then(as_str).filter(|s| !s.is_empty())\<close>.\<close>

definition json_nonempty :: "json \<Rightarrow> string \<Rightarrow> string option" where
  "json_nonempty v k = (case jfield as_str v k of Some s \<Rightarrow> if s = [] then None else Some s | None \<Rightarrow> None)"

text \<open>An array of numbers read as bytes; what is not an unsigned integer is dropped, the rest cut to eight bits.\<close>

definition as_bytes :: "json \<Rightarrow> bytes option" where
  "as_bytes v = (case v of JArr bs \<Rightarrow> Some (map word_of_int (List.map_filter as_u64 bs)) | _ \<Rightarrow> None)"

definition is_tombstone :: "json \<Rightarrow> bool" where
  "is_tombstone v = json_bool v ''tombstone'' False"

definition lww_peer_loses :: "int \<Rightarrow> int option \<Rightarrow> bool" where
  "lww_peer_loses peer_ts local_ts = (case local_ts of Some l \<Rightarrow> peer_ts \<le> l | None \<Rightarrow> False)"

definition deleted_at_ms :: "json \<Rightarrow> int" where
  "deleted_at_ms v = or_default (json_i64_opt v ''deleted_at_ms'') 0"

section \<open>Folders\<close>

type_synonym path_ids = "(string, string) hmap"

text \<open>The loop of \<open>materialise_folder_path\<close>: accumulated path, parent, the map and the next sort order.\<close>

fun materialise_segments ::
  "apply_env \<Rightarrow> int \<Rightarrow> string \<Rightarrow> string list \<Rightarrow> string \<Rightarrow> string option \<Rightarrow> path_ids \<times> int \<Rightarrow> apply_st \<Rightarrow>
   (path_ids \<times> int) \<times> apply_st" where
  "materialise_segments E now label [] accum parent ms s = (ms, s)"
| "materialise_segments E now label (seg # segs) accum parent (ids, order) s =
     (let accum' = (if accum = [] then seg else accum @ ''/'' @ seg) in
      case hget ids accum' of
        Some old \<Rightarrow> materialise_segments E now label segs accum' (Some old) (ids, order) s
      | None \<Rightarrow>
          (let i = e_ids E (a_ids s); s' = s\<lparr> a_ids := a_ids s + 1 \<rparr>;
               row = \<lparr> f_name = seg, f_parent_id = parent, f_sort_order = order, f_collapsed = False,
                       f_created_at = now \<rparr>
           in case folders_upsert i row (a_db s') of
                (Inr u, d) \<Rightarrow> materialise_segments E now label segs accum' (Some i) (hput accum' i ids, order + 1)
                  (bump folders_applied_update (s'\<lparr> a_db := d \<rparr>))
              | (Inl e, d) \<Rightarrow> materialise_segments E now label segs accum' None (ids, order + 1)
                  (push_error (label @ '' '' @ accum' @ '' upsert: '' @ error_to_string e) (s'\<lparr> a_db := d \<rparr>))))"

definition materialise_folder_path ::
  "apply_env \<Rightarrow> int \<Rightarrow> string \<Rightarrow> string \<Rightarrow> (path_ids \<times> int) \<times> apply_st \<Rightarrow> (path_ids \<times> int) \<times> apply_st" where
  "materialise_folder_path E now label path x =
     materialise_segments E now label (path_segments path) [] None (fst x) (snd x)"

text \<open>The ids a failed walk has drawn are not drawn again.\<close>

definition ensure_folder_paths_sync ::
  "apply_env \<Rightarrow> int \<Rightarrow> string list \<Rightarrow> apply_st \<Rightarrow> path_ids \<times> apply_st" where
  "ensure_folder_paths_sync E now paths s =
     fold (\<lambda>path (out, s).
       if path = [] \<or> hget out path \<noteq> None then (out, s)
       else case ensure_folder_path (e_ids E) path now (a_ids s) (a_db s) of
         (Inr (Some i, n), d) \<Rightarrow> (hput path i out, s\<lparr> a_db := d, a_ids := n \<rparr>)
       | (Inr (None, n), d) \<Rightarrow> (out, s\<lparr> a_db := d, a_ids := n \<rparr>)
       | (Inl e, d) \<Rightarrow> (out, push_error (''sync merge folder ensure: '' @ error_to_string e)
            (s\<lparr> a_db := d, a_ids := a_ids s + length (path_segments path) \<rparr>)))
       paths (hempty, s)"

definition apply_folder_tree :: "apply_env \<Rightarrow> string \<Rightarrow> ApplyMode \<Rightarrow> int \<Rightarrow> apply_st \<Rightarrow> path_ids \<times> apply_st" where
  "apply_folder_tree E doc mode now s =
     (case parse_rows E doc of
        Inl e \<Rightarrow> (hempty, s)
      | Inr vs \<Rightarrow>
          (let paths = sort_dedup (List.map_filter (\<lambda>v. json_nonempty v ''folder'') vs) in
           if is_sync mode then ensure_folder_paths_sync E now paths s
           else case fold (materialise_folder_path E now ''folder'') paths ((hempty, 0), s) of
                  ((ids, order), s') \<Rightarrow> (ids, s')))"

definition as_strings :: "json list \<Rightarrow> string list option" where
  "as_strings vs = those (map as_str vs)"

definition apply_empty_folders :: "apply_env \<Rightarrow> string \<Rightarrow> path_ids \<Rightarrow> int \<Rightarrow> apply_st \<Rightarrow> path_ids \<times> apply_st" where
  "apply_empty_folders E doc ids now s =
     (case (case parse_rows E doc of Inr vs \<Rightarrow> as_strings vs | Inl e \<Rightarrow> None) of
        None \<Rightarrow> (ids, push_error (''empty_folders parse: '' @ e_json_error E doc) s)
      | Some paths \<Rightarrow>
          (case fold (\<lambda>path x. if path = [] \<or> hget (fst (fst x)) path \<noteq> None then x
                                 else materialise_folder_path E now ''empty_folder'' path x)
                  paths ((ids, int (length ids)), s) of
             ((ids', order), s') \<Rightarrow> (ids', s')))"

section \<open>Links\<close>

definition LINK_ARROW :: string where
  "LINK_ARROW = [CHR 0xE2, CHR 0x86, CHR 0x94]"

definition skip_link :: "apply_st \<Rightarrow> apply_st" where
  "skip_link = bump links_skipped_update"

definition exec_link :: "counter \<Rightarrow> string \<Rightarrow> unit stmt \<Rightarrow> apply_st \<Rightarrow> apply_st" where
  "exec_link counter what m s =
     (case m (a_db s) of
        (Inr x, d) \<Rightarrow> bump counter (s\<lparr> a_db := d \<rparr>)
      | (Inl e, d) \<Rightarrow> push_error (what @ '': '' @ error_to_string e) (skip_link (s\<lparr> a_db := d \<rparr>)))"

definition session_tag_row :: "json \<Rightarrow> apply_st \<Rightarrow> apply_st" where
  "session_tag_row v =
     (let sid = json_string v ''session_id''; tid = json_string v ''tag_id'' in
      if sid = [] \<or> tid = [] then skip_link
      else exec_link session_tags_applied_update (''session_tag '' @ sid @ LINK_ARROW @ tid) (link_session_tag sid tid))"

definition apply_session_tags :: "apply_env \<Rightarrow> string \<Rightarrow> apply_st \<Rightarrow> apply_st" where
  "apply_session_tags E doc = with_rows E ''session_tags'' doc (fold session_tag_row)"

definition folder_tag_row :: "path_ids \<Rightarrow> json \<Rightarrow> apply_st \<Rightarrow> apply_st" where
  "folder_tag_row ids v =
     (let path = json_string v ''folder_path''; tid = json_string v ''tag_id'' in
      if path = [] \<or> tid = [] then skip_link
      else case hget ids path of
        None \<Rightarrow> skip_link
      | Some fid \<Rightarrow>
          exec_link folder_tags_applied_update (''folder_tag '' @ path @ LINK_ARROW @ tid) (link_folder_tag fid tid))"

definition apply_folder_tags :: "apply_env \<Rightarrow> string \<Rightarrow> path_ids \<Rightarrow> apply_st \<Rightarrow> apply_st" where
  "apply_folder_tags E doc ids = with_rows E ''folder_tags'' doc (fold (folder_tag_row ids))"

definition session_snippet_row :: "json \<Rightarrow> apply_st \<Rightarrow> apply_st" where
  "session_snippet_row v =
     (let sid = json_string v ''session_id''; nid = json_string v ''snippet_id'' in
      if sid = [] \<or> nid = [] then skip_link
      else exec_link session_snippets_applied_update (''session_snippet '' @ sid @ LINK_ARROW @ nid)
             (link_session_snippet sid nid))"

definition apply_session_snippets :: "apply_env \<Rightarrow> string \<Rightarrow> apply_st \<Rightarrow> apply_st" where
  "apply_session_snippets E doc = with_rows E ''session_snippets'' doc (fold session_snippet_row)"

section \<open>Sessions\<close>

definition peer_stamp :: "json \<Rightarrow> string \<Rightarrow> int" where
  "peer_stamp v k = or_default (parse_iso8601_opt (json_string v k)) 0"

definition build_session_row ::
  "apply_env \<Rightarrow> json \<Rightarrow> ApplyMode \<Rightarrow> path_ids \<Rightarrow> string \<Rightarrow> int \<Rightarrow> int \<Rightarrow> SessionRow" where
  "build_session_row E v mode ids i peer_updated_at now =
     (let over = (\<lambda>k. Option.bind (jget v ''via_override'') (\<lambda>w. jget w k));
          cols = \<lparr> d_host = json_string v ''host'',
            d_port = (if is_sync mode then or_default (json_i64_opt v ''port'') 22 else json_i64 v ''port''),
            d_user = json_string v ''user'', d_auth_type = json_string v ''auth_type'',
            d_password = json_string v ''password'', d_key_path = json_string v ''key_path'',
            d_key_data = json_string v ''key_data'', d_key_id = json_nonempty v ''key_id'',
            d_passphrase = json_string v ''passphrase'', d_via_session_id = json_nonempty v ''via_session_id'',
            d_via_host = Option.bind (over ''host'') as_str,
            d_via_port = Option.bind (over ''port'') as_i64,
            d_via_user = Option.bind (over ''user'') as_str \<rparr>
      in \<lparr> r_id = i, r_label = json_string v ''label'',
           r_folder_id = Option.bind (json_nonempty v ''folder'') (hget ids),
           r_kind = or_default (json_nonempty v ''kind'') ''ssh'',
           r_ssh = cols, r_sort_order = 0,
           r_notes = (if is_sync mode then [] else json_string v ''notes''),
           r_last_connected_at = None,
           r_extras =
             (if is_sync mode then or_default (map_option (json_print (e_json E)) (jget v ''extras'')) ''{}''
              else case jget v ''extras'' of Some (JObj m) \<Rightarrow> json_print (e_json E) (JObj m) | _ \<Rightarrow> []),
           r_created_at = parse_iso8601_or_now (json_string v ''created_at'') now,
           r_updated_at = peer_updated_at \<rparr>)"

text \<open>The local stamps the sync gate compares with: the live rows only.\<close>

definition session_stamps :: "ApplyMode \<Rightarrow> db \<Rightarrow> (string, int) hmap" where
  "session_stamps mode d = (if is_sync mode then map (\<lambda>r. (r_id r, r_updated_at r)) (sessions_list_all d) else [])"

definition apply_one_session ::
  "apply_env \<Rightarrow> ApplyMode \<Rightarrow> path_ids \<Rightarrow> (string, int) hmap \<Rightarrow> int \<Rightarrow> json \<Rightarrow> apply_st \<Rightarrow> apply_st" where
  "apply_one_session E mode ids stamps now v s =
     (let i = json_string v ''id'' in
      if i = [] then (if is_archive mode then push_error ''session row missing id'' s else s)
      else if is_tombstone v then
        (if is_sync mode
         then exec sessions_applied_update (''session '' @ i @ '' tombstone'') (sessions_apply_tombstone i (deleted_at_ms v)) s
         else s)
      else
        (let peer = (if is_sync mode then peer_stamp v ''updated_at'' else now) in
         if is_sync mode \<and> lww_peer_loses peer (hget stamps i) then s
         else exec sessions_applied_update (''session '' @ i @ '' upsert'')
                (sessions_upsert (build_session_row E v mode ids i peer now)) s))"

definition apply_sessions :: "apply_env \<Rightarrow> string \<Rightarrow> ApplyMode \<Rightarrow> path_ids \<Rightarrow> int \<Rightarrow> apply_st \<Rightarrow> apply_st" where
  "apply_sessions E doc mode ids now = with_rows E ''sessions'' doc (\<lambda>vs s.
     fold (apply_one_session E mode ids (session_stamps mode (a_db s)) now) vs s)"

section \<open>Keys\<close>

definition is_stub_backend :: "KeyBackend \<Rightarrow> bool" where
  "is_stub_backend b \<longleftrightarrow> b = Enclave \<or> b = Hello \<or> b = Tpm \<or> b = Keystore"

definition no_device_cols :: DeviceCols where
  "no_device_cols = \<lparr> enclave_tag = None, hello_credential_name = None, tpm_blob = None, tpm_handle = None,
     tpm_provider = None, tpm_pin_required = False, cng_key_name = None, keystore_alias = None,
     keystore_strongbox = False, keystore_user_auth_required = False, keystore_platform = None \<rparr>"

definition build_key_row :: "json \<Rightarrow> int \<Rightarrow> SshKeyRow" where
  "build_key_row v now =
     (let backend = (case jfield as_str v ''backend'' of Some n \<Rightarrow> backend_from_db n | None \<Rightarrow> Software);
          stub = is_stub_backend backend;
          token = (\<lambda>x. if backend = Pkcs11 then x else None);
          token_bytes = (\<lambda>x. if backend = Pkcs11 then x else None)
      in \<lparr> k_id = json_string v ''id'', k_label = json_string v ''label'',
           k_private_key = (if stub then [] else json_string v ''private_key''),
           k_public_key = json_string v ''public_key'', k_key_type = json_string v ''key_type'',
           k_is_generated = json_bool v ''is_generated'' False,
           k_created_at = parse_iso8601_or_now (json_string v ''created_at'') now,
           k_credential_id = jfield as_bytes v ''credential_id'',
           k_application_string = jfield as_str v ''application_string'',
           k_has_user_verification = json_bool v ''has_user_verification'' False,
           k_agent_policy = Ask, k_backend = backend,
           k_pkcs11 = \<lparr> pkcs11_uri = token (jfield as_str v ''pkcs11_uri''), pkcs11_module_path = None,
             pkcs11_token_serial = token (jfield as_str v ''pkcs11_token_serial''),
             pkcs11_object_id = token_bytes (jfield as_bytes v ''pkcs11_object_id''),
             pkcs11_object_label = token (jfield as_str v ''pkcs11_object_label'') \<rparr>,
           k_device = no_device_cols, k_imported_as_stub = stub \<rparr>)"

definition key_stamps :: "db \<Rightarrow> (string, int) hmap" where
  "key_stamps d = map (\<lambda>r. (k_id r, k_created_at r)) (keys_list_all d)"

definition apply_one_key_sync :: "(string, int) hmap \<Rightarrow> int \<Rightarrow> json \<Rightarrow> apply_st \<Rightarrow> apply_st" where
  "apply_one_key_sync stamps now v s =
     (let i = json_string v ''id'' in
      if i = [] then s
      else if is_tombstone v then
        exec keys_applied_update (''sync merge key '' @ i @ '' tombstone'') (keys_apply_tombstone i (deleted_at_ms v)) s
      else
        (let peer = peer_stamp v ''created_at'' in
         if lww_peer_loses peer (hget stamps i) then s
         else exec keys_applied_update (''sync merge key '' @ i)
                (keys_upsert ((build_key_row v now)\<lparr> k_id := i, k_created_at := peer \<rparr>)) s))"

definition apply_one_key_archive :: "apply_env \<Rightarrow> string list \<Rightarrow> int \<Rightarrow> json \<Rightarrow> apply_st \<Rightarrow> apply_st" where
  "apply_one_key_archive E fps now v s =
     (let fp = normalized_sha256_hex (e_sha_hex E) (json_string v ''public_key''); row = build_key_row v now in
      if fp \<noteq> [] \<and> fp \<in> set fps then bump keys_skipped_dedup_update s
      else if k_id row = [] then push_error ''key row missing id'' s
      else exec keys_applied_update (''key '' @ k_id row @ '' upsert'') (keys_upsert row) s)"

definition apply_keys :: "apply_env \<Rightarrow> string \<Rightarrow> ApplyMode \<Rightarrow> int \<Rightarrow> apply_st \<Rightarrow> apply_st" where
  "apply_keys E doc mode now = with_rows E ''keys'' doc (\<lambda>vs s.
     if is_sync mode then fold (apply_one_key_sync (key_stamps (a_db s)) now) vs s
     else fold (apply_one_key_archive E
            (filter (\<lambda>fp. fp \<noteq> []) (map m_public_fingerprint (keys_list_metadata (e_sha_hex E) (a_db s)))) now) vs s)"

section \<open>Tags and snippets\<close>

definition tag_stamps :: "ApplyMode \<Rightarrow> db \<Rightarrow> (string, int) hmap" where
  "tag_stamps mode d = (if is_sync mode then map (\<lambda>(k, g). (k, g_created_at g)) (tags_list_all d) else [])"

definition apply_one_tag :: "ApplyMode \<Rightarrow> (string, int) hmap \<Rightarrow> int \<Rightarrow> json \<Rightarrow> apply_st \<Rightarrow> apply_st" where
  "apply_one_tag mode stamps now v s =
     (let i = json_string v ''id''; name = json_string v ''name'' in
      if is_tombstone v then
        (if is_sync mode \<and> i \<noteq> []
         then exec tags_applied_update (''tag '' @ i @ '' tombstone'') (tags_apply_tombstone i (deleted_at_ms v)) s
         else s)
      else
        (let peer = or_default (parse_iso8601_opt (json_string v ''created_at'')) (if is_sync mode then 0 else now) in
         if i = [] \<or> name = [] then s
         else if is_sync mode \<and> lww_peer_loses peer (hget stamps i) then s
         else exec tags_applied_update (''tag '' @ i @ '' upsert'')
                (tags_upsert i \<lparr> g_name = name, g_color = json_nonempty v ''color'', g_created_at = peer,
                                 g_deleted_at = None \<rparr>) s))"

definition apply_tags :: "apply_env \<Rightarrow> string \<Rightarrow> ApplyMode \<Rightarrow> int \<Rightarrow> apply_st \<Rightarrow> apply_st" where
  "apply_tags E doc mode now = with_rows E ''tags'' doc (\<lambda>vs s.
     fold (apply_one_tag mode (tag_stamps mode (a_db s)) now) vs s)"

definition snippet_stamps :: "ApplyMode \<Rightarrow> db \<Rightarrow> (string, int) hmap" where
  "snippet_stamps mode d = (if is_sync mode then map (\<lambda>(k, n). (k, n_updated_at n)) (snippets_list_all d) else [])"

definition apply_one_snippet :: "ApplyMode \<Rightarrow> (string, int) hmap \<Rightarrow> int \<Rightarrow> json \<Rightarrow> apply_st \<Rightarrow> apply_st" where
  "apply_one_snippet mode stamps now v s =
     (let i = json_string v ''id''; title = json_string v ''title'' in
      if i = [] then s
      else if is_tombstone v then
        (if is_sync mode
         then exec snippets_applied_update (''snippet '' @ i @ '' tombstone'') (snippets_apply_tombstone i (deleted_at_ms v)) s
         else s)
      else if \<not> is_sync mode \<and> title = [] then s
      else
        (let peer = peer_stamp v ''updated_at'' in
         if is_sync mode \<and> lww_peer_loses peer (hget stamps i) then s
         else exec snippets_applied_update (''snippet '' @ i @ '' upsert'')
                (snippets_upsert i \<lparr> n_title = title, n_command = json_string v ''command'',
                   n_description = json_string v ''description'',
                   n_created_at = parse_iso8601_or_now (json_string v ''created_at'') now,
                   n_updated_at = (if is_sync mode then peer else now), n_deleted_at = None \<rparr>) s))"

definition apply_snippets :: "apply_env \<Rightarrow> string \<Rightarrow> ApplyMode \<Rightarrow> int \<Rightarrow> apply_st \<Rightarrow> apply_st" where
  "apply_snippets E doc mode now = with_rows E ''snippets'' doc (\<lambda>vs s.
     fold (apply_one_snippet mode (snippet_stamps mode (a_db s)) now) vs s)"

section \<open>Known hosts\<close>

text \<open>\<open>splitn(3, char::is_whitespace)\<close>: the text before the first white space and what follows it.\<close>

definition split_ws_once :: "string \<Rightarrow> (string \<times> string) option" where
  "split_ws_once s = (case find_ws s of None \<Rightarrow> None | Some i \<Rightarrow> map_option (Pair (take i s)) (strip_ws (drop i s)))"

definition three_fields :: "string \<Rightarrow> (string \<times> string \<times> string) option" where
  "three_fields line =
     Option.bind (split_ws_once line) (\<lambda>(a, rest). map_option (\<lambda>(b, c). (a, b, c)) (split_ws_once rest))"

definition host_and_port :: "string \<Rightarrow> string \<times> int" where
  "host_and_port hp =
     (case rsplit_once (CHR '':'') hp of
        Some (h, p) \<Rightarrow> (case parse_signed (- (2 ^ 63)) (2 ^ 63 - 1) p of Some n \<Rightarrow> (h, n) | None \<Rightarrow> (hp, 22))
      | None \<Rightarrow> (hp, 22))"

definition apply_known_hosts_line :: "apply_env \<Rightarrow> int \<Rightarrow> string \<Rightarrow> apply_st \<Rightarrow> apply_st" where
  "apply_known_hosts_line E now raw s =
     (let line = trim raw in
      if line = [] \<or> starts_with ''#'' line then s
      else case three_fields line of
        None \<Rightarrow> s
      | Some (hp, key_type, body) \<Rightarrow>
          if body = [] \<or> b64_decode (e_b64 E) body = None
          then push_warning ''known_hosts row skipped: invalid base64 key body'' s
          else (case host_and_port hp of
            (host, port) \<Rightarrow> bump known_hosts_applied_update (s\<lparr> a_db := (a_db s)\<lparr> t_known_hosts :=
               snd (upsert_by_host_port host port key_type body now (t_known_hosts (a_db s))) \<rparr> \<rparr>)))"

definition apply_known_hosts :: "apply_env \<Rightarrow> string \<Rightarrow> int \<Rightarrow> apply_st \<Rightarrow> apply_st" where
  "apply_known_hosts E doc now = fold (apply_known_hosts_line E now) (str_lines doc)"


section \<open>Child tables\<close>

definition live_key_ids :: "db \<Rightarrow> string set" where
  "live_key_ids d = k_id ` set (keys_list_all d)"

definition live_session_ids :: "db \<Rightarrow> string set" where
  "live_session_ids d = r_id ` set (sessions_list_all d)"

definition cert_principals :: "apply_env \<Rightarrow> json \<Rightarrow> string list" where
  "cert_principals E v =
     (case jget v ''principals'' of
        Some (JArr xs) \<Rightarrow> List.map_filter as_str xs
      | Some (JStr t) \<Rightarrow> (case json_parse (e_json E) t of Some (JArr xs) \<Rightarrow> or_default (as_strings xs) [] | _ \<Rightarrow> [])
      | _ \<Rightarrow> [])"

text \<open>A \<open>BTreeMap<String, V>\<close>: sorted by key, a later entry of the same key wins.\<close>

definition btree :: "(string \<times> 'v) list \<Rightarrow> (string \<times> 'v) list" where
  "btree m = map (\<lambda>k. (k, the (map_of (rev m) k))) (sort_dedup (map fst m))"

definition cert_options :: "apply_env \<Rightarrow> json \<Rightarrow> (string \<times> string) list" where
  "cert_options E v =
     (let strs = List.map_filter (\<lambda>(k, x). map_option (Pair k) (as_str x)) in
      case jget v ''critical_options'' of
        Some (JObj m) \<Rightarrow> btree (strs m)
      | Some (JStr t) \<Rightarrow> (case json_parse (e_json E) t of
            Some (JObj m) \<Rightarrow> if list_all (\<lambda>(k, x). as_str x \<noteq> None) m then btree (strs m) else []
          | _ \<Rightarrow> [])
      | _ \<Rightarrow> [])"

definition apply_one_certificate :: "apply_env \<Rightarrow> string set \<Rightarrow> json \<Rightarrow> apply_st \<Rightarrow> apply_st" where
  "apply_one_certificate E live v s =
     (let i = json_string v ''key_id'' in
      if i = [] then s
      else if i \<notin> live then push_warning (''ssh_key_certificate '' @ i @ '': parent key absent'') s
      else exec certificates_applied_update (''ssh_key_certificate '' @ i @ '' upsert'')
             (certs_upsert i \<lparr> c_certificate = or_default (jfield as_bytes v ''certificate'') [],
                c_valid_after = json_i64 v ''valid_after'', c_valid_before = json_i64 v ''valid_before'',
                c_principals = cert_principals E v, c_critical_options = cert_options E v,
                c_fingerprint = json_string v ''fingerprint'' \<rparr>) s)"

definition apply_ssh_key_certificates :: "apply_env \<Rightarrow> string \<Rightarrow> apply_st \<Rightarrow> apply_st" where
  "apply_ssh_key_certificates E doc = with_rows E ''ssh_key_certificates'' doc (\<lambda>vs s.
     fold (apply_one_certificate E (live_key_ids (a_db s))) vs s)"

text \<open>
  The arms of \<open>webdav_session_details\<close> and \<open>s3_session_details\<close> are the same code: the name in the
  messages, the counter, the tombstone, the local stamp and the stamped upsert are its parameters.
\<close>

definition apply_one_detail ::
  "apply_env \<Rightarrow> string \<Rightarrow> counter \<Rightarrow> (string \<Rightarrow> int \<Rightarrow> nat stmt) \<Rightarrow> (db \<Rightarrow> string \<Rightarrow> int option) \<Rightarrow>
   (string \<Rightarrow> json \<Rightarrow> int \<Rightarrow> unit stmt) \<Rightarrow> ApplyMode \<Rightarrow> string set \<Rightarrow> int \<Rightarrow> json \<Rightarrow> apply_st \<Rightarrow> apply_st" where
  "apply_one_detail E table counter bury stamp store mode live now v s =
     (let i = json_string v ''session_id'' in
      if i = [] then s
      else if is_tombstone v then
        (if is_sync mode then exec counter (table @ '' '' @ i @ '' tombstone'') (bury i (deleted_at_ms v)) s else s)
      else if i \<notin> live then push_warning (table @ '' '' @ i @ '': parent session absent'') s
      else if is_sync mode \<and> lww_peer_loses (or_default (json_i64_opt v ''updated_at_ms'') 0) (stamp (a_db s) i) then s
      else if is_sync mode
        then exec counter (table @ '' '' @ i @ '' upsert'') (store i v (or_default (json_i64_opt v ''updated_at_ms'') now)) s
        else read_clock E (\<lambda>at. exec counter (table @ '' '' @ i @ '' upsert'') (store i v at)) s)"

definition webdav_cols_of :: "json \<Rightarrow> WebDavCols" where
  "webdav_cols_of v = \<lparr> w_base_url = json_string v ''base_url'', w_username = json_string v ''username'',
     w_auth_method = json_string v ''auth_method'', w_trusted_cert_pem = json_nonempty v ''trusted_cert_pem'',
     w_insecure_skip_verify = json_bool v ''insecure_skip_verify'' False \<rparr>"

definition s3_cols_of :: "json \<Rightarrow> S3Cols" where
  "s3_cols_of v = \<lparr> t_access_key_id = json_string v ''access_key_id'', t_region = json_string v ''region'',
     t_endpoint = json_string v ''endpoint'', t_path_style = json_bool v ''path_style'' False,
     t_default_bucket = json_string v ''default_bucket'', t_default_prefix = json_string v ''default_prefix'',
     t_trusted_cert_pem = json_nonempty v ''trusted_cert_pem'',
     t_insecure_skip_verify = json_bool v ''insecure_skip_verify'' False \<rparr>"

definition apply_webdav_session_details :: "apply_env \<Rightarrow> string \<Rightarrow> ApplyMode \<Rightarrow> int \<Rightarrow> apply_st \<Rightarrow> apply_st" where
  "apply_webdav_session_details E doc mode now = with_rows E ''webdav_session_details'' doc (\<lambda>vs s.
     fold (apply_one_detail E ''webdav_session_details'' webdav_applied_update webdav_apply_tombstone
       (\<lambda>d i. map_option x_updated_at (hget (t_webdav d) i))
       (\<lambda>i v at. webdav_upsert_with_stamp i (webdav_cols_of v) at) mode (live_session_ids (a_db s)) now) vs s)"

definition apply_s3_session_details :: "apply_env \<Rightarrow> string \<Rightarrow> ApplyMode \<Rightarrow> int \<Rightarrow> apply_st \<Rightarrow> apply_st" where
  "apply_s3_session_details E doc mode now = with_rows E ''s3_session_details'' doc (\<lambda>vs s.
     fold (apply_one_detail E ''s3_session_details'' s3_applied_update s3_apply_tombstone
       (\<lambda>d i. map_option x_updated_at (hget (t_s3 d) i))
       (\<lambda>i v at. s3_upsert_with_stamp i (s3_cols_of v) at) mode (live_session_ids (a_db s)) now) vs s)"

definition bookmark_stamps :: "ApplyMode \<Rightarrow> db \<Rightarrow> (string, int) hmap" where
  "bookmark_stamps mode d = (if is_sync mode then map (\<lambda>(k, b). (k, b_created_at b)) (t_bookmarks d) else [])"

definition apply_one_sftp_bookmark ::
  "ApplyMode \<Rightarrow> string set \<Rightarrow> (string, int) hmap \<Rightarrow> int \<Rightarrow> json \<Rightarrow> apply_st \<Rightarrow> apply_st" where
  "apply_one_sftp_bookmark mode live stamps now v s =
     (let i = json_string v ''id''; sid = json_string v ''session_id'' in
      if i = [] \<or> sid = [] then s
      else if is_tombstone v then
        (if is_sync mode
         then exec bookmarks_applied_update (''sftp_bookmark '' @ i @ '' tombstone'')
                (bookmarks_apply_tombstone i (deleted_at_ms v)) s
         else s)
      else if sid \<notin> live then push_warning (''sftp_bookmark '' @ i @ '': parent session '' @ sid @ '' absent'') s
      else
        (let at = parse_iso8601_or_now (json_string v ''created_at'') now in
         if is_sync mode \<and> lww_peer_loses at (hget stamps i) then s
         else exec bookmarks_applied_update (''sftp_bookmark '' @ i @ '' upsert'')
                (bookmarks_upsert i \<lparr> b_session_id = sid, b_remote_path = json_string v ''remote_path'',
                   b_label = json_string v ''label'', b_created_at = at, b_deleted_at = None \<rparr>) s))"

definition apply_sftp_bookmarks :: "apply_env \<Rightarrow> string \<Rightarrow> ApplyMode \<Rightarrow> int \<Rightarrow> apply_st \<Rightarrow> apply_st" where
  "apply_sftp_bookmarks E doc mode now = with_rows E ''sftp_bookmarks'' doc (\<lambda>vs s.
     fold (apply_one_sftp_bookmark mode (live_session_ids (a_db s)) (bookmark_stamps mode (a_db s)) now) vs s)"

definition forward_stamps :: "ApplyMode \<Rightarrow> db \<Rightarrow> (string, int) hmap" where
  "forward_stamps mode d = (if is_sync mode then map (\<lambda>(k, p). (k, p_updated_at p)) (t_forwards d) else [])"

definition forward_of :: "json \<Rightarrow> string \<Rightarrow> int \<Rightarrow> PortForwardRule" where
  "forward_of v sid at =
     \<lparr> p_session_id = sid, p_kind = json_string v ''kind'', p_bind_host = json_string v ''bind_host'',
       p_bind_port = json_i64 v ''bind_port'', p_remote_host = json_string v ''remote_host'',
       p_remote_port = json_i64 v ''remote_port'', p_description = json_string v ''description'',
       p_enabled = json_bool v ''enabled'' True, p_sort_order = json_i64 v ''sort_order'',
       p_created_at = json_i64 v ''created_at_ms'', p_updated_at = at, p_deleted_at = None \<rparr>"

definition apply_one_port_forward_rule ::
  "apply_env \<Rightarrow> ApplyMode \<Rightarrow> string set \<Rightarrow> (string, int) hmap \<Rightarrow> int \<Rightarrow> json \<Rightarrow> apply_st \<Rightarrow> apply_st" where
  "apply_one_port_forward_rule E mode live stamps now v s =
     (let i = json_string v ''id''; sid = json_string v ''session_id'' in
      if i = [] \<or> sid = [] then s
      else if is_tombstone v then
        (if is_sync mode
         then exec forwards_applied_update (''port_forward_rule '' @ i @ '' tombstone'')
                (forwards_apply_tombstone i (deleted_at_ms v)) s
         else s)
      else if sid \<notin> live then push_warning (''port_forward_rule '' @ i @ '': parent session '' @ sid @ '' absent'') s
      else
        (let at = (if is_sync mode then or_default (json_i64_opt v ''updated_at_ms'') 0 else now) in
         if is_sync mode \<and> lww_peer_loses at (hget stamps i) then s
         else if is_sync mode
           then exec forwards_applied_update (''port_forward_rule '' @ i @ '' upsert'')
                  (forwards_upsert_with_stamp i (forward_of v sid at) at) s
           else read_clock E (\<lambda>clock. exec forwards_applied_update (''port_forward_rule '' @ i @ '' upsert'')
                  (forwards_upsert_with_stamp i (forward_of v sid at) clock)) s))"

definition apply_port_forward_rules :: "apply_env \<Rightarrow> string \<Rightarrow> ApplyMode \<Rightarrow> int \<Rightarrow> apply_st \<Rightarrow> apply_st" where
  "apply_port_forward_rules E doc mode now = with_rows E ''port_forward_rules'' doc (\<lambda>vs s.
     fold (apply_one_port_forward_rule E mode (live_session_ids (a_db s)) (forward_stamps mode (a_db s)) now) vs s)"

section \<open>The driver\<close>

record WantFlags =
  want_keys :: bool
  want_sessions :: bool
  want_tags :: bool
  want_snippets :: bool
  want_known_hosts :: bool

definition want_from_options :: "ApplyOptions option \<Rightarrow> WantFlags" where
  "want_from_options opts =
     (let flag = (\<lambda>f. case opts of None \<Rightarrow> True | Some o' \<Rightarrow> f o') in
      \<lparr> want_keys = flag apply_keys_opt, want_sessions = flag apply_sessions_opt, want_tags = flag apply_tags_opt,
        want_snippets = flag apply_snippets_opt, want_known_hosts = flag apply_known_hosts_opt \<rparr>)"

definition apply_sessions_phase ::
  "apply_env \<Rightarrow> PendingImport \<Rightarrow> ApplyMode \<Rightarrow> bool \<Rightarrow> int \<Rightarrow> apply_st \<Rightarrow> path_ids \<times> apply_st" where
  "apply_sessions_phase E p mode want now s =
     (if \<not> want then (hempty, s)
      else
        (let (ids, s1) = (case sessions_json p of
               None \<Rightarrow> (hempty, s)
             | Some doc \<Rightarrow> (case apply_folder_tree E doc mode now s of
                 (ids, s') \<Rightarrow> (ids, apply_sessions E doc mode ids now s')))
         in case empty_folders_json p of
              None \<Rightarrow> (ids, s1)
            | Some doc \<Rightarrow> apply_empty_folders E doc ids now s1))"

definition apply_tags_phase ::
  "apply_env \<Rightarrow> PendingImport \<Rightarrow> ApplyMode \<Rightarrow> WantFlags \<Rightarrow> path_ids \<Rightarrow> int \<Rightarrow> apply_st \<Rightarrow> apply_st" where
  "apply_tags_phase E p mode w ids now s =
     (let s1 = when_json (want_tags w) (tags_json p) (\<lambda>doc. apply_tags E doc mode now) s;
          both = want_sessions w \<and> want_tags w
      in when_json both (folder_tags_json p) (\<lambda>doc. apply_folder_tags E doc ids)
           (when_json both (session_tags_json p) (apply_session_tags E) s1))"

definition apply_snippets_phase ::
  "apply_env \<Rightarrow> PendingImport \<Rightarrow> ApplyMode \<Rightarrow> WantFlags \<Rightarrow> int \<Rightarrow> apply_st \<Rightarrow> apply_st" where
  "apply_snippets_phase E p mode w now s =
     when_json (want_sessions w \<and> want_snippets w) (session_snippets_json p) (apply_session_snippets E)
       (when_json (want_snippets w) (snippets_json p) (\<lambda>doc. apply_snippets E doc mode now) s)"

definition apply_child_tables ::
  "apply_env \<Rightarrow> PendingImport \<Rightarrow> ApplyMode \<Rightarrow> bool \<Rightarrow> bool \<Rightarrow> int \<Rightarrow> apply_st \<Rightarrow> apply_st" where
  "apply_child_tables E p mode keys sessions now s =
     when_json sessions (forwards_json p) (\<lambda>doc. apply_port_forward_rules E doc mode now)
      (when_json sessions (bookmarks_json p) (\<lambda>doc. apply_sftp_bookmarks E doc mode now)
       (when_json sessions (s3_json p) (\<lambda>doc. apply_s3_session_details E doc mode now)
        (when_json sessions (webdav_json p) (\<lambda>doc. apply_webdav_session_details E doc mode now)
         (when_json keys (certificates_json p) (apply_ssh_key_certificates E) s))))"

definition run_apply ::
  "apply_env \<Rightarrow> PendingImport \<Rightarrow> ApplyMode \<Rightarrow> ApplyOptions option \<Rightarrow> int \<Rightarrow> apply_st \<Rightarrow> apply_st" where
  "run_apply E p mode opts now s =
     (let w = want_from_options opts;
          s1 = when_json (want_keys w) (keys_json p) (\<lambda>doc. apply_keys E doc mode now) s;
          (ids, s2) = apply_sessions_phase E p mode (want_sessions w) now s1;
          s3 = apply_tags_phase E p mode w ids now s2;
          s4 = apply_snippets_phase E p mode w now s3;
          s5 = when_json (want_known_hosts w) (known_hosts_text p) (\<lambda>doc. apply_known_hosts E doc now) s4
      in apply_child_tables E p mode (want_keys w) (want_sessions w) now s5)"

text \<open>The clearing of replace mode; a clear that fails is recorded, one that succeeds is not counted.\<close>

definition clear_kind :: "string \<Rightarrow> nat stmt \<Rightarrow> apply_st \<Rightarrow> apply_st" where
  "clear_kind kind m s =
     (case m (a_db s) of
        (Inr n, d) \<Rightarrow> s\<lparr> a_db := d \<rparr>
      | (Inl e, d) \<Rightarrow> push_error (''replace clear '' @ kind @ '': '' @ error_to_string e) (s\<lparr> a_db := d \<rparr>))"

definition clear_known_hosts :: "nat stmt" where
  "clear_known_hosts d = (case clear_all (t_known_hosts d) of (n, t) \<Rightarrow> (Inr n, d\<lparr> t_known_hosts := t \<rparr>))"

definition clear_at :: "apply_env \<Rightarrow> string \<Rightarrow> (int \<Rightarrow> nat stmt) \<Rightarrow> apply_st \<Rightarrow> apply_st" where
  "clear_at E kind m = read_clock E (\<lambda>now. clear_kind kind (m now))"

definition clear_session_kinds :: "apply_env \<Rightarrow> apply_st \<Rightarrow> apply_st" where
  "clear_session_kinds E s =
     clear_kind ''folders'' folders_delete_all
      (clear_at E ''sessions'' sessions_delete_all
       (clear_at E ''s3_session_details'' s3_delete_all
        (clear_at E ''webdav_session_details'' webdav_delete_all
         (clear_at E ''port_forward_rules'' forwards_delete_all
          (clear_at E ''sftp_bookmarks'' bookmarks_delete_all s)))))"

definition run_replace_clear :: "apply_env \<Rightarrow> ApplyOptions \<Rightarrow> apply_st \<Rightarrow> apply_st" where
  "run_replace_clear E opts s =
     (let s1 = (if apply_sessions_opt opts then clear_session_kinds E s else s);
          s2 = (if apply_tags_opt opts then clear_at E ''tags'' tags_delete_all s1 else s1);
          s3 = (if apply_snippets_opt opts then clear_at E ''snippets'' snippets_delete_all s2 else s2)
      in if apply_known_hosts_opt opts then clear_kind ''known_hosts'' clear_known_hosts s3 else s3)"

definition apply_pending_to_db ::
  "apply_env \<Rightarrow> PendingImport \<Rightarrow> ApplyMode \<Rightarrow> ApplyOptions \<Rightarrow> int \<Rightarrow> apply_st \<Rightarrow> apply_st" where
  "apply_pending_to_db E p mode opts now s =
     (case mode of
        ArchiveImport False \<Rightarrow> run_apply E p mode (Some opts) now s
      | ArchiveImport True \<Rightarrow>
          (let s' = run_apply E p mode (Some opts) now (run_replace_clear E opts s) in
           if errors (a_out s') \<noteq> [] then s'\<lparr> a_db := a_db s, a_out := (a_out s')\<lparr> rolled_back := True \<rparr> \<rparr>
           else s')
      | Sync \<Rightarrow> run_apply E p mode None now s)"

definition apply_pending_import :: "apply_env \<Rightarrow> PendingImport \<Rightarrow> ApplyOptions \<Rightarrow> int \<Rightarrow> apply_st \<Rightarrow> apply_st" where
  "apply_pending_import E p opts now s =
     apply_pending_to_db E p (ArchiveImport (replace_mode opts)) opts now (s\<lparr> a_out := outcome_default \<rparr>)"

definition apply_pending_import_merge :: "apply_env \<Rightarrow> PendingImport \<Rightarrow> ApplyOptions \<Rightarrow> int \<Rightarrow> apply_st \<Rightarrow> apply_st" where
  "apply_pending_import_merge E p opts now s =
     run_apply E p (ArchiveImport False) (Some opts) now (s\<lparr> a_out := outcome_default \<rparr>)"

text \<open>\<open>sync/merge.rs\<close>.\<close>

definition merge_pending_into_local :: "apply_env \<Rightarrow> PendingImport \<Rightarrow> apply_st \<Rightarrow> apply_st" where
  "merge_pending_into_local E p = read_clock E (\<lambda>now s.
     apply_pending_to_db E p Sync
       \<lparr> replace_mode = False, apply_sessions_opt = False, apply_keys_opt = False, apply_tags_opt = False,
         apply_snippets_opt = False, apply_known_hosts_opt = False \<rparr> now (s\<lparr> a_out := outcome_default \<rparr>))"

end
