(* ===== verification/Archive_Import.thy ===== *)
theory Archive_Import
  imports Archive_Apply "HOL-Library.Sublist"
begin

text \<open>
  What an import or a sync pull does to the database: a contract for properties of the database that
  every statement of the driver keeps, proved once for the whole driver and interpreted on referential
  integrity, on the shape of imported keys and on the join tables.
\<close>

section \<open>A property kept by the driver\<close>

text \<open>What \<open>build_key_row\<close> can write.\<close>

definition wire_key :: "SshKeyRow \<Rightarrow> bool" where
  "wire_key r \<longleftrightarrow> k_agent_policy r = Ask \<and> k_device r = no_device_cols \<and> pkcs11_module_path (k_pkcs11 r) = None \<and>
     (is_stub_backend (k_backend r) \<longrightarrow> k_private_key r = [] \<and> k_imported_as_stub r)"

lemma wire_key_build [simp]:
  "wire_key (build_key_row v now)" "wire_key ((build_key_row v now)\<lparr> k_id := i, k_created_at := at \<rparr>)"
  by (simp_all add: wire_key_def build_key_row_def Let_def)

text \<open>A statement, and a piece of the driver, that keeps a property of the state.\<close>

definition stays :: "(apply_st \<Rightarrow> bool) \<Rightarrow> 'a stmt \<Rightarrow> bool" where
  "stays Q m \<longleftrightarrow> (\<forall>s. Q s \<longrightarrow> Q (s\<lparr> a_db := snd (m (a_db s)) \<rparr>))"

definition holds_on :: "(apply_st \<Rightarrow> bool) \<Rightarrow> (apply_st \<Rightarrow> apply_st) \<Rightarrow> bool" where
  "holds_on Q f \<longleftrightarrow> (\<forall>s. Q s \<longrightarrow> Q (f s))"

lemma holds_onD: "holds_on Q f \<Longrightarrow> Q s \<Longrightarrow> Q (f s)"
  by (simp add: holds_on_def)

text \<open>The counters: an increment leaves the messages and the rollback flag alone.\<close>

definition counter_ok :: "counter \<Rightarrow> bool" where
  "counter_ok c \<longleftrightarrow> (\<forall>f out. errors (c f out) = errors out \<and> rolled_back (c f out) = rolled_back out)"

lemma counters_ok [simp]:
  "counter_ok sessions_applied_update" "counter_ok keys_applied_update" "counter_ok keys_skipped_dedup_update"
  "counter_ok tags_applied_update" "counter_ok snippets_applied_update" "counter_ok known_hosts_applied_update"
  "counter_ok folders_applied_update" "counter_ok session_tags_applied_update" "counter_ok folder_tags_applied_update"
  "counter_ok session_snippets_applied_update" "counter_ok certificates_applied_update" "counter_ok webdav_applied_update"
  "counter_ok s3_applied_update" "counter_ok bookmarks_applied_update" "counter_ok forwards_applied_update"
  "counter_ok links_skipped_update"
  by (simp_all add: counter_ok_def)

text \<open>
  What the reporting side promises: a property may depend on the database, on the errors so far and on
  the rollback flag, and further errors do not end it.
\<close>

locale report_invariant =
  fixes Q :: "apply_st \<Rightarrow> bool"
  assumes report: "Q s \<Longrightarrow> prefix (errors (a_out s)) (errors out) \<Longrightarrow> rolled_back out = rolled_back (a_out s) \<Longrightarrow>
      Q (s\<lparr> a_out := out \<rparr>)"
    and sources: "Q s \<Longrightarrow> Q (s\<lparr> a_ids := n \<rparr>)" "Q s \<Longrightarrow> Q (s\<lparr> a_ticks := n \<rparr>)"
begin

lemma reports [simp]:
  "Q s \<Longrightarrow> Q (push_error m s)" "Q s \<Longrightarrow> Q (push_warning m s)" "counter_ok c \<Longrightarrow> Q s \<Longrightarrow> Q (bump c s)"
  by (simp_all add: push_error_def push_warning_def bump_def report counter_ok_def)

lemma skip_keeps [simp]: "Q s \<Longrightarrow> Q (skip_link s)"
  by (simp add: skip_link_def)

lemma stays_case: "stays Q m \<Longrightarrow> Q s \<Longrightarrow> m (a_db s) = (x, d) \<Longrightarrow> Q (s\<lparr> a_db := d \<rparr>)"
  unfolding stays_def by (metis snd_conv)

lemma exec_keeps: "stays Q m \<Longrightarrow> counter_ok c \<Longrightarrow> Q s \<Longrightarrow> Q (exec c what m s)"
  by (auto simp: exec_def split: prod.split sum.split dest: stays_case)

lemma exec_link_keeps: "stays Q m \<Longrightarrow> counter_ok c \<Longrightarrow> Q s \<Longrightarrow> Q (exec_link c what m s)"
  by (auto simp: exec_link_def split: prod.split sum.split dest: stays_case)

lemma clear_kind_keeps: "stays Q m \<Longrightarrow> Q s \<Longrightarrow> Q (clear_kind kind m s)"
  by (auto simp: clear_kind_def split: prod.split sum.split dest: stays_case)

lemma clock_keeps: "(\<And>t s. Q s \<Longrightarrow> Q (f t s)) \<Longrightarrow> Q s \<Longrightarrow> Q (read_clock E f s)"
  by (simp add: read_clock_def sources)

lemma clear_at_keeps: "(\<And>t. stays Q (m t)) \<Longrightarrow> Q s \<Longrightarrow> Q (clear_at E kind m s)"
  by (simp add: clear_at_def clock_keeps clear_kind_keeps)

lemma holds_fold: "(\<And>x. holds_on Q (f x)) \<Longrightarrow> holds_on Q (fold f xs)"
  by (induction xs) (auto simp: holds_on_def)

text \<open>A loop whose body also takes the state it starts from.\<close>

lemma holds_fold_self: "(\<And>t x. holds_on Q (f t x)) \<Longrightarrow> holds_on Q (\<lambda>s. fold (f s) xs s)"
  using holds_fold [of "f _"] by (simp add: holds_on_def)

lemma holds_if: "holds_on Q f \<Longrightarrow> holds_on Q g \<Longrightarrow> holds_on Q (\<lambda>s. if c then f s else g s)"
  by (simp add: holds_on_def)

lemma holds_with_rows: "(\<And>vs. holds_on Q (f vs)) \<Longrightarrow> holds_on Q (with_rows E what doc f)"
  by (simp add: holds_on_def with_rows_def split: sum.split)

lemma when_json_keeps: "(\<And>doc. holds_on Q (f doc)) \<Longrightarrow> Q s \<Longrightarrow> Q (when_json want doc f s)"
  by (simp add: holds_on_def when_json_def split: option.split)

lemmas loops = holds_fold holds_fold_self holds_if holds_with_rows

end

text \<open>
  The contract: every statement an import issues keeps the property; keys are only asked about
  rows that came over the wire.
\<close>

locale import_invariant = report_invariant +
  assumes folder: "stays Q (folders_upsert i f)"
    and folder_path: "stays Q (ensure_folder_path ids path now n)"
    and session: "stays Q (sessions_upsert r)" "stays Q (sessions_apply_tombstone i at)"
    and key: "wire_key k \<Longrightarrow> stays Q (keys_upsert k)" "stays Q (keys_apply_tombstone i at)"
    and tag: "stays Q (tags_upsert i g)" "stays Q (tags_apply_tombstone i at)"
    and snippet: "stays Q (snippets_upsert i sn)" "stays Q (snippets_apply_tombstone i at)"
    and links: "stays Q (link_session_tag a b)" "stays Q (link_folder_tag a b)" "stays Q (link_session_snippet a b)"
    and host: "Q s \<Longrightarrow> Q (s\<lparr> a_db := (a_db s)\<lparr> t_known_hosts := kh \<rparr> \<rparr>)"
    and cert: "stays Q (certs_upsert i c)"
    and webdav: "stays Q (webdav_upsert_with_stamp i w at)" "stays Q (webdav_apply_tombstone i at)"
    and s3: "stays Q (s3_upsert_with_stamp i z at)" "stays Q (s3_apply_tombstone i at)"
    and bookmark: "stays Q (bookmarks_upsert i bk)" "stays Q (bookmarks_apply_tombstone i at)"
    and forward: "stays Q (forwards_upsert_with_stamp i pf at)" "stays Q (forwards_apply_tombstone i at)"
begin

lemmas statements = session tag snippet links cert webdav s3 bookmark forward key(2) key(1) [OF wire_key_build(1)]
  key(1) [OF wire_key_build(2)]

lemma holds_session: "holds_on Q (apply_one_session E mode ids stamps now v)"
  by (simp add: holds_on_def apply_one_session_def Let_def exec_keeps statements)

lemma holds_tag: "holds_on Q (apply_one_tag mode stamps now v)"
  by (simp add: holds_on_def apply_one_tag_def Let_def exec_keeps statements)

lemma holds_snippet: "holds_on Q (apply_one_snippet mode stamps now v)"
  by (simp add: holds_on_def apply_one_snippet_def Let_def exec_keeps statements)

lemma holds_keys: "holds_on Q (apply_one_key_sync stamps now v)" "holds_on Q (apply_one_key_archive E fps now v)"
  by (simp_all add: holds_on_def apply_one_key_sync_def apply_one_key_archive_def Let_def exec_keeps statements)

lemma holds_host: "holds_on Q (apply_known_hosts_line E now raw)"
  by (simp add: holds_on_def apply_known_hosts_line_def Let_def host split: option.split prod.split)

lemma holds_cert: "holds_on Q (apply_one_certificate E live v)"
  by (simp add: holds_on_def apply_one_certificate_def Let_def exec_keeps statements)

lemma holds_detail:
  "(\<And>i at. stays Q (bury i at)) \<Longrightarrow> (\<And>i v at. stays Q (store i v at)) \<Longrightarrow> counter_ok c \<Longrightarrow>
   holds_on Q (apply_one_detail E table c bury stamp store mode live now v)"
  by (simp add: holds_on_def apply_one_detail_def Let_def exec_keeps clock_keeps)

lemma holds_bookmark: "holds_on Q (apply_one_sftp_bookmark mode live stamps now v)"
  by (simp add: holds_on_def apply_one_sftp_bookmark_def Let_def exec_keeps statements)

lemma holds_forward: "holds_on Q (apply_one_port_forward_rule E mode live stamps now v)"
  by (simp add: holds_on_def apply_one_port_forward_rule_def Let_def exec_keeps clock_keeps statements)

lemmas rows = holds_session holds_tag holds_snippet holds_keys holds_host holds_cert holds_detail holds_bookmark holds_forward
  counters_ok

lemma holds_segments: "Q s \<Longrightarrow> Q (snd (materialise_segments E now label segs accum parent ms s))"
proof (induction segs arbitrary: accum parent ms s)
  case (Cons seg segs)
  obtain ids order where ms: "ms = (ids, order)" by (cases ms)
  have "Q (s\<lparr> a_ids := n \<rparr>)" for n using Cons.prems by (rule sources)
  from stays_case [OF folder this]
  have "folders_upsert i f (a_db s) = (x, d) \<Longrightarrow> Q (s\<lparr> a_ids := n, a_db := d \<rparr>)" for i f n x d by simp
  then show ?case
    using Cons.prems by (simp add: ms Let_def Cons.IH split: option.split prod.split sum.split)
qed simp

lemma holds_materialise: "Q (snd x) \<Longrightarrow> Q (snd (materialise_folder_path E now label path x))"
  by (simp add: materialise_folder_path_def holds_segments)

lemma holds_fold_snd: "(\<And>x y. Q (snd y) \<Longrightarrow> Q (snd (f x y))) \<Longrightarrow> Q (snd y) \<Longrightarrow> Q (snd (fold f xs y))"
  by (induction xs arbitrary: y) auto

lemma holds_ensure: "Q s \<Longrightarrow> Q (snd (ensure_folder_paths_sync E now paths s))"
  unfolding ensure_folder_paths_sync_def
proof (rule holds_fold_snd, goal_cases)
  case (1 path y)
  obtain out s where y: "y = (out, s)" by (cases y)
  have "ensure_folder_path ids path now n (a_db s) = (x, d) \<Longrightarrow> Q (s\<lparr> a_db := d, a_ids := m \<rparr>)" for ids n x d m
    using stays_case [OF folder_path] 1 y by (simp add: sources)
  then show ?case using 1 y by (simp split: prod.split sum.split option.split)
qed simp

lemma holds_tree: "Q s \<Longrightarrow> Q (snd (apply_folder_tree E doc mode now s))"
  by (simp add: apply_folder_tree_def Let_def holds_ensure case_prod_unfold holds_fold_snd holds_materialise split: sum.split)

lemma holds_empty_folders: "Q s \<Longrightarrow> Q (snd (apply_empty_folders E doc ids now s))"
  by (simp add: apply_empty_folders_def case_prod_unfold holds_fold_snd holds_materialise split: option.split)

lemma holds_sessions: "holds_on Q (apply_sessions E doc mode ids now)"
  unfolding apply_sessions_def by (intro loops rows)

lemma holds_sessions_phase: "Q s \<Longrightarrow> Q (snd (apply_sessions_phase E p mode want now s))"
  by (simp add: apply_sessions_phase_def case_prod_unfold Let_def holds_empty_folders holds_tree holds_onD [OF holds_sessions]
      split: option.split)

lemma holds_documents:
  "holds_on Q (apply_keys E doc mode now)" "holds_on Q (apply_tags E doc mode now)"
  "holds_on Q (apply_snippets E doc mode now)" "holds_on Q (apply_known_hosts E doc now)"
  "holds_on Q (apply_ssh_key_certificates E doc)" "holds_on Q (apply_webdav_session_details E doc mode now)"
  "holds_on Q (apply_s3_session_details E doc mode now)" "holds_on Q (apply_sftp_bookmarks E doc mode now)"
  "holds_on Q (apply_port_forward_rules E doc mode now)"
  unfolding apply_keys_def apply_tags_def apply_snippets_def apply_known_hosts_def apply_ssh_key_certificates_def
    apply_webdav_session_details_def apply_s3_session_details_def apply_sftp_bookmarks_def apply_port_forward_rules_def
  by (intro loops rows statements)+

lemma holds_link_rows:
  "holds_on Q (session_tag_row v)" "holds_on Q (session_snippet_row v)" "holds_on Q (folder_tag_row ids v)"
  by (simp_all add: holds_on_def session_tag_row_def session_snippet_row_def folder_tag_row_def Let_def exec_link_keeps
      links split: option.split)

lemma holds_link_documents:
  "holds_on Q (apply_session_tags E doc)" "holds_on Q (apply_session_snippets E doc)" "holds_on Q (apply_folder_tags E doc ids)"
  unfolding apply_session_tags_def apply_session_snippets_def apply_folder_tags_def
  by (intro loops holds_link_rows)+

lemma run_apply_keeps: "Q s \<Longrightarrow> Q (run_apply E p mode opts now s)"
  unfolding run_apply_def Let_def case_prod_unfold apply_child_tables_def apply_snippets_phase_def apply_tags_phase_def
  by (intro when_json_keeps holds_documents holds_link_documents holds_sessions_phase)

end

text \<open>The replace mode also clears.\<close>

locale replace_invariant = import_invariant +
  assumes clears: "stays Q (sessions_delete_all at)" "stays Q (s3_delete_all at)" "stays Q (webdav_delete_all at)"
      "stays Q (forwards_delete_all at)" "stays Q (bookmarks_delete_all at)" "stays Q (tags_delete_all at)"
      "stays Q (snippets_delete_all at)"
    and clear_folders: "stays Q folders_delete_all"
begin

lemma clear_keeps: "Q s \<Longrightarrow> Q (run_replace_clear E opts s)"
proof -
  have hosts: "stays Q clear_known_hosts" using host by (simp add: stays_def clear_known_hosts_def clear_all_def)
  have "Q s \<Longrightarrow> Q (clear_session_kinds E s)" for s
    by (simp add: clear_session_kinds_def clear_kind_keeps clear_at_keeps clears clear_folders)
  then show "Q s \<Longrightarrow> ?thesis"
    by (simp add: run_replace_clear_def Let_def clear_kind_keeps clear_at_keeps clears hosts)
qed

end

section \<open>Referential integrity\<close>

lemma keeps_stays: "keeps m \<Longrightarrow> stays (\<lambda>s. db_ok (a_db s)) m"
  by (simp add: keeps_def stays_def)

interpretation integrity: replace_invariant "\<lambda>s. db_ok (a_db s)"
  by unfold_locales (auto simp: ok_known_hosts intro!: keeps_stays db_keeps)


section \<open>All or nothing\<close>

definition failed :: "apply_st \<Rightarrow> bool" where
  "failed s \<longleftrightarrow> errors (a_out s) \<noteq> []"

interpretation failing: replace_invariant failed
  by unfold_locales (auto simp: stays_def failed_def)

interpretation flag: replace_invariant "\<lambda>s. \<not> rolled_back (a_out s)"
  by unfold_locales (auto simp: stays_def)

text \<open>The documents an import with these options reads, other than the list of empty folders.\<close>

definition wanted_documents :: "ApplyOptions \<Rightarrow> PendingImport \<Rightarrow> string option list" where
  "wanted_documents o' p =
     (let k = apply_keys_opt o'; s = apply_sessions_opt o'; t = apply_tags_opt o'; n = apply_snippets_opt o';
          doc = (\<lambda>want f. if want then f p else None)
      in [doc k keys_json, doc s sessions_json, doc t tags_json, doc (s \<and> t) session_tags_json,
          doc (s \<and> t) folder_tags_json, doc n snippets_json, doc (s \<and> n) session_snippets_json,
          doc k certificates_json, doc s webdav_json, doc s s3_json, doc s bookmarks_json, doc s forwards_json])"

definition unreadable :: "apply_env \<Rightarrow> string option \<Rightarrow> bool" where
  "unreadable E doc = (case doc of Some t \<Rightarrow> isl (parse_rows E t) | None \<Rightarrow> False)"

lemma with_rows_unreadable: "isl (parse_rows E doc) \<Longrightarrow> failed (with_rows E what doc f s)"
  by (auto simp: with_rows_def push_error_def isl_def failed_def)

lemmas document_defs = apply_keys_def apply_tags_def apply_snippets_def apply_ssh_key_certificates_def apply_sessions_def
  apply_webdav_session_details_def apply_s3_session_details_def apply_sftp_bookmarks_def apply_port_forward_rules_def
  apply_session_tags_def apply_folder_tags_def apply_session_snippets_def

lemma sessions_phase_unreadable:
  "unreadable E (sessions_json p) \<Longrightarrow> failed (snd (apply_sessions_phase E p mode True now s))"
  by (auto simp: unreadable_def apply_sessions_phase_def apply_sessions_def case_prod_unfold Let_def with_rows_unreadable
      failing.holds_empty_folders split: option.splits)

lemma when_json_unreadable:
  "unreadable E (if want then doc else None) \<Longrightarrow> (\<And>t. isl (parse_rows E t) \<Longrightarrow> failed (f t s)) \<Longrightarrow>
   failed (when_json want doc f s)"
  by (auto simp: unreadable_def when_json_def split: option.splits if_splits)

lemma document_unreadable:
  assumes "isl (parse_rows E t)"
  shows "failed (apply_keys E t mode now s)" "failed (apply_tags E t mode now s)"
    "failed (apply_snippets E t mode now s)" "failed (apply_ssh_key_certificates E t s)"
    "failed (apply_webdav_session_details E t mode now s)"
    "failed (apply_s3_session_details E t mode now s)"
    "failed (apply_sftp_bookmarks E t mode now s)"
    "failed (apply_port_forward_rules E t mode now s)"
    "failed (apply_session_tags E t s)" "failed (apply_folder_tags E t ids s)"
    "failed (apply_session_snippets E t s)"
  unfolding document_defs using assms by (rule with_rows_unreadable)+

lemma phase_unreadable:
  assumes "unreadable E (if want then doc else None)"
  shows "failed (when_json want doc (\<lambda>t. apply_keys E t mode now) s)" "failed (when_json want doc (\<lambda>t. apply_tags E t mode now) s)"
    "failed (when_json want doc (\<lambda>t. apply_snippets E t mode now) s)" "failed (when_json want doc (apply_ssh_key_certificates E) s)"
    "failed (when_json want doc (\<lambda>t. apply_webdav_session_details E t mode now) s)"
    "failed (when_json want doc (\<lambda>t. apply_s3_session_details E t mode now) s)"
    "failed (when_json want doc (\<lambda>t. apply_sftp_bookmarks E t mode now) s)"
    "failed (when_json want doc (\<lambda>t. apply_port_forward_rules E t mode now) s)"
    "failed (when_json want doc (apply_session_tags E) s)" "failed (when_json want doc (\<lambda>t. apply_folder_tags E t ids) s)"
    "failed (when_json want doc (apply_session_snippets E) s)"
  by (rule when_json_unreadable [OF assms], rule document_unreadable, assumption)+

lemmas keep_failing = failing.when_json_keeps [OF failing.holds_documents(1)] failing.when_json_keeps [OF failing.holds_documents(2)]
  failing.when_json_keeps [OF failing.holds_documents(3)] failing.when_json_keeps [OF failing.holds_documents(4)]
  failing.when_json_keeps [OF failing.holds_documents(5)] failing.when_json_keeps [OF failing.holds_documents(6)]
  failing.when_json_keeps [OF failing.holds_documents(7)] failing.when_json_keeps [OF failing.holds_documents(8)]
  failing.when_json_keeps [OF failing.holds_documents(9)] failing.when_json_keeps [OF failing.holds_link_documents(1)]
  failing.when_json_keeps [OF failing.holds_link_documents(2)] failing.when_json_keeps [OF failing.holds_link_documents(3)]

lemma run_apply_unreadable:
  assumes "\<exists>doc \<in> set (wanted_documents opts p). unreadable E doc"
  shows "failed (run_apply E p mode (Some opts) now s)"
proof -
  have sessions: "unreadable E (if want then sessions_json p else None) \<Longrightarrow>
      failed (snd (apply_sessions_phase E p mode want now s))" for want s
    using sessions_phase_unreadable by (cases want) (auto simp: unreadable_def)
  have "\<not> unreadable E None" by (simp add: unreadable_def)
  then show ?thesis
    using assms
    unfolding wanted_documents_def run_apply_def Let_def case_prod_unfold apply_child_tables_def apply_snippets_phase_def
      apply_tags_phase_def want_from_options_def
    by (simp only: list.set bex_simps insert_iff empty_iff option.case WantFlags.simps)
       (elim disjE FalseE; simp only: sessions phase_unreadable keep_failing failing.holds_sessions_phase)
qed

text \<open>
  C5. A replace import is all or nothing: it is rolled back exactly when it reports an error, a rolled-back import
  leaves the database as it was, and a document of a wanted kind that cannot be read always leads to that.
\<close>

theorem replace_all_or_nothing:
  assumes "replace_mode opts" and "s' = apply_pending_import E p opts now s"
  shows "(rolled_back (a_out s') \<longleftrightarrow> errors (a_out s') \<noteq> []) \<and> (rolled_back (a_out s') \<longrightarrow> a_db s' = a_db s) \<and>
    ((\<exists>doc \<in> set (wanted_documents opts p). unreadable E doc) \<longrightarrow> rolled_back (a_out s'))"
proof -
  define s0 where "s0 = run_replace_clear E opts (s\<lparr> a_out := outcome_default \<rparr>)"
  define s1 where "s1 = run_apply E p (ArchiveImport True) (Some opts) now s0"
  have "\<not> rolled_back (a_out s0)"
    unfolding s0_def by (rule flag.clear_keeps) (simp add: outcome_default_def)
  then have "\<not> rolled_back (a_out s1)" unfolding s1_def by (rule flag.run_apply_keeps)
  moreover have "(\<exists>doc \<in> set (wanted_documents opts p). unreadable E doc) \<Longrightarrow> errors (a_out s1) \<noteq> []"
    using run_apply_unreadable unfolding s1_def failed_def by blast
  moreover have "s' = (if errors (a_out s1) \<noteq> [] then s1\<lparr> a_db := a_db s, a_out := (a_out s1)\<lparr> rolled_back := True \<rparr> \<rparr> else s1)"
    using assms by (simp add: apply_pending_import_def apply_pending_to_db_def Let_def s1_def s0_def)
  ultimately show ?thesis by auto
qed

section \<open>Keys that come over the wire\<close>

definition keys_from :: "SshKeyRow set \<Rightarrow> db \<Rightarrow> bool" where
  "keys_from known d \<longleftrightarrow> (\<forall>(k, r, at) \<in> set (t_keys d). r \<in> known \<or> wire_key r)"

text \<open>Statements that leave a part of the database alone.\<close>

definition spares :: "(db \<Rightarrow> 'g) \<Rightarrow> 'a stmt \<Rightarrow> bool" where
  "spares g m \<longleftrightarrow> (\<forall>d. g (snd (m d)) = g d)"

named_theorems spare_rules

lemma spares_stays: "spares g m \<Longrightarrow> stays (\<lambda>s. P (g (a_db s))) m"
  by (simp add: stays_def spares_def)

lemma spares_dbind: "spares g m \<Longrightarrow> (\<And>x. spares g (k x)) \<Longrightarrow> spares g (dbind m k)"
  by (simp add: spares_def dbind_def split: prod.split sum.split) (metis snd_conv)

lemma spares_plain: "(\<And>d. g (f d) = g d) \<Longrightarrow> spares g (plain v f)"
  by (simp add: spares_def plain_def)

lemma spares_dreturn: "spares g (dreturn x)"
  by (simp add: spares_def dreturn_def)

lemma spares_segments:
  "(\<And>i f. spares g (folders_upsert i f)) \<Longrightarrow>
   g (snd (ensure_segments now ids segs by_parent parent n d)) = g d"
proof (induction segs arbitrary: by_parent parent n d)
  case (Cons seg segs)
  have "folders_upsert i f d = (x, d') \<Longrightarrow> g d' = g d" for i f x d'
    using Cons.prems unfolding spares_def by (metis snd_conv)
  then show ?case using Cons by (simp add: Let_def split: option.split prod.split sum.split)
qed simp

lemma spares_session:
  "spares g (upsert_slim r) \<Longrightarrow> spares g (upsert_ssh_details r) \<Longrightarrow> spares g (delete_ssh_details (r_id r)) \<Longrightarrow>
   spares g (delete_webdav_details (r_id r)) \<Longrightarrow> spares g (delete_s3_details (r_id r)) \<Longrightarrow> spares g (sessions_upsert r)"
  by (simp add: sessions_upsert_def Let_def spares_dbind spares_dreturn)

lemmas statement_defs = folders_upsert_def upsert_slim_def upsert_ssh_details_def delete_ssh_details_def
  delete_webdav_details_def delete_s3_details_def sessions_apply_tombstone_def keys_apply_tombstone_def tags_upsert_def
  tags_apply_tombstone_def bury_tags_def snippets_upsert_def snippets_apply_tombstone_def link_session_tag_def
  link_folder_tag_def link_session_snippet_def certs_upsert_def webdav_upsert_with_stamp_def webdav_apply_tombstone_def
  s3_upsert_with_stamp_def s3_apply_tombstone_def bookmarks_upsert_def bookmarks_apply_tombstone_def
  forwards_upsert_with_stamp_def forwards_apply_tombstone_def
  sessions_delete_all_def soft_delete_sessions_def s3_delete_all_def webdav_delete_all_def forwards_delete_all_def
  bury_forwards_def bookmarks_delete_all_def bury_bookmarks_def tags_delete_all_def snippets_delete_all_def bury_snippets_def
  folders_delete_all_def folders_remove_def keys_upsert_def

lemma spared_keys:
  "spares t_keys (folders_upsert i f)" "spares t_keys (upsert_slim r)" "spares t_keys (upsert_ssh_details r)"
  "spares t_keys (delete_ssh_details i)" "spares t_keys (delete_webdav_details i)" "spares t_keys (delete_s3_details i)"
  "spares t_keys (sessions_apply_tombstone i at)" "spares t_keys (tags_upsert i g)" "spares t_keys (tags_apply_tombstone i at)"
  "spares t_keys (snippets_upsert i n)" "spares t_keys (snippets_apply_tombstone i at)"
  "spares t_keys (link_session_tag a b)" "spares t_keys (link_folder_tag a b)" "spares t_keys (link_session_snippet a b)"
  "spares t_keys (certs_upsert i c)" "spares t_keys (webdav_upsert_with_stamp i w at)" "spares t_keys (webdav_apply_tombstone i at)"
  "spares t_keys (s3_upsert_with_stamp i z at)" "spares t_keys (s3_apply_tombstone i at)" "spares t_keys (bookmarks_upsert i bk)"
  "spares t_keys (bookmarks_apply_tombstone i at)" "spares t_keys (forwards_upsert_with_stamp i pf at)"
  "spares t_keys (forwards_apply_tombstone i at)" "spares t_keys (sessions_delete_all at)" "spares t_keys (s3_delete_all at)"
  "spares t_keys (webdav_delete_all at)" "spares t_keys (forwards_delete_all at)" "spares t_keys (bookmarks_delete_all at)"
  "spares t_keys (tags_delete_all at)" "spares t_keys (snippets_delete_all at)" "spares t_keys folders_delete_all"
  by (simp_all add: statement_defs spares_def guarded_def plain_def Let_def)

lemma spared_keys_path: "spares t_keys (ensure_folder_path ids path now n)"
  using spares_segments [where g = t_keys, OF spared_keys(1)] by (simp add: spares_def ensure_folder_path_def)

lemma wire_keys_put: "wire_key r \<Longrightarrow> stays (\<lambda>s. keys_from known (a_db s)) (keys_upsert r)"
  using set_hput_subset [of "k_id r" "(r, None)"] by (fastforce simp: stays_def keys_upsert_def plain_def keys_from_def)

lemma wire_keys_bury: "stays (\<lambda>s. keys_from known (a_db s)) (keys_apply_tombstone i at)"
  by (fastforce simp: stays_def keys_apply_tombstone_def Let_def plain_def keys_from_def update_where_def tmap_def
      split: if_splits)

lemma keys_from_spared: "spares t_keys m \<Longrightarrow> stays (\<lambda>s. keys_from known (a_db s)) m"
  by (simp add: stays_def spares_def keys_from_def)

lemma keys_from_hosts [simp]: "keys_from known (d\<lparr> t_known_hosts := kh \<rparr>) = keys_from known d"
  by (simp add: keys_from_def)

interpretation wire: replace_invariant "\<lambda>s. keys_from known (a_db s)" for known
  by unfold_locales
     (simp_all add: wire_keys_put wire_keys_bury keys_from_spared spared_keys spared_keys_path spares_session)

text \<open>
  C9. A key that an import or a sync pull brings in is never pre-authorised: the agent asks before using it, it carries no
  handle of another device's hardware and no path of a module, and a key bound to other hardware arrives
  without a private part.  Every key stored afterwards is such a row or was stored before.
\<close>

theorem imported_keys_not_authorised:
  assumes "(k, r, at) \<in> set (t_keys (a_db (apply_pending_to_db E p mode opts now s)))"
  shows "(\<exists>k' at'. (k', r, at') \<in> set (t_keys (a_db s))) \<or>
    k_agent_policy r = Ask \<and> k_device r = no_device_cols \<and> pkcs11_module_path (k_pkcs11 r) = None \<and>
    (is_stub_backend (k_backend r) \<longrightarrow> k_private_key r = [])"
proof -
  let ?known = "{r. \<exists>k' at'. (k', r, at') \<in> set (t_keys (a_db s))}"
  have start: "keys_from ?known (a_db s)" by (auto simp: keys_from_def)
  then have "keys_from ?known (a_db (apply_pending_to_db E p mode opts now s))"
    by (auto simp: apply_pending_to_db_def Let_def wire.run_apply_keeps wire.clear_keeps split: ApplyMode.split bool.split)
  then show ?thesis using assms by (auto simp: keys_from_def wire_key_def)
qed

section \<open>Links survive a replace\<close>

lemma spared_links:
  "spares t_session_tags (folders_upsert i f)" "spares t_session_tags (upsert_slim r)" "spares t_session_tags (upsert_ssh_details r)"
  "spares t_session_tags (delete_ssh_details i)" "spares t_session_tags (delete_webdav_details i)"
  "spares t_session_tags (delete_s3_details i)" "spares t_session_tags (sessions_apply_tombstone i at)"
  "spares t_session_tags (tags_upsert i g)" "spares t_session_tags (tags_apply_tombstone i at)"
  "spares t_session_tags (snippets_upsert i n)" "spares t_session_tags (snippets_apply_tombstone i at)"
  "spares t_session_tags (keys_upsert k)" "spares t_session_tags (keys_apply_tombstone i at)"
  "spares t_session_tags (link_folder_tag a b)" "spares t_session_tags (link_session_snippet a b)"
  "spares t_session_tags (certs_upsert i c)" "spares t_session_tags (webdav_upsert_with_stamp i w at)"
  "spares t_session_tags (webdav_apply_tombstone i at)" "spares t_session_tags (s3_upsert_with_stamp i z at)"
  "spares t_session_tags (s3_apply_tombstone i at)" "spares t_session_tags (bookmarks_upsert i bk)"
  "spares t_session_tags (bookmarks_apply_tombstone i at)" "spares t_session_tags (forwards_upsert_with_stamp i pf at)"
  "spares t_session_tags (forwards_apply_tombstone i at)" "spares t_session_tags (sessions_delete_all at)"
  "spares t_session_tags (s3_delete_all at)" "spares t_session_tags (webdav_delete_all at)"
  "spares t_session_tags (forwards_delete_all at)" "spares t_session_tags (bookmarks_delete_all at)"
  "spares t_session_tags (tags_delete_all at)" "spares t_session_tags (snippets_delete_all at)"
  "spares t_session_tags folders_delete_all"
  by (simp_all add: statement_defs spares_def guarded_def plain_def Let_def)

lemma spared_links_path: "spares t_session_tags (ensure_folder_path ids path now n)"
  using spares_segments [where g = t_session_tags, OF spared_links(1)] by (simp add: spares_def ensure_folder_path_def)

definition has_links :: "(string \<times> string) set \<Rightarrow> db \<Rightarrow> bool" where
  "has_links ls d \<longleftrightarrow> ls \<subseteq> set (t_session_tags d)"

lemma has_links_spared: "spares t_session_tags m \<Longrightarrow> stays (\<lambda>s. has_links ls (a_db s)) m"
  by (simp add: stays_def spares_def has_links_def)

lemma has_links_link: "stays (\<lambda>s. has_links ls (a_db s)) (link_session_tag a b)"
  by (auto simp: stays_def has_links_def link_session_tag_def guarded_def link_pair_def)

lemma has_links_hosts [simp]: "has_links ls (d\<lparr> t_known_hosts := kh \<rparr>) = has_links ls d"
  by (simp add: has_links_def)

interpretation linked_tags: replace_invariant "\<lambda>s. has_links ls (a_db s)" for ls
  by unfold_locales (simp_all add: has_links_spared has_links_link spared_links spared_links_path spares_session)

text \<open>
  No import removes a link between a session and a tag, a replace import included: the rows it clears are only marked
  deleted, so a session and a tag that the archive brings back under their ids are linked again as before.
\<close>

theorem replace_keeps_session_tags:
  "set (t_session_tags (a_db s)) \<subseteq> set (t_session_tags (a_db (apply_pending_to_db E p mode opts now s)))"
proof -
  let ?ls = "set (t_session_tags (a_db s))"
  have "has_links ?ls (a_db s)" by (simp add: has_links_def)
  then have "has_links ?ls (a_db (apply_pending_to_db E p mode opts now s))"
    by (auto simp: apply_pending_to_db_def Let_def linked_tags.run_apply_keeps linked_tags.clear_keeps
        split: ApplyMode.split bool.split)
  then show ?thesis by (simp add: has_links_def)
qed

section \<open>Witnesses\<close>

definition import_env :: "json list \<Rightarrow> apply_env" where
  "import_env docs = \<lparr> e_json = json_table docs, e_json_error = (\<lambda>s. ''expected value''), e_b64 = b64_ref,
     e_sha_hex = bytes_str, e_ids = (\<lambda>n. replicate (n + 1) (CHR ''i'')), e_clock = int \<rparr>"

definition import_start :: "db \<Rightarrow> apply_st" where
  "import_start d = \<lparr> a_db = d, a_out = outcome_default, a_ids = 0, a_ticks = 0 \<rparr>"

definition replace_everything :: ApplyOptions where
  "replace_everything = \<lparr> replace_mode = True, apply_sessions_opt = True, apply_keys_opt = True, apply_tags_opt = True,
     apply_snippets_opt = True, apply_known_hosts_opt = True \<rparr>"

lemma start_db [simp]: "a_db (import_start d) = d"
  by (simp add: import_start_def)


text \<open>Tags that are not JSON: nothing is cleared.\<close>

theorem replace_all_or_nothing_witness:
  "rolled_back (a_out (apply_pending_import (import_env []) (no_documents\<lparr> tags_json := Some ''x'' \<rparr>) replace_everything 5
      (import_start desk_db))) \<and>
   a_db (apply_pending_import (import_env []) (no_documents\<lparr> tags_json := Some ''x'' \<rparr>) replace_everything 5
      (import_start desk_db)) = desk_db"
proof -
  let ?p = "no_documents\<lparr> tags_json := Some ''x'' \<rparr>"
  have "json_parse (json_table []) ''x'' = None" by (auto simp: json_table_def split: bind_splits)
  then have "\<exists>doc \<in> set (wanted_documents replace_everything ?p). unreadable (import_env []) doc"
    by (simp add: wanted_documents_def replace_everything_def unreadable_def parse_rows_def import_env_def Let_def)
  moreover have "replace_mode replace_everything" by (simp add: replace_everything_def)
  ultimately show ?thesis
    using replace_all_or_nothing [OF _ refl, of replace_everything "import_env []" ?p 5 "import_start desk_db"]
    unfolding start_db by blast
qed

text \<open>A peer's TPM key with a private part in its row.\<close>

definition tpm_row :: json where
  "tpm_row = JObj [(''id'', JStr ''k''), (''backend'', JStr ''tpm''), (''private_key'', JStr ''secret'')]"

definition tpm_key :: SshKeyRow where
  "tpm_key = (build_key_row tpm_row 5)\<lparr> k_id := ''k'', k_created_at := 0 \<rparr>"

lemma import_table: "parse_rows (import_env [JArr vs]) ''0'' = Inr vs"
proof -
  have "parse_digits ''0'' = Some 0" by code_simp
  then show ?thesis by (simp add: parse_rows_def import_env_def json_table_def)
qed

lemma tpm_key_stored:
  "(''k'', tpm_key, None) \<in> set (t_keys (a_db (apply_pending_to_db (import_env [JArr [tpm_row]])
     (no_documents\<lparr> keys_json := Some ''0'' \<rparr>) Sync replace_everything 5 (import_start empty_db))))"
proof -
  have stamp: "peer_stamp tpm_row ''created_at'' = 0"
    by (simp add: peer_stamp_def tpm_row_def json_string_def jfield_def jget_def Iso8601.or_default_def parse_iso8601_opt_def)
  have id: "json_string tpm_row ''id'' = ''k''" "\<not> is_tombstone tpm_row"
    by (simp_all add: tpm_row_def json_string_def jfield_def jget_def as_str_def Iso8601.or_default_def is_tombstone_def
        json_bool_def)
  show ?thesis
    by (simp add: apply_pending_to_db_def run_apply_def no_documents_def when_json_def want_from_options_def Let_def
        apply_keys_def with_rows_def import_table is_sync_def apply_one_key_sync_def id stamp key_stamps_def keys_list_all_def
        keys_ordered_def keep_rows_def empty_db_def lww_peer_loses_def exec_def keys_upsert_def plain_def tpm_key_def
        apply_sessions_phase_def apply_tags_phase_def apply_snippets_phase_def apply_child_tables_def import_start_def bump_def
        hput_def hget_def)
qed

theorem imported_keys_not_authorised_witness:
  "k_agent_policy tpm_key = Ask \<and> k_backend tpm_key = Tpm \<and> k_private_key tpm_key = []"
proof -
  have "k_backend tpm_key = Tpm"
    by (simp add: tpm_key_def build_key_row_def tpm_row_def jfield_def jget_def as_str_def backend_from_db_def Let_def)
  moreover have "t_keys empty_db = []" by (simp add: empty_db_def)
  ultimately show ?thesis
    using imported_keys_not_authorised [OF tpm_key_stored] by (auto simp: is_stub_backend_def)
qed

end
