(* ===== verification/Sync_Merge.thy ===== *)
theory Sync_Merge
  imports Archive_Import
begin

text \<open>
  The merge of a pulled archive into the local database, row by row: the newest stamp wins for port-forward
  rules, deletions included; for sessions the gate does not see local deletions.
\<close>

section \<open>Port-forward rules: the newest wins\<close>

definition rule_id :: "json \<Rightarrow> string" where
  "rule_id v = json_string v ''id''"

definition peer_rule_stamp :: "json \<Rightarrow> int" where
  "peer_rule_stamp v = (if is_tombstone v then deleted_at_ms v else or_default (json_i64_opt v ''updated_at_ms'') 0)"

text \<open>
  The specification: a peer row that is not newer changes nothing; a newer deletion marks the local rule deleted
  and a newer live row replaces it (an unknown rule is stored, an unknown deletion is not).
\<close>

definition newest_rule :: "json \<Rightarrow> PortForwardRule option \<Rightarrow> PortForwardRule option" where
  "newest_rule v old =
     (case old of
        Some p \<Rightarrow>
          if peer_rule_stamp v \<le> p_updated_at p then Some p
          else if is_tombstone v
          then Some (p\<lparr> p_deleted_at := Some (peer_rule_stamp v), p_updated_at := peer_rule_stamp v \<rparr>)
          else Some ((forward_of v (json_string v ''session_id'') (peer_rule_stamp v))\<lparr> p_created_at := p_created_at p \<rparr>)
      | None \<Rightarrow> if is_tombstone v then None else Some (forward_of v (json_string v ''session_id'') (peer_rule_stamp v)))"

lemma is_sync_Sync [simp]: "is_sync Sync" "\<not> is_archive Sync"
  by (simp_all add: is_sync_def is_archive_def)

lemma a_db_report [simp]:
  "a_db (push_error m s) = a_db s" "a_db (push_warning m s) = a_db s" "a_db (bump c s) = a_db s"
  by (simp_all add: push_error_def push_warning_def bump_def)

lemma a_db_exec [simp]: "a_db (exec c what m s) = snd (m (a_db s))"
  by (simp add: exec_def split: prod.split sum.split)

lemma one_rule:
  assumes "rule_id v \<noteq> []" "json_string v ''session_id'' \<noteq> []" "json_string v ''session_id'' \<in> live"
    and "live \<subseteq> set (hkeys (t_sessions (a_db s)))"
    and "hget stamps (rule_id v) = map_option p_updated_at (hget (t_forwards (a_db s)) (rule_id v))"
    and s': "s' = apply_one_port_forward_rule E Sync live stamps now v s"
  shows "hget (t_forwards (a_db s')) i =
      (if i = rule_id v then newest_rule v (hget (t_forwards (a_db s)) i) else hget (t_forwards (a_db s)) i)"
    and "t_sessions (a_db s') = t_sessions (a_db s)"
proof -
  have fk: "json_string v ''session_id'' \<in> set (hkeys (t_sessions (a_db s)))" using assms(3,4) by blast
  have id: "json_string v ''id'' = rule_id v" by (simp add: rule_id_def)
  show "hget (t_forwards (a_db s')) i =
      (if i = rule_id v then newest_rule v (hget (t_forwards (a_db s)) i) else hget (t_forwards (a_db s)) i)"
    using assms(1-3,5) fk
    by (cases "hget (t_forwards (a_db s)) (rule_id v)")
       (auto simp: s' apply_one_port_forward_rule_def Let_def id newest_rule_def peer_rule_stamp_def lww_peer_loses_def
         forwards_apply_tombstone_def forwards_upsert_with_stamp_def plain_def guarded_def hget_update_where forward_of_def option.map_ident)
  show "t_sessions (a_db s') = t_sessions (a_db s)"
    by (simp add: s' apply_one_port_forward_rule_def Let_def forwards_apply_tombstone_def
        forwards_upsert_with_stamp_def plain_def guarded_def)
qed

lemma fold_rules:
  assumes "distinct (map rule_id vs)"
    and "\<And>v. v \<in> set vs \<Longrightarrow> rule_id v \<noteq> [] \<and> json_string v ''session_id'' \<noteq> [] \<and> json_string v ''session_id'' \<in> live"
    and "live \<subseteq> set (hkeys (t_sessions (a_db s)))"
    and "\<And>v. v \<in> set vs \<Longrightarrow> hget stamps (rule_id v) = map_option p_updated_at (hget (t_forwards (a_db s)) (rule_id v))"
  shows "hget (t_forwards (a_db (fold (apply_one_port_forward_rule E Sync live stamps now) vs s))) i =
    (case List.find (\<lambda>v. rule_id v = i) vs of
       None \<Rightarrow> hget (t_forwards (a_db s)) i | Some v \<Rightarrow> newest_rule v (hget (t_forwards (a_db s)) i))"
  using assms
proof (induction vs arbitrary: s)
  case (Cons v vs)
  let ?s = "apply_one_port_forward_rule E Sync live stamps now v s"
  have v: "rule_id v \<noteq> []" "json_string v ''session_id'' \<noteq> []" "json_string v ''session_id'' \<in> live"
    using Cons.prems(2) by auto
  have "hget stamps (rule_id v) = map_option p_updated_at (hget (t_forwards (a_db s)) (rule_id v))"
    using Cons.prems(4) by simp
  note one = one_rule [OF v Cons.prems(3) this refl, where E = E and now = now]
  have rest: "rule_id w \<noteq> rule_id v" if "w \<in> set vs" for w using Cons.prems(1) that by simp (metis image_eqI)
  have "hget (t_forwards (a_db (fold (apply_one_port_forward_rule E Sync live stamps now) vs ?s))) i =
    (case List.find (\<lambda>v. rule_id v = i) vs of
       None \<Rightarrow> hget (t_forwards (a_db ?s)) i | Some v \<Rightarrow> newest_rule v (hget (t_forwards (a_db ?s)) i))"
    using Cons.prems rest by (intro Cons.IH) (auto simp: one)
  moreover have "List.find (\<lambda>w. rule_id w = rule_id v) vs = None" using rest by (auto simp: find_None_iff)
  ultimately show ?case by (cases "i = rule_id v") (simp_all add: one(1) split: option.split)
qed simp

lemma hget_map_values: "hget (map (\<lambda>(k, p). (k, f p)) t) i = map_option f (hget t i)"
  by (induction t) (auto simp: hget_def)

lemma live_sessions_keys: "live_session_ids d \<subseteq> set (hkeys (t_sessions d))"
  by (auto simp: live_session_ids_def sessions_list_all_def sessions_ordered_def live_sessions_def keep_rows_def
      session_row_def hkeys_def rev_image_eqI)

text \<open>
  C6. A sync pull merges the port-forward rules by stamp: of the local and the pulled version of a rule the one with the
  greater stamp is kept, deletions count as versions, ties keep the local rule and rules the peer does not
  mention stay.  In particular a rule deleted here is not revived by an older copy.
\<close>

theorem forwards_newest_wins:
  assumes "parse_rows E doc = Inr vs" and "distinct (map rule_id vs)"
    and "\<forall>v \<in> set vs. rule_id v \<noteq> [] \<and> json_string v ''session_id'' \<noteq> [] \<and>
      json_string v ''session_id'' \<in> live_session_ids (a_db s)"
  shows "hget (t_forwards (a_db (apply_port_forward_rules E doc Sync now s))) i =
    (case List.find (\<lambda>v. rule_id v = i) vs of
       None \<Rightarrow> hget (t_forwards (a_db s)) i | Some v \<Rightarrow> newest_rule v (hget (t_forwards (a_db s)) i))"
proof -
  have "hget (forward_stamps Sync (a_db s)) k = map_option p_updated_at (hget (t_forwards (a_db s)) k)" for k
    by (simp add: forward_stamps_def hget_map_values)
  then show ?thesis
    using assms live_sessions_keys by (simp add: apply_port_forward_rules_def with_rows_def fold_rules)
qed

section \<open>Sessions: a deletion here does not count\<close>

lemma no_stamp_after_delete:
  "hget (session_stamps Sync (snd (sessions_delete i at d))) i = None"
proof -
  have "i \<notin> r_id ` set (sessions_list_all (snd (sessions_delete i at d)))"
    by (auto simp: sessions_list_all_def sessions_ordered_def live_sessions_def keep_rows_def session_row_def
        sessions_delete_def soft_delete_sessions_def plain_def Let_def update_where_def tmap_def split: if_splits)
  then show ?thesis by (auto simp: session_stamps_def hget_def map_of_eq_None_iff image_image)
qed

lemma upsert_revives:
  "resolves (r_folder_id r) (t_folders d) \<Longrightarrow>
   hget (t_sessions (snd (sessions_upsert r d))) (r_id r) = Some (slim_of r (hget (t_sessions d) (r_id r)))"
  by (simp add: sessions_upsert_def Let_def dbind_def upsert_slim_def guarded_def upsert_ssh_details_def plain_def
      delete_ssh_details_def delete_webdav_details_def delete_s3_details_def dreturn_def)

text \<open>
  C25. A session deleted on this device comes back with the next pull from a peer that still has it, however old the
  peer's copy is: the gate compares with the stamps of live rows only.
\<close>

theorem deleted_session_comes_back:
  assumes "json_string v ''id'' = i" "i \<noteq> []" "\<not> is_tombstone v"
    and "d = snd (sessions_delete i at d0)" and "a_db s = d"
    and "resolves (Option.bind (json_nonempty v ''folder'') (hget ids)) (t_folders d)"
  shows "sessions_get (a_db (apply_one_session E Sync ids (session_stamps Sync d) now v s)) i \<noteq> None"
proof -
  let ?r = "build_session_row E v Sync ids i (peer_stamp v ''updated_at'') now"
  have r: "r_id ?r = i" "r_folder_id ?r = Option.bind (json_nonempty v ''folder'') (hget ids)"
    by (simp_all add: build_session_row_def Let_def)
  have "a_db (apply_one_session E Sync ids (session_stamps Sync d) now v s) = snd (sessions_upsert ?r d)"
    using assms no_stamp_after_delete [of i at d0] by (simp add: apply_one_session_def Let_def lww_peer_loses_def)
  then show ?thesis using upsert_revives [of ?r d] assms(6) by (simp add: r sessions_get_def slim_of_def)
qed

section \<open>A session stored by halves\<close>

lemma slim_only:
  assumes "resolves (r_folder_id r) (t_folders d)" and "normalise_kind (r_kind r) = ''ssh''"
    and "\<not> resolves (d_via_session_id (r_ssh r)) (hput (r_id r) x (t_sessions d))"
  shows "t_ssh (snd (sessions_upsert r d)) = t_ssh d"
  using assms
  by (auto simp: sessions_upsert_def Let_def dbind_def upsert_slim_def guarded_def upsert_ssh_details_def resolves_def
      split: option.splits)

lemma stamp_of_live:
  assumes "hinv (t_sessions d)" and "hget (t_sessions d) i = Some x" and "s_deleted_at x = None"
  shows "hget (session_stamps Sync d) i = Some (s_updated_at x)"
proof -
  let ?f = "\<lambda>(k, x). (k, s_updated_at x)"
  let ?l = "sessions_ordered (live_sessions d)"
  have "map (\<lambda>r. (r_id r, r_updated_at r)) (sessions_list_all d) = map ?f ?l"
    by (auto simp: sessions_list_all_def session_row_def)
  moreover have "hget ?l i = Some x"
  proof -
    have "distinct (map fst ?l)" "(i, x) \<in> set ?l"
      using assms by (auto simp: sessions_ordered_def live_sessions_def keep_rows_def hinv_def hkeys_def distinct_map
          hget_def dest: map_of_SomeD intro: inj_on_subset)
    then show ?thesis by (simp add: hget_def)
  qed
  ultimately show ?thesis by (simp add: session_stamps_def hget_map_values)
qed

text \<open>
  A pulled SSH session whose jump host comes later in the archive is stored without its connection data, and
  pulling the same row again never repairs it, although the jump host is there by then: the row stored by halves
  carries the peer's stamp and wins the tie.
\<close>

theorem half_stored_session_stays:
  assumes "json_string v ''id'' = i" "i \<noteq> []" "\<not> is_tombstone v"
    and "hget (t_sessions (a_db s)) i = None" "hget (t_ssh (a_db s)) i = None"
    and "r = build_session_row E v Sync ids i (peer_stamp v ''updated_at'') now"
    and "resolves (r_folder_id r) (t_folders (a_db s))" "r_kind r = ''ssh''"
    and "d_via_session_id (r_ssh r) = Some jump" "jump \<noteq> i" "hget (t_sessions (a_db s)) jump = None"
    and "s' = apply_one_session E Sync ids (session_stamps Sync (a_db s)) now v s"
    and "hinv (t_sessions (a_db t))" "hget (t_sessions (a_db t)) i = hget (t_sessions (a_db s')) i"
  shows "sessions_get (a_db s') i \<noteq> None \<and> hget (t_ssh (a_db s')) i = None \<and>
    apply_one_session E Sync ids' (session_stamps Sync (a_db t)) now' v t = t"
proof -
  have r: "r_id r = i" "r_updated_at r = peer_stamp v ''updated_at''" using assms(6) by (simp_all add: build_session_row_def Let_def)
  have absent: "i \<notin> r_id ` set (sessions_list_all (a_db s))"
    using assms(4) by (auto simp: sessions_list_all_def sessions_ordered_def live_sessions_def keep_rows_def session_row_def
        hget_def map_of_eq_None_iff rev_image_eqI)
  then have "hget (session_stamps Sync (a_db s)) i = None"
    by (auto simp: session_stamps_def hget_def map_of_eq_None_iff image_image)
  then have s': "a_db s' = snd (sessions_upsert r (a_db s))"
    using assms by (simp add: apply_one_session_def Let_def lww_peer_loses_def)
  then have row: "hget (t_sessions (a_db s')) i = Some (slim_of r None)"
    using upsert_revives [OF assms(7)] r assms(4) by simp
  have "\<not> resolves (d_via_session_id (r_ssh r)) (hput (r_id r) (slim_of r None) (t_sessions (a_db s)))"
    using assms(9-11) by (simp add: resolves_def r)
  then have "t_ssh (a_db s') = t_ssh (a_db s)"
    unfolding s' using assms(7,8) by (intro slim_only) (auto simp: normalise_kind_def)
  moreover have "hget (session_stamps Sync (a_db t)) i = Some (peer_stamp v ''updated_at'')"
    using stamp_of_live [OF assms(13), of i "slim_of r None"] assms(14) row r by (simp add: slim_of_def)
  then have "apply_one_session E Sync ids' (session_stamps Sync (a_db t)) now' v t = t"
    using assms(1-3) by (simp add: apply_one_session_def Let_def lww_peer_loses_def)
  ultimately show ?thesis using row assms(5) by (simp add: sessions_get_def slim_of_def)
qed

section \<open>Host keys\<close>

text \<open>
  A pulled known-hosts line replaces the key this device trusted for that host and port, without asking.
\<close>

theorem pulled_host_key_replaces:
  assumes "three_fields (trim raw) = Some (hp, key_type, body)" and "trim raw \<noteq> []" "\<not> starts_with ''#'' (trim raw)"
    and "body \<noteq> []" "b64_decode (e_b64 E) body \<noteq> None" and "host_and_port hp = (host, port)"
  shows "kh_get (t_known_hosts (a_db (apply_known_hosts_line E now raw s))) (host, port) = Some (key_type, body, now)"
  using assms kh_get_put [of "(host, port)" "(key_type, body, now)"]
  by (auto simp: apply_known_hosts_line_def Let_def kh_put_def)

section \<open>Witnesses\<close>

lemma desk_live: "live_session_ids (desk_db\<lparr> t_forwards := x \<rparr>) = {''s''}" "keys_of (t_sessions desk_db) = {''s''}"
  by (simp_all add: live_session_ids_def sessions_list_all_def sessions_ordered_def live_sessions_def keep_rows_def session_row_def
      desk_db_def desk_session_def desk_folder_def empty_db_def folders_upsert_def sessions_upsert_def dbind_def
      upsert_slim_def upsert_ssh_details_def delete_webdav_details_def delete_s3_details_def plain_def guarded_def resolves_def
      normalise_kind_def ssh_absent_def slim_of_def hput_def hkeys_def hget_def hdel_def Let_def keys_of_def)

definition old_rule :: json where
  "old_rule = JObj [(''id'', JStr ''r''), (''session_id'', JStr ''s''), (''updated_at_ms'', JInt 5)]"

definition deleted_rule :: PortForwardRule where
  "deleted_rule = (forward_of old_rule ''s'' 9)\<lparr> p_deleted_at := Some 9 \<rparr>"

lemmas field_simps' = json_string_def jfield_def jget_def as_str_def or_default_def

lemma old_rule_fields:
  "rule_id old_rule = ''r''" "json_string old_rule ''session_id'' = ''s''" "peer_rule_stamp old_rule = 5"
  by (simp_all add: rule_id_def old_rule_def peer_rule_stamp_def field_simps' is_tombstone_def json_bool_def json_i64_opt_def
      as_i64_def)

text \<open>A rule deleted here at 9 and a peer's copy of 5.\<close>

theorem forwards_newest_wins_witness:
  "hget (t_forwards (a_db (apply_port_forward_rules (import_env [JArr [old_rule]]) ''0'' Sync 20
     (import_start (desk_db\<lparr> t_forwards := [(''r'', deleted_rule)] \<rparr>))))) ''r'' = Some deleted_rule"
proof -
  have "p_updated_at deleted_rule = 9" by (simp add: deleted_rule_def forward_of_def)
  then have "newest_rule old_rule (Some deleted_rule) = Some deleted_rule" by (simp add: newest_rule_def old_rule_fields)
  moreover have "hget (t_forwards (desk_db\<lparr> t_forwards := [(''r'', deleted_rule)] \<rparr>)) ''r'' = Some deleted_rule"
    by (simp add: hget_def)
  ultimately show ?thesis
    using forwards_newest_wins [OF import_table, of "[old_rule]" "import_start (desk_db\<lparr> t_forwards := [(''r'', deleted_rule)] \<rparr>)"
        20 "''r''"]
    by (simp add: old_rule_fields desk_live)
qed

definition stale_session :: json where
  "stale_session = JObj [(''id'', JStr ''s''), (''updated_at'', JStr ''2001-01-01T00:00:00.000Z'')]"

text \<open>The session of the example is deleted at 50; a peer still has a copy of 2001.\<close>

theorem deleted_session_comes_back_witness:
  "sessions_get (snd (sessions_delete ''s'' 50 desk_db)) ''s'' = None \<and>
   sessions_get (a_db (apply_one_session (import_env []) Sync [] (session_stamps Sync (snd (sessions_delete ''s'' 50 desk_db))) 60
     stale_session (import_start (snd (sessions_delete ''s'' 50 desk_db))))) ''s'' \<noteq> None"
proof
  have f: "json_string stale_session ''id'' = ''s''" "\<not> is_tombstone stale_session"
    "json_nonempty stale_session ''folder'' = None"
    by (simp_all add: stale_session_def field_simps' is_tombstone_def json_bool_def json_nonempty_def)
  show "sessions_get (a_db (apply_one_session (import_env []) Sync [] (session_stamps Sync (snd (sessions_delete ''s'' 50 desk_db))) 60
     stale_session (import_start (snd (sessions_delete ''s'' 50 desk_db))))) ''s'' \<noteq> None"
    by (rule deleted_session_comes_back [OF f(1) _ f(2) refl]) (simp_all add: resolves_def f)
  show "sessions_get (snd (sessions_delete ''s'' 50 desk_db)) ''s'' = None"
    by (auto simp: sessions_get_def sessions_delete_def soft_delete_sessions_def plain_def Let_def hget_update_where
        split: option.splits)
qed

definition jump_row :: json where
  "jump_row = JObj [(''id'', JStr ''a''), (''via_session_id'', JStr ''b''), (''updated_at'', JStr ''2001-01-01T00:00:00.000Z'')]"

text \<open>The first pull into an empty database, and the same row again afterwards.\<close>

theorem half_stored_session_stays_witness:
  "let s' = apply_one_session (import_env []) Sync [] (session_stamps Sync empty_db) 60 jump_row (import_start empty_db) in
   sessions_get (a_db s') ''a'' \<noteq> None \<and> hget (t_ssh (a_db s')) ''a'' = None \<and>
   apply_one_session (import_env []) Sync [] (session_stamps Sync (a_db s')) 70 jump_row s' = s'"
proof -
  let ?s = "apply_one_session (import_env []) Sync [] (session_stamps Sync (a_db (import_start empty_db))) 60 jump_row (import_start empty_db)"
  let ?r = "build_session_row (import_env []) jump_row Sync [] ''a'' (peer_stamp jump_row ''updated_at'') 60"
  have f: "json_string jump_row ''id'' = ''a''" "\<not> is_tombstone jump_row" "r_folder_id ?r = None" "r_kind ?r = ''ssh''"
    "d_via_session_id (r_ssh ?r) = Some ''b''"
    by (simp_all add: jump_row_def field_simps' is_tombstone_def json_bool_def json_nonempty_def build_session_row_def Let_def)
  have e: "t_sessions empty_db = []" "t_ssh empty_db = []" by (simp_all add: empty_db_def)
  have "db_ok (a_db ?s)"
    using integrity.holds_session [of "import_env []" Sync "[]"] empty_db_ok by (simp add: holds_on_def)
  then have "hinv (t_sessions (a_db ?s))" by (simp add: db_parts)
  from half_stored_session_stays [OF f(1) _ f(2) _ _ refl _ f(4,5) _ _ refl this refl, of "[]" 70]
  show ?thesis using f(3) by (simp add: e resolves_def hget_def Let_def)
qed

text \<open>A host whose key a peer has replaced.\<close>

theorem pulled_host_key_replaces_witness:
  "kh_get (t_known_hosts (a_db (apply_known_hosts_line (import_env []) 60 ''h:22 ssh-rsa KEY''
     (import_start (empty_db\<lparr> t_known_hosts := kh_put (''h'', 22) (''ssh-rsa'', ''OLD'', 1) kh_empty \<rparr>))))) (''h'', 22)
   = Some (''ssh-rsa'', ''KEY'', 60)"
proof -
  have "three_fields (trim ''h:22 ssh-rsa KEY'') = Some (''h:22'', ''ssh-rsa'', ''KEY'')" by code_simp
  moreover have "trim ''h:22 ssh-rsa KEY'' \<noteq> []" "\<not> starts_with ''#'' (trim ''h:22 ssh-rsa KEY'')" by code_simp+
  moreover have "host_and_port ''h:22'' = (''h'', 22)" by code_simp
  ultimately show ?thesis
    by (intro pulled_host_key_replaces) (simp_all add: import_env_def b64_ref_def)
qed

end
