(* ===== verification/Sync_Service.thy ===== *)
theory Sync_Service
  imports Sync_Merge Config_Store Archive_Envelope
begin

text \<open>
  Push and pull, \<open>sync/service.rs\<close>, with the two verbs of \<open>webdav/client.rs\<close> they use.  A device is its
  configuration store, its secret store and its database; the server is a parameter: what it answers to a
  conditional \<open>GET\<close> and \<open>PUT\<close> of a path, and its state after a \<open>PUT\<close>.  Composing the archive from the
  database, the ZIP reader, the HTTP client underneath (joining the path, authentication, transport
  failures) and the text of third-party errors are parameters too.  The hop to a blocking thread and the
  failure to join it are left out.
\<close>

section \<open>The WebDAV verbs\<close>

record http_response =
  h_status :: nat
  h_etag :: "string option"
  h_body :: "string + bytes"

text \<open>A server: \<open>Inl\<close> is the text of a failure before any answer.\<close>

record 'v server =
  sv_get :: "'v \<Rightarrow> string \<Rightarrow> string option \<Rightarrow> string + http_response"
  sv_put :: "'v \<Rightarrow> string \<Rightarrow> bytes \<Rightarrow> string option \<Rightarrow> (string + http_response) \<times> 'v"

definition is_success :: "nat \<Rightarrow> bool" where
  "is_success st \<longleftrightarrow> 200 \<le> st \<and> st < 300"

definition map_status_error :: "(nat \<Rightarrow> string option) \<Rightarrow> nat \<Rightarrow> string \<Rightarrow> Error" where
  "map_status_error canonical st verb =
     (let label =
        (if st = 401 then ''authentication failed'' else if st = 403 then ''forbidden''
         else if st = 404 then ''not found'' else if st = 405 then ''method not allowed''
         else if st = 409 then ''conflict'' else if st = 412 then ''etag mismatch''
         else if st = 423 then ''locked'' else if st = 507 then ''insufficient storage''
         else case canonical st of Some t \<Rightarrow> t | None \<Rightarrow> ''unexpected status'')
      in EWebDav (verb @ '': HTTP '' @ dec st @ '': '' @ label))"

definition quote_etag :: "string \<Rightarrow> string" where
  "quote_etag etag =
     (let t = trim etag; q = [CHR 0x22] in
      if starts_with q t \<and> ends_with q t then t else q @ t @ q)"

definition normalise_etag_header :: "string \<Rightarrow> string" where
  "normalise_etag_header raw =
     (let t = trim raw;
          s = (case strip_prefix ''W/'' t of Some r \<Rightarrow> r
               | None \<Rightarrow> (case strip_prefix ''w/'' t of Some r \<Rightarrow> r | None \<Rightarrow> t))
      in case Option.bind (strip_prefix [CHR 0x22] s) (strip_suffix [CHR 0x22]) of Some r \<Rightarrow> r | None \<Rightarrow> s)"

definition dav_get ::
  "(nat \<Rightarrow> string option) \<Rightarrow> 'v server \<Rightarrow> 'v \<Rightarrow> string \<Rightarrow> string option \<Rightarrow> Error + http_response" where
  "dav_get canonical S v path if_none_match =
     (case sv_get S v path if_none_match of
        Inl e \<Rightarrow> Inl (EWebDav e)
      | Inr r \<Rightarrow>
          if h_status r = 304 then Inr r
          else if \<not> is_success (h_status r) then Inl (map_status_error canonical (h_status r) ''get'')
          else Inr r)"

definition dav_put ::
  "(nat \<Rightarrow> string option) \<Rightarrow> 'v server \<Rightarrow> 'v \<Rightarrow> string \<Rightarrow> bytes \<Rightarrow> string option \<Rightarrow> (Error + string option) \<times> 'v" where
  "dav_put canonical S v path body if_match =
     (case sv_put S v path body (map_option quote_etag if_match) of
        (Inl e, v') \<Rightarrow> (Inl (EWebDav e), v')
      | (Inr r, v') \<Rightarrow>
          (if \<not> is_success (h_status r) then Inl (map_status_error canonical (h_status r) ''put'')
           else Inr (map_option normalise_etag_header (h_etag r)), v'))"

section \<open>Data\<close>

datatype SyncResult =
    Pushed nat string
  | PullApplied nat nat nat nat nat
  | UpToDate
  | Skipped string

datatype SyncError =
    SyDisabled | SyConfigInvalid string | SyNetwork string | SyEtagMismatch | SyUnauthorized
  | SyArchiveFutureVersion int int

definition str_contains :: "string \<Rightarrow> string \<Rightarrow> bool" where
  "str_contains pat s \<longleftrightarrow> list_ex (\<lambda>i. starts_with pat (drop i s)) [0..<Suc (length s)]"

definition sync_error_from :: "Error \<Rightarrow> SyncError" where
  "sync_error_from e =
     (case e of
        EWebDav s \<Rightarrow>
          if str_contains ''etag mismatch'' s then SyEtagMismatch
          else if str_contains ''authentication failed'' s then SyUnauthorized else SyNetwork s
      | EArchiveFutureVersion found supported \<Rightarrow> SyArchiveFutureVersion found supported
      | other \<Rightarrow> SyNetwork (error_to_string other))"

text \<open>The fields of \<open>ExportInput\<close> that are not constants of the sync path.\<close>

record sync_export =
  xi_session_ids :: "string list"
  xi_config_json :: string
  xi_master_password :: string
  xi_created_at_ms :: int
  xi_sync_origin :: string

record sync_env =
  q_apply :: apply_env
  q_f64 :: f64_lib
  q_export :: "db \<Rightarrow> sync_export \<Rightarrow> Error + bytes"
  q_unzip :: "bytes \<Rightarrow> Error + PendingImport \<times> int"
  q_kdf :: argon
  q_aead :: aead_lib
  q_mobile :: bool
  q_crypto_error :: "crypto_error \<Rightarrow> Error"
  q_new_client :: "string \<Rightarrow> string \<Rightarrow> string option \<Rightarrow> string \<Rightarrow> Error option"
  q_canonical :: "nat \<Rightarrow> string option"
  q_utf8_error :: "bytes \<Rightarrow> string"
  q_install_id :: string
  q_mono :: int

record device =
  v_store :: Store
  v_secrets :: SecretStore
  v_db :: "db option"
  v_ids :: nat
  v_ticks :: nat

definition MAX_ARCHIVE_BYTES :: nat where
  "MAX_ARCHIVE_BYTES = 256 * 1024 * 1024"

definition ARCHIVE_SCHEMA :: int where
  "ARCHIVE_SCHEMA = 1"

record SyncStatus =
  sst_enabled :: bool
  sst_last_pushed_at_ms :: int
  sst_last_pulled_at_ms :: int
  sst_last_error :: "string option"

definition sync_status :: "device \<Rightarrow> SyncStatus" where
  "sync_status w =
     (let cfg = (case get_app_config (v_store w) of Some c \<Rightarrow> ac_sync c | None \<Rightarrow> sync_default) in
      \<lparr> sst_enabled = sy_enabled cfg, sst_last_pushed_at_ms = sy_last_pushed_at_ms cfg,
        sst_last_pulled_at_ms = sy_last_pulled_at_ms cfg, sst_last_error = None \<rparr>)"

section \<open>Plumbing\<close>

definition sync_prepare :: "device \<Rightarrow> SyncError + SyncConfig" where
  "sync_prepare w =
     (case get_app_config (v_store w) of
        None \<Rightarrow> Inl (SyConfigInvalid ''config_store not initialised'')
      | Some c \<Rightarrow>
          if \<not> sy_enabled (ac_sync c) then Inl SyDisabled
          else if sy_webdav_url (ac_sync c) = [] then Inl (SyConfigInvalid ''WebDAV URL is empty'')
          else Inr (ac_sync c))"

definition read_secret :: "sync_env \<Rightarrow> string \<Rightarrow> device \<Rightarrow> SyncError + string" where
  "read_secret E i w =
     (case secret_get i (v_secrets w) of
        None \<Rightarrow> Inl (SyConfigInvalid (''secret not staged: '' @ i))
      | Some bs \<Rightarrow>
          (case from_utf8 bs of
             None \<Rightarrow> Inl (SyConfigInvalid (''secret not UTF-8: '' @ q_utf8_error E bs))
           | Some s \<Rightarrow> Inr s))"

definition require_db :: "device \<Rightarrow> SyncError + db" where
  "require_db w = (case v_db w of None \<Rightarrow> Inl (SyConfigInvalid ''DB not initialised'') | Some d \<Rightarrow> Inr d)"

definition build_client :: "sync_env \<Rightarrow> SyncConfig \<Rightarrow> string \<Rightarrow> SyncError + unit" where
  "build_client E cfg password =
     (if sy_webdav_auth_method cfg \<notin> {''basic'', ''digest'', ''bearer''}
      then Inl (SyConfigInvalid (''unknown auth method: '' @ sy_webdav_auth_method cfg))
      else case q_new_client E (sy_webdav_url cfg) (sy_webdav_auth_method cfg)
                  (if sy_webdav_username cfg = [] then None else Some (sy_webdav_username cfg)) password of
             Some e \<Rightarrow> Inl (SyConfigInvalid (error_to_string e))
           | None \<Rightarrow> Inr ())"

definition persist_sync :: "sync_env \<Rightarrow> SyncConfig \<Rightarrow> device \<Rightarrow> (SyncError + unit) \<times> device" where
  "persist_sync E cfg w =
     (case update_sync (q_mono E) cfg (v_store w) of
        (Inl e, st) \<Rightarrow> (Inl (SyConfigInvalid e), w\<lparr> v_store := st \<rparr>)
      | (Inr u, st) \<Rightarrow> (Inr (), w\<lparr> v_store := st \<rparr>))"

definition device_clock :: "sync_env \<Rightarrow> device \<Rightarrow> int \<times> device" where
  "device_clock E w = (e_clock (q_apply E) (v_ticks w), w\<lparr> v_ticks := v_ticks w + 1 \<rparr>)"

text \<open>The archive of a push: every session, deleted ones included, and the portable configuration.\<close>

definition compose_archive :: "sync_env \<Rightarrow> db \<Rightarrow> string \<Rightarrow> string \<Rightarrow> int \<Rightarrow> device \<Rightarrow> SyncError + bytes \<times> string" where
  "compose_archive E d origin passphrase now w =
     (let cfg = (case get_app_config (v_store w) of Some c \<Rightarrow> c | None \<Rightarrow> app_default);
          input = \<lparr> xi_session_ids = map (\<lambda>(r, updated, deleted). r_id r) (sessions_list_all_with_tombstones d),
            xi_config_json = json_print (e_json (q_apply E)) (strip_for_export (app_to_json (q_f64 E) cfg)),
            xi_master_password = passphrase, xi_created_at_ms = now, xi_sync_origin = origin \<rparr>
      in case q_export E d input of
           Inl e \<Rightarrow> Inl (sync_error_from e)
         | Inr bs \<Rightarrow> Inr (bs, e_sha_hex (q_apply E) bs))"

definition parse_archive_bytes :: "sync_env \<Rightarrow> bytes \<Rightarrow> string \<Rightarrow> SyncError + PendingImport" where
  "parse_archive_bytes E body passphrase =
     (let zip =
        (if length body \<ge> 4 \<and> take 4 body = [0x4C, 0x46, 0x53, 0x45]
         then (case decrypt_archive_with_password (q_kdf E) (q_aead E) (q_mobile E) body passphrase of
                 Inl e \<Rightarrow> Inl (sync_error_from (q_crypto_error E e))
               | Inr z \<Rightarrow> Inr z)
         else if length body \<ge> 4 \<and> take 4 body = [0x50, 0x4B, 0x03, 0x04] then Inr body
         else Inl (SyNetwork ''remote archive: not an LFSE envelope or ZIP file''))
      in case zip of
           Inl e \<Rightarrow> Inl e
         | Inr z \<Rightarrow>
             (case q_unzip E z of
                Inl e \<Rightarrow> Inl (sync_error_from e)
              | Inr (p, schema) \<Rightarrow>
                  if \<not> (1 \<le> schema \<and> schema \<le> ARCHIVE_SCHEMA) then Inl (SyArchiveFutureVersion schema ARCHIVE_SCHEMA)
                  else Inr p))"

definition parse_sync_origin :: "sync_env \<Rightarrow> PendingImport \<Rightarrow> string option" where
  "parse_sync_origin E p =
     Option.bind (manifest_json p) (\<lambda>m. Option.bind (json_parse (e_json (q_apply E)) m) (\<lambda>v.
       json_nonempty v ''sync_origin''))"

section \<open>Push\<close>

definition push_upload ::
  "sync_env \<Rightarrow> 'v server \<Rightarrow> SyncConfig \<Rightarrow> bytes \<Rightarrow> string \<Rightarrow> int \<Rightarrow> device \<Rightarrow> 'v \<Rightarrow> (SyncError + SyncResult) \<times> device \<times> 'v" where
  "push_upload E S cfg bs sha now w v =
     (case dav_put (q_canonical E) S v (sy_remote_path cfg) bs
             (if sy_last_pushed_etag cfg = [] then None else Some (sy_last_pushed_etag cfg)) of
        (Inl e, v') \<Rightarrow> (Inl (sync_error_from e), w, v')
      | (Inr etag, v') \<Rightarrow>
          (case persist_sync E (cfg\<lparr> sy_last_pushed_at_ms := now, sy_last_pushed_sha256 := sha,
                  sy_last_pushed_etag := (case etag of Some t \<Rightarrow> t | None \<Rightarrow> []) \<rparr>) w of
             (Inl e, w') \<Rightarrow> (Inl e, w', v')
           | (Inr u, w') \<Rightarrow> (Inr (Pushed (length bs) sha), w', v')))"

definition push_composed ::
  "sync_env \<Rightarrow> 'v server \<Rightarrow> SyncConfig \<Rightarrow> string \<Rightarrow> string \<Rightarrow> db \<Rightarrow> int \<Rightarrow> device \<Rightarrow> 'v \<Rightarrow>
   (SyncError + SyncResult) \<times> device \<times> 'v" where
  "push_composed E S cfg pw passphrase d now w v =
     (let origin = q_install_id E @ '':'' @ display_int now; (made, w1) = device_clock E w in
      case compose_archive E d origin passphrase made w1 of
        Inl e \<Rightarrow> (Inl e, w1, v)
      | Inr (bs, sha) \<Rightarrow>
          if sha = sy_last_pushed_sha256 cfg \<and> sy_last_pushed_sha256 cfg \<noteq> [] then (Inr UpToDate, w1, v)
          else (case build_client E cfg pw of
                  Inl e \<Rightarrow> (Inl e, w1, v)
                | Inr u \<Rightarrow> push_upload E S cfg bs sha now w1 v))"

definition push :: "sync_env \<Rightarrow> 'v server \<Rightarrow> device \<Rightarrow> 'v \<Rightarrow> (SyncError + SyncResult) \<times> device \<times> 'v" where
  "push E S w v =
     (case sync_prepare w of
        Inl e \<Rightarrow> (Inl e, w, v)
      | Inr cfg \<Rightarrow>
          (case read_secret E (sy_webdav_password_ref cfg) w of
             Inl e \<Rightarrow> (Inl e, w, v)
           | Inr pw \<Rightarrow>
               (case read_secret E (sy_passphrase_ref cfg) w of
                  Inl e \<Rightarrow> (Inl e, w, v)
                | Inr passphrase \<Rightarrow>
                    (let (now, w1) = device_clock E w in
                     case require_db w1 of
                       Inl e \<Rightarrow> (Inl e, w1, v)
                     | Inr d \<Rightarrow> push_composed E S cfg pw passphrase d now w1 v))))"

section \<open>Pull\<close>

definition build_if_none_match :: "SyncConfig \<Rightarrow> string option" where
  "build_if_none_match cfg =
     (let a = (if sy_last_pushed_etag cfg = [] then [] else [quote_etag (sy_last_pushed_etag cfg)]);
          q = quote_etag (sy_last_pulled_etag cfg);
          b = (if sy_last_pulled_etag cfg = [] \<or> q \<in> set a then a else a @ [q])
      in if b = [] then None else Some (join '', '' b))"

definition sha_match_outcome :: "SyncConfig \<Rightarrow> string \<Rightarrow> string \<Rightarrow> SyncConfig option option" where
  "sha_match_outcome cfg etag sha =
     (let pushed = sy_last_pushed_sha256 cfg \<noteq> [] \<and> sha = sy_last_pushed_sha256 cfg;
          pulled = sy_last_pulled_sha256 cfg \<noteq> [] \<and> sha = sy_last_pulled_sha256 cfg
      in if \<not> (pushed \<or> pulled) then None
         else if etag \<noteq> [] \<and> etag \<noteq> sy_last_pulled_etag cfg
         then Some (Some (cfg\<lparr> sy_last_pulled_etag := etag, sy_last_pulled_sha256 := sha \<rparr>))
         else Some None)"

definition own_origin_outcome ::
  "sync_env \<Rightarrow> SyncConfig \<Rightarrow> PendingImport \<Rightarrow> string \<Rightarrow> string \<Rightarrow> SyncConfig option option" where
  "own_origin_outcome E cfg p etag sha =
     (case parse_sync_origin E p of
        None \<Rightarrow> None
      | Some origin \<Rightarrow>
          if \<not> starts_with (q_install_id E @ '':'') origin then None
          else if etag \<noteq> [] \<and> (etag \<noteq> sy_last_pulled_etag cfg \<or> sha \<noteq> sy_last_pulled_sha256 cfg)
          then Some (Some (cfg\<lparr> sy_last_pulled_etag := etag, sy_last_pulled_sha256 := sha \<rparr>))
          else Some None)"

definition as_u32_count :: "int \<Rightarrow> nat" where
  "as_u32_count n = nat (n mod 2 ^ 32)"

definition merge_result :: "ApplyOutcome \<Rightarrow> SyncResult" where
  "merge_result out = PullApplied (as_u32_count (sessions_applied out)) (as_u32_count (keys_applied out))
     (as_u32_count (tags_applied out)) (as_u32_count (snippets_applied out)) (as_u32_count (bookmarks_applied out))"

text \<open>The merge on the device's database: the result of the driver and the device with the new database.\<close>

definition device_merge :: "sync_env \<Rightarrow> PendingImport \<Rightarrow> db \<Rightarrow> device \<Rightarrow> ApplyOutcome \<times> device" where
  "device_merge E p d w =
     (let s = merge_pending_into_local (q_apply E) p
            \<lparr> a_db = d, a_out = outcome_default, a_ids = v_ids w, a_ticks = v_ticks w \<rparr>
      in (a_out s, w\<lparr> v_db := Some (a_db s), v_ids := a_ids s, v_ticks := a_ticks s \<rparr>))"

definition pull_body ::
  "sync_env \<Rightarrow> SyncConfig \<Rightarrow> string \<Rightarrow> db \<Rightarrow> string \<Rightarrow> bytes \<Rightarrow> device \<Rightarrow> (SyncError + SyncResult \<times> SyncConfig option) \<times> device" where
  "pull_body E cfg passphrase d etag body w =
     (let sha = e_sha_hex (q_apply E) body in
      case sha_match_outcome cfg etag sha of
        Some upd \<Rightarrow> (Inr (UpToDate, upd), w)
      | None \<Rightarrow>
          (case parse_archive_bytes E body passphrase of
             Inl e \<Rightarrow> (Inl e, w)
           | Inr p \<Rightarrow>
               (case own_origin_outcome E cfg p etag sha of
                  Some upd \<Rightarrow> (Inr (UpToDate, upd), w)
                | None \<Rightarrow>
                    (let (out, w1) = device_merge E p d w; (now, w2) = device_clock E w1
                     in (Inr (merge_result out, Some (cfg\<lparr> sy_last_pulled_at_ms := now, sy_last_pulled_etag := etag,
                           sy_last_pulled_sha256 := sha \<rparr>)), w2)))))"

definition pull_with_client ::
  "sync_env \<Rightarrow> 'v server \<Rightarrow> SyncConfig \<Rightarrow> string \<Rightarrow> db \<Rightarrow> device \<Rightarrow> 'v \<Rightarrow>
   (SyncError + SyncResult \<times> SyncConfig option) \<times> device" where
  "pull_with_client E S cfg passphrase d w v =
     (case dav_get (q_canonical E) S v (sy_remote_path cfg) (build_if_none_match cfg) of
        Inl e \<Rightarrow>
          (case e of
             EWebDav s \<Rightarrow> if str_contains ''not found'' s then (Inr (Skipped ''no remote archive'', None), w)
                          else (Inl (sync_error_from e), w)
           | _ \<Rightarrow> (Inl (sync_error_from e), w))
      | Inr r \<Rightarrow>
          if h_status r = 304 then (Inr (UpToDate, None), w)
          else
            (let etag = (case h_etag r of Some t \<Rightarrow> normalise_etag_header t | None \<Rightarrow> []) in
             case h_body r of
               Inl e \<Rightarrow> (Inl (SyNetwork (''body read: '' @ e)), w)
             | Inr body \<Rightarrow>
                 if length body > MAX_ARCHIVE_BYTES
                 then (Inl (SyNetwork (''remote archive '' @ dec (length body) @ '' bytes exceeds '' @ dec MAX_ARCHIVE_BYTES @
                         ''-byte cap'')), w)
                 else pull_body E cfg passphrase d etag body w))"

definition pull_persist ::
  "sync_env \<Rightarrow> (SyncError + SyncResult \<times> SyncConfig option) \<times> device \<Rightarrow> (SyncError + SyncResult) \<times> device" where
  "pull_persist E x =
     (case x of
        (Inl e, w) \<Rightarrow> (Inl e, w)
      | (Inr (res, None), w) \<Rightarrow> (Inr res, w)
      | (Inr (res, Some cfg), w) \<Rightarrow>
          (case persist_sync E cfg w of (Inl e, w') \<Rightarrow> (Inl e, w') | (Inr u, w') \<Rightarrow> (Inr res, w')))"

definition pull :: "sync_env \<Rightarrow> 'v server \<Rightarrow> device \<Rightarrow> 'v \<Rightarrow> (SyncError + SyncResult) \<times> device" where
  "pull E S w v =
     (case sync_prepare w of
        Inl e \<Rightarrow> (Inl e, w)
      | Inr cfg \<Rightarrow>
          (case read_secret E (sy_webdav_password_ref cfg) w of
             Inl e \<Rightarrow> (Inl e, w)
           | Inr pw \<Rightarrow>
               (case read_secret E (sy_passphrase_ref cfg) w of
                  Inl e \<Rightarrow> (Inl e, w)
                | Inr passphrase \<Rightarrow>
                    (case build_client E cfg pw of
                       Inl e \<Rightarrow> (Inl e, w)
                     | Inr u \<Rightarrow>
                         (case require_db w of
                            Inl e \<Rightarrow> (Inl e, w)
                          | Inr d \<Rightarrow> pull_persist E (pull_with_client E S cfg passphrase d w v))))))"

section \<open>Lemmas\<close>

definition device_sync :: "device \<Rightarrow> SyncConfig option" where
  "device_sync w = map_option ac_sync (cs_current (v_store w))"

lemma prepare_cfg: "sync_prepare w = Inr cfg \<Longrightarrow> device_sync w = Some cfg"
  by (auto simp: sync_prepare_def device_sync_def get_app_config_def split: option.splits if_splits)

lemma sanitized_fields [simp]:
  "sy_last_pushed_etag (sync_sanitized c) = sy_last_pushed_etag c" "sy_last_pulled_etag (sync_sanitized c) = sy_last_pulled_etag c"
  "sy_last_pushed_sha256 (sync_sanitized c) = sy_last_pushed_sha256 c"
  "sy_last_pulled_sha256 (sync_sanitized c) = sy_last_pulled_sha256 c"
  "sy_enabled (sync_sanitized c) = sy_enabled c" "sy_webdav_url (sync_sanitized c) = sy_webdav_url c"
  "sy_webdav_username (sync_sanitized c) = sy_webdav_username c"
  by (simp_all add: sync_sanitized_def)

lemma persist_sync_sync:
  "persist_sync E cfg w = (x, w') \<Longrightarrow> device_sync w' = device_sync w \<or> device_sync w' = Some (sync_sanitized cfg)"
  by (auto simp: persist_sync_def update_sync_def device_sync_def cs_swap_def split: option.splits if_splits)

lemma persist_sync_rest:
  "v_db (snd (persist_sync E cfg w)) = v_db w" "v_secrets (snd (persist_sync E cfg w)) = v_secrets w"
  by (simp_all add: persist_sync_def split: prod.split sum.split)

text \<open>What a pull may write to the configuration: the fields of a push stay.\<close>

definition same_push :: "SyncConfig \<Rightarrow> SyncConfig \<Rightarrow> bool" where
  "same_push c c' \<longleftrightarrow> sy_last_pushed_etag c' = sy_last_pushed_etag c \<and> sy_remote_path c' = sy_remote_path c"

lemma pull_with_client_cfg:
  "pull_with_client E S cfg passphrase d w v = (Inr (res, Some cfg'), w') \<Longrightarrow> same_push cfg cfg'"
  by (auto simp: pull_with_client_def pull_body_def sha_match_outcome_def own_origin_outcome_def same_push_def Let_def
      split: sum.splits option.splits if_splits Error.splits prod.splits)

lemma pull_with_client_sync: "device_sync (snd (pull_with_client E S cfg passphrase d w v)) = device_sync w"
  by (auto simp: pull_with_client_def pull_body_def device_merge_def device_clock_def device_sync_def Let_def
      split: sum.splits option.splits Error.splits prod.splits)

section \<open>After a peer has pushed\<close>

text \<open>
  Documented behaviour of the server (RFC 7232): with \<open>If-Match\<close> naming a tag other than the current one a
  \<open>PUT\<close> is answered 412 and stores nothing.
\<close>

definition checks_if_match :: "'v server \<Rightarrow> ('v \<Rightarrow> string \<Rightarrow> string option) \<Rightarrow> bool" where
  "checks_if_match S tag \<longleftrightarrow> (\<forall>v path body q t. tag v path = Some t \<longrightarrow> q \<noteq> t \<longrightarrow>
     (\<exists>r. sv_put S v path body (Some q) = (Inr r, v) \<and> h_status r = 412))"

lemma dav_put_refused:
  assumes "checks_if_match S tag" "tag v path = Some t" "quote_etag e \<noteq> t"
  shows "\<exists>m. dav_put canonical S v path body (Some e) = (Inl (EWebDav m), v)"
proof -
  obtain r where "sv_put S v path body (Some (quote_etag e)) = (Inr r, v)" "h_status r = 412"
    using assms unfolding checks_if_match_def by blast
  then show ?thesis by (simp add: dav_put_def is_success_def map_status_error_def Let_def)
qed

definition pushed_with :: "string \<Rightarrow> string \<Rightarrow> device \<Rightarrow> bool" where
  "pushed_with e path w \<longleftrightarrow>
     (\<exists>cfg. device_sync w = Some cfg \<and> sy_last_pushed_etag cfg = e \<and> sy_remote_path cfg = path)"

lemma push_refused:
  assumes "checks_if_match S tag" "tag v path = Some t" "quote_etag e \<noteq> t" "e \<noteq> []" and "pushed_with e path w"
    and "push E S w v = (res, w', v')"
  shows "v' = v \<and> pushed_with e path w' \<and> (\<nexists>n h. res = Inr (Pushed n h))"
proof -
  have clock: "device_sync (snd (device_clock E w)) = device_sync w" for w by (simp add: device_clock_def device_sync_def)
  obtain cfg where cfg: "device_sync w = Some cfg" "sy_last_pushed_etag cfg = e" "sy_remote_path cfg = path"
    using assms(5) by (auto simp: pushed_with_def)
  have upload: "\<exists>m. push_upload E S cfg bs sha now w1 v = (Inl m, w1, v)" for bs sha now w1
    using dav_put_refused [OF assms(1-3), of "q_canonical E" bs] cfg assms(4) by (auto simp: push_upload_def)
  have composed: "push_composed E S cfg pw passphrase d now w1 v = (res, w', v') \<Longrightarrow>
      v' = v \<and> device_sync w' = device_sync w1 \<and> (\<nexists>n h. res = Inr (Pushed n h))" for pw passphrase d now w1
    using upload [of _ _ now "snd (device_clock E w1)"] clock [of w1]
    by (auto simp: push_composed_def case_prod_unfold Let_def split: sum.splits if_splits) (metis Inl_Inr_False Pair_inject snd_conv)+
  have "v' = v \<and> device_sync w' = device_sync w \<and> (\<nexists>n h. res = Inr (Pushed n h))"
    using assms(6) composed clock [of w] cfg(1)
    by (auto simp: push_def case_prod_unfold Let_def split: sum.splits dest!: prepare_cfg)
  then show ?thesis using assms(5) by (simp add: pushed_with_def)
qed

lemma pull_with_client_res:
  "pull_with_client E S cfg passphrase d w v = (Inr (Pushed n h, u), w') \<Longrightarrow> False"
  by (auto simp: pull_with_client_def pull_body_def merge_result_def Let_def
      split: sum.splits option.splits if_splits Error.splits prod.splits)

lemma pull_persist_keeps:
  assumes "pull_persist E (pull_with_client E S cfg passphrase d w v) = (res, w')" and "device_sync w = Some cfg"
  shows "(\<exists>cfg'. device_sync w' = Some cfg' \<and> (same_push cfg cfg' \<or> same_push (sync_sanitized cfg) cfg'))
    \<and> (\<nexists>n h. res = Inr (Pushed n h))"
proof -
  obtain x w1 where x: "pull_with_client E S cfg passphrase d w v = (x, w1)" by fastforce
  have w1: "device_sync w1 = Some cfg" using pull_with_client_sync [of E S cfg passphrase d w v] x assms(2) by simp
  have refl: "same_push cfg cfg" by (simp add: same_push_def)
  show ?thesis
  proof (cases x)
    case (Inl e)
    then show ?thesis using assms(1) x w1 refl by (auto simp: pull_persist_def)
  next
    case (Inr y)
    obtain r u where y: "y = (r, u)" by (cases y)
    have r: "\<nexists>n h. r = Pushed n h" using pull_with_client_res [of E S cfg passphrase d w v _ _ u w1] x Inr y by auto
    show ?thesis
    proof (cases u)
      case None
      then show ?thesis using assms(1) x Inr y w1 r refl by (auto simp: pull_persist_def)
    next
      case (Some cfg')
      have same: "same_push cfg cfg'" using pull_with_client_cfg [of E S cfg passphrase d w v r] x Inr y Some by simp
      obtain z w2 where z: "persist_sync E cfg' w1 = (z, w2)" by fastforce
      have res: "w' = w2" "res = (case z of Inl e \<Rightarrow> Inl e | Inr q \<Rightarrow> Inr r)"
        using assms(1) x Inr y Some z by (auto simp: pull_persist_def split: sum.splits)
      have "same_push (sync_sanitized cfg) (sync_sanitized cfg')"
        using same by (simp add: same_push_def sync_sanitized_def)
      then show ?thesis using persist_sync_sync [OF z] w1 refl r res by (auto split: sum.splits)
    qed
  qed
qed

lemma pull_keeps_pushed:
  assumes "pushed_with e path w" "path \<noteq> []" and "pull E S w v = (res, w')"
  shows "pushed_with e path w' \<and> (\<nexists>n h. res = Inr (Pushed n h))"
proof -
  obtain cfg where cfg: "device_sync w = Some cfg" "sy_last_pushed_etag cfg = e" "sy_remote_path cfg = path"
    using assms(1) by (auto simp: pushed_with_def)
  have path: "sy_remote_path (sync_sanitized cfg) = path" using cfg assms(2) by (simp add: sync_sanitized_def)
  have "pull_persist E (pull_with_client E S cfg passphrase d w v) = (res, w') \<Longrightarrow>
      pushed_with e path w' \<and> (\<nexists>n h. res = Inr (Pushed n h))" for passphrase d
    using pull_persist_keeps [OF _ cfg(1)] cfg path by (fastforce simp: pushed_with_def same_push_def)
  then show ?thesis
    using assms(1,3) cfg(1) by (auto simp: pull_def split: sum.splits dest!: prepare_cfg)
qed

text \<open>A sequence of calls on one device, each at its own time, while nobody else writes to the server.\<close>

datatype sync_call = DoPush | DoPull

fun sync_run ::
  "'v server \<Rightarrow> (sync_env \<times> sync_call) list \<Rightarrow> device \<Rightarrow> 'v \<Rightarrow> (SyncError + SyncResult) list \<times> device \<times> 'v" where
  "sync_run S [] w v = ([], w, v)"
| "sync_run S ((E, DoPush) # cs) w v =
     (case push E S w v of (r, w1, v1) \<Rightarrow> (case sync_run S cs w1 v1 of (rs, w2, v2) \<Rightarrow> (r # rs, w2, v2)))"
| "sync_run S ((E, DoPull) # cs) w v =
     (case pull E S w v of (r, w1) \<Rightarrow> (case sync_run S cs w1 v of (rs, w2, v2) \<Rightarrow> (r # rs, w2, v2)))"

text \<open>
  C14. Once a peer has replaced the archive a device pushed, that device can never push again by itself: no sequence of
  pushes and pulls, however long, uploads anything, because a push is conditional on the tag of the device's
  own last push and a pull does not renew it.
\<close>

theorem peer_push_blocks_pushes:
  assumes "checks_if_match S tag" and "tag v path = Some t" and "quote_etag e \<noteq> t"
    and "e \<noteq> []" "path \<noteq> []" and "pushed_with e path w"
  shows "snd (snd (sync_run S calls w v)) = v \<and> (\<forall>r \<in> set (fst (sync_run S calls w v)). \<nexists>n h. r = Inr (Pushed n h))"
  using assms(6)
proof (induction calls arbitrary: w)
  case (Cons c calls)
  obtain E k where c: "c = (E, k)" by (cases c)
  show ?case
  proof (cases k)
    case DoPush
    obtain r w1 v1 where p: "push E S w v = (r, w1, v1)" by (cases "push E S w v") auto
    from push_refused [OF assms(1-4) Cons.prems p] Cons.IH [of w1] show ?thesis
      by (auto simp: c DoPush p split: prod.splits)
  next
    case DoPull
    obtain r w1 where p: "pull E S w v = (r, w1)" by (cases "pull E S w v") auto
    from pull_keeps_pushed [OF Cons.prems assms(5) p] Cons.IH [of w1] show ?thesis
      by (auto simp: c DoPull p split: prod.splits)
  qed
qed simp

section \<open>A device's own push\<close>

text \<open>
  Documented behaviour of the server: after a \<open>PUT\<close> it accepted, a \<open>GET\<close> of the path is answered with 304 or
  with what was put.
\<close>

definition returns_put :: "'v server \<Rightarrow> bool" where
  "returns_put S \<longleftrightarrow> (\<forall>v path body im r v' inm. sv_put S v path body im = (Inr r, v') \<longrightarrow> is_success (h_status r) \<longrightarrow>
     (\<exists>r'. sv_get S v' path inm = Inr r' \<and>
        (h_status r' = 304 \<or> is_success (h_status r') \<and> h_status r' \<noteq> 304 \<and> h_body r' = Inr body)))"

lemma success_304 [simp]: "\<not> is_success 304"
  by (simp add: is_success_def)

lemma persist_success:
  assumes "persist_sync E cfg w = (Inr u, w')"
  obtains c where "cs_current (v_store w) = Some c" "cs_file_path (v_store w) \<noteq> None"
    "cs_current (v_store w') = Some (c\<lparr> ac_sync := sync_sanitized cfg \<rparr>)"
    "cs_file_path (v_store w') = cs_file_path (v_store w)" "v_secrets w' = v_secrets w" "v_db w' = v_db w"
  using assms by (auto simp: persist_sync_def update_sync_def cs_swap_def split: option.splits if_splits)

lemma push_upload_success:
  assumes "push_upload E S cfg bs sha now w v = (Inr (Pushed n h), w', v')"
  obtains r im etag u where "sv_put S v (sy_remote_path cfg) bs im = (Inr r, v')" "is_success (h_status r)"
    "n = length bs" "h = sha"
    "persist_sync E (cfg\<lparr> sy_last_pushed_at_ms := now, sy_last_pushed_sha256 := sha, sy_last_pushed_etag := etag \<rparr>) w = (Inr u, w')"
  using assms by (auto simp: push_upload_def dav_put_def split: prod.splits sum.splits if_splits)

lemma push_success:
  assumes "push E S w v = (Inr (Pushed n h), w', v')"
  obtains cfg pw passphrase bs now k d where
    "sync_prepare w = Inr cfg" "read_secret E (sy_webdav_password_ref cfg) w = Inr pw"
    "read_secret E (sy_passphrase_ref cfg) w = Inr passphrase" "v_db w = Some d" "build_client E cfg pw = Inr ()"
    "push_upload E S cfg bs (e_sha_hex (q_apply E) bs) now (w\<lparr> v_ticks := k \<rparr>) v = (Inr (Pushed n h), w', v')"
  using assms
  by (auto simp: push_def push_composed_def compose_archive_def device_clock_def require_db_def Let_def
      split: sum.splits option.splits if_splits)

text \<open>
  C13. What a device has just pushed never comes back to it as a merge: a pull before anybody else writes reports that
  everything is up to date and leaves the database alone, whether or not the server sends entity tags.
\<close>

theorem own_push_not_merged:
  assumes "push E S w v = (Inr (Pushed n h), w1, v1)" and "cs_inv (v_store w)" and "returns_put S"
    and "\<forall>bs. e_sha_hex (q_apply E) bs \<noteq> []" and "n \<le> MAX_ARCHIVE_BYTES"
  shows "\<exists>w2. pull E S w1 v1 = (Inr UpToDate, w2) \<and> v_db w2 = v_db w"
proof -
  obtain cfg pw passphrase bs now k d where p: "sync_prepare w = Inr cfg"
    "read_secret E (sy_webdav_password_ref cfg) w = Inr pw" "read_secret E (sy_passphrase_ref cfg) w = Inr passphrase"
    "v_db w = Some d" "build_client E cfg pw = Inr ()"
    and up: "push_upload E S cfg bs (e_sha_hex (q_apply E) bs) now (w\<lparr> v_ticks := k \<rparr>) v = (Inr (Pushed n h), w1, v1)"
    using push_success [OF assms(1)] by metis
  obtain r im etag u where put: "sv_put S v (sy_remote_path cfg) bs im = (Inr r, v1)" "is_success (h_status r)"
    and n: "n = length bs"
    and per: "persist_sync E (cfg\<lparr> sy_last_pushed_at_ms := now, sy_last_pushed_sha256 := e_sha_hex (q_apply E) bs,
       sy_last_pushed_etag := etag \<rparr>) (w\<lparr> v_ticks := k \<rparr>) = (Inr u, w1)"
    using push_upload_success [OF up] by metis
  define cfg1 where "cfg1 = sync_sanitized (cfg\<lparr> sy_last_pushed_at_ms := now,
    sy_last_pushed_sha256 := e_sha_hex (q_apply E) bs, sy_last_pushed_etag := etag \<rparr>)"
  obtain c where c: "cs_current (v_store w) = Some c" "cs_file_path (v_store w) \<noteq> None"
    "cs_current (v_store w1) = Some (c\<lparr> ac_sync := cfg1 \<rparr>)" "cs_file_path (v_store w1) = cs_file_path (v_store w)"
    "v_secrets w1 = v_secrets w" "v_db w1 = v_db w"
    using persist_success [OF per] unfolding cfg1_def by auto
  have cfg: "ac_sync c = cfg" "sy_enabled cfg" "sy_webdav_url cfg \<noteq> []"
    using p(1) c(1) by (auto simp: sync_prepare_def get_app_config_def split: if_splits)
  have "app_sanitized c = c" using assms(2) c(1) by (simp add: cs_inv_def)
  then have "ac_sync (app_sanitized c) = ac_sync c" by simp
  then have san: "sync_sanitized cfg = cfg" using cfg(1) by (simp add: app_sanitized_def)
  have "sy_webdav_password_ref cfg1 = sy_webdav_password_ref (sync_sanitized cfg)"
    "sy_passphrase_ref cfg1 = sy_passphrase_ref (sync_sanitized cfg)"
    "sy_webdav_auth_method cfg1 = sy_webdav_auth_method (sync_sanitized cfg)"
    "sy_remote_path cfg1 = sy_remote_path (sync_sanitized cfg)"
    by (simp_all add: cfg1_def sync_sanitized_def)
  note same = this [unfolded san]
  have kept: "sy_enabled cfg1" "sy_webdav_url cfg1 = sy_webdav_url cfg" "sy_webdav_username cfg1 = sy_webdav_username cfg"
    "sy_last_pushed_sha256 cfg1 = e_sha_hex (q_apply E) bs"
    using cfg by (simp_all add: cfg1_def)
  have "pull E S w1 v1 = pull_persist E (pull_with_client E S cfg1 passphrase d w1 v1)"
  proof -
    have "sync_prepare w1 = Inr cfg1" using c(3) kept cfg(3) by (simp add: sync_prepare_def get_app_config_def)
    moreover have "read_secret E i w1 = read_secret E i w" for i using c(5) by (simp add: read_secret_def)
    moreover have "build_client E cfg1 pw = build_client E cfg pw" using same kept by (simp add: build_client_def)
    moreover have "require_db w1 = Inr d" using c(6) p(4) by (simp add: require_db_def)
    ultimately show ?thesis using p same by (simp add: pull_def)
  qed
  moreover obtain upd where "pull_with_client E S cfg1 passphrase d w1 v1 = (Inr (UpToDate, upd), w1)"
  proof -
    obtain r' where r': "sv_get S v1 (sy_remote_path cfg1) (build_if_none_match cfg1) = Inr r'"
      "h_status r' = 304 \<or> is_success (h_status r') \<and> h_status r' \<noteq> 304 \<and> h_body r' = Inr bs"
      using assms(3) put same unfolding returns_put_def by metis
    have "sha_match_outcome cfg1 tag (e_sha_hex (q_apply E) bs) \<noteq> None" for tag
      using assms(4) kept by (simp add: sha_match_outcome_def Let_def)
    then obtain upd where upd: "sha_match_outcome cfg1 (case h_etag r' of Some t \<Rightarrow> normalise_etag_header t | None \<Rightarrow> [])
        (e_sha_hex (q_apply E) bs) = Some upd" by blast
    show thesis
    proof (cases "h_status r' = 304")
      case True
      then show ?thesis using that [of None] r'(1) by (simp add: pull_with_client_def dav_get_def)
    next
      case False
      then show ?thesis using that [of upd] r' upd n assms(5)
        by (simp add: pull_with_client_def dav_get_def pull_body_def Let_def)
    qed
  qed
  ultimately have "pull E S w1 v1 = pull_persist E (Inr (UpToDate, upd), w1)" by simp
  moreover have "fst (persist_sync E cfg2 w1) = Inr ()" for cfg2
    using c by (simp add: persist_sync_def update_sync_def)
  ultimately show ?thesis
    using persist_sync_rest(1) [of E _ w1] c(6)
    by (auto simp: pull_persist_def split: option.splits prod.splits sum.splits) (metis fst_conv snd_conv Inl_Inr_False)+
qed

section \<open>Witnesses\<close>

text \<open>A server with one file: its version and its content; the tag is the version.\<close>

definition dav_tag :: "nat \<times> bytes \<Rightarrow> string \<Rightarrow> string option" where
  "dav_tag v path = Some (quote_etag (dec (fst v)))"

definition dav_ref :: "(nat \<times> bytes) server" where
  "dav_ref =
     \<lparr> sv_get = (\<lambda>v path inm. Inr \<lparr> h_status = 200, h_etag = dav_tag v path, h_body = Inr (snd v) \<rparr>),
       sv_put = (\<lambda>v path body im.
         if im = None \<or> im = dav_tag v path
         then (Inr \<lparr> h_status = 204, h_etag = dav_tag (fst v + 1, body) path, h_body = Inr [] \<rparr>, (fst v + 1, body))
         else (Inr \<lparr> h_status = 412, h_etag = None, h_body = Inr [] \<rparr>, v)) \<rparr>"

lemma dav_ref_ok: "checks_if_match dav_ref dav_tag" "returns_put dav_ref"
  by (auto simp: checks_if_match_def returns_put_def dav_ref_def is_success_def split: if_splits)

definition synced :: "string \<Rightarrow> SyncConfig" where
  "synced e = sync_default\<lparr> sy_enabled := True, sy_webdav_url := ''https://d/'', sy_last_pushed_etag := e \<rparr>"

definition device_ref :: "string \<Rightarrow> device" where
  "device_ref e =
     \<lparr> v_store = \<lparr> cs_file_path = Some ''c'', cs_current = Some (app_default\<lparr> ac_sync := synced e \<rparr>), cs_pending = None,
         cs_pending_at = None, cs_loaded_from_disk = True \<rparr>,
       v_secrets = secret_put (\<lambda>n. True) ''sync.passphrase'' [0x70] (secret_put (\<lambda>n. True) ''sync.webdav.password'' [0x77] store_new),
       v_db = Some empty_db, v_ids = 0, v_ticks = 0 \<rparr>"

text \<open>The device pushed version 1; a peer has stored version 2 since.\<close>

theorem peer_push_blocks_pushes_witness:
  "\<forall>calls. snd (snd (sync_run dav_ref calls (device_ref ''1'') (2, []))) = (2, []) \<and>
     list_all (\<lambda>r. \<nexists>n h. r = Inr (Pushed n h)) (fst (sync_run dav_ref calls (device_ref ''1'') (2, [])))"
proof
  fix calls
  have "pushed_with ''1'' ''letsflutssh.lfs'' (device_ref ''1'')"
    by (simp add: pushed_with_def device_ref_def device_sync_def synced_def sync_default_def)
  moreover have "quote_etag ''1'' \<noteq> quote_etag (dec 2)" by (simp add: quote_etag_def) code_simp
  ultimately show "snd (snd (sync_run dav_ref calls (device_ref ''1'') (2, []))) = (2, []) \<and>
     list_all (\<lambda>r. \<nexists>n h. r = Inr (Pushed n h)) (fst (sync_run dav_ref calls (device_ref ''1'') (2, [])))"
    using peer_push_blocks_pushes [OF dav_ref_ok(1), of "(2, [])" "''letsflutssh.lfs''" "quote_etag (dec 2)" "''1''" "device_ref ''1''" calls]
    by (simp add: dav_tag_def list_all_iff)
qed

definition wire_env :: apply_env where
  "wire_env = \<lparr> e_json = json_table [], e_json_error = (\<lambda>s. ''expected value''), e_b64 = b64_ref, e_sha_hex = (\<lambda>bs. ''5e''),
     e_ids = (\<lambda>n. replicate (n + 1) (CHR ''i'')), e_clock = int \<rparr>"

definition sync_ref :: sync_env where
  "sync_ref = \<lparr> q_apply = wire_env, q_f64 = f64_ref, q_export = (\<lambda>d i. Inr [1, 2, 3]),
     q_unzip = (\<lambda>bs. Inl (EArchive ''zip'')), q_kdf = (\<lambda>p s m t l n. None), q_aead = aead_ref, q_mobile = False,
     q_crypto_error = (\<lambda>e. EArchive ''decrypt''), q_new_client = (\<lambda>u m n p. None), q_canonical = (\<lambda>n. None),
     q_utf8_error = (\<lambda>bs. []), q_install_id = ''abc'', q_mono = 0 \<rparr>"

lemma device_ref_secrets:
  "read_secret E ''sync.webdav.password'' (device_ref e) = Inr ''w''" "read_secret E ''sync.passphrase'' (device_ref e) = Inr ''p''"
  by (simp_all add: read_secret_def device_ref_def secret_get_def secret_put_def store_new_def Let_def from_utf8_def)
     (code_simp+)

text \<open>A first push, then a pull.\<close>

theorem own_push_not_merged_witness:
  "\<exists>w1 w2. push sync_ref dav_ref (device_ref []) (0, []) = (Inr (Pushed 3 ''5e''), w1, (1, [1, 2, 3])) \<and>
     pull sync_ref dav_ref w1 (1, [1, 2, 3]) = (Inr UpToDate, w2) \<and> v_db w2 = Some empty_db"
proof -
  have "app_sanitized (c\<lparr> ac_sync := x \<rparr>) = (app_sanitized c)\<lparr> ac_sync := sync_sanitized x \<rparr>" for c x
    by (simp add: app_sanitized_def)
  moreover have "sync_sanitized (synced []) = synced []"
    by (simp add: synced_def sync_sanitized_def sync_default_def SYNC_VALID_AUTH_METHODS_def)
  ultimately have "app_sanitized (app_default\<lparr> ac_sync := synced [] \<rparr>) = app_default\<lparr> ac_sync := synced [] \<rparr>"
    by (simp add: app_sanitized_default)
  then have inv: "cs_inv (v_store (device_ref []))" by (simp add: cs_inv_def device_ref_def)
  have prep: "sync_prepare (device_ref []) = Inr (synced [])"
    by (simp add: sync_prepare_def get_app_config_def device_ref_def synced_def)
  have cfg: "sy_webdav_password_ref (synced []) = ''sync.webdav.password''" "sy_passphrase_ref (synced []) = ''sync.passphrase''"
    "sy_last_pushed_sha256 (synced []) = []" "sy_last_pushed_etag (synced []) = []" "sy_webdav_auth_method (synced []) = ''basic''"
    by (simp_all add: synced_def sync_default_def)
  have db: "require_db ((device_ref [])\<lparr> v_ticks := n \<rparr>) = Inr empty_db" for n by (simp add: require_db_def device_ref_def)
  obtain w1 where p: "push sync_ref dav_ref (device_ref []) (0, []) = (Inr (Pushed 3 ''5e''), w1, (1, [1, 2, 3]))"
  proof -
    have "\<exists>w1. push sync_ref dav_ref (device_ref []) (0, []) = (Inr (Pushed 3 ''5e''), w1, (1, [1, 2, 3]))"
      by (simp add: push_def prep cfg device_ref_secrets device_clock_def db push_composed_def compose_archive_def
          build_client_def push_upload_def dav_put_def Let_def)
         (simp add: sync_ref_def wire_env_def dav_ref_def is_success_def persist_sync_def update_sync_def device_ref_def cfg
          build_client_def push_upload_def dav_put_def Let_def)
    then show thesis using that by blast
  qed
  have "\<forall>bs. e_sha_hex (q_apply sync_ref) bs \<noteq> []" by (simp add: sync_ref_def wire_env_def)
  moreover have "3 \<le> MAX_ARCHIVE_BYTES" by (simp add: MAX_ARCHIVE_BYTES_def)
  ultimately obtain w2 where "pull sync_ref dav_ref w1 (1, [1, 2, 3]) = (Inr UpToDate, w2)" "v_db w2 = v_db (device_ref [])"
    using own_push_not_merged [OF p inv dav_ref_ok(2)] by blast
  moreover have "v_db (device_ref []) = Some empty_db" by (simp add: device_ref_def)
  ultimately show ?thesis using p by metis
qed

end
