(* ===== verification/Spec2Isabelle.thy ===== *)
theory Spec2Isabelle
  imports
    Security_Config
    Persisted_Limit
    Autolock
    Keychain_Gate
    Folder_Path
    Session_Tree
    Session_History
    Ssh_Wire
    Known_Hosts
    Recorder_Stream
    Storage_Cap
    Transfer_Conflict
    Transfer_Driver
    Ssh_Config
    Migration_Runner
    Archive_Envelope
    Iso8601
    Update_Metadata
    Connection_Spec
    Connect_Auth
    Tier_Unlock
    Db_Folders
    Sync_Service
begin

text \<open>
  \<^bold>\<open>LetsFLUTssh: the logic of \<open>lfs_core\<close>.\<close>
  LetsFLUTssh is an SSH and file-transfer client.  Its user interface is Flutter code; everything that
  decides something lives in the Rust crate \<open>rust/crates/lfs_core\<close>, behind a generated bridge
  (\<open>lfs_frb\<close>).  This development models the crate's own logic and proves what it promises.  All paths
  below are relative to \<open>src/rust/crates/lfs_core/src\<close>.

  \<^bold>\<open>How the parts fit together.\<close>
  At start-up the migration runner visits the files under the application directory in dependency
  order and brings each to the version of the build, and the configuration store reads the preferences.
  The security layer then decides whether the database may be opened: an unlock orchestrator per tier
  drives the lock-state machine, asks the failed-attempt limiter (in memory, or persisted with an
  integrity tag), checks the master password or the keychain password gate, stages the key in the
  page-locked secret store and opens the database; the auto-lock supervisor locks again after idling.
  Once unlocked, sessions live in tables with foreign keys and soft deletes, reached through one access
  object per table, and are shown as a tree built from folder paths, with undo and redo.  Archives and
  sync pulls go through one import driver into the same tables; sync carries the encrypted archive to a WebDAV
  server and back.  A connection is an actor driven by a connect task and a transport monitor, with
  prompts for host keys and pass phrases on the way; hosts come from imported OpenSSH configurations and are
  checked against the known-hosts table; signatures are converted to SSH wire form.  Terminal output is
  queued, sealed and written as a recording with a seek index, under a storage cap, and read back by the
  player.  Transfers run through a queue and a pool of workers with per-task cancellation and per-batch
  conflict decisions.  The updater trusts a list of hosts and a checksum manifest.

  \<^bold>\<open>Conventions.\<close>
  A Rust \<open>String\<close> is its byte string (\<open>string\<close>, one \<open>char\<close> per byte), a \<open>Vec<u8>\<close> a list of 8-bit words; fixed
  width integers are words where they wrap or are cast (handles, \<open>as i32\<close>, \<open>as u32\<close>, length
  prefixes) and \<open>nat\<close> or \<open>int\<close> with the range test written out where the code only compares or
  saturates.  A \<open>HashMap\<close> is an association list used through \<open>hget\<close>, \<open>hput\<close> and \<open>hdel\<close>, and so is a table
  with a primary key.  A \<open>Result\<close> is a sum with the error on the left (\<open>Core_Error\<close> has the crate's error
  type); a panic is a value where the code can panic.  Process-wide singletons and mutexes are explicit
  states; the calls are the atomic steps, and a task is cut at its lock and await points.  Code of other
  crates (JSON, base64, HMAC, HKDF, Argon2id, AES-GCM, Unicode lower-casing, SQLite's storage, HTTP) and the file
  system, the clock and random bytes are parameters.  What is relied on is a named hypothesis with a concrete
  instance that satisfies it: \<open>json_ok\<close>, \<open>b64_ok\<close>, \<open>f64_ok\<close>, \<open>aead_ok\<close>, \<open>aead_binds\<close> and \<open>aead_total\<close> in \<open>External\<close>
  and the recorder theories, \<open>blob_reads\<close> (the gate's envelope is read as the object it spells),
  \<open>fresh_ids\<close> (random ids do not repeat and are not in use), \<open>checks_if_match\<close> and \<open>returns_put\<close> (a WebDAV server
  honours \<open>If-Match\<close> and returns what was put).

  \<^bold>\<open>Theories.\<close>
  \<^item> \<open>Prelude\<close>: the operations of the standard library the code uses (\<open>str\<close> searching, splitting, trimming,
    lines, numerals, byte order, UTF-8 validity, hash maps, sort and dedup) with their laws.
  \<^item> \<open>Interfaces\<close>: the contracts as locales: \<open>keyed_store\<close> (hash maps and the known-hosts table),
    \<open>entry_registry\<close> (independent entries under interleaved commands: limiters, conflict batches),
    \<open>step_invariant\<close> (machines with an invariant: lock state, history, queues, connections, prompts, the
    configuration store), \<open>codec\<close> and \<open>fixed_records\<close> (records and streams of fixed-size records).
  \<^item> \<open>Tier_Machine\<close>, \<open>Security_Config\<close>, \<open>Rate_Limit\<close>, \<open>Persisted_Limit\<close>, \<open>Secret_Store\<close>, \<open>Autolock\<close>, \<open>Keychain_Gate\<close>,
    \<open>Keychain_Actor\<close>, \<open>Master_Password\<close>, \<open>Tier_Unlock\<close> (\<open>security/\<close>): published events are a walk of the lock
    graph; no unlock without success; lock-outs grow on schedule, survive restarts and are not shortened by
    editing the file; page locks balance; idling locks; a password set up before a restart unlocks the same
    key after it and, in every order of attempts, guesses are limited in rate (the locale
    \<open>guarded_attempts\<close>, interpreted on both password tiers); refused unlocks change nothing.
  \<^item> \<open>Support_Files\<close> (\<open>path.rs\<close>, the locale \<open>atomic_store\<close>), \<open>App_Config\<close> and \<open>Config_Store\<close> (\<open>config/mod.rs\<close>,
    \<open>config_store.rs\<close>): atomic writes; every stored configuration is valid and survives a restart.
  \<^item> \<open>Folder_Path\<close>, \<open>Session_Tree\<close>, \<open>Session_History\<close>: paths classify parent chains, the tree holds every
    session once under its path, undo and redo are bounded and inverse.
  \<^item> \<open>Db_Tables\<close> (the schema of \<open>db/mod.rs\<close>), \<open>Db_Dao\<close> (the access objects of \<open>db/\<close>), \<open>Db_Integrity\<close>,
    \<open>Db_Folders\<close>: a table is an association list, a statement changes the database or fails on a constraint, a
    function is the sequence of its statements; every reachable database is consistent, folder moves keep
    the tree acyclic, the recursive delete is exact.
  \<^item> \<open>Archive_Envelope\<close>, \<open>Iso8601\<close> (the container and its times), \<open>Archive_Apply\<close> (\<open>archive/apply/mod.rs\<close>, the driver
    of imports and of the merge), \<open>Archive_Import\<close> (the locales \<open>report_invariant\<close>, \<open>import_invariant\<close> and
    \<open>replace_invariant\<close>: what every write of the driver keeps is kept by every import; interpreted on
    integrity, on error reports, on the rows of keys and on links), \<open>Sync_Merge\<close> and \<open>Sync_Service\<close>
    (\<open>sync/\<close>, \<open>webdav/client.rs\<close>): a replace import is all or nothing, imported keys are not authorised, the
    merge keeps the newest rule, an own push is not merged back.
  \<^item> \<open>Connection\<close>, \<open>Connection_Driver\<close>, \<open>Connection_Spec\<close>, \<open>Prompt_Registry\<close>, \<open>Connect_Auth\<close> (\<open>connection/mod.rs\<close>,
    \<open>security/prompt_registry.rs\<close>): every interleaving refines an abstract machine on rows, attempts settle, the
    timeout stands still during prompts.
  \<^item> \<open>Ssh_Wire\<close>, \<open>Known_Hosts_Parser\<close>, \<open>Known_Hosts\<close>, \<open>Ssh_Config\<close>: canonical integers, DER and raw
    signatures agree; import, export and the host check; first value wins, includes inline, globs decide the
    declarative language.
  \<^item> \<open>Recorder_Text\<close>, \<open>Recorder_File\<close>, \<open>Recorder_Playback\<close>, \<open>Recorder_Queue\<close>, \<open>Recorder_Stream\<close>, \<open>Recorder_Index\<close>,
    \<open>Storage_Cap\<close> (\<open>recorder/\<close>): what the terminal produced is what the player shows, a truncated file plays a
    prefix, seeking after a crash, minimal eviction.
  \<^item> \<open>Transfer_Queue\<close>, \<open>Transfer_Driver\<close>, \<open>Transfer_Conflict\<close>: the table agrees with the published
    events, progress is throttled, a cancel that reaches a worker is never lost in any interleaving.
  \<^item> \<open>Migration_Order\<close>, \<open>Migration_Runner\<close>, \<open>Update_Metadata\<close>, \<open>Path_Rules\<close>: the start-up order, termination and
    result of the run, the version gate; download rules; path rules.
  \<^item> This theory: the start-up pass accepts the file the keychain gate writes.

  \<^bold>\<open>Loops and bounds.\<close>
  Recursion is structural or has a termination proof (the search for a free label ends because only finitely
  many are taken).  Two loops of the code may in principle not end and are \<open>partial_function\<close>s into
  \<open>option\<close>: the topological sort, proved to return for every registry, and the migration chain, proved to
  return when every migration advances.  Include expansion recurses on the code's own depth limit and the
  walk up the folder tree on its 65536 hops, after which the code fails with an error.  The recursive
  delete is iterated as often as there are folder rows, which reaches every descendant.  A connect attempt
  settles within 18 turns of its driver.  Queue theorems hold for calm runs, in which no two tasks send to
  one mailbox at a time; recordings have room below the 64-bit counters (\<open>room_for\<close>).

  \<^bold>\<open>Behaviour that differs from the comments.\<close>
  Proved as they are: a revoked host key is imported as trusted; exported IPv6 hosts are lost on import; a
  cancel before a worker picks the task up is lost; a no-break space panics the configuration importer;
  user information defeats the download allowlist; the schema version is truncated to 32 bits; an
  unknown gate version that is not an unsigned integer reads as legacy; a handshake that completes after a
  disconnect leaves a connected actor nobody sees; an unlock of the plaintext tier while unlocked replaces the
  staged key; a password change that fails halfway locks the user out; a failed configuration save is
  not retried and a stale one can win; a session deleted here comes back with a pull; a session stored
  without its connection data stays so; a pulled host key replaces the pinned one; after a peer's push a
  device never pushes again; a replace import keeps the links of what it cleared.

  \<^bold>\<open>Not modelled.\<close>
  The network and protocol drivers (russh connections, SFTP, S3, the other WebDAV verbs, port forwarding,
  the agent), the opening and rekeying of the database file, the composition of archives and QR codes,
  terminal emulation, operating-system security back ends, logging, the bridge and the user interface: they are
  input and output, generated code or calls into libraries.
\<close>

section \<open>Properties across components\<close>

text \<open>The start-up pass on a disk that holds only the keychain gate file.\<close>

lemma gate_only_startup:
  assumes "disk = (\<lambda>name. if name = ''security_pass_hash.bin'' then File len (Inr content) else NotFound)"
    and "art_read_version (PassGateArtefact J parse_err) disk = Value 1"
  shows "run_on_startup (build_app_registry J parse_err) disk =
    Some (\<lparr> steps = [], future_versions = [], fatal_error = None \<rparr>, disk)"
proof -
  let ?reg = "build_app_registry J parse_err"
  have idx: "artefacts ?reg ! 3 = HwSaltArtefact" "artefacts ?reg ! 2 = PassGateArtefact J parse_err"
      "artefacts ?reg ! 1 = KdfArtefact" "artefacts ?reg ! 0 = ConfigArtefact J parse_err"
    by (simp_all add: build_app_registry_def numeral_eq_Suc)
  have "migrate_artefact HwSaltArtefact ?reg [] disk = Some (OkOutcome, [], disk)"
      "migrate_artefact KdfArtefact ?reg [] disk = Some (OkOutcome, [], disk)"
      "migrate_artefact (ConfigArtefact J parse_err) ?reg [] disk = Some (OkOutcome, [], disk)"
    by (simp_all add: migrate_artefact_def HwSaltArtefact_def KdfArtefact_def ConfigArtefact_def hw_salt_version_def
        kdf_version_def json_version_def exists_file_def assms(1))
  moreover have "migrate_artefact (PassGateArtefact J parse_err) ?reg [] disk = Some (OkOutcome, [], disk)"
    using assms(2) by (simp add: migrate_artefact_def PassGateArtefact_def)
  ultimately show ?thesis by (simp add: run_on_startup_def app_order idx del: One_nat_def)
qed

text \<open>
  C31. What the keychain gate writes is current for the start-up pass: on a disk that holds only the
  gate file with the envelope of a password, and with a JSON parser that reads the envelope as the
  object it spells, the migration run has nothing to do and reports no failure, and the gate's own
  reader accepts the same file.
\<close>

theorem gate_file_passes_startup:
  assumes "b64_ok B" and "salt \<noteq> []" and "hmac \<noteq> []" and "written = encode_disk_blob B salt hmac"
    and "json_parse J written = Some (blob_json B salt hmac)" and "utf8_ok (str_bytes written)"
    and "disk = (\<lambda>name. if name = ''security_pass_hash.bin'' then File (length written) (Inr (str_bytes written)) else NotFound)"
  shows "(\<exists>report. run_on_startup (build_app_registry J parse_err) disk = Some (report, disk) \<and>
      no_op report \<and> \<not> has_failures report) \<and>
    decode_disk_blob J B written = Inr \<lparr> blob_salt = salt, blob_hmac = hmac \<rparr>"
proof -
  have parse: "json_parse_bytes J (str_bytes written) = Some (blob_json B salt hmac)"
    using assms(5,6) by (simp add: json_parse_bytes_def from_utf8_def)
  have one: "as_i32 1 = 1" by code_simp
  have "art_read_version (PassGateArtefact J parse_err) disk = Value 1"
    using parse by (simp add: PassGateArtefact_def json_version_def exists_file_def read_file_def assms(7)
        blob_json_def as_i64_def one)
  then have run: "run_on_startup (build_app_registry J parse_err) disk =
      Some (\<lparr> steps = [], future_versions = [], fatal_error = None \<rparr>, disk)"
    by (rule gate_only_startup [OF assms(7)])
  have "decode_disk_blob J B written = Inr \<lparr> blob_salt = salt, blob_hmac = hmac \<rparr>"
    using decode_blob_json [OF assms(5,1)] assms(2,3) by simp
  with run show ?thesis by (simp add: no_op_def has_failures_def)
qed

theorem gate_file_passes_startup_witness:
  "\<exists>report disk. run_on_startup
     (build_app_registry (\<lparr> json_parse = (\<lambda>s. Some (blob_json b64_ref [65] [66])), json_print = (\<lambda>v. []) \<rparr>) (\<lambda>b. [])) disk
       = Some (report, disk) \<and> no_op report"
proof -
  let ?J = "\<lparr> json_parse = (\<lambda>s. Some (blob_json b64_ref [65] [66])), json_print = (\<lambda>v. []) \<rparr>"
  have "utf8_ok (str_bytes (encode_disk_blob b64_ref [65] [66]))" by code_simp
  from gate_file_passes_startup [where J = ?J and parse_err = "\<lambda>b. []", OF b64_ref_ok _ _ refl _ this refl]
  show ?thesis by fastforce
qed

end
